(* ===== verification/Prelude.thy ===== *)
theory Prelude
  imports Main "HOL-Library.Word" "HOL-Library.AList"
begin

text \<open>
  Shared vocabulary of the Patchli development.  Three groups:
  \<^item> time and machine integers: \<open>time\<close> is a wall-clock instant in nanoseconds since the Unix
    epoch, as \<^verbatim>\<open>time.Time\<close> in Go; \<open>int64\<close> is the two's complement wrap of a Go \<^verbatim>\<open>int64\<close>;
  \<^item> Go maps: a \<^verbatim>\<open>map[K]V\<close> is an association list, with the operations the sources use
    (\<open>gget\<close>, \<open>gput\<close>, \<open>gdel\<close>, \<open>gretain\<close>); the locale \<open>go_store\<close> states what every client
    relies on, and the association lists are its interpretation;
  \<^item> single-use registers: the locale \<open>single_use\<close> is the contract that the nonce tables, the
    enrollment table and the command replay cache share (a key that was taken is refused until
    its record expires), with the trace theorem proved once.
\<close>

named_theorems go_simps \<open>unfolding rules for the Go library fragments\<close>
named_theorems store_simps \<open>rules that compute with Go maps\<close>
named_theorems step_defs \<open>definitions of the operations of a component\<close>

section \<open>Time and machine integers\<close>

type_synonym time = int
type_synonym duration = int
type_synonym bytes = string

abbreviation (input) second :: duration where "second \<equiv> 1000000000"
abbreviation (input) minute :: duration where "minute \<equiv> 60000000000"
abbreviation (input) hour :: duration where "hour \<equiv> 3600000000000"

definition int64 :: "int \<Rightarrow> int" where
  "int64 x = (x + 2 ^ 63) mod 2 ^ 64 - 2 ^ 63"

definition is_int64 :: "int \<Rightarrow> bool" where
  "is_int64 x \<longleftrightarrow> - (2 ^ 63) \<le> x \<and> x < 2 ^ 63"

lemma int64_id: "is_int64 x \<Longrightarrow> int64 x = x"
  by (simp add: int64_def is_int64_def)

lemma int64_range: "is_int64 (int64 x)"
  by (simp add: int64_def is_int64_def)

text \<open>
  \<^verbatim>\<open>time.Unix(sec, 0)\<close> keeps seconds since year 1 in an \<^verbatim>\<open>int64\<close>, so a second count close to
  the top of the range wraps to the far past; \<^verbatim>\<open>Time.Unix\<close> rounds down.
\<close>

definition time_Unix :: "int \<Rightarrow> time" where
  "time_Unix s = (int64 (s + 62135596800) - 62135596800) * second"

definition Unix :: "time \<Rightarrow> int" where
  "Unix t = t div second"

lemma time_Unix_id: "is_int64 (s + 62135596800) \<Longrightarrow> time_Unix s = s * second"
  by (simp add: time_Unix_def int64_id)

lemma Unix_le: "Unix t * second \<le> t"
  by (simp add: Unix_def div_times_less_eq_dividend)

lemma Unix_gt: "t < Unix t * second + second"
proof -
  have "t = second * (t div second) + t mod second" by simp
  moreover have "t mod second < second" by simp
  ultimately show ?thesis unfolding Unix_def by linarith
qed

section \<open>Go strings\<close>

text \<open>A Go string is a sequence of bytes, here a \<open>char list\<close>.\<close>

definition has_prefix :: "string \<Rightarrow> string \<Rightarrow> bool" where
  "has_prefix s p \<longleftrightarrow> take (length p) s = p"

definition trim_prefix :: "string \<Rightarrow> string \<Rightarrow> string" where
  "trim_prefix s p = (if has_prefix s p then drop (length p) s else s)"

fun contains :: "string \<Rightarrow> string \<Rightarrow> bool" where
  "contains [] sub = (sub = [])"
| "contains (c # s) sub = (has_prefix (c # s) sub \<or> contains s sub)"

definition replace_char :: "char \<Rightarrow> string \<Rightarrow> string \<Rightarrow> string" where
  "replace_char c r s = concat (map (\<lambda>x. if x = c then r else [x]) s)"

text \<open>\<^verbatim>\<open>strings.Split(s, sep)\<close> for a one-byte separator: never the empty list.\<close>

fun split_on :: "char \<Rightarrow> string \<Rightarrow> string list" where
  "split_on c [] = [[]]"
| "split_on c (x # xs) =
     (if x = c then [] # split_on c xs
      else case split_on c xs of [] \<Rightarrow> [[x]] | w # ws \<Rightarrow> (x # w) # ws)"

fun join_with :: "string \<Rightarrow> string list \<Rightarrow> string" where
  "join_with sep [] = []"
| "join_with sep [w] = w"
| "join_with sep (w # v # ws) = w @ sep @ join_with sep (v # ws)"

text \<open>
  \<^verbatim>\<open>strings.TrimSpace\<close> trims every code point with the Unicode White\_Space property; the list
  holds their UTF-8 encodings, so trimming on the right is trimming the reversed string by the
  reversed encodings.
\<close>

definition go_spaces :: "string list" where
  "go_spaces =
     [[CHR 0x09], [CHR 0x0A], [CHR 0x0B], [CHR 0x0C], [CHR 0x0D], [CHR 0x20],
      [CHR 0xC2, CHR 0x85], [CHR 0xC2, CHR 0xA0], [CHR 0xE1, CHR 0x9A, CHR 0x80],
      [CHR 0xE2, CHR 0x80, CHR 0x80], [CHR 0xE2, CHR 0x80, CHR 0x81], [CHR 0xE2, CHR 0x80, CHR 0x82],
      [CHR 0xE2, CHR 0x80, CHR 0x83], [CHR 0xE2, CHR 0x80, CHR 0x84], [CHR 0xE2, CHR 0x80, CHR 0x85],
      [CHR 0xE2, CHR 0x80, CHR 0x86], [CHR 0xE2, CHR 0x80, CHR 0x87], [CHR 0xE2, CHR 0x80, CHR 0x88],
      [CHR 0xE2, CHR 0x80, CHR 0x89], [CHR 0xE2, CHR 0x80, CHR 0x8A], [CHR 0xE2, CHR 0x80, CHR 0xA8],
      [CHR 0xE2, CHR 0x80, CHR 0xA9], [CHR 0xE2, CHR 0x80, CHR 0xAF], [CHR 0xE2, CHR 0x81, CHR 0x9F],
      [CHR 0xE3, CHR 0x80, CHR 0x80]]"

function drop_spaces :: "string list \<Rightarrow> string \<Rightarrow> string" where
  "drop_spaces ws s =
     (case find (\<lambda>w. w \<noteq> [] \<and> has_prefix s w) ws of
        None \<Rightarrow> s
      | Some w \<Rightarrow> drop_spaces ws (drop (length w) s))"
  by pat_completeness auto
termination
proof (relation "measure (\<lambda>(ws, s). length s)", goal_cases)
  case (2 ws s w)
  then obtain "w \<noteq> []" "has_prefix s w" by (auto simp: find_Some_iff)
  then have "length w \<le> length s" "0 < length w"
    by (auto simp: has_prefix_def) (metis length_take min.absorb_iff2 nat_le_linear)
  then have "length s - length w < length s" by linarith
  then show ?case by simp
qed simp

declare drop_spaces.simps [simp del]

definition trim_space :: "string \<Rightarrow> string" where
  "trim_space s = rev (drop_spaces (map rev go_spaces) (rev (drop_spaces go_spaces s)))"

text \<open>
  Case mapping, as far as it reaches ASCII: \<^verbatim>\<open>strings.ToLower\<close> sends U+0130 to \<open>i\<close> and U+212A to
  \<open>k\<close>; \<^verbatim>\<open>strings.EqualFold\<close> also identifies U+017F with \<open>s\<close>.  Other non-ASCII letters never meet
  an ASCII one, and every comparison in the sources is against an ASCII literal.
\<close>

definition ascii_lower :: "char \<Rightarrow> char" where
  "ascii_lower c = (if 65 \<le> (of_char c :: nat) \<and> (of_char c :: nat) \<le> 90 then char_of (of_char c + (32::nat)) else c)"

fun to_lower :: "string \<Rightarrow> string" where
  "to_lower [] = []"
| "to_lower (c # s) =
     (if c = CHR 0xC4 \<and> has_prefix s [CHR 0xB0] then CHR ''i'' # to_lower (drop 1 s)
      else if c = CHR 0xE2 \<and> has_prefix s [CHR 0x84, CHR 0xAA] then CHR ''k'' # to_lower (drop 2 s)
      else ascii_lower c # to_lower s)"

fun case_fold :: "string \<Rightarrow> string" where
  "case_fold [] = []"
| "case_fold (c # s) =
     (if c = CHR 0xC5 \<and> has_prefix s [CHR 0xBF] then CHR ''s'' # case_fold (drop 1 s)
      else if c = CHR 0xE2 \<and> has_prefix s [CHR 0x84, CHR 0xAA] then CHR ''k'' # case_fold (drop 2 s)
      else ascii_lower c # case_fold s)"

definition EqualFold :: "string \<Rightarrow> string \<Rightarrow> bool" where
  "EqualFold s t \<longleftrightarrow> case_fold s = case_fold t"

lemma has_prefix_Nil [simp]: "has_prefix s []"
  by (simp add: has_prefix_def)

lemma has_prefix_Cons [simp]:
  "has_prefix [] (p # ps) = False"
  "has_prefix (c # s) (p # ps) = (c = p \<and> has_prefix s ps)"
  by (auto simp: has_prefix_def)

lemma has_prefix_append [simp]: "has_prefix (p @ s) p"
  by (simp add: has_prefix_def)

lemma has_prefix_iff: "has_prefix s p \<longleftrightarrow> (\<exists>r. s = p @ r)"
  unfolding has_prefix_def by (metis append_eq_conv_conj)

lemma trim_prefix_append [simp]: "trim_prefix (p @ s) p = s"
  by (simp add: trim_prefix_def)

lemma contains_iff: "contains s sub \<longleftrightarrow> (\<exists>a b. s = a @ sub @ b)"
proof (induction s)
  case Nil
  then show ?case by auto
next
  case (Cons c s)
  note IH = Cons.IH
  show ?case
  proof
    assume "contains (c # s) sub"
    then consider "has_prefix (c # s) sub" | "contains s sub" by auto
    then show "\<exists>a b. c # s = a @ sub @ b"
      by cases (metis append_Nil has_prefix_iff, metis Cons.IH append_Cons)
  next
    assume "\<exists>a b. c # s = a @ sub @ b"
    then obtain a b where "c # s = a @ sub @ b" by blast
    then show "contains (c # s) sub"
    proof (cases a)
      case Nil
      with \<open>c # s = a @ sub @ b\<close> have "has_prefix (c # s) sub" by (metis append_Nil has_prefix_iff)
      then show ?thesis by simp
    next
      case (Cons a0 a')
      with \<open>c # s = a @ sub @ b\<close> have "contains s sub" using IH by auto
      then show ?thesis by simp
    qed
  qed
qed

lemma split_on_neq_Nil [simp]: "split_on c s \<noteq> []"
  by (induction s) (auto split: list.splits)

lemma join_split: "join_with [c] (split_on c s) = s"
proof (induction s)
  case (Cons x xs)
  obtain w ws where "split_on c xs = w # ws" by (cases "split_on c xs") auto
  with Cons show ?case by (cases ws) auto
qed simp

lemma replace_char_Nil [simp]: "replace_char c r [] = []"
  by (simp add: replace_char_def)

lemma replace_char_Cons [simp]:
  "replace_char c r (x # s) = (if x = c then r else [x]) @ replace_char c r s"
  by (simp add: replace_char_def)

section \<open>Go maps\<close>

type_synonym ('k, 'v) gomap = "('k \<times> 'v) list"

definition gwf :: "('k, 'v) gomap \<Rightarrow> bool" where
  "gwf m \<longleftrightarrow> distinct (map fst m)"

abbreviation gget :: "('k, 'v) gomap \<Rightarrow> 'k \<Rightarrow> 'v option" where
  "gget m k \<equiv> map_of m k"

abbreviation gput :: "'k \<Rightarrow> 'v \<Rightarrow> ('k, 'v) gomap \<Rightarrow> ('k, 'v) gomap" where
  "gput k v m \<equiv> AList.update k v m"

abbreviation gdel :: "'k \<Rightarrow> ('k, 'v) gomap \<Rightarrow> ('k, 'v) gomap" where
  "gdel k m \<equiv> AList.delete k m"

definition gretain :: "('k \<Rightarrow> 'v \<Rightarrow> bool) \<Rightarrow> ('k, 'v) gomap \<Rightarrow> ('k, 'v) gomap" where
  "gretain P m = filter (\<lambda>(k, v). P k v) m"

definition gmap :: "('k \<Rightarrow> 'v \<Rightarrow> 'w) \<Rightarrow> ('k, 'v) gomap \<Rightarrow> ('k, 'w) gomap" where
  "gmap f m = map (\<lambda>(k, v). (k, f k v)) m"

lemma gwf_Nil [simp]: "gwf []"
  by (simp add: gwf_def)

lemma gwf_gput [simp, intro]: "gwf m \<Longrightarrow> gwf (gput k v m)"
  by (simp add: gwf_def distinct_update)

lemma gwf_gdel [simp, intro]: "gwf m \<Longrightarrow> gwf (gdel k m)"
  by (simp add: gwf_def distinct_delete)

lemma gwf_gretain [simp, intro]: "gwf m \<Longrightarrow> gwf (gretain P m)"
  by (induction m) (auto simp: gwf_def gretain_def)

lemma gwf_gmap [simp]: "gwf (gmap f m) = gwf m"
proof -
  have "map fst (gmap f m) = map fst m" by (induction m) (auto simp: gmap_def)
  then show ?thesis by (simp add: gwf_def)
qed

lemma gget_gput [simp, store_simps]: "gget (gput k v m) k' = (if k' = k then Some v else gget m k')"
  by (simp add: update_conv)

lemma gget_gdel [simp, store_simps]: "gget (gdel k m) k' = (if k' = k then None else gget m k')"
  by (auto simp: delete_conv)

lemma gget_gretain [store_simps]:
  "gwf m \<Longrightarrow> gget (gretain P m) k =
     (case gget m k of None \<Rightarrow> None | Some v \<Rightarrow> if P k v then Some v else None)"
proof (induction m)
  case (Cons e m)
  obtain k0 v0 where e: "e = (k0, v0)" by (cases e)
  from Cons.prems e have wf: "gwf m" and notin: "k0 \<notin> fst ` set m" by (auto simp: gwf_def)
  then have "gget m k0 = None" by (simp add: map_of_eq_None_iff)
  with Cons.IH [OF wf] have "gget (gretain P m) k0 = None" if "k = k0" using that by simp
  with Cons.IH [OF wf] e show ?case by (auto simp: gretain_def)
qed (simp add: gretain_def)

lemma gget_gmap [store_simps]: "gget (gmap f m) k = map_option (f k) (gget m k)"
  by (induction m) (auto simp: gmap_def)

lemma gget_Some_in_set: "gwf m \<Longrightarrow> (gget m k = Some v) \<longleftrightarrow> ((k, v) \<in> set m)"
  by (simp add: gwf_def)

text \<open>The contract every client of a Go map relies on.\<close>

locale go_store =
  fixes empty :: 'm
    and get :: "'m \<Rightarrow> 'k \<Rightarrow> 'v option"
    and put :: "'k \<Rightarrow> 'v \<Rightarrow> 'm \<Rightarrow> 'm"
    and del :: "'k \<Rightarrow> 'm \<Rightarrow> 'm"
    and retain :: "('k \<Rightarrow> 'v \<Rightarrow> bool) \<Rightarrow> 'm \<Rightarrow> 'm"
    and invar :: "'m \<Rightarrow> bool"
  assumes get_empty: "get empty k = None"
    and get_put: "get (put k v m) k' = (if k' = k then Some v else get m k')"
    and get_del: "get (del k m) k' = (if k' = k then None else get m k')"
    and get_retain: "invar m \<Longrightarrow> get (retain P m) k =
       (case get m k of None \<Rightarrow> None | Some v \<Rightarrow> if P k v then Some v else None)"
    and invar_empty: "invar empty"
    and invar_put: "invar m \<Longrightarrow> invar (put k v m)"
    and invar_del: "invar m \<Longrightarrow> invar (del k m)"
    and invar_retain: "invar m \<Longrightarrow> invar (retain P m)"
begin

lemma get_after_sweep_put:
  "invar m \<Longrightarrow> get (put k v (retain P m)) k' =
     (if k' = k then Some v
      else case get m k' of None \<Rightarrow> None | Some w \<Rightarrow> if P k' w then Some w else None)"
  by (simp add: get_put get_retain)

lemma sweep_keeps: "invar m \<Longrightarrow> get m k = Some v \<Longrightarrow> P k v \<Longrightarrow> get (retain P m) k = Some v"
  by (simp add: get_retain)

lemma sweep_drops: "invar m \<Longrightarrow> get m k = Some v \<Longrightarrow> \<not> P k v \<Longrightarrow> get (retain P m) k = None"
  by (simp add: get_retain)

end

interpretation alist: go_store "[]" map_of AList.update AList.delete gretain gwf
  by unfold_locales (auto simp: gget_gretain)

section \<open>Single-use registers\<close>

text \<open>
  A register of taken keys.  \<open>attempt now k e s\<close> tries to take \<open>k\<close> with a record that expires at
  \<open>e\<close>; \<open>recorded s k\<close> is the expiry on record.  The clock never runs backwards in a run.
\<close>

fun run_calls :: "('s \<Rightarrow> 'c \<Rightarrow> bool \<times> 's) \<Rightarrow> 's \<Rightarrow> 'c list \<Rightarrow> bool list \<times> 's" where
  "run_calls f s [] = ([], s)"
| "run_calls f s (c # cs) =
     (let r = f s c; rest = run_calls f (snd r) cs in (fst r # fst rest, snd rest))"

lemma length_run_calls: "length (fst (run_calls f s cs)) = length cs"
  by (induction cs arbitrary: s) (auto simp: Let_def)

lemma run_calls_nth:
  "i < length cs \<Longrightarrow> fst (run_calls f s cs) ! i \<Longrightarrow> \<exists>s'. fst (f s' (cs ! i))"
proof (induction cs arbitrary: s i)
  case (Cons c cs)
  then show ?case by (cases i) (auto simp: Let_def)
qed simp

lemma run_calls_append:
  "run_calls f s (cs @ ds) =
     (let r = run_calls f s cs; r' = run_calls f (snd r) ds in (fst r @ fst r', snd r'))"
  by (induction cs arbitrary: s) (auto simp: Let_def)

lemma run_calls_nth_state:
  "i < length cs \<Longrightarrow> fst (run_calls f s cs) ! i = fst (f (snd (run_calls f s (take i cs))) (cs ! i))"
proof (induction cs arbitrary: s i)
  case (Cons c cs)
  then show ?case by (cases i) (auto simp: Let_def)
qed simp

lemma run_calls_invariant:
  assumes "\<And>s c. P s \<Longrightarrow> c \<in> set cs \<Longrightarrow> P (snd (f s c))" and "P s"
  shows "P (snd (run_calls f s cs))"
  using assms by (induction cs arbitrary: s) (auto simp: Let_def)

text \<open>A call is refused if an invariant of the calls before it excludes it.\<close>

lemma run_calls_refused:
  assumes "P s" and "i < length cs"
    and "\<And>s c. P s \<Longrightarrow> c \<in> set (take (Suc i) cs) \<Longrightarrow> P (snd (f s c))"
    and "\<And>s. P s \<Longrightarrow> cs ! i \<in> set (take (Suc i) cs) \<Longrightarrow> \<not> fst (f s (cs ! i))"
  shows "\<not> fst (run_calls f s cs) ! i"
proof -
  have "P (snd (run_calls f s (take i cs)))"
    by (rule run_calls_invariant [where P = P])
      (use assms(1,3) in \<open>auto simp: take_Suc_conv_app_nth [OF assms(2)]\<close>)
  moreover have "cs ! i \<in> set (take (Suc i) cs)"
    unfolding take_Suc_conv_app_nth [OF assms(2)] by simp
  ultimately show ?thesis using assms(4) by (simp only: run_calls_nth_state [OF assms(2)]) simp
qed

type_synonym 'k take_call = "time \<times> 'k \<times> time"

definition clock_from :: "time \<Rightarrow> 'k take_call list \<Rightarrow> bool" where
  "clock_from t cs \<longleftrightarrow> sorted (t # map fst cs)"

lemma clock_from_Cons: "clock_from t (c # cs) \<longleftrightarrow> t \<le> fst c \<and> clock_from (fst c) cs"
  unfolding clock_from_def by (auto intro: order_trans)

lemma clock_from_mono: "clock_from t cs \<Longrightarrow> c \<in> set cs \<Longrightarrow> t \<le> fst c"
  by (auto simp: clock_from_def)

locale single_use =
  fixes attempt :: "time \<Rightarrow> 'k \<Rightarrow> time \<Rightarrow> 's \<Rightarrow> bool \<times> 's"
    and recorded :: "'s \<Rightarrow> 'k \<Rightarrow> time option"
    and expired :: "time \<Rightarrow> time \<Rightarrow> bool"
    and invar :: "'s \<Rightarrow> bool"
  assumes accept_iff: "invar s \<Longrightarrow> fst (attempt now k e s) \<longleftrightarrow>
       (case recorded s k of None \<Rightarrow> True | Some e' \<Rightarrow> expired now e')"
    and accept_records: "invar s \<Longrightarrow> fst (attempt now k e s) \<Longrightarrow>
       recorded (snd (attempt now k e s)) k = Some e"
    and attempt_keeps: "invar s \<Longrightarrow> recorded s k' = Some e' \<Longrightarrow> \<not> expired now e' \<Longrightarrow>
       recorded (snd (attempt now k e s)) k' = Some e'"
    and attempt_invar: "invar s \<Longrightarrow> invar (snd (attempt now k e s))"
    and expired_mono: "expired t e \<Longrightarrow> t \<le> t' \<Longrightarrow> expired t' e"
begin

lemma attempt_unexpired:
  assumes "invar s" and "recorded s k' = Some e'" and "\<not> expired now e'"
  shows "recorded (snd (attempt now k e s)) k' = Some e'"
    and "k = k' \<Longrightarrow> \<not> fst (attempt now k e s)"
  using assms by (auto simp: attempt_keeps accept_iff)

text \<open>While the record of \<open>k\<close> is live, no attempt on \<open>k\<close> is accepted, whatever else is taken.\<close>

lemma refused_while_live:
  assumes "invar s" and "recorded s k = Some e" and "clock_from t cs"
    and "i < length cs" and "fst (snd (cs ! i)) = k" and "\<not> expired (fst (cs ! i)) e"
  shows "\<not> fst (run_calls (\<lambda>s (now, k, e). attempt now k e s) s cs) ! i"
  using assms
proof (induction cs arbitrary: s t i)
  case (Cons c cs)
  obtain now k' e' where c: "c = (now, k', e')" by (cases c)
  let ?s' = "snd (attempt now k' e' s)"
  show ?case
  proof (cases i)
    case 0
    with Cons.prems c show ?thesis
      by (auto simp: attempt_unexpired Let_def)
  next
    case (Suc j)
    from Cons.prems(3) c have clk: "clock_from now cs" by (simp add: clock_from_Cons)
    from Suc Cons.prems(4) have j: "j < length cs" by simp
    then have "now \<le> fst (cs ! j)" using clk by (auto intro: clock_from_mono)
    with Cons.prems(6) Suc have "\<not> expired now e" by (auto dest: expired_mono)
    with Cons.prems(1,2) have "recorded ?s' k = Some e" "invar ?s'"
      by (auto simp: attempt_unexpired attempt_invar)
    from Cons.IH [OF this(2) this(1) clk j] Cons.prems(5,6) Suc
    show ?thesis by (auto simp: c Let_def)
  qed
qed simp

theorem accepted_at_most_once:
  assumes "invar s" and "fst (attempt now k e s)" and "clock_from now cs"
    and "i < length cs" and "fst (snd (cs ! i)) = k" and "\<not> expired (fst (cs ! i)) e"
  shows "\<not> fst (run_calls (\<lambda>s (now, k, e). attempt now k e s) (snd (attempt now k e s)) cs) ! i"
  by (rule refused_while_live [OF attempt_invar accept_records])
    (use assms in auto)

end

end
