(* ===== verification/Codec.thy ===== *)
theory Codec
  imports Prelude
begin

text \<open>
  The encodings the sources take from the Go standard library, as executable functions on byte
  strings: decimal integers (\<^verbatim>\<open>strconv\<close>), lower-case hexadecimal (\<^verbatim>\<open>encoding/hex\<close>), padded
  base64 (\<^verbatim>\<open>encoding/base64\<close>, plain and strict), and JSON strings and string arrays
  (\<^verbatim>\<open>encoding/json\<close> with its HTML-safe escaping).  The lemmas are the round trips the signing
  and verification code depends on.
\<close>

section \<open>Decimal integers\<close>

definition digit :: "nat \<Rightarrow> char" where
  "digit n = char_of (48 + n)"

definition digit_val :: "char \<Rightarrow> nat option" where
  "digit_val c = (let n = of_char c :: nat in if 48 \<le> n \<and> n \<le> 57 then Some (n - 48) else None)"

fun dec_nat :: "nat \<Rightarrow> string" where
  "dec_nat n = (if n < 10 then [digit n] else dec_nat (n div 10) @ [digit (n mod 10)])"

declare dec_nat.simps [simp del]

definition dec_int :: "int \<Rightarrow> string" where
  "dec_int i = (if i < 0 then CHR ''-'' # dec_nat (nat (- i)) else dec_nat (nat i))"

fun read_digits :: "nat \<Rightarrow> string \<Rightarrow> nat option" where
  "read_digits acc [] = Some acc"
| "read_digits acc (c # s) =
     (case digit_val c of None \<Rightarrow> None | Some d \<Rightarrow> read_digits (10 * acc + d) s)"

text \<open>
  \<^verbatim>\<open>strconv.Atoi\<close>: an optional sign, at least one digit, and a value in the range of \<^verbatim>\<open>int\<close>
  (64 bits on every supported platform); \<open>None\<close> is a syntax or a range error.
\<close>

definition Atoi :: "string \<Rightarrow> int option" where
  "Atoi s =
     (let neg = has_prefix s ''-'';
          body = (if neg \<or> has_prefix s ''+'' then tl s else s)
      in if body = [] then None
         else case read_digits 0 body of
                None \<Rightarrow> None
              | Some n \<Rightarrow>
                  (let i = (if neg then - int n else int n)
                   in if is_int64 i then Some i else None))"

lemma of_char_digit: "n < 10 \<Longrightarrow> (of_char (digit n) :: nat) = 48 + n"
  by (simp add: digit_def)

lemma digit_val_digit [simp]: "n < 10 \<Longrightarrow> digit_val (digit n) = Some n"
  by (simp add: digit_val_def of_char_digit)

lemma digit_val_less: "digit_val c = Some d \<Longrightarrow> d < 10"
  by (auto simp: digit_val_def Let_def split: if_splits)

lemma read_digits_append:
  "read_digits acc (s @ t) = (case read_digits acc s of None \<Rightarrow> None | Some n \<Rightarrow> read_digits n t)"
  by (induction acc s rule: read_digits.induct) (auto split: option.splits)

lemma dec_nat_neq_Nil [simp]: "dec_nat n \<noteq> []"
  by (subst dec_nat.simps) simp

lemma dec_nat_digits: "\<forall>c \<in> set (dec_nat n). digit_val c \<noteq> None"
proof (induction n rule: dec_nat.induct)
  case (1 n)
  then show ?case by (subst dec_nat.simps) auto
qed

lemma read_dec_nat: "read_digits 0 (dec_nat n) = Some n"
proof (induction n rule: dec_nat.induct)
  case (1 n)
  show ?case
  proof (cases "n < 10")
    case False
    with 1 have "read_digits 0 (dec_nat (n div 10)) = Some (n div 10)" by simp
    with False show ?thesis
      by (subst dec_nat.simps) (simp add: read_digits_append)
  qed (subst dec_nat.simps, simp)
qed

lemma dec_nat_inject [simp]: "dec_nat m = dec_nat n \<longleftrightarrow> m = n"
  by (metis option.inject read_dec_nat)

lemma sign_not_digit [simp]: "digit_val (CHR ''-'') = None" "digit_val (CHR ''+'') = None"
  by (simp_all add: digit_val_def)

lemma dec_nat_hd: "dec_nat n = c # s \<Longrightarrow> digit_val c \<noteq> None"
  using dec_nat_digits [of n] by simp

lemma Atoi_dec_int: "is_int64 i \<Longrightarrow> Atoi (dec_int i) = Some i"
proof (cases "i < 0")
  case True
  assume "is_int64 i"
  with True show ?thesis by (simp add: Atoi_def dec_int_def read_dec_nat)
next
  case False
  assume r: "is_int64 i"
  obtain c s where cs: "dec_nat (nat i) = c # s" by (cases "dec_nat (nat i)") simp_all
  then have "c \<noteq> CHR ''-''" "c \<noteq> CHR ''+''" using dec_nat_hd by fastforce+
  moreover have "read_digits 0 (c # s) = Some (nat i)" using read_dec_nat [of "nat i"] cs by simp
  ultimately show ?thesis using False r by (simp add: Atoi_def dec_int_def cs)
qed

lemma Atoi_int64: "Atoi s = Some i \<Longrightarrow> is_int64 i"
  by (auto simp: Atoi_def Let_def split: if_splits option.splits)

lemma takeWhile_digits_dec:
  "digit_val c = None \<Longrightarrow> takeWhile (\<lambda>c. digit_val c \<noteq> None) (dec_nat n @ c # r) = dec_nat n"
  using dec_nat_digits [of n] by (simp add: takeWhile_append)

lemma dec_nat_delimited:
  assumes "dec_nat m @ c # r = dec_nat n @ c # r'" and "digit_val c = None"
  shows "m = n \<and> r = r'"
proof -
  have "dec_nat m = dec_nat n"
    using takeWhile_digits_dec [OF assms(2), of m r] takeWhile_digits_dec [OF assms(2), of n r'] assms(1)
    by simp
  with assms(1) show ?thesis by simp
qed

lemma dec_nat_not_minus: "CHR ''-'' # s \<noteq> dec_nat n @ x"
proof
  assume eq: "CHR ''-'' # s = dec_nat n @ x"
  obtain c r where cr: "dec_nat n = c # r" by (cases "dec_nat n") simp_all
  then have "digit_val c \<noteq> None" by (rule dec_nat_hd)
  with eq cr show False by auto
qed

lemma dec_int_delimited:
  assumes eq: "dec_int i @ c # r = dec_int j @ c # r'" and c: "digit_val c = None"
  shows "i = j \<and> r = r'"
proof (cases "i < 0"; cases "j < 0")
  assume "i < 0" "j < 0"
  with eq have "dec_nat (nat (- i)) @ c # r = dec_nat (nat (- j)) @ c # r'" by (simp add: dec_int_def)
  from dec_nat_delimited [OF this c] \<open>i < 0\<close> \<open>j < 0\<close> show ?thesis by linarith
next
  assume "\<not> i < 0" "\<not> j < 0"
  with eq have "dec_nat (nat i) @ c # r = dec_nat (nat j) @ c # r'" by (simp add: dec_int_def)
  from dec_nat_delimited [OF this c] \<open>\<not> i < 0\<close> \<open>\<not> j < 0\<close> show ?thesis by linarith
next
  assume "i < 0" "\<not> j < 0"
  with eq have "CHR ''-'' # dec_nat (nat (- i)) @ c # r = dec_nat (nat j) @ c # r'"
    by (simp add: dec_int_def)
  then show ?thesis using dec_nat_not_minus by blast
next
  assume "\<not> i < 0" "j < 0"
  with eq have "CHR ''-'' # dec_nat (nat (- j)) @ c # r' = dec_nat (nat i) @ c # r"
    by (simp add: dec_int_def)
  then show ?thesis using dec_nat_not_minus by blast
qed

section \<open>Hexadecimal\<close>

definition hexdigit :: "nat \<Rightarrow> char" where
  "hexdigit n = (if n < 10 then char_of (48 + n) else char_of (87 + n))"

definition hex_val :: "char \<Rightarrow> nat option" where
  "hex_val c = (let n = of_char c :: nat in
     if 48 \<le> n \<and> n \<le> 57 then Some (n - 48)
     else if 97 \<le> n \<and> n \<le> 102 then Some (n - 87) else None)"

definition hex_encode :: "bytes \<Rightarrow> string" where
  "hex_encode bs = concat (map (\<lambda>b. [hexdigit (of_char b div 16), hexdigit (of_char b mod 16)]) bs)"

lemma hex_val_hexdigit [simp]: "n < 16 \<Longrightarrow> hex_val (hexdigit n) = Some n"
  by (auto simp: hex_val_def hexdigit_def Let_def)

lemma hexdigit_inject: "m < 16 \<Longrightarrow> n < 16 \<Longrightarrow> hexdigit m = hexdigit n \<longleftrightarrow> m = n"
  by (metis hex_val_hexdigit option.inject)

lemma of_char_less_256: "(of_char c :: nat) < 256"
  by simp

lemma char_of_nibbles: "char_of ((of_char c :: nat) div 16 * 16 + of_char c mod 16) = c"
  by simp

lemma hex_encode_Nil [simp]: "hex_encode [] = []"
  and hex_encode_Cons [simp]: "hex_encode (b # bs) =
    hexdigit (of_char b div 16) # hexdigit (of_char b mod 16) # hex_encode bs"
  by (simp_all add: hex_encode_def)

lemma length_hex_encode [simp]: "length (hex_encode bs) = 2 * length bs"
  by (induction bs) auto

lemma hex_encode_inject [simp]: "hex_encode a = hex_encode b \<longleftrightarrow> a = b"
proof (induction a arbitrary: b)
  case (Cons x a)
  show ?case
  proof (cases b)
    case (Cons y b')
    have "(of_char x :: nat) div 16 < 16" "(of_char y :: nat) div 16 < 16"
      using of_char_less_256 [of x] of_char_less_256 [of y] by linarith+
    then have "hexdigit (of_char x div 16) = hexdigit (of_char y div 16) \<and>
        hexdigit (of_char x mod 16) = hexdigit (of_char y mod 16) \<longleftrightarrow> x = y"
      by (metis char_of_nibbles hexdigit_inject mod_less_divisor zero_less_numeral)
    with Cons Cons.IH show ?thesis by auto
  qed simp
next
  case Nil
  show ?case by (cases b) simp_all
qed

section \<open>Base64\<close>

definition b64char :: "nat \<Rightarrow> char" where
  "b64char n = (if n < 26 then char_of (65 + n) else if n < 52 then char_of (71 + n)
     else if n < 62 then char_of (n - 4) else if n = 62 then CHR ''+'' else CHR ''/'')"

definition b64val :: "char \<Rightarrow> nat option" where
  "b64val c = (let n = of_char c :: nat in
     if 65 \<le> n \<and> n \<le> 90 then Some (n - 65)
     else if 97 \<le> n \<and> n \<le> 122 then Some (n - 71)
     else if 48 \<le> n \<and> n \<le> 57 then Some (n + 4)
     else if n = 43 then Some 62 else if n = 47 then Some 63 else None)"

fun b64encode :: "bytes \<Rightarrow> string" where
  "b64encode [] = []"
| "b64encode [a] = [b64char (of_char a div 4), b64char (of_char a mod 4 * 16), CHR ''='', CHR ''='']"
| "b64encode [a, b] =
     [b64char (of_char a div 4), b64char (of_char a mod 4 * 16 + of_char b div 16),
      b64char (of_char b mod 16 * 4), CHR ''='']"
| "b64encode (a # b # c # bs) =
     b64char (of_char a div 4) # b64char (of_char a mod 4 * 16 + of_char b div 16)
     # b64char (of_char b mod 16 * 4 + of_char c div 64) # b64char (of_char c mod 64) # b64encode bs"

text \<open>
  The decoder of \<^verbatim>\<open>base64.StdEncoding\<close>: padding only in the last quantum, and with
  \<^verbatim>\<open>Strict()\<close> the unused low bits must be zero.  Carriage returns and line feeds are skipped
  wherever they stand, in strict mode too.
\<close>

fun b64quanta :: "bool \<Rightarrow> string \<Rightarrow> bytes option" where
  "b64quanta strict [] = Some []"
| "b64quanta strict (a # b # c # d # rest) =
     (case (b64val a, b64val b) of
        (Some x, Some y) \<Rightarrow>
          if d = CHR ''='' then
            (if rest \<noteq> [] then None
             else if c = CHR ''='' then
               (if strict \<and> y mod 16 \<noteq> 0 then None else Some [char_of (x * 4 + y div 16)])
             else case b64val c of
                    None \<Rightarrow> None
                  | Some z \<Rightarrow>
                      if strict \<and> z mod 4 \<noteq> 0 then None
                      else Some [char_of (x * 4 + y div 16), char_of (y mod 16 * 16 + z div 4)])
          else (case (b64val c, b64val d) of
                  (Some z, Some w) \<Rightarrow>
                    map_option (\<lambda>r. char_of (x * 4 + y div 16) # char_of (y mod 16 * 16 + z div 4)
                                  # char_of (z mod 4 * 64 + w) # r)
                      (b64quanta strict rest)
                | _ \<Rightarrow> None)
      | _ \<Rightarrow> None)"
| "b64quanta strict _ = None"

definition b64decode :: "bool \<Rightarrow> string \<Rightarrow> bytes option" where
  "b64decode strict s = b64quanta strict (filter (\<lambda>c. c \<noteq> CHR 0x0D \<and> c \<noteq> CHR 0x0A) s)"

lemma b64val_b64char [simp]: "n < 64 \<Longrightarrow> b64val (b64char n) = Some n"
  by (auto simp: b64char_def b64val_def Let_def)

lemma b64char_not_special:
  assumes "n < 64"
  shows "b64char n \<noteq> CHR ''=''" "b64char n \<noteq> CHR 0x0D" "b64char n \<noteq> CHR 0x0A"
proof -
  have "b64val (CHR ''='') = None" "b64val (CHR 0x0D) = None" "b64val (CHR 0x0A) = None"
    by (simp_all add: b64val_def)
  with b64val_b64char [OF assms] show "b64char n \<noteq> CHR ''=''" "b64char n \<noteq> CHR 0x0D" "b64char n \<noteq> CHR 0x0A"
    by auto
qed

lemma sextet_bounds:
  fixes a b :: nat
  shows "a < 256 \<Longrightarrow> a div 4 < 64" "a mod 4 * 16 < 64"
    "b < 256 \<Longrightarrow> a mod 4 * 16 + b div 16 < 64" "b mod 16 * 4 < 64"
    "b < 256 \<Longrightarrow> a mod 16 * 4 + b div 64 < 64" "a mod 64 < 64"
proof -
  show "a < 256 \<Longrightarrow> a div 4 < 64" by linarith
  show "a mod 4 * 16 < 64" by (simp add: less_mult_imp_div_less)
  show "b mod 16 * 4 < 64" by simp
  show "a mod 64 < 64" by simp
  have "a mod 4 < 4" "a mod 16 < 16" by simp_all
  then show "b < 256 \<Longrightarrow> a mod 4 * 16 + b div 16 < 64" "b < 256 \<Longrightarrow> a mod 16 * 4 + b div 64 < 64"
    by linarith+
qed

lemma sextet_split:
  fixes m q k n :: nat
  assumes "q < k"
  shows "(m * k + q) div k = m" "(m * k + q) mod k = q"
  using assms by simp_all

lemma sextet_join:
  fixes a b c :: nat
  shows "b < 256 \<Longrightarrow> (a mod 4 * 16 + b div 16) div 16 = a mod 4"
    "b < 256 \<Longrightarrow> (a mod 4 * 16 + b div 16) mod 16 = b div 16"
    "c < 256 \<Longrightarrow> (b mod 16 * 4 + c div 64) div 4 = b mod 16"
    "c < 256 \<Longrightarrow> (b mod 16 * 4 + c div 64) mod 4 = c div 64"
  using sextet_split [of "b div 16" 16 "a mod 4"] sextet_split [of "c div 64" 4 "b mod 16"]
  by (simp_all add: less_mult_imp_div_less)

lemma octet_div:
  "(of_char c :: nat) div 16 mod 16 = of_char c div 16" "(of_char c :: nat) div 64 mod 4 = of_char c div 64"
  using of_char_less_256 [of c] by (simp_all add: less_mult_imp_div_less)

lemmas sextets = octet_div sextet_bounds(1) [OF of_char_less_256] sextet_bounds(2,4,6)
  sextet_bounds(3,5) [OF of_char_less_256] sextet_join [OF of_char_less_256]

lemma b64quanta_encode: "b64quanta strict (b64encode bs) = Some bs"
  by (induction bs rule: b64encode.induct) (simp_all add: sextets b64char_not_special)

lemma b64encode_no_newline: "\<forall>c \<in> set (b64encode bs). c \<noteq> CHR 0x0D \<and> c \<noteq> CHR 0x0A"
  by (induction bs rule: b64encode.induct) (simp_all add: sextets b64char_not_special)

lemma b64decode_encode [simp]: "b64decode strict (b64encode bs) = Some bs"
  using b64encode_no_newline [of bs] by (simp add: b64decode_def b64quanta_encode)

lemma b64encode_Nil_iff [simp]: "b64encode bs = [] \<longleftrightarrow> bs = []"
  by (cases bs rule: b64encode.cases) auto

section \<open>JSON strings\<close>

text \<open>
  \<^verbatim>\<open>rune_len\<close> is the width of the well-formed UTF-8 sequence at the head of the string, 0 when
  there is none.  \<^verbatim>\<open>json.Marshal\<close> copies well-formed sequences, escapes quotes, backslashes,
  control characters, the HTML characters and U+2028/U+2029, and writes the replacement character
  for each ill-formed byte.
\<close>

definition in_range :: "nat \<Rightarrow> nat \<Rightarrow> char \<Rightarrow> bool" where
  "in_range lo hi c \<longleftrightarrow> lo \<le> of_char c \<and> of_char c \<le> hi"

definition cont :: "char \<Rightarrow> bool" where
  "cont c \<longleftrightarrow> in_range 0x80 0xBF c"

definition lead :: "char \<Rightarrow> nat" where
  "lead a = (if in_range 0 0x7F a then 1 else if in_range 0xC2 0xDF a then 2
     else if in_range 0xE0 0xEF a then 3 else if in_range 0xF0 0xF4 a then 4 else 0)"

definition second_ok :: "char \<Rightarrow> char \<Rightarrow> bool" where
  "second_ok a b \<longleftrightarrow> in_range
     (if a = CHR 0xE0 then 0xA0 else if a = CHR 0xF0 then 0x90 else 0x80)
     (if a = CHR 0xED then 0x9F else if a = CHR 0xF4 then 0x8F else 0xBF) b"

definition rune_len :: "string \<Rightarrow> nat" where
  "rune_len s =
     (case s of
        [] \<Rightarrow> 0
      | a # t \<Rightarrow>
          let n = lead a; cs = take (n - 1) t
          in if n \<le> 1 then n
             else if length cs = n - 1 \<and> second_ok a (hd cs) \<and> list_all cont cs then n else 0)"

definition json_safe :: "char \<Rightarrow> bool" where
  "json_safe c \<longleftrightarrow> in_range 0x20 0x7F c \<and> c \<noteq> CHR 0x22 \<and> c \<noteq> CHR 0x5C
     \<and> c \<noteq> CHR ''<'' \<and> c \<noteq> CHR ''>'' \<and> c \<noteq> CHR ''&''"

definition json_escape :: "char \<Rightarrow> string" where
  "json_escape c =
     (if json_safe c then [c]
      else if c = CHR 0x22 \<or> c = CHR 0x5C then [CHR 0x5C, c]
      else if c = CHR 0x08 then [CHR 0x5C, CHR ''b'']
      else if c = CHR 0x0C then [CHR 0x5C, CHR ''f'']
      else if c = CHR 0x0A then [CHR 0x5C, CHR ''n'']
      else if c = CHR 0x0D then [CHR 0x5C, CHR ''r'']
      else if c = CHR 0x09 then [CHR 0x5C, CHR ''t'']
      else [CHR 0x5C, CHR ''u'', CHR ''0'', CHR ''0'',
            hexdigit (of_char c div 16), hexdigit (of_char c mod 16)])"

definition json_rune :: "string \<Rightarrow> string" where
  "json_rune u =
     (case u of
        [c] \<Rightarrow> json_escape c
      | _ \<Rightarrow>
          if u = [CHR 0xE2, CHR 0x80, CHR 0xA8] then CHR 0x5C # ''u2028''
          else if u = [CHR 0xE2, CHR 0x80, CHR 0xA9] then CHR 0x5C # ''u2029''
          else u)"

fun json_chars :: "string \<Rightarrow> string" where
  "json_chars [] = []"
| "json_chars (c # s) =
     (let n = rune_len (c # s)
      in if n = 0 then (CHR 0x5C # ''ufffd'') @ json_chars s
         else json_rune (take n (c # s)) @ json_chars (drop (n - 1) s))"

definition json_string :: "string \<Rightarrow> string" where
  "json_string s = CHR 0x22 # json_chars s @ [CHR 0x22]"

definition json_strings :: "string list \<Rightarrow> string" where
  "json_strings ss = CHR ''['' # join_with '','' (map json_string ss) @ '']''"

fun utf8_valid :: "string \<Rightarrow> bool" where
  "utf8_valid [] = True"
| "utf8_valid (c # s) =
     (let n = rune_len (c # s) in n \<noteq> 0 \<and> utf8_valid (drop (n - 1) s))"

text \<open>Reading a string literal back, byte by byte: the inverse that shows the encoding is faithful.\<close>

fun json_unquote :: "string \<Rightarrow> (string \<times> string) option" where
  "json_unquote [] = None"
| "json_unquote (c # s) =
     (if c = CHR 0x22 then Some ([], s)
      else if c \<noteq> CHR 0x5C then map_option (apfst (Cons c)) (json_unquote s)
      else case s of
        [] \<Rightarrow> None
      | e # s1 \<Rightarrow>
          if e = CHR 0x22 \<or> e = CHR 0x5C then map_option (apfst (Cons e)) (json_unquote s1)
          else if e = CHR ''b'' then map_option (apfst (Cons (CHR 0x08))) (json_unquote s1)
          else if e = CHR ''f'' then map_option (apfst (Cons (CHR 0x0C))) (json_unquote s1)
          else if e = CHR ''n'' then map_option (apfst (Cons (CHR 0x0A))) (json_unquote s1)
          else if e = CHR ''r'' then map_option (apfst (Cons (CHR 0x0D))) (json_unquote s1)
          else if e = CHR ''t'' then map_option (apfst (Cons (CHR 0x09))) (json_unquote s1)
          else case s1 of
            a # b # x # y # s5 \<Rightarrow>
              if [a, b] = ''00'' then
                (case (hex_val x, hex_val y) of
                   (Some m, Some n) \<Rightarrow> map_option (apfst (Cons (char_of (m * 16 + n)))) (json_unquote s5)
                 | _ \<Rightarrow> None)
              else if [a, b, x, y] = ''2028'' then
                map_option (apfst (append [CHR 0xE2, CHR 0x80, CHR 0xA8])) (json_unquote s5)
              else if [a, b, x, y] = ''2029'' then
                map_option (apfst (append [CHR 0xE2, CHR 0x80, CHR 0xA9])) (json_unquote s5)
              else None
          | _ \<Rightarrow> None)"

declare json_unquote.simps [simp del]

lemma json_unquote_Cons:
  "c \<noteq> CHR 0x22 \<Longrightarrow> c \<noteq> CHR 0x5C \<Longrightarrow> json_unquote (c # s) = map_option (apfst (Cons c)) (json_unquote s)"
  "json_unquote (CHR 0x22 # s) = Some ([], s)"
  by (simp_all add: json_unquote.simps)

lemma json_unquote_escape:
  "json_unquote (json_escape c @ r) = map_option (apfst (Cons c)) (json_unquote r)"
proof (cases "json_safe c")
  case True
  then show ?thesis by (simp add: json_escape_def json_safe_def json_unquote_Cons)
next
  case False
  have "(of_char c :: nat) div 16 < 16" using of_char_less_256 [of c] by linarith
  with False show ?thesis by (simp add: json_escape_def json_unquote.simps(2))
qed

lemma high_byte_plain: "0x80 \<le> (of_char c :: nat) \<Longrightarrow> c \<noteq> CHR 0x22 \<and> c \<noteq> CHR 0x5C"
  by auto

lemma json_unquote_plain:
  "\<forall>c \<in> set u. 0x80 \<le> (of_char c :: nat) \<Longrightarrow>
     json_unquote (u @ r) = map_option (apfst (append u)) (json_unquote r)"
proof (induction u)
  case Nil
  show ?case by (cases "json_unquote r") (auto simp: apfst_def)
next
  case (Cons c u)
  then show ?case
    by (cases "json_unquote r") (auto simp: json_unquote_Cons high_byte_plain)
qed

lemma rune_bytes_high:
  assumes "rune_len s = n" and "2 \<le> n"
  shows "\<forall>c \<in> set (take n s). 0x80 \<le> (of_char c :: nat)" and "length (take n s) = n"
proof -
  obtain a t where s: "s = a # t" using assms by (cases s) (auto simp: rune_len_def)
  have n: "n = lead a" "length (take (n - 1) t) = n - 1" "list_all cont (take (n - 1) t)"
    using assms by (auto simp: rune_len_def s Let_def split: if_splits)
  then have "0x80 \<le> (of_char a :: nat)" using \<open>2 \<le> n\<close>
    by (auto simp: lead_def in_range_def split: if_splits)
  moreover have tk: "take n s = a # take (n - 1) t" using \<open>2 \<le> n\<close> by (cases n) (simp_all add: s)
  ultimately show "\<forall>c \<in> set (take n s). 0x80 \<le> (of_char c :: nat)"
    using n(3) by (auto simp: list_all_iff cont_def in_range_def)
  show "length (take n s) = n" using n(2) tk \<open>2 \<le> n\<close> by simp
qed

lemma json_rune_wide: "2 \<le> length u \<Longrightarrow> json_rune u =
   (if u = [CHR 0xE2, CHR 0x80, CHR 0xA8] then CHR 0x5C # ''u2028''
    else if u = [CHR 0xE2, CHR 0x80, CHR 0xA9] then CHR 0x5C # ''u2029'' else u)"
  by (auto simp: json_rune_def split: list.splits)

lemma json_unquote_separators:
  "json_unquote (CHR 0x5C # ''u2028'' @ r) = map_option (apfst (append [CHR 0xE2, CHR 0x80, CHR 0xA8])) (json_unquote r)"
  "json_unquote (CHR 0x5C # ''u2029'' @ r) = map_option (apfst (append [CHR 0xE2, CHR 0x80, CHR 0xA9])) (json_unquote r)"
  by (simp_all add: json_unquote.simps(2))

lemma json_unquote_rune:
  assumes "rune_len (c # s) = n" and "n \<noteq> 0"
  shows "json_unquote (json_rune (take n (c # s)) @ r) =
           map_option (apfst (append (take n (c # s)))) (json_unquote r)"
proof (cases "n = 1")
  case True
  then show ?thesis
    by (cases "json_unquote r") (auto simp: json_rune_def json_unquote_escape)
next
  case False
  with assms have "2 \<le> n" by simp
  note high = rune_bytes_high [OF assms(1) this]
  from high(2) \<open>2 \<le> n\<close> show ?thesis
    using json_unquote_plain [OF high(1)] json_unquote_separators [of r] by (simp add: json_rune_wide)
qed

lemma json_unquote_chars:
  "utf8_valid s \<Longrightarrow> json_unquote (json_chars s @ CHR 0x22 # r) = Some (s, r)"
proof (induction "length s" arbitrary: s rule: less_induct)
  case less
  show ?case
  proof (cases s)
    case Nil
    then show ?thesis by (simp add: json_unquote_Cons)
  next
    case (Cons c t)
    let ?n = "rune_len (c # t)"
    from less.prems Cons have n: "?n \<noteq> 0" and v: "utf8_valid (drop (?n - 1) t)" by (auto simp: Let_def)
    from less.hyps [OF _ v] Cons
    have "json_unquote (json_chars (drop (?n - 1) t) @ CHR 0x22 # r) = Some (drop (?n - 1) t, r)" by simp
    with n have "json_unquote (json_chars s @ CHR 0x22 # r) = Some (take ?n (c # t) @ drop (?n - 1) t, r)"
      by (simp add: Cons Let_def json_unquote_rune del: take_Cons_numeral)
    also have "take ?n (c # t) @ drop (?n - 1) t = s"
      using n Cons by (cases ?n) auto
    finally show ?thesis .
  qed
qed

lemma json_string_delimited:
  assumes "json_string s @ r = json_string t @ r'" and "utf8_valid s" and "utf8_valid t"
  shows "s = t \<and> r = r'"
proof -
  from assms(1) have "json_chars s @ CHR 0x22 # r = json_chars t @ CHR 0x22 # r'"
    by (simp add: json_string_def)
  then have "Some (s, r) = Some (t, r')" using json_unquote_chars assms(2,3) by metis
  then show ?thesis by simp
qed

definition json_rest :: "string list \<Rightarrow> string \<Rightarrow> string" where
  "json_rest ss r =
     (if ss = [] then CHR '']'' # r else CHR '','' # join_with '','' (map json_string ss) @ CHR '']'' # r)"

lemma json_rest_Cons:
  "join_with '','' (map json_string (s # ss)) @ CHR '']'' # r = json_string s @ json_rest ss r"
  by (cases ss) (auto simp: json_rest_def)

lemma json_rest_delimited:
  "json_rest ss r = json_rest ts r' \<Longrightarrow> \<forall>s \<in> set ss. utf8_valid s \<Longrightarrow> \<forall>t \<in> set ts. utf8_valid t \<Longrightarrow>
     ss = ts \<and> r = r'"
proof (induction ss arbitrary: ts)
  case Nil
  then show ?case by (auto simp: json_rest_def split: if_splits)
next
  case (Cons s ss)
  then obtain t ts' where ts: "ts = t # ts'" by (cases ts) (auto simp: json_rest_def)
  have "json_rest (u # us) q = CHR '','' # json_string u @ json_rest us q" for u us q
    by (subst json_rest_def) (simp only: list.distinct if_False json_rest_Cons)
  with Cons.prems ts have "json_string s @ json_rest ss r = json_string t @ json_rest ts' r'" by simp
  from json_string_delimited [OF this] Cons.prems ts
  have "s = t" "json_rest ss r = json_rest ts' r'" by auto
  with Cons.IH [of ts'] Cons.prems ts show ?case by simp
qed

lemma json_strings_delimited:
  assumes "json_strings ss @ r = json_strings ts @ r'"
    and "\<forall>s \<in> set ss. utf8_valid s" and "\<forall>t \<in> set ts. utf8_valid t"
  shows "ss = ts \<and> r = r'"
proof -
  have body: "json_strings us @ q =
      (if us = [] then ''[]'' @ q else CHR ''['' # tl (json_rest us q))" for us q
    by (simp add: json_strings_def json_rest_def)
  have hd_quote: "us \<noteq> [] \<Longrightarrow> \<exists>q'. tl (json_rest us q) = CHR 0x22 # q'" for us q
    by (cases us; cases "tl us") (auto simp: json_rest_def json_string_def)
  have full: "us \<noteq> [] \<Longrightarrow> json_rest us q = CHR '','' # tl (json_rest us q)" for us q
    by (simp add: json_rest_def)
  show ?thesis
  proof (cases "ss = [] \<or> ts = []")
    case True
    with assms(1) show ?thesis using hd_quote [of ss r] hd_quote [of ts r'] by (auto simp: body split: if_splits)
  next
    case False
    with assms(1) have "json_rest ss r = json_rest ts r'" using full by (metis body list.inject)
    then show ?thesis using assms(2,3) by (rule json_rest_delimited)
  qed
qed

end
