(* ===== verification/Models.thy ===== *)
theory Models
  imports Codec
begin

text \<open>
  The data that crosses component boundaries (\<^verbatim>\<open>server/internal/models/models.go\<close> and the
  matching declarations of \<^verbatim>\<open>agent/cmd/patchli-agent/main.go\<close>), and the cryptographic
  primitives the sources call.  A Go \<^verbatim>\<open>[]string\<close> that may be \<^verbatim>\<open>nil\<close> is an option of a list.
\<close>

record AgentDetails =
  ad_Hostname :: string
  ad_MacAddress :: string
  ad_OS :: string
  ad_Kernel :: string
  ad_Status :: string
  ad_LastHeartbeat :: string

record HeartbeatPayload =
  hb_MacAddress :: string
  hb_Hostname :: string
  hb_OS :: string
  hb_OSVersion :: string
  hb_Kernel :: string
  hb_RebootNeeded :: bool

record CommandPayload =
  cp_ID :: string
  cp_Action :: string
  cp_Packages :: "string list option"
  cp_PrePatchScript :: string
  cp_PostPatchScript :: string
  cp_HealthCheckCommand :: string
  cp_NodeID :: string
  cp_ExpiresAt :: int
  cp_Signature :: string

record MaintenanceWindow =
  mw_StartTime :: time
  mw_EndTime :: time

record Job =
  j_ID :: string
  j_NodeMac :: string
  j_GroupID :: int
  j_Action :: string
  j_Packages :: "string list option"
  j_PrePatchScript :: string
  j_PostPatchScript :: string
  j_HealthCheckCommand :: string
  j_MaintenanceWindow :: "MaintenanceWindow option"
  j_StartTime :: time

text \<open>
  A command on its way through \<^verbatim>\<open>WriteJSON\<close> and \<^verbatim>\<open>json.Unmarshal\<close>.  The encoder writes the
  replacement character U+FFFD for every byte of a string that belongs to no well-formed UTF-8
  sequence, so the receiving side reads the bytes EF BF BD there; \<^verbatim>\<open>omitempty\<close> leaves an empty
  package list out of the message, so it is read back as \<^verbatim>\<open>nil\<close> (an omitted string is read back as
  the empty string it was).
\<close>

fun wire_string :: "string \<Rightarrow> string" where
  "wire_string [] = []"
| "wire_string (c # s) =
     (let n = rune_len (c # s)
      in if n = 0 then [CHR 0xEF, CHR 0xBF, CHR 0xBD] @ wire_string s
         else take n (c # s) @ wire_string (drop (n - 1) s))"

definition wire_command :: "CommandPayload \<Rightarrow> CommandPayload" where
  "wire_command c =
     \<lparr>cp_ID = wire_string (cp_ID c), cp_Action = wire_string (cp_Action c),
      cp_Packages = (case cp_Packages c of
                       Some (p # ps) \<Rightarrow> Some (map wire_string (p # ps)) | _ \<Rightarrow> None),
      cp_PrePatchScript = wire_string (cp_PrePatchScript c),
      cp_PostPatchScript = wire_string (cp_PostPatchScript c),
      cp_HealthCheckCommand = wire_string (cp_HealthCheckCommand c),
      cp_NodeID = wire_string (cp_NodeID c), cp_ExpiresAt = cp_ExpiresAt c,
      cp_Signature = wire_string (cp_Signature c)\<rparr>"

lemma wire_string_id [simp]: "utf8_valid s \<Longrightarrow> wire_string s = s"
proof (induction s rule: wire_string.induct)
  case (2 c s)
  then have n: "rune_len (c # s) \<noteq> 0" and v: "utf8_valid (drop (rune_len (c # s) - 1) s)"
    by (auto simp: Let_def)
  have "take (rune_len (c # s)) (c # s) = c # take (rune_len (c # s) - 1) s"
    using n by (cases "rune_len (c # s)") simp_all
  with 2(2) [OF refl n v] n show ?case by (simp add: Let_def)
qed simp

lemma utf8_valid_ascii: "\<forall>c \<in> set s. of_char c < (0x80 :: nat) \<Longrightarrow> utf8_valid s"
  by (induction s) (auto simp: rune_len_def lead_def in_range_def)

text \<open>
  Ed25519 as the sources use it.  \<open>ed25519_ok\<close> is the documented behaviour of the Go package for
  the keys it generates: fixed sizes, and a signature made with a key that
  \<^verbatim>\<open>NewKeyFromSeed\<close> made from a seed verifies under the public key of that key.  Nothing is assumed
  of other 64-byte strings: a private key whose two halves do not belong together, which
  \<^verbatim>\<open>cmdsign.Init\<close> takes as well, need not sign anything its public half verifies.
\<close>

record ed25519 =
  ed_NewKeyFromSeed :: "bytes \<Rightarrow> bytes"
  ed_Public :: "bytes \<Rightarrow> bytes"
  ed_Sign :: "bytes \<Rightarrow> bytes \<Rightarrow> bytes"
  ed_Verify :: "bytes \<Rightarrow> bytes \<Rightarrow> bytes \<Rightarrow> bool"

definition PublicKeySize :: nat where "PublicKeySize = 32"
definition PrivateKeySize :: nat where "PrivateKeySize = 64"
definition SeedSize :: nat where "SeedSize = 32"
definition SignatureSize :: nat where "SignatureSize = 64"

definition ed25519_ok :: "ed25519 \<Rightarrow> bool" where
  "ed25519_ok E \<longleftrightarrow>
     (\<forall>seed. length seed = SeedSize \<longrightarrow>
        (let k = ed_NewKeyFromSeed E seed
         in length k = PrivateKeySize \<and> length (ed_Public E k) = PublicKeySize \<and>
            (\<forall>m. length (ed_Sign E k m) = SignatureSize \<and>
                 ed_Verify E (ed_Public E k) m (ed_Sign E k m))))"

lemma ed25519_okD:
  assumes "ed25519_ok E" and "length seed = SeedSize" and "k = ed_NewKeyFromSeed E seed"
  shows "length k = PrivateKeySize" and "length (ed_Public E k) = PublicKeySize"
    and "length (ed_Sign E k m) = SignatureSize" and "ed_Verify E (ed_Public E k) m (ed_Sign E k m)"
  using assms by (auto simp: ed25519_ok_def Let_def)

text \<open>A concrete stand-in with the documented behaviour, for evaluating examples.\<close>

definition toy_ed25519 :: ed25519 where
  "toy_ed25519 =
     \<lparr>ed_NewKeyFromSeed = (\<lambda>s. s @ s),
      ed_Public = (\<lambda>k. take 32 k),
      ed_Sign = (\<lambda>k m. take 64 (m @ take 32 k @ replicate 64 (CHR ''0''))),
      ed_Verify = (\<lambda>p m s. s = take 64 (m @ p @ replicate 64 (CHR ''0'')))\<rparr>"

lemma toy_ed25519_ok: "ed25519_ok toy_ed25519"
  by (auto simp: ed25519_ok_def Let_def toy_ed25519_def SeedSize_def PrivateKeySize_def PublicKeySize_def
      SignatureSize_def)

end
