(* ===== verification/Cmdsign.thy ===== *)
theory Cmdsign
  imports Models
begin

text \<open>
  Command signing on the control plane (\<^verbatim>\<open>server/internal/cmdsign/cmdsign.go\<close>).  The package
  variable \<^verbatim>\<open>signingKey\<close> is an optional key; \<open>None\<close> disables signing.  The lemmas show that the
  signed message determines every signed field.
\<close>

section \<open>Definitions\<close>

type_synonym signing_key = "bytes option"

definition CommandLifetime :: duration where
  "CommandLifetime = 15 * minute"

definition signaturePrefix :: string where
  "signaturePrefix = ''patchli-command-v1'' @ [CHR 0x0A]"

record signedFields =
  sf_ID :: string
  sf_Action :: string
  sf_Packages :: "string list"
  sf_PrePatchScript :: string
  sf_PostPatchScript :: string
  sf_HealthCheckCommand :: string
  sf_NodeID :: string
  sf_ExpiresAt :: int

definition json_key :: "string \<Rightarrow> string" where
  "json_key k = CHR 0x22 # k @ [CHR 0x22, CHR '':'']"

definition marshal_signedFields :: "signedFields \<Rightarrow> bytes" where
  "marshal_signedFields f =
     ''{'' @ json_key ''id'' @ json_string (sf_ID f)
     @ '','' @ json_key ''action'' @ json_string (sf_Action f)
     @ '','' @ json_key ''packages'' @ json_strings (sf_Packages f)
     @ '','' @ json_key ''pre_patch_script'' @ json_string (sf_PrePatchScript f)
     @ '','' @ json_key ''post_patch_script'' @ json_string (sf_PostPatchScript f)
     @ '','' @ json_key ''health_check_command'' @ json_string (sf_HealthCheckCommand f)
     @ '','' @ json_key ''node_id'' @ json_string (sf_NodeID f)
     @ '','' @ json_key ''expires_at'' @ dec_int (sf_ExpiresAt f) @ ''}''"

definition fields_of :: "CommandPayload \<Rightarrow> signedFields" where
  "fields_of cmd =
     \<lparr>sf_ID = cp_ID cmd, sf_Action = cp_Action cmd,
      sf_Packages = (case cp_Packages cmd of None \<Rightarrow> [] | Some ps \<Rightarrow> ps),
      sf_PrePatchScript = cp_PrePatchScript cmd, sf_PostPatchScript = cp_PostPatchScript cmd,
      sf_HealthCheckCommand = cp_HealthCheckCommand cmd, sf_NodeID = cp_NodeID cmd,
      sf_ExpiresAt = cp_ExpiresAt cmd\<rparr>"

text \<open>\<^verbatim>\<open>json.Marshal\<close> cannot fail on these fields, so \<^verbatim>\<open>Message\<close> always returns bytes.\<close>

definition Message :: "CommandPayload \<Rightarrow> bytes" where
  "Message cmd = signaturePrefix @ marshal_signedFields (fields_of cmd)"

datatype init_error = NotBase64 | BadKeyLength

definition Init :: "ed25519 \<Rightarrow> string \<Rightarrow> init_error + signing_key" where
  "Init E raw =
     (if raw = [] then Inr None
      else case b64decode False raw of
             None \<Rightarrow> Inl NotBase64
           | Some b \<Rightarrow>
               if length b = SeedSize then Inr (Some (ed_NewKeyFromSeed E b))
               else if length b = PrivateKeySize then Inr (Some b)
               else Inl BadKeyLength)"

definition Enabled :: "signing_key \<Rightarrow> bool" where
  "Enabled key \<longleftrightarrow> key \<noteq> None"

definition Sign :: "ed25519 \<Rightarrow> signing_key \<Rightarrow> time \<Rightarrow> CommandPayload \<Rightarrow> string \<Rightarrow> CommandPayload" where
  "Sign E signingKey now cmd nodeID =
     (case signingKey of
        None \<Rightarrow> cmd
      | Some key \<Rightarrow>
          let cmd = cmd\<lparr>cp_NodeID := nodeID, cp_ExpiresAt := Unix (now + CommandLifetime),
                        cp_Signature := []\<rparr>
          in cmd\<lparr>cp_Signature := b64encode (ed_Sign E key (Message cmd))\<rparr>)"

definition fields_utf8 :: "CommandPayload \<Rightarrow> bool" where
  "fields_utf8 c \<longleftrightarrow>
     utf8_valid (cp_ID c) \<and> utf8_valid (cp_Action c) \<and>
     (\<forall>p \<in> set (case cp_Packages c of None \<Rightarrow> [] | Some ps \<Rightarrow> ps). utf8_valid p) \<and>
     utf8_valid (cp_PrePatchScript c) \<and> utf8_valid (cp_PostPatchScript c) \<and>
     utf8_valid (cp_HealthCheckCommand c) \<and> utf8_valid (cp_NodeID c)"

section \<open>Lemmas\<close>

lemma Message_signature_irrelevant [simp]:
  "Message (c\<lparr>cp_Signature := x\<rparr>) = Message c"
  by (simp add: Message_def fields_of_def)

lemma Message_wire [simp]:
  assumes "fields_utf8 c"
  shows "Message (wire_command c) = Message c"
proof -
  have "(case cp_Packages (wire_command c) of None \<Rightarrow> [] | Some ps \<Rightarrow> ps) =
        (case cp_Packages c of None \<Rightarrow> [] | Some ps \<Rightarrow> ps)"
    using assms by (auto simp: fields_utf8_def wire_command_def map_idI split: option.splits list.splits)
  with assms show ?thesis by (simp add: Message_def fields_of_def fields_utf8_def wire_command_def)
qed

lemma wire_command_sel [simp]:
  "cp_NodeID (wire_command c) = wire_string (cp_NodeID c)"
  "cp_ExpiresAt (wire_command c) = cp_ExpiresAt c"
  "cp_Signature (wire_command c) = wire_string (cp_Signature c)"
  by (simp_all add: wire_command_def)

lemma Init_key_length:
  "ed25519_ok E \<Longrightarrow> Init E raw = Inr (Some k) \<Longrightarrow> length k = PrivateKeySize"
  by (auto simp: Init_def ed25519_okD split: if_splits option.splits)

text \<open>
  The signature covers the bytes before the trip and the agent checks it over the bytes after it.
  A field that is not well-formed UTF-8 makes the two messages differ, so such a command fails the
  check at the agent although nobody tampered with it.
\<close>

lemma ill_formed_field_breaks_message:
  "\<exists>c. Message (wire_command c) \<noteq> Message c"
proof -
  let ?c = "\<lparr>cp_ID = [], cp_Action = [], cp_Packages = None, cp_PrePatchScript = [CHR 0xFF],
     cp_PostPatchScript = [], cp_HealthCheckCommand = [], cp_NodeID = [], cp_ExpiresAt = 0,
     cp_Signature = []\<rparr>"
  have "Message (wire_command ?c) \<noteq> Message ?c" by code_simp
  then show ?thesis ..
qed

lemma delimited_peel:
  assumes "a @ json_string s @ r = a @ json_string t @ r'" and "utf8_valid s" and "utf8_valid t"
  shows "s = t" and "r = r'"
  using json_string_delimited [of s r t r'] assms by auto

lemma marshal_signedFields_inject:
  assumes eq: "marshal_signedFields f @ r = marshal_signedFields g @ r'"
    and f: "utf8_valid (sf_ID f)" "utf8_valid (sf_Action f)" "\<forall>p \<in> set (sf_Packages f). utf8_valid p"
      "utf8_valid (sf_PrePatchScript f)" "utf8_valid (sf_PostPatchScript f)"
      "utf8_valid (sf_HealthCheckCommand f)" "utf8_valid (sf_NodeID f)"
    and g: "utf8_valid (sf_ID g)" "utf8_valid (sf_Action g)" "\<forall>p \<in> set (sf_Packages g). utf8_valid p"
      "utf8_valid (sf_PrePatchScript g)" "utf8_valid (sf_PostPatchScript g)"
      "utf8_valid (sf_HealthCheckCommand g)" "utf8_valid (sf_NodeID g)"
  shows "f = g \<and> r = r'"
proof -
  have brace: "digit_val (CHR ''}'') = None" by (simp add: digit_val_def)
  note e = eq [unfolded marshal_signedFields_def append_assoc same_append_eq]
  note e = json_string_delimited [OF e f(1) g(1), THEN conjunct2, unfolded same_append_eq]
    json_string_delimited [OF e f(1) g(1), THEN conjunct1]
  note e2 = json_string_delimited [OF e(1) f(2) g(2), THEN conjunct2, unfolded same_append_eq]
    json_string_delimited [OF e(1) f(2) g(2), THEN conjunct1]
  note e3 = json_strings_delimited [OF e2(1) f(3) g(3), THEN conjunct2, unfolded same_append_eq]
    json_strings_delimited [OF e2(1) f(3) g(3), THEN conjunct1]
  note e4 = json_string_delimited [OF e3(1) f(4) g(4), THEN conjunct2, unfolded same_append_eq]
    json_string_delimited [OF e3(1) f(4) g(4), THEN conjunct1]
  note e5 = json_string_delimited [OF e4(1) f(5) g(5), THEN conjunct2, unfolded same_append_eq]
    json_string_delimited [OF e4(1) f(5) g(5), THEN conjunct1]
  note e6 = json_string_delimited [OF e5(1) f(6) g(6), THEN conjunct2, unfolded same_append_eq]
    json_string_delimited [OF e5(1) f(6) g(6), THEN conjunct1]
  note e7 = json_string_delimited [OF e6(1) f(7) g(7), THEN conjunct2, unfolded same_append_eq]
    json_string_delimited [OF e6(1) f(7) g(7), THEN conjunct1]
  from e7(1) have "dec_int (sf_ExpiresAt f) @ CHR ''}'' # r = dec_int (sf_ExpiresAt g) @ CHR ''}'' # r'"
    by simp
  from dec_int_delimited [OF this brace] e(2) e2(2) e3(2) e4(2) e5(2) e6(2) e7(2)
  show ?thesis by (simp add: signedFields.equality)
qed

text \<open>Two commands with the same signed message agree on every signed field.\<close>

lemma Message_determines_fields:
  assumes "Message c = Message d" and "fields_utf8 c" and "fields_utf8 d"
  shows "fields_of c = fields_of d"
  using marshal_signedFields_inject [of "fields_of c" "[]" "fields_of d" "[]"] assms
  by (auto simp: Message_def fields_of_def fields_utf8_def)

lemma Sign_Some:
  assumes "signingKey = Some key"
  shows "cp_NodeID (Sign E signingKey now cmd n) = n"
    and "cp_ExpiresAt (Sign E signingKey now cmd n) = Unix (now + CommandLifetime)"
    and "cp_Signature (Sign E signingKey now cmd n) =
           b64encode (ed_Sign E key (Message (Sign E signingKey now cmd n)))"
  using assms by (simp_all add: Sign_def Let_def)

lemma b64char_ascii: "of_char (b64char n) < (0x80 :: nat)"
  by (auto simp: b64char_def)

lemma b64encode_ascii: "\<forall>c \<in> set (b64encode bs). of_char c < (0x80 :: nat)"
  by (induction bs rule: b64encode.induct) (auto simp: b64char_ascii)

lemma b64encode_utf8 [simp]: "utf8_valid (b64encode bs)"
  using b64encode_ascii by (rule utf8_valid_ascii)

lemma Sign_utf8: "fields_utf8 cmd \<Longrightarrow> utf8_valid n \<Longrightarrow> fields_utf8 (Sign E (Some key) t cmd n)"
  by (simp add: fields_utf8_def Sign_def Let_def)

end
