(* ===== verification/Command_Auth.thy ===== *)
theory Command_Auth
  imports Cmdsign
begin

text \<open>
  Command verification on the agent (\<^verbatim>\<open>agent/cmd/patchli-agent/command_auth.go\<close>): the canonical
  message, the signature, node and expiry checks, and the replay cache \<^verbatim>\<open>seenCommands\<close>.  The
  cache is an instance of the \<open>single_use\<close> contract; the trace theorem of that contract gives
  the at-most-once property of accepted commands.
\<close>

section \<open>Definitions\<close>

definition commandSignaturePrefix :: string where
  "commandSignaturePrefix = ''patchli-command-v1'' @ [CHR 0x0A]"

record commandSignedFields =
  csf_ID :: string
  csf_Action :: string
  csf_Packages :: "string list"
  csf_PrePatchScript :: string
  csf_PostPatchScript :: string
  csf_HealthCheckCommand :: string
  csf_NodeID :: string
  csf_ExpiresAt :: int

definition marshal_commandSignedFields :: "commandSignedFields \<Rightarrow> bytes" where
  "marshal_commandSignedFields f =
     ''{'' @ json_key ''id'' @ json_string (csf_ID f)
     @ '','' @ json_key ''action'' @ json_string (csf_Action f)
     @ '','' @ json_key ''packages'' @ json_strings (csf_Packages f)
     @ '','' @ json_key ''pre_patch_script'' @ json_string (csf_PrePatchScript f)
     @ '','' @ json_key ''post_patch_script'' @ json_string (csf_PostPatchScript f)
     @ '','' @ json_key ''health_check_command'' @ json_string (csf_HealthCheckCommand f)
     @ '','' @ json_key ''node_id'' @ json_string (csf_NodeID f)
     @ '','' @ json_key ''expires_at'' @ dec_int (csf_ExpiresAt f) @ ''}''"

definition commandMessage :: "CommandPayload \<Rightarrow> bytes" where
  "commandMessage cmd =
     (let pkgs = (case cp_Packages cmd of None \<Rightarrow> [] | Some ps \<Rightarrow> ps)
      in commandSignaturePrefix @ marshal_commandSignedFields
           \<lparr>csf_ID = cp_ID cmd, csf_Action = cp_Action cmd, csf_Packages = pkgs,
            csf_PrePatchScript = cp_PrePatchScript cmd, csf_PostPatchScript = cp_PostPatchScript cmd,
            csf_HealthCheckCommand = cp_HealthCheckCommand cmd, csf_NodeID = cp_NodeID cmd,
            csf_ExpiresAt = cp_ExpiresAt cmd\<rparr>)"

datatype command_error =
    InvalidPubKey | NotSigned | MalformedSignature | SignatureFailed
  | WrongNode string | CommandExpired | CommandReplayed

type_synonym seen_commands = "(bytes, time) gomap"

text \<open>The section under \<^verbatim>\<open>seenCommandsMu\<close>: drop expired entries, then look up and insert.\<close>

definition replay_check :: "time \<Rightarrow> bytes \<Rightarrow> time \<Rightarrow> seen_commands \<Rightarrow> bool \<times> seen_commands" where
  "replay_check now replayKey expires seen =
     (let seen = gretain (\<lambda>k exp. now < exp) seen
      in case gget seen replayKey of
           Some _ \<Rightarrow> (False, seen)
         | None \<Rightarrow> (True, gput replayKey expires seen))"

definition verifyCommand ::
  "ed25519 \<Rightarrow> string \<Rightarrow> CommandPayload \<Rightarrow> string \<Rightarrow> time \<Rightarrow> seen_commands \<Rightarrow>
     command_error option \<times> seen_commands" where
  "verifyCommand E CommandPubKey cmd nodeID now seen =
     (if CommandPubKey = [] then (None, seen)
      else case b64decode False CommandPubKey of
        None \<Rightarrow> (Some InvalidPubKey, seen)
      | Some pub \<Rightarrow>
          if length pub \<noteq> PublicKeySize then (Some InvalidPubKey, seen)
          else if cp_Signature cmd = [] then (Some NotSigned, seen)
          else case b64decode True (cp_Signature cmd) of
            None \<Rightarrow> (Some MalformedSignature, seen)
          | Some sig \<Rightarrow>
              if length sig \<noteq> SignatureSize then (Some MalformedSignature, seen)
              else if \<not> ed_Verify E pub (commandMessage cmd) sig then (Some SignatureFailed, seen)
              else if cp_NodeID cmd \<noteq> nodeID then (Some (WrongNode (cp_NodeID cmd)), seen)
              else let expires = time_Unix (cp_ExpiresAt cmd)
                   in if \<not> now < expires then (Some CommandExpired, seen)
                      else case replay_check now sig expires seen of
                             (True, seen) \<Rightarrow> (None, seen)
                           | (False, seen) \<Rightarrow> (Some CommandReplayed, seen))"

text \<open>A sequence of received commands, each with the time it is verified at.\<close>

definition verify_step ::
  "ed25519 \<Rightarrow> string \<Rightarrow> string \<Rightarrow> seen_commands \<Rightarrow> time \<times> CommandPayload \<Rightarrow> bool \<times> seen_commands" where
  "verify_step E pub nodeID seen tc =
     (case verifyCommand E pub (snd tc) nodeID (fst tc) seen of (err, seen) \<Rightarrow> (err = None, seen))"

section \<open>The replay cache is a single-use register\<close>

interpretation replay: single_use replay_check map_of "\<lambda>now e. \<not> now < e" gwf
proof unfold_locales
  fix s :: seen_commands and now k e k' e'
  assume wf: "gwf s"
  show "fst (replay_check now k e s) \<longleftrightarrow>
      (case gget s k of None \<Rightarrow> True | Some e' \<Rightarrow> \<not> now < e')"
    using wf by (auto simp: replay_check_def Let_def gget_gretain split: option.splits)
  show "fst (replay_check now k e s) \<Longrightarrow> gget (snd (replay_check now k e s)) k = Some e"
    by (auto simp: replay_check_def Let_def split: option.splits)
  show "gget s k' = Some e' \<Longrightarrow> \<not> \<not> now < e' \<Longrightarrow> gget (snd (replay_check now k e s)) k' = Some e'"
    using wf by (auto simp: replay_check_def Let_def gget_gretain split: option.splits)
  show "gwf (snd (replay_check now k e s))"
    using wf by (auto simp: replay_check_def Let_def split: option.splits)
qed auto

section \<open>Lemmas\<close>

lemma commandMessage_eq: "commandMessage cmd = Message cmd"
  by (simp add: commandMessage_def Message_def commandSignaturePrefix_def signaturePrefix_def
      marshal_commandSignedFields_def marshal_signedFields_def fields_of_def Let_def)

lemma verifyCommand_accept:
  assumes "verifyCommand E pubkey cmd nodeID now seen = (None, seen')" and "pubkey \<noteq> []"
  obtains pub sig where "b64decode False pubkey = Some pub" "length pub = PublicKeySize"
    "b64decode True (cp_Signature cmd) = Some sig" "length sig = SignatureSize"
    "ed_Verify E pub (Message cmd) sig" "cp_NodeID cmd = nodeID"
    "now < time_Unix (cp_ExpiresAt cmd)"
    "replay_check now sig (time_Unix (cp_ExpiresAt cmd)) seen = (True, seen')"
  using assms
  by (auto simp: verifyCommand_def commandMessage_eq Let_def split: if_splits option.splits prod.splits bool.splits)

lemma verifyCommand_seen:
  "snd (verifyCommand E pubkey cmd nodeID now seen) = seen \<or>
   (\<exists>sig. b64decode True (cp_Signature cmd) = Some sig \<and>
      snd (verifyCommand E pubkey cmd nodeID now seen) =
        snd (replay_check now sig (time_Unix (cp_ExpiresAt cmd)) seen))"
  by (auto simp: verifyCommand_def Let_def split: option.splits prod.splits bool.splits)

lemma verifyCommand_wf: "gwf seen \<Longrightarrow> gwf (snd (verifyCommand E pubkey cmd nodeID now seen))"
  using verifyCommand_seen [of E pubkey cmd nodeID now seen] replay.attempt_invar by metis

lemma verifyCommand_keeps_live:
  "gwf seen \<Longrightarrow> gget seen sig = Some e \<Longrightarrow> now < e \<Longrightarrow>
     gget (snd (verifyCommand E pubkey cmd nodeID now seen)) sig = Some e"
  using verifyCommand_seen [of E pubkey cmd nodeID now seen]
    replay.attempt_keeps [of seen sig e now] by force

lemma verify_step_keeps_live:
  "gwf seen \<Longrightarrow> gget seen sig = Some e \<Longrightarrow> fst tc < e \<Longrightarrow>
     gget (snd (verify_step E pubkey nodeID seen tc)) sig = Some e"
  using verifyCommand_keeps_live by (auto simp: verify_step_def split: prod.splits)
    (metis snd_conv)

lemma verify_step_wf: "gwf seen \<Longrightarrow> gwf (snd (verify_step E pubkey nodeID seen tc))"
  using verifyCommand_wf by (auto simp: verify_step_def split: prod.splits) (metis snd_conv)

lemma verify_step_accept:
  assumes "fst (verify_step E pubkey nodeID seen tc)"
  obtains seen' where "verifyCommand E pubkey (snd tc) nodeID (fst tc) seen = (None, seen')"
    and "snd (verify_step E pubkey nodeID seen tc) = seen'"
  using assms by (auto simp: verify_step_def split: prod.splits)

lemma verify_step_in_time:
  assumes "fst (verify_step E pubkey nodeID seen tc)" and "pubkey \<noteq> []"
  shows "fst tc < time_Unix (cp_ExpiresAt (snd tc))"
proof -
  obtain seen' where "verifyCommand E pubkey (snd tc) nodeID (fst tc) seen = (None, seen')"
    using assms(1) by (rule verify_step_accept)
  then show ?thesis using assms(2) by (rule verifyCommand_accept)
qed

lemma verify_step_accept_records:
  assumes wf: "gwf seen" and acc: "fst (verify_step E pubkey nodeID seen tc)" and "pubkey \<noteq> []"
    and sig: "b64decode True (cp_Signature (snd tc)) = Some sig"
  shows "gget (snd (verify_step E pubkey nodeID seen tc)) sig = Some (time_Unix (cp_ExpiresAt (snd tc)))"
    and "\<And>e. gget seen sig = Some e \<Longrightarrow> \<not> fst tc < e"
proof -
  let ?e = "time_Unix (cp_ExpiresAt (snd tc))"
  obtain seen' where v: "verifyCommand E pubkey (snd tc) nodeID (fst tc) seen = (None, seen')"
    and s': "snd (verify_step E pubkey nodeID seen tc) = seen'"
    using acc by (rule verify_step_accept)
  have r: "replay_check (fst tc) sig ?e seen = (True, seen')"
    using v assms(3) by (rule verifyCommand_accept) (simp add: sig)
  with replay.accept_records [OF wf, of "fst tc" sig ?e] s'
  show "gget (snd (verify_step E pubkey nodeID seen tc)) sig = Some ?e" by simp
  from replay.accept_iff [OF wf, of "fst tc" sig ?e] r
  show "\<And>e. gget seen sig = Some e \<Longrightarrow> \<not> fst tc < e" by simp
qed

text \<open>Once a signature is on record until \<open>e\<close>, no later command that bears it and expires at \<open>e\<close> passes.\<close>

lemma verify_run_refuses:
  assumes "gwf seen" and "gget seen sig = Some e" and "pubkey \<noteq> []"
    and "sorted (t # map fst cs)" and "i < length cs"
    and "b64decode True (cp_Signature (snd (cs ! i))) = Some sig"
    and "time_Unix (cp_ExpiresAt (snd (cs ! i))) = e"
  shows "\<not> fst (run_calls (verify_step E pubkey nodeID) seen cs) ! i"
  using assms
proof (induction cs arbitrary: seen t i)
  case (Cons c cs)
  show ?case
  proof (cases i)
    case 0
    with Cons.prems verify_step_accept_records(2) [of seen E pubkey nodeID c sig]
      verify_step_in_time [of E pubkey nodeID seen c]
    show ?thesis by (auto simp: Let_def)
  next
    case (Suc j)
    show ?thesis
    proof (cases "fst c < e")
      case True
      with Cons.prems Suc show ?thesis
        using Cons.IH [of "snd (verify_step E pubkey nodeID seen c)" "fst c" j]
        by (simp add: Let_def verify_step_wf verify_step_keeps_live)
    next
      case False
      have "fst (cs ! j) \<in> set (map fst cs)" using Cons.prems(5) Suc by simp
      then have "e \<le> fst (cs ! j)" using Cons.prems(4) False by fastforce
      moreover have "fst (run_calls (verify_step E pubkey nodeID) s cs) ! j \<Longrightarrow> fst (cs ! j) < e" for s
        using run_calls_nth [of j cs "verify_step E pubkey nodeID" s] verify_step_in_time Cons.prems Suc
        by fastforce
      ultimately show ?thesis using Suc by (force simp: Let_def)
    qed
  qed
qed simp

lemma verify_run_once:
  assumes "pubkey \<noteq> []" and "gwf seen" and "sorted (map fst cs)"
    and "i < j" and "j < length cs"
    and "b64decode True (cp_Signature (snd (cs ! i))) = Some sig"
    and "b64decode True (cp_Signature (snd (cs ! j))) = Some sig"
    and "cp_ExpiresAt (snd (cs ! i)) = cp_ExpiresAt (snd (cs ! j))"
    and "fst (run_calls (verify_step E pubkey nodeID) seen cs) ! i"
  shows "\<not> fst (run_calls (verify_step E pubkey nodeID) seen cs) ! j"
  using assms
proof (induction cs arbitrary: seen i j)
  case (Cons c cs)
  obtain j' where j': "j = Suc j'" using Cons.prems(4) by (cases j) auto
  let ?s = "snd (verify_step E pubkey nodeID seen c)"
  show ?case
  proof (cases i)
    case 0
    with Cons.prems have "fst (verify_step E pubkey nodeID seen c)"
      and sig: "b64decode True (cp_Signature (snd c)) = Some sig" by (auto simp: Let_def)
    then have "gget ?s sig = Some (time_Unix (cp_ExpiresAt (snd c)))"
      using Cons.prems(1,2) by (intro verify_step_accept_records)
    from verify_run_refuses [OF verify_step_wf [OF Cons.prems(2)] this Cons.prems(1), of "fst c" cs j'] Cons.prems 0 j'
    show ?thesis by (auto simp: Let_def)
  next
    case (Suc i')
    with Cons.prems j' Cons.IH [of ?s i' j'] show ?thesis
      by (auto simp: Let_def verify_step_wf)
  qed
qed simp

text \<open>Without a configured key every command is accepted and nothing is recorded.\<close>

lemma unsigned_mode_run: "run_calls (verify_step E [] nodeID) seen cs = (replicate (length cs) True, seen)"
  by (induction cs) (simp_all add: verify_step_def verifyCommand_def Let_def)

lemma unsigned_mode_accepts:
  "i < length cs \<Longrightarrow> fst (run_calls (verify_step E [] nodeID) seen cs) ! i"
  by (simp add: unsigned_mode_run)

section \<open>Properties\<close>

text \<open>C1. A command that the control plane signs for a node, with a key generated from a seed, and
  sends over the wire is accepted by that node's agent, configured with the matching public key, at
  any time before the expiry that the signature carries, provided the agent has not recorded the
  same signature already.  The command's fields and the node's name are well-formed UTF-8: the
  JSON trip replaces other bytes, and the signature no longer fits.\<close>

theorem signed_command_accepted:
  assumes "ed25519_ok E" and "length seed = SeedSize" and "key = ed_NewKeyFromSeed E seed"
    and "fields_utf8 cmd" and "utf8_valid n"
    and "is_int64 (Unix (t + CommandLifetime) + 62135596800)"
    and "now < Unix (t + CommandLifetime) * second"
    and "gwf seen" and "gget seen (ed_Sign E key (Message (Sign E (Some key) t cmd n))) = None"
  shows "fst (verifyCommand E (b64encode (ed_Public E key)) (wire_command (Sign E (Some key) t cmd n)) n now seen) = None"
proof -
  let ?c = "Sign E (Some key) t cmd n"
  note ed = ed25519_okD(2-) [OF assms(1-3)]
  have nonempty: "ed_Public E key \<noteq> []" "ed_Sign E key (Message ?c) \<noteq> []"
    using ed(1) ed(2) [of "Message ?c"] by (auto simp: PublicKeySize_def SignatureSize_def)
  have acc: "fst (replay_check now (ed_Sign E key (Message ?c)) (Unix (t + CommandLifetime) * second) seen)"
    using replay.accept_iff [OF assms(8)] assms(9) by simp
  have utf8: "fields_utf8 ?c" using assms(4,5) by (rule Sign_utf8)
  show ?thesis
    using acc nonempty assms(5,6,7) ed utf8 Sign_Some [OF refl, of E key t cmd n]
    by (auto simp: verifyCommand_def Let_def commandMessage_eq time_Unix_id split: prod.splits bool.splits)
qed

theorem signed_command_accepted_witness:
  "fst (verifyCommand toy_ed25519
     (b64encode (ed_Public toy_ed25519 (ed_NewKeyFromSeed toy_ed25519 (replicate 32 (CHR ''k'')))))
     (wire_command (Sign toy_ed25519 (Some (ed_NewKeyFromSeed toy_ed25519 (replicate 32 (CHR ''k'')))) 0
        \<lparr>cp_ID = ''j1'', cp_Action = ''cleanup'', cp_Packages = Some [], cp_PrePatchScript = [],
         cp_PostPatchScript = [], cp_HealthCheckCommand = [], cp_NodeID = [], cp_ExpiresAt = 0,
         cp_Signature = []\<rparr> ''n1'')) ''n1'' 5 []) = None"
proof (rule signed_command_accepted [of _ "replicate 32 (CHR ''k'')"])
  show "fields_utf8 \<lparr>cp_ID = ''j1'', cp_Action = ''cleanup'', cp_Packages = Some [], cp_PrePatchScript = [],
         cp_PostPatchScript = [], cp_HealthCheckCommand = [], cp_NodeID = [], cp_ExpiresAt = 0,
         cp_Signature = []\<rparr>" and "utf8_valid ''n1''" by code_simp+
qed (simp_all add: toy_ed25519_ok SeedSize_def CommandLifetime_def Unix_def is_int64_def)

text \<open>C2. The signature binds the whole command: two commands with UTF-8 fields whose canonical
  messages are equal agree on the identifier, action, packages (\<^verbatim>\<open>nil\<close> counted as empty), the
  three scripts, the target node and the expiry.\<close>

theorem commandMessage_binds:
  assumes "commandMessage c = Message d" and "fields_utf8 c" and "fields_utf8 d"
  shows "cp_ID c = cp_ID d \<and> cp_Action c = cp_Action d \<and>
    (case cp_Packages c of None \<Rightarrow> [] | Some ps \<Rightarrow> ps) = (case cp_Packages d of None \<Rightarrow> [] | Some ps \<Rightarrow> ps) \<and>
    cp_PrePatchScript c = cp_PrePatchScript d \<and> cp_PostPatchScript c = cp_PostPatchScript d \<and>
    cp_HealthCheckCommand c = cp_HealthCheckCommand d \<and> cp_NodeID c = cp_NodeID d \<and>
    cp_ExpiresAt c = cp_ExpiresAt d"
  using Message_determines_fields [of c d] assms by (simp add: commandMessage_eq fields_of_def)

theorem commandMessage_binds_witness:
  "cp_NodeID \<lparr>cp_ID = ''j1'', cp_Action = ''cleanup'', cp_Packages = None, cp_PrePatchScript = [],
     cp_PostPatchScript = [], cp_HealthCheckCommand = [], cp_NodeID = ''n1'', cp_ExpiresAt = 7,
     cp_Signature = ''x''\<rparr> = ''n1''"
proof -
  let ?c = "\<lparr>cp_ID = ''j1'', cp_Action = ''cleanup'', cp_Packages = None, cp_PrePatchScript = [],
     cp_PostPatchScript = [], cp_HealthCheckCommand = [], cp_NodeID = ''n1'', cp_ExpiresAt = 7,
     cp_Signature = ''x''\<rparr>"
  let ?d = "?c\<lparr>cp_Packages := Some [], cp_Signature := []\<rparr>"
  have msg: "commandMessage ?c = Message ?d" by (simp add: commandMessage_eq Message_def fields_of_def)
  have utf8: "fields_utf8 ?c" "fields_utf8 ?d" by code_simp+
  from commandMessage_binds [OF msg utf8] show ?thesis by simp
qed

text \<open>C3. A configured public key prevents replays, and nothing else does: in any sequence of
  received commands, verified in order with a clock that does not run backwards, let one of the
  commands be accepted.  A later one that carries the same signature bytes and expiry is then refused
  if a public key is configured, however the signature is re-encoded as text and whatever other
  commands arrive in between; in the mode without \<^verbatim>\<open>COMMAND_PUB_KEY\<close> it is accepted again.\<close>

theorem command_accepted_at_most_once:
  assumes "sorted (map fst cs)" and "i < j" and "j < length cs"
    and "b64decode True (cp_Signature (snd (cs ! i))) = Some sig"
    and "b64decode True (cp_Signature (snd (cs ! j))) = Some sig"
    and "cp_ExpiresAt (snd (cs ! i)) = cp_ExpiresAt (snd (cs ! j))"
    and "fst (run_calls (verify_step E pubkey nodeID) [] cs) ! i"
  shows "fst (run_calls (verify_step E pubkey nodeID) [] cs) ! j \<longleftrightarrow> pubkey = []"
proof (cases "pubkey = []")
  case True
  with assms(3) show ?thesis by (simp add: unsigned_mode_accepts)
next
  case False
  then show ?thesis using verify_run_once [OF False gwf_Nil assms] by simp
qed

definition replayed_command :: "string \<Rightarrow> CommandPayload" where
  "replayed_command sep =
     \<lparr>cp_ID = ''j1'', cp_Action = ''cleanup'', cp_Packages = None, cp_PrePatchScript = [],
      cp_PostPatchScript = [], cp_HealthCheckCommand = [], cp_NodeID = ''n1'', cp_ExpiresAt = 900,
      cp_Signature = sep @ b64encode (replicate 64 (CHR ''s''))\<rparr>"

definition permissive_ed25519 :: ed25519 where
  "permissive_ed25519 = toy_ed25519\<lparr>ed_Verify := (\<lambda>_ _ _. True)\<rparr>"

lemmas replayed_accept_simps = verifyCommand_def permissive_ed25519_def PublicKeySize_def
  SignatureSize_def time_Unix_def int64_def replay_check_def gretain_def Let_def

lemma b64decode_newline [simp]: "b64decode strict (CHR 0x0A # s) = b64decode strict s"
  by (simp add: b64decode_def)

theorem command_accepted_at_most_once_witness:
  "fst (run_calls (verify_step permissive_ed25519 (b64encode (replicate 32 (CHR ''p''))) ''n1'') []
      [(5, replayed_command []), (6, replayed_command [CHR 0x0A])]) ! 0 \<and>
   \<not> fst (run_calls (verify_step permissive_ed25519 (b64encode (replicate 32 (CHR ''p''))) ''n1'') []
      [(5, replayed_command []), (6, replayed_command [CHR 0x0A])]) ! 1"
proof -
  let ?run = "run_calls (verify_step permissive_ed25519 (b64encode (replicate 32 (CHR ''p''))) ''n1'') []
      [(5, replayed_command []), (6, replayed_command [CHR 0x0A])]"
  have first: "fst ?run ! 0"
    by (simp add: replayed_command_def verify_step_def replayed_accept_simps)
  have decode: "b64decode True (cp_Signature (replayed_command [])) = Some (replicate 64 (CHR ''s''))"
    "b64decode True (cp_Signature (replayed_command [CHR 0x0A])) = Some (replicate 64 (CHR ''s''))"
    by (simp_all add: replayed_command_def)
  have "fst ?run ! 1 \<longleftrightarrow> b64encode (replicate 32 (CHR ''p'')) = []"
    by (rule command_accepted_at_most_once [of _ 0 1 "replicate 64 (CHR ''s'')"])
      (use first decode in \<open>simp_all add: replayed_command_def\<close>)
  with first show ?thesis by simp
qed

text \<open>With a public key configured, an accepted command carries a signature of exactly this
  command under that key, is addressed to this node, has not expired, and leaves its signature on
  record; nothing else is accepted.\<close>

theorem verifyCommand_sound:
  assumes "fst (verifyCommand E pubkey cmd nodeID now seen) = None" and "pubkey \<noteq> []"
  shows "\<exists>pub sig. b64decode False pubkey = Some pub \<and> length pub = PublicKeySize \<and>
    b64decode True (cp_Signature cmd) = Some sig \<and> length sig = SignatureSize \<and>
    ed_Verify E pub (commandMessage cmd) sig \<and> cp_NodeID cmd = nodeID \<and>
    now < time_Unix (cp_ExpiresAt cmd) \<and>
    gget (snd (verifyCommand E pubkey cmd nodeID now seen)) sig = Some (time_Unix (cp_ExpiresAt cmd))"
proof -
  obtain seen' where v: "verifyCommand E pubkey cmd nodeID now seen = (None, seen')"
    using assms(1) by (cases "verifyCommand E pubkey cmd nodeID now seen") simp
  obtain pub sig where *: "b64decode False pubkey = Some pub" "length pub = PublicKeySize"
    "b64decode True (cp_Signature cmd) = Some sig" "length sig = SignatureSize"
    "ed_Verify E pub (Message cmd) sig" "cp_NodeID cmd = nodeID"
    "now < time_Unix (cp_ExpiresAt cmd)"
    "replay_check now sig (time_Unix (cp_ExpiresAt cmd)) seen = (True, seen')"
    using v assms(2) by (rule verifyCommand_accept)
  from *(8) have "gget seen' sig = Some (time_Unix (cp_ExpiresAt cmd))"
    by (auto simp: replay_check_def Let_def split: option.splits)
  with * v show ?thesis by (auto simp: commandMessage_eq)
qed

theorem verifyCommand_sound_witness:
  "\<exists>pub sig. b64decode False (b64encode (replicate 32 (CHR ''p''))) = Some pub \<and>
     b64decode True (cp_Signature (replayed_command [])) = Some sig \<and>
     ed_Verify permissive_ed25519 pub (commandMessage (replayed_command [])) sig \<and>
     cp_NodeID (replayed_command []) = ''n1''"
proof -
  have acc: "fst (verifyCommand permissive_ed25519 (b64encode (replicate 32 (CHR ''p'')))
      (replayed_command []) ''n1'' 5 []) = None"
    by (simp add: replayed_command_def replayed_accept_simps)
  have key: "b64encode (replicate 32 (CHR ''p'')) \<noteq> []" by simp
  from verifyCommand_sound [OF acc key] show ?thesis by blast
qed

end
