(* ===== verification/Http.thy ===== *)
theory Http
  imports Codec
begin

text \<open>
  The fragment of \<^verbatim>\<open>net/http\<close> and \<^verbatim>\<open>net\<close> that the handlers and middlewares use: requests and
  responses as records, header lookup by canonical key, \<^verbatim>\<open>http.Error\<close>, \<^verbatim>\<open>http.MaxBytesReader\<close>
  and \<^verbatim>\<open>net.SplitHostPort\<close>.
\<close>

record http_request =
  r_Method :: string
  r_Path :: string
  r_Host :: string
  r_RemoteAddr :: string
  r_TLS :: bool
  r_Header :: "(string, string list) gomap"
  r_Query :: "(string, string list) gomap"
  r_Body :: bytes

record http_response =
  w_Status :: nat
  w_Header :: "(string, string) gomap"
  w_Body :: bytes

text \<open>Keys are canonical already; a missing key reads as the empty string.\<close>

definition first_value :: "(string, string list) gomap \<Rightarrow> string \<Rightarrow> string" where
  "first_value m k = (case gget m k of Some (v # _) \<Rightarrow> v | _ \<Rightarrow> [])"

abbreviation header_Get :: "http_request \<Rightarrow> string \<Rightarrow> string" where
  "header_Get r k \<equiv> first_value (r_Header r) k"

abbreviation query_Get :: "http_request \<Rightarrow> string \<Rightarrow> string" where
  "query_Get r k \<equiv> first_value (r_Query r) k"

definition http_Error :: "string \<Rightarrow> nat \<Rightarrow> http_response" where
  "http_Error msg code =
     \<lparr>w_Status = code,
      w_Header = [(''Content-Type'', ''text/plain; charset=utf-8''), (''X-Content-Type-Options'', ''nosniff'')],
      w_Body = msg @ [CHR 0x0A]\<rparr>"

definition respond :: "(string, string) gomap \<Rightarrow> bytes \<Rightarrow> http_response" where
  "respond h b = \<lparr>w_Status = 200, w_Header = h, w_Body = b\<rparr>"

text \<open>
  A JSON decoder behind \<^verbatim>\<open>http.MaxBytesReader\<close> sees at most \<open>n\<close> bytes; a value that is not complete
  within them is an error.
\<close>

definition limited_body :: "nat \<Rightarrow> http_request \<Rightarrow> bytes" where
  "limited_body n r = take n (r_Body r)"

subsection \<open>Addresses\<close>

fun last_index :: "char \<Rightarrow> string \<Rightarrow> nat option" where
  "last_index c [] = None"
| "last_index c (x # s) =
     (case last_index c s of Some i \<Rightarrow> Some (Suc i) | None \<Rightarrow> if x = c then Some 0 else None)"

fun first_index :: "char \<Rightarrow> string \<Rightarrow> nat option" where
  "first_index c [] = None"
| "first_index c (x # s) = (if x = c then Some 0 else map_option Suc (first_index c s))"

text \<open>\<^verbatim>\<open>net.SplitHostPort\<close>: the host part, or an error for a missing port, too many colons or stray brackets.\<close>

definition SplitHostPort :: "string \<Rightarrow> (string \<times> string) option" where
  "SplitHostPort hp =
     (case last_index (CHR '':'') hp of
        None \<Rightarrow> None
      | Some i \<Rightarrow>
          (case hp of
             (CHR ''['') # _ \<Rightarrow>
               (case first_index (CHR '']'') hp of
                  None \<Rightarrow> None
                | Some e \<Rightarrow>
                    if e + 1 \<noteq> i then None
                    else if CHR ''['' \<in> set (drop 1 hp) \<or> CHR '']'' \<in> set (drop (e + 1) hp) then None
                    else Some (take (e - 1) (drop 1 hp), drop (i + 1) hp))
           | _ \<Rightarrow>
               if CHR '':'' \<in> set (take i hp) then None
               else if CHR ''['' \<in> set hp \<or> CHR '']'' \<in> set hp then None
               else Some (take i hp, drop (i + 1) hp)))"

lemma last_index_None: "last_index c s = None \<longleftrightarrow> c \<notin> set s"
  by (induction s) (auto split: option.splits)

lemma last_index_Some: "last_index c s = Some i \<Longrightarrow> i < length s \<and> s ! i = c \<and> c \<notin> set (drop (Suc i) s)"
proof (induction s arbitrary: i)
  case (Cons x s)
  then show ?case by (cases "last_index c s") (auto split: if_splits simp: last_index_None)
qed simp

end
