(* ===== verification/Auth.thy ===== *)
theory Auth
  imports Codec "HOL-Library.Countable"
begin

text \<open>
  Tokens and registration signatures (\<^verbatim>\<open>server/internal/auth/auth.go\<close>).  The JWT library and
  HMAC-SHA256 are arguments; \<open>jwt_ok\<close> states the documented behaviour of
  \<^verbatim>\<open>golang-jwt\<close> that the code relies on.  Random bytes and clock readings are arguments of the
  functions that draw them.
\<close>

section \<open>The JWT library as the code sees it\<close>

datatype claim = CString string | CNumber int | CStrings "string list" | COther

type_synonym claims = "(string, claim) gomap"

datatype signing_method = SigningMethodHMAC | OtherMethod string

record parser_options =
  WithAudience :: "string option"
  WithExpirationRequired :: bool

record jwt_lib =
  jwt_SignedString :: "claims \<Rightarrow> bytes \<Rightarrow> string option"
  jwt_Parse :: "parser_options \<Rightarrow> time \<Rightarrow> (signing_method \<Rightarrow> bytes option) \<Rightarrow> string \<Rightarrow> (claims \<times> bool) option"
  jwt_GetAudience :: "claims \<Rightarrow> string list option"
  jwt_GetSubject :: "claims \<Rightarrow> string option"
  jwt_Signed :: "bytes \<Rightarrow> string \<Rightarrow> claims \<Rightarrow> bool"

definition claims_live :: "time \<Rightarrow> claims \<Rightarrow> bool" where
  "claims_live now c \<longleftrightarrow> (case gget c ''exp'' of Some (CNumber e) \<Rightarrow> now < e * second | _ \<Rightarrow> True)"

definition options_met :: "jwt_lib \<Rightarrow> parser_options \<Rightarrow> claims \<Rightarrow> bool" where
  "options_met L opt c \<longleftrightarrow>
     (case WithAudience opt of
        None \<Rightarrow> True
      | Some a \<Rightarrow> (case jwt_GetAudience L c of None \<Rightarrow> False | Some auds \<Rightarrow> a \<in> set auds)) \<and>
     (WithExpirationRequired opt \<longrightarrow> gget c ''exp'' \<noteq> None)"

text \<open>
  Documented behaviour: a token signed with HMAC parses back to its claims while they are live and
  the options are met; a token that parses is live, meets the options and is signed with the key
  that the key function gave for its method; audience and subject read the registered claims.
\<close>

definition jwt_ok :: "jwt_lib \<Rightarrow> bool" where
  "jwt_ok L \<longleftrightarrow>
     (\<forall>c k. jwt_SignedString L c k \<noteq> None) \<and>
     (\<forall>c k tok opt now kf. jwt_SignedString L c k = Some tok \<longrightarrow> kf SigningMethodHMAC = Some k \<longrightarrow>
        claims_live now c \<longrightarrow> options_met L opt c \<longrightarrow> gget c ''nbf'' = None \<longrightarrow>
        jwt_Parse L opt now kf tok = Some (c, True)) \<and>
     (\<forall>opt now kf tok c v. jwt_Parse L opt now kf tok = Some (c, v) \<longrightarrow>
        claims_live now c \<and> options_met L opt c \<and>
        (\<forall>k. (\<forall>m. m \<noteq> SigningMethodHMAC \<longrightarrow> kf m = None) \<longrightarrow> kf SigningMethodHMAC = Some k \<longrightarrow> jwt_Signed L k tok c)) \<and>
     (\<forall>c s. gget c ''aud'' = Some (CString s) \<longrightarrow> jwt_GetAudience L c = Some [s]) \<and>
     (\<forall>c s. gget c ''sub'' = Some (CString s) \<longrightarrow> jwt_GetSubject L c = Some s)"

section \<open>Definitions\<close>

record secrets =
  registrationSecret :: bytes
  jwtSecret :: bytes

definition AccessTokenDuration :: duration where "AccessTokenDuration = 1 * hour"
definition RefreshTokenDuration :: duration where "RefreshTokenDuration = 24 * 7 * hour"
definition TokenAudience :: string where "TokenAudience = ''patchli-agent''"
definition TokenTypeAccess :: string where "TokenTypeAccess = ''access''"
definition TokenTypeRefresh :: string where "TokenTypeRefresh = ''refresh''"

record TokenPair =
  AccessToken :: string
  RefreshToken :: string

text \<open>\<open>None\<close> is the panic of a server that starts without its secrets.\<close>

definition InitSecrets :: "(string \<Rightarrow> string) \<Rightarrow> secrets option" where
  "InitSecrets getenv =
     (let r = getenv ''REGISTRATION_SECRET''; j = getenv ''JWT_SECRET''
      in if length r = 0 \<or> length j = 0 then None
         else Some \<lparr>registrationSecret = r, jwtSecret = j\<rparr>)"

definition GenerateRegistrationSignature ::
  "(bytes \<Rightarrow> bytes \<Rightarrow> bytes) \<Rightarrow> secrets \<Rightarrow> string \<Rightarrow> string \<Rightarrow> string \<Rightarrow> string" where
  "GenerateRegistrationSignature hmac_sha256 S grp timestamp nonce =
     hex_encode (hmac_sha256 (registrationSecret S) (grp @ '':'' @ timestamp @ '':'' @ nonce))"

definition randomHex :: "bytes \<Rightarrow> string" where
  "randomHex b = hex_encode b"

definition NewRegistrationNonce :: "bytes \<Rightarrow> string" where
  "NewRegistrationNonce rnd16 = randomHex rnd16"

definition signAgentToken ::
  "jwt_lib \<Rightarrow> secrets \<Rightarrow> time \<Rightarrow> bytes \<Rightarrow> string \<Rightarrow> string \<Rightarrow> duration \<Rightarrow> string option" where
  "signAgentToken L S now rnd macAddr tokenType lifetime =
     jwt_SignedString L
       [(''sub'', CString macAddr), (''aud'', CString TokenAudience), (''typ'', CString tokenType),
        (''jti'', CString (randomHex rnd)), (''iat'', CNumber (Unix now)),
        (''exp'', CNumber (Unix (now + lifetime)))]
       (jwtSecret S)"

definition GenerateAgentJWT :: "jwt_lib \<Rightarrow> secrets \<Rightarrow> time \<Rightarrow> bytes \<Rightarrow> string \<Rightarrow> string option" where
  "GenerateAgentJWT L S now rnd macAddr = signAgentToken L S now rnd macAddr TokenTypeAccess AccessTokenDuration"

definition GenerateTokenPair ::
  "jwt_lib \<Rightarrow> secrets \<Rightarrow> time \<Rightarrow> bytes \<Rightarrow> bytes \<Rightarrow> string \<Rightarrow> TokenPair option" where
  "GenerateTokenPair L S now rnd rnd' macAddr =
     (case GenerateAgentJWT L S now rnd macAddr of
        None \<Rightarrow> None
      | Some accessToken \<Rightarrow>
          case signAgentToken L S now rnd' macAddr TokenTypeRefresh RefreshTokenDuration of
            None \<Rightarrow> None
          | Some refreshStr \<Rightarrow> Some \<lparr>AccessToken = accessToken, RefreshToken = refreshStr\<rparr>)"

definition hmac_keyfunc :: "bytes \<Rightarrow> signing_method \<Rightarrow> bytes option" where
  "hmac_keyfunc secret m = (case m of SigningMethodHMAC \<Rightarrow> Some secret | OtherMethod _ \<Rightarrow> None)"

definition ValidateToken :: "jwt_lib \<Rightarrow> secrets \<Rightarrow> time \<Rightarrow> string \<Rightarrow> claims option" where
  "ValidateToken L S now tokenStr =
     (case jwt_Parse L \<lparr>WithAudience = None, WithExpirationRequired = False\<rparr> now
             (hmac_keyfunc (jwtSecret S)) tokenStr of
        None \<Rightarrow> None
      | Some (claims, valid) \<Rightarrow> if valid then Some claims else None)"

definition hasAudience :: "jwt_lib \<Rightarrow> claims \<Rightarrow> bool" where
  "hasAudience L claims =
     (case jwt_GetAudience L claims of None \<Rightarrow> False | Some aud \<Rightarrow> list_ex (\<lambda>a. a = TokenAudience) aud)"

definition ValidateAccessToken :: "jwt_lib \<Rightarrow> secrets \<Rightarrow> time \<Rightarrow> string \<Rightarrow> claims option" where
  "ValidateAccessToken L S now tokenStr =
     (case ValidateToken L S now tokenStr of
        None \<Rightarrow> None
      | Some claims \<Rightarrow>
          if gget claims ''typ'' \<noteq> Some (CString TokenTypeAccess) \<or> \<not> hasAudience L claims then None
          else Some claims)"

definition ValidateRefreshToken :: "jwt_lib \<Rightarrow> secrets \<Rightarrow> time \<Rightarrow> string \<Rightarrow> claims option" where
  "ValidateRefreshToken L S now tokenStr =
     (case ValidateToken L S now tokenStr of
        None \<Rightarrow> None
      | Some claims \<Rightarrow>
          case gget claims ''typ'' of
            None \<Rightarrow> Some claims
          | Some typ \<Rightarrow>
              if typ \<noteq> CString TokenTypeRefresh \<or> \<not> hasAudience L claims then None else Some claims)"

definition ValidateRegistration ::
  "(bytes \<Rightarrow> bytes \<Rightarrow> bytes) \<Rightarrow> (string \<Rightarrow> time option) \<Rightarrow> secrets \<Rightarrow> time \<Rightarrow>
     string \<Rightarrow> string \<Rightarrow> string \<Rightarrow> string \<Rightarrow> bool" where
  "ValidateRegistration hmac_sha256 parse_time S now grp timestamp nonce signature =
     (let timestampValid = (case parse_time timestamp of
            None \<Rightarrow> False | Some t \<Rightarrow> now - t \<le> 10 * minute \<and> t - now \<le> 5 * minute);
          expected = GenerateRegistrationSignature hmac_sha256 S grp timestamp nonce;
          signatureValid = (signature = expected)
      in timestampValid \<and> signatureValid \<and> nonce \<noteq> [])"

section \<open>A library that behaves as documented\<close>

instance claim :: countable
  by countable_datatype

text \<open>Tokens that spell out the code of their claims and key; only used to show \<open>jwt_ok\<close> can hold.\<close>

definition toy_token :: "claims \<Rightarrow> bytes \<Rightarrow> string" where
  "toy_token c k = replicate (to_nat (c, k)) (CHR ''t'')"

definition toy_open :: "string \<Rightarrow> claims \<times> bytes" where
  "toy_open tok = from_nat (length tok)"

definition toy_audience :: "claims \<Rightarrow> string list option" where
  "toy_audience c = (case gget c ''aud'' of Some (CString s) \<Rightarrow> Some [s] | Some (CStrings ss) \<Rightarrow> Some ss | _ \<Rightarrow> Some [])"

definition toy_jwt :: jwt_lib where
  "toy_jwt =
     \<lparr>jwt_SignedString = (\<lambda>c k. Some (toy_token c k)),
      jwt_Parse = (\<lambda>opt now kf tok.
        let (c, k) = toy_open tok
        in if tok = toy_token c k \<and> kf SigningMethodHMAC = Some k \<and> claims_live now c \<and>
              (case WithAudience opt of None \<Rightarrow> True | Some a \<Rightarrow>
                 (case toy_audience c of None \<Rightarrow> False | Some auds \<Rightarrow> a \<in> set auds)) \<and>
              (WithExpirationRequired opt \<longrightarrow> gget c ''exp'' \<noteq> None)
           then Some (c, True) else None),
      jwt_GetAudience = toy_audience,
      jwt_GetSubject = (\<lambda>c. case gget c ''sub'' of Some (CString s) \<Rightarrow> Some s | _ \<Rightarrow> Some []),
      jwt_Signed = (\<lambda>k tok c. tok = toy_token c k)\<rparr>"

lemma toy_open_token [simp]: "toy_open (toy_token c k) = (c, k)"
  by (simp add: toy_open_def toy_token_def)

lemma toy_jwt_ok: "jwt_ok toy_jwt"
  unfolding jwt_ok_def
  by (auto simp: toy_jwt_def options_met_def toy_audience_def split: prod.splits if_splits option.splits)

section \<open>Lemmas\<close>

lemma jwt_okD:
  assumes "jwt_ok L"
  shows "jwt_SignedString L c k \<noteq> None"
    and "jwt_SignedString L c k = Some tok \<Longrightarrow> kf SigningMethodHMAC = Some k \<Longrightarrow> claims_live now c \<Longrightarrow>
      options_met L opt c \<Longrightarrow> gget c ''nbf'' = None \<Longrightarrow> jwt_Parse L opt now kf tok = Some (c, True)"
    and "jwt_Parse L opt now kf tok = Some (c, v) \<Longrightarrow> claims_live now c \<and> options_met L opt c"
    and "gget c ''aud'' = Some (CString s) \<Longrightarrow> jwt_GetAudience L c = Some [s]"
    and "gget c ''sub'' = Some (CString s) \<Longrightarrow> jwt_GetSubject L c = Some s"
  using assms unfolding jwt_ok_def by blast+

lemma jwt_ok_signed:
  assumes "jwt_ok L" and "jwt_Parse L opt now (hmac_keyfunc k) tok = Some (c, v)"
  shows "jwt_Signed L k tok c"
proof -
  have "\<forall>m. m \<noteq> SigningMethodHMAC \<longrightarrow> hmac_keyfunc k m = None"
    by (auto simp: hmac_keyfunc_def split: signing_method.splits)
  moreover have "hmac_keyfunc k SigningMethodHMAC = Some k" by (simp add: hmac_keyfunc_def)
  ultimately show ?thesis using assms unfolding jwt_ok_def by blast
qed

definition issued_claims :: "string \<Rightarrow> string \<Rightarrow> bytes \<Rightarrow> time \<Rightarrow> duration \<Rightarrow> claims" where
  "issued_claims mac ty rnd t life =
     [(''sub'', CString mac), (''aud'', CString TokenAudience), (''typ'', CString ty),
      (''jti'', CString (randomHex rnd)), (''iat'', CNumber (Unix t)), (''exp'', CNumber (Unix (t + life)))]"

text \<open>An issued token parses to the claims it was issued with until its expiry.\<close>

lemma issued_token_parses:
  assumes ok: "jwt_ok L" and tok: "signAgentToken L S t rnd mac ty life = Some tok"
    and live: "now < Unix (t + life) * second"
  shows "jwt_Parse L \<lparr>WithAudience = None, WithExpirationRequired = b\<rparr> now (hmac_keyfunc (jwtSecret S)) tok
       = Some (issued_claims mac ty rnd t life, True)"
    and "jwt_Parse L \<lparr>WithAudience = Some TokenAudience, WithExpirationRequired = b\<rparr> now (hmac_keyfunc (jwtSecret S)) tok
       = Some (issued_claims mac ty rnd t life, True)"
    and "hasAudience L (issued_claims mac ty rnd t life)"
proof -
  let ?c = "issued_claims mac ty rnd t life"
  have aud: "jwt_GetAudience L ?c = Some [TokenAudience]" by (rule jwt_okD(4) [OF ok]) (simp add: issued_claims_def)
  then show "hasAudience L ?c" by (simp add: hasAudience_def)
  have signed: "jwt_SignedString L ?c (jwtSecret S) = Some tok"
    using tok by (simp add: signAgentToken_def issued_claims_def)
  have misc: "claims_live now ?c" "gget ?c ''exp'' \<noteq> None" "gget ?c ''nbf'' = None"
    using live by (simp_all add: claims_live_def issued_claims_def)
  have kf: "hmac_keyfunc (jwtSecret S) SigningMethodHMAC = Some (jwtSecret S)" by (simp add: hmac_keyfunc_def)
  show "jwt_Parse L \<lparr>WithAudience = None, WithExpirationRequired = b\<rparr> now (hmac_keyfunc (jwtSecret S)) tok = Some (?c, True)"
    by (rule jwt_okD(2) [OF ok signed]) (use misc kf in \<open>simp_all add: options_met_def\<close>)
  show "jwt_Parse L \<lparr>WithAudience = Some TokenAudience, WithExpirationRequired = b\<rparr> now (hmac_keyfunc (jwtSecret S)) tok = Some (?c, True)"
    by (rule jwt_okD(2) [OF ok signed]) (use misc kf aud in \<open>simp_all add: options_met_def\<close>)
qed

text \<open>An agent token validates to the claims it was issued with until its expiry.\<close>

lemma agent_token_validates:
  assumes ok: "jwt_ok L" and tok: "signAgentToken L S t rnd mac ty life = Some tok"
    and live: "now < Unix (t + life) * second"
  obtains c where "ValidateToken L S now tok = Some c" "gget c ''sub'' = Some (CString mac)"
    "gget c ''typ'' = Some (CString ty)" "hasAudience L c" "gget c ''exp'' = Some (CNumber (Unix (t + life)))"
proof (rule that [of "issued_claims mac ty rnd t life"])
  show "ValidateToken L S now tok = Some (issued_claims mac ty rnd t life)"
    using issued_token_parses(1) [OF assms] by (simp add: ValidateToken_def)
qed (simp_all add: issued_claims_def issued_token_parses(3) [OF assms, unfolded issued_claims_def])

lemma GenerateTokenPair_Some:
  assumes "GenerateTokenPair L S now r r' mac = Some pair"
  shows "signAgentToken L S now r mac TokenTypeAccess AccessTokenDuration = Some (AccessToken pair)"
    and "signAgentToken L S now r' mac TokenTypeRefresh RefreshTokenDuration = Some (RefreshToken pair)"
  using assms by (auto simp: GenerateTokenPair_def GenerateAgentJWT_def split: option.splits)

lemma access_token_validates:
  assumes "jwt_ok L" and "GenerateTokenPair L S t r r' mac = Some pair"
    and "now < Unix (t + AccessTokenDuration) * second"
  shows "\<exists>c. ValidateAccessToken L S now (AccessToken pair) = Some c \<and> gget c ''sub'' = Some (CString mac)"
proof -
  obtain c where "ValidateToken L S now (AccessToken pair) = Some c" "gget c ''sub'' = Some (CString mac)"
    "gget c ''typ'' = Some (CString TokenTypeAccess)" "hasAudience L c"
    using assms(1) GenerateTokenPair_Some(1) [OF assms(2)] assms(3) by (rule agent_token_validates)
  then show ?thesis by (simp add: ValidateAccessToken_def)
qed

lemma GenerateTokenPair_total:
  assumes "jwt_ok L"
  shows "\<exists>pair. GenerateTokenPair L S t r r' mac = Some pair"
proof -
  have "signAgentToken L S t rnd mac ty life \<noteq> None" for rnd ty life
    unfolding signAgentToken_def by (rule jwt_okD(1) [OF assms])
  from this [of r TokenTypeAccess AccessTokenDuration] this [of r' TokenTypeRefresh RefreshTokenDuration]
  show ?thesis by (auto simp: GenerateTokenPair_def GenerateAgentJWT_def)
qed

lemma ValidateAccessToken_SomeD:
  assumes "ValidateAccessToken L S now tok = Some c"
  shows "ValidateToken L S now tok = Some c" "gget c ''typ'' = Some (CString TokenTypeAccess)" "hasAudience L c"
  using assms by (auto simp: ValidateAccessToken_def split: option.splits if_splits)

lemma ValidateToken_SomeD:
  assumes "jwt_ok L" and "ValidateToken L S now tok = Some c"
  shows "claims_live now c" and "jwt_Signed L (jwtSecret S) tok c"
proof -
  from assms(2) obtain v where
    "jwt_Parse L \<lparr>WithAudience = None, WithExpirationRequired = False\<rparr> now (hmac_keyfunc (jwtSecret S)) tok = Some (c, v)"
    by (auto simp: ValidateToken_def split: option.splits prod.splits if_splits)
  then show "claims_live now c" and "jwt_Signed L (jwtSecret S) tok c"
    using jwt_okD(3) [OF assms(1)] jwt_ok_signed [OF assms(1)] by blast+
qed

section \<open>Properties\<close>

text \<open>Tokens are not interchangeable: of the pair issued for a node, the access token is accepted as
  an access token and refused as a refresh token for its whole lifetime of one hour, and the refresh
  token is accepted as a refresh token with the node as its subject and refused as an access token for
  its whole lifetime of seven days.\<close>

theorem token_pair_separated:
  assumes "jwt_ok L" and "GenerateTokenPair L S t r r' mac = Some pair"
  shows "(now < Unix (t + AccessTokenDuration) * second \<longrightarrow>
      ValidateAccessToken L S now (AccessToken pair) \<noteq> None \<and>
      ValidateRefreshToken L S now (AccessToken pair) = None) \<and>
    (now < Unix (t + RefreshTokenDuration) * second \<longrightarrow>
      (\<exists>c. ValidateRefreshToken L S now (RefreshToken pair) = Some c \<and> gget c ''sub'' = Some (CString mac)) \<and>
      ValidateAccessToken L S now (RefreshToken pair) = None)"
proof (intro conjI impI)
  note toks = GenerateTokenPair_Some [OF assms(2)]
  {
    assume live: "now < Unix (t + AccessTokenDuration) * second"
    obtain c where "ValidateToken L S now (AccessToken pair) = Some c"
      "gget c ''typ'' = Some (CString TokenTypeAccess)" "hasAudience L c"
      using assms(1) toks(1) live by (rule agent_token_validates)
    then show "ValidateAccessToken L S now (AccessToken pair) \<noteq> None"
      and "ValidateRefreshToken L S now (AccessToken pair) = None"
      by (simp_all add: ValidateAccessToken_def ValidateRefreshToken_def TokenTypeAccess_def TokenTypeRefresh_def)
  next
    assume live: "now < Unix (t + RefreshTokenDuration) * second"
    obtain c where "ValidateToken L S now (RefreshToken pair) = Some c" "gget c ''sub'' = Some (CString mac)"
      "gget c ''typ'' = Some (CString TokenTypeRefresh)" "hasAudience L c"
      using assms(1) toks(2) live by (rule agent_token_validates)
    then show "\<exists>c. ValidateRefreshToken L S now (RefreshToken pair) = Some c \<and> gget c ''sub'' = Some (CString mac)"
      and "ValidateAccessToken L S now (RefreshToken pair) = None"
      by (simp_all add: ValidateAccessToken_def ValidateRefreshToken_def TokenTypeAccess_def TokenTypeRefresh_def)
  }
qed

theorem token_pair_separated_witness:
  "\<exists>pair. GenerateTokenPair toy_jwt \<lparr>registrationSecret = ''r'', jwtSecret = ''j''\<rparr> 0 ''a'' ''b'' ''n1'' = Some pair \<and>
     ValidateAccessToken toy_jwt \<lparr>registrationSecret = ''r'', jwtSecret = ''j''\<rparr> 5 (AccessToken pair) \<noteq> None \<and>
     ValidateAccessToken toy_jwt \<lparr>registrationSecret = ''r'', jwtSecret = ''j''\<rparr> 5 (RefreshToken pair) = None"
proof -
  let ?S = "\<lparr>registrationSecret = ''r'', jwtSecret = ''j''\<rparr>"
  obtain pair where p: "GenerateTokenPair toy_jwt ?S 0 ''a'' ''b'' ''n1'' = Some pair"
    by (simp add: GenerateTokenPair_def GenerateAgentJWT_def signAgentToken_def toy_jwt_def)
  from token_pair_separated [OF toy_jwt_ok p, of 5] p show ?thesis
    by (auto simp: AccessTokenDuration_def RefreshTokenDuration_def Unix_def)
qed

end
