(* ===== verification/Db.thy ===== *)
theory Db
  imports Codec
begin

text \<open>
  Persistence of the control plane (\<^verbatim>\<open>server/internal/db/db.go\<close> over the schema of
  \<^verbatim>\<open>migrations/*.sql\<close>).  The tables are a record; a SQL statement is a function on the tables that
  \<open>exec\<close> runs under an outcome chosen by the environment: done, refused, or lost (applied, but the
  caller sees an error, as when the connection breaks after the server has acted).  Outcomes are
  arbitrary, so the theorems hold for every pattern of failing statements.  \<^verbatim>\<open>CURRENT_TIMESTAMP\<close>
  and \<^verbatim>\<open>time.Now\<close> are arguments.  A transaction that holds the node's advisory lock is one atomic
  step; the SHA-256 of \<^verbatim>\<open>hashToken\<close> is the argument \<open>sha\<close>.

  The lemmas establish what the enrollment comments promise: enrollment, rotation and revocation
  are atomic, an enrolled identity is not handed out again, a refresh token is redeemed at most
  once, and a node keeps its claim for as long as it holds a live token.
\<close>

section \<open>Tables and statements\<close>

record node_row =
  n_hostname :: string
  n_os_name :: "string option"
  n_os_version :: "string option"
  n_kernel_version :: "string option"
  n_status :: string
  n_last_heartbeat :: time

record token_row =
  t_mac_address :: string
  t_token_hash :: string
  t_expires_at :: time

record enrollment_row =
  e_enrolled_at :: time
  e_expires_at :: time

record audit_row =
  a_job_id :: string
  a_status :: string
  a_created_at :: time

record db_tables =
  nodes :: "(string, node_row) gomap"
  refresh_tokens :: "token_row list"
  node_enrollments :: "(string, enrollment_row) gomap"
  registration_nonces :: "(string, time) gomap"
  audit_logs :: "audit_row list"

text \<open>The package state: \<open>DB = None\<close> is the nil handle of a server started without a database.\<close>

record db_state =
  DB :: "db_tables option"
  memEnrollments :: "(string, time) gomap"
  memNonces :: "(string, time) gomap"

datatype stmt =
    Begin | LockNode | Commit
  | UpsertNode | UpdateOffline | SelectJobStatus
  | InsertToken | SelectToken | DeleteToken | DeleteTokens | TokenRowsAffected
  | SelectEnrolled | UpsertEnrollment | DeleteEnrollment | InsertNode
  | DeleteNonces | InsertNonce | NonceRowsAffected

datatype outcome = Done | Refused | Lost

type_synonym faults = "stmt \<Rightarrow> outcome"

datatype db_error = NotInitialized | ErrAlreadyEnrolled | ErrNonceUsed | SqlError stmt

type_synonym 'a tx = "db_tables \<Rightarrow> (db_error + 'a) \<times> db_tables"

definition exec :: "faults \<Rightarrow> stmt \<Rightarrow> (db_tables \<Rightarrow> 'a \<times> db_tables) \<Rightarrow> 'a tx" where
  "exec f q act tb =
     (case f q of
        Done \<Rightarrow> (Inr (fst (act tb)), snd (act tb))
      | Refused \<Rightarrow> (Inl (SqlError q), tb)
      | Lost \<Rightarrow> (Inl (SqlError q), snd (act tb)))"

definition tx_bind :: "'a tx \<Rightarrow> ('a \<Rightarrow> 'b tx) \<Rightarrow> 'b tx" where
  "tx_bind m k tb = (case m tb of (Inl e, tb') \<Rightarrow> (Inl e, tb') | (Inr a, tb') \<Rightarrow> k a tb')"

definition tx_return :: "'a \<Rightarrow> 'a tx" where
  "tx_return a tb = (Inr a, tb)"

definition tx_fail :: "db_error \<Rightarrow> 'a tx" where
  "tx_fail e tb = (Inl e, tb)"

text \<open>A \<^verbatim>\<open>TIMESTAMP WITH TIME ZONE\<close> keeps microseconds; the driver drops the rest.\<close>

definition pg_time :: "time \<Rightarrow> time" where
  "pg_time t = t div 1000 * 1000"

definition hashToken :: "(bytes \<Rightarrow> bytes) \<Rightarrow> string \<Rightarrow> string" where
  "hashToken sha token = hex_encode (sha token)"

subsection \<open>The statements\<close>

definition upsert_node ::
  "time \<Rightarrow> string \<Rightarrow> string \<Rightarrow> string \<Rightarrow> string \<Rightarrow> string \<Rightarrow> string \<Rightarrow> db_tables \<Rightarrow> unit \<times> db_tables" where
  "upsert_node now mac hostname osName osVersion kernelVer status tb =
     ((), tb\<lparr>nodes := gput mac
        \<lparr>n_hostname = hostname, n_os_name = Some osName, n_os_version = Some osVersion,
         n_kernel_version = Some kernelVer, n_status = status, n_last_heartbeat = now\<rparr> (nodes tb)\<rparr>)"

definition update_offline :: "string \<Rightarrow> db_tables \<Rightarrow> unit \<times> db_tables" where
  "update_offline mac tb =
     ((), tb\<lparr>nodes := gmap (\<lambda>m r. if m = mac then r\<lparr>n_status := ''offline''\<rparr> else r) (nodes tb)\<rparr>)"

definition insert_node_if_absent :: "time \<Rightarrow> string \<Rightarrow> db_tables \<Rightarrow> unit \<times> db_tables" where
  "insert_node_if_absent now mac tb =
     ((), case gget (nodes tb) mac of
            Some _ \<Rightarrow> tb
          | None \<Rightarrow> tb\<lparr>nodes := gput mac
              \<lparr>n_hostname = mac, n_os_name = None, n_os_version = None, n_kernel_version = None,
               n_status = ''enrolled'', n_last_heartbeat = now\<rparr> (nodes tb)\<rparr>)"

definition insert_token :: "string \<Rightarrow> string \<Rightarrow> time \<Rightarrow> db_tables \<Rightarrow> unit \<times> db_tables" where
  "insert_token mac h e tb =
     ((), tb\<lparr>refresh_tokens := refresh_tokens tb @
        [\<lparr>t_mac_address = mac, t_token_hash = h, t_expires_at = e\<rparr>]\<rparr>)"

text \<open>\<^verbatim>\<open>refresh_tokens.mac_address\<close> references \<^verbatim>\<open>nodes\<close>: without the node the insert is refused.\<close>

definition check_fk :: "string \<Rightarrow> db_tables \<Rightarrow> faults \<Rightarrow> faults" where
  "check_fk mac tb f = (if gget (nodes tb) mac = None then f(InsertToken := Refused) else f)"

definition exec_insert_token :: "faults \<Rightarrow> string \<Rightarrow> string \<Rightarrow> time \<Rightarrow> unit tx" where
  "exec_insert_token f mac h e tb = exec (check_fk mac tb f) InsertToken (insert_token mac h e) tb"

definition live_token :: "time \<Rightarrow> string \<Rightarrow> string \<Rightarrow> token_row \<Rightarrow> bool" where
  "live_token now mac h r \<longleftrightarrow> t_mac_address r = mac \<and> t_token_hash r = h \<and> t_expires_at r > now"

definition select_token :: "time \<Rightarrow> string \<Rightarrow> string \<Rightarrow> db_tables \<Rightarrow> bool \<times> db_tables" where
  "select_token now mac h tb = (list_ex (live_token now mac h) (refresh_tokens tb), tb)"

text \<open>The deletions report the number of rows affected.\<close>

definition delete_tokens_where :: "(token_row \<Rightarrow> bool) \<Rightarrow> db_tables \<Rightarrow> nat \<times> db_tables" where
  "delete_tokens_where P tb =
     (length (filter P (refresh_tokens tb)),
      tb\<lparr>refresh_tokens := filter (\<lambda>r. \<not> P r) (refresh_tokens tb)\<rparr>)"

definition select_enrolled :: "time \<Rightarrow> string \<Rightarrow> db_tables \<Rightarrow> bool \<times> db_tables" where
  "select_enrolled now mac tb =
     ((case gget (node_enrollments tb) mac of None \<Rightarrow> False | Some r \<Rightarrow> e_expires_at r > now), tb)"

definition upsert_enrollment :: "time \<Rightarrow> string \<Rightarrow> time \<Rightarrow> db_tables \<Rightarrow> unit \<times> db_tables" where
  "upsert_enrollment now mac e tb =
     ((), tb\<lparr>node_enrollments := gput mac \<lparr>e_enrolled_at = now, e_expires_at = e\<rparr> (node_enrollments tb)\<rparr>)"

definition extend_enrollment :: "time \<Rightarrow> string \<Rightarrow> time \<Rightarrow> db_tables \<Rightarrow> unit \<times> db_tables" where
  "extend_enrollment now mac e tb =
     ((), tb\<lparr>node_enrollments :=
        (case gget (node_enrollments tb) mac of
           None \<Rightarrow> gput mac \<lparr>e_enrolled_at = now, e_expires_at = e\<rparr> (node_enrollments tb)
         | Some r \<Rightarrow> gput mac (r\<lparr>e_expires_at := max (e_expires_at r) e\<rparr>) (node_enrollments tb))\<rparr>)"

definition delete_enrollment :: "string \<Rightarrow> db_tables \<Rightarrow> unit \<times> db_tables" where
  "delete_enrollment mac tb = ((), tb\<lparr>node_enrollments := gdel mac (node_enrollments tb)\<rparr>)"

definition delete_nonces :: "time \<Rightarrow> db_tables \<Rightarrow> unit \<times> db_tables" where
  "delete_nonces now tb =
     ((), tb\<lparr>registration_nonces := gretain (\<lambda>_ e. \<not> e < now) (registration_nonces tb)\<rparr>)"

definition insert_nonce :: "string \<Rightarrow> time \<Rightarrow> db_tables \<Rightarrow> nat \<times> db_tables" where
  "insert_nonce h e tb =
     (case gget (registration_nonces tb) h of
        Some _ \<Rightarrow> (0, tb)
      | None \<Rightarrow> (1, tb\<lparr>registration_nonces := gput h e (registration_nonces tb)\<rparr>))"

section \<open>Operations\<close>

text \<open>
  An operation gets the package state and returns its results with the new state; \<open>on_db\<close> lifts
  one on the tables and gives \<open>r\<close> without a database.
\<close>

definition on_db :: "'r \<Rightarrow> (db_tables \<Rightarrow> 'r \<times> db_tables) \<Rightarrow> db_state \<Rightarrow> 'r \<times> db_state" where
  "on_db r act st =
     (case DB st of
        None \<Rightarrow> (r, st)
      | Some tb \<Rightarrow> (fst (act tb), st\<lparr>DB := Some (snd (act tb))\<rparr>))"

definition err_of :: "(db_error + 'a) \<times> db_tables \<Rightarrow> db_error option \<times> db_tables" where
  "err_of p = ((case fst p of Inl e \<Rightarrow> Some e | Inr _ \<Rightarrow> None), snd p)"

definition UpdateNodeStatus ::
  "faults \<Rightarrow> time \<Rightarrow> string \<Rightarrow> string \<Rightarrow> string \<Rightarrow> string \<Rightarrow> string \<Rightarrow> string \<Rightarrow>
   db_state \<Rightarrow> db_error option \<times> db_state" where
  "UpdateNodeStatus f now mac hostname osName osVersion kernelVer status =
     on_db (Some NotInitialized)
       (\<lambda>tb. err_of (exec f UpsertNode (upsert_node now mac hostname osName osVersion kernelVer status) tb))"

definition MarkNodeOffline :: "faults \<Rightarrow> string \<Rightarrow> db_state \<Rightarrow> db_error option \<times> db_state" where
  "MarkNodeOffline f mac =
     on_db (Some NotInitialized) (\<lambda>tb. err_of (exec f UpdateOffline (update_offline mac) tb))"

text \<open>
  \<^verbatim>\<open>ORDER BY created_at DESC LIMIT 1\<close>: the newest row of the job; SQL leaves open which of two
  rows with equal timestamps comes first, the model takes the earlier row of the table.
\<close>

fun newest_row :: "audit_row list \<Rightarrow> audit_row option" where
  "newest_row [] = None"
| "newest_row (r # rs) =
     (case newest_row rs of
        None \<Rightarrow> Some r
      | Some r' \<Rightarrow> if a_created_at r' > a_created_at r then Some r' else Some r)"

definition IsJobRunning :: "faults \<Rightarrow> string \<Rightarrow> db_state \<Rightarrow> bool \<times> db_error option" where
  "IsJobRunning f jobID st =
     (case DB st of
        None \<Rightarrow> (False, Some NotInitialized)
      | Some tb \<Rightarrow>
          if f SelectJobStatus \<noteq> Done then (False, Some (SqlError SelectJobStatus))
          else case newest_row (filter (\<lambda>r. a_job_id r = jobID) (audit_logs tb)) of
                 None \<Rightarrow> (False, None)
               | Some r \<Rightarrow> (a_status r = ''running'', None))"

definition StoreRefreshToken ::
  "(bytes \<Rightarrow> bytes) \<Rightarrow> faults \<Rightarrow> string \<Rightarrow> string \<Rightarrow> time \<Rightarrow> db_state \<Rightarrow> db_error option \<times> db_state" where
  "StoreRefreshToken sha f mac token expiresAt =
     on_db None (\<lambda>tb. err_of (exec_insert_token f mac (hashToken sha token) (pg_time expiresAt) tb))"

definition VerifyRefreshToken ::
  "(bytes \<Rightarrow> bytes) \<Rightarrow> faults \<Rightarrow> time \<Rightarrow> string \<Rightarrow> string \<Rightarrow> db_state \<Rightarrow> bool \<times> db_error option" where
  "VerifyRefreshToken sha f now mac token st =
     (case DB st of
        None \<Rightarrow> (False, Some NotInitialized)
      | Some tb \<Rightarrow>
          (case fst (exec f SelectToken (select_token now mac (hashToken sha token)) tb) of
             Inl e \<Rightarrow> (False, Some e)
           | Inr b \<Rightarrow> (b, None)))"

definition DeleteRefreshToken ::
  "(bytes \<Rightarrow> bytes) \<Rightarrow> faults \<Rightarrow> string \<Rightarrow> string \<Rightarrow> db_state \<Rightarrow> db_error option \<times> db_state" where
  "DeleteRefreshToken sha f mac token =
     on_db (Some NotInitialized)
       (\<lambda>tb. err_of (exec f DeleteToken
          (delete_tokens_where (\<lambda>r. t_mac_address r = mac \<and> t_token_hash r = hashToken sha token)) tb))"

definition DeleteAllRefreshTokens :: "faults \<Rightarrow> string \<Rightarrow> db_state \<Rightarrow> db_error option \<times> db_state" where
  "DeleteAllRefreshTokens f mac =
     on_db (Some NotInitialized)
       (\<lambda>tb. err_of (exec f DeleteTokens (delete_tokens_where (\<lambda>r. t_mac_address r = mac)) tb))"

text \<open>
  \<^verbatim>\<open>withNodeLock\<close>: every error before the commit rolls back; a commit that reports an error may
  still have been applied.  The first component is what the closure assigned to its captured
  variables, if it returned nil.
\<close>

definition withNodeLock :: "faults \<Rightarrow> 'a tx \<Rightarrow> db_tables \<Rightarrow> ('a option \<times> db_error option) \<times> db_tables" where
  "withNodeLock f fn tb =
     (if f Begin \<noteq> Done then ((None, Some (SqlError Begin)), tb)
      else if f LockNode \<noteq> Done then ((None, Some (SqlError LockNode)), tb)
      else case fn tb of
             (Inl e, _) \<Rightarrow> ((None, Some e), tb)
           | (Inr a, tb') \<Rightarrow>
               (case f Commit of
                  Done \<Rightarrow> ((Some a, None), tb')
                | Refused \<Rightarrow> ((Some a, Some (SqlError Commit)), tb)
                | Lost \<Rightarrow> ((Some a, Some (SqlError Commit)), tb')))"

definition consumeNonce ::
  "(bytes \<Rightarrow> bytes) \<Rightarrow> faults \<Rightarrow> time \<Rightarrow> string \<Rightarrow> time \<Rightarrow> bool tx" where
  "consumeNonce sha f now nonce expiresAt =
     tx_bind (exec f DeleteNonces (delete_nonces now)) (\<lambda>_.
     tx_bind (exec f InsertNonce (insert_nonce (hashToken sha nonce) (pg_time expiresAt))) (\<lambda>n.
     if f NonceRowsAffected \<noteq> Done then tx_fail (SqlError NonceRowsAffected)
     else tx_return (n = 1)))"

definition take_mem_nonce :: "time \<Rightarrow> string \<Rightarrow> time \<Rightarrow> (string, time) gomap \<Rightarrow> bool \<times> (string, time) gomap" where
  "take_mem_nonce now h expiresAt m =
     (let m' = gretain (\<lambda>_ e. \<not> e < now) m
      in case gget m' h of
           Some _ \<Rightarrow> (False, m')
         | None \<Rightarrow> (True, gput h expiresAt m'))"

definition ConsumeRegistrationNonce ::
  "(bytes \<Rightarrow> bytes) \<Rightarrow> faults \<Rightarrow> time \<Rightarrow> string \<Rightarrow> time \<Rightarrow> db_state \<Rightarrow> (bool \<times> db_error option) \<times> db_state" where
  "ConsumeRegistrationNonce sha f now nonce expiresAt st =
     (case DB st of
        None \<Rightarrow>
          (let r = take_mem_nonce now (hashToken sha nonce) expiresAt (memNonces st)
           in ((fst r, None), st\<lparr>memNonces := snd r\<rparr>))
      | Some tb \<Rightarrow>
          (let r = consumeNonce sha f now nonce expiresAt tb
           in (case fst r of Inl e \<Rightarrow> (False, Some e) | Inr b \<Rightarrow> (b, None),
               st\<lparr>DB := Some (snd r)\<rparr>)))"

definition enroll_tx ::
  "(bytes \<Rightarrow> bytes) \<Rightarrow> faults \<Rightarrow> time \<Rightarrow> string \<Rightarrow> string \<Rightarrow> time \<Rightarrow> string \<Rightarrow> time \<Rightarrow> unit tx" where
  "enroll_tx sha f now mac nonce nonceExpiresAt refreshToken expiresAt =
     tx_bind (exec f SelectEnrolled (select_enrolled now mac)) (\<lambda>enrolled.
     if enrolled then tx_fail ErrAlreadyEnrolled else
     tx_bind (consumeNonce sha f now nonce nonceExpiresAt) (\<lambda>fresh.
     if \<not> fresh then tx_fail ErrNonceUsed else
     tx_bind (exec f UpsertEnrollment (upsert_enrollment now mac (pg_time expiresAt))) (\<lambda>_.
     tx_bind (exec f InsertNode (insert_node_if_absent now mac)) (\<lambda>_.
     exec_insert_token f mac (hashToken sha refreshToken) (pg_time expiresAt)))))"

text \<open>
  Without a database the two clock readings are that of the enrollment sweep and the later one of
  the nonce sweep; with a database the first is \<^verbatim>\<open>CURRENT_TIMESTAMP\<close>, fixed for the transaction.
\<close>

definition EnrollNode ::
  "(bytes \<Rightarrow> bytes) \<Rightarrow> faults \<Rightarrow> time \<Rightarrow> time \<Rightarrow> string \<Rightarrow> string \<Rightarrow> time \<Rightarrow> string \<Rightarrow> time \<Rightarrow>
   db_state \<Rightarrow> db_error option \<times> db_state" where
  "EnrollNode sha f now now' mac nonce nonceExpiresAt refreshToken expiresAt st =
     (case DB st of
        None \<Rightarrow>
          (let st1 = st\<lparr>memEnrollments := gretain (\<lambda>_ e. now < e) (memEnrollments st)\<rparr>
           in case gget (memEnrollments st1) mac of
                Some _ \<Rightarrow> (Some ErrAlreadyEnrolled, st1)
              | None \<Rightarrow>
                  (case ConsumeRegistrationNonce sha f now' nonce nonceExpiresAt st1 of
                     ((fresh, Some e), st2) \<Rightarrow> (Some e, st2)
                   | ((fresh, None), st2) \<Rightarrow>
                       if \<not> fresh then (Some ErrNonceUsed, st2)
                       else (None, st2\<lparr>memEnrollments := gput mac expiresAt (memEnrollments st2)\<rparr>)))
      | Some tb \<Rightarrow>
          (let r = withNodeLock f (enroll_tx sha f now mac nonce nonceExpiresAt refreshToken expiresAt) tb
           in (snd (fst r), st\<lparr>DB := Some (snd r)\<rparr>)))"

definition rotate_tx ::
  "(bytes \<Rightarrow> bytes) \<Rightarrow> faults \<Rightarrow> time \<Rightarrow> string \<Rightarrow> string \<Rightarrow> string \<Rightarrow> time \<Rightarrow> bool tx" where
  "rotate_tx sha f now mac oldToken newToken expiresAt =
     tx_bind (exec f DeleteToken (delete_tokens_where (live_token now mac (hashToken sha oldToken)))) (\<lambda>n.
     if f TokenRowsAffected \<noteq> Done then tx_fail (SqlError TokenRowsAffected)
     else if n = 0 then
       tx_bind (exec f DeleteTokens (delete_tokens_where (\<lambda>r. t_mac_address r = mac))) (\<lambda>_. tx_return False)
     else
       tx_bind (exec_insert_token f mac (hashToken sha newToken) (pg_time expiresAt)) (\<lambda>_.
       tx_bind (exec f UpsertEnrollment (extend_enrollment now mac (pg_time expiresAt))) (\<lambda>_.
       tx_return True)))"

definition RotateRefreshToken ::
  "(bytes \<Rightarrow> bytes) \<Rightarrow> faults \<Rightarrow> time \<Rightarrow> string \<Rightarrow> string \<Rightarrow> string \<Rightarrow> time \<Rightarrow>
   db_state \<Rightarrow> (bool \<times> db_error option) \<times> db_state" where
  "RotateRefreshToken sha f now mac oldToken newToken expiresAt =
     on_db (False, Some NotInitialized)
       (\<lambda>tb. let r = withNodeLock f (rotate_tx sha f now mac oldToken newToken expiresAt) tb
             in ((fst (fst r) = Some True, snd (fst r)), snd r))"

definition revoke_tx :: "faults \<Rightarrow> string \<Rightarrow> unit tx" where
  "revoke_tx f mac =
     tx_bind (exec f DeleteTokens (delete_tokens_where (\<lambda>r. t_mac_address r = mac))) (\<lambda>_.
     exec f DeleteEnrollment (delete_enrollment mac))"

definition RevokeEnrollment :: "faults \<Rightarrow> string \<Rightarrow> db_state \<Rightarrow> db_error option \<times> db_state" where
  "RevokeEnrollment f mac st =
     (case DB st of
        None \<Rightarrow> (None, st\<lparr>memEnrollments := gdel mac (memEnrollments st)\<rparr>)
      | Some tb \<Rightarrow>
          (let r = withNodeLock f (revoke_tx f mac) tb
           in (snd (fst r), st\<lparr>DB := Some (snd r)\<rparr>)))"

section \<open>Runs of the package\<close>

text \<open>
  One request of the server to the package: the outcomes of its statements, its clock readings and
  the operation.  A step reports whether the operation succeeded (for a rotation: whether the token
  was rotated).
\<close>

datatype db_op =
    Heartbeat string string string string string string
  | Offline string
  | Enroll string string time string time
  | Rotate string string string time
  | Revoke string
  | Consume string time

record db_call =
  c_faults :: faults
  c_now :: time
  c_now' :: time
  c_op :: db_op

definition db_step :: "(bytes \<Rightarrow> bytes) \<Rightarrow> db_state \<Rightarrow> db_call \<Rightarrow> bool \<times> db_state" where
  "db_step sha st c =
     (case c_op c of
        Heartbeat mac hostname osName osVersion kernelVer status \<Rightarrow>
          map_prod (\<lambda>e. e = None) id (UpdateNodeStatus (c_faults c) (c_now c) mac hostname osName osVersion kernelVer status st)
      | Offline mac \<Rightarrow> map_prod (\<lambda>e. e = None) id (MarkNodeOffline (c_faults c) mac st)
      | Enroll mac nonce ne tok e \<Rightarrow>
          map_prod (\<lambda>e. e = None) id (EnrollNode sha (c_faults c) (c_now c) (c_now' c) mac nonce ne tok e st)
      | Rotate mac old new e \<Rightarrow>
          map_prod (\<lambda>(rotated, e). rotated \<and> e = None) id
            (RotateRefreshToken sha (c_faults c) (c_now c) mac old new e st)
      | Revoke mac \<Rightarrow> map_prod (\<lambda>e. e = None) id (RevokeEnrollment (c_faults c) mac st)
      | Consume nonce e \<Rightarrow>
          map_prod (\<lambda>(fresh, e). fresh \<and> e = None) id
            (ConsumeRegistrationNonce sha (c_faults c) (c_now c) nonce e st))"

definition empty_tables :: db_tables where
  "empty_tables = \<lparr>nodes = [], refresh_tokens = [], node_enrollments = [], registration_nonces = [], audit_logs = []\<rparr>"

definition init_state :: "bool \<Rightarrow> db_state" where
  "init_state with_db =
     \<lparr>DB = (if with_db then Some empty_tables else None), memEnrollments = [], memNonces = []\<rparr>"

text \<open>Reachable states, with the clock of the last step: clocks do not run backwards.\<close>

inductive db_reach :: "(bytes \<Rightarrow> bytes) \<Rightarrow> time \<Rightarrow> db_state \<Rightarrow> bool" for sha :: "bytes \<Rightarrow> bytes" where
  reach_init: "db_reach sha t (init_state b)"
| reach_step: "db_reach sha t st \<Longrightarrow> t \<le> c_now c \<Longrightarrow> db_reach sha (c_now c) (snd (db_step sha st c))"

section \<open>Abstract effects\<close>

text \<open>
  What a committed enrollment, rotation or revocation does to the tables, without statements,
  failures or rollback.
\<close>

definition enrolled :: "time \<Rightarrow> string \<Rightarrow> db_tables \<Rightarrow> bool" where
  "enrolled now mac tb \<longleftrightarrow> (\<exists>r. gget (node_enrollments tb) mac = Some r \<and> now < e_expires_at r)"

definition nonce_live :: "time \<Rightarrow> string \<Rightarrow> db_tables \<Rightarrow> bool" where
  "nonce_live now h tb \<longleftrightarrow> (\<exists>e. gget (registration_nonces tb) h = Some e \<and> now \<le> e)"

definition tokens_of :: "string \<Rightarrow> db_tables \<Rightarrow> token_row list" where
  "tokens_of mac tb = filter (\<lambda>r. t_mac_address r = mac) (refresh_tokens tb)"

definition holds_token :: "time \<Rightarrow> string \<Rightarrow> string \<Rightarrow> db_tables \<Rightarrow> bool" where
  "holds_token now mac h tb \<longleftrightarrow> (\<exists>r \<in> set (refresh_tokens tb). live_token now mac h r)"

definition enroll_effect :: "time \<Rightarrow> string \<Rightarrow> string \<Rightarrow> time \<Rightarrow> string \<Rightarrow> time \<Rightarrow> db_tables \<Rightarrow> db_tables" where
  "enroll_effect now mac nh ne th e tb =
     snd (insert_token mac th e (snd (insert_node_if_absent now mac (snd (upsert_enrollment now mac e
       (tb\<lparr>registration_nonces := gput nh ne (gretain (\<lambda>_ e. \<not> e < now) (registration_nonces tb))\<rparr>))))))"

definition rotate_effect :: "time \<Rightarrow> string \<Rightarrow> string \<Rightarrow> string \<Rightarrow> time \<Rightarrow> db_tables \<Rightarrow> db_tables" where
  "rotate_effect now mac oh nh e tb =
     snd (extend_enrollment now mac e (snd (insert_token mac nh e (snd (delete_tokens_where (live_token now mac oh) tb)))))"

definition revoke_tokens_effect :: "string \<Rightarrow> db_tables \<Rightarrow> db_tables" where
  "revoke_tokens_effect mac tb = snd (delete_tokens_where (\<lambda>r. t_mac_address r = mac) tb)"

definition revoke_effect :: "string \<Rightarrow> db_tables \<Rightarrow> db_tables" where
  "revoke_effect mac tb = snd (delete_enrollment mac (revoke_tokens_effect mac tb))"

definition no_faults :: faults where
  "no_faults q = Done"

section \<open>Statement lemmas\<close>

definition tables_wf :: "db_tables \<Rightarrow> bool" where
  "tables_wf tb \<longleftrightarrow> gwf (nodes tb) \<and> gwf (node_enrollments tb) \<and> gwf (registration_nonces tb)"

lemmas tx_defs [step_defs] = exec_def tx_bind_def tx_return_def tx_fail_def exec_insert_token_def

lemma exec_Inr: "exec f q act tb = (Inr a, tb') \<longleftrightarrow> f q = Done \<and> a = fst (act tb) \<and> tb' = snd (act tb)"
  by (cases "f q") (auto simp: exec_def)

lemma exec_fst_Inl: "fst (exec f q act tb) = Inl e \<longleftrightarrow> f q \<noteq> Done \<and> e = SqlError q"
  by (cases "f q") (auto simp: exec_def)

lemma tx_bind_Inr:
  "tx_bind m k tb = (Inr b, tb') \<longleftrightarrow> (\<exists>a tb1. m tb = (Inr a, tb1) \<and> k a tb1 = (Inr b, tb'))"
  by (auto simp: tx_bind_def split: prod.splits sum.splits)

lemma tx_bind_fst_Inl:
  "fst (tx_bind m k tb) = Inl e \<longleftrightarrow>
     fst (m tb) = Inl e \<or> (\<exists>a tb1. m tb = (Inr a, tb1) \<and> fst (k a tb1) = Inl e)"
  by (auto simp: tx_bind_def split: prod.splits sum.splits)

lemma tx_return_Inr [simp]: "tx_return a tb = (Inr b, tb') \<longleftrightarrow> b = a \<and> tb' = tb"
  by (auto simp: tx_return_def)

lemma tx_fail_Inr [simp]: "tx_fail e tb \<noteq> (Inr b, tb')"
  by (simp add: tx_fail_def)

lemma tx_fst_simps [simp]: "fst (tx_return a tb) = Inr a" "fst (tx_fail e tb) = Inl e"
  by (simp_all add: tx_return_def tx_fail_def)

lemma gget_nonces_swept:
  "gwf m \<Longrightarrow> gget (gretain (\<lambda>_ e. \<not> e < now) m) h = None \<longleftrightarrow> \<not> (\<exists>e. gget m h = Some e \<and> (now::time) \<le> e)"
  by (auto simp: gget_gretain split: option.splits)

lemma select_enrolled_eq: "select_enrolled now mac tb = (enrolled now mac tb, tb)"
  by (auto simp: select_enrolled_def enrolled_def split: option.splits)

text \<open>The transaction of \<^verbatim>\<open>withNodeLock\<close> is atomic: it is either not applied at all, or whole.\<close>

lemma withNodeLock_Done:
  "withNodeLock f fn tb = ((a, None), tb') \<Longrightarrow> \<exists>b. a = Some b \<and> fn tb = (Inr b, tb')"
  by (auto simp: withNodeLock_def split: if_splits prod.splits sum.splits outcome.splits)

lemma withNodeLock_error:
  "withNodeLock f fn tb = ((a, Some e), tb') \<Longrightarrow>
     tb' = tb \<and> fst (fn tb) = Inl e \<or>
     tb' = tb \<and> (e = SqlError Begin \<or> e = SqlError LockNode) \<or>
     e = SqlError Commit \<and> (tb' = tb \<or> (\<exists>b. fn tb = (Inr b, tb')))"
  by (auto simp: withNodeLock_def split: if_splits prod.splits sum.splits outcome.splits)

lemma withNodeLock_atomic:
  "snd (withNodeLock f fn tb) = tb \<or> (\<exists>b. fn tb = (Inr b, snd (withNodeLock f fn tb)))"
  by (auto simp: withNodeLock_def split: prod.splits sum.splits outcome.splits)

lemma withNodeLock_no_faults:
  "fn tb = (Inr b, tb') \<Longrightarrow> withNodeLock no_faults fn tb = ((Some b, None), tb')"
  "fn tb = (Inl e, tb') \<Longrightarrow> withNodeLock no_faults fn tb = ((None, Some e), tb)"
  by (auto simp: withNodeLock_def no_faults_def)

lemma withNodeLock_no_faults_error:
  "withNodeLock no_faults fn tb = ((a, Some er), tb') \<Longrightarrow> fst (fn tb) = Inl er"
  by (auto simp: withNodeLock_def no_faults_def split: prod.splits sum.splits)

section \<open>Enrollment\<close>

lemma consumeNonce_Inr:
  assumes "tables_wf tb"
  shows "consumeNonce sha f now nonce e tb = (Inr b, tb') \<Longrightarrow>
     b = (\<not> nonce_live now (hashToken sha nonce) tb) \<and>
     (b \<longrightarrow> tb' = tb\<lparr>registration_nonces := gput (hashToken sha nonce) (pg_time e)
                  (gretain (\<lambda>_ e. \<not> e < now) (registration_nonces tb))\<rparr>)"
  using assms
  by (auto simp: consumeNonce_def tx_bind_Inr exec_Inr delete_nonces_def insert_nonce_def nonce_live_def
      gget_nonces_swept tables_wf_def split: option.splits if_splits)
    (auto simp: gget_gretain split: option.splits if_splits)

lemma consumeNonce_Inl: "fst (consumeNonce sha f now nonce e tb) = Inl er \<Longrightarrow> \<exists>q. er = SqlError q"
  by (auto simp: consumeNonce_def tx_bind_fst_Inl exec_fst_Inl split: if_splits)

lemma consumeNonce_no_faults: "\<exists>b tb'. consumeNonce sha no_faults now nonce e tb = (Inr b, tb')"
  by (simp add: consumeNonce_def tx_defs no_faults_def)

lemma enroll_tx_Inr:
  assumes "tables_wf tb"
    and "enroll_tx sha f now mac nonce ne tok e tb = (Inr u, tb')"
  shows "\<not> enrolled now mac tb" and "\<not> nonce_live now (hashToken sha nonce) tb"
    and "tb' = enroll_effect now mac (hashToken sha nonce) (pg_time ne) (hashToken sha tok) (pg_time e) tb"
proof -
  from assms(2) obtain tb1 where sel: "\<not> enrolled now mac tb"
    and nonce: "consumeNonce sha f now nonce ne tb = (Inr True, tb1)"
    and tb': "tb' = snd (insert_token mac (hashToken sha tok) (pg_time e)
        (snd (insert_node_if_absent now mac (snd (upsert_enrollment now mac (pg_time e) tb1)))))"
    by (auto simp: enroll_tx_def tx_bind_Inr exec_Inr exec_insert_token_def select_enrolled_eq
        split: if_splits)
  from consumeNonce_Inr [OF assms(1) nonce] sel tb'
  show "\<not> enrolled now mac tb" and "\<not> nonce_live now (hashToken sha nonce) tb"
    and "tb' = enroll_effect now mac (hashToken sha nonce) (pg_time ne) (hashToken sha tok) (pg_time e) tb"
    by (auto simp: enroll_effect_def)
qed

lemma enroll_tx_Inl:
  assumes "tables_wf tb" and "fst (enroll_tx sha f now mac nonce ne tok e tb) = Inl er"
  shows "er = ErrAlreadyEnrolled \<and> enrolled now mac tb \<or>
         er = ErrNonceUsed \<and> \<not> enrolled now mac tb \<and> nonce_live now (hashToken sha nonce) tb \<or>
         (\<exists>q. er = SqlError q)"
  using assms
  by (auto simp: enroll_tx_def tx_bind_fst_Inl exec_fst_Inl exec_Inr exec_insert_token_def
      select_enrolled_eq split: if_splits
      dest: consumeNonce_Inr [OF assms(1)] consumeNonce_Inl)

lemma enroll_tx_no_faults:
  assumes "tables_wf tb" and "fst (enroll_tx sha no_faults now mac nonce ne tok e tb) = Inl er"
  shows "er = ErrAlreadyEnrolled \<or> er = ErrNonceUsed"
proof -
  obtain b tb1 where c: "consumeNonce sha no_faults now nonce ne tb = (Inr b, tb1)"
    using consumeNonce_no_faults by blast
  with assms(2) show ?thesis
    by (auto simp: enroll_tx_def tx_bind_fst_Inl exec_fst_Inl exec_Inr exec_insert_token_def
        select_enrolled_eq no_faults_def [of InsertNode] no_faults_def [of SelectEnrolled]
        no_faults_def [of UpsertEnrollment] no_faults_def [of InsertToken]
        check_fk_def insert_node_if_absent_def split: if_splits option.splits)
qed

definition enroll_spec ::
  "time \<Rightarrow> string \<Rightarrow> string \<Rightarrow> time \<Rightarrow> string \<Rightarrow> time \<Rightarrow> db_tables \<Rightarrow> db_error option \<Rightarrow> db_tables \<Rightarrow> bool" where
  "enroll_spec now mac nh ne th e tb r tb' =
     (let applied = (\<not> enrolled now mac tb \<and> \<not> nonce_live now nh tb \<and> tb' = enroll_effect now mac nh ne th e tb)
      in case r of
           None \<Rightarrow> applied
         | Some ErrAlreadyEnrolled \<Rightarrow> enrolled now mac tb \<and> tb' = tb
         | Some ErrNonceUsed \<Rightarrow> \<not> enrolled now mac tb \<and> nonce_live now nh tb \<and> tb' = tb
         | Some (SqlError q) \<Rightarrow> tb' = tb \<or> q = Commit \<and> applied
         | Some NotInitialized \<Rightarrow> False)"

lemma EnrollNode_DB:
  assumes "DB st = Some tb"
  shows "EnrollNode sha f now now' mac nonce ne tok e st =
     (snd (fst (withNodeLock f (enroll_tx sha f now mac nonce ne tok e) tb)),
      st\<lparr>DB := Some (snd (withNodeLock f (enroll_tx sha f now mac nonce ne tok e) tb))\<rparr>)"
  using assms by (simp add: EnrollNode_def Let_def)

lemma enroll_lock_spec:
  assumes wf: "tables_wf tb"
    and run: "withNodeLock f (enroll_tx sha f now mac nonce ne tok e) tb = ((a, r), tb')"
  shows "enroll_spec now mac (hashToken sha nonce) (pg_time ne) (hashToken sha tok) (pg_time e) tb r tb'"
proof (cases r)
  case None
  with run obtain u where "enroll_tx sha f now mac nonce ne tok e tb = (Inr u, tb')"
    by (auto dest: withNodeLock_Done)
  from enroll_tx_Inr [OF wf this] None show ?thesis by (simp add: enroll_spec_def)
next
  case (Some er)
  from withNodeLock_error [OF run [unfolded Some]]
  consider "tb' = tb" "fst (enroll_tx sha f now mac nonce ne tok e tb) = Inl er"
    | "tb' = tb" "er = SqlError Begin \<or> er = SqlError LockNode"
    | "er = SqlError Commit" "tb' = tb \<or> (\<exists>b. enroll_tx sha f now mac nonce ne tok e tb = (Inr b, tb'))"
    by blast
  then show ?thesis
  proof cases
    case 1
    from enroll_tx_Inl [OF wf 1(2)] 1(1) Some show ?thesis by (auto simp: enroll_spec_def)
  next
    case 2
    then show ?thesis using Some by (auto simp: enroll_spec_def)
  next
    case 3
    then show ?thesis using Some enroll_tx_Inr [OF wf] by (fastforce simp: enroll_spec_def)
  qed
qed

text \<open>
  C5. Enrollment on the database is atomic and implements its specification for every pattern of
  failing statements: it succeeds only for an identity with no live enrollment and an unused nonce,
  and then claims the identity, redeems the nonce and stores the refresh token at once; an
  identity already enrolled and a used nonce are reported as such and change nothing; a failing
  statement changes nothing, unless the commit itself was applied and its answer lost.  When no
  statement fails, no other outcome occurs.
\<close>

theorem EnrollNode_atomic:
  assumes "DB st = Some tb" and "tables_wf tb"
    and "EnrollNode sha f now now' mac nonce ne tok e st = (r, st')"
  shows "\<exists>tb'. st' = st\<lparr>DB := Some tb'\<rparr> \<and>
     enroll_spec now mac (hashToken sha nonce) (pg_time ne) (hashToken sha tok) (pg_time e) tb r tb' \<and>
     (f = no_faults \<longrightarrow> (\<forall>q. r \<noteq> Some (SqlError q)))"
proof -
  obtain a r' tb' where run: "withNodeLock f (enroll_tx sha f now mac nonce ne tok e) tb = ((a, r'), tb')"
    by (metis surj_pair)
  with assms(1,3) have r: "r' = r" and st': "st' = st\<lparr>DB := Some tb'\<rparr>" by (auto simp: EnrollNode_DB)
  have "r \<noteq> Some (SqlError q)" if "f = no_faults" for q
    using run that r by (auto dest!: withNodeLock_no_faults_error enroll_tx_no_faults [OF assms(2)])
  with st' enroll_lock_spec [OF assms(2) run] r show ?thesis by auto
qed

section \<open>Rotation\<close>

definition rotate_spec ::
  "time \<Rightarrow> string \<Rightarrow> string \<Rightarrow> string \<Rightarrow> time \<Rightarrow> db_tables \<Rightarrow> bool \<Rightarrow> db_error option \<Rightarrow> db_tables \<Rightarrow> bool" where
  "rotate_spec now mac oh nh e tb rotated err tb' =
     (let applied = (tb' = (if holds_token now mac oh tb then rotate_effect now mac oh nh e tb
                            else revoke_tokens_effect mac tb))
      in case err of
           None \<Rightarrow> rotated = holds_token now mac oh tb \<and> applied
         | Some er \<Rightarrow> (\<exists>q. er = SqlError q \<and> (tb' = tb \<or> q = Commit \<and> applied)))"

lemma holds_token_filter:
  "holds_token now mac h tb \<longleftrightarrow> filter (live_token now mac h) (refresh_tokens tb) \<noteq> []"
  by (auto simp: holds_token_def filter_empty_conv)

lemma delete_tokens_none:
  "\<not> holds_token now mac h tb \<Longrightarrow> snd (delete_tokens_where (live_token now mac h) tb) = tb"
  by (auto simp: holds_token_def delete_tokens_where_def intro!: db_tables.equality filter_True)

lemma rotate_tx_Inr:
  assumes "rotate_tx sha f now mac old new e tb = (Inr b, tb')"
  shows "b = holds_token now mac (hashToken sha old) tb \<and>
     tb' = (if b then rotate_effect now mac (hashToken sha old) (hashToken sha new) (pg_time e) tb
            else revoke_tokens_effect mac tb)"
proof (cases "holds_token now mac (hashToken sha old) tb")
  case True
  with assms show ?thesis
    by (auto simp: rotate_tx_def tx_bind_Inr exec_Inr exec_insert_token_def holds_token_filter rotate_effect_def
        delete_tokens_where_def split: if_splits)
next
  case False
  with assms delete_tokens_none [OF False] show ?thesis
    by (auto simp: rotate_tx_def tx_bind_Inr exec_Inr exec_insert_token_def revoke_tokens_effect_def split: if_splits)
      (auto simp: delete_tokens_where_def holds_token_filter)
qed

lemma rotate_tx_Inl: "fst (rotate_tx sha f now mac old new e tb) = Inl er \<Longrightarrow> \<exists>q. er = SqlError q"
  by (auto simp: rotate_tx_def tx_bind_fst_Inl exec_fst_Inl exec_insert_token_def split: if_splits)

lemma rotate_tx_no_faults:
  assumes "fst (rotate_tx sha no_faults now mac old new e tb) = Inl er"
  shows "gget (nodes tb) mac = None"
  using assms
  by (auto simp: rotate_tx_def tx_bind_fst_Inl exec_fst_Inl exec_Inr exec_insert_token_def no_faults_def
      check_fk_def delete_tokens_where_def split: if_splits)

lemma rotate_lock_spec:
  assumes run: "withNodeLock f (rotate_tx sha f now mac old new e) tb = ((a, r), tb')"
  shows "rotate_spec now mac (hashToken sha old) (hashToken sha new) (pg_time e) tb (a = Some True) r tb'"
proof (cases r)
  case None
  with run obtain b where "a = Some b" "rotate_tx sha f now mac old new e tb = (Inr b, tb')"
    by (auto dest: withNodeLock_Done)
  with rotate_tx_Inr [OF this(2)] None show ?thesis by (auto simp: rotate_spec_def)
next
  case (Some er)
  from withNodeLock_error [OF run [unfolded Some]]
  consider "tb' = tb" "fst (rotate_tx sha f now mac old new e tb) = Inl er"
    | "tb' = tb" "er = SqlError Begin \<or> er = SqlError LockNode"
    | "er = SqlError Commit" "tb' = tb \<or> (\<exists>b. rotate_tx sha f now mac old new e tb = (Inr b, tb'))"
    by blast
  then show ?thesis
    by cases (use Some in \<open>auto simp: rotate_spec_def dest: rotate_tx_Inl rotate_tx_Inr\<close>)
qed

text \<open>
  C6. Rotation is atomic and implements its specification for every pattern of failing statements.
  When it returns without error it reports whether the node held the old token, live: if so, that
  token is replaced by the new one and the enrollment is extended; if not, every refresh token of
  the node is revoked.  On an error nothing changes, unless the commit was applied and its
  answer lost; and for a node that has a row in \<open>nodes\<close> an error needs a failing statement.
\<close>

theorem RotateRefreshToken_atomic:
  assumes "DB st = Some tb"
    and "RotateRefreshToken sha f now mac old new e st = ((rotated, err), st')"
  shows "\<exists>tb'. st' = st\<lparr>DB := Some tb'\<rparr> \<and>
     rotate_spec now mac (hashToken sha old) (hashToken sha new) (pg_time e) tb rotated err tb' \<and>
     (f = no_faults \<and> gget (nodes tb) mac \<noteq> None \<longrightarrow> err = None)"
proof -
  obtain a r tb' where run: "withNodeLock f (rotate_tx sha f now mac old new e) tb = ((a, r), tb')"
    by (metis surj_pair)
  with assms have r: "r = err" "rotated = (a = Some True)" and st': "st' = st\<lparr>DB := Some tb'\<rparr>"
    by (auto simp: RotateRefreshToken_def on_db_def Let_def)
  have "err = None" if "f = no_faults" "gget (nodes tb) mac \<noteq> None"
    using run that r by (cases err) (auto dest!: withNodeLock_no_faults_error rotate_tx_no_faults)
  with st' rotate_lock_spec [OF run] r show ?thesis by auto
qed

section \<open>Well-formed states and what a step can change\<close>

definition state_wf :: "db_state \<Rightarrow> bool" where
  "state_wf st \<longleftrightarrow> gwf (memEnrollments st) \<and> gwf (memNonces st) \<and>
     (case DB st of None \<Rightarrow> True | Some tb \<Rightarrow> tables_wf tb)"

text \<open>
  Seen from the tables, every step is one of the abstract effects, or one of the statements that
  touch neither tokens nor claims, or nothing.
\<close>

inductive tables_step :: "(bytes \<Rightarrow> bytes) \<Rightarrow> db_call \<Rightarrow> db_tables \<Rightarrow> db_tables \<Rightarrow> bool" for sha c where
  same: "tables_step sha c tb tb"
| upsert: "c_op c = Heartbeat mac h os v k s \<Longrightarrow> tables_step sha c tb (snd (upsert_node (c_now c) mac h os v k s tb))"
| offline: "c_op c = Offline mac \<Longrightarrow> tables_step sha c tb (snd (update_offline mac tb))"
| enroll: "c_op c = Enroll mac nonce ne tok e \<Longrightarrow> \<not> enrolled (c_now c) mac tb \<Longrightarrow>
    \<not> nonce_live (c_now c) (hashToken sha nonce) tb \<Longrightarrow>
    tables_step sha c tb
      (enroll_effect (c_now c) mac (hashToken sha nonce) (pg_time ne) (hashToken sha tok) (pg_time e) tb)"
| rotate: "c_op c = Rotate mac old new e \<Longrightarrow> holds_token (c_now c) mac (hashToken sha old) tb \<Longrightarrow>
    tables_step sha c tb (rotate_effect (c_now c) mac (hashToken sha old) (hashToken sha new) (pg_time e) tb)"
| reuse: "c_op c = Rotate mac old new e \<Longrightarrow> \<not> holds_token (c_now c) mac (hashToken sha old) tb \<Longrightarrow>
    tables_step sha c tb (revoke_tokens_effect mac tb)"
| revoke: "c_op c = Revoke mac \<Longrightarrow> tables_step sha c tb (revoke_effect mac tb)"
| sweep: "c_op c = Consume nonce e \<Longrightarrow> tables_step sha c tb (snd (delete_nonces (c_now c) tb))"
| consume: "c_op c = Consume nonce e \<Longrightarrow> \<not> nonce_live (c_now c) (hashToken sha nonce) tb \<Longrightarrow>
    tables_step sha c tb (tb\<lparr>registration_nonces := gput (hashToken sha nonce) (pg_time e)
                  (gretain (\<lambda>_ e. \<not> e < c_now c) (registration_nonces tb))\<rparr>)"

lemma exec_state: "snd (exec f q act tb) = tb \<or> snd (exec f q act tb) = snd (act tb)"
  by (cases "f q") (auto simp: exec_def)

lemma consumeNonce_state:
  assumes "tables_wf tb"
  shows "snd (consumeNonce sha f now nonce e tb) \<in>
     {tb, snd (delete_nonces now tb)} \<union>
     (if nonce_live now (hashToken sha nonce) tb then {}
      else {tb\<lparr>registration_nonces := gput (hashToken sha nonce) (pg_time e)
                  (gretain (\<lambda>_ e. \<not> e < now) (registration_nonces tb))\<rparr>})"
  using assms
  by (auto simp: consumeNonce_def tx_bind_def exec_def tx_return_def tx_fail_def delete_nonces_def insert_nonce_def
      nonce_live_def tables_wf_def gget_gretain split: outcome.splits option.splits)

lemma revoke_tx_Inr: "revoke_tx f mac tb = (Inr u, tb') \<Longrightarrow> tb' = revoke_effect mac tb"
  by (auto simp: revoke_tx_def tx_bind_Inr exec_Inr revoke_effect_def revoke_tokens_effect_def)

lemma lock_step:
  assumes "\<And>b tb'. fn tb = (Inr b, tb') \<Longrightarrow> tables_step sha c tb tb'"
  shows "tables_step sha c tb (snd (withNodeLock f fn tb))"
  using withNodeLock_atomic [of f fn tb] assms by (metis tables_step.same)

lemma exec_step:
  assumes "tables_step sha c tb (snd (act tb))"
  shows "tables_step sha c tb (snd (exec f q act tb))"
  using exec_state [of f q act tb] assms by (metis tables_step.same)

lemma db_step_tables:
  assumes "DB st = Some tb" and "tables_wf tb"
  shows "\<exists>tb'. snd (db_step sha st c) = st\<lparr>DB := Some tb'\<rparr> \<and> tables_step sha c tb tb'"
proof (cases "c_op c")
  case (Heartbeat mac h os v k s)
  with assms(1) show ?thesis
    by (auto simp: db_step_def UpdateNodeStatus_def on_db_def err_of_def intro!: exec_step tables_step.upsert)
next
  case (Offline mac)
  with assms(1) show ?thesis
    by (auto simp: db_step_def MarkNodeOffline_def on_db_def err_of_def intro!: exec_step tables_step.offline)
next
  case (Enroll mac nonce ne tok e)
  have "tables_step sha c tb (snd (withNodeLock (c_faults c) (enroll_tx sha (c_faults c) (c_now c) mac nonce ne tok e) tb))"
  proof (rule lock_step)
    fix u tb'
    assume "enroll_tx sha (c_faults c) (c_now c) mac nonce ne tok e tb = (Inr u, tb')"
    from enroll_tx_Inr [OF assms(2) this] Enroll show "tables_step sha c tb tb'"
      by (simp add: tables_step.enroll)
  qed
  with Enroll assms(1) show ?thesis by (auto simp: db_step_def EnrollNode_DB)
next
  case (Rotate mac old new e)
  have "tables_step sha c tb (snd (withNodeLock (c_faults c) (rotate_tx sha (c_faults c) (c_now c) mac old new e) tb))"
    by (rule lock_step)
      (use Rotate in \<open>auto dest!: rotate_tx_Inr intro: tables_step.rotate tables_step.reuse split: if_splits\<close>)
  with Rotate assms(1) show ?thesis by (auto simp: db_step_def RotateRefreshToken_def on_db_def Let_def)
next
  case (Revoke mac)
  have "tables_step sha c tb (snd (withNodeLock (c_faults c) (revoke_tx (c_faults c) mac) tb))"
    by (rule lock_step) (use Revoke in \<open>auto dest!: revoke_tx_Inr intro: tables_step.revoke\<close>)
  with Revoke assms(1) show ?thesis by (auto simp: db_step_def RevokeEnrollment_def Let_def)
next
  case (Consume nonce e)
  with assms(1) consumeNonce_state [OF assms(2), of sha "c_faults c" "c_now c" nonce e] show ?thesis
    by (auto simp: db_step_def ConsumeRegistrationNonce_def Let_def split: if_splits
        intro: tables_step.same tables_step.sweep tables_step.consume)
qed

lemmas effect_defs [step_defs] =
  enroll_effect_def rotate_effect_def revoke_effect_def revoke_tokens_effect_def insert_token_def
  insert_node_if_absent_def upsert_enrollment_def extend_enrollment_def delete_enrollment_def
  delete_tokens_where_def delete_nonces_def upsert_node_def update_offline_def

lemma tables_step_wf: "tables_step sha c tb tb' \<Longrightarrow> tables_wf tb \<Longrightarrow> tables_wf tb'"
  by (induction rule: tables_step.induct) (auto simp: tables_wf_def step_defs split: option.splits)

lemma db_step_mem:
  assumes "DB st = None"
  shows "DB (snd (db_step sha st c)) = None"
  using assms
  by (auto simp: db_step_def UpdateNodeStatus_def MarkNodeOffline_def EnrollNode_def RotateRefreshToken_def
      RevokeEnrollment_def ConsumeRegistrationNonce_def on_db_def Let_def split: db_op.splits option.splits prod.splits)

lemma gwf_take_mem_nonce: "gwf m \<Longrightarrow> gwf (snd (take_mem_nonce now h e m))"
  by (auto simp: take_mem_nonce_def Let_def split: option.splits)

lemma db_step_mem_wf:
  assumes "DB st = None" and "state_wf st"
  shows "state_wf (snd (db_step sha st c))"
  using assms
  by (auto simp: state_wf_def db_step_def UpdateNodeStatus_def MarkNodeOffline_def EnrollNode_def RotateRefreshToken_def
      RevokeEnrollment_def ConsumeRegistrationNonce_def on_db_def Let_def gwf_take_mem_nonce
      split: db_op.splits option.splits prod.splits)

lemma db_step_wf: "state_wf st \<Longrightarrow> state_wf (snd (db_step sha st c))"
proof (cases "DB st")
  case (Some tb)
  assume wf: "state_wf st"
  with Some have "tables_wf tb" by (simp add: state_wf_def)
  with db_step_tables [OF Some this, of sha c] wf show ?thesis
    by (auto simp: state_wf_def intro: tables_step_wf)
qed (simp add: db_step_mem_wf)

lemma init_state_wf: "state_wf (init_state b)"
  by (simp add: init_state_def state_wf_def tables_wf_def empty_tables_def)

lemma reach_wf: "db_reach sha t st \<Longrightarrow> state_wf st"
  by (induction rule: db_reach.induct) (auto simp: init_state_wf db_step_wf)

section \<open>An enrolled identity is not handed out again\<close>

definition claimed_until :: "db_state \<Rightarrow> string \<Rightarrow> time \<Rightarrow> bool" where
  "claimed_until st mac e \<longleftrightarrow>
     (case DB st of
        None \<Rightarrow> (\<exists>e'. gget (memEnrollments st) mac = Some e' \<and> e \<le> e')
      | Some tb \<Rightarrow> (\<exists>r. gget (node_enrollments tb) mac = Some r \<and> e \<le> e_expires_at r))"

lemma claim_kept_tables:
  assumes "tables_step sha c tb tb'" and "c_now c < e" and "c_op c \<noteq> Revoke mac"
    and "gget (node_enrollments tb) mac = Some r" and "e \<le> e_expires_at r"
  shows "\<exists>r'. gget (node_enrollments tb') mac = Some r' \<and> e \<le> e_expires_at r'"
  using assms by cases (auto simp: step_defs enrolled_def split: option.splits)

lemma claim_kept_mem:
  assumes "DB st = None" and "gwf (memEnrollments st)" and "c_now c < e" and "c_op c \<noteq> Revoke mac"
    and "gget (memEnrollments st) mac = Some e'" and "e \<le> e'"
  shows "gget (memEnrollments (snd (db_step sha st c))) mac = Some e'"
  using assms
  by (auto simp: db_step_def UpdateNodeStatus_def MarkNodeOffline_def EnrollNode_def RotateRefreshToken_def
      RevokeEnrollment_def ConsumeRegistrationNonce_def on_db_def Let_def gget_gretain
      split: db_op.splits option.splits prod.splits)

lemma claim_kept:
  assumes "state_wf st" and "claimed_until st mac e" and "c_now c < e" and "c_op c \<noteq> Revoke mac"
  shows "claimed_until (snd (db_step sha st c)) mac e"
proof (cases "DB st")
  case None
  with assms claim_kept_mem [OF None _ assms(3,4)] db_step_mem [OF None, of sha c] show ?thesis
    by (auto simp: claimed_until_def state_wf_def)
next
  case (Some tb)
  with assms(1) have "tables_wf tb" by (simp add: state_wf_def)
  from db_step_tables [OF Some this, of sha c] obtain tb' where
    tb': "snd (db_step sha st c) = st\<lparr>DB := Some tb'\<rparr>" "tables_step sha c tb tb'" by blast
  with assms(2) Some claim_kept_tables [OF tb'(2) assms(3,4)] show ?thesis
    by (auto simp: claimed_until_def)
qed

lemma enroll_accepted_DB:
  assumes "DB st = Some tb" and "tables_wf tb" and "c_op c = Enroll mac nonce ne tok e"
    and "fst (db_step sha st c)"
  shows "\<not> enrolled (c_now c) mac tb" and "\<not> nonce_live (c_now c) (hashToken sha nonce) tb"
    and "snd (db_step sha st c) = st\<lparr>DB := Some
      (enroll_effect (c_now c) mac (hashToken sha nonce) (pg_time ne) (hashToken sha tok) (pg_time e) tb)\<rparr>"
proof -
  obtain a r tb' where run:
    "withNodeLock (c_faults c) (enroll_tx sha (c_faults c) (c_now c) mac nonce ne tok e) tb = ((a, r), tb')"
    by (metis surj_pair)
  with assms have r: "r = None" and st': "snd (db_step sha st c) = st\<lparr>DB := Some tb'\<rparr>"
    by (auto simp: db_step_def EnrollNode_DB)
  with enroll_lock_spec [OF assms(2) run] show "\<not> enrolled (c_now c) mac tb"
    and "\<not> nonce_live (c_now c) (hashToken sha nonce) tb"
    and "snd (db_step sha st c) = st\<lparr>DB := Some
      (enroll_effect (c_now c) mac (hashToken sha nonce) (pg_time ne) (hashToken sha tok) (pg_time e) tb)\<rparr>"
    by (auto simp: enroll_spec_def)
qed

lemma pg_time_le: "pg_time t \<le> t"
  by (simp add: pg_time_def div_times_less_eq_dividend)

lemma enroll_accepted_mem:
  assumes "DB st = None" and "state_wf st" and "c_op c = Enroll mac nonce ne tok e" and "fst (db_step sha st c)"
  shows "\<not> (\<exists>e'. gget (memEnrollments st) mac = Some e' \<and> c_now c < e')"
    and "\<not> (\<exists>e'. gget (memNonces st) (hashToken sha nonce) = Some e' \<and> c_now' c \<le> e')"
    and "gget (memEnrollments (snd (db_step sha st c))) mac = Some e"
    and "gget (memNonces (snd (db_step sha st c))) (hashToken sha nonce) = Some ne"
  using assms
  by (auto simp: db_step_def EnrollNode_def ConsumeRegistrationNonce_def Let_def gget_gretain state_wf_def
      take_mem_nonce_def split: option.splits prod.splits if_splits)

lemma claim_refuses:
  assumes "state_wf st" and "claimed_until st mac e'" and "c_now c < e'" and "c_op c = Enroll mac nonce ne tok e"
  shows "\<not> fst (db_step sha st c)"
proof (cases "DB st")
  case None
  with assms show ?thesis
    using enroll_accepted_mem(1) [OF None assms(1,4)] by (fastforce simp: claimed_until_def)
next
  case (Some tb)
  with assms(1) have "tables_wf tb" by (simp add: state_wf_def)
  with assms Some show ?thesis
    using enroll_accepted_DB(1) [OF Some _ assms(4)] by (fastforce simp: claimed_until_def enrolled_def)
qed

lemma enroll_claims:
  assumes "state_wf st" and "c_op c = Enroll mac nonce ne tok e" and "fst (db_step sha st c)"
  shows "claimed_until (snd (db_step sha st c)) mac (pg_time e)"
proof (cases "DB st")
  case None
  with enroll_accepted_mem(3) [OF None assms] db_step_mem [OF None, of sha c] show ?thesis
    by (simp add: claimed_until_def pg_time_le)
next
  case (Some tb)
  with assms(1) have "tables_wf tb" by (simp add: state_wf_def)
  from enroll_accepted_DB(3) [OF Some this assms(2,3)] show ?thesis
    by (auto simp: claimed_until_def step_defs split: option.splits)
qed

text \<open>
  C7. An enrolled identity is never handed out again before its enrollment expires: after an
  accepted enrollment of a node, in any later sequence of database operations, by any callers and
  with any failing statements, that does not revoke the node, every enrollment of that
  node is refused while the clock is before the expiry.  Holds with a database and with the
  in-memory fallback.
\<close>

theorem enrollment_not_taken_over:
  assumes "state_wf st" and "c_op c = Enroll mac nonce ne tok e" and "fst (db_step sha st c)"
    and "i < length cs" and "c_op (cs ! i) = Enroll mac nonce' ne' tok' e'"
    and "\<forall>d \<in> set (take (Suc i) cs). c_now d < pg_time e \<and> c_op d \<noteq> Revoke mac"
  shows "\<not> fst (run_calls (db_step sha) (snd (db_step sha st c)) cs) ! i"
  by (rule run_calls_refused [where P = "\<lambda>s. state_wf s \<and> claimed_until s mac (pg_time e)"])
    (use assms in \<open>auto simp: db_step_wf enroll_claims intro: claim_kept dest: claim_refuses [OF _ _ _ assms(5)]\<close>)

section \<open>A refresh token is redeemed at most once\<close>

definition dead_token :: "db_state \<Rightarrow> time \<Rightarrow> string \<Rightarrow> string \<Rightarrow> bool" where
  "dead_token st t mac h \<longleftrightarrow>
     (case DB st of None \<Rightarrow> True | Some tb \<Rightarrow> (\<forall>now \<ge> t. \<not> holds_token now mac h tb))"

definition mints :: "(bytes \<Rightarrow> bytes) \<Rightarrow> string \<Rightarrow> string \<Rightarrow> db_call \<Rightarrow> bool" where
  "mints sha mac h c \<longleftrightarrow>
     (case c_op c of
        Enroll m nonce ne tok e \<Rightarrow> m = mac \<and> hashToken sha tok = h
      | Rotate m old new e \<Rightarrow> m = mac \<and> hashToken sha new = h
      | _ \<Rightarrow> False)"

lemma dead_token_tables:
  assumes "tables_step sha c tb tb'" and "\<not> mints sha mac h c"
    and "\<forall>now \<ge> t. \<not> holds_token now mac h tb"
  shows "\<forall>now \<ge> t. \<not> holds_token now mac h tb'"
  using assms by cases (auto simp: step_defs holds_token_def live_token_def mints_def split: option.splits)

lemma dead_token_kept:
  assumes "state_wf st" and "dead_token st t mac h" and "\<not> mints sha mac h c"
  shows "dead_token (snd (db_step sha st c)) t mac h"
proof (cases "DB st")
  case None
  then show ?thesis using db_step_mem [OF None, of sha c] by (simp add: dead_token_def)
next
  case (Some tb)
  with assms(1) have "tables_wf tb" by (simp add: state_wf_def)
  from db_step_tables [OF Some this, of sha c] assms(2) Some dead_token_tables [OF _ assms(3)]
  show ?thesis by (auto simp: dead_token_def)
qed

lemma rotate_accepted:
  assumes "c_op c = Rotate mac old new e" and "fst (db_step sha st c)"
  obtains tb where "DB st = Some tb" and "holds_token (c_now c) mac (hashToken sha old) tb"
    and "snd (db_step sha st c) = st\<lparr>DB := Some
      (rotate_effect (c_now c) mac (hashToken sha old) (hashToken sha new) (pg_time e) tb)\<rparr>"
proof (cases "DB st")
  case None
  with assms show ?thesis by (simp add: db_step_def RotateRefreshToken_def on_db_def)
next
  case (Some tb)
  obtain a r tb' where run:
    "withNodeLock (c_faults c) (rotate_tx sha (c_faults c) (c_now c) mac old new e) tb = ((a, r), tb')"
    by (metis surj_pair)
  with assms Some have r: "r = None" "a = Some True" and st': "snd (db_step sha st c) = st\<lparr>DB := Some tb'\<rparr>"
    by (auto simp: db_step_def RotateRefreshToken_def on_db_def Let_def)
  with rotate_lock_spec [OF run] that Some show ?thesis by (auto simp: rotate_spec_def)
qed

lemma rotate_kills:
  assumes "c_op c = Rotate mac old new e" and "fst (db_step sha st c)" and "hashToken sha new \<noteq> hashToken sha old"
  shows "dead_token (snd (db_step sha st c)) (c_now c) mac (hashToken sha old)"
  by (rule rotate_accepted [OF assms(1,2)])
    (use assms(3) in \<open>auto simp: dead_token_def step_defs holds_token_def live_token_def split: option.splits\<close>)

text \<open>
  C8. A refresh token is redeemed at most once: after an accepted rotation that replaced \<open>old\<close>, no
  later rotation of \<open>old\<close> for that node is accepted, in any sequence of later database operations
  whose clock is not earlier and that do not store the same token again (new tokens carry fresh
  random identifiers), whatever statements fail.
\<close>

theorem refresh_token_redeemed_once:
  assumes "state_wf st" and "c_op c = Rotate mac old new e" and "fst (db_step sha st c)"
    and "hashToken sha new \<noteq> hashToken sha old"
    and "i < length cs" and "c_op (cs ! i) = Rotate mac old new' e'" and "c_now c \<le> c_now (cs ! i)"
    and "\<forall>d \<in> set (take (Suc i) cs). \<not> mints sha mac (hashToken sha old) d"
  shows "\<not> fst (run_calls (db_step sha) (snd (db_step sha st c)) cs) ! i"
proof (rule run_calls_refused [where P = "\<lambda>s. state_wf s \<and> dead_token s (c_now c) mac (hashToken sha old)"])
  fix s
  assume dead: "state_wf s \<and> dead_token s (c_now c) mac (hashToken sha old)"
  show "\<not> fst (db_step sha s (cs ! i))"
  proof
    assume "fst (db_step sha s (cs ! i))"
    with dead assms(7) show False
      by (elim rotate_accepted [OF assms(6)]) (auto simp: dead_token_def)
  qed
qed (use assms in \<open>auto simp: db_step_wf rotate_kills dead_token_kept\<close>)

section \<open>A node that holds a live token keeps its claim\<close>

definition covered :: "time \<Rightarrow> db_tables \<Rightarrow> bool" where
  "covered t tb \<longleftrightarrow> (\<forall>r \<in> set (refresh_tokens tb). t < t_expires_at r \<longrightarrow>
     (\<exists>en. gget (node_enrollments tb) (t_mac_address r) = Some en \<and> t_expires_at r \<le> e_expires_at en))"

lemma covered_mono: "covered t tb \<Longrightarrow> t \<le> t' \<Longrightarrow> covered t' tb"
  by (force simp: covered_def)

lemma covered_step: "tables_step sha c tb tb' \<Longrightarrow> covered (c_now c) tb \<Longrightarrow> covered (c_now c) tb'"
proof (induction rule: tables_step.induct)
  case (enroll mac nonce ne tok e tb)
  have "e_expires_at en \<le> c_now c" if "gget (node_enrollments tb) mac = Some en" for en
    using enroll(2) that by (force simp: enrolled_def)
  with enroll show ?case by (fastforce simp: covered_def step_defs split: option.splits)
next
  case (rotate mac old new e tb)
  then show ?case by (force simp: covered_def step_defs split: option.splits)
qed (auto simp: covered_def step_defs split: option.splits)

lemma reach_covered: "db_reach sha t st \<Longrightarrow> DB st = Some tb \<Longrightarrow> covered t tb"
proof (induction arbitrary: tb rule: db_reach.induct)
  case (reach_init t b)
  then show ?case by (auto simp: init_state_def covered_def empty_tables_def split: if_splits)
next
  case (reach_step t st c)
  then obtain tb0 where tb0: "DB st = Some tb0" using db_step_mem [of st sha c] by (cases "DB st") auto
  with reach_wf [OF reach_step(1)] have "tables_wf tb0" by (simp add: state_wf_def)
  from db_step_tables [OF tb0 this, of sha c] reach_step tb0 show ?case
    by (auto intro: covered_step covered_mono)
qed

text \<open>
  In every state the server can reach, a node that holds a live refresh token is enrolled at
  least until that token expires: rotation keeps the claim extended, re-enrollment happens only
  after the old tokens are dead, and revocation removes both.  So an enrollment of that node is
  refused, at any time before the token expires.
\<close>

theorem token_holder_keeps_claim:
  assumes "db_reach sha t st" and "DB st = Some tb" and "t \<le> now" and "holds_token now mac h tb"
  shows "enrolled now mac tb \<and>
     fst (EnrollNode sha f now now' mac nonce ne tok e st) \<noteq> None"
proof -
  from assms(1,2) have "tables_wf tb" by (auto dest: reach_wf simp: state_wf_def)
  from assms(3,4) covered_mono [OF reach_covered [OF assms(1,2)]] have en: "enrolled now mac tb"
    by (fastforce simp: holds_token_def live_token_def covered_def enrolled_def)
  obtain a r tb' where run: "withNodeLock f (enroll_tx sha f now mac nonce ne tok e) tb = ((a, r), tb')"
    by (metis surj_pair)
  with enroll_lock_spec [OF \<open>tables_wf tb\<close> run] en assms(2) show ?thesis
    by (cases r) (auto simp: EnrollNode_DB enroll_spec_def)
qed

section \<open>Registration nonces\<close>

text \<open>Both nonce registers meet the single-use contract of the prelude.\<close>

definition take_db_nonce :: "time \<Rightarrow> string \<Rightarrow> time \<Rightarrow> db_tables \<Rightarrow> bool \<times> db_tables" where
  "take_db_nonce now h e tb =
     (let r = insert_nonce h e (snd (delete_nonces now tb)) in (fst r = 1, snd r))"

interpretation mem_nonce: single_use take_mem_nonce map_of "\<lambda>now e. e < now" gwf
  by unfold_locales
    (auto simp: take_mem_nonce_def Let_def gget_gretain gwf_take_mem_nonce split: option.splits if_splits)

interpretation db_nonce: single_use take_db_nonce "\<lambda>tb. map_of (registration_nonces tb)" "\<lambda>now e. e < now"
    "\<lambda>tb. gwf (registration_nonces tb)"
  by unfold_locales
    (auto simp: take_db_nonce_def insert_nonce_def delete_nonces_def Let_def gget_gretain
      split: option.splits if_splits)

lemma consumeNonce_take:
  "consumeNonce sha no_faults now nonce e tb =
     (let r = take_db_nonce now (hashToken sha nonce) (pg_time e) tb in (Inr (fst r), snd r))"
  by (simp add: consumeNonce_def take_db_nonce_def tx_defs no_faults_def Let_def)

definition nonce_until :: "db_state \<Rightarrow> string \<Rightarrow> time \<Rightarrow> bool" where
  "nonce_until st h e \<longleftrightarrow>
     (case DB st of
        None \<Rightarrow> (\<exists>e'. gget (memNonces st) h = Some e' \<and> e \<le> e')
      | Some tb \<Rightarrow> (\<exists>e'. gget (registration_nonces tb) h = Some e' \<and> e \<le> e'))"

definition last_now :: "db_call \<Rightarrow> time" where
  "last_now c = max (c_now c) (c_now' c)"

lemma nonce_kept_tables:
  assumes "tables_step sha c tb tb'" and "tables_wf tb" and "c_now c \<le> e"
    and "gget (registration_nonces tb) h = Some e'" and "e \<le> e'"
  shows "gget (registration_nonces tb') h = Some e'"
  using assms by cases (auto simp: step_defs nonce_live_def tables_wf_def gget_gretain split: option.splits)

lemma nonce_kept:
  assumes "state_wf st" and "nonce_until st h e" and "last_now c \<le> e"
  shows "nonce_until (snd (db_step sha st c)) h e"
proof (cases "DB st")
  case None
  with assms db_step_mem [OF None, of sha c] show ?thesis
    by (auto simp: nonce_until_def state_wf_def db_step_def UpdateNodeStatus_def MarkNodeOffline_def EnrollNode_def
        RotateRefreshToken_def RevokeEnrollment_def ConsumeRegistrationNonce_def on_db_def Let_def gget_gretain
        take_mem_nonce_def last_now_def split: db_op.splits option.splits prod.splits)
next
  case (Some tb)
  with assms(1) have wf: "tables_wf tb" by (simp add: state_wf_def)
  from assms(3) have "c_now c \<le> e" by (simp add: last_now_def)
  with db_step_tables [OF Some wf, of sha c] assms(2) Some nonce_kept_tables [OF _ wf this]
  show ?thesis by (auto simp: nonce_until_def)
qed

lemma nonce_refuses_enroll:
  assumes "state_wf st" and "nonce_until st (hashToken sha nonce) e'" and "last_now c \<le> e'"
    and "c_op c = Enroll mac nonce ne tok e"
  shows "\<not> fst (db_step sha st c)"
proof (cases "DB st")
  case None
  with assms enroll_accepted_mem(2) [OF None assms(1,4)] show ?thesis
    by (force simp: nonce_until_def last_now_def)
next
  case (Some tb)
  with assms(1) have "tables_wf tb" by (simp add: state_wf_def)
  with assms(2,3) Some enroll_accepted_DB(2) [OF Some _ assms(4)] show ?thesis
    by (force simp: nonce_until_def nonce_live_def last_now_def)
qed

lemma enroll_redeems:
  assumes "state_wf st" and "c_op c = Enroll mac nonce ne tok e" and "fst (db_step sha st c)"
  shows "nonce_until (snd (db_step sha st c)) (hashToken sha nonce) (pg_time ne)"
proof (cases "DB st")
  case None
  with enroll_accepted_mem(4) [OF None assms] db_step_mem [OF None, of sha c] show ?thesis
    by (simp add: nonce_until_def pg_time_le)
next
  case (Some tb)
  with assms(1) have "tables_wf tb" by (simp add: state_wf_def)
  from enroll_accepted_DB(3) [OF Some this assms(2,3)] show ?thesis
    by (auto simp: nonce_until_def step_defs split: option.splits)
qed

text \<open>
  A registration nonce is redeemed at most once: after an accepted enrollment, every later
  enrollment with the same nonce, for any node, is refused until the nonce's record expires, in any
  sequence of database operations, with a database and with the in-memory fallback.
\<close>

theorem registration_nonce_single_use:
  assumes "state_wf st" and "c_op c = Enroll mac nonce ne tok e" and "fst (db_step sha st c)"
    and "i < length cs" and "c_op (cs ! i) = Enroll mac' nonce ne' tok' e'"
    and "\<forall>d \<in> set (take (Suc i) cs). last_now d \<le> pg_time ne"
  shows "\<not> fst (run_calls (db_step sha) (snd (db_step sha st c)) cs) ! i"
  by (rule run_calls_refused [where P = "\<lambda>s. state_wf s \<and> nonce_until s (hashToken sha nonce) (pg_time ne)"])
    (use assms in \<open>auto simp: db_step_wf enroll_redeems intro: nonce_kept dest: nonce_refuses_enroll [OF _ _ _ assms(5)]\<close>)

section \<open>Concrete runs\<close>

text \<open>
  A node enrolls at time 0, with the identity as hash function; the theorems are applied to
  what follows.
\<close>

definition demo_call :: "time \<Rightarrow> db_op \<Rightarrow> db_call" where
  "demo_call t q = \<lparr>c_faults = no_faults, c_now = t, c_now' = t, c_op = q\<rparr>"

abbreviation demo_enroll :: db_call where
  "demo_enroll \<equiv> demo_call 0 (Enroll ''m'' ''n1'' 600000 ''t1'' 1000000)"

abbreviation demo_rotate :: "time \<Rightarrow> string \<Rightarrow> db_call" where
  "demo_rotate t new \<equiv> demo_call t (Rotate ''m'' ''t1'' new 2000000)"

definition demo_tables :: db_tables where
  "demo_tables = enroll_effect 0 ''m'' (hex_encode ''n1'') 600000 (hex_encode ''t1'') 1000000 empty_tables"

lemma demo_call_sel [simp]:
  "c_faults (demo_call t q) = no_faults" "c_now (demo_call t q) = t" "c_now' (demo_call t q) = t"
  "c_op (demo_call t q) = q" "last_now (demo_call t q) = t"
  by (simp_all add: demo_call_def last_now_def)

lemma demo_enroll_ok: "fst (db_step (\<lambda>x. x) (init_state True) demo_enroll)"
  by (simp add: db_step_def EnrollNode_DB init_state_def withNodeLock_def no_faults_def enroll_tx_def
      consumeNonce_def step_defs select_enrolled_def insert_nonce_def empty_tables_def gretain_def check_fk_def)

lemma demo_tables_wf: "tables_wf demo_tables"
  by (simp add: demo_tables_def step_defs tables_wf_def empty_tables_def gwf_def gretain_def)

lemma demo_state: "snd (db_step (\<lambda>x. x) (init_state True) demo_enroll) = init_state True\<lparr>DB := Some demo_tables\<rparr>"
  using enroll_accepted_DB(3) [OF _ _ _ demo_enroll_ok, of empty_tables "''m''" "''n1''" 600000 "''t1''" 1000000]
  by (simp add: init_state_def tables_wf_def empty_tables_def demo_tables_def hashToken_def pg_time_def)

lemma demo_holds: "now < 1000000 \<Longrightarrow> holds_token now ''m'' (hex_encode ''t1'') demo_tables"
  by (simp add: holds_token_def live_token_def demo_tables_def step_defs empty_tables_def)

lemma demo_node: "gget (nodes demo_tables) ''m'' \<noteq> None"
  by (simp add: demo_tables_def step_defs empty_tables_def)

lemma demo_reach: "db_reach (\<lambda>x. x) 0 (init_state True\<lparr>DB := Some demo_tables\<rparr>)"
  using reach_step [of "\<lambda>x. x" 0 "init_state True" demo_enroll] by (simp add: demo_state reach_init)

lemma demo_wf: "state_wf (init_state True\<lparr>DB := Some demo_tables\<rparr>)"
  by (rule reach_wf [OF demo_reach])

lemma hex_t1_t2: "hex_encode ''t2'' \<noteq> hex_encode ''t1''"
  unfolding hex_encode_inject by simp

lemma demo_rotate_ok: "fst (db_step (\<lambda>x. x) (init_state True\<lparr>DB := Some demo_tables\<rparr>) (demo_rotate 5 ''t2''))"
proof -
  obtain a r tb' where run:
    "withNodeLock no_faults (rotate_tx (\<lambda>x. x) no_faults 5 ''m'' ''t1'' ''t2'' 2000000) demo_tables = ((a, r), tb')"
    by (metis surj_pair)
  then have "r = None" using demo_node by (cases r) (auto dest!: withNodeLock_no_faults_error rotate_tx_no_faults)
  with rotate_lock_spec [OF run] run demo_holds [of 5] show ?thesis
    by (simp add: rotate_spec_def db_step_def RotateRefreshToken_def on_db_def Let_def hashToken_def)
qed

theorem EnrollNode_atomic_witness:
  "fst (EnrollNode (\<lambda>x. x) no_faults 5 5 ''m'' ''n2'' 600000 ''t2'' 1000000 (init_state True\<lparr>DB := Some demo_tables\<rparr>))
     = Some ErrAlreadyEnrolled"
proof -
  let ?r = "EnrollNode (\<lambda>x. x) no_faults 5 5 ''m'' ''n2'' 600000 ''t2'' 1000000 (init_state True\<lparr>DB := Some demo_tables\<rparr>)"
  have "enrolled 5 ''m'' demo_tables" by (simp add: enrolled_def demo_tables_def step_defs empty_tables_def)
  with EnrollNode_atomic [OF _ demo_tables_wf prod.collapse [symmetric, of ?r]] show ?thesis
    by (cases "fst ?r"; cases "the (fst ?r)") (auto simp: enroll_spec_def)
qed

theorem RotateRefreshToken_atomic_witness:
  "fst (RotateRefreshToken (\<lambda>x. x) no_faults 5 ''m'' ''t1'' ''t2'' 2000000 (init_state True\<lparr>DB := Some demo_tables\<rparr>))
     = (True, None)"
proof -
  let ?st = "init_state True\<lparr>DB := Some demo_tables\<rparr>"
  obtain rotated err st' where r: "RotateRefreshToken (\<lambda>x. x) no_faults 5 ''m'' ''t1'' ''t2'' 2000000 ?st = ((rotated, err), st')"
    by (metis surj_pair)
  from RotateRefreshToken_atomic [OF _ r] r demo_node demo_holds [of 5] show ?thesis
    by (auto simp: rotate_spec_def hashToken_def)
qed

theorem enrollment_not_taken_over_witness:
  "fst (db_step (\<lambda>x. x) (init_state True) demo_enroll) \<and>
   \<not> fst (run_calls (db_step (\<lambda>x. x)) (snd (db_step (\<lambda>x. x) (init_state True) demo_enroll))
       [demo_rotate 5 ''t2'', demo_call 9 (Enroll ''m'' ''n2'' 600000 ''t3'' 2000000)]) ! 1"
  using enrollment_not_taken_over [OF init_state_wf _ demo_enroll_ok, of "''m''" "''n1''" 600000 "''t1''" 1000000 1
      "[demo_rotate 5 ''t2'', demo_call 9 (Enroll ''m'' ''n2'' 600000 ''t3'' 2000000)]" "''n2''" 600000 "''t3''" 2000000]
    demo_enroll_ok
  by (simp add: pg_time_def)

theorem refresh_token_redeemed_once_witness:
  "fst (db_step (\<lambda>x. x) (init_state True\<lparr>DB := Some demo_tables\<rparr>) (demo_rotate 5 ''t2'')) \<and>
   \<not> fst (run_calls (db_step (\<lambda>x. x))
       (snd (db_step (\<lambda>x. x) (init_state True\<lparr>DB := Some demo_tables\<rparr>) (demo_rotate 5 ''t2'')))
       [demo_rotate 7 ''t2'']) ! 0"
  using refresh_token_redeemed_once [OF demo_wf _ demo_rotate_ok, of "''m''" "''t1''" "''t2''" 2000000 0
      "[demo_rotate 7 ''t2'']" "''t2''" 2000000] demo_rotate_ok hex_t1_t2
  by (simp add: mints_def hashToken_def)

theorem token_holder_keeps_claim_witness:
  "holds_token 5 ''m'' (hex_encode ''t1'') demo_tables \<and> enrolled 5 ''m'' demo_tables"
  using token_holder_keeps_claim [OF demo_reach _ _ demo_holds, of 5] demo_holds [of 5] by simp

theorem registration_nonce_single_use_witness:
  "fst (db_step (\<lambda>x. x) (init_state True) demo_enroll) \<and>
   \<not> fst (run_calls (db_step (\<lambda>x. x)) (snd (db_step (\<lambda>x. x) (init_state True) demo_enroll))
       [demo_call 9 (Enroll ''other'' ''n1'' 600000 ''t3'' 2000000)]) ! 0"
  using registration_nonce_single_use [OF init_state_wf _ demo_enroll_ok, of "''m''" "''n1''" 600000 "''t1''" 1000000 0
      "[demo_call 9 (Enroll ''other'' ''n1'' 600000 ''t3'' 2000000)]" "''other''" 600000 "''t3''" 2000000]
    demo_enroll_ok
  by (simp add: pg_time_def)

end
