(* ===== verification/Auth_Handlers.thy ===== *)
theory Auth_Handlers
  imports Http Auth Db
begin

text \<open>
  The agent authentication endpoints (\<^verbatim>\<open>server/internal/api/auth_handlers.go\<close>): login, refresh and
  operator revocation, over the packages \<^verbatim>\<open>auth\<close> and \<^verbatim>\<open>db\<close>.  The JSON decoder is an argument (any
  function from the bytes read to a request or an error); every reading of the clock and every
  draw of random bytes is a field of the call's environment, so nothing is assumed about the time
  that passes within a handler.

  The theorems show that a grant logs in at most once (given a bounded skew between the clocks of
  the server and the database), what a successful login and refresh certify, and that every
  response other than success leaves a node's claim as it was.
\<close>

section \<open>Definitions\<close>

definition maxAuthBodyBytes :: nat where
  "maxAuthBodyBytes = 64 * 1024"

definition node_id_char :: "char \<Rightarrow> bool" where
  "node_id_char c \<longleftrightarrow>
     (let n = (of_char c :: nat) in
      65 \<le> n \<and> n \<le> 90 \<or> 97 \<le> n \<and> n \<le> 122 \<or> 48 \<le> n \<and> n \<le> 57 \<or> c \<in> set '':._-'')"

definition validNodeID :: "string \<Rightarrow> bool" where
  "validNodeID s \<longleftrightarrow> 1 \<le> length s \<and> length s \<le> 50 \<and> list_all node_id_char s"

record LoginRequest =
  lr_MAC :: string
  lr_Group :: string
  lr_Timestamp :: string
  lr_Nonce :: string
  lr_Signature :: string

record RevokeRequest =
  vr_MAC :: string

record RefreshRequest =
  rr_MAC :: string
  rr_RefreshToken :: string

text \<open>What the handlers rely on outside the sources, and the server's configuration.\<close>

record auth_env =
  ae_jwt :: jwt_lib
  ae_hmac :: "bytes \<Rightarrow> bytes \<Rightarrow> bytes"
  ae_sha :: "bytes \<Rightarrow> bytes"
  ae_parse_time :: "string \<Rightarrow> time option"
  ae_secrets :: secrets
  ae_decode_login :: "bytes \<Rightarrow> LoginRequest option"
  ae_decode_refresh :: "bytes \<Rightarrow> RefreshRequest option"
  ae_decode_revoke :: "bytes \<Rightarrow> RevokeRequest option"

text \<open>The readings of one call: clocks in the order the code takes them, random bytes, statement outcomes.\<close>

record readings =
  t_validate :: time
  t_since :: time
  t_until :: time
  t_pair :: time
  t_expiry :: time
  t_db :: time
  t_db' :: time
  rnd_access :: bytes
  rnd_refresh :: bytes
  sql :: faults

definition marshal_pair :: "TokenPair \<Rightarrow> string" where
  "marshal_pair pair =
     ''{'' @ json_string ''access_token'' @ '':'' @ json_string (AccessToken pair) @ '','' @
     json_string ''refresh_token'' @ '':'' @ json_string (RefreshToken pair) @ ''}'' @ [CHR 0x0A]"

definition HandleAgentLogin ::
  "auth_env \<Rightarrow> readings \<Rightarrow> http_request \<Rightarrow> db_state \<Rightarrow> http_response \<times> db_state" where
  "HandleAgentLogin A R r st =
     (if r_Method r \<noteq> ''POST'' then (http_Error ''Method not allowed'' 405, st)
      else case ae_decode_login A (limited_body maxAuthBodyBytes r) of
        None \<Rightarrow> (http_Error ''Invalid request body'' 400, st)
      | Some req \<Rightarrow>
          if \<not> validNodeID (lr_MAC req) then (http_Error ''Invalid request body'' 400, st)
          else if \<not> ValidateRegistration (ae_hmac A) (ae_parse_time A) (ae_secrets A) (t_validate R)
                    (lr_Group req) (lr_Timestamp req) (lr_Nonce req) (lr_Signature req)
          then (http_Error ''Invalid registration signature'' 401, st)
          else case ae_parse_time A (lr_Timestamp req) of
            None \<Rightarrow> (http_Error ''Stale or invalid timestamp'' 401, st)
          | Some t \<Rightarrow>
              if t_since R - t > 5 * minute \<or> t - t_until R > 5 * minute
              then (http_Error ''Stale or invalid timestamp'' 401, st)
              else case GenerateTokenPair (ae_jwt A) (ae_secrets A) (t_pair R) (rnd_access R) (rnd_refresh R) (lr_MAC req) of
                None \<Rightarrow> (http_Error ''Failed to generate tokens'' 500, st)
              | Some pair \<Rightarrow>
                  (case EnrollNode (ae_sha A) (sql R) (t_db R) (t_db' R) (lr_MAC req) (lr_Nonce req)
                          (t + 10 * minute) (RefreshToken pair) (t_expiry R + RefreshTokenDuration) st of
                     (Some ErrAlreadyEnrolled, st') \<Rightarrow> (http_Error ''Node is already enrolled'' 409, st')
                   | (Some ErrNonceUsed, st') \<Rightarrow> (http_Error ''Registration signature already used'' 401, st')
                   | (Some _, st') \<Rightarrow> (http_Error ''Failed to record enrollment'' 500, st')
                   | (None, st') \<Rightarrow> (respond [(''Content-Type'', ''application/json'')] (marshal_pair pair), st')))"

definition HandleAgentRefresh ::
  "auth_env \<Rightarrow> readings \<Rightarrow> http_request \<Rightarrow> db_state \<Rightarrow> http_response \<times> db_state" where
  "HandleAgentRefresh A R r st =
     (if r_Method r \<noteq> ''POST'' then (http_Error ''Method not allowed'' 405, st)
      else case ae_decode_refresh A (limited_body maxAuthBodyBytes r) of
        None \<Rightarrow> (http_Error ''Invalid request body'' 400, st)
      | Some req \<Rightarrow>
          (case ValidateRefreshToken (ae_jwt A) (ae_secrets A) (t_validate R) (rr_RefreshToken req) of
             None \<Rightarrow> (http_Error ''Invalid refresh token payload'' 401, st)
           | Some claims \<Rightarrow>
               if gget claims ''sub'' \<noteq> Some (CString (rr_MAC req))
               then (http_Error ''Invalid refresh token payload'' 401, st)
               else case GenerateTokenPair (ae_jwt A) (ae_secrets A) (t_pair R) (rnd_access R) (rnd_refresh R) (rr_MAC req) of
                 None \<Rightarrow> (http_Error ''Failed to generate new tokens'' 500, st)
               | Some pair \<Rightarrow>
                   (case RotateRefreshToken (ae_sha A) (sql R) (t_db R) (rr_MAC req) (rr_RefreshToken req)
                           (RefreshToken pair) (t_expiry R + RefreshTokenDuration) st of
                      ((_, Some _), st') \<Rightarrow> (http_Error ''Failed to rotate refresh token'' 500, st')
                    | ((rotated, None), st') \<Rightarrow>
                        if \<not> rotated then (http_Error ''Invalid or expired refresh token'' 401, st')
                        else (respond [(''Content-Type'', ''application/json'')] (marshal_pair pair), st'))))"

definition HandleRevokeEnrollment ::
  "auth_env \<Rightarrow> readings \<Rightarrow> http_request \<Rightarrow> db_state \<Rightarrow> http_response \<times> db_state" where
  "HandleRevokeEnrollment A R r st =
     (if r_Method r \<noteq> ''POST'' then (http_Error ''Method not allowed'' 405, st)
      else case ae_decode_revoke A (limited_body maxAuthBodyBytes r) of
        None \<Rightarrow> (http_Error ''Invalid request body'' 400, st)
      | Some req \<Rightarrow>
          if \<not> validNodeID (vr_MAC req) then (http_Error ''Invalid request body'' 400, st)
          else (case RevokeEnrollment (sql R) (vr_MAC req) st of
                  (Some _, st') \<Rightarrow> (http_Error ''Failed to revoke enrollment'' 500, st')
                | (None, st') \<Rightarrow> (\<lparr>w_Status = 204, w_Header = [], w_Body = []\<rparr>, st')))"

text \<open>
  One event of the server as the package state sees it: a request to one of the endpoints, or an
  operation of another component (heartbeats, disconnects).  The flag is set for status 200.
\<close>

datatype api_call =
    Login readings http_request
  | Refresh readings http_request
  | RevokeCall readings http_request
  | Other db_call

definition api_step :: "auth_env \<Rightarrow> db_state \<Rightarrow> api_call \<Rightarrow> bool \<times> db_state" where
  "api_step A st c =
     (case c of
        Login R r \<Rightarrow> map_prod (\<lambda>w. w_Status w = 200) id (HandleAgentLogin A R r st)
      | Refresh R r \<Rightarrow> map_prod (\<lambda>w. w_Status w = 200) id (HandleAgentRefresh A R r st)
      | RevokeCall R r \<Rightarrow> map_prod (\<lambda>w. w_Status w = 200) id (HandleRevokeEnrollment A R r st)
      | Other d \<Rightarrow> db_step (ae_sha A) st d)"

text \<open>The latest database clock of a call.\<close>

definition api_clock :: "api_call \<Rightarrow> time" where
  "api_clock c =
     (case c of
        Login R r \<Rightarrow> max (t_db R) (t_db' R)
      | Refresh R r \<Rightarrow> t_db R
      | RevokeCall R r \<Rightarrow> t_db R
      | Other d \<Rightarrow> last_now d)"

section \<open>Handlers as database operations\<close>

definition op_call :: "readings \<Rightarrow> db_op \<Rightarrow> db_call" where
  "op_call R q = \<lparr>c_faults = sql R, c_now = t_db R, c_now' = t_db' R, c_op = q\<rparr>"

lemma op_call_sel [simp]:
  "c_faults (op_call R q) = sql R" "c_now (op_call R q) = t_db R" "c_now' (op_call R q) = t_db' R"
  "c_op (op_call R q) = q" "last_now (op_call R q) = max (t_db R) (t_db' R)"
  by (simp_all add: op_call_def last_now_def)

lemma status_simps [simp]: "w_Status (http_Error m n) = n" "w_Status (respond h b) = 200"
  by (simp_all add: http_Error_def respond_def)

lemma login_step:
  "snd (HandleAgentLogin A R r st) = st \<or>
   (\<exists>mac nonce ne tok e. snd (HandleAgentLogin A R r st) =
      snd (db_step (ae_sha A) st (op_call R (Enroll mac nonce ne tok e))))"
  by (auto simp: HandleAgentLogin_def db_step_def split: option.splits prod.splits db_error.splits)
    (metis snd_conv)+

definition login_facts ::
  "auth_env \<Rightarrow> readings \<Rightarrow> http_request \<Rightarrow> LoginRequest \<Rightarrow> time \<Rightarrow> TokenPair \<Rightarrow> bool" where
  "login_facts A R r req t pair \<longleftrightarrow>
     r_Method r = ''POST'' \<and> ae_decode_login A (limited_body maxAuthBodyBytes r) = Some req \<and>
     validNodeID (lr_MAC req) \<and>
     lr_Signature req = GenerateRegistrationSignature (ae_hmac A) (ae_secrets A) (lr_Group req) (lr_Timestamp req) (lr_Nonce req) \<and>
     lr_Nonce req \<noteq> [] \<and> ae_parse_time A (lr_Timestamp req) = Some t \<and>
     t_since R - t \<le> 5 * minute \<and> t - t_until R \<le> 5 * minute \<and>
     GenerateTokenPair (ae_jwt A) (ae_secrets A) (t_pair R) (rnd_access R) (rnd_refresh R) (lr_MAC req) = Some pair"

definition login_call :: "readings \<Rightarrow> LoginRequest \<Rightarrow> time \<Rightarrow> TokenPair \<Rightarrow> db_call" where
  "login_call R req t pair =
     op_call R (Enroll (lr_MAC req) (lr_Nonce req) (t + 10 * minute) (RefreshToken pair) (t_expiry R + RefreshTokenDuration))"

lemma login_accepted:
  assumes "w_Status (fst (HandleAgentLogin A R r st)) = 200"
  obtains req t pair where "login_facts A R r req t pair"
    and "fst (HandleAgentLogin A R r st) = respond [(''Content-Type'', ''application/json'')] (marshal_pair pair)"
    and "fst (db_step (ae_sha A) st (login_call R req t pair))"
    and "snd (HandleAgentLogin A R r st) = snd (db_step (ae_sha A) st (login_call R req t pair))"
  using assms
  by (auto simp: HandleAgentLogin_def login_facts_def login_call_def db_step_def ValidateRegistration_def Let_def
      split: if_splits option.splits prod.splits db_error.splits)

lemma refresh_step:
  "snd (HandleAgentRefresh A R r st) = st \<or>
   (\<exists>mac old new e. snd (HandleAgentRefresh A R r st) =
      snd (db_step (ae_sha A) st (op_call R (Rotate mac old new e))))"
  by (auto simp: HandleAgentRefresh_def db_step_def split: option.splits prod.splits) (metis snd_conv)+

lemma revoke_step:
  "snd (HandleRevokeEnrollment A R r st) = st \<or>
   (\<exists>mac. snd (HandleRevokeEnrollment A R r st) = snd (db_step (ae_sha A) st (op_call R (Revoke mac))))"
  by (auto simp: HandleRevokeEnrollment_def db_step_def split: option.splits prod.splits) (metis snd_conv)+

lemma db_step_clock_irrelevant:
  "(\<forall>mac nonce ne tok e. c_op c \<noteq> Enroll mac nonce ne tok e) \<Longrightarrow>
     db_step sha st c = db_step sha st (c\<lparr>c_now' := c_now c\<rparr>)"
  by (cases "c_op c") (auto simp: db_step_def)

text \<open>Every event is a database operation of its own clock, or leaves the state alone.\<close>

lemma api_step_db:
  "snd (api_step A st c) = st \<or>
   (\<exists>d. snd (api_step A st c) = snd (db_step (ae_sha A) st d) \<and> last_now d \<le> api_clock c)"
proof (cases c)
  case (Login R r)
  with login_step [of A R r st] show ?thesis
    by (force simp: api_step_def api_clock_def)
next
  case (Refresh R r)
  from refresh_step [of A R r st] show ?thesis
  proof
    assume "\<exists>mac old new e. snd (HandleAgentRefresh A R r st) = snd (db_step (ae_sha A) st (op_call R (Rotate mac old new e)))"
    then obtain mac old new e where s: "snd (HandleAgentRefresh A R r st) = snd (db_step (ae_sha A) st (op_call R (Rotate mac old new e)))"
      by blast
    have "last_now ((op_call R (Rotate mac old new e))\<lparr>c_now' := t_db R\<rparr>) \<le> t_db R"
      by (simp add: last_now_def)
    with s Refresh show ?thesis
      using db_step_clock_irrelevant [of "op_call R (Rotate mac old new e)" "ae_sha A" st]
      by (force simp: api_step_def api_clock_def)
  qed (simp add: Refresh api_step_def)
next
  case (RevokeCall R r)
  from revoke_step [of A R r st] show ?thesis
  proof
    assume "\<exists>mac. snd (HandleRevokeEnrollment A R r st) = snd (db_step (ae_sha A) st (op_call R (Revoke mac)))"
    then obtain mac where s: "snd (HandleRevokeEnrollment A R r st) = snd (db_step (ae_sha A) st (op_call R (Revoke mac)))"
      by blast
    have "last_now ((op_call R (Revoke mac))\<lparr>c_now' := t_db R\<rparr>) \<le> t_db R"
      by (simp add: last_now_def)
    with s RevokeCall show ?thesis
      using db_step_clock_irrelevant [of "op_call R (Revoke mac)" "ae_sha A" st]
      by (force simp: api_step_def api_clock_def)
  qed (simp add: RevokeCall api_step_def)
next
  case (Other d)
  then show ?thesis by (auto simp: api_step_def api_clock_def)
qed

lemma api_step_wf: "state_wf st \<Longrightarrow> state_wf (snd (api_step A st c))"
  using api_step_db [of A st c] by (auto simp: db_step_wf)

lemma api_nonce_kept:
  assumes "state_wf st" and "nonce_until st h e" and "api_clock c \<le> e"
  shows "nonce_until (snd (api_step A st c)) h e"
  using api_step_db [of A st c] nonce_kept [OF assms(1,2)] assms by (metis order_trans)

section \<open>Properties\<close>

lemma login_within_window:
  assumes "login_facts A R r req t pair" and "clk \<le> t_since R + 4 * minute"
  shows "clk \<le> pg_time (t + 10 * minute)"
proof -
  have "pg_time (t + 10 * minute) = (t + 10 * minute) - (t + 10 * minute) mod 1000"
    by (simp add: pg_time_def minus_mod_eq_div_mult)
  moreover have "(t + 10 * minute) mod 1000 < 1000" by simp
  moreover from assms(1) have "t_since R - t \<le> 5 * minute" by (simp add: login_facts_def)
  ultimately show ?thesis using assms(2) by linarith
qed

text \<open>
  C9. A registration grant logs in at most once.  If a login succeeded, then no later login with the
  same nonce and timestamp succeeds, for any node, in any sequence of logins, refreshes,
  revocations, heartbeats and disconnects in between and under any statement failures, as long as
  no database clock read up to then is more than four minutes ahead of the server clock with which
  the replayed grant is checked: the grant goes stale before the database forgets its nonce.
\<close>

theorem login_grant_single_use:
  assumes "state_wf st" and "fst (api_step A st (Login R r))"
    and "ae_decode_login A (limited_body maxAuthBodyBytes r) = Some req"
    and "i < length cs" and "cs ! i = Login R' r'"
    and "ae_decode_login A (limited_body maxAuthBodyBytes r') = Some req'"
    and "lr_Nonce req' = lr_Nonce req" and "lr_Timestamp req' = lr_Timestamp req"
    and "\<forall>d \<in> set (take (Suc i) cs). api_clock d \<le> t_since R' + 4 * minute"
  shows "\<not> fst (run_calls (api_step A) (snd (api_step A st (Login R r))) cs) ! i"
proof
  assume acc: "fst (run_calls (api_step A) (snd (api_step A st (Login R r))) cs) ! i"
  from assms(2) obtain t pair where l1: "login_facts A R r req t pair"
    and s1: "fst (db_step (ae_sha A) st (login_call R req t pair))"
      "snd (api_step A st (Login R r)) = snd (db_step (ae_sha A) st (login_call R req t pair))"
    using assms(3) by (auto simp: api_step_def login_facts_def elim!: login_accepted)
  let ?h = "hashToken (ae_sha A) (lr_Nonce req)" and ?e = "pg_time (t + 10 * minute)"
  from acc assms(4,5) obtain s where "fst (api_step A s (Login R' r'))"
    by (metis run_calls_nth)
  then obtain t' pair' where l2: "login_facts A R' r' req' t' pair'"
    using assms(6) by (auto simp: api_step_def login_facts_def elim!: login_accepted)
  with l1 assms(8) have "t' = t" by (simp add: login_facts_def)
  with l2 assms(9) have clk: "api_clock d \<le> ?e" if "d \<in> set (take (Suc i) cs)" for d
    using that login_within_window by blast
  have "\<not> fst (run_calls (api_step A) (snd (api_step A st (Login R r))) cs) ! i"
  proof (rule run_calls_refused [where P = "\<lambda>s. state_wf s \<and> nonce_until s ?h ?e"])
    show "state_wf (snd (api_step A st (Login R r))) \<and> nonce_until (snd (api_step A st (Login R r))) ?h ?e"
      unfolding s1(2) using db_step_wf [OF assms(1)] enroll_redeems [OF assms(1) _ s1(1)] by (simp add: login_call_def)
  next
    fix s assume inv: "state_wf s \<and> nonce_until s ?h ?e" and mem: "cs ! i \<in> set (take (Suc i) cs)"
    show "\<not> fst (api_step A s (cs ! i))"
    proof
      assume "fst (api_step A s (cs ! i))"
      then obtain t2 pair2 where l3: "login_facts A R' r' req' t2 pair2" "fst (db_step (ae_sha A) s (login_call R' req' t2 pair2))"
        using assms(5,6) by (auto simp: api_step_def login_facts_def elim!: login_accepted)
      moreover have "last_now (login_call R' req' t2 pair2) \<le> ?e"
        using clk [OF mem] assms(5) by (simp add: login_call_def api_clock_def)
      ultimately show False
        using inv nonce_refuses_enroll [of s "ae_sha A" "lr_Nonce req" ?e "login_call R' req' t2 pair2"] assms(7)
        by (simp add: login_call_def)
    qed
  qed (use assms(4) clk in \<open>auto simp: api_step_wf intro: api_nonce_kept\<close>)
  with acc show False by blast
qed

text \<open>
  What a successful login certifies: the request carried a valid node identity and a grant
  signed with the registration secret, at most five minutes old; the identity was not claimed
  when the database looked, and is claimed afterwards until the refresh token's expiry; and the
  response body is a token pair whose access token authenticates exactly that node for an hour.
\<close>

theorem login_success:
  assumes "jwt_ok (ae_jwt A)" and "state_wf st" and "w_Status (fst (HandleAgentLogin A R r st)) = 200"
  shows "\<exists>req t pair. login_facts A R r req t pair \<and>
     w_Body (fst (HandleAgentLogin A R r st)) = marshal_pair pair \<and>
     (\<forall>e > t_db R. \<not> claimed_until st (lr_MAC req) e) \<and>
     claimed_until (snd (HandleAgentLogin A R r st)) (lr_MAC req) (pg_time (t_expiry R + RefreshTokenDuration)) \<and>
     (\<forall>now < Unix (t_pair R + AccessTokenDuration) * second. \<exists>c.
        ValidateAccessToken (ae_jwt A) (ae_secrets A) now (AccessToken pair) = Some c \<and>
        gget c ''sub'' = Some (CString (lr_MAC req)))"
proof -
  from assms(3) obtain req t pair where l: "login_facts A R r req t pair"
    and w: "fst (HandleAgentLogin A R r st) = respond [(''Content-Type'', ''application/json'')] (marshal_pair pair)"
    and s: "fst (db_step (ae_sha A) st (login_call R req t pair))"
      "snd (HandleAgentLogin A R r st) = snd (db_step (ae_sha A) st (login_call R req t pair))"
    by (rule login_accepted)
  have op: "c_op (login_call R req t pair) = Enroll (lr_MAC req) (lr_Nonce req) (t + 10 * minute) (RefreshToken pair)
      (t_expiry R + RefreshTokenDuration)" "c_now (login_call R req t pair) = t_db R"
    by (simp_all add: login_call_def)
  have "\<not> claimed_until st (lr_MAC req) e" if "t_db R < e" for e
    using claim_refuses [OF assms(2) _ _ op(1), of e] s(1) that op(2) by auto
  moreover from l have
    "GenerateTokenPair (ae_jwt A) (ae_secrets A) (t_pair R) (rnd_access R) (rnd_refresh R) (lr_MAC req) = Some pair"
    by (simp add: login_facts_def)
  note access_token_validates [OF assms(1) this]
  ultimately show ?thesis
    using l w s(2) enroll_claims [OF assms(2) op(1) s(1)] by (auto simp: respond_def)
qed

definition refresh_valid ::
  "auth_env \<Rightarrow> readings \<Rightarrow> http_request \<Rightarrow> RefreshRequest \<Rightarrow> bool" where
  "refresh_valid A R r req \<longleftrightarrow>
     r_Method r = ''POST'' \<and> ae_decode_refresh A (limited_body maxAuthBodyBytes r) = Some req \<and>
     (\<exists>c. ValidateRefreshToken (ae_jwt A) (ae_secrets A) (t_validate R) (rr_RefreshToken req) = Some c \<and>
        gget c ''sub'' = Some (CString (rr_MAC req)))"

text \<open>
  The refresh endpoint, for a request with a correctly signed, live refresh token of the node it
  names and a database that answers: the status is 200 exactly when the node still holds that
  token, and then the response carries the replacement pair and the old token is gone; otherwise
  the status is 401 and every refresh token of the node is revoked.  Tokens of other nodes are
  never touched.
\<close>

theorem refresh_outcome:
  assumes "jwt_ok (ae_jwt A)" and "refresh_valid A R r req" and "sql R = no_faults"
    and "DB st = Some tb" and "gget (nodes tb) (rr_MAC req) \<noteq> None"
    and "HandleAgentRefresh A R r st = (w, st')"
  shows "\<exists>tb' pair. st' = st\<lparr>DB := Some tb'\<rparr> \<and>
     (let h = hashToken (ae_sha A) (rr_RefreshToken req); h' = hashToken (ae_sha A) (RefreshToken pair) in
      (if holds_token (t_db R) (rr_MAC req) h tb
       then w = respond [(''Content-Type'', ''application/json'')] (marshal_pair pair) \<and>
         GenerateTokenPair (ae_jwt A) (ae_secrets A) (t_pair R) (rnd_access R) (rnd_refresh R) (rr_MAC req) = Some pair \<and>
         (h' \<noteq> h \<longrightarrow> \<not> holds_token (t_db R) (rr_MAC req) h tb') \<and>
         (t_db R < pg_time (t_expiry R + RefreshTokenDuration) \<longrightarrow> holds_token (t_db R) (rr_MAC req) h' tb')
       else w_Status w = 401 \<and> tokens_of (rr_MAC req) tb' = [])) \<and>
     (\<forall>mac. mac \<noteq> rr_MAC req \<longrightarrow> tokens_of mac tb' = tokens_of mac tb)"
proof -
  let ?mac = "rr_MAC req" and ?e = "t_expiry R + RefreshTokenDuration"
  obtain c where tok: "ValidateRefreshToken (ae_jwt A) (ae_secrets A) (t_validate R) (rr_RefreshToken req) = Some c"
    "gget c ''sub'' = Some (CString ?mac)" using assms(2) by (auto simp: refresh_valid_def)
  obtain pair where pair:
    "GenerateTokenPair (ae_jwt A) (ae_secrets A) (t_pair R) (rnd_access R) (rnd_refresh R) ?mac = Some pair"
    using GenerateTokenPair_total [OF assms(1)] by blast
  obtain a err tb' where run: "withNodeLock (sql R) (rotate_tx (ae_sha A) (sql R) (t_db R) ?mac (rr_RefreshToken req) (RefreshToken pair) ?e) tb = ((a, err), tb')"
    by (metis surj_pair)
  with assms(3,5) have err: "err = None"
    by (cases err) (auto dest!: withNodeLock_no_faults_error rotate_tx_no_faults)
  from rotate_lock_spec [OF run] err have spec: "rotate_spec (t_db R) ?mac (hashToken (ae_sha A) (rr_RefreshToken req))
     (hashToken (ae_sha A) (RefreshToken pair)) (pg_time ?e) tb (a = Some True) None tb'" by simp
  from assms(2,4,6) tok pair run err have
    "st' = st\<lparr>DB := Some tb'\<rparr> \<and> w = (if a = Some True then respond [(''Content-Type'', ''application/json'')] (marshal_pair pair)
        else http_Error ''Invalid or expired refresh token'' 401)"
    by (auto simp: HandleAgentRefresh_def refresh_valid_def RotateRefreshToken_def on_db_def Let_def split: if_splits)
  with spec pair show ?thesis
    by (intro exI [of _ tb'] exI [of _ pair])
      (auto simp: rotate_spec_def Let_def step_defs tokens_of_def holds_token_def live_token_def
        split: option.splits if_splits intro!: filter_cong)
qed

section \<open>Concrete runs\<close>

definition demo_request :: http_request where
  "demo_request = \<lparr>r_Method = ''POST'', r_Path = ''/'', r_Host = ''h'', r_RemoteAddr = ''10.0.0.1:1'', r_TLS = True,
     r_Header = [], r_Query = [], r_Body = ''{}''\<rparr>"

abbreviation demo_secrets :: secrets where
  "demo_secrets \<equiv> \<lparr>registrationSecret = ''r'', jwtSecret = ''j''\<rparr>"

definition demo_pair :: TokenPair where
  "demo_pair = the (GenerateTokenPair toy_jwt demo_secrets 0 ''a'' ''b'' ''m'')"

definition demo_login :: LoginRequest where
  "demo_login = \<lparr>lr_MAC = ''m'', lr_Group = ''g'', lr_Timestamp = ''t'', lr_Nonce = ''n'',
     lr_Signature = GenerateRegistrationSignature (\<lambda>k m. k @ m) demo_secrets ''g'' ''t'' ''n''\<rparr>"

definition demo_env :: auth_env where
  "demo_env = \<lparr>ae_jwt = toy_jwt, ae_hmac = (\<lambda>k m. k @ m), ae_sha = (\<lambda>x. x), ae_parse_time = (\<lambda>_. Some 0),
     ae_secrets = demo_secrets, ae_decode_login = (\<lambda>_. Some demo_login),
     ae_decode_refresh = (\<lambda>_. Some \<lparr>rr_MAC = ''m'', rr_RefreshToken = RefreshToken demo_pair\<rparr>),
     ae_decode_revoke = (\<lambda>_. Some \<lparr>vr_MAC = ''m''\<rparr>)\<rparr>"

definition demo_readings :: readings where
  "demo_readings = \<lparr>t_validate = 0, t_since = 0, t_until = 0, t_pair = 0, t_expiry = 0, t_db = 0, t_db' = 0,
     rnd_access = ''a'', rnd_refresh = ''b'', sql = no_faults\<rparr>"

lemma enroll_fresh: "fst (EnrollNode sha no_faults now now' mac nonce ne tok e (init_state b)) = None"
  by (cases b)
    (simp_all add: EnrollNode_DB EnrollNode_def init_state_def withNodeLock_def no_faults_def enroll_tx_def
      ConsumeRegistrationNonce_def take_mem_nonce_def consumeNonce_def step_defs select_enrolled_def insert_nonce_def
      empty_tables_def gretain_def check_fk_def Let_def)

lemma demo_pair_eq: "GenerateTokenPair toy_jwt demo_secrets 0 ''a'' ''b'' ''m'' = Some demo_pair"
  using GenerateTokenPair_total [OF toy_jwt_ok, of demo_secrets 0 "''a''" "''b''" "''m''"]
  by (auto simp: demo_pair_def)

lemma demo_login_ok: "w_Status (fst (HandleAgentLogin demo_env demo_readings demo_request (init_state b))) = 200"
proof -
  have e: "fst (EnrollNode (\<lambda>x. x) no_faults 0 0 ''m'' ''n'' (10 * minute) (RefreshToken demo_pair) RefreshTokenDuration (init_state b)) = None"
    by (rule enroll_fresh)
  then obtain st where "EnrollNode (\<lambda>x. x) no_faults 0 0 ''m'' ''n'' (10 * minute) (RefreshToken demo_pair) RefreshTokenDuration (init_state b) = (None, st)"
    by (metis prod.collapse)
  moreover have "validNodeID ''m''" by (simp add: validNodeID_def node_id_char_def)
  ultimately show ?thesis
    by (simp add: HandleAgentLogin_def demo_env_def demo_readings_def demo_request_def demo_login_def demo_pair_eq
        ValidateRegistration_def)
qed

theorem login_success_witness:
  "w_Status (fst (HandleAgentLogin demo_env demo_readings demo_request (init_state True))) = 200 \<and>
   (\<exists>pair. w_Body (fst (HandleAgentLogin demo_env demo_readings demo_request (init_state True))) = marshal_pair pair)"
  using login_success [OF _ init_state_wf demo_login_ok, of True] toy_jwt_ok demo_login_ok
  by (auto simp: demo_env_def)

theorem login_grant_single_use_witness:
  "fst (api_step demo_env (init_state False) (Login demo_readings demo_request)) \<and>
   \<not> fst (run_calls (api_step demo_env) (snd (api_step demo_env (init_state False) (Login demo_readings demo_request)))
        [Login demo_readings demo_request]) ! 0"
proof -
  have acc: "fst (api_step demo_env (init_state False) (Login demo_readings demo_request))"
    using demo_login_ok by (simp add: api_step_def)
  have dec: "ae_decode_login demo_env (limited_body maxAuthBodyBytes demo_request) = Some demo_login"
    by (simp add: demo_env_def)
  from login_grant_single_use [OF init_state_wf acc dec _ _ dec, of 0 "[Login demo_readings demo_request]" demo_readings] acc
  show ?thesis by (simp add: api_clock_def demo_readings_def)
qed

theorem refresh_outcome_witness:
  "let tb = snd (upsert_node 0 ''m'' ''h'' ''o'' ''v'' ''k'' ''online'' empty_tables) in
   w_Status (fst (HandleAgentRefresh demo_env demo_readings demo_request (init_state True\<lparr>DB := Some tb\<rparr>))) = 401"
proof -
  let ?tb = "snd (upsert_node 0 ''m'' ''h'' ''o'' ''v'' ''k'' ''online'' empty_tables)"
  let ?req = "\<lparr>rr_MAC = ''m'', rr_RefreshToken = RefreshToken demo_pair\<rparr>"
  let ?r = "HandleAgentRefresh demo_env demo_readings demo_request (init_state True\<lparr>DB := Some ?tb\<rparr>)"
  obtain c where "ValidateToken toy_jwt demo_secrets 0 (RefreshToken demo_pair) = Some c" "gget c ''sub'' = Some (CString ''m'')"
    "gget c ''typ'' = Some (CString TokenTypeRefresh)" "hasAudience toy_jwt c"
    using toy_jwt_ok GenerateTokenPair_Some(2) [OF demo_pair_eq]
    by (rule agent_token_validates [where now = 0]) (simp add: RefreshTokenDuration_def Unix_def)
  then have "ValidateRefreshToken toy_jwt demo_secrets 0 (RefreshToken demo_pair) = Some c" "gget c ''sub'' = Some (CString ''m'')"
    by (simp_all add: ValidateRefreshToken_def)
  then have v: "refresh_valid demo_env demo_readings demo_request ?req"
    by (simp add: refresh_valid_def demo_env_def demo_readings_def demo_request_def)
  have "\<not> holds_token 0 ''m'' h ?tb" for h by (simp add: holds_token_def upsert_node_def empty_tables_def)
  with refresh_outcome [OF _ v _ _ _ prod.collapse [symmetric, of ?r]] toy_jwt_ok show ?thesis
    by (auto simp: demo_env_def demo_readings_def upsert_node_def Let_def)
qed

end
