(* ===== verification/Middleware.thy ===== *)
theory Middleware
  imports Http
begin

text \<open>
  The HTTP middlewares (\<^verbatim>\<open>server/internal/api/middleware.go\<close>) and the reverse-proxy trust policy
  (\<^verbatim>\<open>server/internal/proxy/proxy.go\<close>).  A handler takes a request and the server state and returns a
  response and the new state; a middleware is a function on handlers.  \<open>getenv\<close> is the process
  environment.  The rate limiter is proved to bound the requests a client gets through in any
  interval no longer than its window.
\<close>

type_synonym 's handler = "http_request \<Rightarrow> 's \<Rightarrow> http_response \<times> 's"

section \<open>Admin token\<close>

definition AuthMiddleware :: "(string \<Rightarrow> string) \<Rightarrow> 's handler \<Rightarrow> 's handler" where
  "AuthMiddleware getenv next r st =
     (let adminToken = getenv ''ADMIN_TOKEN'';
          authHeader = header_Get r ''Authorization'' in
      if adminToken = [] then (http_Error ''Unauthorized - Server Configuration Error'' 401, st)
      else if \<not> has_prefix authHeader ''Bearer '' then (http_Error ''Unauthorized'' 401, st)
      else if trim_prefix authHeader ''Bearer '' \<noteq> adminToken then (http_Error ''Unauthorized'' 401, st)
      else next r st)"

section \<open>Security headers\<close>

definition contentSecurityPolicy :: string where
  "contentSecurityPolicy =
     ''default-src 'self'; script-src 'self' 'unsafe-inline'; style-src 'self' 'unsafe-inline'; '' @
     ''img-src 'self' data:; connect-src 'self'; object-src 'none'; base-uri 'self'; frame-ancestors 'none'; form-action 'self'' @ [CHR 0x27]"

definition security_headers :: "(string, string) gomap" where
  "security_headers =
     [(''Content-Security-Policy'', contentSecurityPolicy), (''X-Content-Type-Options'', ''nosniff''),
      (''X-Frame-Options'', ''DENY''), (''Referrer-Policy'', ''no-referrer'')]"

text \<open>The headers are set first, so a handler that sets one of them replaces it.\<close>

definition SecurityHeaders :: "'s handler \<Rightarrow> 's handler" where
  "SecurityHeaders next r st =
     (let p = next r st
      in ((fst p)\<lparr>w_Header := foldr (\<lambda>(k, v) h. gput k v h) (w_Header (fst p)) security_headers\<rparr>, snd p))"

section \<open>Rate limiter\<close>

record rateWindow =
  rw_start :: time
  rw_count :: int

record RateLimiter =
  rl_limit :: int
  rl_window :: duration
  rl_clients :: "(string, rateWindow) gomap"

definition NewRateLimiter :: "int \<Rightarrow> duration \<Rightarrow> RateLimiter" where
  "NewRateLimiter lim win = \<lparr>rl_limit = lim, rl_window = win, rl_clients = []\<rparr>"

definition rl_sweep :: "time \<Rightarrow> RateLimiter \<Rightarrow> RateLimiter" where
  "rl_sweep now rl =
     (if length (rl_clients rl) > 10000
      then rl\<lparr>rl_clients := gretain (\<lambda>_ v. \<not> now - rw_start v \<ge> rl_window rl) (rl_clients rl)\<rparr>
      else rl)"

definition allow :: "RateLimiter \<Rightarrow> time \<times> string \<Rightarrow> bool \<times> RateLimiter" where
  "allow rl0 c =
     (let now = fst c; ip = snd c; rl = rl_sweep now rl0;
          reset = (True, rl\<lparr>rl_clients := gput ip \<lparr>rw_start = now, rw_count = 1\<rparr> (rl_clients rl)\<rparr>)
      in case gget (rl_clients rl) ip of
           None \<Rightarrow> reset
         | Some w \<Rightarrow>
             if now - rw_start w \<ge> rl_window rl then reset
             else if rw_count w \<ge> rl_limit rl then (False, rl)
             else (True, rl\<lparr>rl_clients := gput ip (w\<lparr>rw_count := rw_count w + 1\<rparr>) (rl_clients rl)\<rparr>))"

definition rl_Middleware ::
  "('s \<Rightarrow> RateLimiter) \<Rightarrow> (RateLimiter \<Rightarrow> 's \<Rightarrow> 's) \<Rightarrow> time \<Rightarrow> 's handler \<Rightarrow> 's handler" where
  "rl_Middleware get_rl set_rl now next r st =
     (let ip = (case SplitHostPort (r_RemoteAddr r) of None \<Rightarrow> r_RemoteAddr r | Some (h, _) \<Rightarrow> h);
          a = allow (get_rl st) (now, ip); st' = set_rl (snd a) st in
      if \<not> fst a
      then ((http_Error ''Too many requests'' 429)\<lparr>w_Header :=
              gput ''Retry-After'' ''60'' (w_Header (http_Error ''Too many requests'' 429))\<rparr>, st')
      else next r st')"

section \<open>Proxy trust\<close>

definition IsTrusted :: "(string \<Rightarrow> string) \<Rightarrow> string \<Rightarrow> bool" where
  "IsTrusted getenv remoteAddr =
     (let trustedProxy = getenv ''TRUSTED_PROXY'' in
      if trustedProxy = [] then False
      else (case last_index (CHR '':'') remoteAddr of
              Some idx \<Rightarrow> take idx remoteAddr
            | None \<Rightarrow> remoteAddr) = trustedProxy)"

definition Scheme :: "(string \<Rightarrow> string) \<Rightarrow> http_request \<Rightarrow> string" where
  "Scheme getenv r =
     (let proto = header_Get r ''X-Forwarded-Proto'' in
      if proto \<noteq> [] \<and> IsTrusted getenv (r_RemoteAddr r)
      then (if to_lower proto = ''https'' then ''https'' else ''http'')
      else if r_TLS r then ''https'' else ''http'')"

section \<open>The rate limiter bounds a client\<close>

definition rl_wf :: "RateLimiter \<Rightarrow> bool" where
  "rl_wf rl \<longleftrightarrow> gwf (rl_clients rl) \<and> (\<forall>ip w. gget (rl_clients rl) ip = Some w \<longrightarrow> 1 \<le> rw_count w)"

definition accepted :: "string \<Rightarrow> (time \<times> string) list \<Rightarrow> bool list \<Rightarrow> nat" where
  "accepted ip cs bs = length (filter (\<lambda>(c, b). b \<and> snd c = ip) (zip cs bs))"

lemma accepted_simps [simp]:
  "accepted ip [] bs = 0"
  "accepted ip (c # cs) (b # bs) = (if b \<and> snd c = ip then 1 else 0) + accepted ip cs bs"
  by (auto simp: accepted_def)

lemma rl_sweep_sel [simp]: "rl_limit (rl_sweep now rl) = rl_limit rl" "rl_window (rl_sweep now rl) = rl_window rl"
  by (auto simp: rl_sweep_def)

lemma rl_sweep_get:
  "gwf (rl_clients rl) \<Longrightarrow> gget (rl_clients (rl_sweep now rl)) ip =
     (case gget (rl_clients rl) ip of None \<Rightarrow> None | Some w \<Rightarrow>
        if length (rl_clients rl) > 10000 \<and> now - rw_start w \<ge> rl_window rl then None else Some w)"
  by (auto simp: rl_sweep_def gget_gretain split: option.splits)

lemma rl_sweep_gwf: "gwf (rl_clients rl) \<Longrightarrow> gwf (rl_clients (rl_sweep now rl))"
  by (simp add: rl_sweep_def)

lemma allow_sel [simp]: "rl_limit (snd (allow rl c)) = rl_limit rl" "rl_window (snd (allow rl c)) = rl_window rl"
  by (auto simp: allow_def Let_def split: option.splits)

lemma allow_wf: "rl_wf rl \<Longrightarrow> rl_wf (snd (allow rl c))"
  by (auto simp: rl_wf_def allow_def Let_def rl_sweep_get rl_sweep_gwf split: option.splits if_splits)
    (metis int_one_le_iff_zero_less less_imp_le)+

text \<open>What one request does to the window of a client, whoever sent it.\<close>

definition resets :: "RateLimiter \<Rightarrow> time \<Rightarrow> string \<Rightarrow> bool" where
  "resets rl now ip \<longleftrightarrow> (case gget (rl_clients rl) ip of None \<Rightarrow> True | Some w \<Rightarrow> now - rw_start w \<ge> rl_window rl)"

lemma allow_reset:
  assumes "rl_wf rl" and "resets rl now ip"
  shows "fst (allow rl (now, ip))"
    and "gget (rl_clients (snd (allow rl (now, ip)))) ip = Some \<lparr>rw_start = now, rw_count = 1\<rparr>"
  using assms by (auto simp: allow_def Let_def resets_def rl_wf_def rl_sweep_get split: option.splits)

lemma allow_open:
  assumes "rl_wf rl" and "gget (rl_clients rl) ip = Some w" and "now - rw_start w < rl_window rl"
  shows "fst (allow rl (now, ip)) \<longleftrightarrow> rw_count w < rl_limit rl"
    and "gget (rl_clients (snd (allow rl (now, ip)))) ip =
      Some (if rw_count w < rl_limit rl then w\<lparr>rw_count := rw_count w + 1\<rparr> else w)"
  using assms by (auto simp: allow_def Let_def rl_wf_def rl_sweep_get split: option.splits)

lemma allow_other:
  assumes "rl_wf rl" and "ip' \<noteq> ip" and "gget (rl_clients rl) ip = Some w" and "now - rw_start w < rl_window rl"
  shows "gget (rl_clients (snd (allow rl (now, ip')))) ip = Some w"
  using assms by (auto simp: allow_def Let_def rl_wf_def rl_sweep_get split: option.splits)

lemma allow_other_Some:
  assumes "rl_wf rl" and "ip' \<noteq> ip" and "gget (rl_clients (snd (allow rl (now, ip')))) ip = Some w"
  shows "gget (rl_clients rl) ip = Some w"
  using assms by (auto simp: allow_def Let_def rl_wf_def rl_sweep_get split: option.splits if_splits)

text \<open>While a window stays open, it lets through what is left of the limit.\<close>

lemma accepted_open_window:
  assumes "rl_wf rl" and "gget (rl_clients rl) ip = Some w"
    and "\<forall>c \<in> set cs. fst c - rw_start w < rl_window rl"
  shows "accepted ip cs (fst (run_calls allow rl cs)) \<le> nat (rl_limit rl - rw_count w)"
  using assms
proof (induction cs arbitrary: rl w)
  case (Cons c cs)
  obtain now ip' where c: "c = (now, ip')" by (cases c)
  let ?rl' = "snd (allow rl c)"
  from Cons.prems c have op: "now - rw_start w < rl_window rl" by simp
  show ?case
  proof (cases "ip' = ip")
    case False
    from allow_other [OF Cons.prems(1) False Cons.prems(2) op]
    have "accepted ip cs (fst (run_calls allow ?rl' cs)) \<le> nat (rl_limit ?rl' - rw_count w)"
      by (intro Cons.IH) (use Cons.prems c allow_wf in auto)
    then show ?thesis using False c by (simp add: Let_def)
  next
    case True
    note ao = allow_open [OF Cons.prems(1,2) op]
    let ?w' = "if rw_count w < rl_limit rl then w\<lparr>rw_count := rw_count w + 1\<rparr> else w"
    have "accepted ip cs (fst (run_calls allow ?rl' cs)) \<le> nat (rl_limit ?rl' - rw_count ?w')"
      by (rule Cons.IH) (use Cons.prems c True ao allow_wf in auto)
    then show ?thesis using True c ao(1) by (simp add: Let_def split: if_splits)
  qed
qed simp

lemma accepted_interval:
  assumes "rl_wf rl" and "\<forall>c \<in> set cs. \<forall>d \<in> set cs. fst d - fst c < rl_window rl"
  shows "int (accepted ip cs (fst (run_calls allow rl cs))) \<le>
     (case gget (rl_clients rl) ip of None \<Rightarrow> 0 | Some w \<Rightarrow> max 0 (rl_limit rl - rw_count w)) + max 1 (rl_limit rl)"
  using assms
proof (induction cs arbitrary: rl)
  case (Cons c cs)
  obtain now ip' where c: "c = (now, ip')" by (cases c)
  let ?rl' = "snd (allow rl c)"
  let ?left = "\<lambda>rl. case gget (rl_clients rl) ip of None \<Rightarrow> 0 | Some w \<Rightarrow> max 0 (rl_limit rl - rw_count w)"
  have IH: "int (accepted ip cs (fst (run_calls allow ?rl' cs))) \<le> ?left ?rl' + max 1 (rl_limit ?rl')"
    by (rule Cons.IH) (use Cons.prems allow_wf in auto)
  consider (other) "ip' \<noteq> ip" | (new) "ip' = ip" "resets rl now ip" | (cont) "ip' = ip" "\<not> resets rl now ip" by blast
  then show ?case
  proof cases
    case other
    have "?left ?rl' \<le> ?left rl"
      using allow_other_Some [OF Cons.prems(1) other, of now] c by (auto split: option.splits)
    with IH other c show ?thesis by (simp add: Let_def)
  next
    case new
    note ar = allow_reset [OF Cons.prems(1) new(2)]
    have "accepted ip cs (fst (run_calls allow ?rl' cs)) \<le> nat (rl_limit ?rl' - 1)"
      using accepted_open_window [of ?rl' ip "\<lparr>rw_start = now, rw_count = 1\<rparr>" cs] ar Cons.prems allow_wf new(1) c
      by auto
    then show ?thesis using ar(1) new(1) c by (auto simp: Let_def split: option.splits)
  next
    case cont
    from cont(2) obtain w where w: "gget (rl_clients rl) ip = Some w" "now - rw_start w < rl_window rl"
      by (auto simp: resets_def split: option.splits)
    from allow_open [OF Cons.prems(1) w] IH w cont(1) c show ?thesis by (auto simp: Let_def split: if_splits)
  qed
qed (simp split: option.splits)

text \<open>
  C39. The limiter bounds every client: in any run of requests by any clients, starting from a limiter
  in any reachable shape, the requests let through for one client address among calls whose times
  lie within less than one window of each other number fewer than twice the limit, and with a
  fresh limiter at most the limit.  The map of clients is swept on the way without loosening the bound.
\<close>

theorem rate_limit_bound:
  assumes "rl_wf rl" and "1 \<le> rl_limit rl"
    and "\<forall>c \<in> set cs. \<forall>d \<in> set cs. fst d - fst c < rl_window rl"
  shows "int (accepted ip cs (fst (run_calls allow rl cs))) < 2 * rl_limit rl \<and>
    (gget (rl_clients rl) ip = None \<longrightarrow> int (accepted ip cs (fst (run_calls allow rl cs))) \<le> rl_limit rl) \<and>
    rl_wf (snd (run_calls allow rl cs))"
proof -
  have "rl_wf (snd (run_calls allow rl cs))"
    by (rule run_calls_invariant [where P = rl_wf]) (use assms(1) allow_wf in auto)
  moreover have "1 \<le> rw_count w" if "gget (rl_clients rl) ip = Some w" for w
    using assms(1) that by (auto simp: rl_wf_def)
  ultimately show ?thesis
    using accepted_interval [OF assms(1,3), of ip] assms(2) by (auto split: option.splits)
qed

theorem rate_limit_bound_witness:
  "int (accepted ''a'' [(0, ''a''), (1, ''b''), (2, ''a''), (3, ''a'')]
     (fst (run_calls allow (NewRateLimiter 2 60) [(0, ''a''), (1, ''b''), (2, ''a''), (3, ''a'')]))) \<le> 2"
  using rate_limit_bound [of "NewRateLimiter 2 60" "[(0, ''a''), (1, ''b''), (2, ''a''), (3, ''a'')]" "''a''"]
  by (simp add: NewRateLimiter_def rl_wf_def)

section \<open>The admin guard\<close>

text \<open>
  The guard lets a request through exactly when a token is configured and the request carries it as
  its bearer token; every other request gets 401 and leaves the server state as it was.
\<close>

lemma admin_guard:
  "AuthMiddleware getenv next r st =
     (if getenv ''ADMIN_TOKEN'' \<noteq> [] \<and> header_Get r ''Authorization'' = ''Bearer '' @ getenv ''ADMIN_TOKEN''
      then next r st else (fst (AuthMiddleware getenv next r st), st)) \<and>
   (getenv ''ADMIN_TOKEN'' = [] \<or> header_Get r ''Authorization'' \<noteq> ''Bearer '' @ getenv ''ADMIN_TOKEN'' \<longrightarrow>
      w_Status (fst (AuthMiddleware getenv next r st)) = 401)"
proof -
  have "header_Get r ''Authorization'' = ''Bearer '' @ trim_prefix (header_Get r ''Authorization'') ''Bearer ''"
    if "has_prefix (header_Get r ''Authorization'') ''Bearer ''"
    using that by (metis has_prefix_iff trim_prefix_append)
  then show ?thesis
    by (auto simp: AuthMiddleware_def Let_def http_Error_def trim_prefix_def)
qed

end
