(* ===== verification/Fleet.thy ===== *)
theory Fleet
  imports Models Cmdsign
begin

text \<open>
  The agent registry (\<^verbatim>\<open>server/internal/fleet/fleet.go\<close>).  A websocket connection is an opaque
  identifier (pointer equality is equality of identifiers); each method runs under the registry's
  mutex and is one function on the registry.  \<open>fmt\<close> and \<open>parse\<close> are \<^verbatim>\<open>Time.Format\<close> and
  \<^verbatim>\<open>time.Parse\<close> for RFC 3339.
\<close>

section \<open>Definitions\<close>

type_synonym conn = nat

record AgentManager =
  agents :: "(string, conn) gomap"
  details :: "(string, AgentDetails) gomap"
  activeJobs :: "(string, string) gomap"

definition Registry :: AgentManager where
  "Registry = \<lparr>agents = [], details = [], activeJobs = []\<rparr>"

text \<open>The first component is the connection that is closed because it is replaced.\<close>

definition Register ::
  "(time \<Rightarrow> string) \<Rightarrow> time \<Rightarrow> string \<Rightarrow> conn \<Rightarrow> HeartbeatPayload \<Rightarrow> AgentManager \<Rightarrow> conn option \<times> AgentManager" where
  "Register fmt now mac cn p am =
     ((case gget (agents am) mac of Some old \<Rightarrow> if old \<noteq> cn then Some old else None | None \<Rightarrow> None),
      am\<lparr>agents := gput mac cn (agents am),
         details := gput mac
           \<lparr>ad_Hostname = hb_Hostname p, ad_MacAddress = hb_MacAddress p, ad_OS = hb_OS p, ad_Kernel = hb_Kernel p,
            ad_Status = ''Online'', ad_LastHeartbeat = fmt now\<rparr> (details am)\<rparr>)"

definition set_status :: "string \<Rightarrow> string \<Rightarrow> (string, AgentDetails) gomap \<Rightarrow> (string, AgentDetails) gomap" where
  "set_status mac status m =
     (case gget m mac of None \<Rightarrow> m | Some a \<Rightarrow> gput mac (a\<lparr>ad_Status := status\<rparr>) m)"

definition Unregister :: "string \<Rightarrow> AgentManager \<Rightarrow> AgentManager" where
  "Unregister mac am =
     am\<lparr>agents := gdel mac (agents am), activeJobs := gdel mac (activeJobs am),
        details := set_status mac ''offline'' (details am)\<rparr>"

definition UnregisterConn :: "string \<Rightarrow> conn \<Rightarrow> AgentManager \<Rightarrow> bool \<times> AgentManager" where
  "UnregisterConn mac cn am =
     (if gget (agents am) mac \<noteq> Some cn then (False, am)
      else (True, am\<lparr>agents := gdel mac (agents am), activeJobs := gdel mac (activeJobs am),
                     details := set_status mac ''offline'' (details am)\<rparr>))"

definition stale :: "(string \<Rightarrow> time option) \<Rightarrow> time \<Rightarrow> AgentDetails \<Rightarrow> bool" where
  "stale parse cutoff d = (case parse (ad_LastHeartbeat d) of None \<Rightarrow> True | Some seen \<Rightarrow> seen < cutoff)"

definition prune_entry ::
  "(string \<Rightarrow> time option) \<Rightarrow> time \<Rightarrow> AgentManager \<Rightarrow> string \<times> AgentDetails \<Rightarrow> AgentManager" where
  "prune_entry parse cutoff am e =
     (if stale parse cutoff (snd e)
      then am\<lparr>details := gdel (fst e) (details am), agents := gdel (fst e) (agents am),
              activeJobs := gdel (fst e) (activeJobs am)\<rparr>
      else am)"

definition PruneStaleAgents :: "(string \<Rightarrow> time option) \<Rightarrow> time \<Rightarrow> duration \<Rightarrow> AgentManager \<Rightarrow> AgentManager" where
  "PruneStaleAgents parse now ttl am = foldl (prune_entry parse (now - ttl)) am (details am)"

definition GetNodes :: "AgentManager \<Rightarrow> AgentDetails list" where
  "GetNodes am = foldl (\<lambda>ns (_, d). ns @ [d]) [] (details am)"

definition GetStats :: "AgentManager \<Rightarrow> int \<times> int \<times> int" where
  "GetStats am =
     foldl (\<lambda>(n, online, reboot) (_, d).
              let status = to_lower (ad_Status d) in
              (n, (if contains status ''online'' then online + 1 else online),
               (if contains status ''reboot'' then reboot + 1 else reboot)))
       (int (length (details am)), 0, 0) (details am)"

datatype send_error = ErrAgentOffline | ErrWrite

text \<open>
  \<^verbatim>\<open>SendCommand\<close> signs for the node and writes to its current connection; \<open>write_ok\<close> says whether
  the write succeeds.  The result carries what was written and where.
\<close>

definition SendCommand ::
  "ed25519 \<Rightarrow> signing_key \<Rightarrow> time \<Rightarrow> bool \<Rightarrow> string \<Rightarrow> CommandPayload \<Rightarrow> AgentManager \<Rightarrow> send_error + (conn \<times> CommandPayload)" where
  "SendCommand E key now write_ok mac cmd am =
     (let cmd = Sign E key now cmd mac in
      case gget (agents am) mac of
        None \<Rightarrow> Inl ErrAgentOffline
      | Some cn \<Rightarrow> if write_ok then Inr (cn, cmd) else Inl ErrWrite)"

definition AcquireJob :: "string \<Rightarrow> string \<Rightarrow> AgentManager \<Rightarrow> bool \<times> AgentManager" where
  "AcquireJob mac jobID am =
     (case gget (activeJobs am) mac of
        Some _ \<Rightarrow> (False, am)
      | None \<Rightarrow> (True, am\<lparr>activeJobs := gput mac jobID (activeJobs am)\<rparr>))"

definition ReleaseJob :: "string \<Rightarrow> AgentManager \<Rightarrow> AgentManager" where
  "ReleaseJob mac am = am\<lparr>activeJobs := gdel mac (activeJobs am)\<rparr>"

definition Reset :: "AgentManager \<Rightarrow> AgentManager" where
  "Reset am = am\<lparr>agents := [], details := [], activeJobs := []\<rparr>"

definition SetStatus :: "string \<Rightarrow> string \<Rightarrow> AgentManager \<Rightarrow> AgentManager" where
  "SetStatus mac status am = am\<lparr>details := set_status mac status (details am)\<rparr>"

text \<open>The statistics endpoint's completeness figure (\<^verbatim>\<open>HandleStats\<close>).\<close>

definition compliance_percent :: "int \<times> int \<times> int \<Rightarrow> int" where
  "compliance_percent s = (case s of (n, online, reboot) \<Rightarrow> if n > 0 then online * 100 div n else 0)"

section \<open>Lemmas\<close>

lemma gget_set_status:
  "gget (set_status mac s m) k = (if k = mac then map_option (\<lambda>a. a\<lparr>ad_Status := s\<rparr>) (gget m k) else gget m k)"
  by (auto simp: set_status_def split: option.splits)

lemma gwf_set_status: "gwf m \<Longrightarrow> gwf (set_status mac s m)"
  by (auto simp: set_status_def split: option.splits)

lemma GetNodes_eq: "GetNodes am = map snd (details am)"
proof -
  have "foldl (\<lambda>ns (_, d). ns @ [d]) acc m = acc @ map snd m" for acc and m :: "(string \<times> AgentDetails) list"
    by (induction m arbitrary: acc) auto
  from this [of "[]" "details am"] show ?thesis by (simp add: GetNodes_def)
qed

lemma count_loop:
  "foldl (\<lambda>(n, online, reboot) (_, d).
      let status = to_lower (ad_Status d) in
      (n, (if contains status ''online'' then online + 1 else online),
       (if contains status ''reboot'' then reboot + 1 else reboot))) (t, a, b) m =
   (t, a + int (length (filter (\<lambda>d. contains (to_lower (ad_Status d)) ''online'') (map snd m))),
    b + int (length (filter (\<lambda>d. contains (to_lower (ad_Status d)) ''reboot'') (map snd m))))"
  by (induction m arbitrary: a b) (auto simp: Let_def)

definition am_wf :: "AgentManager \<Rightarrow> bool" where
  "am_wf am \<longleftrightarrow> gwf (agents am) \<and> gwf (details am) \<and> gwf (activeJobs am) \<and>
     (\<forall>mac. gget (agents am) mac \<noteq> None \<longrightarrow> gget (details am) mac \<noteq> None)"

lemma Register_wf: "am_wf am \<Longrightarrow> am_wf (snd (Register fmt now mac cn p am))"
  by (auto simp: am_wf_def Register_def)

lemma UnregisterConn_wf: "am_wf am \<Longrightarrow> am_wf (snd (UnregisterConn mac cn am))"
  by (auto simp: am_wf_def UnregisterConn_def gget_set_status gwf_set_status)

lemma Unregister_wf: "am_wf am \<Longrightarrow> am_wf (Unregister mac am)"
  by (auto simp: am_wf_def Unregister_def gget_set_status gwf_set_status)

lemma AcquireJob_wf: "am_wf am \<Longrightarrow> am_wf (snd (AcquireJob mac j am))"
  by (auto simp: am_wf_def AcquireJob_def split: option.splits)

lemma ReleaseJob_wf: "am_wf am \<Longrightarrow> am_wf (ReleaseJob mac am)"
  by (auto simp: am_wf_def ReleaseJob_def)

text \<open>Pruning visits a snapshot of the map while deleting from it; the result is a filter.\<close>

lemma prune_loop:
  "let am' = foldl (prune_entry parse t0) am m
   in gget (details am') k = (if \<exists>d. (k, d) \<in> set m \<and> stale parse t0 d then None else gget (details am) k) \<and>
      gget (agents am') k = (if \<exists>d. (k, d) \<in> set m \<and> stale parse t0 d then None else gget (agents am) k) \<and>
      gget (activeJobs am') k = (if \<exists>d. (k, d) \<in> set m \<and> stale parse t0 d then None else gget (activeJobs am) k)"
  by (induction m arbitrary: am) (auto simp: Let_def prune_entry_def)

lemma prune_gwf:
  "gwf (agents am) \<and> gwf (details am) \<and> gwf (activeJobs am) \<Longrightarrow>
   let am' = foldl (prune_entry parse t0) am m in gwf (agents am') \<and> gwf (details am') \<and> gwf (activeJobs am')"
proof (induction m arbitrary: am)
  case (Cons e m)
  then have "gwf (agents (prune_entry parse t0 am e)) \<and> gwf (details (prune_entry parse t0 am e)) \<and>
      gwf (activeJobs (prune_entry parse t0 am e))" by (simp add: prune_entry_def)
  from Cons.IH [OF this] show ?case by simp
qed simp

lemma PruneStaleAgents_get:
  assumes "am_wf am"
  shows "gget (details (PruneStaleAgents parse now ttl am)) k =
      (case gget (details am) k of None \<Rightarrow> None | Some d \<Rightarrow> if stale parse (now - ttl) d then None else Some d)"
    and "gget (agents (PruneStaleAgents parse now ttl am)) k =
      (case gget (details am) k of None \<Rightarrow> None | Some d \<Rightarrow> if stale parse (now - ttl) d then None else gget (agents am) k)"
proof -
  from assms have wf: "gwf (details am)" and sub: "gget (details am) k = None \<Longrightarrow> gget (agents am) k = None"
    by (auto simp: am_wf_def)
  note loop = prune_loop [of parse "now - ttl" am "details am" k, folded PruneStaleAgents_def, unfolded Let_def]
  show "gget (details (PruneStaleAgents parse now ttl am)) k =
      (case gget (details am) k of None \<Rightarrow> None | Some d \<Rightarrow> if stale parse (now - ttl) d then None else Some d)"
    using loop by (auto simp: gget_Some_in_set [OF wf, symmetric] split: option.splits)
  show "gget (agents (PruneStaleAgents parse now ttl am)) k =
      (case gget (details am) k of None \<Rightarrow> None | Some d \<Rightarrow> if stale parse (now - ttl) d then None else gget (agents am) k)"
    using loop sub by (auto simp: gget_Some_in_set [OF wf, symmetric] split: option.splits)
qed

lemma PruneStaleAgents_wf: "am_wf am \<Longrightarrow> am_wf (PruneStaleAgents parse now ttl am)"
  using PruneStaleAgents_get [of am parse now ttl]
    prune_gwf [of am parse "now - ttl" "details am", folded PruneStaleAgents_def, unfolded Let_def]
  by (auto simp: am_wf_def split: option.splits if_splits)

section \<open>Properties\<close>

text \<open>
  The statistics computed in one pass over the registry equal the counts over the node list
  that \<^verbatim>\<open>GetNodes\<close> would have built, so the completeness figure of the statistics endpoint
  is always between 0 and 100 percent.
\<close>

theorem GetStats_counts:
  "GetStats am =
     (int (length (GetNodes am)),
      int (length (filter (\<lambda>d. contains (to_lower (ad_Status d)) ''online'') (GetNodes am))),
      int (length (filter (\<lambda>d. contains (to_lower (ad_Status d)) ''reboot'') (GetNodes am)))) \<and>
   0 \<le> compliance_percent (GetStats am) \<and> compliance_percent (GetStats am) \<le> 100"
proof -
  have stats: "GetStats am =
     (int (length (GetNodes am)),
      int (length (filter (\<lambda>d. contains (to_lower (ad_Status d)) ''online'') (GetNodes am))),
      int (length (filter (\<lambda>d. contains (to_lower (ad_Status d)) ''reboot'') (GetNodes am))))"
    by (simp add: GetStats_def count_loop GetNodes_eq)
  have "a * 100 div n \<le> 100" if "0 < n" "a \<le> n" for a n :: int
  proof -
    have "a * 100 div n \<le> n * 100 div n" using that by (intro zdiv_mono1) auto
    then show ?thesis using that by simp
  qed
  moreover have "0 \<le> a * 100 div n" if "0 < n" "0 \<le> a" for a n :: int
    using that by (simp add: pos_imp_zdiv_nonneg_iff)
  ultimately show ?thesis
    using stats length_filter_le [of "\<lambda>d. contains (to_lower (ad_Status d)) ''online''" "GetNodes am"]
    by (simp add: compliance_percent_def)
qed

text \<open>
  Pruning removes exactly the agents whose last heartbeat is unreadable or older than the limit,
  from the details and from the connections at once, keeps every other agent as it was, and
  keeps the registry consistent (a connected agent always has details).
\<close>

theorem PruneStaleAgents_exact:
  assumes "am_wf am"
  shows "am_wf (PruneStaleAgents parse now ttl am) \<and>
    (\<forall>mac. case gget (details am) mac of
        None \<Rightarrow> gget (details (PruneStaleAgents parse now ttl am)) mac = None \<and>
                gget (agents (PruneStaleAgents parse now ttl am)) mac = None
      | Some d \<Rightarrow>
          if stale parse (now - ttl) d
          then gget (details (PruneStaleAgents parse now ttl am)) mac = None \<and>
               gget (agents (PruneStaleAgents parse now ttl am)) mac = None
          else gget (details (PruneStaleAgents parse now ttl am)) mac = Some d \<and>
               gget (agents (PruneStaleAgents parse now ttl am)) mac = gget (agents am) mac)"
  using PruneStaleAgents_wf [OF assms] PruneStaleAgents_get [OF assms] by (auto split: option.splits)

theorem PruneStaleAgents_exact_witness:
  "gget (details (PruneStaleAgents (\<lambda>_. Some 0) 100 50
     (snd (Register (\<lambda>_. ''t'') 0 ''m'' 1 \<lparr>hb_MacAddress = ''m'', hb_Hostname = ''h'', hb_OS = ''o'', hb_OSVersion = ''v'',
        hb_Kernel = ''k'', hb_RebootNeeded = False\<rparr> Registry)))) ''m'' = None"
  (is "gget (details (PruneStaleAgents _ _ _ ?am)) _ = None")
proof -
  have wf: "am_wf ?am" by (rule Register_wf) (simp add: am_wf_def Registry_def)
  obtain d where d: "gget (details ?am) ''m'' = Some d" by (simp add: Register_def)
  from PruneStaleAgents_exact [OF wf, of "\<lambda>_. Some 0" 100 50, THEN conjunct2, THEN spec, of "''m''", unfolded d]
  show ?thesis by (simp add: stale_def)
qed

end
