(* ===== verification/Worker_Pool.thy ===== *)
theory Worker_Pool
  imports Fleet "HOL-Library.Multiset"
begin

text \<open>
  The job pool (\<^verbatim>\<open>server/internal/orchestration/workers.go\<close>) as a step relation.  The state holds the
  queue, the pause flags, the group semaphores, the control point of every worker, the goroutines
  that wait for a maintenance window or for an expiry, and the registry; an event is one atomic
  action of a worker, of such a goroutine, of a caller of the pool, or of a websocket session that
  changes the registry.  \<open>pool_step\<close> gives \<open>None\<close> when the action is blocked.  Clock readings and
  the outcome of a write are part of the event, so every interleaving and every timing is a
  sequence of events.

  Two ghost fields, \<open>submitted\<close> and \<open>finished\<close>, record jobs that entered the pool and how each left
  it.  The invariants show that no job is lost, that a group never has more than two commands in
  flight, that maintenance windows are honoured, and that a node has one job at a time as long as
  its connection stays; without that last proviso it does not, which a concrete run shows.
\<close>

section \<open>State\<close>

text \<open>
  Control points of a worker: at the outer select, in the drain loop after stop, and inside
  \<^verbatim>\<open>processJob\<close> before the pause gate, before the window check, blocked on the semaphore, and
  holding it.  The flag says whether the worker returns to the drain loop.
\<close>

datatype worker =
    WIdle
  | WDrain
  | WPause bool Job
  | WWindow bool Job
  | WSem bool Job time
  | WSend bool Job time
  | WExit

datatype fate = Conflict | WindowEnded | WindowShort | SendFailed send_error | Sent conn CommandPayload
  | Cancelled | RequeueFailed

record pool =
  jobQueue :: "Job list"
  groupSemaphores :: "(int, nat) gomap"
  pausedGroups :: "(int, bool) gomap"
  stopChan_closed :: bool
  workers :: "worker list"
  delayed :: "Job list"
  monitors :: "Job list"
  webhook_events :: "(string \<times> string \<times> string) list"
  registry :: AgentManager
  submitted :: "Job multiset"
  finished :: "(Job \<times> fate) multiset"

definition queueCapacity :: nat where "queueCapacity = 100"
definition groupLimit :: nat where "groupLimit = 2"

definition NewWorkerPool :: "AgentManager \<Rightarrow> nat \<Rightarrow> pool" where
  "NewWorkerPool am maxWorkers =
     \<lparr>jobQueue = [], groupSemaphores = [], pausedGroups = [], stopChan_closed = False,
      workers = replicate maxWorkers WIdle, delayed = [], monitors = [], webhook_events = [],
      registry = am, submitted = {#}, finished = {#}\<rparr>"

section \<open>Operations\<close>

definition Stop :: "pool \<Rightarrow> pool option" where
  "Stop wp =
     (if stopChan_closed wp then None
      else Some (wp\<lparr>pausedGroups := gmap (\<lambda>_ _. False) (pausedGroups wp), stopChan_closed := True\<rparr>))"

definition enqueue :: "Job \<Rightarrow> pool \<Rightarrow> pool option" where
  "enqueue job wp =
     (if length (jobQueue wp) < queueCapacity then Some (wp\<lparr>jobQueue := jobQueue wp @ [job]\<rparr>) else None)"

definition Submit :: "Job \<Rightarrow> pool \<Rightarrow> pool option" where
  "Submit job wp = map_option (\<lambda>wp. wp\<lparr>submitted := add_mset job (submitted wp)\<rparr>) (enqueue job wp)"

definition PauseGroup :: "int \<Rightarrow> pool \<Rightarrow> pool" where
  "PauseGroup g wp = wp\<lparr>pausedGroups := gput g True (pausedGroups wp)\<rparr>"

definition ResumeGroup :: "int \<Rightarrow> pool \<Rightarrow> pool" where
  "ResumeGroup g wp = wp\<lparr>pausedGroups := gput g False (pausedGroups wp)\<rparr>"

definition paused :: "pool \<Rightarrow> int \<Rightarrow> bool" where
  "paused wp g = (gget (pausedGroups wp) g = Some True)"

definition goto :: "nat \<Rightarrow> worker \<Rightarrow> pool \<Rightarrow> pool" where
  "goto i w wp = wp\<lparr>workers := (workers wp)[i := w]\<rparr>"

definition loop_point :: "bool \<Rightarrow> worker" where
  "loop_point draining = (if draining then WDrain else WIdle)"

definition finish :: "Job \<Rightarrow> fate \<Rightarrow> pool \<Rightarrow> pool" where
  "finish job f wp = wp\<lparr>finished := add_mset (job, f) (finished wp)\<rparr>"

definition release :: "Job \<Rightarrow> pool \<Rightarrow> pool" where
  "release job wp = wp\<lparr>registry := ReleaseJob (j_NodeMac job) (registry wp)\<rparr>"

text \<open>\<^verbatim>\<open>processJob\<close> up to the pause gate: a node that already has an active job skips this one.\<close>

definition begin_job :: "nat \<Rightarrow> bool \<Rightarrow> Job \<Rightarrow> pool \<Rightarrow> pool" where
  "begin_job i draining job wp =
     (case AcquireJob (j_NodeMac job) (j_ID job) (registry wp) of
        (False, am) \<Rightarrow> goto i (loop_point draining) (finish job Conflict (wp\<lparr>registry := am\<rparr>))
      | (True, am) \<Rightarrow> goto i (WPause draining job) (wp\<lparr>registry := am\<rparr>))"

text \<open>The maintenance window check at the clock reading \<open>now\<close>, and the group semaphore's creation.\<close>

definition window_check :: "nat \<Rightarrow> bool \<Rightarrow> Job \<Rightarrow> time \<Rightarrow> pool \<Rightarrow> pool" where
  "window_check i draining job now wp =
     (let leave = (\<lambda>wp. goto i (loop_point draining) (release job wp));
          proceed = goto i (WSem draining job now)
            (case gget (groupSemaphores wp) (j_GroupID job) of
               None \<Rightarrow> wp\<lparr>groupSemaphores := gput (j_GroupID job) 0 (groupSemaphores wp)\<rparr>
             | Some _ \<Rightarrow> wp) in
      case j_MaintenanceWindow job of
        None \<Rightarrow> proceed
      | Some w \<Rightarrow>
          if mw_EndTime w < now then leave (finish job WindowEnded wp)
          else if mw_EndTime w - now < 15 * minute then leave (finish job WindowShort wp)
          else if now < mw_StartTime w then leave (wp\<lparr>delayed := job # delayed wp\<rparr>)
          else proceed)"

definition job_command :: "Job \<Rightarrow> CommandPayload" where
  "job_command job =
     \<lparr>cp_ID = j_ID job, cp_Action = j_Action job, cp_Packages = j_Packages job,
      cp_PrePatchScript = j_PrePatchScript job, cp_PostPatchScript = j_PostPatchScript job,
      cp_HealthCheckCommand = j_HealthCheckCommand job, cp_NodeID = [], cp_ExpiresAt = 0, cp_Signature = []\<rparr>"

definition take_slot :: "int \<Rightarrow> pool \<Rightarrow> pool option" where
  "take_slot g wp =
     (case gget (groupSemaphores wp) g of
        None \<Rightarrow> None
      | Some n \<Rightarrow> if n < groupLimit then Some (wp\<lparr>groupSemaphores := gput g (n + 1) (groupSemaphores wp)\<rparr>) else None)"

definition give_slot :: "int \<Rightarrow> pool \<Rightarrow> pool" where
  "give_slot g wp =
     (case gget (groupSemaphores wp) g of
        None \<Rightarrow> wp
      | Some n \<Rightarrow> wp\<lparr>groupSemaphores := gput g (n - 1) (groupSemaphores wp)\<rparr>)"

text \<open>The dispatch: sign, write, notify; then the deferred semaphore and job releases.\<close>

definition dispatch :: "ed25519 \<Rightarrow> signing_key \<Rightarrow> nat \<Rightarrow> bool \<Rightarrow> Job \<Rightarrow> time \<Rightarrow> bool \<Rightarrow> pool \<Rightarrow> pool" where
  "dispatch E key i draining job now write_ok wp =
     (let wp1 = (case SendCommand E key now write_ok (j_NodeMac job) (job_command job) (registry wp) of
            Inl e \<Rightarrow> finish job (SendFailed e)
              (wp\<lparr>webhook_events := webhook_events wp @ [(''job_failed'', j_ID job, j_NodeMac job)]\<rparr>)
          | Inr (cn, cmd) \<Rightarrow> finish job (Sent cn cmd)
              (wp\<lparr>monitors := job\<lparr>j_StartTime := now\<rparr> # monitors wp,
                  webhook_events := webhook_events wp @ [(''job_started'', j_ID job, j_NodeMac job)]\<rparr>))
      in goto i (loop_point draining) (release job (give_slot (j_GroupID job) wp1)))"

datatype pool_event =
    ESubmit Job
  | EPause int
  | EResume int
  | EStop
  | EPick nat
  | ESeeStop nat
  | EDrainExit nat
  | EGate nat
  | EWindow nat time
  | ESlot nat
  | EDispatch nat time bool
  | ETimer Job bool
  | ETimerStop Job
  | EMonitorDone Job
  | ERegister time string conn HeartbeatPayload
  | EUnregister string conn
  | EPrune time duration

definition remove_first :: "Job \<Rightarrow> Job list \<Rightarrow> Job list" where
  "remove_first j js = remove1 j js"

text \<open>
  One action.  \<open>ETimer job ok\<close> is the end of a delay, \<open>ok\<close> telling whether the queue accepts the job
  within the submission timeout; \<open>ETimerStop\<close> the cancellation of a delay by stop.
\<close>

definition pool_step :: "ed25519 \<Rightarrow> signing_key \<Rightarrow> (time \<Rightarrow> string) \<Rightarrow> (string \<Rightarrow> time option) \<Rightarrow>
    pool_event \<Rightarrow> pool \<Rightarrow> pool option" where
  "pool_step E key fmt parse ev wp =
     (case ev of
        ESubmit job \<Rightarrow> Submit job wp
      | EPause g \<Rightarrow> Some (PauseGroup g wp)
      | EResume g \<Rightarrow> Some (ResumeGroup g wp)
      | EStop \<Rightarrow> Stop wp
      | EPick i \<Rightarrow>
          (if i < length (workers wp) then
             (case (workers wp ! i, jobQueue wp) of
                (WIdle, job # q) \<Rightarrow> Some (begin_job i False job (wp\<lparr>jobQueue := q\<rparr>))
              | (WDrain, job # q) \<Rightarrow> Some (begin_job i True job (wp\<lparr>jobQueue := q\<rparr>))
              | _ \<Rightarrow> None)
           else None)
      | ESeeStop i \<Rightarrow>
          (if i < length (workers wp) \<and> workers wp ! i = WIdle \<and> stopChan_closed wp then Some (goto i WDrain wp) else None)
      | EDrainExit i \<Rightarrow>
          (if i < length (workers wp) \<and> workers wp ! i = WDrain \<and> jobQueue wp = [] then Some (goto i WExit wp) else None)
      | EGate i \<Rightarrow>
          (if i < length (workers wp) then
             (case workers wp ! i of
                WPause d job \<Rightarrow> if paused wp (j_GroupID job) then None else Some (goto i (WWindow d job) wp)
              | _ \<Rightarrow> None)
           else None)
      | EWindow i now \<Rightarrow>
          (if i < length (workers wp) then
             (case workers wp ! i of WWindow d job \<Rightarrow> Some (window_check i d job now wp) | _ \<Rightarrow> None)
           else None)
      | ESlot i \<Rightarrow>
          (if i < length (workers wp) then
             (case workers wp ! i of
                WSem d job t \<Rightarrow> map_option (goto i (WSend d job t)) (take_slot (j_GroupID job) wp)
              | _ \<Rightarrow> None)
           else None)
      | EDispatch i now write_ok \<Rightarrow>
          (if i < length (workers wp) then
             (case workers wp ! i of WSend d job t \<Rightarrow> Some (dispatch E key i d job now write_ok wp) | _ \<Rightarrow> None)
           else None)
      | ETimer job ok \<Rightarrow>
          (if job \<in> set (delayed wp) then
             (if ok then map_option (\<lambda>wp. wp\<lparr>delayed := remove_first job (delayed wp)\<rparr>) (enqueue job wp)
              else Some (finish job RequeueFailed (wp\<lparr>delayed := remove_first job (delayed wp)\<rparr>)))
           else None)
      | ETimerStop job \<Rightarrow>
          (if job \<in> set (delayed wp) \<and> stopChan_closed wp
           then Some (finish job Cancelled (wp\<lparr>delayed := remove_first job (delayed wp)\<rparr>)) else None)
      | EMonitorDone job \<Rightarrow>
          (if job \<in> set (monitors wp) then Some (wp\<lparr>monitors := remove_first job (monitors wp)\<rparr>) else None)
      | ERegister now mac cn p \<Rightarrow> Some (wp\<lparr>registry := snd (Register fmt now mac cn p (registry wp))\<rparr>)
      | EUnregister mac cn \<Rightarrow> Some (wp\<lparr>registry := snd (UnregisterConn mac cn (registry wp))\<rparr>)
      | EPrune now ttl \<Rightarrow> Some (wp\<lparr>registry := PruneStaleAgents parse now ttl (registry wp)\<rparr>))"

text \<open>Reachable states under a filter on the events that may occur.\<close>

inductive pool_reach ::
  "ed25519 \<Rightarrow> signing_key \<Rightarrow> (time \<Rightarrow> string) \<Rightarrow> (string \<Rightarrow> time option) \<Rightarrow> (pool_event \<Rightarrow> bool) \<Rightarrow> pool \<Rightarrow> bool"
  for E key fmt parse ok where
  start: "pool_reach E key fmt parse ok (NewWorkerPool Registry n)"
| step: "pool_reach E key fmt parse ok wp \<Longrightarrow> ok ev \<Longrightarrow> pool_step E key fmt parse ev wp = Some wp' \<Longrightarrow>
    pool_reach E key fmt parse ok wp'"

fun run_pool :: "ed25519 \<Rightarrow> signing_key \<Rightarrow> (time \<Rightarrow> string) \<Rightarrow> (string \<Rightarrow> time option) \<Rightarrow> pool_event list \<Rightarrow> pool \<Rightarrow> pool option" where
  "run_pool E key fmt parse [] wp = Some wp"
| "run_pool E key fmt parse (ev # evs) wp =
     (case pool_step E key fmt parse ev wp of None \<Rightarrow> None | Some wp' \<Rightarrow> run_pool E key fmt parse evs wp')"

lemma run_pool_reach:
  "pool_reach E key fmt parse ok wp \<Longrightarrow> run_pool E key fmt parse evs wp = Some wp' \<Longrightarrow> \<forall>ev \<in> set evs. ok ev \<Longrightarrow>
     pool_reach E key fmt parse ok wp'"
  by (induction evs arbitrary: wp) (auto split: option.splits intro: pool_reach.step)

section \<open>Invariants\<close>

fun job_of :: "worker \<Rightarrow> Job option" where
  "job_of (WPause _ j) = Some j"
| "job_of (WWindow _ j) = Some j"
| "job_of (WSem _ j _) = Some j"
| "job_of (WSend _ j _) = Some j"
| "job_of _ = None"

fun sending :: "worker \<Rightarrow> int \<Rightarrow> bool" where
  "sending (WSend _ j _) g = (j_GroupID j = g)"
| "sending _ g = False"

definition jobs_of :: "worker \<Rightarrow> Job multiset" where
  "jobs_of w = (case job_of w of None \<Rightarrow> {#} | Some j \<Rightarrow> {#j#})"

definition in_flight :: "pool \<Rightarrow> Job multiset" where
  "in_flight wp = sum_mset (image_mset jobs_of (mset (workers wp)))"

definition senders :: "pool \<Rightarrow> int \<Rightarrow> nat" where
  "senders wp g = size (filter_mset (\<lambda>w. sending w g) (mset (workers wp)))"

definition conserved :: "pool \<Rightarrow> bool" where
  "conserved wp \<longleftrightarrow>
     submitted wp = mset (jobQueue wp) + mset (delayed wp) + in_flight wp + image_mset fst (finished wp)"

definition occupied :: "pool \<Rightarrow> int \<Rightarrow> nat" where
  "occupied wp g = (case gget (groupSemaphores wp) g of None \<Rightarrow> 0 | Some n \<Rightarrow> n)"

definition slots_inv :: "pool \<Rightarrow> bool" where
  "slots_inv wp \<longleftrightarrow>
     length (jobQueue wp) \<le> queueCapacity \<and>
     (\<forall>g. occupied wp g = senders wp g) \<and> (\<forall>g. senders wp g \<le> groupLimit)"

definition window_ok :: "Job \<Rightarrow> time \<Rightarrow> bool" where
  "window_ok j t \<longleftrightarrow>
     (case j_MaintenanceWindow j of None \<Rightarrow> True
      | Some w \<Rightarrow> mw_StartTime w \<le> t \<and> t + 15 * minute \<le> mw_EndTime w)"

text \<open>\<open>K j t\<close>: some worker has checked the window of \<open>j\<close> at time \<open>t\<close>.\<close>

fun checked :: "(Job \<Rightarrow> time \<Rightarrow> bool) \<Rightarrow> worker \<Rightarrow> bool" where
  "checked K (WSem _ j t) = K j t"
| "checked K (WSend _ j t) = K j t"
| "checked K _ = True"

fun sent_ok :: "(Job \<Rightarrow> time \<Rightarrow> bool) \<Rightarrow> Job \<times> fate \<Rightarrow> bool" where
  "sent_ok K (j, Sent _ _) = (\<exists>t. K j t)"
| "sent_ok K _ = True"

definition windows_inv :: "(Job \<Rightarrow> time \<Rightarrow> bool) \<Rightarrow> pool \<Rightarrow> bool" where
  "windows_inv K wp \<longleftrightarrow> list_all (checked K) (workers wp) \<and> (\<forall>f \<in># finished wp. sent_ok K f)"

lemma checked_mono: "(\<And>j t. K j t \<Longrightarrow> K' j t) \<Longrightarrow> checked K w \<Longrightarrow> checked K' w"
  by (cases w) auto

lemma sent_ok_mono: "(\<And>j t. K j t \<Longrightarrow> K' j t) \<Longrightarrow> sent_ok K f \<Longrightarrow> sent_ok K' f"
  by (cases "(K, f)" rule: sent_ok.cases) auto

lemma windows_mono: "(\<And>j t. K j t \<Longrightarrow> K' j t) \<Longrightarrow> windows_inv K wp \<Longrightarrow> windows_inv K' wp"
  unfolding windows_inv_def list_all_iff using checked_mono [of K K'] sent_ok_mono [of K K'] by blast

text \<open>Replacing one worker's control point.\<close>

lemma pick_worker:
  assumes "i < length ws"
  obtains M where "mset ws = add_mset (ws ! i) M" and "\<And>v. mset (ws[i := v]) = add_mset v M"
  using assms by (metis insert_DiffM mset_update nth_mem_mset)

lemmas pool_defs [step_defs] =
  pool_step_def Submit_def enqueue_def PauseGroup_def ResumeGroup_def Stop_def begin_job_def window_check_def
  dispatch_def take_slot_def give_slot_def goto_def finish_def release_def loop_point_def remove_first_def

lemma jobs_of_simps [simp]:
  "jobs_of WIdle = {#}" "jobs_of WDrain = {#}" "jobs_of WExit = {#}"
  "jobs_of (WPause d j) = {#j#}" "jobs_of (WWindow d j) = {#j#}" "jobs_of (WSem d j t) = {#j#}" "jobs_of (WSend d j t) = {#j#}"
  by (simp_all add: jobs_of_def)

lemma conserved_step:
  assumes "conserved wp" and "pool_step E key fmt parse ev wp = Some wp'"
  shows "conserved wp'"
proof -
  have upd: thesis if "i < length (workers wp)"
    and "\<And>M. mset (workers wp) = add_mset (workers wp ! i) M \<Longrightarrow> (\<And>v. mset ((workers wp)[i := v]) = add_mset v M) \<Longrightarrow> thesis"
    for i thesis
    using that pick_worker by metis
  show ?thesis
  proof (cases ev)
    case (EPick i)
    with assms show ?thesis
      by (auto simp: step_defs conserved_def in_flight_def split: if_splits worker.splits list.splits prod.splits bool.splits
          elim!: upd)
  next
    case (EWindow i t)
    with assms show ?thesis
      by (auto simp: step_defs conserved_def in_flight_def Let_def split: if_splits worker.splits option.splits
          elim!: upd)
  next
    case (EDispatch i t b)
    with assms show ?thesis
      by (auto simp: step_defs conserved_def in_flight_def Let_def split: if_splits worker.splits option.splits sum.splits
          elim!: upd)
  qed (use assms in \<open>auto simp: step_defs conserved_def in_flight_def split: if_splits worker.splits option.splits
          elim!: upd\<close>)
qed

lemma senders_update:
  assumes "i < length (workers wp)" and "workers wp' = (workers wp)[i := v]"
  shows "senders wp' g + of_bool (sending (workers wp ! i) g) = senders wp g + of_bool (sending v g)"
proof -
  obtain M where "mset (workers wp) = add_mset (workers wp ! i) M" "\<And>v. mset ((workers wp)[i := v]) = add_mset v M"
    using pick_worker [OF assms(1)] by metis
  then show ?thesis by (simp add: senders_def assms(2))
qed

lemma senders_same: "workers wp' = workers wp \<Longrightarrow> senders wp' g = senders wp g"
  by (simp add: senders_def)

lemma slots_keep:
  assumes "slots_inv wp" and "length (jobQueue wp') \<le> queueCapacity"
    and "\<And>g. senders wp' g = senders wp g"
    and "\<And>g. occupied wp' g = occupied wp g"
  shows "slots_inv wp'"
  using assms by (simp add: slots_inv_def)

lemma slots_step:
  assumes inv: "slots_inv wp" and st: "pool_step E key fmt parse ev wp = Some wp'"
  shows "slots_inv wp'"
proof -
  from inv have q: "length (jobQueue wp) \<le> queueCapacity" by (simp add: slots_inv_def)
  have upd: "workers wp' = (workers wp)[i := v] \<Longrightarrow> i < length (workers wp) \<Longrightarrow> (\<And>g. \<not> sending (workers wp ! i) g) \<Longrightarrow>
      (\<And>g. \<not> sending v g) \<Longrightarrow> senders wp' g = senders wp g" for i v g
    using senders_update [of i wp wp' v g] by simp
  show ?thesis
  proof (cases ev)
    case (EPick i)
    with st show ?thesis
      by (intro slots_keep [OF inv] upd [of i "workers wp' ! i"])
        (use q in \<open>auto simp: step_defs occupied_def split: if_splits worker.splits list.splits prod.splits bool.splits\<close>)
  next
    case (EWindow i t)
    with st show ?thesis
      by (intro slots_keep [OF inv] upd [of i "workers wp' ! i"])
        (use q in \<open>auto simp: step_defs occupied_def Let_def split: if_splits worker.splits option.splits\<close>)
  next
    case (ESlot i)
    with st obtain d j t n where s: "i < length (workers wp)" "workers wp ! i = WSem d j t"
      "gget (groupSemaphores wp) (j_GroupID j) = Some n" "n < groupLimit"
      "wp' = goto i (WSend d j t) (wp\<lparr>groupSemaphores := gput (j_GroupID j) (n + 1) (groupSemaphores wp)\<rparr>)"
      by (auto simp: pool_step_def take_slot_def split: if_splits worker.splits option.splits)
    then have "senders wp' g = senders wp g + of_bool (g = j_GroupID j)" for g
      using senders_update [of i wp wp' "WSend d j t" g] by (auto simp: goto_def)
    moreover have "occupied wp' g = occupied wp g + of_bool (g = j_GroupID j)" for g
      using s by (simp add: occupied_def goto_def)
    moreover have "occupied wp (j_GroupID j) < groupLimit" using s(3,4) by (simp add: occupied_def)
    ultimately show ?thesis using inv s(5) by (auto simp: slots_inv_def goto_def)
  next
    case (EDispatch i t0 b)
    with st obtain d j t where s: "i < length (workers wp)" "workers wp ! i = WSend d j t"
      "wp' = dispatch E key i d j t0 b wp"
      by (auto simp: pool_step_def split: if_splits worker.splits)
    then have w: "workers wp' = (workers wp)[i := loop_point d]" "jobQueue wp' = jobQueue wp"
      and sem: "groupSemaphores wp' = groupSemaphores (give_slot (j_GroupID j) wp)"
      by (auto simp: dispatch_def Let_def goto_def release_def give_slot_def finish_def split: option.splits sum.splits)
    have "senders wp' g + of_bool (g = j_GroupID j) = senders wp g" for g
      using senders_update [OF s(1) w(1), of g] s(2) by (auto simp: loop_point_def)
    then have eq: "senders wp' g = senders wp g - of_bool (g = j_GroupID j)" for g by (metis add_diff_cancel_right')
    have "occupied wp' g = occupied wp g - of_bool (g = j_GroupID j)" for g
      by (auto simp: occupied_def sem give_slot_def split: option.splits)
    with inv w(2) eq show ?thesis by (auto simp: slots_inv_def intro: le_trans [OF diff_le_self])
  next
    case (ESeeStop i)
    with st show ?thesis
      by (intro slots_keep [OF inv] upd [of i WDrain]) (use q in \<open>auto simp: step_defs occupied_def split: if_splits\<close>)
  next
    case (EDrainExit i)
    with st show ?thesis
      by (intro slots_keep [OF inv] upd [of i WExit]) (use q in \<open>auto simp: step_defs occupied_def split: if_splits\<close>)
  next
    case (EGate i)
    with st show ?thesis
      by (intro slots_keep [OF inv] upd [of i "workers wp' ! i"])
        (use q in \<open>auto simp: step_defs occupied_def split: if_splits worker.splits\<close>)
  qed (use q st in \<open>auto simp: step_defs occupied_def split: if_splits option.splits
      intro!: slots_keep [OF inv] senders_same\<close>)
qed

lemma list_all_update: "list_all P ws \<Longrightarrow> P v \<Longrightarrow> list_all P (ws[i := v])"
  using set_update_subset_insert [of ws i v] by (auto simp: list_all_iff)

lemma windows_step:
  assumes inv: "windows_inv K wp" and st: "pool_step E key fmt parse ev wp = Some wp'"
    and new: "\<And>i t d j. ev = EWindow i t \<Longrightarrow> i < length (workers wp) \<Longrightarrow> workers wp ! i = WWindow d j \<Longrightarrow>
      window_ok j t \<Longrightarrow> K j t"
  shows "windows_inv K wp'"
proof -
  note defs = step_defs windows_inv_def Let_def
  have chk: "i < length (workers wp) \<Longrightarrow> checked K (workers wp ! i)" for i
    using inv by (auto simp: windows_inv_def list_all_length)
  show ?thesis
  proof (cases ev)
    case (EPick i)
    with inv st show ?thesis
      by (auto simp: defs split: if_splits worker.splits list.splits prod.splits bool.splits intro!: list_all_update)
  next
    case (EWindow i t)
    with st obtain d j where s: "i < length (workers wp)" "workers wp ! i = WWindow d j" "wp' = window_check i d j t wp"
      by (auto simp: pool_step_def split: if_splits worker.splits)
    have k: "window_ok j t \<Longrightarrow> K j t" by (rule new [OF EWindow s(1,2)])
    from inv s(3) show ?thesis
      by (auto simp: window_check_def windows_inv_def Let_def goto_def release_def finish_def loop_point_def window_ok_def
          split: if_splits option.splits intro!: list_all_update k)
  next
    case (ESlot i)
    with inv st chk [of i] show ?thesis
      by (auto simp: defs split: if_splits worker.splits option.splits intro!: list_all_update)
  next
    case (EDispatch i t b)
    with inv st chk [of i] show ?thesis
      by (auto simp: defs split: if_splits worker.splits option.splits sum.splits intro!: list_all_update) metis+
  qed (use inv st in \<open>auto simp: defs split: if_splits worker.splits option.splits intro!: list_all_update\<close>)
qed

text \<open>A window check that happened in a run: the event, and the job its worker held.\<close>

definition window_checked ::
  "(pool_event list \<Rightarrow> pool option) \<Rightarrow> pool_event list \<Rightarrow> Job \<Rightarrow> time \<Rightarrow> bool" where
  "window_checked run evs j t \<longleftrightarrow>
     (\<exists>pre i post wp d. evs = pre @ EWindow i t # post \<and> run pre = Some wp \<and> i < length (workers wp) \<and>
        workers wp ! i = WWindow d j \<and> window_ok j t)"

lemma run_pool_append:
  "run_pool E key fmt parse (xs @ ys) wp =
     (case run_pool E key fmt parse xs wp of None \<Rightarrow> None | Some wp' \<Rightarrow> run_pool E key fmt parse ys wp')"
  by (induction xs arbitrary: wp) (auto split: option.splits)

lemma run_windows:
  assumes "run_pool E key fmt parse evs (NewWorkerPool am n) = Some wp"
  shows "windows_inv (window_checked (\<lambda>pre. run_pool E key fmt parse pre (NewWorkerPool am n)) evs) wp"
  using assms
proof (induction evs arbitrary: wp rule: rev_induct)
  case Nil
  then show ?case by (auto simp: windows_inv_def NewWorkerPool_def list_all_iff)
next
  case (snoc ev evs)
  let ?K = "window_checked (\<lambda>pre. run_pool E key fmt parse pre (NewWorkerPool am n))"
  from snoc.prems obtain wp1 where run: "run_pool E key fmt parse evs (NewWorkerPool am n) = Some wp1"
    and st: "pool_step E key fmt parse ev wp1 = Some wp"
    by (auto simp: run_pool_append split: option.splits)
  have mono: "?K evs j t \<Longrightarrow> ?K (evs @ [ev]) j t" for j t
    by (force simp: window_checked_def)
  show ?case
  proof (rule windows_step [OF windows_mono [OF mono snoc.IH [OF run]] st])
    fix i t d j
    assume "ev = EWindow i t" "i < length (workers wp1)" "workers wp1 ! i = WWindow d j" "window_ok j t"
    with run show "?K (evs @ [ev]) j t" unfolding window_checked_def by blast
  qed
qed

subsection \<open>One job per node\<close>

definition held_nodes :: "pool \<Rightarrow> string multiset" where
  "held_nodes wp = image_mset j_NodeMac (in_flight wp)"

text \<open>The nodes that workers hold are pairwise different, and each is marked busy in the registry.\<close>

definition exclusive :: "pool \<Rightarrow> bool" where
  "exclusive wp \<longleftrightarrow>
     (\<forall>mac. count (held_nodes wp) mac \<le> 1) \<and>
     (\<forall>mac. mac \<in># held_nodes wp \<longrightarrow> gget (activeJobs (registry wp)) mac \<noteq> None)"

definition keeps_connections :: "pool_event \<Rightarrow> bool" where
  "keeps_connections ev = (case ev of EUnregister _ _ \<Rightarrow> False | EPrune _ _ \<Rightarrow> False | _ \<Rightarrow> True)"

lemma in_flight_update:
  assumes "i < length (workers wp)" and "workers wp' = (workers wp)[i := v]"
  shows "in_flight wp' + jobs_of (workers wp ! i) = in_flight wp + jobs_of v"
proof -
  obtain M where "mset (workers wp) = add_mset (workers wp ! i) M" "\<And>v. mset ((workers wp)[i := v]) = add_mset v M"
    using pick_worker [OF assms(1)] by metis
  then show ?thesis by (simp add: in_flight_def assms(2))
qed

lemma held_update:
  assumes "i < length (workers wp)" and "workers wp' = (workers wp)[i := v]"
  shows "held_nodes wp' + image_mset j_NodeMac (jobs_of (workers wp ! i)) =
     held_nodes wp + image_mset j_NodeMac (jobs_of v)"
  using in_flight_update [OF assms] by (metis held_nodes_def image_mset_union)

lemma exclusive_same:
  assumes "exclusive wp" and "held_nodes wp' = held_nodes wp"
    and "\<And>mac. gget (activeJobs (registry wp)) mac \<noteq> None \<Longrightarrow> gget (activeJobs (registry wp')) mac \<noteq> None"
  shows "exclusive wp'"
  using assms by (auto simp: exclusive_def)

lemma exclusive_drop:
  assumes "exclusive wp" and "add_mset mac (held_nodes wp') = held_nodes wp"
    and "activeJobs (registry wp') = gdel mac (activeJobs (registry wp))"
  shows "exclusive wp'"
proof -
  have c: "count (held_nodes wp) m = count (held_nodes wp') m + of_bool (m = mac)" for m
    using assms(2) [symmetric] by simp
  have le: "count (held_nodes wp) m \<le> 1" for m using assms(1) by (simp add: exclusive_def)
  have zero: "count (held_nodes wp') mac = 0" using le [of mac] c [of mac] by simp
  have one: "count (held_nodes wp') m \<le> 1" for m using le [of m] c [of m] by linarith
  have "gget (activeJobs (registry wp')) m \<noteq> None" if "m \<in># held_nodes wp'" for m
  proof -
    from that zero have "m \<noteq> mac" using not_in_iff by metis
    moreover from that assms(2) have "m \<in># held_nodes wp" by (metis union_iff add_mset_add_single)
    ultimately show ?thesis using assms(1,3) by (simp add: exclusive_def)
  qed
  with one show ?thesis by (simp add: exclusive_def)
qed

lemma exclusive_take:
  assumes "exclusive wp" and "held_nodes wp' = add_mset mac (held_nodes wp)"
    and "gget (activeJobs (registry wp)) mac = None"
    and "activeJobs (registry wp') = gput mac j (activeJobs (registry wp))"
  shows "exclusive wp'"
  using assms by (auto simp: exclusive_def not_in_iff)

lemma exclusive_step:
  assumes inv: "exclusive wp" and st: "pool_step E key fmt parse ev wp = Some wp'" and ok: "keeps_connections ev"
  shows "exclusive wp'"
proof -
  have same: "exclusive wp'" if "workers wp' = workers wp" "activeJobs (registry wp') = activeJobs (registry wp)"
    using exclusive_same [OF inv] that by (simp add: held_nodes_def in_flight_def)
  have move: "exclusive wp'" if "workers wp' = (workers wp)[i := v]" "i < length (workers wp)"
    "jobs_of (workers wp ! i) = jobs_of v" "activeJobs (registry wp') = activeJobs (registry wp)" for i v
    using exclusive_same [OF inv] held_update [OF that(2,1)] that(3,4) by simp
  have leave: "exclusive wp'" if "workers wp' = (workers wp)[i := loop_point d]" "i < length (workers wp)"
    "jobs_of (workers wp ! i) = {#j#}" "activeJobs (registry wp') = gdel (j_NodeMac j) (activeJobs (registry wp))" for i d j
    using exclusive_drop [OF inv, of "j_NodeMac j" wp'] held_update [OF that(2,1)] that(3,4) by (simp add: loop_point_def split: if_splits)
  show ?thesis
  proof (cases ev)
    case (EPick i)
    with st obtain d j q where s: "i < length (workers wp)" "jobs_of (workers wp ! i) = {#}"
      "workers wp ! i = loop_point d" "wp' = begin_job i d j (wp\<lparr>jobQueue := q\<rparr>)"
      by (auto simp: pool_step_def loop_point_def split: if_splits worker.splits list.splits) force
    show ?thesis
    proof (cases "gget (activeJobs (registry wp)) (j_NodeMac j)")
      case None
      with s have "workers wp' = (workers wp)[i := WPause d j]"
        "activeJobs (registry wp') = gput (j_NodeMac j) (j_ID j) (activeJobs (registry wp))"
        by (simp_all add: begin_job_def AcquireJob_def goto_def)
      with exclusive_take [OF inv _ None, of wp' "j_ID j"] held_update [OF s(1) this(1)] s(2) show ?thesis by simp
    next
      case (Some b)
      with s have "workers wp' = (workers wp)[i := loop_point d]" "activeJobs (registry wp') = activeJobs (registry wp)"
        by (simp_all add: begin_job_def AcquireJob_def goto_def finish_def)
      with move s(1,2,3) show ?thesis by metis
    qed
  next
    case (EWindow i t)
    with st obtain d j where s: "i < length (workers wp)" "workers wp ! i = WWindow d j" "wp' = window_check i d j t wp"
      by (auto simp: pool_step_def split: if_splits worker.splits)
    then consider "workers wp' = (workers wp)[i := WSem d j t]" "activeJobs (registry wp') = activeJobs (registry wp)"
      | "workers wp' = (workers wp)[i := loop_point d]" "activeJobs (registry wp') = gdel (j_NodeMac j) (activeJobs (registry wp))"
      by (auto simp: window_check_def goto_def release_def finish_def ReleaseJob_def Let_def split: option.splits if_splits)
    then show ?thesis using s(1,2) by cases (auto intro: move leave)
  next
    case (EDispatch i t b)
    with st obtain d j t0 where s: "i < length (workers wp)" "workers wp ! i = WSend d j t0" "wp' = dispatch E key i d j t b wp"
      by (auto simp: pool_step_def split: if_splits worker.splits)
    then have "workers wp' = (workers wp)[i := loop_point d]" "activeJobs (registry wp') = gdel (j_NodeMac j) (activeJobs (registry wp))"
      by (auto simp: dispatch_def Let_def goto_def release_def give_slot_def finish_def ReleaseJob_def split: option.splits sum.splits)
    with s(1,2) show ?thesis by (auto intro: leave)
  next
    case (EGate i)
    with st show ?thesis
      by (intro move [of i "workers wp' ! i"]) (auto simp: step_defs split: if_splits worker.splits)
  next
    case (ESlot i)
    with st show ?thesis
      by (intro move [of i "workers wp' ! i"]) (auto simp: step_defs split: if_splits worker.splits option.splits)
  next
    case (ESeeStop i)
    with st show ?thesis by (intro move [of i WDrain]) (auto simp: step_defs split: if_splits)
  next
    case (EDrainExit i)
    with st show ?thesis by (intro move [of i WExit]) (auto simp: step_defs split: if_splits)
  qed ((rule same; use st ok in \<open>auto simp: step_defs keeps_connections_def Register_def split: if_splits option.splits\<close>)+)
qed

section \<open>Properties\<close>

lemma start_invariants:
  "conserved (NewWorkerPool am n)" "slots_inv (NewWorkerPool am n)" "exclusive (NewWorkerPool am n)"
proof -
  have "in_flight (NewWorkerPool am n) = {#}" "senders (NewWorkerPool am n) g = 0" for g
    by (induction n) (auto simp: NewWorkerPool_def in_flight_def senders_def)
  then show "conserved (NewWorkerPool am n)" "slots_inv (NewWorkerPool am n)" "exclusive (NewWorkerPool am n)"
    by (auto simp: NewWorkerPool_def conserved_def slots_inv_def occupied_def exclusive_def held_nodes_def)
qed

lemma reach_conserved: "pool_reach E key fmt parse ok wp \<Longrightarrow> conserved wp"
  by (induction rule: pool_reach.induct) (auto simp: start_invariants conserved_step)

lemma reach_slots: "pool_reach E key fmt parse ok wp \<Longrightarrow> slots_inv wp"
  by (induction rule: pool_reach.induct) (auto simp: start_invariants slots_step)

lemma reach_exclusive: "pool_reach E key fmt parse keeps_connections wp \<Longrightarrow> exclusive wp"
  by (induction rule: pool_reach.induct) (auto simp: start_invariants exclusive_step)

text \<open>
  C16. No job is lost or duplicated: in every reachable state of the pool, under any interleaving of
  workers, timers, callers and connections, the jobs submitted are exactly the queued ones, the
  ones waiting for their maintenance window, the ones a worker holds, and the finished ones with
  the reason they ended.
\<close>

theorem jobs_conserved:
  assumes "pool_reach E key fmt parse ok wp"
  shows "submitted wp = mset (jobQueue wp) + mset (delayed wp) + in_flight wp + image_mset fst (finished wp)"
  using reach_conserved [OF assms] by (simp add: conserved_def)

text \<open>
  C17. Concurrency is bounded: in every reachable state at most two workers are dispatching for one
  group, the group's semaphore counts exactly them, and the queue never exceeds its capacity
  of 100.
\<close>

theorem group_concurrency_bounded:
  assumes "pool_reach E key fmt parse ok wp"
  shows "senders wp g \<le> 2 \<and> occupied wp g = senders wp g \<and> length (jobQueue wp) \<le> 100"
  using reach_slots [OF assms] by (simp add: slots_inv_def groupLimit_def queueCapacity_def)

text \<open>
  C18. Maintenance windows are honoured: in every run, a command that was sent belongs to a job that
  some worker held at a window check of that run, and at the time of that check the job's window,
  if it has one, was open with at least fifteen minutes left.
\<close>

theorem window_respected:
  assumes "run_pool E key fmt parse evs (NewWorkerPool am n) = Some wp" and "(j, Sent cn cmd) \<in># finished wp"
  shows "\<exists>pre i t post wp0 d. evs = pre @ EWindow i t # post \<and>
     run_pool E key fmt parse pre (NewWorkerPool am n) = Some wp0 \<and> i < length (workers wp0) \<and>
     workers wp0 ! i = WWindow d j \<and>
     (case j_MaintenanceWindow j of None \<Rightarrow> True
      | Some w \<Rightarrow> mw_StartTime w \<le> t \<and> t + 15 * minute \<le> mw_EndTime w)"
  using run_windows [OF assms(1)] assms(2)
  by (force simp: windows_inv_def window_checked_def window_ok_def [symmetric])

text \<open>
  One job per node: as long as no agent is unregistered or pruned, two different workers never
  hold jobs for the same node.
\<close>

theorem node_jobs_exclusive:
  assumes "pool_reach E key fmt parse keeps_connections wp"
    and "i < length (workers wp)" and "k < length (workers wp)" and "i \<noteq> k"
    and "job_of (workers wp ! i) = Some a" and "job_of (workers wp ! k) = Some b"
  shows "j_NodeMac a \<noteq> j_NodeMac b"
proof
  assume eq: "j_NodeMac a = j_NodeMac b"
  obtain M where M: "mset (workers wp) = add_mset (workers wp ! i) M" "\<And>v. mset ((workers wp)[i := v]) = add_mset v M"
    using pick_worker [OF assms(2)] by metis
  have "workers wp ! k \<in> set ((workers wp)[i := WIdle])"
    using assms(3,4) by (metis length_list_update nth_list_update_neq nth_mem)
  then have "workers wp ! k \<in># add_mset WIdle M" by (simp only: M(2) [symmetric] set_mset_mset)
  moreover have "workers wp ! k \<noteq> WIdle" using assms(6) by auto
  ultimately have "workers wp ! k \<in># M" by simp
  then obtain M' where "M = add_mset (workers wp ! k) M'" by (metis insert_DiffM)
  with M(1) have "held_nodes wp = add_mset (j_NodeMac a) (add_mset (j_NodeMac b) (image_mset j_NodeMac (sum_mset (image_mset jobs_of M'))))"
    using assms(5,6) by (simp add: held_nodes_def in_flight_def jobs_of_def)
  then have "2 \<le> count (held_nodes wp) (j_NodeMac a)" using eq by simp
  moreover have "count (held_nodes wp) (j_NodeMac a) \<le> 1"
    using reach_exclusive [OF assms(1)] by (simp add: exclusive_def)
  ultimately show False by simp
qed

section \<open>Concrete runs\<close>

definition demo_job :: "string \<Rightarrow> string \<Rightarrow> Job" where
  "demo_job jid mac = \<lparr>j_ID = jid, j_NodeMac = mac, j_GroupID = 1, j_Action = ''update_all'', j_Packages = None,
     j_PrePatchScript = [], j_PostPatchScript = [], j_HealthCheckCommand = [],
     j_MaintenanceWindow = Some \<lparr>mw_StartTime = 0, mw_EndTime = hour\<rparr>, j_StartTime = 0\<rparr>"

definition demo_hb :: HeartbeatPayload where
  "demo_hb = \<lparr>hb_MacAddress = ''m'', hb_Hostname = ''h'', hb_OS = ''o'', hb_OSVersion = ''v'', hb_Kernel = ''k'', hb_RebootNeeded = False\<rparr>"

abbreviation demo_run :: "pool_event list \<Rightarrow> pool option" where
  "demo_run evs \<equiv> run_pool toy_ed25519 None (\<lambda>_. ''t'') (\<lambda>_. Some 0) evs (NewWorkerPool Registry 2)"

lemmas demo_defs = step_defs NewWorkerPool_def Registry_def AcquireJob_def ReleaseJob_def Register_def UnregisterConn_def
  SendCommand_def Sign_def paused_def queueCapacity_def groupLimit_def set_status_def Let_def numeral_2_eq_2
  demo_job_def demo_hb_def

text \<open>A job that is sent, and two jobs for two nodes held by two workers.\<close>

definition demo_sent_events :: "pool_event list" where
  "demo_sent_events =
     [ERegister 0 ''m'' 7 demo_hb, ESubmit (demo_job ''a'' ''m''), EPick 0, EGate 0, EWindow 0 5, ESlot 0, EDispatch 0 6 True]"

definition demo_sent :: pool where
  "demo_sent = the (demo_run demo_sent_events)"

lemma demo_sent_run: "demo_run demo_sent_events = Some demo_sent"
  and demo_sent_finished: "finished demo_sent = {#(demo_job ''a'' ''m'', Sent 7 (job_command (demo_job ''a'' ''m'')))#}"
proof -
  have "\<exists>wp. demo_run demo_sent_events = Some wp \<and>
      finished wp = {#(demo_job ''a'' ''m'', Sent 7 (job_command (demo_job ''a'' ''m'')))#}"
    by (simp add: demo_sent_events_def demo_defs)
  then show "demo_run demo_sent_events = Some demo_sent"
    and "finished demo_sent = {#(demo_job ''a'' ''m'', Sent 7 (job_command (demo_job ''a'' ''m'')))#}"
    by (auto simp: demo_sent_def)
qed

definition demo_two_events :: "pool_event list" where
  "demo_two_events = [ESubmit (demo_job ''a'' ''m''), ESubmit (demo_job ''b'' ''n''), EPick 0, EPick 1]"

definition demo_two :: pool where
  "demo_two = the (demo_run demo_two_events)"

lemma demo_two_run: "demo_run demo_two_events = Some demo_two"
  and demo_two_state: "workers demo_two = [WPause False (demo_job ''a'' ''m''), WPause False (demo_job ''b'' ''n'')]"
    "submitted demo_two = {#demo_job ''a'' ''m'', demo_job ''b'' ''n''#}"
proof -
  have "\<exists>wp. demo_run demo_two_events = Some wp \<and>
      workers wp = [WPause False (demo_job ''a'' ''m''), WPause False (demo_job ''b'' ''n'')] \<and>
      submitted wp = {#demo_job ''a'' ''m'', demo_job ''b'' ''n''#}"
    by (simp add: demo_two_events_def demo_defs add_mset_commute)
  then show "demo_run demo_two_events = Some demo_two"
    and "workers demo_two = [WPause False (demo_job ''a'' ''m''), WPause False (demo_job ''b'' ''n'')]"
    and "submitted demo_two = {#demo_job ''a'' ''m'', demo_job ''b'' ''n''#}"
    by (auto simp: demo_two_def)
qed

lemma demo_two_reach: "pool_reach toy_ed25519 None (\<lambda>_. ''t'') (\<lambda>_. Some 0) keeps_connections demo_two"
  by (rule run_pool_reach [OF pool_reach.start demo_two_run]) (simp add: demo_two_events_def keeps_connections_def)

theorem jobs_conserved_witness:
  "{#demo_job ''a'' ''m'', demo_job ''b'' ''n''#} =
     mset (jobQueue demo_two) + mset (delayed demo_two) + in_flight demo_two + image_mset fst (finished demo_two)"
  using jobs_conserved [OF demo_two_reach] by (simp add: demo_two_state)

theorem group_concurrency_bounded_witness: "senders demo_two 1 \<le> 2 \<and> length (jobQueue demo_two) \<le> 100"
  using group_concurrency_bounded [OF demo_two_reach, of 1] by simp

theorem window_respected_witness:
  "\<exists>pre i t post. demo_sent_events = pre @ EWindow i t # post \<and> 0 \<le> t \<and> t + 15 * minute \<le> hour"
  using window_respected [OF demo_sent_run, of "demo_job ''a'' ''m''" 7 "job_command (demo_job ''a'' ''m'')"]
  by (auto simp: demo_sent_finished demo_job_def)

theorem node_jobs_exclusive_witness:
  "job_of (workers demo_two ! 0) = Some (demo_job ''a'' ''m'') \<and> job_of (workers demo_two ! 1) = Some (demo_job ''b'' ''n'') \<and>
   j_NodeMac (demo_job ''a'' ''m'') \<noteq> j_NodeMac (demo_job ''b'' ''n'')"
  using node_jobs_exclusive [OF demo_two_reach, of 0 1 "demo_job ''a'' ''m''" "demo_job ''b'' ''n''"]
  by (simp add: demo_two_state)

text \<open>
  The exclusion does not survive a reconnect: when an agent disconnects while a worker holds a job
  for it, unregistering clears the node's active job, and after the agent reconnects a second
  worker starts another job for the same node.  The run also ends with the first job's
  release clearing the mark of the second, so a third job could start.
\<close>

theorem reconnect_breaks_exclusion:
  "\<exists>wp. demo_run [ERegister 0 ''m'' 7 demo_hb, ESubmit (demo_job ''a'' ''m''), ESubmit (demo_job ''b'' ''m''), EPick 0,
        EUnregister ''m'' 7, ERegister 1 ''m'' 8 demo_hb, EPick 1] = Some wp \<and>
     workers wp = [WPause False (demo_job ''a'' ''m''), WPause False (demo_job ''b'' ''m'')] \<and>
     gget (activeJobs (ReleaseJob ''m'' (registry wp))) ''m'' = None"
  by (simp add: demo_defs)

end
