(* ===== verification/Websocket_Session.thy ===== *)
theory Websocket_Session
  imports Auth Db Fleet Middleware
begin

text \<open>
  The agent websocket endpoint (\<^verbatim>\<open>server/internal/websocket/websocket.go\<close>): authentication of the
  upgrade request, and the read loop of each connection over the shared registry and database.  A
  connection is a session record; a message is either undecodable, a heartbeat (with its decoded
  payload or an undecodable one) or anything else.  The multi-session relation interleaves any
  number of connections with pruning and job bookkeeping.

  The lemmas show that a session acts only on the node its token names, and that the registry
  never holds a connection whose session has ended.
\<close>

section \<open>Authentication\<close>

definition ws_InitSecrets :: "(string \<Rightarrow> string) \<Rightarrow> bytes option" where
  "ws_InitSecrets getenv =
     (let secret = getenv ''JWT_SECRET'' in if secret = [] \<or> length secret < 16 then None else Some secret)"

definition maxMessageBytes :: nat where "maxMessageBytes = 64 * 1024"
definition readTimeout :: duration where "readTimeout = 2 * minute"

definition CheckOrigin :: "(string \<Rightarrow> string) \<Rightarrow> http_request \<Rightarrow> bool" where
  "CheckOrigin getenv r =
     (let origin = header_Get r ''Origin''; expectedOrigin = Scheme getenv r @ ''://'' @ r_Host r
      in \<not> (origin \<noteq> [] \<and> origin \<noteq> expectedOrigin))"

text \<open>The node a request may connect as, or the refusal.\<close>

definition ws_authenticate :: "jwt_lib \<Rightarrow> bytes \<Rightarrow> time \<Rightarrow> http_request \<Rightarrow> http_response + string" where
  "ws_authenticate L secret now r =
     (let authHeader = header_Get r ''Authorization'' in
      if \<not> has_prefix authHeader ''Bearer '' then Inl (http_Error ''Unauthorized - Invalid Header'' 401)
      else case jwt_Parse L \<lparr>WithAudience = Some TokenAudience, WithExpirationRequired = True\<rparr> now
                  (hmac_keyfunc secret) (trim_prefix authHeader ''Bearer '') of
        None \<Rightarrow> Inl (http_Error ''Unauthorized - Invalid Token'' 401)
      | Some (claims, valid) \<Rightarrow>
          if \<not> valid then Inl (http_Error ''Unauthorized - Invalid Token'' 401)
          else if gget claims ''typ'' \<noteq> Some (CString TokenTypeAccess)
          then Inl (http_Error ''Unauthorized - Invalid Token'' 401)
          else case jwt_GetSubject L claims of
            None \<Rightarrow> Inl (http_Error ''Unauthorized - Invalid Token'' 401)
          | Some nodeID \<Rightarrow>
              if nodeID = [] then Inl (http_Error ''Unauthorized - Invalid Token'' 401) else Inr nodeID)"

section \<open>The read loop\<close>

datatype ws_message =
    Undecodable
  | BadHeartbeat
  | HeartbeatMsg HeartbeatPayload
  | OtherMsg string

record session =
  s_node :: string
  s_registered :: bool
  s_open :: bool

record hub =
  h_registry :: AgentManager
  h_db :: db_state

definition markOffline :: "faults \<Rightarrow> conn \<Rightarrow> session \<Rightarrow> hub \<Rightarrow> hub" where
  "markOffline f cn s h =
     (if \<not> s_registered s then h
      else case UnregisterConn (s_node s) cn (h_registry h) of
        (False, _) \<Rightarrow> h
      | (True, am) \<Rightarrow> h\<lparr>h_registry := am, h_db := snd (MarkNodeOffline f (s_node s) (h_db h))\<rparr>)"

text \<open>A read error ends the session; the first argument formats the heartbeat time.\<close>

definition on_read_error :: "faults \<Rightarrow> conn \<Rightarrow> session \<times> hub \<Rightarrow> session \<times> hub" where
  "on_read_error f cn sh = ((fst sh)\<lparr>s_open := False\<rparr>, markOffline f cn (fst sh) (snd sh))"

definition on_message ::
  "(time \<Rightarrow> string) \<Rightarrow> faults \<Rightarrow> time \<Rightarrow> conn \<Rightarrow> ws_message \<Rightarrow> session \<times> hub \<Rightarrow> session \<times> hub" where
  "on_message fmt f now cn m sh =
     (case m of
        Undecodable \<Rightarrow> sh
      | BadHeartbeat \<Rightarrow> sh
      | OtherMsg _ \<Rightarrow> sh
      | HeartbeatMsg p \<Rightarrow>
          let s = fst sh; h = snd sh in
          if hb_MacAddress p \<noteq> [] \<and> hb_MacAddress p \<noteq> s_node s
          then (s\<lparr>s_open := False\<rparr>, markOffline f cn s h)
          else let p = p\<lparr>hb_MacAddress := s_node s\<rparr> in
            (s\<lparr>s_registered := True\<rparr>,
             h\<lparr>h_registry := snd (Register fmt now (s_node s) cn p (h_registry h)),
               h_db := snd (UpdateNodeStatus f now (s_node s) (hb_Hostname p) (hb_OS p) (hb_OSVersion p)
                             (hb_Kernel p) ''online'' (h_db h))\<rparr>))"

text \<open>
  The loop of one request, over what it has read so far, each item with the outcomes of its database statements.
  It has ended when the session is no longer open; then nothing more is read.
\<close>

datatype session_event = Read_message faults time ws_message | Read_failed faults

fun session_step :: "(time \<Rightarrow> string) \<Rightarrow> conn \<Rightarrow> session_event \<Rightarrow> session \<times> hub \<Rightarrow> session \<times> hub" where
  "session_step fmt cn (Read_message f now m) sh = (if s_open (fst sh) then on_message fmt f now cn m sh else sh)"
| "session_step fmt cn (Read_failed f) sh = (if s_open (fst sh) then on_read_error f cn sh else sh)"

definition new_session :: "string \<Rightarrow> session" where
  "new_session node = \<lparr>s_node = node, s_registered = False, s_open = True\<rparr>"

definition run_session :: "(time \<Rightarrow> string) \<Rightarrow> conn \<Rightarrow> string \<Rightarrow> session_event list \<Rightarrow> hub \<Rightarrow> session \<times> hub" where
  "run_session fmt cn node es h = fold (session_step fmt cn) es (new_session node, h)"

section \<open>Many sessions\<close>

record server_hub =
  sh_sessions :: "(conn, session) gomap"
  sh_hub :: hub

datatype hub_event =
    Connect conn "(string \<Rightarrow> string)" time http_request
  | Message conn faults time ws_message
  | ReadError conn faults
  | Prune time duration
  | Acquire string string
  | Release string

definition hub_step ::
  "jwt_lib \<Rightarrow> bytes \<Rightarrow> (time \<Rightarrow> string) \<Rightarrow> (string \<Rightarrow> time option) \<Rightarrow> hub_event \<Rightarrow> server_hub \<Rightarrow> server_hub" where
  "hub_step L secret fmt parse ev H =
     (case ev of
        Connect cn getenv now r \<Rightarrow>
          (case ws_authenticate L secret now r of
             Inl _ \<Rightarrow> H
           | Inr node \<Rightarrow>
               if \<not> CheckOrigin getenv r \<or> gget (sh_sessions H) cn \<noteq> None then H
               else H\<lparr>sh_sessions := gput cn \<lparr>s_node = node, s_registered = False, s_open = True\<rparr> (sh_sessions H)\<rparr>)
      | Message cn f now m \<Rightarrow>
          (case gget (sh_sessions H) cn of
             None \<Rightarrow> H
           | Some s \<Rightarrow>
               if \<not> s_open s then H
               else let r = on_message fmt f now cn m (s, sh_hub H)
                    in \<lparr>sh_sessions = gput cn (fst r) (sh_sessions H), sh_hub = snd r\<rparr>)
      | ReadError cn f \<Rightarrow>
          (case gget (sh_sessions H) cn of
             None \<Rightarrow> H
           | Some s \<Rightarrow>
               if \<not> s_open s then H
               else let r = on_read_error f cn (s, sh_hub H)
                    in \<lparr>sh_sessions = gput cn (fst r) (sh_sessions H), sh_hub = snd r\<rparr>)
      | Prune now ttl \<Rightarrow> H\<lparr>sh_hub := (sh_hub H)\<lparr>h_registry := PruneStaleAgents parse now ttl (h_registry (sh_hub H))\<rparr>\<rparr>
      | Acquire mac j \<Rightarrow> H\<lparr>sh_hub := (sh_hub H)\<lparr>h_registry := snd (AcquireJob mac j (h_registry (sh_hub H)))\<rparr>\<rparr>
      | Release mac \<Rightarrow> H\<lparr>sh_hub := (sh_hub H)\<lparr>h_registry := ReleaseJob mac (h_registry (sh_hub H))\<rparr>\<rparr>)"

inductive hub_reach ::
  "jwt_lib \<Rightarrow> bytes \<Rightarrow> (time \<Rightarrow> string) \<Rightarrow> (string \<Rightarrow> time option) \<Rightarrow> server_hub \<Rightarrow> bool"
  for L secret fmt parse where
  hub_start: "hub_reach L secret fmt parse \<lparr>sh_sessions = [], sh_hub = \<lparr>h_registry = Registry, h_db = init_state b\<rparr>\<rparr>"
| hub_event: "hub_reach L secret fmt parse H \<Longrightarrow> hub_reach L secret fmt parse (hub_step L secret fmt parse ev H)"

section \<open>Lemmas\<close>

text \<open>A connection in the registry belongs to an open, registered session of that node.\<close>

definition owned :: "server_hub \<Rightarrow> bool" where
  "owned H \<longleftrightarrow> am_wf (h_registry (sh_hub H)) \<and>
     (\<forall>mac cn. gget (agents (h_registry (sh_hub H))) mac = Some cn \<longrightarrow>
        (\<exists>s. gget (sh_sessions H) cn = Some s \<and> s_node s = mac \<and> s_registered s \<and> s_open s))"

lemma markOffline_registry:
  "h_registry (markOffline f cn s h) = (if s_registered s then snd (UnregisterConn (s_node s) cn (h_registry h)) else h_registry h)"
  by (auto simp: markOffline_def UnregisterConn_def)

lemma UnregisterConn_agents:
  "gget (agents (snd (UnregisterConn mac cn am))) k =
     (if k = mac \<and> gget (agents am) mac = Some cn then None else gget (agents am) k)"
  by (auto simp: UnregisterConn_def)

lemma Register_agents:
  "gget (agents (snd (Register fmt now mac cn p am))) k = (if k = mac then Some cn else gget (agents am) k)"
  by (simp add: Register_def)

lemma owned_close:
  assumes "owned H" and "gget (sh_sessions H) cn = Some s" and "s_open s"
  shows "owned \<lparr>sh_sessions = gput cn (s\<lparr>s_open := False\<rparr>) (sh_sessions H), sh_hub = markOffline f cn s (sh_hub H)\<rparr>"
  using assms
  by (auto simp: owned_def markOffline_registry UnregisterConn_agents UnregisterConn_wf split: if_splits) (metis option.sel)+

lemma owned_heartbeat:
  assumes "owned H" and "gget (sh_sessions H) cn = Some s" and "s_open s"
    and "h_registry h = snd (Register fmt now (s_node s) cn p (h_registry (sh_hub H)))"
  shows "owned \<lparr>sh_sessions = gput cn (s\<lparr>s_registered := True\<rparr>) (sh_sessions H), sh_hub = h\<rparr>"
  using assms by (auto simp: owned_def Register_wf Register_agents) (metis option.sel)+

lemma owned_idle:
  "owned H \<Longrightarrow> gget (sh_sessions H) cn = Some s \<Longrightarrow> owned \<lparr>sh_sessions = gput cn s (sh_sessions H), sh_hub = sh_hub H\<rparr>"
  by (fastforce simp: owned_def)

lemma owned_step: "owned H \<Longrightarrow> owned (hub_step L secret fmt parse ev H)"
proof (cases ev)
  case (Connect cn getenv now r)
  assume "owned H"
  with Connect show ?thesis
    by (auto simp: hub_step_def owned_def split: sum.splits) (metis option.distinct(1))
next
  case (Message cn f now m)
  assume own: "owned H"
  show ?thesis
  proof (cases "\<exists>s. gget (sh_sessions H) cn = Some s \<and> s_open s")
    case True
    then obtain s where s: "gget (sh_sessions H) cn = Some s" "s_open s" by blast
    then show ?thesis
      using owned_close [OF own s] owned_heartbeat [OF own s] owned_idle [OF own s(1)] Message
      by (cases m) (simp_all add: hub_step_def on_message_def Let_def)
  next
    case False
    with own Message show ?thesis by (auto simp: hub_step_def split: option.splits)
  qed
next
  case (ReadError cn f)
  assume "owned H"
  with ReadError owned_close [of H cn] show ?thesis
    by (auto simp: hub_step_def on_read_error_def Let_def split: option.splits)
next
  case (Prune now ttl)
  assume own: "owned H"
  then have wf: "am_wf (h_registry (sh_hub H))" by (simp add: owned_def)
  from own Prune PruneStaleAgents_wf [OF wf] PruneStaleAgents_get(2) [OF wf] show ?thesis
    by (auto simp: hub_step_def owned_def split: option.splits if_splits)
next
  case (Acquire mac j)
  assume "owned H"
  with Acquire AcquireJob_wf show ?thesis
    by (auto simp: hub_step_def owned_def AcquireJob_def split: option.splits)
next
  case (Release mac)
  assume "owned H"
  with Release ReleaseJob_wf show ?thesis by (auto simp: hub_step_def owned_def ReleaseJob_def)
qed

lemma reach_owned: "hub_reach L secret fmt parse H \<Longrightarrow> owned H"
  by (induction rule: hub_reach.induct) (auto simp: owned_step, simp add: owned_def am_wf_def Registry_def)

subsection \<open>What a session can change\<close>

text \<open>Everything but the registry entries of one node, and everything in the database but that node's row.\<close>

definition registry_confined :: "string \<Rightarrow> AgentManager \<Rightarrow> AgentManager \<Rightarrow> bool" where
  "registry_confined node am am' \<longleftrightarrow>
     (\<forall>mac. mac \<noteq> node \<longrightarrow> gget (agents am') mac = gget (agents am) mac \<and>
        gget (details am') mac = gget (details am) mac \<and> gget (activeJobs am') mac = gget (activeJobs am) mac)"

definition nodes_confined :: "string \<Rightarrow> db_state \<Rightarrow> db_state \<Rightarrow> bool" where
  "nodes_confined node d d' \<longleftrightarrow>
     (case DB d of
        None \<Rightarrow> d' = d
      | Some tb \<Rightarrow> \<exists>ns. d' = d\<lparr>DB := Some (tb\<lparr>nodes := ns\<rparr>)\<rparr> \<and>
          (\<forall>mac. mac \<noteq> node \<longrightarrow> gget ns mac = gget (nodes tb) mac))"

definition hub_confined :: "string \<Rightarrow> hub \<Rightarrow> hub \<Rightarrow> bool" where
  "hub_confined node h h' \<longleftrightarrow>
     registry_confined node (h_registry h) (h_registry h') \<and> nodes_confined node (h_db h) (h_db h')"

lemma nodes_confined_refl [simp]: "nodes_confined node d d"
proof (cases "DB d")
  case (Some tb)
  then have "d = d\<lparr>DB := Some (tb\<lparr>nodes := nodes tb\<rparr>)\<rparr>" by simp
  then have "\<exists>ns. d = d\<lparr>DB := Some (tb\<lparr>nodes := ns\<rparr>)\<rparr> \<and> (\<forall>mac. mac \<noteq> node \<longrightarrow> gget ns mac = gget (nodes tb) mac)"
    by blast
  with Some show ?thesis by (simp only: nodes_confined_def option.case)
qed (simp add: nodes_confined_def)

lemma hub_confined_refl [simp]: "hub_confined node h h"
  by (simp add: hub_confined_def registry_confined_def)

lemma nodes_confined_trans:
  assumes "nodes_confined node d d1" and "nodes_confined node d1 d2"
  shows "nodes_confined node d d2"
proof (cases "DB d")
  case (Some tb)
  with assms(1) obtain ns where ns: "d1 = d\<lparr>DB := Some (tb\<lparr>nodes := ns\<rparr>)\<rparr>"
    "\<forall>mac. mac \<noteq> node \<longrightarrow> gget ns mac = gget (nodes tb) mac" by (auto simp: nodes_confined_def)
  with assms(2) obtain ns' where "d2 = d\<lparr>DB := Some (tb\<lparr>nodes := ns'\<rparr>)\<rparr>"
    "\<forall>mac. mac \<noteq> node \<longrightarrow> gget ns' mac = gget ns mac" by (auto simp: nodes_confined_def)
  with ns(2) Some show ?thesis by (auto simp: nodes_confined_def)
qed (use assms in \<open>simp add: nodes_confined_def\<close>)

lemma hub_confined_trans: "hub_confined node h h1 \<Longrightarrow> hub_confined node h1 h2 \<Longrightarrow> hub_confined node h h2"
  using nodes_confined_trans by (auto simp: hub_confined_def registry_confined_def)

lemma on_db_confined:
  assumes "\<And>tb. \<exists>ns. snd (act tb) = tb\<lparr>nodes := ns\<rparr> \<and> (\<forall>mac. mac \<noteq> node \<longrightarrow> gget ns mac = gget (nodes tb) mac)"
  shows "nodes_confined node d (snd (on_db r (\<lambda>tb. err_of (exec f q act tb)) d))"
proof (cases "DB d")
  case (Some tb)
  obtain ns where ns: "snd (act tb) = tb\<lparr>nodes := ns\<rparr>" "\<forall>mac. mac \<noteq> node \<longrightarrow> gget ns mac = gget (nodes tb) mac"
    using assms by blast
  have "nodes_confined node d (d\<lparr>DB := Some (tb\<lparr>nodes := ns\<rparr>)\<rparr>)" using Some ns(2) by (auto simp: nodes_confined_def)
  moreover have "nodes_confined node d (d\<lparr>DB := Some tb\<rparr>)"
  proof -
    have "d\<lparr>DB := Some tb\<rparr> = d" using Some by simp
    then show ?thesis by simp
  qed
  ultimately show ?thesis using Some ns(1) by (cases "f q") (simp_all add: on_db_def err_of_def exec_def)
qed (simp add: on_db_def)

lemma UpdateNodeStatus_confined: "nodes_confined mac d (snd (UpdateNodeStatus f now mac hn os osv k st d))"
  unfolding UpdateNodeStatus_def by (rule on_db_confined) (force simp: upsert_node_def)

lemma MarkNodeOffline_confined: "nodes_confined mac d (snd (MarkNodeOffline f mac d))"
  unfolding MarkNodeOffline_def
proof (rule on_db_confined)
  fix tb :: db_tables
  let ?ns = "gmap (\<lambda>m r. if m = mac then r\<lparr>n_status := ''offline''\<rparr> else r) (nodes tb)"
  have "snd (update_offline mac tb) = tb\<lparr>nodes := ?ns\<rparr>" by (simp add: update_offline_def)
  moreover have "\<forall>k. k \<noteq> mac \<longrightarrow> gget ?ns k = gget (nodes tb) k" by (simp add: gget_gmap option.map_ident)
  ultimately show "\<exists>ns. snd (update_offline mac tb) = tb\<lparr>nodes := ns\<rparr> \<and>
      (\<forall>k. k \<noteq> mac \<longrightarrow> gget ns k = gget (nodes tb) k)" by blast
qed

lemma markOffline_confined: "hub_confined (s_node s) h (markOffline f cn s h)"
proof -
  have "registry_confined (s_node s) (h_registry h) (h_registry (markOffline f cn s h))"
    by (auto simp: registry_confined_def markOffline_registry UnregisterConn_def gget_set_status)
  moreover have "nodes_confined (s_node s) (h_db h) (h_db (markOffline f cn s h))"
    by (auto simp: markOffline_def MarkNodeOffline_confined split: prod.split bool.split)
  ultimately show ?thesis by (simp add: hub_confined_def)
qed

lemma on_read_error_confined:
  "s_node (fst (on_read_error f cn sh)) = s_node (fst sh) \<and> hub_confined (s_node (fst sh)) (snd sh) (snd (on_read_error f cn sh))"
  by (simp add: on_read_error_def markOffline_confined)

lemma on_message_confined:
  "s_node (fst (on_message fmt f now cn m sh)) = s_node (fst sh) \<and>
   hub_confined (s_node (fst sh)) (snd sh) (snd (on_message fmt f now cn m sh))"
proof (cases m)
  case (HeartbeatMsg p)
  have reg: "registry_confined mac am (snd (Register fmt now mac cn q am))" for mac q am
    by (simp add: registry_confined_def Register_def)
  from HeartbeatMsg show ?thesis
    by (simp add: on_message_def Let_def markOffline_confined)
      (simp add: hub_confined_def reg UpdateNodeStatus_confined)
qed (simp_all add: on_message_def)

lemma session_step_confined:
  "s_node (fst (session_step fmt cn e sh)) = s_node (fst sh) \<and>
   hub_confined (s_node (fst sh)) (snd sh) (snd (session_step fmt cn e sh))"
  by (cases e) (simp_all add: on_message_confined on_read_error_confined)

lemma run_session_confined: "hub_confined node h (snd (run_session fmt cn node es h))"
proof -
  have "hub_confined (s_node (fst sh)) (snd sh) (snd (fold (session_step fmt cn) es sh))" for sh
  proof (induction es arbitrary: sh)
    case (Cons e es)
    let ?sh = "session_step fmt cn e sh"
    from Cons.IH [of ?sh] session_step_confined [of fmt cn e sh]
    have "hub_confined (s_node (fst sh)) (snd ?sh) (snd (fold (session_step fmt cn) es ?sh))" by simp
    with session_step_confined [of fmt cn e sh] show ?case by (auto intro: hub_confined_trans)
  qed simp
  from this [of "(new_session node, h)"] show ?thesis by (simp add: run_session_def new_session_def)
qed

section \<open>Properties\<close>

text \<open>
  The registry never holds a dead or foreign connection: in every state reachable by any
  interleaving of connection attempts, messages, read errors, pruning and jobs, a connection
  registered for a node belongs to a session that is still open, was authenticated as that very
  node and has sent a heartbeat.  So a replaced connection that closes late cannot evict its successor,
  and commands are never written to a connection of another node.
\<close>

theorem registered_connection_owned:
  assumes "hub_reach L secret fmt parse H"
    and "SendCommand E key now write_ok mac cmd (h_registry (sh_hub H)) = Inr (cn, cmd')"
  shows "\<exists>s. gget (sh_sessions H) cn = Some s \<and> s_node s = mac \<and> s_registered s \<and> s_open s"
  using reach_owned [OF assms(1)] assms(2)
  by (auto simp: owned_def SendCommand_def Let_def split: option.splits if_splits)

text \<open>
  C19. A session acts only on the node of its token: whatever message a session receives, and when its
  connection fails, the registry entries and the stored row of every other node stay as they were.
\<close>

theorem session_confined:
  assumes "mac \<noteq> s_node s" and "(s', h') = on_message fmt f now cn m (s, h) \<or> (s', h') = on_read_error f cn (s, h)"
  shows "s_node s' = s_node s \<and>
     gget (agents (h_registry h')) mac = gget (agents (h_registry h)) mac \<and>
     gget (details (h_registry h')) mac = gget (details (h_registry h)) mac \<and>
     gget (activeJobs (h_registry h')) mac = gget (activeJobs (h_registry h)) mac \<and>
     (\<forall>tb tb'. DB (h_db h) = Some tb \<longrightarrow> DB (h_db h') = Some tb' \<longrightarrow> gget (nodes tb') mac = gget (nodes tb) mac)"
proof -
  have node: "s_node s' = s_node s" and conf: "hub_confined (s_node s) h h'"
    using assms(2) on_message_confined [of fmt f now cn m "(s, h)"] on_read_error_confined [of f cn "(s, h)"]
    by (metis fst_conv snd_conv)+
  have "gget (nodes tb') mac = gget (nodes tb) mac" if "DB (h_db h) = Some tb" "DB (h_db h') = Some tb'" for tb tb'
    using conf that assms(1) by (auto simp: hub_confined_def nodes_confined_def)
  with node conf assms(1) show ?thesis by (simp add: hub_confined_def registry_confined_def)
qed

text \<open>
  The endpoint accepts exactly the access tokens it issued: within an hour of issue the access
  token of a pair authenticates its node, the refresh token of the pair never does, and whenever a
  request is accepted as a node, its token is signed with the server's secret, unexpired, an access
  token and names that node.
\<close>

theorem ws_authentication:
  assumes "jwt_ok L" and "GenerateTokenPair L S t rnd rnd' mac = Some pair" and "mac \<noteq> []"
  shows "(header_Get r ''Authorization'' = ''Bearer '' @ AccessToken pair \<longrightarrow> now < Unix (t + AccessTokenDuration) * second \<longrightarrow>
       ws_authenticate L (jwtSecret S) now r = Inr mac) \<and>
     (header_Get r ''Authorization'' = ''Bearer '' @ RefreshToken pair \<longrightarrow> now < Unix (t + RefreshTokenDuration) * second \<longrightarrow>
       ws_authenticate L (jwtSecret S) now r = Inl (http_Error ''Unauthorized - Invalid Token'' 401)) \<and>
     (\<forall>node. ws_authenticate L (jwtSecret S) now r = Inr node \<longrightarrow>
       (\<exists>tok c. header_Get r ''Authorization'' = ''Bearer '' @ tok \<and> jwt_Signed L (jwtSecret S) tok c \<and>
          claims_live now c \<and> gget c ''exp'' \<noteq> None \<and> gget c ''typ'' = Some (CString TokenTypeAccess) \<and>
          jwt_GetSubject L c = Some node))"
proof (intro conjI impI allI)
  let ?opt = "\<lparr>WithAudience = Some TokenAudience, WithExpirationRequired = True\<rparr>"
  have parse: "jwt_Parse L ?opt now (hmac_keyfunc (jwtSecret S)) tok = Some (issued_claims mac ty r0 t life, True)"
    if "signAgentToken L S t r0 mac ty life = Some tok" "now < Unix (t + life) * second" for tok ty life r0
    using issued_token_parses [OF assms(1) that] by simp
  note toks = GenerateTokenPair_Some [OF assms(2)]
  note sub = jwt_okD(5) [OF assms(1)]
  {
    assume "header_Get r ''Authorization'' = ''Bearer '' @ AccessToken pair" and "now < Unix (t + AccessTokenDuration) * second"
    with parse [OF toks(1)] sub [of "issued_claims mac TokenTypeAccess rnd t AccessTokenDuration" mac] assms(3)
    show "ws_authenticate L (jwtSecret S) now r = Inr mac"
      by (simp add: ws_authenticate_def Let_def issued_claims_def trim_prefix_def)
  next
    assume "header_Get r ''Authorization'' = ''Bearer '' @ RefreshToken pair" and "now < Unix (t + RefreshTokenDuration) * second"
    with parse [OF toks(2)] show "ws_authenticate L (jwtSecret S) now r = Inl (http_Error ''Unauthorized - Invalid Token'' 401)"
      by (simp add: ws_authenticate_def Let_def issued_claims_def trim_prefix_def TokenTypeAccess_def TokenTypeRefresh_def)
  next
    fix node
    assume "ws_authenticate L (jwtSecret S) now r = Inr node"
    then obtain tok c v where "header_Get r ''Authorization'' = ''Bearer '' @ tok"
      "jwt_Parse L ?opt now (hmac_keyfunc (jwtSecret S)) tok = Some (c, v)"
      "gget c ''typ'' = Some (CString TokenTypeAccess)" "jwt_GetSubject L c = Some node"
      by (auto simp: ws_authenticate_def Let_def has_prefix_iff trim_prefix_def split: if_splits option.splits prod.splits)
    with jwt_okD(3) [OF assms(1)] jwt_ok_signed [OF assms(1)]
    show "\<exists>tok c. header_Get r ''Authorization'' = ''Bearer '' @ tok \<and> jwt_Signed L (jwtSecret S) tok c \<and>
          claims_live now c \<and> gget c ''exp'' \<noteq> None \<and> gget c ''typ'' = Some (CString TokenTypeAccess) \<and>
          jwt_GetSubject L c = Some node"
      by (fastforce simp: options_met_def)
  }
qed

section \<open>Concrete runs\<close>

abbreviation ws_secrets :: secrets where
  "ws_secrets \<equiv> \<lparr>registrationSecret = ''r'', jwtSecret = ''j''\<rparr>"

definition ws_pair :: TokenPair where
  "ws_pair = the (GenerateTokenPair toy_jwt ws_secrets 0 ''a'' ''b'' ''m'')"

definition ws_request :: http_request where
  "ws_request = \<lparr>r_Method = ''GET'', r_Path = ''/ws'', r_Host = ''h'', r_RemoteAddr = ''10.0.0.1:1'', r_TLS = True,
     r_Header = [(''Authorization'', [''Bearer '' @ AccessToken ws_pair])], r_Query = [], r_Body = []\<rparr>"

lemma ws_pair_eq: "GenerateTokenPair toy_jwt ws_secrets 0 ''a'' ''b'' ''m'' = Some ws_pair"
  using GenerateTokenPair_total [OF toy_jwt_ok, of ws_secrets 0 "''a''" "''b''" "''m''"] by (auto simp: ws_pair_def)

lemma ws_request_auth: "header_Get ws_request ''Authorization'' = ''Bearer '' @ AccessToken ws_pair"
  by (simp add: ws_request_def first_value_def)

theorem ws_authentication_witness: "ws_authenticate toy_jwt ''j'' 5 ws_request = Inr ''m''"
  using ws_authentication [OF toy_jwt_ok ws_pair_eq, of ws_request 5] ws_request_auth
  by (simp add: AccessTokenDuration_def Unix_def)

definition ws_hb :: HeartbeatPayload where
  "ws_hb = \<lparr>hb_MacAddress = ''m'', hb_Hostname = ''h'', hb_OS = ''o'', hb_OSVersion = ''v'', hb_Kernel = ''k'', hb_RebootNeeded = False\<rparr>"

definition ws_demo :: server_hub where
  "ws_demo = hub_step toy_jwt ''j'' (\<lambda>_. ''t'') (\<lambda>_. Some 0) (Message 1 no_faults 5 (HeartbeatMsg ws_hb))
     (hub_step toy_jwt ''j'' (\<lambda>_. ''t'') (\<lambda>_. Some 0) (Connect 1 (\<lambda>_. []) 5 ws_request)
       \<lparr>sh_sessions = [], sh_hub = \<lparr>h_registry = Registry, h_db = init_state False\<rparr>\<rparr>)"

lemma ws_demo_reach: "hub_reach toy_jwt ''j'' (\<lambda>_. ''t'') (\<lambda>_. Some 0) ws_demo"
  unfolding ws_demo_def by (intro hub_reach.intros)

lemma ws_request_accepted: "ws_authenticate toy_jwt ''j'' 5 ws_request = Inr ''m''"
proof -
  obtain c where "jwt_Parse toy_jwt \<lparr>WithAudience = Some TokenAudience, WithExpirationRequired = True\<rparr> 5
      (hmac_keyfunc ''j'') (AccessToken ws_pair) = Some (c, True)" "c = issued_claims ''m'' TokenTypeAccess ''a'' 0 AccessTokenDuration"
    using issued_token_parses(2) [OF toy_jwt_ok GenerateTokenPair_Some(1) [OF ws_pair_eq], of 5 True]
    by (simp add: AccessTokenDuration_def Unix_def)
  then show ?thesis
    using ws_request_auth jwt_okD(5) [OF toy_jwt_ok, of c "''m''"]
    by (simp add: ws_authenticate_def Let_def issued_claims_def trim_prefix_def)
qed

lemma ws_demo_agents: "gget (agents (h_registry (sh_hub ws_demo))) ''m'' = Some 1"
proof -
  have "CheckOrigin (\<lambda>_. []) ws_request" by (simp add: CheckOrigin_def ws_request_def first_value_def)
  then show ?thesis
    by (simp add: ws_demo_def hub_step_def ws_request_accepted on_message_def Register_def ws_hb_def Let_def)
qed

theorem registered_connection_owned_witness:
  "\<exists>s. gget (sh_sessions ws_demo) 1 = Some s \<and> s_node s = ''m'' \<and> s_registered s \<and> s_open s"
proof -
  have "SendCommand toy_ed25519 None 0 True ''m'' cmd (h_registry (sh_hub ws_demo)) = Inr (1, cmd)" for cmd
    by (simp add: SendCommand_def ws_demo_agents Sign_def)
  from registered_connection_owned [OF ws_demo_reach this] show ?thesis .
qed

theorem session_confined_witness:
  "gget (agents (h_registry (snd (on_message (\<lambda>_. ''t'') no_faults 5 2 (HeartbeatMsg (ws_hb\<lparr>hb_MacAddress := ''m''\<rparr>))
      (\<lparr>s_node = ''n'', s_registered = False, s_open = True\<rparr>, sh_hub ws_demo))))) ''m'' = Some 1"
proof -
  let ?r = "on_message (\<lambda>_. ''t'') no_faults 5 2 (HeartbeatMsg (ws_hb\<lparr>hb_MacAddress := ''m''\<rparr>))
      (\<lparr>s_node = ''n'', s_registered = False, s_open = True\<rparr>, sh_hub ws_demo)"
  from session_confined [of "''m''" _ "fst ?r" "snd ?r", OF _ disjI1] ws_demo_agents show ?thesis by fastforce
qed

end
