(* ===== verification/Webhooks.thy ===== *)
theory Webhooks
  imports Http
begin

unbundle bit_operations_syntax

text \<open>
  Webhook delivery (\<^verbatim>\<open>server/internal/webhooks/webhooks.go\<close> and \<^verbatim>\<open>transport.go\<close>).  Addresses are
  machine words, 32 or 128 bits wide, and prefixes are tested with shifts, as \<^verbatim>\<open>net/netip\<close> does.
  URL and address parsing, name resolution and the dial itself are arguments.

  The theorems give the accepted IPv4 addresses as the complement of a list of intervals and show
  that no connection is attempted unless every resolved address is public.
\<close>

section \<open>Addresses\<close>

type_synonym net_ip = "8 word list"

datatype addr = V4 "32 word" | V6 "128 word"

definition word_of_bytes :: "8 word list \<Rightarrow> 'a::len word" where
  "word_of_bytes bs = foldl (\<lambda>a b. push_bit 8 a OR ucast b) 0 bs"

definition AddrFromSlice :: "net_ip \<Rightarrow> addr option" where
  "AddrFromSlice ip =
     (if length ip = 4 then Some (V4 (word_of_bytes ip))
      else if length ip = 16 then Some (V6 (word_of_bytes ip)) else None)"

text \<open>An IPv4-mapped IPv6 address is the prefix \<^verbatim>\<open>::ffff:0:0/96\<close>.\<close>

definition Unmap :: "addr \<Rightarrow> addr" where
  "Unmap a = (case a of V4 w \<Rightarrow> V4 w | V6 w \<Rightarrow> if drop_bit 32 w = 0xffff then V4 (ucast w) else V6 w)"

definition IsLoopback :: "addr \<Rightarrow> bool" where
  "IsLoopback a = (case a of V4 w \<Rightarrow> drop_bit 24 w = 127 | V6 w \<Rightarrow> w = 1)"

definition IsMulticast :: "addr \<Rightarrow> bool" where
  "IsMulticast a = (case a of V4 w \<Rightarrow> drop_bit 24 w AND 0xf0 = 0xe0 | V6 w \<Rightarrow> drop_bit 120 w = 0xff)"

definition IsLinkLocalUnicast :: "addr \<Rightarrow> bool" where
  "IsLinkLocalUnicast a = (case a of V4 w \<Rightarrow> drop_bit 16 w = 0xa9fe | V6 w \<Rightarrow> drop_bit 112 w AND 0xffc0 = 0xfe80)"

definition IsLinkLocalMulticast :: "addr \<Rightarrow> bool" where
  "IsLinkLocalMulticast a = (case a of V4 w \<Rightarrow> drop_bit 8 w = 0xe00000 | V6 w \<Rightarrow> drop_bit 112 w AND 0xff0f = 0xff02)"

definition IsPrivate :: "addr \<Rightarrow> bool" where
  "IsPrivate a =
     (case a of
        V4 w \<Rightarrow> drop_bit 24 w = 10 \<or> drop_bit 20 w = 0xac1 \<or> drop_bit 16 w = 0xc0a8
      | V6 w \<Rightarrow> drop_bit 120 w AND 0xfe = 0xfc)"

definition IsGlobalUnicast :: "addr \<Rightarrow> bool" where
  "IsGlobalUnicast a =
     ((case a of V4 w \<Rightarrow> w \<noteq> 0 \<and> w \<noteq> 0xffffffff | V6 w \<Rightarrow> w \<noteq> 0) \<and>
      \<not> IsLoopback a \<and> \<not> IsMulticast a \<and> \<not> IsLinkLocalUnicast a)"

datatype prefix = P4 "32 word" nat | P6 "128 word" nat

definition prefix_Contains :: "prefix \<Rightarrow> addr \<Rightarrow> bool" where
  "prefix_Contains p a =
     (case (p, a) of
        (P4 q n, V4 w) \<Rightarrow> drop_bit (32 - n) w = drop_bit (32 - n) q
      | (P6 q n, V6 w) \<Rightarrow> drop_bit (128 - n) w = drop_bit (128 - n) q
      | _ \<Rightarrow> False)"

definition v4 :: "nat \<Rightarrow> nat \<Rightarrow> nat \<Rightarrow> nat \<Rightarrow> 32 word" where
  "v4 a b c d = of_nat (a * 2 ^ 24 + b * 2 ^ 16 + c * 2 ^ 8 + d)"

definition webhookDeniedNetworks :: "prefix list" where
  "webhookDeniedNetworks =
     [P4 (v4 0 0 0 0) 8, P4 (v4 100 64 0 0) 10, P4 (v4 192 0 0 0) 24, P4 (v4 192 0 2 0) 24,
      P4 (v4 192 88 99 0) 24, P4 (v4 198 18 0 0) 15, P4 (v4 198 51 100 0) 24, P4 (v4 203 0 113 0) 24,
      P4 (v4 240 0 0 0) 4, P6 (push_bit 112 0x2001) 23, P6 (push_bit 96 0x20010db8) 32,
      P6 (push_bit 112 0x2002) 16, P6 (push_bit 112 0x3fff) 20]"

definition public_addr :: "addr \<Rightarrow> bool" where
  "public_addr a =
     (\<not> (\<not> IsGlobalUnicast a \<or> IsPrivate a \<or> IsLoopback a \<or> IsLinkLocalUnicast a) \<and>
      \<not> (case a of V4 _ \<Rightarrow> False | V6 _ \<Rightarrow> \<not> prefix_Contains (P6 (push_bit 112 0x2000) 3) a) \<and>
      \<not> list_ex (\<lambda>p. prefix_Contains p a) webhookDeniedNetworks)"

definition publicWebhookIP :: "net_ip \<Rightarrow> bool" where
  "publicWebhookIP ip =
     (case AddrFromSlice ip of None \<Rightarrow> False | Some a \<Rightarrow> public_addr (Unmap a))"

section \<open>Dialing\<close>

datatype dial_error = NoAddresses | NonPublicWebhook | DialError nat | SplitError | LookupError

text \<open>The second component lists the addresses a connection was attempted to, in order.\<close>

fun dial_each :: "(net_ip \<Rightarrow> nat + 'conn) \<Rightarrow> dial_error \<Rightarrow> net_ip list \<Rightarrow> (dial_error + 'conn) \<times> net_ip list"
where
  "dial_each dial err [] = (Inl err, [])"
| "dial_each dial err (ip # ips) =
     (case dial ip of
        Inr c \<Rightarrow> (Inr c, [ip])
      | Inl e \<Rightarrow> (let r = dial_each dial (DialError e) ips in (fst r, ip # snd r)))"

definition dialWebhookAddresses ::
  "(net_ip \<Rightarrow> nat + 'conn) \<Rightarrow> net_ip list \<Rightarrow> (dial_error + 'conn) \<times> net_ip list" where
  "dialWebhookAddresses dial addresses =
     (if addresses = [] then (Inl NoAddresses, [])
      else if list_ex (\<lambda>ip. \<not> publicWebhookIP ip) addresses then (Inl NonPublicWebhook, [])
      else dial_each dial NoAddresses addresses)"

definition dialWebhook ::
  "(string \<Rightarrow> net_ip list option) \<Rightarrow> (string \<Rightarrow> net_ip \<Rightarrow> nat + 'conn) \<Rightarrow> string \<Rightarrow> (dial_error + 'conn) \<times> net_ip list" where
  "dialWebhook lookup dial address =
     (case SplitHostPort address of
        None \<Rightarrow> (Inl SplitError, [])
      | Some (host, port) \<Rightarrow>
          (case lookup host of
             None \<Rightarrow> (Inl LookupError, [])
           | Some addresses \<Rightarrow> dialWebhookAddresses (dial port) addresses))"

section \<open>Notifications\<close>

record WebhookPayload =
  wp_Event :: string
  wp_Message :: string
  wp_JobID :: string
  wp_NodeMac :: string

text \<open>What the URL parser reports: scheme and authority.\<close>

type_synonym url_parser = "string \<Rightarrow> (string \<times> string) option"

definition isValidURL :: "url_parser \<Rightarrow> (string \<Rightarrow> net_ip option) \<Rightarrow> string \<Rightarrow> bool" where
  "isValidURL parse_url parse_ip u =
     (case parse_url u of
        None \<Rightarrow> False
      | Some (scheme, hostport) \<Rightarrow>
          if scheme \<noteq> ''http'' \<and> scheme \<noteq> ''https'' then False
          else
            let host = (case SplitHostPort hostport of None \<Rightarrow> hostport | Some (h, _) \<Rightarrow> h) in
            if host = ''localhost'' \<or> host = ''127.0.0.1'' \<or> host = ''::1'' then False
            else case parse_ip host of
              None \<Rightarrow> True
            | Some ip \<Rightarrow>
                (case AddrFromSlice ip of
                   None \<Rightarrow> True
                 | Some a0 \<Rightarrow> let a = Unmap a0 in
                     \<not> (IsLoopback a \<or> IsPrivate a \<or> IsLinkLocalUnicast a \<or> IsLinkLocalMulticast a)))"

definition json_field :: "string \<Rightarrow> string \<Rightarrow> string" where
  "json_field k v = json_string k @ '':'' @ json_string v"

definition marshal_payload :: "WebhookPayload \<Rightarrow> string" where
  "marshal_payload p =
     ''{'' @ join_with '','' ([json_field ''event'' (wp_Event p), json_field ''message'' (wp_Message p)]
       @ (if wp_JobID p = [] then [] else [json_field ''job_id'' (wp_JobID p)])
       @ (if wp_NodeMac p = [] then [] else [json_field ''node_mac'' (wp_NodeMac p)])) @ ''}''"

text \<open>A delivery is the target URL and the JSON body that is posted to it.\<close>

definition sendWebhook :: "url_parser \<Rightarrow> (string \<Rightarrow> net_ip option) \<Rightarrow> string \<Rightarrow> WebhookPayload \<Rightarrow> (string \<times> string) list" where
  "sendWebhook pu pi u payload = (if \<not> isValidURL pu pi u then [] else [(u, marshal_payload payload)])"

definition NotifyWebhooks ::
  "url_parser \<Rightarrow> (string \<Rightarrow> net_ip option) \<Rightarrow> (string \<Rightarrow> string) \<Rightarrow> WebhookPayload \<Rightarrow> (string \<times> string) list" where
  "NotifyWebhooks pu pi getenv payload =
     concat (map (\<lambda>u. if u = [] then [] else if \<not> isValidURL pu pi u then [] else sendWebhook pu pi u payload)
       [getenv ''SLACK_WEBHOOK_URL'', getenv ''TEAMS_WEBHOOK_URL'', getenv ''DISCORD_WEBHOOK_URL''])"

text \<open>A Go map is marshalled with its keys sorted.\<close>

definition marshal_map :: "(string \<times> string) list \<Rightarrow> string" where
  "marshal_map kvs = ''{'' @ join_with '','' (map (\<lambda>(k, v). json_field k v) kvs) @ ''}''"

definition NotifySlack :: "url_parser \<Rightarrow> (string \<Rightarrow> net_ip option) \<Rightarrow> string \<Rightarrow> string \<Rightarrow> (string \<times> string) list" where
  "NotifySlack pu pi u msg = (if \<not> isValidURL pu pi u then [] else [(u, marshal_map [(''text'', msg)])])"

definition NotifyDiscord :: "url_parser \<Rightarrow> (string \<Rightarrow> net_ip option) \<Rightarrow> string \<Rightarrow> string \<Rightarrow> (string \<times> string) list" where
  "NotifyDiscord pu pi u msg = (if \<not> isValidURL pu pi u then [] else [(u, marshal_map [(''content'', msg)])])"

definition NotifyTeams ::
  "url_parser \<Rightarrow> (string \<Rightarrow> net_ip option) \<Rightarrow> string \<Rightarrow> string \<Rightarrow> string \<Rightarrow> (string \<times> string) list" where
  "NotifyTeams pu pi u title txt =
     (if \<not> isValidURL pu pi u then []
      else [(u, marshal_map [(''@context'', ''http://schema.org/extensions''), (''@type'', ''MessageCard''),
                             (''summary'', title), (''text'', txt), (''themeColor'', ''0076D7'')])])"

section \<open>The accepted IPv4 addresses\<close>

text \<open>The special-use blocks, as first address and prefix length.\<close>

definition blocked_v4 :: "(nat \<times> nat) list" where
  "blocked_v4 = map (\<lambda>((a, b, c), n). (a * 2 ^ 24 + b * 2 ^ 16 + c * 2 ^ 8, n))
     [((0, 0, 0), 8), ((10, 0, 0), 8), ((100, 64, 0), 10), ((127, 0, 0), 8), ((169, 254, 0), 16), ((172, 16, 0), 12),
      ((192, 0, 0), 24), ((192, 0, 2), 24), ((192, 88, 99), 24), ((192, 168, 0), 16), ((198, 18, 0), 15),
      ((198, 51, 100), 24), ((203, 0, 113), 24), ((224, 0, 0), 4), ((240, 0, 0), 4)]"

lemma div_eq_interval: "0 < d \<Longrightarrow> (m::nat) div d = q \<longleftrightarrow> q * d \<le> m \<and> m < q * d + d"
  using div_nat_eqI [of d q m] dividend_less_div_times [of d m] div_times_less_eq_dividend [of m d]
  by (auto simp: ac_simps)

lemma unat_drop: "unat (drop_bit k (w :: 'a::len word)) = unat w div 2 ^ k"
  by (metis unat_drop_bit_eq drop_bit_eq_div)

lemma unat_32: "unat (w :: 32 word) < 2 ^ 32"
  using unsigned_less [of w, where 'a = nat] by simp

lemma drop_bit_interval:
  fixes w :: "'a::len word"
  shows "drop_bit k w = v \<longleftrightarrow> unat v * 2 ^ k \<le> unat w \<and> unat w < unat v * 2 ^ k + 2 ^ k"
proof -
  have "drop_bit k w = v \<longleftrightarrow> unat w div 2 ^ k = unat v"
    by (simp add: word_unat_eq_iff unat_drop)
  then show ?thesis by (simp add: div_eq_interval)
qed

lemma class_d_table: "list_all (\<lambda>n. (of_nat n AND (0xf0 :: 32 word) = 0xe0) = (n div 16 = 14)) [0..<256]"
  by code_simp

lemma class_d: "drop_bit 24 (w :: 32 word) AND 0xf0 = 0xe0 \<longleftrightarrow> drop_bit 28 w = 14"
proof -
  let ?x = "drop_bit 24 w"
  have "unat w < 2 ^ 32" by (rule unat_32)
  then have lt: "unat ?x < 256" by (simp add: unat_drop less_mult_imp_div_less)
  with class_d_table have "(of_nat (unat ?x) AND (0xf0 :: 32 word) = 0xe0) = (unat ?x div 16 = 14)"
    by (simp add: list_all_iff del: of_nat_unat)
  then have "(?x AND 0xf0 = 0xe0) = (unat ?x div 16 = 14)" by simp
  also have "unat ?x div 16 = unat w div 2 ^ 28"
    by (simp add: unat_drop flip: div_mult2_eq)
  also have "(unat w div 2 ^ 28 = 14) = (drop_bit 28 w = 14)"
    by (simp add: word_unat_eq_iff unat_drop)
  finally show ?thesis .
qed

definition in_block :: "nat \<Rightarrow> nat \<Rightarrow> nat \<Rightarrow> bool" where
  "in_block base n u \<longleftrightarrow> base \<le> u \<and> u < base + 2 ^ (32 - n)"

lemma v4_blocks:
  "IsLoopback (V4 w) \<longleftrightarrow> in_block 2130706432 8 (unat w)"
  "IsMulticast (V4 w) \<longleftrightarrow> in_block 3758096384 4 (unat w)"
  "IsLinkLocalUnicast (V4 w) \<longleftrightarrow> in_block 2851995648 16 (unat w)"
  "IsPrivate (V4 w) \<longleftrightarrow> in_block 167772160 8 (unat w) \<or> in_block 2886729728 12 (unat w) \<or> in_block 3232235520 16 (unat w)"
  by (simp_all add: IsLoopback_def IsMulticast_def IsLinkLocalUnicast_def IsPrivate_def class_d drop_bit_interval in_block_def)

lemma prefix_block_v4:
  assumes "n \<le> 32" and "base = a * 2 ^ 24 + b * 2 ^ 16 + c * 2 ^ 8" and "base < (2::nat) ^ 32" and "2 ^ (32 - n) dvd base"
  shows "prefix_Contains (P4 (v4 a b c 0) n) (V4 w) \<longleftrightarrow> in_block base n (unat w)"
proof -
  have u: "unat (v4 a b c 0) = base"
    using assms(2,3) unfolding v4_def by (simp only: add_0_right unsigned_of_nat take_bit_eq_mod) simp
  have "unat (drop_bit (32 - n) (v4 a b c 0)) * 2 ^ (32 - n) = base"
    using assms(4) by (simp add: unat_drop u)
  then show ?thesis
    by (simp add: prefix_Contains_def in_block_def drop_bit_interval [of _ _ "drop_bit (32 - n) (v4 a b c 0)"])
qed

lemma denied_v4:
  "list_ex (\<lambda>p. prefix_Contains p (V4 w)) webhookDeniedNetworks \<longleftrightarrow>
     in_block 0 8 (unat w) \<or> in_block 1681915904 10 (unat w) \<or> in_block 3221225472 24 (unat w) \<or>
     in_block 3221225984 24 (unat w) \<or> in_block 3227017984 24 (unat w) \<or> in_block 3323068416 15 (unat w) \<or>
     in_block 3325256704 24 (unat w) \<or> in_block 3405803776 24 (unat w) \<or> in_block 4026531840 4 (unat w)"
proof -
  have v6: "\<not> prefix_Contains (P6 q n) (V4 w)" for q n by (simp add: prefix_Contains_def)
  note b = prefix_block_v4 [of 8 0 0 0 0 w] prefix_block_v4 [of 10 1681915904 100 64 0 w]
    prefix_block_v4 [of 24 3221225472 192 0 0 w] prefix_block_v4 [of 24 3221225984 192 0 2 w]
    prefix_block_v4 [of 24 3227017984 192 88 99 w] prefix_block_v4 [of 15 3323068416 198 18 0 w]
    prefix_block_v4 [of 24 3325256704 198 51 100 w] prefix_block_v4 [of 24 3405803776 203 0 113 w]
    prefix_block_v4 [of 4 4026531840 240 0 0 w]
  show ?thesis unfolding webhookDeniedNetworks_def by (simp add: v6 b)
qed

text \<open>
  The public IPv4 test is exact: an IPv4 destination is accepted if and only if it lies outside
  every special-use block (this network, private, shared, loopback, link-local, protocol and
  documentation blocks, benchmarking, 6to4 relay, multicast, reserved and broadcast), as
  intervals of 32-bit addresses.
\<close>

theorem public_v4_exact:
  "public_addr (V4 w) \<longleftrightarrow> list_ex (\<lambda>(base, n). base \<le> unat w \<and> unat w < base + 2 ^ (32 - n)) blocked_v4 = False"
proof -
  have ends: "w = 0 \<Longrightarrow> in_block 0 8 (unat w)" "w = 0xffffffff \<Longrightarrow> in_block 4026531840 4 (unat w)"
    by (simp_all add: in_block_def)
  have rhs: "list_ex (\<lambda>(base, n). base \<le> unat w \<and> unat w < base + 2 ^ (32 - n)) blocked_v4 \<longleftrightarrow>
     list_ex (\<lambda>(base, n). in_block base n (unat w)) blocked_v4"
    by (simp only: in_block_def)
  show ?thesis
    unfolding rhs public_addr_def denied_v4 IsGlobalUnicast_def v4_blocks addr.case
    by (simp add: blocked_v4_def) (use ends in blast)
qed

section \<open>Only public destinations are dialed\<close>

lemma dial_each_attempts:
  "\<exists>rest. ips = snd (dial_each dial err ips) @ rest"
  "fst (dial_each dial err ips) = Inr c \<Longrightarrow> snd (dial_each dial err ips) \<noteq> [] \<and> dial (last (snd (dial_each dial err ips))) = Inr c"
  by (induction ips arbitrary: err) (auto simp: Let_def split: sum.splits)

text \<open>
  C20. A webhook connection is attempted only to public addresses: for every resolver answer and every
  dialer, the addresses tried are an initial segment of the answer, all addresses of the answer are
  public whenever any is tried, and a connection that results is one the dialer made to one of
  them.  One non-public address in the answer is enough to attempt nothing.
\<close>

theorem dial_only_public:
  assumes "lookup host = Some ips" and "SplitHostPort address = Some (host, port)"
    and "dialWebhook lookup dial address = (r, tried)"
  shows "(\<exists>rest. ips = tried @ rest) \<and>
     (tried \<noteq> [] \<longrightarrow> (\<forall>ip \<in> set ips. publicWebhookIP ip)) \<and>
     ((\<exists>ip \<in> set ips. \<not> publicWebhookIP ip) \<longrightarrow> r = Inl NonPublicWebhook \<and> tried = []) \<and>
     (\<forall>c. r = Inr c \<longrightarrow> (\<exists>ip \<in> set tried. publicWebhookIP ip \<and> dial port ip = Inr c))"
proof -
  from assms have run: "dialWebhookAddresses (dial port) ips = (r, tried)" by (simp add: dialWebhook_def)
  show ?thesis
  proof (cases "ips \<noteq> [] \<and> (\<forall>ip \<in> set ips. publicWebhookIP ip)")
    case True
    then have "\<not> list_ex (\<lambda>ip. \<not> publicWebhookIP ip) ips" by (simp add: list_ex_iff)
    with run True have e: "dial_each (dial port) NoAddresses ips = (r, tried)" by (simp add: dialWebhookAddresses_def)
    note a = dial_each_attempts [where ips = ips and dial = "dial port" and err = NoAddresses, unfolded e]
    have "\<exists>ip \<in> set tried. publicWebhookIP ip \<and> dial port ip = Inr c" if "r = Inr c" for c
      using a(1) a(2) [of c] that True by (force intro: bexI [of _ "last tried"])
    with True a(1) show ?thesis by auto
  next
    case False
    with run show ?thesis by (auto simp: dialWebhookAddresses_def list_ex_iff split: if_splits)
  qed
qed

theorem dial_only_public_witness:
  "\<exists>tried. dialWebhook (\<lambda>_. Some [[1, 1, 1, 1], [10, 0, 0, 1]]) (\<lambda>_ _. Inr ()) ''h:443'' = (Inl NonPublicWebhook, tried) \<and> tried = []"
proof -
  have s: "SplitHostPort ''h:443'' = Some (''h'', ''443'')" by (simp add: SplitHostPort_def)
  have priv: "\<not> publicWebhookIP [10, 0, 0, 1]"
    by (simp add: publicWebhookIP_def AddrFromSlice_def Unmap_def public_addr_def IsPrivate_def word_of_bytes_def)
  obtain r tried where d: "dialWebhook (\<lambda>_. Some [[1, 1, 1, 1], [10, 0, 0, 1]]) (\<lambda>_ _. Inr ()) ''h:443'' = (r, tried)"
    by (metis surj_pair)
  from dial_only_public [OF refl s d] priv d show ?thesis by auto
qed

lemma bit_byte:
  assumes "8 \<le> LENGTH('a::len)"
  shows "bit (push_bit 8 x OR ucast (b :: 8 word) :: 'a word) n \<longleftrightarrow>
     (if n < 8 then bit b n else n < LENGTH('a) \<and> bit x (n - 8))"
  using assms by (auto simp: bit_simps dest: bit_imp_le_length)

lemma bit_byte_128: "bit (push_bit 8 (x :: 128 word) OR ucast (b :: 8 word)) n \<longleftrightarrow> (if n < 8 then bit b n else n < 128 \<and> bit x (n - 8))"
  by (subst bit_byte) simp_all

lemma bit_byte_32: "bit (push_bit 8 (x :: 32 word) OR ucast (b :: 8 word)) n \<longleftrightarrow> (if n < 8 then bit b n else n < 32 \<and> bit x (n - 8))"
  by (subst bit_byte) simp_all

lemma bit_masks: "bit (0xff :: 8 word) n \<longleftrightarrow> n < 8" "bit (0xffff :: 128 word) n \<longleftrightarrow> n < 16"
proof -
  have m: "(0xff :: 8 word) = mask 8" "(0xffff :: 128 word) = mask 16" by (simp_all add: mask_eq_exp_minus_1)
  show "bit (0xff :: 8 word) n \<longleftrightarrow> n < 8" "bit (0xffff :: 128 word) n \<longleftrightarrow> n < 16"
    unfolding m bit_mask_iff by auto
qed

lemma mapped_word:
  "drop_bit 32 (word_of_bytes [0, 0, 0, 0, 0, 0, 0, 0, 0, 0, 0xff, 0xff, a, b, c, d] :: 128 word) = 0xffff"
  "ucast (word_of_bytes [0, 0, 0, 0, 0, 0, 0, 0, 0, 0, 0xff, 0xff, a, b, c, d] :: 128 word) = (word_of_bytes [a, b, c, d] :: 32 word)"
proof -
  have p: "word_of_bytes [0, 0, 0, 0, 0, 0, 0, 0, 0, 0, 0xff, 0xff, a, b, c, d] =
      (push_bit 8 (push_bit 8 (push_bit 8 (push_bit 8 0xffff OR ucast a) OR ucast b) OR ucast c) OR ucast d :: 128 word)"
  proof -
    have "foldl (\<lambda>a b. push_bit 8 a OR ucast b) 0 [0, 0, 0, 0, 0, 0, 0, 0, 0, 0, 0xff, 0xff :: 8 word] = (0xffff :: 128 word)"
      by simp
    then have "foldl (\<lambda>a b. push_bit 8 a OR ucast b) 0 ([0, 0, 0, 0, 0, 0, 0, 0, 0, 0, 0xff, 0xff] @ [a, b, c, d]) =
        foldl (\<lambda>a b. push_bit 8 a OR ucast b) (0xffff :: 128 word) [a, b, c, d]" by (simp only: foldl_append)
    then show ?thesis unfolding word_of_bytes_def by (simp only: append.simps foldl.simps)
  qed
  show "drop_bit 32 (word_of_bytes [0, 0, 0, 0, 0, 0, 0, 0, 0, 0, 0xff, 0xff, a, b, c, d] :: 128 word) = 0xffff"
    unfolding p by (rule bit_word_eqI) (simp only: bit_drop_bit_eq comp_def bit_byte_128 bit_masks, auto)
  show "ucast (word_of_bytes [0, 0, 0, 0, 0, 0, 0, 0, 0, 0, 0xff, 0xff, a, b, c, d] :: 128 word) = (word_of_bytes [a, b, c, d] :: 32 word)"
    unfolding p by (rule bit_word_eqI) (simp only: word_of_bytes_def foldl.simps bit_ucast_iff bit_byte_128 bit_byte_32, auto)
qed

text \<open>Writing an IPv4 address in its IPv4-mapped IPv6 form does not get it past the filter.\<close>

theorem mapped_address_same:
  "publicWebhookIP [0, 0, 0, 0, 0, 0, 0, 0, 0, 0, 0xff, 0xff, a, b, c, d] = publicWebhookIP [a, b, c, d]"
  by (simp add: publicWebhookIP_def AddrFromSlice_def Unmap_def mapped_word)

end
