(* ===== verification/Api_Handlers.thy ===== *)
theory Api_Handlers
  imports Auth Fleet Middleware Webhooks
begin

text \<open>
  The operator endpoints (\<^verbatim>\<open>server/internal/api/handlers.go\<close>): node list, statistics, setup scripts
  and the setup page.  URL parsing, address parsing, time formatting and template rendering are
  arguments.  The setup scripts are spelled out, and a small reader for single-quoted shell words
  shows that the values placed in them come back unchanged, whatever characters they contain.
\<close>

section \<open>Validation and quoting\<close>

definition alnum :: "char \<Rightarrow> bool" where
  "alnum c \<longleftrightarrow> (let n = (of_char c :: nat) in 65 \<le> n \<and> n \<le> 90 \<or> 97 \<le> n \<and> n \<le> 122 \<or> 48 \<le> n \<and> n \<le> 57)"

definition isValidGroupName :: "string \<Rightarrow> bool" where
  "isValidGroupName grp \<longleftrightarrow> grp \<noteq> [] \<and> list_all (\<lambda>c. alnum c \<or> c \<in> set ''._-'') grp"

definition ip6_char :: "char \<Rightarrow> bool" where
  "ip6_char c \<longleftrightarrow> c \<in> set ''0123456789abcdefABCDEF:.''"

definition host_name_ok :: "string \<Rightarrow> bool" where
  "host_name_ok h \<longleftrightarrow>
     h \<noteq> [] \<and> list_all (\<lambda>c. alnum c \<or> c \<in> set ''.-'') h \<or>
     length h > 2 \<and> hd h = CHR ''['' \<and> last h = CHR '']'' \<and> list_all ip6_char (butlast (tl h))"

definition port_suffix_ok :: "string \<Rightarrow> bool" where
  "port_suffix_ok p \<longleftrightarrow>
     p = [] \<or> hd p = CHR '':'' \<and> 1 \<le> length (tl p) \<and> length (tl p) \<le> 5 \<and> list_all (\<lambda>c. c \<in> set ''0123456789'') (tl p)"

text \<open>The host pattern: a name or bracketed address, then an optional port.\<close>

definition validHost :: "string \<Rightarrow> bool" where
  "validHost s \<longleftrightarrow> list_ex (\<lambda>i. host_name_ok (take i s) \<and> port_suffix_ok (drop i s)) [0..<Suc (length s)]"

definition escapeBash :: "string \<Rightarrow> string" where
  "escapeBash s = replace_char (CHR 0x27) [CHR 0x27, CHR 0x5C, CHR 0x27, CHR 0x27] s"

definition escapePowerShell :: "string \<Rightarrow> string" where
  "escapePowerShell s = replace_char (CHR 0x27) [CHR 0x27, CHR 0x27] s"

section \<open>The base URL\<close>

datatype base_url_error = InvalidBaseURL | InsecureBaseURL

record api_env =
  getenv :: "string \<Rightarrow> string"
  parse_url :: "string \<Rightarrow> (string \<times> string \<times> string) option"
  parse_ip :: "string \<Rightarrow> net_ip option"
  format_time :: "time \<Rightarrow> string"
  render_setup :: "string \<Rightarrow> string option"
  api_hmac :: "bytes \<Rightarrow> bytes \<Rightarrow> bytes"
  api_secrets :: secrets

definition isLoopbackHost :: "api_env \<Rightarrow> string \<Rightarrow> bool" where
  "isLoopbackHost A host =
     (if EqualFold host ''localhost'' then True
      else case parse_ip A host of
             None \<Rightarrow> False
           | Some ip \<Rightarrow> (case AddrFromSlice ip of None \<Rightarrow> False | Some a \<Rightarrow> IsLoopback (Unmap a)))"

definition resolveBaseURL :: "api_env \<Rightarrow> http_request \<Rightarrow> base_url_error + string" where
  "resolveBaseURL A r =
     (let configured = getenv A ''BASE_URL'' in
      if configured = [] \<and> \<not> validHost (r_Host r) then Inl InvalidBaseURL
      else
        let baseURL = (if configured = [] then Scheme (getenv A) r @ ''://'' @ r_Host r else configured) in
        case parse_url A baseURL of
          None \<Rightarrow> Inl InvalidBaseURL
        | Some (scheme, host, hostname) \<Rightarrow>
            if scheme \<noteq> ''http'' \<and> scheme \<noteq> ''https'' \<or> host = [] then Inl InvalidBaseURL
            else if scheme = ''http'' \<and> \<not> isLoopbackHost A hostname then Inl InsecureBaseURL
            else Inr baseURL)"

section \<open>Setup scripts\<close>

definition unlines :: "string list \<Rightarrow> string" where
  "unlines ls = concat (map (\<lambda>l. l @ [CHR 0x0A]) ls)"

definition quoted :: "string \<Rightarrow> string" where
  "quoted s = [CHR 0x27] @ s @ [CHR 0x27]"

definition sh_assign_lines :: "string \<Rightarrow> string \<Rightarrow> string \<Rightarrow> string \<Rightarrow> string \<Rightarrow> string list" where
  "sh_assign_lines grp ts nonce sig url =
     [''GROUP='' @ quoted (escapeBash grp), ''TIMESTAMP='' @ quoted (escapeBash ts), ''NONCE='' @ quoted (escapeBash nonce),
      ''SIGNATURE='' @ quoted (escapeBash sig), ''SERVER_URL='' @ quoted (escapeBash url)]"

definition linux_header :: "string list" where
  \<open>linux_header = [''#!/bin/bash'', ''set -e'', ''echo "--- Patchli Agent Setup (Linux) ---"'']\<close>

definition linux_body :: "string list" where
  \<open>linux_body =
     [[], ''echo "1. Creating configuration..."'', ''mkdir -p /etc/patchli'', ''cat <<EOF > /etc/patchli/config.yaml'',
      ''server_url: $SERVER_URL'', ''group: $GROUP'', ''EOF'', [], ''echo "2. Installing systemd service..."'',
      ''cat <<EOF > /etc/systemd/system/patchli-agent.service'', ''[Unit]'', ''Description=Patchli Patch Management Agent'',
      ''After=network.target'', [], ''[Service]'', ''ExecStart=/usr/local/bin/patchli-agent'', ''Restart=always'', ''User=root'',
      [], ''[Install]'', ''WantedBy=multi-user.target'', ''EOF'', [], ''# systemctl daemon-reload'',
      ''# systemctl enable patchli-agent'', ''# systemctl start patchli-agent'', [],
      ''echo "SUCCESS: Patchli Agent configured for group: $GROUP"'']\<close>

definition generateLinuxScript :: "string \<Rightarrow> string \<Rightarrow> string \<Rightarrow> string \<Rightarrow> string \<Rightarrow> string" where
  "generateLinuxScript grp ts nonce sig url =
     unlines (linux_header @ sh_assign_lines grp ts nonce sig url @ linux_body)"

definition alpine_header :: "string list" where
  \<open>alpine_header = [''#!/bin/sh'', ''set -e'', ''echo "--- Patchli Agent Setup (Alpine) ---"'']\<close>

definition alpine_body :: "string list" where
  \<open>alpine_body =
     [[], ''echo "1. Creating configuration..."'', ''mkdir -p /etc/patchli'', ''cat <<EOF > /etc/patchli/config.yaml'',
      ''server_url: $SERVER_URL'', ''group: $GROUP'', ''EOF'', [], ''echo "2. Installing OpenRC service..."'',
      ''cat <<EOF > /etc/init.d/patchli-agent'', ''#!/sbin/openrc-run'', ''name="patchli-agent"'',
      ''command="/usr/local/bin/patchli-agent"'', ''command_background="yes"'', ''pidfile="/run/patchli-agent.pid"'', ''EOF'',
      ''chmod +x /etc/init.d/patchli-agent'', [], ''echo "SUCCESS: Patchli Agent configured for group: $GROUP"'']\<close>

definition generateAlpineScript :: "string \<Rightarrow> string \<Rightarrow> string \<Rightarrow> string \<Rightarrow> string \<Rightarrow> string" where
  "generateAlpineScript grp ts nonce sig url =
     unlines (alpine_header @ sh_assign_lines grp ts nonce sig url @ alpine_body)"

definition windows_header :: "string list" where
  \<open>windows_header = [''$ErrorActionPreference = "Stop"'', ''Write-Host "--- Patchli Agent Setup (Windows) ---"'']\<close>

definition ps_assign_lines :: "string \<Rightarrow> string \<Rightarrow> string \<Rightarrow> string \<Rightarrow> string \<Rightarrow> string list" where
  "ps_assign_lines grp ts nonce sig url =
     [''$Group = '' @ quoted (escapePowerShell grp), ''$Timestamp = '' @ quoted (escapePowerShell ts),
      ''$Nonce = '' @ quoted (escapePowerShell nonce), ''$Signature = '' @ quoted (escapePowerShell sig),
      ''$ServerUrl = '' @ quoted (escapePowerShell url)]"

definition windows_body :: "string list" where
  \<open>windows_body =
     [[], ''Write-Host "1. Creating configuration..."'',
      ''$ConfigDir = "C:'' @ [CHR 0x5C] @ ''ProgramData'' @ [CHR 0x5C] @ ''Patchli"'',
      ''if (!(Test-Path -Path $ConfigDir)) { New-Item -ItemType Directory -Path $ConfigDir | Out-Null }'',
      ''@"'', ''server_url: $ServerUrl'', ''group: $Group'',
      ''"@ | Out-File -FilePath "$ConfigDir'' @ [CHR 0x5C] @ ''config.yaml" -Encoding UTF8'', [],
      ''Write-Host "SUCCESS: Patchli Agent configured for group: $Group"'']\<close>

definition generateWindowsScript :: "string \<Rightarrow> string \<Rightarrow> string \<Rightarrow> string \<Rightarrow> string \<Rightarrow> string" where
  "generateWindowsScript grp ts nonce sig url =
     unlines (windows_header @ ps_assign_lines grp ts nonce sig url @ windows_body)"

section \<open>Handlers\<close>

definition HandleSetup :: "api_env \<Rightarrow> time \<Rightarrow> bytes \<Rightarrow> http_request \<Rightarrow> http_response" where
  "HandleSetup A now rnd r =
     (let g = query_Get r ''group''; grp = (if g = [] then ''default'' else g) in
      if \<not> isValidGroupName grp then http_Error ''Invalid group name'' 400
      else
        let o' = query_Get r ''os''; osType = (if o' = [] then ''linux'' else o') in
        case resolveBaseURL A r of
          Inl _ \<Rightarrow> http_Error ''Invalid server configuration'' 500
        | Inr baseURL \<Rightarrow>
            let timestamp = format_time A now; nonce = NewRegistrationNonce rnd;
                signature = GenerateRegistrationSignature (api_hmac A) (api_secrets A) grp timestamp nonce;
                script = (if osType = ''windows'' then generateWindowsScript grp timestamp nonce signature baseURL
                          else if osType = ''alpine'' then generateAlpineScript grp timestamp nonce signature baseURL
                          else generateLinuxScript grp timestamp nonce signature baseURL)
            in respond [(''Content-Type'', ''text/plain'')] script)"

definition ServeSetupUI :: "api_env \<Rightarrow> http_request \<Rightarrow> http_response" where
  "ServeSetupUI A r =
     (case resolveBaseURL A r of
        Inl _ \<Rightarrow> http_Error ''Invalid server configuration'' 500
      | Inr baseURL \<Rightarrow>
          (case render_setup A baseURL of
             None \<Rightarrow> http_Error ''Failed to render setup page'' 500
           | Some page \<Rightarrow> respond [] page))"

definition marshal_details :: "AgentDetails \<Rightarrow> string" where
  "marshal_details d =
     ''{'' @ join_with '','' [json_field ''hostname'' (ad_Hostname d), json_field ''mac_address'' (ad_MacAddress d),
        json_field ''os'' (ad_OS d), json_field ''kernel'' (ad_Kernel d), json_field ''status'' (ad_Status d),
        json_field ''last_heartbeat'' (ad_LastHeartbeat d)] @ ''}''"

definition HandleNodes :: "AgentManager \<Rightarrow> http_response" where
  "HandleNodes am =
     respond [(''Content-Type'', ''application/json'')]
       (''['' @ join_with '','' (map marshal_details (GetNodes am)) @ '']'' @ [CHR 0x0A])"

definition compliance :: "int \<times> int \<times> int \<Rightarrow> string" where
  "compliance s = dec_int (compliance_percent s) @ ''%''"

definition HandleStats :: "AgentManager \<Rightarrow> http_response" where
  "HandleStats am =
     (case GetStats am of (n, online, reboot) \<Rightarrow>
        respond [(''Content-Type'', ''application/json'')]
          (''{'' @ json_string ''vitality'' @ '':'' @ dec_int n @ '','' @ json_field ''immune'' (compliance (n, online, reboot)) @ '','' @
           json_string ''recovery'' @ '':'' @ dec_int reboot @ ''}'' @ [CHR 0x0A]))"

definition HandleStream :: http_response where
  \<open>HandleStream =
     respond [(''Content-Type'', ''text/event-stream''), (''Cache-Control'', ''no-cache''), (''Connection'', ''keep-alive'')]
       (''data: {"message": "System stream initialized", "level": "system"}'' @ [CHR 0x0A, CHR 0x0A])\<close>

section \<open>Reading the scripts\<close>

text \<open>
  A POSIX shell reads a word built from single-quoted parts and backslash escapes as follows; the
  flag says whether the reader is inside quotes.  Characters that could start an expansion or end
  the word outside quotes make the reader give up, so a successful reading involves none.
\<close>

fun sh_word :: "bool \<Rightarrow> string \<Rightarrow> (string \<times> string) option" where
  "sh_word False [] = Some ([], [])"
| "sh_word False (c # s) =
     (if c = CHR 0x0A then Some ([], c # s)
      else if c = CHR 0x27 then sh_word True s
      else if c = CHR 0x5C then
        (case s of [] \<Rightarrow> None | d # s' \<Rightarrow> if d = CHR 0x0A then None else map_option (\<lambda>(w, r). (d # w, r)) (sh_word False s'))
      else if alnum c then map_option (\<lambda>(w, r). (c # w, r)) (sh_word False s)
      else None)"
| "sh_word True [] = None"
| "sh_word True (c # s) =
     (if c = CHR 0x27 then sh_word False s else map_option (\<lambda>(w, r). (c # w, r)) (sh_word True s))"

definition sh_name :: "string \<Rightarrow> string \<times> string" where
  "sh_name s = (takeWhile (\<lambda>c. c \<noteq> CHR ''='') s, drop 1 (dropWhile (\<lambda>c. c \<noteq> CHR ''='') s))"

text \<open>The first \<open>n\<close> assignments of a script text, one per line.\<close>

fun sh_assignments :: "nat \<Rightarrow> string \<Rightarrow> (string \<times> string) list option" where
  "sh_assignments 0 s = Some []"
| "sh_assignments (Suc n) s =
     (case sh_word False (snd (sh_name s)) of
        None \<Rightarrow> None
      | Some (v, r) \<Rightarrow>
          (case r of [] \<Rightarrow> None | _ # r' \<Rightarrow> map_option (\<lambda>as. (fst (sh_name s), v) # as) (sh_assignments n r')))"

text \<open>PowerShell reads a doubled quote as one, and takes four typographic quotes (in UTF-8) as quotes too.\<close>

fun ps_quoted :: "string \<Rightarrow> (string \<times> string) option" where
  "ps_quoted [] = None"
| "ps_quoted (c # s) =
     (if c = CHR 0xE2 \<and> has_prefix s [CHR 0x80] \<and> 2 \<le> length s \<and> s ! 1 \<in> {CHR 0x98, CHR 0x99, CHR 0x9A, CHR 0x9B}
      then Some ([], drop 2 s)
      else if c = CHR 0x27 then
        (case s of
           (CHR 0x27) # s' \<Rightarrow> map_option (\<lambda>(w, r). (CHR 0x27 # w, r)) (ps_quoted s')
         | _ \<Rightarrow> Some ([], s))
      else map_option (\<lambda>(w, r). (c # w, r)) (ps_quoted s))"

lemma escapeBash_simps [simp]:
  "escapeBash [] = []"
  "escapeBash (c # s) = (if c = CHR 0x27 then [CHR 0x27, CHR 0x5C, CHR 0x27, CHR 0x27] else [c]) @ escapeBash s"
  by (simp_all add: escapeBash_def)

lemma escapePowerShell_simps [simp]:
  "escapePowerShell [] = []"
  "escapePowerShell (c # s) = (if c = CHR 0x27 then [CHR 0x27, CHR 0x27] else [c]) @ escapePowerShell s"
  by (simp_all add: escapePowerShell_def)

lemma sh_word_escaped: "sh_word True (escapeBash s @ CHR 0x27 # r) = map_option (\<lambda>(w, r). (s @ w, r)) (sh_word False r)"
  by (induction s) (auto simp: option.map_comp comp_def split_def option.map_ident)

lemma sh_word_quoted: "sh_word False (quoted (escapeBash s) @ CHR 0x0A # r) = Some (s, CHR 0x0A # r)"
  by (simp add: quoted_def sh_word_escaped)

lemma sh_name_line: "CHR ''='' \<notin> set nm \<Longrightarrow> sh_name (nm @ CHR ''='' # v) = (nm, v)"
  by (induction nm) (auto simp: sh_name_def)

lemma sh_assignments_line:
  assumes "CHR ''='' \<notin> set nm"
  shows "sh_assignments (Suc n) (nm @ ''='' @ quoted (escapeBash s) @ CHR 0x0A # r) =
     map_option (\<lambda>as. (nm, s) # as) (sh_assignments n r)"
  using sh_name_line [OF assms, of "quoted (escapeBash s) @ CHR 0x0A # r"] by (simp add: sh_word_quoted)

lemma unlines_simps [simp]:
  "unlines [] = []" "unlines (l # ls) = l @ CHR 0x0A # unlines ls" "unlines (xs @ ys) = unlines xs @ unlines ys"
  by (simp_all add: unlines_def)

lemma sh_assign_lines_read:
  "sh_assignments 5 (unlines (sh_assign_lines grp ts nonce sig url) @ rest) =
     Some [(''GROUP'', grp), (''TIMESTAMP'', ts), (''NONCE'', nonce), (''SIGNATURE'', sig), (''SERVER_URL'', url)]"
proof -
  have five: "(5::nat) = Suc (Suc (Suc (Suc (Suc 0))))" by simp
  note line = sh_assignments_line [of "''GROUP''", unfolded append.simps] sh_assignments_line [of "''TIMESTAMP''", unfolded append.simps]
    sh_assignments_line [of "''NONCE''", unfolded append.simps] sh_assignments_line [of "''SIGNATURE''", unfolded append.simps]
    sh_assignments_line [of "''SERVER_URL''", unfolded append.simps]
  show ?thesis unfolding five by (simp add: sh_assign_lines_def line del: sh_assignments.simps(2))
qed

text \<open>
  The Linux and Alpine setup scripts carry their values intact: after the fixed header, a shell
  that runs the script assigns exactly the group, timestamp, nonce, signature and server URL it
  was generated for, for all byte strings, and the assignments involve no expansion.
\<close>

theorem setup_scripts_assign:
  "sh_assignments 5 (drop (length (unlines linux_header)) (generateLinuxScript grp ts nonce sig url)) =
     Some [(''GROUP'', grp), (''TIMESTAMP'', ts), (''NONCE'', nonce), (''SIGNATURE'', sig), (''SERVER_URL'', url)] \<and>
   sh_assignments 5 (drop (length (unlines alpine_header)) (generateAlpineScript grp ts nonce sig url)) =
     Some [(''GROUP'', grp), (''TIMESTAMP'', ts), (''NONCE'', nonce), (''SIGNATURE'', sig), (''SERVER_URL'', url)]"
  by (simp only: generateLinuxScript_def generateAlpineScript_def unlines_simps(3) append_eq_conv_conj [THEN iffD1, OF refl]
      append_same_eq drop_append length_append diff_self_eq_0 drop_0 drop_all order_refl append_Nil sh_assign_lines_read simp_thms)

lemma ps_quoted_escaped:
  assumes "\<forall>c \<in> set s. (of_char c :: nat) < 128"
  shows "ps_quoted (escapePowerShell s @ CHR 0x27 # CHR 0x0A # r) = Some (s, CHR 0x0A # r)"
  using assms by (induction s) auto

section \<open>The base URL is safe\<close>

definition url_safe :: "char \<Rightarrow> bool" where
  "url_safe c \<longleftrightarrow> alnum c \<or> c \<in> set ''.-:/[]''"

lemma bracket_url_safe: "url_safe CHR ''[''" "url_safe CHR '']''" "url_safe CHR '':''"
  by (simp_all add: url_safe_def)

lemma ip6_char_url_safe: "ip6_char c \<Longrightarrow> url_safe c"
proof -
  have "list_all url_safe ''0123456789abcdefABCDEF:.''" by code_simp
  then show "ip6_char c \<Longrightarrow> url_safe c" unfolding ip6_char_def list_all_iff by blast
qed

lemma digit_url_safe: "\<forall>c \<in> set ''0123456789''. url_safe c"
  unfolding list_all_iff [symmetric] by code_simp

lemma validHost_safe: "validHost s \<Longrightarrow> list_all url_safe s"
proof -
  assume "validHost s"
  then obtain i where i: "host_name_ok (take i s)" "port_suffix_ok (drop i s)"
    by (auto simp: validHost_def list_ex_iff simp del: upt_Suc)
  have "list_all url_safe (take i s)"
  proof (cases "list_all (\<lambda>c. alnum c \<or> c \<in> set ''.-'') (take i s)")
    case True
    then show ?thesis by (auto simp: list_all_iff url_safe_def)
  next
    case False
    with i(1) have b: "length (take i s) > 2" "hd (take i s) = CHR ''[''" "last (take i s) = CHR '']''"
      "list_all ip6_char (butlast (tl (take i s)))" by (auto simp: host_name_ok_def)
    from b(1,2) obtain t where t: "take i s = CHR ''['' # t" "t \<noteq> []"
      by (cases "take i s"; cases "tl (take i s)") auto
    then have "take i s = CHR ''['' # butlast (tl (take i s)) @ [CHR '']'']"
      using b(3) append_butlast_last_id [of t] by simp
    moreover have "list_all url_safe (butlast (tl (take i s)))"
      using b(4) by (simp add: list_all_iff ip6_char_url_safe)
    ultimately show ?thesis
      using bracket_url_safe by (metis list_all_append list.pred_inject)
  qed
  moreover have "list_all url_safe (drop i s)"
    using i(2) digit_url_safe by (cases "drop i s") (simp, fastforce simp add: port_suffix_ok_def list_all_iff bracket_url_safe)
  ultimately show ?thesis by (metis append_take_drop_id list_all_append)
qed

text \<open>
  Without a configured base URL, the URL taken from the request's Host header cannot carry markup
  or shell syntax: it consists of letters, digits and the characters \<open>. - : / [ ]\<close> only; and in every
  case a base URL that is handed out is HTTPS or names a loopback host, and has a non-empty host.
\<close>

theorem resolved_base_url_safe:
  assumes "resolveBaseURL A r = Inr u"
  shows "(getenv A ''BASE_URL'' = [] \<longrightarrow> list_all url_safe u) \<and>
     (\<exists>scheme host hostname. parse_url A u = Some (scheme, host, hostname) \<and> host \<noteq> [] \<and>
        (scheme = ''https'' \<or> scheme = ''http'' \<and> isLoopbackHost A hostname))"
proof -
  have "list_all url_safe ''https://''" "list_all url_safe ''http://''" by code_simp+
  then have "list_all url_safe (Scheme (getenv A) r @ ''://'')"
    by (simp add: Scheme_def Let_def)
  with assms validHost_safe [of "r_Host r"] show ?thesis
    by (auto simp: resolveBaseURL_def Let_def split: if_splits option.splits prod.splits)
qed

definition demo_api_env :: api_env where
  "demo_api_env =
     \<lparr>getenv = (\<lambda>_. []), parse_url = (\<lambda>u. if u = ''https://p.example'' then Some (''https'', ''p.example'', ''p.example'') else None),
      parse_ip = (\<lambda>_. None), format_time = (\<lambda>_. []), render_setup = (\<lambda>_. None), api_hmac = (\<lambda>_ _. []),
      api_secrets = \<lparr>registrationSecret = [], jwtSecret = []\<rparr>\<rparr>"

definition demo_api_request :: http_request where
  "demo_api_request =
     \<lparr>r_Method = ''GET'', r_Path = ''/setup'', r_Host = ''p.example'', r_RemoteAddr = ''10.0.0.9:1'', r_TLS = True,
      r_Header = [], r_Query = [], r_Body = []\<rparr>"

theorem resolved_base_url_safe_witness:
  "resolveBaseURL demo_api_env demo_api_request = Inr ''https://p.example'' \<and> list_all url_safe ''https://p.example''"
proof -
  have r: "resolveBaseURL demo_api_env demo_api_request = Inr ''https://p.example''" by code_simp
  then show ?thesis using resolved_base_url_safe [OF r] by (simp add: demo_api_env_def)
qed

end
