(* ===== verification/Quick_Lru.thy ===== *)
theory Quick_Lru
  imports Prelude
begin

text \<open>
  The least-recently-used cache bundled with the dashboard's style compiler (class \<open>Cf\<close>,
  \<^verbatim>\<open>quick-lru\<close>, in \<^verbatim>\<open>server/static/assets/js/tailwind.js\<close>).  A JavaScript \<^verbatim>\<open>Map\<close> iterates in insertion
  order and keeps the position of a key that is set again: the association lists of the prelude.
  The clock reading of each operation is an argument (\<open>Date.now()\<close>).  The eviction callback is
  recorded as a log of its calls; it is assumed not to call back into the cache.  Generators are
  modelled as consumed at once, and numbers as integers.
\<close>

section \<open>The cache object\<close>

record 'v lru_entry =
  lru_value :: 'v
  lru_expiry :: "int option"

record ('k, 'v) lru =
  lru_maxSize :: int
  lru_maxAge :: "int option" \<comment> \<open>\<open>None\<close> is \<open>Infinity\<close>\<close>
  lru_onEviction :: bool
  lru_cache :: "('k, 'v lru_entry) gomap"
  lru_oldCache :: "('k, 'v lru_entry) gomap"
  lru_size :: int \<comment> \<open>the field \<open>_size\<close>\<close>
  lru_evicted :: "('k \<times> 'v) list" \<comment> \<open>the calls of \<open>onEviction\<close> so far\<close>

datatype lru_error = MaxSizeNotPositive | MaxAgeZero

definition map_has :: "('k, 'v) gomap \<Rightarrow> 'k \<Rightarrow> bool" where
  "map_has m k \<longleftrightarrow> gget m k \<noteq> None"

definition lru_new :: "int option \<Rightarrow> int option \<Rightarrow> bool \<Rightarrow> lru_error + ('k, 'v) lru" where
  "lru_new msize age callback =
     (case msize of
        None \<Rightarrow> Inl MaxSizeNotPositive
      | Some n \<Rightarrow>
          if \<not> n > 0 then Inl MaxSizeNotPositive
          else if age = Some 0 then Inl MaxAgeZero
          else Inr \<lparr>lru_maxSize = n, lru_maxAge = age, lru_onEviction = callback, lru_cache = [], lru_oldCache = [],
                    lru_size = 0, lru_evicted = []\<rparr>)"

definition lru_emitEvictions :: "('k, 'v) lru \<Rightarrow> ('k \<times> 'v lru_entry) list \<Rightarrow> ('k, 'v) lru" where
  "lru_emitEvictions q es =
     (if lru_onEviction q then q\<lparr>lru_evicted := lru_evicted q @ map (\<lambda>(t, i). (t, lru_value i)) es\<rparr> else q)"

definition lru_delete :: "('k, 'v) lru \<Rightarrow> 'k \<Rightarrow> bool \<times> ('k, 'v) lru" where
  "lru_delete q e =
     (let t = map_has (lru_cache q) e;
          q1 = q\<lparr>lru_cache := gdel e (lru_cache q), lru_size := (if t then lru_size q - 1 else lru_size q)\<rparr>
      in (map_has (lru_oldCache q) e \<or> t, q1\<lparr>lru_oldCache := gdel e (lru_oldCache q)\<rparr>))"

definition lru_deleteIfExpired :: "int \<Rightarrow> ('k, 'v) lru \<Rightarrow> 'k \<Rightarrow> 'v lru_entry \<Rightarrow> bool \<times> ('k, 'v) lru" where
  "lru_deleteIfExpired now q e t =
     (case lru_expiry t of
        None \<Rightarrow> (False, q)
      | Some x \<Rightarrow> if x \<le> now then lru_delete (lru_emitEvictions q [(e, t)]) e else (False, q))"

definition lru_getOrDeleteIfExpired :: "int \<Rightarrow> ('k, 'v) lru \<Rightarrow> 'k \<Rightarrow> 'v lru_entry \<Rightarrow> 'v option \<times> ('k, 'v) lru" where
  "lru_getOrDeleteIfExpired now q e t =
     (case lru_deleteIfExpired now q e t of (d, q') \<Rightarrow> (if d then None else Some (lru_value t), q'))"

text \<open>A recorded expiry of zero is falsy and so never checked here.\<close>

definition lru_getItemValue :: "int \<Rightarrow> ('k, 'v) lru \<Rightarrow> 'k \<Rightarrow> 'v lru_entry \<Rightarrow> 'v option \<times> ('k, 'v) lru" where
  "lru_getItemValue now q e t =
     (if lru_expiry t \<in> {None, Some 0} then (Some (lru_value t), q) else lru_getOrDeleteIfExpired now q e t)"

definition lru_put :: "('k, 'v) lru \<Rightarrow> 'k \<Rightarrow> 'v lru_entry \<Rightarrow> ('k, 'v) lru" where
  "lru_put q e t =
     (let q1 = q\<lparr>lru_cache := gput e t (lru_cache q), lru_size := lru_size q + 1\<rparr> in
      if lru_size q1 \<ge> lru_maxSize q1 then
        let q2 = lru_emitEvictions (q1\<lparr>lru_size := 0\<rparr>) (lru_oldCache q1)
        in q2\<lparr>lru_oldCache := lru_cache q2, lru_cache := []\<rparr>
      else q1)"

definition lru_moveToRecent :: "('k, 'v) lru \<Rightarrow> 'k \<Rightarrow> 'v lru_entry \<Rightarrow> ('k, 'v) lru" where
  "lru_moveToRecent q e t = lru_put (q\<lparr>lru_oldCache := gdel e (lru_oldCache q)\<rparr>) e t"

text \<open>
  The loops over the maps: an entry is left out when it is shadowed or expired; an expired one is
  deleted on the way.  The deletion touches only the key under the iterator.
\<close>

fun lru_scan :: "int \<Rightarrow> bool \<Rightarrow> ('k \<times> 'v lru_entry) list \<Rightarrow> ('k, 'v) lru \<Rightarrow> ('k \<times> 'v lru_entry) list \<times> ('k, 'v) lru" where
  "lru_scan now old [] q = ([], q)"
| "lru_scan now old ((t, i) # es) q =
     (if old \<and> map_has (lru_cache q) t then lru_scan now old es q
      else case lru_deleteIfExpired now q t i of
             (d, q1) \<Rightarrow> (case lru_scan now old es q1 of (ys, q2) \<Rightarrow> (if d then ys else (t, i) # ys, q2)))"

definition lru_scanAscending :: "int \<Rightarrow> ('k, 'v) lru \<Rightarrow> ('k \<times> 'v lru_entry) list \<times> ('k, 'v) lru" where
  "lru_scanAscending now q =
     (case lru_scan now True (lru_oldCache q) q of
        (es, q1) \<Rightarrow> (case lru_scan now False (lru_cache q1) q1 of (fs, q2) \<Rightarrow> (es @ fs, q2)))"

definition lru_get :: "int \<Rightarrow> ('k, 'v) lru \<Rightarrow> 'k \<Rightarrow> 'v option \<times> ('k, 'v) lru" where
  "lru_get now q e =
     (case gget (lru_cache q) e of
        Some t \<Rightarrow> lru_getItemValue now q e t
      | None \<Rightarrow>
          (case gget (lru_oldCache q) e of
             None \<Rightarrow> (None, q)
           | Some t \<Rightarrow>
               (case lru_deleteIfExpired now q e t of
                  (d, q1) \<Rightarrow> if d then (None, q1) else (Some (lru_value t), lru_moveToRecent q1 e t))))"

text \<open>
  The option \<open>maxAge\<close> of \<open>set\<close>, or its default.  Setting a key of the recent map again stores the
  instant under the property \<open>maxAge\<close>, which nothing reads: the entry has no expiry.
\<close>

definition lru_deadline :: "int \<Rightarrow> ('k, 'v) lru \<Rightarrow> int option \<Rightarrow> int option" where
  "lru_deadline now q opt = (case opt of Some a \<Rightarrow> Some a | None \<Rightarrow> map_option (\<lambda>a. now + a) (lru_maxAge q))"

definition lru_set :: "int \<Rightarrow> ('k, 'v) lru \<Rightarrow> 'k \<Rightarrow> 'v \<Rightarrow> int option \<Rightarrow> ('k, 'v) lru" where
  "lru_set now q e t opt =
     (let i = lru_deadline now q opt in
      if map_has (lru_cache q) e
      then q\<lparr>lru_cache := gput e \<lparr>lru_value = t, lru_expiry = None\<rparr> (lru_cache q)\<rparr>
      else lru_put q e \<lparr>lru_value = t, lru_expiry = i\<rparr>)"

definition lru_has :: "int \<Rightarrow> ('k, 'v) lru \<Rightarrow> 'k \<Rightarrow> bool \<times> ('k, 'v) lru" where
  "lru_has now q e =
     (case gget (lru_cache q) e of
        Some t \<Rightarrow> (case lru_deleteIfExpired now q e t of (d, q1) \<Rightarrow> (\<not> d, q1))
      | None \<Rightarrow>
          (case gget (lru_oldCache q) e of
             Some t \<Rightarrow> (case lru_deleteIfExpired now q e t of (d, q1) \<Rightarrow> (\<not> d, q1))
           | None \<Rightarrow> (False, q)))"

definition lru_peek :: "int \<Rightarrow> ('k, 'v) lru \<Rightarrow> 'k \<Rightarrow> 'v option \<times> ('k, 'v) lru" where
  "lru_peek now q e =
     (case gget (lru_cache q) e of
        Some t \<Rightarrow> lru_getItemValue now q e t
      | None \<Rightarrow> (case gget (lru_oldCache q) e of Some t \<Rightarrow> lru_getItemValue now q e t | None \<Rightarrow> (None, q)))"

definition lru_clear :: "('k, 'v) lru \<Rightarrow> ('k, 'v) lru" where
  "lru_clear q = q\<lparr>lru_cache := [], lru_oldCache := [], lru_size := 0\<rparr>"

definition new_Map :: "('k \<times> 'v) list \<Rightarrow> ('k, 'v) gomap" where
  "new_Map es = fold (\<lambda>(k, v) m. gput k v m) es []"

definition lru_resize :: "int \<Rightarrow> ('k, 'v) lru \<Rightarrow> int \<Rightarrow> lru_error + ('k, 'v) lru" where
  "lru_resize now q e =
     (if \<not> e > 0 then Inl MaxSizeNotPositive
      else case lru_scanAscending now q of
             (t, q1) \<Rightarrow>
               let i = int (length t) - e;
                   q2 = (if i < 0 then q1\<lparr>lru_cache := new_Map t, lru_oldCache := [], lru_size := int (length t)\<rparr>
                         else (if i > 0 then lru_emitEvictions q1 (take (nat i) t) else q1)
                                \<lparr>lru_oldCache := new_Map (drop (nat i) t), lru_cache := [], lru_size := 0\<rparr>)
               in Inr (q2\<lparr>lru_maxSize := e\<rparr>))"

definition lru_iterator :: "int \<Rightarrow> ('k, 'v) lru \<Rightarrow> ('k \<times> 'v) list \<times> ('k, 'v) lru" where
  "lru_iterator now q =
     (case lru_scan now False (lru_cache q) q of
        (es, q1) \<Rightarrow> (case lru_scan now True (lru_oldCache q1) q1 of
           (fs, q2) \<Rightarrow> (map (\<lambda>(t, i). (t, lru_value i)) (es @ fs), q2)))"

definition lru_keys :: "int \<Rightarrow> ('k, 'v) lru \<Rightarrow> 'k list \<times> ('k, 'v) lru" where
  "lru_keys now q = (case lru_iterator now q of (es, q1) \<Rightarrow> (map fst es, q1))"

definition lru_values :: "int \<Rightarrow> ('k, 'v) lru \<Rightarrow> 'v list \<times> ('k, 'v) lru" where
  "lru_values now q = (case lru_iterator now q of (es, q1) \<Rightarrow> (map snd es, q1))"

definition lru_entriesDescending :: "int \<Rightarrow> ('k, 'v) lru \<Rightarrow> ('k \<times> 'v) list \<times> ('k, 'v) lru" where
  "lru_entriesDescending now q =
     (case lru_scan now False (rev (lru_cache q)) q of
        (es, q1) \<Rightarrow> (case lru_scan now True (rev (lru_oldCache q1)) q1 of
           (fs, q2) \<Rightarrow> (map (\<lambda>(t, i). (t, lru_value i)) (es @ fs), q2)))"

definition lru_entriesAscending :: "int \<Rightarrow> ('k, 'v) lru \<Rightarrow> ('k \<times> 'v) list \<times> ('k, 'v) lru" where
  "lru_entriesAscending now q =
     (case lru_scanAscending now q of (es, q1) \<Rightarrow> (map (\<lambda>(t, i). (t, lru_value i)) es, q1))"

definition lru_getSize :: "('k, 'v) lru \<Rightarrow> int" where
  "lru_getSize q =
     (if lru_size q = 0 then int (length (lru_oldCache q))
      else min (lru_size q + int (length (filter (\<lambda>t. \<not> map_has (lru_cache q) t) (map fst (lru_oldCache q))))) (lru_maxSize q))"

section \<open>Operations in sequence\<close>

datatype ('k, 'v) lru_op =
  LruGet 'k | LruSet 'k 'v "int option" | LruHas 'k | LruPeek 'k | LruDelete 'k | LruClear | LruResize int | LruIterate
  | LruDescending

definition lru_step :: "('k, 'v) lru \<Rightarrow> int \<times> ('k, 'v) lru_op \<Rightarrow> ('k, 'v) lru" where
  "lru_step q c =
     (case c of (now, op) \<Rightarrow>
       (case op of
          LruGet k \<Rightarrow> snd (lru_get now q k)
        | LruSet k v opt \<Rightarrow> lru_set now q k v opt
        | LruHas k \<Rightarrow> snd (lru_has now q k)
        | LruPeek k \<Rightarrow> snd (lru_peek now q k)
        | LruDelete k \<Rightarrow> snd (lru_delete q k)
        | LruClear \<Rightarrow> lru_clear q
        | LruResize n \<Rightarrow> (case lru_resize now q n of Inl _ \<Rightarrow> q | Inr q' \<Rightarrow> q')
        | LruIterate \<Rightarrow> snd (lru_iterator now q)
        | LruDescending \<Rightarrow> snd (lru_entriesDescending now q)))"

section \<open>The bound\<close>

definition lru_ok :: "('k, 'v) lru \<Rightarrow> bool" where
  "lru_ok q \<longleftrightarrow> lru_maxSize q > 0 \<and> gwf (lru_cache q) \<and> gwf (lru_oldCache q) \<and> lru_size q = int (length (lru_cache q)) \<and>
     lru_size q < lru_maxSize q \<and> int (length (lru_oldCache q)) \<le> lru_maxSize q"

lemma map_has_iff: "map_has m k \<longleftrightarrow> k \<in> fst ` set m"
  by (simp add: map_has_def map_of_eq_None_iff)

lemma length_gdel: "gwf m \<Longrightarrow> length (gdel k m) = (if map_has m k then length m - 1 else length m)"
proof (induction m)
  case (Cons p m)
  then show ?case
    by (cases m) (auto simp: gwf_def map_has_iff delete_id split: prod.splits if_splits)
qed (simp add: map_has_iff)

lemma length_gdel_le: "length (gdel k m) \<le> length m"
  by (rule length_delete_le)

lemma length_gput: "length (gput k v m) = (if map_has m k then length m else Suc (length m))"
  by (induction m) (auto simp: map_has_iff)

lemma map_has_length: "map_has m k \<Longrightarrow> 0 < length m"
  by (cases m) (simp_all add: map_has_def)

lemma lru_emitEvictions_sel [simp]:
  "lru_maxSize (lru_emitEvictions q es) = lru_maxSize q"
  "lru_maxAge (lru_emitEvictions q es) = lru_maxAge q"
  "lru_cache (lru_emitEvictions q es) = lru_cache q"
  "lru_oldCache (lru_emitEvictions q es) = lru_oldCache q"
  "lru_size (lru_emitEvictions q es) = lru_size q"
  by (simp_all add: lru_emitEvictions_def)

lemma lru_emitEvictions_ok [simp]: "lru_ok (lru_emitEvictions q es) = lru_ok q"
  by (simp add: lru_ok_def)

lemma lru_delete_ok: "lru_ok q \<Longrightarrow> lru_ok (snd (lru_delete q k))"
  using map_has_length [of "lru_cache q" k] length_gdel_le [of k "lru_oldCache q"]
  by (auto simp: lru_ok_def lru_delete_def Let_def length_gdel of_nat_diff Suc_le_eq)

lemma lru_deleteIfExpired_ok: "lru_ok q \<Longrightarrow> lru_ok (snd (lru_deleteIfExpired now q k t))"
  by (simp add: lru_deleteIfExpired_def lru_delete_ok split: option.split)

lemma lru_getItemValue_ok: "lru_ok q \<Longrightarrow> lru_ok (snd (lru_getItemValue now q k t))"
  using lru_deleteIfExpired_ok [of q now k t]
  by (auto simp: lru_getItemValue_def lru_getOrDeleteIfExpired_def split: prod.split)

lemma lru_put_ok: "lru_ok q \<Longrightarrow> \<not> map_has (lru_cache q) k \<Longrightarrow> lru_ok (lru_put q k t)"
  by (auto simp: lru_ok_def lru_put_def Let_def length_gput)

lemma lru_scan_ok: "lru_ok q \<Longrightarrow> lru_ok (snd (lru_scan now old es q))"
proof (induction now old es q rule: lru_scan.induct)
  case (2 now old t i es q)
  obtain d q1 where d: "lru_deleteIfExpired now q t i = (d, q1)" by fastforce
  with 2(3) lru_deleteIfExpired_ok [of q now t i] have ok: "lru_ok q1" by simp
  show ?case
  proof (cases "old \<and> map_has (lru_cache q) t")
    case False
    from 2(2) [OF False d [symmetric] ok] False d show ?thesis by (auto split: prod.split)
  qed (use 2 in simp)
qed simp

lemma lru_deleteIfExpired_cache:
  "lru_deleteIfExpired now q t i = (d, q1) \<Longrightarrow> \<not> map_has (lru_cache q) t \<Longrightarrow> lru_cache q1 = lru_cache q"
  by (auto simp: lru_deleteIfExpired_def lru_delete_def Let_def map_has_iff delete_id split: option.splits if_splits)

lemma lru_scan_old:
  assumes "lru_scan now True es q = (ys, q1)"
  shows "lru_cache q1 = lru_cache q \<and> (\<forall>k \<in> fst ` set ys. \<not> map_has (lru_cache q) k)"
  using assms
proof (induction now True es q arbitrary: ys q1 rule: lru_scan.induct)
  case (2 now t i es q)
  show ?case
  proof (cases "map_has (lru_cache q) t")
    case False
    obtain d q' where d: "lru_deleteIfExpired now q t i = (d, q')" by fastforce
    obtain zs q'' where z: "lru_scan now True es q' = (zs, q'')" by fastforce
    from 2(2) [OF _ d [symmetric] z] False lru_deleteIfExpired_cache [OF d False] 2(3) d z show ?thesis
      by (auto split: if_splits)
  next
    case True
    with 2(3) have "lru_scan now True es q = (ys, q1)" by simp
    from 2(1) [OF _ this] True show ?thesis by blast
  qed
qed simp

lemma lru_scan_sub: "lru_scan now old es q = (ys, q1) \<Longrightarrow> set ys \<subseteq> set es \<and> (gwf es \<longrightarrow> gwf ys)"
proof (induction now old es q arbitrary: ys q1 rule: lru_scan.induct)
  case (2 now old t i es q)
  obtain d q' where d: "lru_deleteIfExpired now q t i = (d, q')" by fastforce
  obtain zs q'' where z: "lru_scan now old es q' = (zs, q'')" by fastforce
  show ?case
  proof (cases "old \<and> map_has (lru_cache q) t")
    case True
    with 2 show ?thesis by (fastforce simp: gwf_def)
  next
    case False
    with 2(3) d z have ys: "ys = (if d then zs else (t, i) # zs)" by auto
    note sub = 2(2) [OF False d [symmetric] z]
    then have "t \<notin> fst ` set es \<Longrightarrow> t \<notin> fst ` set zs" by blast
    with sub ys show ?thesis by (auto simp: gwf_def)
  qed
qed simp

lemma lru_scanAscending_ok:
  assumes "lru_ok q" "lru_scanAscending now q = (es, q1)"
  shows "gwf es \<and> lru_ok q1"
proof -
  obtain a qa where a: "lru_scan now True (lru_oldCache q) q = (a, qa)" by fastforce
  obtain b qb where b: "lru_scan now False (lru_cache qa) qa = (b, qb)" by fastforce
  have ok: "lru_ok qa" "lru_ok qb"
    using lru_scan_ok [OF assms(1), of now True "lru_oldCache q"] a lru_scan_ok [of qa now False "lru_cache qa"] b by auto
  have "gwf a" "gwf b" using lru_scan_sub [OF a] lru_scan_sub [OF b] assms(1) ok(1) by (simp_all add: lru_ok_def)
  moreover have "fst ` set a \<inter> fst ` set b = {}"
    using conjunct1 [OF lru_scan_sub [OF b], THEN image_mono [of _ _ fst]] lru_scan_old [OF a]
    unfolding map_has_iff by (simp only:) blast
  ultimately show ?thesis using assms(2) a b ok(2) by (auto simp: lru_scanAscending_def gwf_def)
qed

lemma new_Map_id: "gwf es \<Longrightarrow> new_Map es = es"
proof (induction es rule: rev_induct)
  case (snoc p es)
  then have "gwf es" "fst p \<notin> fst ` set es" by (auto simp: gwf_def)
  moreover have "k \<notin> fst ` set m \<Longrightarrow> gput k v m = m @ [(k, v)]" for k v and m :: "('a \<times> 'b) list"
    by (induction m) auto
  ultimately show ?case using snoc by (cases p) (simp add: new_Map_def)
qed (simp add: new_Map_def)

lemma gwf_drop: "gwf es \<Longrightarrow> gwf (drop n es)"
  by (simp add: gwf_def drop_map [symmetric])

lemma lru_resize_ok: "lru_ok q \<Longrightarrow> lru_resize now q n = Inr q' \<Longrightarrow> lru_ok q'"
proof -
  assume ok: "lru_ok q" and r: "lru_resize now q n = Inr q'"
  obtain es q1 where e: "lru_scanAscending now q = (es, q1)" by fastforce
  note es = lru_scanAscending_ok [OF ok e]
  from es have "new_Map es = es" "new_Map (drop (nat i) es) = drop (nat i) es" for i
    by (simp_all add: new_Map_id gwf_drop)
  with es r e show "lru_ok q'"
    by (auto simp: lru_resize_def Let_def lru_ok_def gwf_drop split: if_splits)
qed

lemma lru_get_ok: "lru_ok q \<Longrightarrow> lru_ok (snd (lru_get now q k))"
proof (cases "gget (lru_cache q) k")
  case None
  assume ok: "lru_ok q"
  show ?thesis
  proof (cases "gget (lru_oldCache q) k")
    case (Some t)
    obtain d q1 where d: "lru_deleteIfExpired now q k t = (d, q1)" by fastforce
    with lru_deleteIfExpired_ok [OF ok, of now k t] have "lru_ok q1" by simp
    moreover have "\<not> map_has (lru_cache q1) k"
      using lru_deleteIfExpired_cache [OF d] None by (simp add: map_has_def)
    ultimately have "lru_ok (lru_moveToRecent q1 k t)"
      using length_gdel_le [of k "lru_oldCache q1"] unfolding lru_moveToRecent_def
      by (intro lru_put_ok) (auto simp: lru_ok_def)
    with \<open>lru_ok q1\<close> None Some d show ?thesis by (simp add: lru_get_def)
  qed (use None ok in \<open>simp add: lru_get_def\<close>)
qed (simp add: lru_get_def lru_getItemValue_ok)

lemma lru_set_ok: "lru_ok q \<Longrightarrow> lru_ok (lru_set now q k v opt)"
proof (cases "map_has (lru_cache q) k")
  case True
  then show "lru_ok q \<Longrightarrow> ?thesis" by (auto simp: lru_set_def length_gput lru_ok_def)
qed (simp add: lru_set_def lru_put_ok)

lemma lru_deleteIfExpired_okD: "lru_deleteIfExpired now q k t = (d, q1) \<Longrightarrow> lru_ok q \<Longrightarrow> lru_ok q1"
  by (metis lru_deleteIfExpired_ok snd_conv)

lemma lru_scan_okD: "lru_scan now old es q = (ys, q1) \<Longrightarrow> lru_ok q \<Longrightarrow> lru_ok q1"
  by (metis lru_scan_ok snd_conv)

lemma lru_peek_ok: "lru_ok q \<Longrightarrow> lru_ok (snd (lru_peek now q k))"
  by (simp add: lru_peek_def lru_getItemValue_ok split: option.split)

lemma lru_has_ok: "lru_ok q \<Longrightarrow> lru_ok (snd (lru_has now q k))"
  by (auto simp: lru_has_def split: option.split prod.split dest: lru_deleteIfExpired_okD)

lemma lru_iterator_ok: "lru_ok q \<Longrightarrow> lru_ok (snd (lru_iterator now q))"
  by (auto simp: lru_iterator_def split: prod.split dest!: lru_scan_okD)

lemma lru_entriesDescending_ok: "lru_ok q \<Longrightarrow> lru_ok (snd (lru_entriesDescending now q))"
  by (auto simp: lru_entriesDescending_def split: prod.split dest!: lru_scan_okD)

lemmas lru_ops_ok = lru_get_ok lru_set_ok lru_peek_ok lru_has_ok lru_delete_ok lru_iterator_ok lru_entriesDescending_ok

lemma lru_step_ok: "lru_ok q \<Longrightarrow> lru_ok (lru_step q c)"
proof (cases "snd c")
  case LruClear
  assume "lru_ok q"
  with LruClear show ?thesis by (auto simp: lru_step_def lru_clear_def lru_ok_def split: prod.split)
qed (auto simp: lru_step_def lru_ops_ok dest: lru_resize_ok split: prod.split sum.split)

lemma lru_run_ok: "lru_ok q \<Longrightarrow> lru_ok (foldl lru_step q cs)"
  by (induction cs arbitrary: q) (simp_all add: lru_step_ok)

lemma lru_new_ok: "lru_new n a b = Inr q \<Longrightarrow> lru_ok q"
  by (auto simp: lru_new_def lru_ok_def split: option.splits if_splits)

lemma lru_getSize_le: "lru_ok q \<Longrightarrow> 0 \<le> lru_getSize q \<and> lru_getSize q \<le> lru_maxSize q"
  by (auto simp: lru_getSize_def lru_ok_def)

text \<open>
  The cache is bounded under every sequence of its operations (get, set, has, peek, delete, clear,
  resize, both iterations), whatever the clock does: its counter is the number of recent entries,
  fewer than the maximum; the reported size is at most the maximum; the two maps together hold
  fewer than twice the maximum.
\<close>

theorem lru_bounded:
  assumes "lru_new n a cb = Inr q0"
  shows "let q = foldl lru_step q0 cs in
     lru_size q = int (length (lru_cache q)) \<and> lru_size q < lru_maxSize q \<and>
     0 \<le> lru_getSize q \<and> lru_getSize q \<le> lru_maxSize q \<and>
     int (length (lru_cache q) + length (lru_oldCache q)) < 2 * lru_maxSize q"
proof -
  have ok: "lru_ok (foldl lru_step q0 cs)" by (rule lru_run_ok [OF lru_new_ok [OF assms]])
  with lru_getSize_le [OF ok] show ?thesis by (auto simp: Let_def lru_ok_def)
qed

theorem lru_bounded_witness:
  "\<exists>q0 :: (nat, nat) lru. lru_new (Some 2) None True = Inr q0 \<and>
     lru_getSize (foldl lru_step q0 [(0, LruSet 1 1 None), (0, LruSet 2 2 None), (0, LruSet 3 3 None)]) \<le> 2"
proof -
  obtain q0 :: "(nat, nat) lru" where q0: "lru_new (Some 2) None True = Inr q0" by (simp add: lru_new_def)
  have "lru_maxSize (foldl lru_step q0 [(0, LruSet 1 1 None), (0, LruSet 2 2 None), (0, LruSet 3 3 None)]) = 2"
    using q0 by (auto simp: lru_new_def lru_step_def lru_set_def lru_put_def map_has_def Let_def lru_emitEvictions_def)
  with q0 lru_bounded [OF q0, of "[(0, LruSet 1 1 None), (0, LruSet 2 2 None), (0, LruSet 3 3 None)]"]
  show ?thesis by (auto simp: Let_def)
qed

section \<open>Recent entries survive\<close>

fun lru_keeps :: "'k \<Rightarrow> ('k, 'v) lru_op \<Rightarrow> bool" where
  "lru_keeps k (LruGet _) = True"
| "lru_keeps k (LruHas _) = True"
| "lru_keeps k (LruPeek _) = True"
| "lru_keeps k (LruSet k' _ _) = (k' \<noteq> k)"
| "lru_keeps k (LruDelete k') = (k' \<noteq> k)"
| "lru_keeps k _ = False"

text \<open>
  The entry of \<open>k\<close> is fresh before the instant \<open>X\<close>, and it is in the recent map, or in the old map
  with more than \<open>n\<close> insertions to go until that map is dropped.
\<close>

definition fresh_entry :: "int \<Rightarrow> 'v \<Rightarrow> 'v lru_entry \<Rightarrow> bool" where
  "fresh_entry X v t \<longleftrightarrow> lru_value t = v \<and> (\<forall>x. lru_expiry t = Some x \<longrightarrow> X \<le> x)"

definition lru_holds :: "int \<Rightarrow> 'k \<Rightarrow> 'v \<Rightarrow> int \<Rightarrow> ('k, 'v) lru \<Rightarrow> bool" where
  "lru_holds X k v n q \<longleftrightarrow> n < lru_maxSize q \<and>
     (case gget (lru_cache q) k of
        Some t \<Rightarrow> fresh_entry X v t
      | None \<Rightarrow> (\<exists>t. gget (lru_oldCache q) k = Some t \<and> fresh_entry X v t) \<and> lru_size q + n < lru_maxSize q)"

lemma fresh_not_deleted: "fresh_entry X v t \<Longrightarrow> now < X \<Longrightarrow> lru_deleteIfExpired now q k t = (False, q)"
  by (auto simp: fresh_entry_def lru_deleteIfExpired_def split: option.split)

lemma fresh_item: "fresh_entry X v t \<Longrightarrow> now < X \<Longrightarrow> lru_getItemValue now q k t = (Some v, q)"
  by (simp add: lru_getItemValue_def lru_getOrDeleteIfExpired_def fresh_not_deleted) (simp add: fresh_entry_def)

lemma lru_holds_mono: "lru_holds X k v n q \<Longrightarrow> m \<le> n \<Longrightarrow> lru_holds X k v m q"
  by (auto simp: lru_holds_def split: option.splits)

lemma delete_other_holds: "lru_holds X k v n q \<Longrightarrow> k' \<noteq> k \<Longrightarrow> lru_holds X k v n (snd (lru_delete q k'))"
  by (auto simp: lru_holds_def lru_delete_def Let_def split: option.splits)

lemma emit_holds [simp]: "lru_holds X k v n (lru_emitEvictions q es) = lru_holds X k v n q"
  by (simp add: lru_holds_def split: option.split)

lemma deleteIfExpired_other_holds:
  "lru_holds X k v n q \<Longrightarrow> k' \<noteq> k \<Longrightarrow> lru_holds X k v n (snd (lru_deleteIfExpired now q k' t))"
  by (simp add: lru_deleteIfExpired_def delete_other_holds split: option.split)

lemma getItemValue_other_holds:
  "lru_holds X k v n q \<Longrightarrow> k' \<noteq> k \<Longrightarrow> lru_holds X k v n (snd (lru_getItemValue now q k' t))"
  using deleteIfExpired_other_holds [of X k v n q k' now t]
  by (auto simp: lru_getItemValue_def lru_getOrDeleteIfExpired_def split: prod.split)

lemma put_other_holds:
  "lru_holds X k v n q \<Longrightarrow> 0 < n \<Longrightarrow> k' \<noteq> k \<Longrightarrow> lru_holds X k v (n - 1) (lru_put q k' t)"
  by (auto simp: lru_holds_def lru_put_def Let_def split: option.splits)

lemma put_same_holds:
  "fresh_entry X v t \<Longrightarrow> n < lru_maxSize q \<Longrightarrow> lru_holds X k v n (lru_put q k t)"
  by (auto simp: lru_holds_def lru_put_def Let_def)

lemma moveToRecent_holds:
  assumes "lru_holds X k v n q" "0 < n" "k' = k \<longrightarrow> fresh_entry X v t"
  shows "lru_holds X k v (n - 1) (lru_moveToRecent q k' t)"
proof (cases "k' = k")
  case True
  have "n - 1 < lru_maxSize (q\<lparr>lru_oldCache := gdel k (lru_oldCache q)\<rparr>)" using assms(1) by (simp add: lru_holds_def)
  from put_same_holds [OF _ this, of X v t k] assms(3) True show ?thesis by (simp add: lru_moveToRecent_def)
next
  case False
  then have "lru_holds X k v n (q\<lparr>lru_oldCache := gdel k' (lru_oldCache q)\<rparr>)"
    using assms by (auto simp: lru_holds_def split: option.splits)
  from put_other_holds [OF this assms(2) False] show ?thesis by (simp add: lru_moveToRecent_def)
qed

lemma holds_fresh:
  "lru_holds X k v n q \<Longrightarrow> gget (lru_cache q) k = Some t \<Longrightarrow> fresh_entry X v t"
  "lru_holds X k v n q \<Longrightarrow> gget (lru_cache q) k = None \<Longrightarrow> gget (lru_oldCache q) k = Some t \<Longrightarrow> fresh_entry X v t"
  by (auto simp: lru_holds_def)

lemma get_holds:
  assumes "lru_holds X k v n q" "0 < n" "now < X"
  shows "lru_holds X k v (n - 1) (snd (lru_get now q k'))"
proof (cases "gget (lru_cache q) k'")
  case (Some t)
  with assms have "lru_holds X k v n (snd (lru_getItemValue now q k' t))"
    using fresh_item [of X v t now q k'] holds_fresh(1) [OF assms(1), of t] getItemValue_other_holds [OF assms(1), of k' now t]
    by (cases "k' = k") auto
  with Some show ?thesis by (simp add: lru_get_def lru_holds_mono)
next
  case None
  show ?thesis
  proof (cases "gget (lru_oldCache q) k'")
    case (Some t)
    obtain d q1 where d: "lru_deleteIfExpired now q k' t = (d, q1)" by fastforce
    have fr: "k' = k \<longrightarrow> fresh_entry X v t" using holds_fresh(2) [OF assms(1)] None Some by blast
    have h1: "lru_holds X k v n q1"
    proof (cases "k' = k")
      case True
      with fr fresh_not_deleted [of X v t now q k'] d assms show ?thesis by simp
    next
      case False
      from deleteIfExpired_other_holds [OF assms(1) this, of now t] d show ?thesis by simp
    qed
    from moveToRecent_holds [OF h1 assms(2) fr] lru_holds_mono [OF h1, of "n - 1"] None Some d show ?thesis
      by (simp add: lru_get_def)
  qed (use None assms in \<open>simp add: lru_get_def lru_holds_mono\<close>)
qed

lemma has_peek_holds:
  assumes "lru_holds X k v n q" "now < X"
  shows "lru_holds X k v n (snd (lru_has now q k'))" "lru_holds X k v n (snd (lru_peek now q k'))"
proof -
  have fr: "fresh_entry X v t"
    if "k' = k" "gget (lru_cache q) k' = Some t \<or> gget (lru_cache q) k' = None \<and> gget (lru_oldCache q) k' = Some t" for t
    using that assms(1) by (auto dest: holds_fresh)
  have d: "lru_holds X k v n q1"
    if "gget (lru_cache q) k' = Some t \<or> gget (lru_cache q) k' = None \<and> gget (lru_oldCache q) k' = Some t"
      "lru_deleteIfExpired now q k' t = (b, q1)" for t b q1
    using that fr fresh_not_deleted [of X v t now q k'] deleteIfExpired_other_holds [OF assms(1), of k' now t] assms
    by (cases "k' = k") auto
  have g: "lru_holds X k v n (snd (lru_getItemValue now q k' t))"
    if "gget (lru_cache q) k' = Some t \<or> gget (lru_cache q) k' = None \<and> gget (lru_oldCache q) k' = Some t" for t
    using that fr fresh_item [of X v t now q k'] getItemValue_other_holds [OF assms(1), of k' now t] assms
    by (cases "k' = k") auto
  show "lru_holds X k v n (snd (lru_has now q k'))"
    using d assms(1) by (auto simp: lru_has_def split: option.split prod.split)
  show "lru_holds X k v n (snd (lru_peek now q k'))"
    using g assms(1) by (auto simp: lru_peek_def split: option.split)
qed

lemma set_other_holds:
  assumes "lru_holds X k v n q" "0 < n" "k' \<noteq> k"
  shows "lru_holds X k v (n - 1) (lru_set now q k' w opt)"
proof (cases "map_has (lru_cache q) k'")
  case True
  with assms show ?thesis by (auto simp: lru_set_def lru_holds_def split: option.splits)
qed (simp add: lru_set_def put_other_holds assms)

lemma set_same_holds:
  assumes "\<forall>x. lru_deadline now q opt = Some x \<longrightarrow> X \<le> x" "n < lru_maxSize q"
  shows "lru_holds X k v n (lru_set now q k v opt)"
  using assms by (auto simp: lru_set_def Let_def fresh_entry_def lru_holds_def intro!: put_same_holds [unfolded lru_holds_def])

lemma step_holds:
  assumes "lru_holds X k v n q" "0 < n" "fst c < X" "lru_keeps k (snd c)"
  shows "lru_holds X k v (n - 1) (lru_step q c)"
proof -
  obtain now op where c: "c = (now, op)" by fastforce
  note holds = get_holds [OF assms(1,2)] set_other_holds [OF assms(1,2)] has_peek_holds [OF assms(1), THEN lru_holds_mono]
    delete_other_holds [OF assms(1), THEN lru_holds_mono]
  from assms(3,4) show ?thesis unfolding c lru_step_def by (cases op) (simp_all add: holds)
qed

lemma run_holds:
  assumes "lru_holds X k v (int (length cs) + n) q" "0 \<le> n" "\<forall>c \<in> set cs. fst c < X \<and> lru_keeps k (snd c)"
  shows "lru_holds X k v n (foldl lru_step q cs)"
  using assms
proof (induction cs arbitrary: q)
  case (Cons c cs)
  from step_holds [OF Cons.prems(1)] Cons.prems(2,3) have "lru_holds X k v (int (length cs) + n) (lru_step q c)"
    by (simp add: algebra_simps)
  with Cons show ?case by simp
qed simp

lemma holds_read:
  assumes "lru_holds X k v n q" "now < X"
  shows "fst (lru_get now q k) = Some v" "fst (lru_peek now q k) = Some v" "fst (lru_has now q k)"
proof -
  consider t where "gget (lru_cache q) k = Some t" "fresh_entry X v t"
    | t where "gget (lru_cache q) k = None" "gget (lru_oldCache q) k = Some t" "fresh_entry X v t"
    using assms(1) by (auto simp: lru_holds_def split: option.splits)
  then show "fst (lru_get now q k) = Some v" "fst (lru_peek now q k) = Some v" "fst (lru_has now q k)"
    by (cases; simp add: lru_get_def lru_peek_def lru_has_def fresh_item [OF _ assms(2)] fresh_not_deleted [OF _ assms(2)];
        simp add: fresh_entry_def)+
qed

text \<open>
  C30. A value that was just set is not evicted early: until its deadline, any sequence of fewer than
  the maximum number of operations that neither set nor delete its key leaves it readable by get, peek and has.
\<close>

theorem recent_entry_survives:
  assumes "\<forall>x. lru_deadline now0 q opt = Some x \<longrightarrow> X \<le> x"
    and "\<forall>c \<in> set cs. fst c < X \<and> lru_keeps k (snd c)" "int (length cs) < lru_maxSize q" "now < X"
  shows "let q' = foldl lru_step (lru_set now0 q k v opt) cs in
     fst (lru_get now q' k) = Some v \<and> fst (lru_peek now q' k) = Some v \<and> fst (lru_has now q' k)"
proof -
  have "lru_holds X k v (int (length cs) + 0) (lru_set now0 q k v opt)"
    using set_same_holds [OF assms(1)] assms(3) by simp
  from run_holds [OF this _ assms(2)] have "lru_holds X k v 0 (foldl lru_step (lru_set now0 q k v opt) cs)" by simp
  from holds_read [OF this assms(4)] show ?thesis by (simp add: Let_def)
qed

definition demo_lru :: "(nat, nat) lru" where
  "demo_lru = \<lparr>lru_maxSize = 2, lru_maxAge = Some 100, lru_onEviction = False, lru_cache = [], lru_oldCache = [],
     lru_size = 0, lru_evicted = []\<rparr>"

theorem recent_entry_survives_witness:
  "fst (lru_get 20 (foldl lru_step (lru_set 5 demo_lru 1 7 None) [(10, LruSet 2 8 None)]) 1) = Some 7"
proof -
  have "\<forall>x. lru_deadline 5 demo_lru None = Some x \<longrightarrow> 105 \<le> x" by (simp add: lru_deadline_def demo_lru_def)
  from recent_entry_survives [OF this, of "[(10, LruSet 2 8 None)]" 1 20 7] show ?thesis
    by (simp add: demo_lru_def Let_def)
qed

text \<open>
  Updating a key drops its expiry: with a maximum age \<open>a\<close>, a key set afresh can no longer be read
  once the age is over, but a key of the recent map that is set again is returned at every later instant.
\<close>

theorem update_drops_expiry:
  assumes "lru_maxAge q = Some a" "now + a \<noteq> 0" "now + a \<le> later"
  shows "(\<not> map_has (lru_cache q) k \<longrightarrow> fst (lru_get later (lru_set now q k v None) k) = None) \<and>
     (map_has (lru_cache q) k \<longrightarrow> fst (lru_get later (lru_set now q k v None) k) = Some v)"
proof -
  let ?t = "\<lparr>lru_value = v, lru_expiry = Some (now + a)\<rparr>"
  have del: "map_has (lru_cache r) k \<or> map_has (lru_oldCache r) k \<Longrightarrow> fst (lru_deleteIfExpired later r k ?t)" for r
    using assms(3) by (auto simp: lru_deleteIfExpired_def lru_delete_def Let_def)
  have rd: "fst (lru_get later r k) = None"
    if "gget (lru_cache r) k = Some ?t \<or> gget (lru_cache r) k = None \<and> gget (lru_oldCache r) k = Some ?t" for r
    using that del [of r] assms(2)
    by (auto simp: lru_get_def lru_getItemValue_def lru_getOrDeleteIfExpired_def map_has_def split: prod.split)
  have "\<not> map_has (lru_cache q) k \<Longrightarrow> fst (lru_get later (lru_set now q k v None) k) = None"
    using assms(1) by (intro rd) (auto simp: lru_set_def lru_put_def lru_deadline_def Let_def)
  then show ?thesis by (simp add: lru_set_def lru_get_def lru_getItemValue_def)
qed

theorem update_drops_expiry_witness:
  "fst (lru_get 500 (lru_set 5 demo_lru 1 7 None) 1) = None \<and>
   fst (lru_get 500 (lru_set 6 (lru_set 5 demo_lru 1 7 None) 1 8 None) 1) = Some 8"
proof -
  have "\<not> map_has (lru_cache demo_lru) 1" "map_has (lru_cache (lru_set 5 demo_lru 1 7 None)) 1" by code_simp+
  moreover have "lru_maxAge demo_lru = Some 100" "lru_maxAge (lru_set 5 demo_lru 1 7 None) = Some 100" by code_simp+
  ultimately show ?thesis
    using update_drops_expiry [of demo_lru 100 5 500 1 7] update_drops_expiry [of "lru_set 5 demo_lru 1 7 None" 100 6 500 1 8]
    by simp
qed

end
