(* ===== verification/Js_Text.thy ===== *)
theory Js_Text
  imports Codec
begin

text \<open>
  The fragment of JavaScript's strings that the bundled style compiler uses
  (\<^verbatim>\<open>server/static/assets/js/tailwind.js\<close>).  A string is a list of code units; the model covers the
  code units below 256, among which the white space of \<^verbatim>\<open>\s\<close> and \<^verbatim>\<open>trim\<close> is exactly the list in \<open>js_space\<close>.
  Line counting (\<open>advance\<close>, \<open>pos_at\<close>) is the reference that the position functions are compared with.
\<close>

section \<open>Characters\<close>

definition js_space :: "char \<Rightarrow> bool" where
  "js_space c \<longleftrightarrow> c \<in> {CHR 0x09, CHR 0x0A, CHR 0x0B, CHR 0x0C, CHR 0x0D, CHR 0x20, CHR 0xA0}"

definition js_digit :: "char \<Rightarrow> bool" where
  "js_digit c \<longleftrightarrow> 48 \<le> (of_char c :: nat) \<and> (of_char c :: nat) \<le> 57"

abbreviation newline :: char where "newline \<equiv> CHR 0x0A"
abbreviation tab_char :: char where "tab_char \<equiv> CHR 0x09"

section \<open>String methods\<close>

text \<open>\<^verbatim>\<open>s.slice(i, j)\<close>: negative bounds count from the end, everything is clamped.\<close>

definition slice_index :: "nat \<Rightarrow> int \<Rightarrow> nat" where
  "slice_index n i = (if i < 0 then nat (int n + i) else min n (nat i))"

definition js_slice :: "'a list \<Rightarrow> int \<Rightarrow> int \<Rightarrow> 'a list" where
  "js_slice s i j = take (slice_index (length s) j - slice_index (length s) i) (drop (slice_index (length s) i) s)"

text \<open>\<^verbatim>\<open>s.trim()\<close>.\<close>

definition js_trim :: "string \<Rightarrow> string" where
  "js_trim s = rev (dropWhile js_space (rev (dropWhile js_space s)))"

text \<open>\<^verbatim>\<open>s.replace(/\S/g, "")\<close>, \<^verbatim>\<open>s.replace(/[^\n]+$/, "")\<close> and \<^verbatim>\<open>s.split(/\r?\n/)\<close>.\<close>

definition only_spaces :: "string \<Rightarrow> string" where
  "only_spaces s = filter js_space s"

definition drop_last_line :: "string \<Rightarrow> string" where
  "drop_last_line s = rev (dropWhile (\<lambda>c. c \<noteq> newline) (rev s))"

definition strip_cr :: "string \<Rightarrow> string" where
  "strip_cr l = (if l \<noteq> [] \<and> last l = CHR 0x0D then butlast l else l)"

definition split_lines :: "string \<Rightarrow> string list" where
  "split_lines s = (let ls = split_on newline s in map strip_cr (butlast ls) @ [last ls])"

text \<open>\<^verbatim>\<open>s.indexOf(sub, from)\<close>, with \<open>None\<close> for -1.\<close>

function index_from :: "string \<Rightarrow> string \<Rightarrow> nat \<Rightarrow> nat option" where
  "index_from s sub i =
     (if has_prefix (drop i s) sub \<and> i \<le> length s then Some i
      else if i < length s then index_from s sub (Suc i) else None)"
  by pat_completeness auto
termination by (relation "measure (\<lambda>(s, sub, i). length s - i)") auto

declare index_from.simps [simp del]

section \<open>Lines and columns\<close>

text \<open>The position after one more character, counting lines and columns from one.\<close>

definition advance :: "int \<times> int \<Rightarrow> char \<Rightarrow> int \<times> int" where
  "advance p c = (if c = newline then (fst p + 1, 1) else (fst p, snd p + 1))"

definition pos_at :: "string \<Rightarrow> nat \<Rightarrow> int \<times> int" where
  "pos_at css n = foldl advance (1, 1) (take n css)"

lemma advance_gt: "fst p < fst (advance p c) \<or> fst p = fst (advance p c) \<and> snd p < snd (advance p c)"
  by (simp add: advance_def)

lemma pos_at_Suc: "n < length css \<Longrightarrow> pos_at css (Suc n) = advance (pos_at css n) (css ! n)"
  by (simp add: pos_at_def take_Suc_conv_app_nth)

lemma pos_at_0 [simp]: "pos_at css 0 = (1, 1)"
  by (simp add: pos_at_def)

lemma pos_at_less:
  "m < n \<Longrightarrow> n \<le> length css \<Longrightarrow>
     fst (pos_at css m) < fst (pos_at css n) \<or> fst (pos_at css m) = fst (pos_at css n) \<and> snd (pos_at css m) < snd (pos_at css n)"
proof (induction n)
  case (Suc n)
  then have step: "pos_at css (Suc n) = advance (pos_at css n) (css ! n)" by (simp add: pos_at_Suc)
  show ?case
  proof (cases "m = n")
    case False
    with Suc have "fst (pos_at css m) < fst (pos_at css n) \<or>
        fst (pos_at css m) = fst (pos_at css n) \<and> snd (pos_at css m) < snd (pos_at css n)" by simp
    with advance_gt [of "pos_at css n" "css ! n"] step show ?thesis by auto
  qed (use step advance_gt [of "pos_at css n" "css ! n"] in simp)
qed simp

text \<open>Distinct offsets have distinct positions.\<close>

lemma pos_at_inj: "m \<le> length css \<Longrightarrow> n \<le> length css \<Longrightarrow> pos_at css m = pos_at css n \<Longrightarrow> m = n"
  using pos_at_less [of m n css] pos_at_less [of n m css] by (cases m n rule: linorder_cases) auto

lemma advance_line: "newline \<notin> set w \<Longrightarrow> foldl advance p w = (fst p, snd p + int (length w))"
  by (induction w arbitrary: p) (auto simp: advance_def)

lemma split_on_line: "\<forall>w \<in> set (split_on c s). c \<notin> set w"
  by (induction s) (auto split: list.splits)

end
