(* ===== verification/Css_Error.thy ===== *)
theory Css_Error
  imports Js_Text
begin

text \<open>
  Syntax errors of the bundled CSS parser (class \<open>rr\<close>, \<open>CssSyntaxError\<close>, in \<^verbatim>\<open>tailwind.js\<close>).  The
  colour library of the bundle is a stub whose module object has only a default export: colour
  support reads as undefined, and asking for colours explicitly calls an undefined function.  The
  stack trace that the engine records is not part of the model.
\<close>

section \<open>The error object\<close>

record css_error =
  ce_reason :: string
  ce_file :: "string option"
  ce_source :: "string option"
  ce_plugin :: "string option"
  ce_line :: "int option"
  ce_column :: "int option"
  ce_endLine :: "int option"
  ce_endColumn :: "int option"
  ce_message :: string

datatype js_exception = TypeError

text \<open>The two position arguments: absent, two numbers, or two objects with line and column.\<close>

datatype error_place = NoPlace | LineColumn int int | FromTo "int \<times> int" "int \<times> int"

definition truthy :: "string option \<Rightarrow> string option" where
  "truthy s = (if s = Some [] then None else s)"

definition place_text :: "int option \<Rightarrow> int option \<Rightarrow> string" where
  "place_text l c = (case l of None \<Rightarrow> [] | Some n \<Rightarrow> '':'' @ dec_int n @ '':'' @ (case c of Some k \<Rightarrow> dec_int k | None \<Rightarrow> ''undefined''))"

definition setMessage :: "css_error \<Rightarrow> css_error" where
  "setMessage e =
     e\<lparr>ce_message :=
         (case ce_plugin e of Some p \<Rightarrow> p @ '': '' | None \<Rightarrow> []) @
         (case ce_file e of Some f \<Rightarrow> f | None \<Rightarrow> ''<css input>'') @
         place_text (ce_line e) (ce_column e) @ '': '' @ ce_reason e\<rparr>"

definition new_CssSyntaxError ::
  "string \<Rightarrow> error_place \<Rightarrow> string option \<Rightarrow> string option \<Rightarrow> string option \<Rightarrow> css_error" where
  "new_CssSyntaxError reason place source file plugin =
     (let e = \<lparr>ce_reason = reason, ce_file = truthy file, ce_source = truthy source, ce_plugin = truthy plugin,
               ce_line = None, ce_column = None, ce_endLine = None, ce_endColumn = None, ce_message = []\<rparr>
      in setMessage
           (case place of
              NoPlace \<Rightarrow> e
            | LineColumn l c \<Rightarrow> e\<lparr>ce_line := Some l, ce_column := Some c\<rparr>
            | FromTo (l, c) (l', c') \<Rightarrow>
                e\<lparr>ce_line := Some l, ce_column := Some c, ce_endLine := Some l', ce_endColumn := Some c'\<rparr>))"

section \<open>The excerpt of the source\<close>

definition blank_digits :: "string \<Rightarrow> string" where
  "blank_digits s = map (\<lambda>c. if js_digit c then CHR '' '' else c) s"

definition blank_text :: "string \<Rightarrow> string" where
  "blank_text s = map (\<lambda>c. if c = tab_char then c else CHR '' '') s"

text \<open>The gutter \<open>h\<close> of line \<open>p\<close>, \<open>w\<close> digits wide.\<close>

definition gutter :: "nat \<Rightarrow> int \<Rightarrow> string" where
  "gutter w p = '' '' @ (let s = '' '' @ dec_int p in js_slice s (- int w) (int (length s))) @ '' | ''"

text \<open>
  The rows of the marked line: the row of the source and the row of the caret.  A line of more than
  160 characters is cut to a window around the column; without an end column the window's end is
  not a number, which \<open>slice\<close> reads as zero.
\<close>

definition marked_rows :: "string \<Rightarrow> string \<Rightarrow> int \<Rightarrow> int option \<Rightarrow> string \<times> string" where
  "marked_rows h f column endColumn =
     (if length f > 160 then
        let y = max 0 (column - 20);
            w = (case endColumn of Some ec \<Rightarrow> max (column + 20) (ec + 20) | None \<Rightarrow> 0);
            k = js_slice f y w
        in (''>'' @ h @ k, '' '' @ blank_digits h @ blank_text (js_slice f 0 (min (column - 1) 19)) @ ''^'')
      else (''>'' @ h @ f, '' '' @ blank_digits h @ blank_text (js_slice f 0 (column - 1)) @ ''^''))"

definition source_line :: "css_error \<Rightarrow> nat \<Rightarrow> int \<Rightarrow> string \<Rightarrow> string" where
  "source_line e w p f =
     (if Some p = ce_line e then
        (case marked_rows (gutter w p) f (case ce_column e of Some c \<Rightarrow> c | None \<Rightarrow> 0) (ce_endColumn e) of
           (a, b) \<Rightarrow> a @ [newline] @ b)
      else '' '' @ gutter w p @ f)"

text \<open>
  Without a line the slice bounds are not numbers and no line is shown.  The argument is the one of
  \<open>showSourceCode\<close>: \<open>None\<close> stands for null and undefined.
\<close>

definition showSourceCode :: "css_error \<Rightarrow> bool option \<Rightarrow> js_exception + string" where
  "showSourceCode e color =
     (case ce_source e of
        None \<Rightarrow> Inr []
      | Some t \<Rightarrow>
          if color = Some True then Inl TypeError
          else
            Inr (case ce_line e of
                   None \<Rightarrow> []
                 | Some line \<Rightarrow>
                     let a = split_lines t; o' = max (line - 3) 0; l = min (line + 2) (int (length a));
                         w = length (dec_int l)
                     in join_with [newline]
                          (map (\<lambda>(d, f). source_line e w (o' + 1 + int d) f) (enumerate 0 (js_slice a o' l)))))"

definition css_error_toString :: "css_error \<Rightarrow> string" where
  "css_error_toString e =
     ''CssSyntaxError: '' @ ce_message e @
       (case showSourceCode e None of
          Inr s \<Rightarrow> if s = [] then [] else [newline, newline] @ s @ [newline]
        | Inl _ \<Rightarrow> [])"

section \<open>Where the caret points\<close>

lemma length_blank [simp]: "length (blank_digits s) = length s" "length (blank_text s) = length s"
  by (simp_all add: blank_digits_def blank_text_def)

lemma slice_prefix: "0 \<le> j \<Longrightarrow> js_slice f 0 j = take (nat j) f"
  by (auto simp: js_slice_def slice_index_def min_def)

lemma slice_window: "0 \<le> i \<Longrightarrow> i \<le> j \<Longrightarrow> nat i \<le> length f \<Longrightarrow> js_slice f i j = take (nat j - nat i) (drop (nat i) f)"
  by (auto simp: js_slice_def slice_index_def min_def)

text \<open>The caret is the last character of its row; this is the character of the source row above it.\<close>

definition above_caret :: "string \<times> string \<Rightarrow> char option" where
  "above_caret rows = (let n = length (snd rows) - 1 in if n < length (fst rows) then Some (fst rows ! n) else None)"

lemma above_caret_rows:
  "above_caret (CHR ''>'' # h @ k, CHR '' '' # blank_digits h @ b @ ''^'') = (if length b < length k then Some (k ! length b) else None)"
  by (simp add: above_caret_def Let_def nth_append)

text \<open>
  The caret stands under the character the error names: for a column inside the line, on a line of
  ordinary length, and on a cut line when the error has an end column, the character above the
  caret is the line's character at that column.  On a cut line without an end column the excerpt
  is empty and there is nothing above the caret.
\<close>

theorem caret_under_column:
  assumes "1 \<le> column" "nat column \<le> length f"
  shows "above_caret (marked_rows h f column endColumn) =
     (if length f \<le> 160 \<or> endColumn \<noteq> None then Some (f ! (nat column - 1)) else None)"
proof -
  consider "length f \<le> 160" | ec where "length f > 160" "endColumn = Some ec" | "length f > 160" "endColumn = None"
    by (cases endColumn) force+
  then show ?thesis
  proof cases
    case 1
    with assms show ?thesis by (simp add: marked_rows_def above_caret_rows slice_prefix nat_diff_distrib min_def)
  next
    case (2 ec)
    define y where "y = max 0 (column - 20)"
    define w where "w = max (column + 20) (ec + 20)"
    define b where "b = min (column - 1) 19"
    have y: "0 \<le> y" "y \<le> w" "nat y \<le> length f" "nat y + nat b = nat column - 1" "nat b < nat w - nat y"
      using assms by (auto simp: y_def w_def b_def max_def min_def)
    have lb: "length (js_slice f 0 b) = nat b" using assms by (simp add: slice_prefix b_def min_def) linarith
    have "js_slice f y w ! nat b = f ! (nat column - 1)" "nat b < length (js_slice f y w)"
      using y assms by (simp_all add: slice_window) linarith
    then show ?thesis using 2 lb
      by (simp add: marked_rows_def Let_def above_caret_rows y_def [symmetric] w_def [symmetric] b_def [symmetric])
  next
    case 3
    then have "js_slice f (max 0 (column - 20)) 0 = []" by (simp add: js_slice_def slice_index_def)
    with 3 show ?thesis by (simp add: marked_rows_def Let_def above_caret_rows [of h "[]", simplified])
  qed
qed

theorem caret_under_column_witness:
  "above_caret (marked_rows ''1 | '' ''a { b }'' 3 None) = Some CHR ''{''"
  using caret_under_column [of 3 "''a { b }''" "''1 | ''" None] by simp

end
