(* ===== verification/Css_Input.thy ===== *)
theory Css_Input
  imports Js_Text
begin

text \<open>
  Source positions of the bundled CSS parser (\<^verbatim>\<open>tailwind.js\<close>: the function \<open>Yr\<close>, the methods
  \<open>positionBy\<close>, \<open>positionInside\<close> and \<open>rangeBy\<close> of \<open>Node\<close>, and \<open>fromOffset\<close> of \<open>Input\<close>).  A position
  that carries an offset is used by that offset, otherwise by line and column.
\<close>

section \<open>From lines and columns to offsets\<close>

record css_pos =
  cp_line :: int
  cp_column :: int
  cp_offset :: "nat option"

definition same_place :: "css_pos \<Rightarrow> int \<times> int \<Rightarrow> bool" where
  "same_place e p \<longleftrightarrow> fst p = cp_line e \<and> snd p = cp_column e"

text \<open>The loop of \<open>Yr\<close>: the position is compared before the character is counted; no hit gives zero.\<close>

fun Yr_loop :: "css_pos \<Rightarrow> string \<Rightarrow> nat \<Rightarrow> int \<times> int \<Rightarrow> nat" where
  "Yr_loop e [] s p = 0"
| "Yr_loop e (c # cs) s p = (if same_place e p then s else Yr_loop e cs (Suc s) (advance p c))"

definition Yr :: "string \<Rightarrow> css_pos \<Rightarrow> nat" where
  "Yr css e = (case cp_offset e of Some n \<Rightarrow> n | None \<Rightarrow> Yr_loop e css 0 (1, 1))"

section \<open>Positions inside a node\<close>

record css_source =
  cs_css :: string
  cs_start :: css_pos
  cs_end :: "css_pos option"

text \<open>Past the end of the text \<open>css[a]\<close> is undefined, so not a newline: the column grows.\<close>

definition char_step :: "string \<Rightarrow> int \<times> int \<Rightarrow> nat \<Rightarrow> int \<times> int" where
  "char_step css p a = (if a < length css then advance p (css ! a) else (fst p, snd p + 1))"

definition positionInside :: "css_source \<Rightarrow> nat \<Rightarrow> int \<times> int" where
  "positionInside src e =
     (let n = Yr (cs_css src) (cs_start src)
      in foldl (char_step (cs_css src)) (cp_line (cs_start src), cp_column (cs_start src)) [n..<n + e])"

record pos_opts =
  po_word :: "string option"
  po_start :: "(int \<times> int) option"
  po_end :: "(int \<times> int) option"
  po_index :: "nat option"
  po_endIndex :: "nat option"

text \<open>The text of the node is searched for the word; an end position is needed for that.\<close>

definition node_text :: "css_source \<Rightarrow> css_pos \<Rightarrow> string" where
  "node_text src en = js_slice (cs_css src) (int (Yr (cs_css src) (cs_start src))) (int (Yr (cs_css src) en))"

definition truthy_word :: "pos_opts \<Rightarrow> string option" where
  "truthy_word opts = (case po_word opts of None \<Rightarrow> None | Some w \<Rightarrow> if w = [] then None else Some w)"

definition truthy_index :: "pos_opts \<Rightarrow> nat option" where
  "truthy_index opts = (case po_index opts of None \<Rightarrow> None | Some i \<Rightarrow> if i = 0 then None else Some i)"

definition start_place :: "css_source \<Rightarrow> int \<times> int" where
  "start_place src = (cp_line (cs_start src), cp_column (cs_start src))"

text \<open>
  \<open>None\<close> stands for the \<open>TypeError\<close> that \<open>Yr\<close> raises when \<open>source.end\<close> is missing; its loop reads
  the position, so an empty text raises nothing.
\<close>

definition positionBy :: "css_source \<Rightarrow> pos_opts \<Rightarrow> (int \<times> int) option" where
  "positionBy src opts =
     (case truthy_index opts of
        Some i \<Rightarrow> Some (positionInside src i)
      | None \<Rightarrow>
          (case truthy_word opts of
             None \<Rightarrow> Some (start_place src)
           | Some w \<Rightarrow>
               (case cs_end src of
                  None \<Rightarrow> if cs_css src = [] then Some (start_place src) else None
                | Some en \<Rightarrow>
                    (case index_from (node_text src en) w 0 of
                       None \<Rightarrow> Some (start_place src)
                     | Some n \<Rightarrow> Some (positionInside src n)))))"

definition range_raw :: "css_source \<Rightarrow> pos_opts \<Rightarrow> ((int \<times> int) \<times> (int \<times> int)) option" where
  "range_raw src opts =
     (let t = start_place src;
          i = (case cs_end src of Some en \<Rightarrow> (cp_line en, cp_column en + 1) | None \<Rightarrow> (fst t, snd t + 1)) in
      case truthy_word opts of
        Some w \<Rightarrow>
          (case cs_end src of
             None \<Rightarrow> if cs_css src = [] then Some (t, i) else None
           | Some en \<Rightarrow>
               (case index_from (node_text src en) w 0 of
                  None \<Rightarrow> Some (t, i)
                | Some s \<Rightarrow> Some (positionInside src s, positionInside src (s + length w))))
      | None \<Rightarrow>
          Some (case po_start opts of Some p \<Rightarrow> p
                | None \<Rightarrow> (case truthy_index opts of Some k \<Rightarrow> positionInside src k | None \<Rightarrow> t),
                case po_end opts of Some p \<Rightarrow> p
                | None \<Rightarrow> (case po_endIndex opts of Some k \<Rightarrow> positionInside src k
                          | None \<Rightarrow> (case truthy_index opts of Some k \<Rightarrow> positionInside src (k + 1) | None \<Rightarrow> i))))"

definition rangeBy :: "css_source \<Rightarrow> pos_opts \<Rightarrow> ((int \<times> int) \<times> (int \<times> int)) option" where
  "rangeBy src opts =
     map_option (\<lambda>(t, i). (t, if fst i < fst t \<or> fst i = fst t \<and> snd i \<le> snd t then (fst t, snd t + 1) else i)) (range_raw src opts)"

section \<open>From offsets to lines and columns\<close>

fun line_starts :: "int \<Rightarrow> string list \<Rightarrow> int list" where
  "line_starts a [] = []"
| "line_starts a (l # ls) = a # line_starts (a + int (length l) + 1) ls"

text \<open>The binary search of \<open>fromOffset\<close>; \<open>n + (s - n >> 1)\<close> is the middle.\<close>

function find_line :: "int list \<Rightarrow> int \<Rightarrow> int \<Rightarrow> int \<Rightarrow> int" where
  "find_line i e n s =
     (if n < s then
        let a = n + (s - n) div 2 in
        if e < i ! nat a then find_line i e n (a - 1)
        else if i ! nat (a + 1) \<le> e then find_line i e (a + 1) s
        else a
      else n)"
  by pat_completeness auto
termination by (relation "measure (\<lambda>(i, e, n, s). nat (s - n))") auto

declare find_line.simps [simp del]

definition fromOffset :: "string \<Rightarrow> int \<Rightarrow> int \<times> int" where
  "fromOffset css e =
     (let i = line_starts 0 (split_on newline css);
          n = (if last i \<le> e then int (length i) - 1 else find_line i e 0 (int (length i) - 2))
      in (n + 1, e - i ! nat n + 1))"

section \<open>The table of line starts\<close>

lemma length_line_starts [simp]: "length (line_starts a ls) = length ls"
  by (induction a ls rule: line_starts.induct) simp_all

lemma line_starts_ge: "x \<in> set (line_starts a ls) \<Longrightarrow> a \<le> x"
  by (induction a ls rule: line_starts.induct) force+

lemma line_starts_nth_ge: "m < length ls \<Longrightarrow> a \<le> line_starts a ls ! m"
  by (metis length_line_starts line_starts_ge nth_mem)

lemma line_starts_step:
  "Suc n < length ls \<Longrightarrow> line_starts a ls ! Suc n = line_starts a ls ! n + int (length (ls ! n)) + 1"
proof (induction a ls arbitrary: n rule: line_starts.induct)
  case (2 a l ls)
  then show ?case by (cases n; cases ls) auto
qed simp

lemma line_starts_0: "ls \<noteq> [] \<Longrightarrow> line_starts a ls ! 0 = a"
  by (cases ls) simp_all

text \<open>Scanning the joined lines up to a place in line \<open>n\<close> counts \<open>n\<close> newlines.\<close>

lemma advance_join:
  assumes "\<forall>l \<in> set ls. newline \<notin> set l" "n < length ls" "k \<le> length (ls ! n)"
  shows "foldl advance (L, 1) (take (nat (line_starts 0 ls ! n) + k) (join_with [newline] ls)) = (L + int n, int k + 1)"
  using assms
proof (induction "[newline]" ls arbitrary: n L rule: join_with.induct)
  case (2 w)
  then have n: "n = 0" by simp
  with 2 have "newline \<notin> set (take k w)" by (auto dest: in_set_takeD)
  with 2 n show ?case by (simp add: advance_line)
next
  case (3 w v ws)
  show ?case
  proof (cases n)
    case 0
    with 3 have "newline \<notin> set (take k w)" by (auto dest: in_set_takeD)
    with 0 3 show ?thesis by (simp add: advance_line)
  next
    case (Suc m)
    let ?ls = "v # ws"
    have shift: "line_starts a ls ! m = a + line_starts 0 ls ! m" if "m < length ls" for a m and ls :: "string list"
      using that
    proof (induction m)
      case 0
      then show ?case by (simp add: line_starts_0)
    next
      case (Suc m)
      then show ?case by (simp add: line_starts_step)
    qed
    have m: "m < length ?ls" using 3 Suc by simp
    have nn: "0 \<le> line_starts 0 ?ls ! m" using line_starts_nth_ge [OF m] .
    have st: "nat (line_starts 0 (w # ?ls) ! n) = length w + 1 + nat (line_starts 0 ?ls ! m)"
      using shift [OF m, of "int (length w) + 1"] nn Suc by (simp add: algebra_simps nat_add_distrib)
    have "take (nat (line_starts 0 (w # ?ls) ! n) + k) (join_with [newline] (w # ?ls)) =
        w @ newline # take (nat (line_starts 0 ?ls ! m) + k) (join_with [newline] ?ls)"
      unfolding st by simp
    moreover have "foldl advance (L, 1) w = (L, 1 + int (length w))" using 3 by (simp add: advance_line)
    moreover have "foldl advance (L + 1, 1) (take (nat (line_starts 0 ?ls ! m) + k) (join_with [newline] ?ls)) = (L + 1 + int m, int k + 1)"
      using 3 Suc by (intro 3(1)) simp_all
    ultimately show ?thesis using Suc by (simp add: advance_def)
  qed
qed simp

text \<open>Where the search stops.\<close>

lemma find_line_brackets:
  assumes "0 \<le> n" "n \<le> s + 1" "i ! nat n \<le> e" "e < i ! nat (s + 1)"
  shows "let r = find_line i e n s in n \<le> r \<and> r \<le> s \<and> i ! nat r \<le> e \<and> e < i ! nat (r + 1)"
  using assms
proof (induction i e n s rule: find_line.induct)
  case (1 i e n s)
  show ?case
  proof (cases "n < s")
    case False
    with 1 have "n = s" by (cases "n = s + 1") auto
    with 1 show ?thesis by (simp add: find_line.simps [of i e s s])
  next
    case True
    define a where "a = n + (s - n) div 2"
    have a: "n \<le> a" "a < s" using True unfolding a_def by (auto simp: field_simps)
    consider "e < i ! nat a" | "\<not> e < i ! nat a" "i ! nat (a + 1) \<le> e" | "\<not> e < i ! nat a" "\<not> i ! nat (a + 1) \<le> e" by blast
    then show ?thesis
    proof cases
      case 1
      with "1.IH"(1) [OF True a_def] "1.prems" a show ?thesis
        by (auto simp: find_line.simps [of i e n s] Let_def a_def [symmetric] True)
    next
      case 2
      with "1.IH"(2) [OF True a_def] "1.prems" a show ?thesis
        by (auto simp: find_line.simps [of i e n s] Let_def a_def [symmetric] True)
    next
      case 3
      with "1.prems" a show ?thesis
        by (auto simp: find_line.simps [of i e n s] Let_def a_def [symmetric] True)
    qed
  qed
qed

lemma length_join_lines:
  "ls \<noteq> [] \<Longrightarrow> int (length (join_with [newline] ls)) + a = last (line_starts a ls) + int (length (last ls))"
proof (induction "[newline]" ls arbitrary: a rule: join_with.induct)
  case (3 w v ws)
  from 3(1) [of "a + int (length w) + 1"] show ?case by (simp add: algebra_simps)
qed simp_all

lemma last_line_starts: "ls \<noteq> [] \<Longrightarrow> last (line_starts a ls) = line_starts a ls ! (length ls - 1)"
  by (metis last_conv_nth length_line_starts length_0_conv)

lemma fromOffset_pos_at:
  assumes "e \<le> length css"
  shows "fromOffset css (int e) = pos_at css e"
proof -
  define ls where "ls = split_on newline css"
  define i where "i = line_starts 0 ls"
  define n where "n = (if last i \<le> int e then int (length i) - 1 else find_line i (int e) 0 (int (length i) - 2))"
  have ne: "ls \<noteq> []" and css: "join_with [newline] ls = css" by (simp_all add: ls_def join_split)
  have "0 \<le> n \<and> nat n < length ls \<and> i ! nat n \<le> int e \<and> int e - i ! nat n \<le> int (length (ls ! nat n))"
  proof (cases "last i \<le> int e")
    case True
    then have nn: "n = int (length ls) - 1" by (simp add: n_def i_def)
    have "int e \<le> last i + int (length (last ls))" using length_join_lines [OF ne, of 0] css assms by (simp add: i_def)
    with True nn ne show ?thesis
      by (simp_all add: i_def last_line_starts last_conv_nth nat_diff_distrib Suc_leI)
  next
    case False
    define s where "s = int (length ls) - 2"
    have i0: "i ! 0 = 0" using ne by (simp add: i_def line_starts_0)
    have "length ls \<noteq> 1" using False i0 ne by (auto simp: i_def last_line_starts)
    with ne have two: "2 \<le> length ls" by (cases ls) (auto simp: Suc_le_eq)
    have ss: "nat (s + 1) = length ls - 1" using two by (simp add: s_def)
    have nn: "n = find_line i (int e) 0 s" using False by (simp add: n_def s_def i_def)
    have lst: "int e < i ! nat (s + 1)" using False ne unfolding ss by (simp add: i_def last_line_starts)
    have br: "0 \<le> n" "n \<le> s" "i ! nat n \<le> int e" "int e < i ! nat (n + 1)"
      using find_line_brackets [of 0 s i "int e"] ne two lst i0 by (auto simp: s_def nn Let_def)
    have "Suc (nat n) < length ls" "nat (n + 1) = Suc (nat n)" using br two by (auto simp: s_def)
    moreover from this line_starts_step [of "nat n" ls 0] br(4)
    have "int e < i ! nat n + int (length (ls ! nat n)) + 1" by (simp add: i_def)
    ultimately show ?thesis
      using br by simp
  qed
  then have n: "0 \<le> n" "nat n < length ls" "i ! nat n \<le> int e" "int e - i ! nat n \<le> int (length (ls ! nat n))" by auto
  define k where "k = nat (int e - i ! nat n)"
  have "0 \<le> i ! nat n" using line_starts_nth_ge [OF n(2), of 0] by (simp add: i_def)
  then have e: "e = nat (i ! nat n) + k" using n(3) by (simp add: k_def)
  have "\<forall>l \<in> set ls. newline \<notin> set l" "k \<le> length (ls ! nat n)"
    using split_on_line [of newline css] n(4) by (simp_all add: ls_def k_def)
  from advance_join [OF this(1) n(2) this(2), of 1] have "pos_at css e = (1 + int (nat n), int k + 1)"
    unfolding pos_at_def css i_def [symmetric] e [symmetric] .
  also have "\<dots> = (n + 1, int e - i ! nat n + 1)" using n by (simp add: k_def)
  finally show ?thesis unfolding fromOffset_def by (simp add: Let_def n_def i_def ls_def)
qed

section \<open>Scanning by position\<close>

lemma Yr_loop_hit:
  assumes "same_place q (pos_at css e)" "s \<le> e" "e < length css"
  shows "Yr_loop q (drop s css) s (pos_at css s) = e"
  using assms(2,3)
proof (induction "e - s" arbitrary: s)
  case 0
  with assms(1) show ?case by (simp add: Cons_nth_drop_Suc [symmetric])
next
  case (Suc n)
  then have "s < e" "s < length css" by auto
  have "\<not> same_place q (pos_at css s)"
    using pos_at_inj [of s css e] assms(1) \<open>s < e\<close> Suc.prems by (auto simp: same_place_def prod_eq_iff)
  moreover have "Yr_loop q (drop (Suc s) css) (Suc s) (pos_at css (Suc s)) = e" using Suc by (intro Suc.hyps(1)) auto
  ultimately show ?case using \<open>s < length css\<close> by (simp add: Cons_nth_drop_Suc [symmetric] pos_at_Suc)
qed

lemma Yr_line_column:
  assumes "same_place q (pos_at css e)" "cp_offset q = None" "e < length css"
  shows "Yr css q = e"
  using Yr_loop_hit [OF assms(1), of 0] assms by (simp add: Yr_def)

lemma char_step_run:
  "n + k \<le> length css \<Longrightarrow> foldl (char_step css) (pos_at css n) [n..<n + k] = pos_at css (n + k)"
  by (induction k) (simp_all add: char_step_def pos_at_Suc)

section \<open>Properties\<close>

text \<open>
  The binary search over the line-start table is the linear count: for every offset of the text,
  its end included, \<open>fromOffset\<close> gives the line and column reached by scanning the text up to it.
\<close>

theorem fromOffset_linear:
  assumes "e \<le> length css"
  shows "fromOffset css (int e) = foldl advance (1, 1) (take e css)"
  using fromOffset_pos_at [OF assms] by (simp add: pos_at_def)

theorem fromOffset_linear_witness: "fromOffset ''ab'' (int 2) = (1, 3)"
  using fromOffset_linear [of 2 "''ab''"] by (simp add: advance_def)

text \<open>
  Offsets and positions translate back and forth: the scan of \<open>Yr\<close> finds the offset whose line and
  column \<open>fromOffset\<close> computed, and \<open>positionInside\<close> moves a node's start by \<open>k\<close> characters to the
  position of the offset \<open>k\<close> further on.
\<close>

theorem position_roundtrip:
  assumes "n < length css" "fromOffset css (int n) = (l, c)"
  shows "Yr css \<lparr>cp_line = l, cp_column = c, cp_offset = None\<rparr> = n \<and>
     (n + k \<le> length css \<longrightarrow> off \<in> {None, Some n} \<longrightarrow>
      positionInside \<lparr>cs_css = css, cs_start = \<lparr>cp_line = l, cp_column = c, cp_offset = off\<rparr>, cs_end = en\<rparr> k =
        fromOffset css (int (n + k)))"
proof -
  have p: "pos_at css n = (l, c)" using fromOffset_pos_at [of n css] assms by simp
  have y: "Yr css \<lparr>cp_line = l, cp_column = c, cp_offset = None\<rparr> = n"
    using assms(1) by (intro Yr_line_column) (simp_all add: same_place_def p)
  moreover have "positionInside \<lparr>cs_css = css, cs_start = \<lparr>cp_line = l, cp_column = c, cp_offset = off\<rparr>, cs_end = en\<rparr> k =
      fromOffset css (int (n + k))" if "n + k \<le> length css" "off \<in> {None, Some n}"
  proof -
    have "Yr css \<lparr>cp_line = l, cp_column = c, cp_offset = off\<rparr> = n" using that(2) y by (auto simp: Yr_def)
    then show ?thesis using char_step_run [OF that(1)] fromOffset_pos_at [OF that(1)] p
      by (simp add: positionInside_def Let_def)
  qed
  ultimately show ?thesis by blast
qed

theorem position_roundtrip_witness:
  "Yr [CHR ''a'', newline, CHR ''b''] \<lparr>cp_line = 2, cp_column = 1, cp_offset = None\<rparr> = 2"
proof -
  have "fromOffset [CHR ''a'', newline, CHR ''b''] (int 2) = (2, 1)" by code_simp
  from position_roundtrip [OF _ this] show ?thesis by simp
qed

text \<open>
  A reported range is never empty: whatever options are given and whatever positions the node
  carries, the end that \<open>rangeBy\<close> returns lies strictly behind its start.
\<close>

theorem rangeBy_nonempty:
  assumes "rangeBy src opts = Some (a, b)"
  shows "fst a < fst b \<or> fst a = fst b \<and> snd a < snd b"
  using assms by (auto simp: rangeBy_def split: if_splits)

theorem rangeBy_nonempty_witness:
  "rangeBy \<lparr>cs_css = ''a'', cs_start = \<lparr>cp_line = 1, cp_column = 1, cp_offset = None\<rparr>, cs_end = None\<rparr>
     \<lparr>po_word = None, po_start = Some (1, 5), po_end = Some (1, 2), po_index = None, po_endIndex = None\<rparr> = Some ((1, 5), (1, 6)) \<and>
   (5::int) < 6"
proof -
  have r: "rangeBy \<lparr>cs_css = ''a'', cs_start = \<lparr>cp_line = 1, cp_column = 1, cp_offset = None\<rparr>, cs_end = None\<rparr>
     \<lparr>po_word = None, po_start = Some (1, 5), po_end = Some (1, 2), po_index = None, po_endIndex = None\<rparr> = Some ((1, 5), (1, 6))"
    by code_simp
  from r rangeBy_nonempty [OF r] show ?thesis by simp
qed

text \<open>
  The position just behind the last character is not reached by the scan of \<open>Yr\<close>, so without an
  offset it is taken for the beginning of the text.
\<close>

lemma Yr_loop_miss:
  "same_place q (pos_at css (length css)) \<Longrightarrow> s \<le> length css \<Longrightarrow> Yr_loop q (drop s css) s (pos_at css s) = 0"
proof (induction "length css - s" arbitrary: s)
  case (Suc n)
  then have s: "s < length css" by simp
  have "\<not> same_place q (pos_at css s)"
    using pos_at_inj [of s css "length css"] Suc.prems s by (auto simp: same_place_def prod_eq_iff)
  moreover have "Yr_loop q (drop (Suc s) css) (Suc s) (pos_at css (Suc s)) = 0" using Suc s by (intro Suc.hyps(1)) auto
  ultimately show ?case using s by (simp add: Cons_nth_drop_Suc [symmetric] pos_at_Suc)
qed simp

theorem Yr_end_of_text:
  "same_place q (pos_at css (length css)) \<Longrightarrow> cp_offset q = None \<Longrightarrow> Yr css q = 0"
  using Yr_loop_miss [of q css 0] by (simp add: Yr_def)

end
