(* ===== verification/Css_List.thy ===== *)
theory Css_List
  imports Js_Text
begin

text \<open>
  The list helpers of the bundled CSS parser (object \<open>ti\<close> in \<^verbatim>\<open>tailwind.js\<close>) and the \<open>selectors\<close>
  property of \<open>Rule\<close> (class \<open>ri\<close>) that is built on them.  Iterating a JavaScript string by code
  points or by code units makes no difference here: only ASCII characters are compared.
\<close>

section \<open>Splitting outside quotes and parentheses\<close>

text \<open>The local variables \<open>a\<close> (depth), \<open>o\<close> with \<open>l\<close> (the open quote) and \<open>c\<close> (an escape is pending).\<close>

record split_state =
  sp_depth :: nat
  sp_quote :: "char option"
  sp_escape :: bool

abbreviation split_start :: split_state where
  "split_start \<equiv> \<lparr>sp_depth = 0, sp_quote = None, sp_escape = False\<rparr>"

text \<open>One character: whether it separates, and the state after it.\<close>

definition split_char :: "string \<Rightarrow> char \<Rightarrow> split_state \<Rightarrow> bool \<times> split_state" where
  "split_char e f st =
     (if sp_escape st then (False, st\<lparr>sp_escape := False\<rparr>)
      else if f = CHR 0x5C then (False, st\<lparr>sp_escape := True\<rparr>)
      else case sp_quote st of
             Some l \<Rightarrow> (False, if f = l then st\<lparr>sp_quote := None\<rparr> else st)
           | None \<Rightarrow>
               if f = CHR 0x22 \<or> f = CHR 0x27 then (False, st\<lparr>sp_quote := Some f\<rparr>)
               else if f = CHR ''('' then (False, st\<lparr>sp_depth := sp_depth st + 1\<rparr>)
               else if f = CHR '')'' then (False, st\<lparr>sp_depth := sp_depth st - 1\<rparr>)
               else (sp_depth st = 0 \<and> f \<in> set e, st))"

fun split_loop :: "string \<Rightarrow> bool \<Rightarrow> string \<Rightarrow> string list \<Rightarrow> string \<Rightarrow> split_state \<Rightarrow> string list" where
  "split_loop e t [] i n st = (if t \<or> n \<noteq> [] then i @ [js_trim n] else i)"
| "split_loop e t (f # r) i n st =
     (case split_char e f st of
        (s, st') \<Rightarrow>
          if s then split_loop e t r (if n \<noteq> [] then i @ [js_trim n] else i) [] st'
          else split_loop e t r i (n @ [f]) st')"

definition list_split :: "string \<Rightarrow> string \<Rightarrow> bool \<Rightarrow> string list" where
  "list_split r e t = split_loop e t r [] [] split_start"

definition list_comma :: "string \<Rightarrow> string list" where
  "list_comma r = list_split r '','' True"

definition list_space :: "string \<Rightarrow> string list" where
  "list_space r = list_split r [CHR '' '', newline, tab_char] False"

section \<open>Selectors of a rule\<close>

text \<open>\<^verbatim>\<open>selector.match(/,\s*/)\<close>: the first comma and the white space after it.\<close>

fun comma_match :: "string \<Rightarrow> string option" where
  "comma_match [] = None"
| "comma_match (c # s) = (if c = CHR '','' then Some (c # takeWhile js_space s) else comma_match s)"

definition get_selectors :: "string \<Rightarrow> string list" where
  "get_selectors selector = list_comma selector"

text \<open>The argument \<open>between\<close> is the result of \<open>raw("between", "beforeOpen")\<close>.\<close>

definition set_selectors :: "string \<Rightarrow> string \<Rightarrow> string list \<Rightarrow> string" where
  "set_selectors selector between e =
     (let t = (if selector = [] then None else comma_match selector);
          i = (case t of Some m \<Rightarrow> m | None \<Rightarrow> '','' @ between)
      in join_with i e)"

section \<open>Closed items\<close>

text \<open>An item that the splitter reads from its start state back to it without separating.\<close>

fun closed_from :: "string \<Rightarrow> split_state \<Rightarrow> string \<Rightarrow> split_state option" where
  "closed_from e st [] = Some st"
| "closed_from e st (f # r) = (case split_char e f st of (s, st') \<Rightarrow> if s then None else closed_from e st' r)"

definition closed_item :: "string \<Rightarrow> string \<Rightarrow> bool" where
  "closed_item e w \<longleftrightarrow> w \<noteq> [] \<and> js_trim w = w \<and> closed_from e split_start w = Some split_start"

lemma split_loop_closed:
  "closed_from e st w = Some st' \<Longrightarrow> split_loop e t (w @ r) i n st = split_loop e t r i (n @ w) st'"
  by (induction e st w arbitrary: n rule: closed_from.induct) (auto split: prod.splits if_splits)

lemma closed_spaces:
  assumes "list_all js_space w" "list_all (\<lambda>c. c \<notin> set e) w"
  shows "closed_from e split_start w = Some split_start"
  using assms by (induction w) (auto simp: split_char_def js_space_def)

lemma js_trim_leading: "list_all js_space b \<Longrightarrow> js_trim (b @ w) = js_trim w"
  by (induction b) (auto simp: js_trim_def)

lemma split_join_loop:
  assumes "list_all js_space b" "list_all (\<lambda>c. c \<notin> set e) b" "x \<in> set e" "x \<notin> {CHR 0x5C, CHR 0x22, CHR 0x27, CHR ''('', CHR '')''}"
    and "\<forall>w \<in> set ws. closed_item e w" "ws \<noteq> []" "list_all js_space n"
  shows "split_loop e t (join_with (x # b) ws) i n split_start = i @ ws"
  using assms(5-7)
proof (induction "x # b" ws arbitrary: i n rule: join_with.induct)
  case (2 w)
  then have w: "closed_from e split_start w = Some split_start" "w \<noteq> []" "js_trim w = w" by (auto simp: closed_item_def)
  from split_loop_closed [OF w(1), of t "[]" i n] 2 w show ?case by (simp add: js_trim_leading)
next
  case (3 w v ws)
  then have w: "closed_from e split_start w = Some split_start" "w \<noteq> []" "js_trim w = w" by (auto simp: closed_item_def)
  let ?r = "join_with (x # b) (v # ws)"
  have "split_loop e t (join_with (x # b) (w # v # ws)) i n split_start = split_loop e t (x # b @ ?r) i (n @ w) split_start"
    using split_loop_closed [OF w(1), of t "x # b @ ?r" i n] by simp
  also have "\<dots> = split_loop e t (b @ ?r) (i @ [w]) [] split_start"
    using assms(3,4) w 3(4) by (simp add: split_char_def js_trim_leading)
  also have "\<dots> = split_loop e t ?r (i @ [w]) b split_start"
    using split_loop_closed [OF closed_spaces [OF assms(1,2)], of t ?r "i @ [w]" "[]"] by simp
  also have "\<dots> = i @ w # v # ws" using 3(1) [of b "i @ [w]"] 3(2) assms(1) by simp
  finally show ?case .
qed simp

lemma comma_match_spaces: "comma_match s = Some m \<Longrightarrow> \<exists>b. m = CHR '','' # b \<and> list_all js_space b"
  by (induction s) (auto simp: list_all_iff split: if_splits dest: set_takeWhileD)

text \<open>
  Assigning \<open>selectors\<close> and reading it back gives the assigned list: for every non-empty list of
  non-empty trimmed selectors without a top-level comma (commas in parentheses, strings and
  escapes are allowed), whatever separator the old selector text suggests, as long as the
  default separator consists of white space.
\<close>

theorem selectors_roundtrip:
  assumes "e \<noteq> []" "\<forall>w \<in> set e. closed_item '','' w" "list_all js_space between"
  shows "get_selectors (set_selectors selector between e) = e"
proof -
  obtain b where b: "set_selectors selector between e = join_with (CHR '','' # b) e" "list_all js_space b"
  proof (cases "if selector = [] then None else comma_match selector")
    case None
    with assms(3) that show ?thesis by (auto simp: set_selectors_def Let_def)
  next
    case (Some m)
    then obtain b where "m = CHR '','' # b" "list_all js_space b" using comma_match_spaces by (auto split: if_splits)
    with Some that show ?thesis by (auto simp: set_selectors_def Let_def)
  qed
  have "\<not> js_space CHR '',''" by (simp add: js_space_def)
  with b(2) have "list_all (\<lambda>c. c \<notin> set '','') b" by (fastforce simp: list_all_iff)
  from split_join_loop [OF b(2) this _ _ assms(2,1), of "CHR '',''" "[]" True "[]"] b(1) show ?thesis
    by (simp add: get_selectors_def list_comma_def list_split_def)
qed

theorem selectors_roundtrip_witness:
  "get_selectors (set_selectors ''a, b'' '' '' [''.x'', '':is(p, q)'']) = [''.x'', '':is(p, q)'']"
proof -
  have "\<forall>w \<in> set [''.x'', '':is(p, q)'']. closed_item '','' w" by code_simp
  from selectors_roundtrip [OF _ this, of "'' ''" "''a, b''"] show ?thesis by (simp add: js_space_def)
qed

end
