(* ===== verification/Css_Tokenizer.thy ===== *)
theory Css_Tokenizer
  imports Js_Text
begin

text \<open>
  The tokenizer of the bundled CSS parser (module \<open>up\<close> in \<^verbatim>\<open>tailwind.js\<close>): the closure variables that
  survive a call are the offset \<open>y\<close>, the stack \<open>w\<close> of word tokens and the stack \<open>k\<close> of returned tokens.
  An error is the unclosed construct with the offset it began at.
\<close>

section \<open>Data\<close>

record css_token =
  tk_type :: string
  tk_text :: string
  tk_start :: "nat option"
  tk_end :: "nat option"

record tok_state =
  ts_pos :: nat \<comment> \<open>\<open>y\<close>\<close>
  ts_words :: "css_token list" \<comment> \<open>\<open>w\<close>, last pushed first\<close>
  ts_returned :: "css_token list" \<comment> \<open>\<open>k\<close>, last pushed first\<close>

datatype tok_error = Unclosed string nat

abbreviation tok_start :: tok_state where
  "tok_start \<equiv> \<lparr>ts_pos = 0, ts_words = [], ts_returned = []\<rparr>"

abbreviation backslash :: char where "backslash \<equiv> CHR 0x5C"

text \<open>\<^verbatim>\<open>charCodeAt\<close>, and the sets of the regular expressions \<open>On\<close>, \<open>Tn\<close>, \<open>v1\<close> and \<open>op\<close>.\<close>

definition char_at :: "string \<Rightarrow> nat \<Rightarrow> char option" where
  "char_at s i = (if i < length s then Some (s ! i) else None)"

definition css_space :: "char \<Rightarrow> bool" where
  "css_space c \<longleftrightarrow> c \<in> {CHR 0x20, CHR 0x0A, CHR 0x09, CHR 0x0D, CHR 0x0C}"

definition at_end_char :: "char \<Rightarrow> bool" where
  "at_end_char c \<longleftrightarrow> css_space c \<or> c \<in> set ''#()/;[]{}'' \<or> c \<in> {CHR 0x22, CHR 0x27, backslash}"

definition word_end_at :: "string \<Rightarrow> nat \<Rightarrow> bool" where
  "word_end_at s i \<longleftrightarrow>
     css_space (s ! i) \<or> s ! i \<in> set ''!#():;@[]{}'' \<or> s ! i \<in> {CHR 0x22, CHR 0x27, backslash} \<or>
     s ! i = CHR ''/'' \<and> char_at s (Suc i) = Some CHR ''*''"

definition bad_bracket :: "string \<Rightarrow> bool" where
  "bad_bracket a \<longleftrightarrow>
     list_ex (\<lambda>(x, z). x \<notin> {CHR 0x0A, CHR 0x0D} \<and> (z \<in> set ''(/'' \<or> z \<in> {CHR 0x0D, CHR 0x0A, CHR 0x22, CHR 0x27, backslash})) (zip a (tl a))"

definition hex_at :: "string \<Rightarrow> nat \<Rightarrow> bool" where
  "hex_at s i \<longleftrightarrow> (case char_at s i of None \<Rightarrow> False | Some c \<Rightarrow> c \<in> set ''0123456789abcdefABCDEF'')"

section \<open>Scanning\<close>

text \<open>The last index of the run of characters that satisfy \<open>P\<close> behind \<open>l\<close>.\<close>

definition run_end :: "(char \<Rightarrow> bool) \<Rightarrow> string \<Rightarrow> nat \<Rightarrow> nat" where
  "run_end P s l = l + length (takeWhile P (drop (Suc l) s))"

text \<open>The end of a word or at-word that begins at \<open>y\<close>: just before the first stop, or the end of the text.\<close>

definition stop_before :: "(nat \<Rightarrow> bool) \<Rightarrow> string \<Rightarrow> nat \<Rightarrow> nat" where
  "stop_before P s y = (case find P [Suc y..<length s] of None \<Rightarrow> length s - 1 | Some i \<Rightarrow> i - 1)"

text \<open>Whether an odd number of backslashes stands before index \<open>l\<close>.\<close>

definition escaped :: "string \<Rightarrow> nat \<Rightarrow> bool" where
  "escaped s l \<longleftrightarrow> odd (length (takeWhile (\<lambda>c. c = backslash) (rev (take l s))))"

lemma index_from_Some: "index_from s sub i = Some m \<Longrightarrow> i \<le> m \<and> m \<le> length s \<and> has_prefix (drop m s) sub"
proof (induction s sub i rule: index_from.induct)
  case (1 s sub i)
  show ?case
  proof (cases "has_prefix (drop i s) sub \<and> i \<le> length s")
    case True
    with 1(2) show ?thesis by (simp add: index_from.simps [of s sub i])
  next
    case False
    with 1(2) have "i < length s" "index_from s sub (Suc i) = Some m"
      by (simp_all add: index_from.simps [of s sub i] split: if_splits)
    with 1(1) [OF False] show ?thesis by simp
  qed
qed

lemma index_from_lt: "index_from s [c] i = Some m \<Longrightarrow> m < length s"
  using index_from_Some [of s "[c]" i m] by (cases "m = length s") (auto simp: has_prefix_def)

text \<open>The loops that look for the closing quote or bracket behind \<open>l\<close>.\<close>

function close_after :: "string \<Rightarrow> char \<Rightarrow> nat \<Rightarrow> nat option" where
  "close_after s q l =
     (case index_from s [q] (Suc l) of
        None \<Rightarrow> None
      | Some m \<Rightarrow> if escaped s m then close_after s q m else Some m)"
  by pat_completeness auto
termination
  by (relation "measure (\<lambda>(s, q, l). length s - l)") (auto dest: index_from_lt index_from_Some)

declare close_after.simps [simp del]

section \<open>The next token\<close>

definition text_between :: "string \<Rightarrow> nat \<Rightarrow> nat \<Rightarrow> string" where
  "text_between s y l = take (Suc l - y) (drop y s)"

text \<open>A token from \<open>y\<close> to \<open>l\<close>; the offset moves behind it.\<close>

definition emit :: "string \<Rightarrow> string \<Rightarrow> nat \<Rightarrow> nat \<Rightarrow> css_token" where
  "emit ty s y l = \<lparr>tk_type = ty, tk_text = text_between s y l, tk_start = Some y, tk_end = Some l\<rparr>"

definition punct :: "string \<Rightarrow> nat \<Rightarrow> css_token" where
  "punct t y = \<lparr>tk_type = t, tk_text = t, tk_start = Some y, tk_end = None\<rparr>"

definition escape_end :: "string \<Rightarrow> nat \<Rightarrow> nat" where
  "escape_end s y =
     (let l = run_end (\<lambda>c. c = backslash) s y; o' = even (l - y); c = char_at s (Suc l) in
      if o' \<and> c \<noteq> Some CHR ''/'' \<and> (case c of None \<Rightarrow> True | Some x \<Rightarrow> \<not> css_space x) then
        if hex_at s (Suc l) then
          let l' = run_end (\<lambda>c. c \<in> set ''0123456789abcdefABCDEF'') s (Suc l)
          in if char_at s (Suc l') = Some CHR '' '' then Suc l' else l'
        else Suc l
      else l)"

text \<open>The case of an opening parenthesis: a \<open>url(\<close> without quotes, a simple bracket, or just the character.\<close>

definition paren_token :: "bool \<Rightarrow> string \<Rightarrow> nat \<Rightarrow> string \<Rightarrow> tok_error + (css_token \<times> nat)" where
  "paren_token ign s y b =
     (let h = char_at s (Suc y) in
      if b = ''url'' \<and> (case h of None \<Rightarrow> True | Some x \<Rightarrow> x \<noteq> CHR 0x27 \<and> x \<noteq> CHR 0x22 \<and> \<not> css_space x) then
        (case close_after s (CHR '')'') y of
           Some l \<Rightarrow> Inr (emit ''brackets'' s y l, l)
         | None \<Rightarrow> if ign then Inr (emit ''brackets'' s y y, y) else Inl (Unclosed ''bracket'' y))
      else
        (case index_from s '')'' (Suc y) of
           None \<Rightarrow> Inr (punct ''('' y, y)
         | Some l \<Rightarrow>
             if bad_bracket (text_between s y l) then Inr (punct ''('' y, y) else Inr (emit ''brackets'' s y l, l)))"

definition quote_token :: "bool \<Rightarrow> string \<Rightarrow> nat \<Rightarrow> char \<Rightarrow> tok_error + (css_token \<times> nat)" where
  "quote_token ign s y q =
     (case close_after s q y of
        Some l \<Rightarrow> Inr (emit ''string'' s y l, l)
      | None \<Rightarrow> if ign then Inr (emit ''string'' s y (Suc y), Suc y) else Inl (Unclosed ''string'' y))"

definition comment_token :: "bool \<Rightarrow> string \<Rightarrow> nat \<Rightarrow> tok_error + (css_token \<times> nat)" where
  "comment_token ign s y =
     (case index_from s ''*/'' (y + 2) of
        Some m \<Rightarrow> Inr (emit ''comment'' s y (Suc m), Suc m)
      | None \<Rightarrow> if ign then Inr (emit ''comment'' s y (length s), length s) else Inl (Unclosed ''comment'' y))"

text \<open>
  The switch of \<open>nextToken\<close> at offset \<open>y\<close> of a non-empty rest: the token, the index \<open>l\<close> of its last
  character and the stack of words.
\<close>

definition switch_token :: "bool \<Rightarrow> string \<Rightarrow> nat \<Rightarrow> css_token list \<Rightarrow> tok_error + (css_token \<times> nat \<times> css_token list)" where
  "switch_token ign s y w =
     (let c = s ! y; keep = (\<lambda>r. case r of Inl e \<Rightarrow> Inl e | Inr (t, l) \<Rightarrow> Inr (t, l, w)) in
      if css_space c then
        let l = run_end css_space s y
        in Inr (\<lparr>tk_type = ''space'', tk_text = text_between s y l, tk_start = None, tk_end = None\<rparr>, l, w)
      else if c \<in> set ''[]{}:;)'' then Inr (punct [c] y, y, w)
      else if c = CHR ''('' then
        (case paren_token ign s y (case w of [] \<Rightarrow> [] | t # _ \<Rightarrow> tk_text t) of
           Inl e \<Rightarrow> Inl e
         | Inr (t, l) \<Rightarrow> Inr (t, l, tl w))
      else if c = CHR 0x27 \<or> c = CHR 0x22 then keep (quote_token ign s y c)
      else if c = CHR ''@'' then
        let l = stop_before (\<lambda>i. at_end_char (s ! i)) s y in Inr (emit ''at-word'' s y l, l, w)
      else if c = backslash then
        let l = escape_end s y in Inr (emit ''word'' s y l, l, w)
      else if c = CHR ''/'' \<and> char_at s (Suc y) = Some CHR ''*'' then keep (comment_token ign s y)
      else
        let l = stop_before (word_end_at s) s y; t = emit ''word'' s y l in Inr (t, l, t # w))"

definition nextToken :: "bool \<Rightarrow> string \<Rightarrow> bool \<Rightarrow> tok_state \<Rightarrow> tok_error + (css_token option \<times> tok_state)" where
  "nextToken ignoreErrors s ignoreUnclosed st =
     (case ts_returned st of
        t # k \<Rightarrow> Inr (Some t, st\<lparr>ts_returned := k\<rparr>)
      | [] \<Rightarrow>
          if ts_pos st \<ge> length s then Inr (None, st)
          else
            (case switch_token (ignoreErrors \<or> ignoreUnclosed) s (ts_pos st) (ts_words st) of
               Inl e \<Rightarrow> Inl e
             | Inr (t, l, w) \<Rightarrow> Inr (Some t, st\<lparr>ts_pos := Suc l, ts_words := w\<rparr>)))"

definition back_token :: "css_token \<Rightarrow> tok_state \<Rightarrow> tok_state" where
  "back_token t st = st\<lparr>ts_returned := t # ts_returned st\<rparr>"

definition endOfFile :: "string \<Rightarrow> tok_state \<Rightarrow> bool" where
  "endOfFile s st \<longleftrightarrow> ts_returned st = [] \<and> ts_pos st \<ge> length s"

definition tok_position :: "tok_state \<Rightarrow> nat" where
  "tok_position st = ts_pos st"

text \<open>
  Reading to the end as the parser's loop does, \<^verbatim>\<open>while(!endOfFile()) nextToken()\<close>; \<open>None\<close> is running
  out of fuel.
\<close>

fun read_loop :: "('s \<Rightarrow> bool) \<Rightarrow> ('s \<Rightarrow> 'e + ('t option \<times> 's)) \<Rightarrow> nat \<Rightarrow> 's \<Rightarrow> ('e + 't list) option" where
  "read_loop eof get 0 st = (if eof st then Some (Inr []) else None)"
| "read_loop eof get (Suc n) st =
     (if eof st then Some (Inr [])
      else case get st of
             Inl e \<Rightarrow> Some (Inl e)
           | Inr (None, st') \<Rightarrow> read_loop eof get n st'
           | Inr (Some t, st') \<Rightarrow>
               (case read_loop eof get n st' of
                  Some (Inr ts) \<Rightarrow> Some (Inr (t # ts))
                | r \<Rightarrow> r))"

definition all_tokens :: "nat \<Rightarrow> bool \<Rightarrow> string \<Rightarrow> tok_state \<Rightarrow> (tok_error + css_token list) option" where
  "all_tokens n ign s = read_loop (endOfFile s) (nextToken ign s False) n"

section \<open>Readers of a token source\<close>

text \<open>
  What the reading loop relies on: while there is text left, a call either fails or hands out a
  token that is the non-empty next piece of it.
\<close>

locale token_source =
  fixes eof :: "'s \<Rightarrow> bool" and get :: "'s \<Rightarrow> 'e + ('t option \<times> 's)"
    and rest :: "'s \<Rightarrow> string" and piece :: "'t \<Rightarrow> string" and valid :: "'s \<Rightarrow> bool"
  assumes eof_iff: "valid st \<Longrightarrow> eof st \<longleftrightarrow> rest st = []"
    and get_piece: "valid st \<Longrightarrow> \<not> eof st \<Longrightarrow> get st = Inr (r, st') \<Longrightarrow>
      valid st' \<and> (\<exists>t. r = Some t \<and> piece t \<noteq> [] \<and> rest st = piece t @ rest st')"
begin

lemma loop_cases:
  assumes "valid st" "\<not> eof st"
  obtains e where "get st = Inl e" "read_loop eof get (Suc n) st = Some (Inl e)"
  | t st' where "get st = Inr (Some t, st')" "valid st'" "piece t \<noteq> []" "rest st = piece t @ rest st'"
      "read_loop eof get (Suc n) st =
        (case read_loop eof get n st' of Some (Inr ts) \<Rightarrow> Some (Inr (t # ts)) | r \<Rightarrow> r)"
proof (cases "get st")
  case (Inl e)
  with assms that(1) show thesis by simp
next
  case (Inr p)
  obtain r st' where p: "p = (r, st')" by fastforce
  from get_piece [OF assms Inr [unfolded p]] Inr p assms that(2) [of _ st'] show thesis by auto
qed

lemma loop_ends: "valid st \<Longrightarrow> length (rest st) \<le> n \<Longrightarrow> read_loop eof get n st \<noteq> None"
proof (induction n arbitrary: st)
  case (Suc n)
  show ?case
  proof (cases "eof st")
    case False
    with Suc.prems(1) show ?thesis
    proof (cases rule: loop_cases [where n = n])
      case (2 t st')
      then have "length (rest st') \<le> n" using Suc.prems(2) by (cases "piece t") auto
      from Suc.IH [OF 2(2) this] 2(5) show ?thesis by (auto split: option.split sum.split)
    qed simp
  qed simp
qed (simp add: eof_iff)

lemma loop_lossless: "valid st \<Longrightarrow> read_loop eof get n st = Some (Inr ts) \<Longrightarrow> concat (map piece ts) = rest st"
proof (induction n arbitrary: st ts)
  case (Suc n)
  show ?case
  proof (cases "eof st")
    case False
    with Suc.prems(1) show ?thesis
    proof (cases rule: loop_cases [where n = n])
      case (2 t st')
      with Suc.prems(2) obtain us where "read_loop eof get n st' = Some (Inr us)" "ts = t # us"
        by (auto split: option.splits sum.splits)
      with Suc.IH [OF 2(2)] 2(4) show ?thesis by simp
    qed (use Suc.prems in simp)
  qed (use Suc.prems eof_iff in auto)
qed (auto simp: eof_iff split: if_splits)

lemma loop_error: "valid st \<Longrightarrow> read_loop eof get n st = Some (Inl e) \<Longrightarrow> \<exists>st'. get st' = Inl e"
proof (induction n arbitrary: st)
  case (Suc n)
  show ?case
  proof (cases "eof st")
    case False
    with Suc.prems(1) show ?thesis
    proof (cases rule: loop_cases [where n = n])
      case (2 t st')
      with Suc.prems(2) have "read_loop eof get n st' = Some (Inl e)" by (auto split: option.splits sum.splits)
      with Suc.IH [OF 2(2)] show ?thesis .
    qed (use Suc.prems in auto)
  qed (use Suc.prems in auto)
qed (auto split: if_splits)

end

section \<open>One token\<close>

definition token_types :: "string list" where
  "token_types = [''space'', ''['', '']'', ''{'', ''}'', '':'', '';'', '')'', ''('', ''brackets'', ''string'', ''at-word'', ''word'', ''comment'']"

text \<open>A token read at offset \<open>y\<close> up to \<open>l\<close>: its type is known, it is not empty, its text and indices are those of the source.\<close>

definition token_ok :: "string \<Rightarrow> nat \<Rightarrow> nat \<Rightarrow> css_token \<Rightarrow> bool" where
  "token_ok s y l t \<longleftrightarrow> tk_type t \<in> set token_types \<and> tk_text t = text_between s y l \<and> y \<le> l \<and> tk_text t \<noteq> [] \<and>
     (if tk_type t = ''space'' then tk_start t = None \<and> tk_end t = None else tk_start t = Some y) \<and>
     (tk_end t = None \<or> tk_end t = Some l)"

lemma text_between_ne: "y < length s \<Longrightarrow> y \<le> l \<Longrightarrow> text_between s y l \<noteq> []"
  by (simp add: text_between_def)

lemma text_between_one: "y < length s \<Longrightarrow> text_between s y y = [s ! y]"
  by (simp add: text_between_def Cons_nth_drop_Suc [symmetric])

lemma emit_ok: "y < length s \<Longrightarrow> y \<le> l \<Longrightarrow> ty \<in> set token_types \<Longrightarrow> ty \<noteq> ''space'' \<Longrightarrow> token_ok s y l (emit ty s y l)"
  by (simp add: token_ok_def emit_def text_between_ne)

lemma punct_ok: "y < length s \<Longrightarrow> [s ! y] \<in> set token_types \<Longrightarrow> token_ok s y y (punct [s ! y] y)"
  by (simp add: token_ok_def punct_def text_between_one)

lemma close_after_gt: "close_after s q l = Some m \<Longrightarrow> l < m"
proof (induction s q l rule: close_after.induct)
  case (1 s q l)
  then show ?case
    by (auto simp: close_after.simps [of s q l] split: option.splits if_splits dest: index_from_Some)
qed

lemma run_end_ge: "y \<le> run_end P s y"
  by (simp add: run_end_def)

lemma stop_before_ge: "y < length s \<Longrightarrow> y \<le> stop_before P s y"
  by (auto simp: stop_before_def find_Some_iff split: option.split)

lemma escape_end_ge: "y \<le> escape_end s y"
  using run_end_ge [of y "\<lambda>c. c = backslash" s]
    run_end_ge [of "Suc (run_end (\<lambda>c. c = backslash) s y)" "\<lambda>c. c \<in> set ''0123456789abcdefABCDEF''" s]
  by (auto simp: escape_end_def Let_def simp del: set_simps list.set)

lemma types_known: "{''brackets'', ''string'', ''at-word'', ''word'', ''comment''} \<subseteq> set token_types - {''space''}"
  by (simp add: token_types_def)

lemma paren_token_ok:
  "paren_token ign s y b = Inr (t, l) \<Longrightarrow> y < length s \<Longrightarrow> s ! y = CHR ''('' \<Longrightarrow> token_ok s y l t"
  using punct_ok [of y s] emit_ok [of y s] close_after_gt [of s "CHR '')''" y] index_from_Some [of s "'')''" "Suc y"] types_known
  by (fastforce simp: paren_token_def Let_def token_types_def split: option.splits if_splits)

lemma quote_token_ok: "quote_token ign s y q = Inr (t, l) \<Longrightarrow> y < length s \<Longrightarrow> token_ok s y l t"
  by (auto simp: quote_token_def token_types_def split: option.splits if_splits
      intro!: emit_ok dest!: close_after_gt [THEN less_imp_le])

lemma comment_token_ok: "comment_token ign s y = Inr (t, l) \<Longrightarrow> y < length s \<Longrightarrow> token_ok s y l t"
  using emit_ok [of y s] index_from_Some [of s "''*/''" "y + 2"]
  by (fastforce simp: comment_token_def token_types_def split: option.splits if_splits)

lemma space_token_ok:
  "y < length s \<Longrightarrow> y \<le> l \<Longrightarrow>
     token_ok s y l \<lparr>tk_type = ''space'', tk_text = text_between s y l, tk_start = None, tk_end = None\<rparr>"
  by (simp add: token_ok_def text_between_ne token_types_def)

lemma switch_token_ok:
  assumes "switch_token ign s y w = Inr (t, l, w')" "y < length s"
  shows "token_ok s y l t"
proof -
  consider "css_space (s ! y)" | "\<not> css_space (s ! y)" "s ! y \<in> set ''[]{}:;)''"
    | "\<not> css_space (s ! y)" "s ! y \<notin> set ''[]{}:;)''" by blast
  then show ?thesis
  proof cases
    case 1
    with assms space_token_ok [OF assms(2) run_end_ge] show ?thesis by (auto simp: switch_token_def Let_def)
  next
    case 2
    then have "[s ! y] \<in> set token_types" by (auto simp: token_types_def)
    with 2 assms punct_ok show ?thesis by (auto simp: switch_token_def Let_def)
  next
    case 3
    note words = emit_ok [OF assms(2) stop_before_ge [OF assms(2)]] emit_ok [OF assms(2) escape_end_ge]
    have known: "''at-word'' \<in> set token_types" "''word'' \<in> set token_types" by (simp_all add: token_types_def)
    from 3 assms words known show ?thesis
      by (auto simp: switch_token_def Let_def simp del: set_simps list.set split: if_splits sum.splits prod.splits
          dest: paren_token_ok quote_token_ok comment_token_ok)
  qed
qed

lemma nextToken_ok:
  assumes "nextToken ign s u st = Inr (Some t, st')" "ts_returned st = []"
  shows "ts_returned st' = [] \<and> ts_pos st < length s \<and> (\<exists>l. ts_pos st' = Suc l \<and> token_ok s (ts_pos st) l t)"
  using assms switch_token_ok by (auto simp: nextToken_def split: if_splits sum.splits)

lemma nextToken_more:
  "ts_returned st = [] \<Longrightarrow> \<not> endOfFile s st \<Longrightarrow> nextToken ign s u st \<noteq> Inr (None, st')"
  by (auto simp: nextToken_def endOfFile_def split: sum.splits prod.splits)

lemma nextToken_error:
  "nextToken ign s u st = Inl e \<Longrightarrow> \<not> ign \<and> \<not> u \<and> (\<exists>what. e = Unclosed what (ts_pos st) \<and> what \<in> {''bracket'', ''string'', ''comment''})"
  by (auto simp: nextToken_def switch_token_def paren_token_def quote_token_def comment_token_def Let_def
      simp del: set_simps list.set split: list.splits if_splits sum.splits prod.splits option.splits)

section \<open>All tokens\<close>

lemma text_between_append: "y \<le> l \<Longrightarrow> text_between s y l @ drop (Suc l) s = drop y s"
  by (simp add: text_between_def) (metis append_take_drop_id drop_drop le_add_diff_inverse2 le_SucI)

interpretation tok: token_source "endOfFile s" "nextToken ign s False" "\<lambda>st. drop (ts_pos st) s" tk_text "\<lambda>st. ts_returned st = []"
  for s ign
proof
  fix st r st'
  assume st: "ts_returned st = []" "\<not> endOfFile s st" "nextToken ign s False st = Inr (r, st')"
  with nextToken_more obtain t where t: "r = Some t" by (cases r) auto
  from nextToken_ok [OF st(3) [unfolded t] st(1)] obtain l where
    "ts_returned st' = []" "ts_pos st' = Suc l" "token_ok s (ts_pos st) l t" by auto
  with t text_between_append [of "ts_pos st" l s]
  show "ts_returned st' = [] \<and> (\<exists>t. r = Some t \<and> tk_text t \<noteq> [] \<and> drop (ts_pos st) s = tk_text t @ drop (ts_pos st') s)"
    by (auto simp: token_ok_def)
qed (simp add: endOfFile_def)

text \<open>
  C27. Tokenizing ends and loses nothing: on every text the loop finishes within as many calls of
  \<open>nextToken\<close> as the text has characters; it either yields tokens whose texts put together are the
  text, or stops at an unclosed construct, and the latter only when errors are not ignored.
\<close>

theorem tokenizing_total:
  "\<exists>r. all_tokens (length s) ignoreErrors s tok_start = Some r \<and>
     (case r of Inl e \<Rightarrow> ignoreErrors = False | Inr ts \<Rightarrow> concat (map tk_text ts) = s)"
proof -
  obtain r where r: "all_tokens (length s) ignoreErrors s tok_start = Some r"
    using tok.loop_ends [of tok_start s "length s" ignoreErrors] by (fastforce simp: all_tokens_def)
  then show ?thesis
    using tok.loop_error [of tok_start s ignoreErrors "length s"] tok.loop_lossless [of tok_start s ignoreErrors "length s"]
      nextToken_error [of ignoreErrors s False]
    by (cases r) (auto simp: all_tokens_def)
qed

text \<open>
  C28. Every token that is read from the text is well formed: its type is one of the fourteen the parser
  knows, its text is the non-empty piece of the source between the old and the new offset, and its
  start and end indices are those of that piece (white space carries none).
\<close>

theorem token_well_formed:
  assumes "nextToken ign s u st = Inr (Some t, st')" "ts_returned st = []"
  shows "tk_type t \<in> set token_types \<and> tk_text t \<noteq> [] \<and> tk_text t = text_between s (ts_pos st) (ts_pos st' - 1) \<and>
     ts_pos st < ts_pos st' \<and> tk_start t \<in> {None, Some (ts_pos st)} \<and> tk_end t \<in> {None, Some (ts_pos st' - 1)} \<and>
     (tk_start t = None) = (tk_type t = ''space'')"
  using nextToken_ok [OF assms] by (auto simp: token_ok_def split: if_splits)

theorem token_well_formed_witness:
  "tk_text (\<lparr>tk_type = ''at-word'', tk_text = ''@media'', tk_start = Some 0, tk_end = Some 5\<rparr>) = text_between ''@media x'' 0 5"
proof -
  have r: "nextToken False ''@media x'' False tok_start =
      Inr (Some \<lparr>tk_type = ''at-word'', tk_text = ''@media'', tk_start = Some 0, tk_end = Some 5\<rparr>, tok_start\<lparr>ts_pos := 6\<rparr>)"
    by code_simp
  from token_well_formed [OF r] show ?thesis by simp
qed

end
