(* ===== verification/Stringifier.thy ===== *)
theory Stringifier
  imports Js_Text
begin

text \<open>
  The CSS printer of the bundled parser (class \<open>dn\<close>, \<open>Stringifier\<close>, in \<^verbatim>\<open>tailwind.js\<close>).  A node is a value
  of the datatype \<open>css_node\<close>; what the printer asks of a node's surroundings (its parent, whether it
  is the first child, its depth, its root) is the record \<open>css_ctx\<close>, passed down as the code walks
  the tree.  The memo table \<open>rawCache\<close>, an object on the root that the methods update, is passed
  through all calls.  Calls of the builder are the list of its text arguments.  Documents, the
  containers of several roots that only other syntaxes build, are left out.
\<close>

section \<open>Trees\<close>

record css_raws =
  rw_before :: "string option"
  rw_after :: "string option"
  rw_between :: "string option"
  rw_afterName :: "string option"
  rw_left :: "string option"
  rw_right :: "string option"
  rw_important :: "string option"
  rw_ownSemicolon :: "string option"
  rw_indent :: "string option"
  rw_semicolon :: "bool option"
  rw_raw :: "(string \<times> string) option" \<comment> \<open>\<open>{value, raw}\<close> of the params, selector or value\<close>

datatype css_node =
  Root "css_node list" css_raws
| AtRule string string "css_node list option" css_raws
| Rule string "css_node list" css_raws
| Decl string string bool css_raws
| Comment string css_raws

fun node_raws :: "css_node \<Rightarrow> css_raws" where
  "node_raws (Root _ r) = r"
| "node_raws (AtRule _ _ _ r) = r"
| "node_raws (Rule _ _ r) = r"
| "node_raws (Decl _ _ _ r) = r"
| "node_raws (Comment _ r) = r"

fun node_nodes :: "css_node \<Rightarrow> css_node list option" where
  "node_nodes (Root ns _) = Some ns"
| "node_nodes (AtRule _ _ ns _) = ns"
| "node_nodes (Rule _ ns _) = Some ns"
| "node_nodes _ = None"

fun is_Decl :: "css_node \<Rightarrow> bool" where
  "is_Decl (Decl _ _ _ _) = True"
| "is_Decl _ = False"

fun is_Comment :: "css_node \<Rightarrow> bool" where
  "is_Comment (Comment _ _) = True"
| "is_Comment _ = False"

fun is_Root :: "css_node \<Rightarrow> bool" where
  "is_Root (Root _ _) = True"
| "is_Root _ = False"

section \<open>Detecting the style of a sheet\<close>

datatype raw_kind =
  BeforeDecl | BeforeComment | BeforeRule | BeforeClose | BeforeOpen | Colon | EmptyBody | Indent | CommentLeft | CommentRight

text \<open>The defaults \<open>xc\<close>; those of \<open>after\<close> and \<open>semicolon\<close> stand where they are used.\<close>

fun default_raw :: "raw_kind \<Rightarrow> string" where
  "default_raw BeforeClose = [newline]"
| "default_raw BeforeComment = [newline]"
| "default_raw BeforeDecl = [newline]"
| "default_raw BeforeOpen = '' ''"
| "default_raw BeforeRule = [newline]"
| "default_raw Colon = '': ''"
| "default_raw CommentLeft = '' ''"
| "default_raw CommentRight = '' ''"
| "default_raw EmptyBody = []"
| "default_raw Indent = ''    ''"

text \<open>
  The nodes below a container in the order of \<open>walk\<close>, each with its depth under the root (its
  children have depth one) and whether it is the first child of its parent.
\<close>

fun walk :: "nat \<Rightarrow> css_node \<Rightarrow> (nat \<times> bool \<times> css_node) list"
and walk_list :: "nat \<Rightarrow> bool \<Rightarrow> css_node list \<Rightarrow> (nat \<times> bool \<times> css_node) list" where
  "walk d (Root ns _) = walk_list (Suc d) True ns"
| "walk d (AtRule _ _ (Some ns) _) = walk_list (Suc d) True ns"
| "walk d (AtRule _ _ None _) = []"
| "walk d (Rule _ ns _) = walk_list (Suc d) True ns"
| "walk d (Decl _ _ _ _) = []"
| "walk d (Comment _ _) = []"
| "walk_list d b [] = []"
| "walk_list d b (n # ns) = (d, b, n) # walk d n @ walk_list d False ns"

text \<open>The first defined value that the callback finds on the walk.\<close>

definition first_raw :: "(nat \<times> bool \<times> css_node \<Rightarrow> 'a option) \<Rightarrow> css_node \<Rightarrow> 'a option" where
  "first_raw f root = (case List.map_filter f (walk 0 root) of [] \<Rightarrow> None | v # _ \<Rightarrow> Some v)"

definition cut_line :: "string \<Rightarrow> string" where
  "cut_line s = only_spaces (if newline \<in> set s then drop_last_line s else s)"

definition rawBeforeClose :: "css_node \<Rightarrow> string option" where
  "rawBeforeClose = first_raw (\<lambda>(d, b, n).
     case node_nodes n of
       Some (x # xs) \<Rightarrow> map_option cut_line (rw_after (node_raws n))
     | _ \<Rightarrow> None)"

definition rawBeforeComment_own :: "css_node \<Rightarrow> string option" where
  "rawBeforeComment_own = first_raw (\<lambda>(d, b, n). if is_Comment n then map_option cut_line (rw_before (node_raws n)) else None)"

definition rawBeforeDecl_own :: "css_node \<Rightarrow> string option" where
  "rawBeforeDecl_own = first_raw (\<lambda>(d, b, n). if is_Decl n then map_option cut_line (rw_before (node_raws n)) else None)"

definition rawBeforeOpen :: "css_node \<Rightarrow> string option" where
  "rawBeforeOpen = first_raw (\<lambda>(d, b, n). if is_Decl n then None else rw_between (node_raws n))"

definition rawBeforeRule :: "css_node \<Rightarrow> string option" where
  "rawBeforeRule = first_raw (\<lambda>(d, b, n).
     if node_nodes n \<noteq> None \<and> \<not> (d = 1 \<and> b) then map_option cut_line (rw_before (node_raws n)) else None)"

definition rawColon :: "css_node \<Rightarrow> string option" where
  "rawColon = first_raw (\<lambda>(d, b, n).
     if is_Decl n then map_option (filter (\<lambda>c. js_space c \<or> c = CHR '':'')) (rw_between (node_raws n)) else None)"

definition rawEmptyBody :: "css_node \<Rightarrow> string option" where
  "rawEmptyBody = first_raw (\<lambda>(d, b, n). if node_nodes n = Some [] then rw_after (node_raws n) else None)"

definition rawIndent :: "css_node \<Rightarrow> string option" where
  "rawIndent root =
     (case rw_indent (node_raws root) of
        Some (c # cs) \<Rightarrow> Some (c # cs)
      | _ \<Rightarrow> first_raw (\<lambda>(d, b, n).
               if d = 2 then map_option (\<lambda>s. only_spaces (last (split_on newline s))) (rw_before (node_raws n)) else None) root)"

definition rawSemicolon :: "css_node \<Rightarrow> bool option" where
  "rawSemicolon = first_raw (\<lambda>(d, b, n).
     case node_nodes n of
       Some (x # xs) \<Rightarrow> if is_Decl (last (x # xs)) then rw_semicolon (node_raws n) else None
     | _ \<Rightarrow> None)"

section \<open>The memo table\<close>

record raw_cache =
  rc_text :: "(raw_kind, string) gomap"
  rc_semicolon :: "bool option"

definition memo :: "raw_kind \<Rightarrow> (raw_cache \<Rightarrow> string \<times> raw_cache) \<Rightarrow> raw_cache \<Rightarrow> string \<times> raw_cache" where
  "memo k f c =
     (case gget (rc_text c) k of
        Some v \<Rightarrow> (v, c)
      | None \<Rightarrow> (case f c of (v, c') \<Rightarrow> (v, c'\<lparr>rc_text := gput k v (rc_text c')\<rparr>)))"

definition or_default :: "raw_kind \<Rightarrow> string option \<Rightarrow> string" where
  "or_default k v = (case v of Some s \<Rightarrow> s | None \<Rightarrow> default_raw k)"

definition memo_beforeRule :: "css_node \<Rightarrow> raw_cache \<Rightarrow> string \<times> raw_cache" where
  "memo_beforeRule root = memo BeforeRule (\<lambda>c. (or_default BeforeRule (rawBeforeRule root), c))"

definition rawBeforeDecl :: "css_node \<Rightarrow> raw_cache \<Rightarrow> string \<times> raw_cache" where
  "rawBeforeDecl root c = (case rawBeforeDecl_own root of Some s \<Rightarrow> (s, c) | None \<Rightarrow> memo_beforeRule root c)"

definition memo_beforeDecl :: "css_node \<Rightarrow> raw_cache \<Rightarrow> string \<times> raw_cache" where
  "memo_beforeDecl root = memo BeforeDecl (rawBeforeDecl root)"

definition rawBeforeComment :: "css_node \<Rightarrow> raw_cache \<Rightarrow> string \<times> raw_cache" where
  "rawBeforeComment root c = (case rawBeforeComment_own root of Some s \<Rightarrow> (s, c) | None \<Rightarrow> memo_beforeDecl root c)"

text \<open>\<open>raw(e, null, kind)\<close> for a node that has a parent: the table, then the detector, then the default.\<close>

fun detect_raw :: "raw_kind \<Rightarrow> css_node \<Rightarrow> raw_cache \<Rightarrow> string \<times> raw_cache" where
  "detect_raw BeforeComment root c = memo BeforeComment (rawBeforeComment root) c"
| "detect_raw BeforeDecl root c = memo_beforeDecl root c"
| "detect_raw BeforeRule root c = memo_beforeRule root c"
| "detect_raw BeforeClose root c = memo BeforeClose (\<lambda>c. (or_default BeforeClose (rawBeforeClose root), c)) c"
| "detect_raw BeforeOpen root c = memo BeforeOpen (\<lambda>c. (or_default BeforeOpen (rawBeforeOpen root), c)) c"
| "detect_raw Colon root c = memo Colon (\<lambda>c. (or_default Colon (rawColon root), c)) c"
| "detect_raw EmptyBody root c = memo EmptyBody (\<lambda>c. (or_default EmptyBody (rawEmptyBody root), c)) c"
| "detect_raw Indent root c = memo Indent (\<lambda>c. (or_default Indent (rawIndent root), c)) c"
| "detect_raw CommentLeft root c =
     memo CommentLeft (\<lambda>c. (or_default CommentLeft (first_raw (\<lambda>(d, b, n). rw_left (node_raws n)) root), c)) c"
| "detect_raw CommentRight root c =
     memo CommentRight (\<lambda>c. (or_default CommentRight (first_raw (\<lambda>(d, b, n). rw_right (node_raws n)) root), c)) c"

section \<open>Raw values of a node\<close>

record css_ctx =
  cx_parent :: "bool option" \<comment> \<open>\<open>None\<close> without a parent, else whether the parent is a root\<close>
  cx_first :: bool \<comment> \<open>the first child of its parent\<close>
  cx_depth :: nat \<comment> \<open>the ancestors below the root\<close>
  cx_root :: css_node \<comment> \<open>what \<open>root()\<close> returns\<close>

definition child_ctx :: "css_ctx \<Rightarrow> css_node \<Rightarrow> bool \<Rightarrow> css_ctx" where
  "child_ctx x n isFirst =
     \<lparr>cx_parent = Some (is_Root n), cx_first = isFirst,
      cx_depth = (if is_Root n then 0 else Suc (cx_depth x)), cx_root = cx_root x\<rparr>"

definition raw :: "string option \<Rightarrow> raw_kind \<Rightarrow> css_ctx \<Rightarrow> raw_cache \<Rightarrow> string \<times> raw_cache" where
  "raw own k x c =
     (case own of
        Some v \<Rightarrow> (v, c)
      | None \<Rightarrow> if cx_parent x = None then (default_raw k, c) else detect_raw k (cx_root x) c)"

definition raw_semicolon :: "bool option \<Rightarrow> css_ctx \<Rightarrow> raw_cache \<Rightarrow> bool \<times> raw_cache" where
  "raw_semicolon own x c =
     (case own of
        Some v \<Rightarrow> (v, c)
      | None \<Rightarrow>
          if cx_parent x = None then (False, c)
          else case rc_semicolon c of
                 Some v \<Rightarrow> (v, c)
               | None \<Rightarrow>
                   let v = (case rawSemicolon (cx_root x) of Some v \<Rightarrow> v | None \<Rightarrow> False)
                   in (v, c\<lparr>rc_semicolon := Some v\<rparr>))"

definition beforeAfter :: "css_node \<Rightarrow> bool \<Rightarrow> css_ctx \<Rightarrow> raw_cache \<Rightarrow> string \<times> raw_cache" where
  "beforeAfter n isBefore x c =
     (let k = (if is_Decl n then BeforeDecl else if is_Comment n then BeforeComment
               else if isBefore then BeforeRule else BeforeClose)
      in case raw None k x c of
           (i, c1) \<Rightarrow>
             if newline \<in> set i
             then (case raw None Indent x c1 of (a, c2) \<Rightarrow> (i @ concat (replicate (cx_depth x) a), c2))
             else (i, c1))"

definition raw_before :: "css_node \<Rightarrow> css_ctx \<Rightarrow> raw_cache \<Rightarrow> string \<times> raw_cache" where
  "raw_before n x c =
     (case rw_before (node_raws n) of
        Some v \<Rightarrow> (v, c)
      | None \<Rightarrow>
          if cx_parent x = None \<or> cx_parent x = Some True \<and> cx_first x then ([], c) else beforeAfter n True x c)"

definition raw_after :: "css_node \<Rightarrow> css_ctx \<Rightarrow> raw_cache \<Rightarrow> string \<times> raw_cache" where
  "raw_after n x c =
     (case rw_after (node_raws n) of
        Some v \<Rightarrow> (v, c)
      | None \<Rightarrow> if cx_parent x = None then ([newline], c) else beforeAfter n False x c)"

definition rawValue :: "string \<Rightarrow> css_raws \<Rightarrow> string" where
  "rawValue v r = (case rw_raw r of Some (v', w) \<Rightarrow> if v' = v then w else v | None \<Rightarrow> v)"

section \<open>Printing\<close>

definition said :: "string \<Rightarrow> string list" where
  "said s = (if s = [] then [] else [s])"

text \<open>The index of the last child that is not a trailing comment (the loop stops at index zero).\<close>

definition last_solid :: "css_node list \<Rightarrow> nat" where
  "last_solid ns = length (dropWhile is_Comment (rev (tl ns)))"

definition at_head :: "string \<Rightarrow> string \<Rightarrow> css_raws \<Rightarrow> string" where
  "at_head name params r =
     (let n = (if params = [] then [] else rawValue params r)
      in ''@'' @ name @ (case rw_afterName r of Some s \<Rightarrow> s | None \<Rightarrow> if n = [] then [] else '' '') @ n)"

definition nonempty_or :: "string option \<Rightarrow> string \<Rightarrow> string" where
  "nonempty_or s d = (case s of Some (c # cs) \<Rightarrow> c # cs | _ \<Rightarrow> d)"

fun stringify :: "css_ctx \<Rightarrow> css_node \<Rightarrow> bool \<Rightarrow> raw_cache \<Rightarrow> string list \<times> raw_cache"
and body :: "css_ctx \<Rightarrow> css_node \<Rightarrow> nat \<Rightarrow> nat \<Rightarrow> bool \<Rightarrow> css_node list \<Rightarrow> raw_cache \<Rightarrow> string list \<times> raw_cache"
and block :: "css_ctx \<Rightarrow> css_node \<Rightarrow> string \<Rightarrow> css_node list \<Rightarrow> raw_cache \<Rightarrow> string list \<times> raw_cache" where
  "stringify x (Root ns r) semi c =
     (case raw_semicolon (rw_semicolon r) x c of
        (i, c1) \<Rightarrow> (case body x (Root ns r) 0 (last_solid ns) i ns c1 of
           (out, c2) \<Rightarrow> (out @ said (case rw_after r of Some s \<Rightarrow> s | None \<Rightarrow> []), c2)))"
| "stringify x (AtRule name params (Some ns) r) semi c =
     block x (AtRule name params (Some ns) r) (at_head name params r) ns c"
| "stringify x (AtRule name params None r) semi c =
     ([at_head name params r @ (case rw_between r of Some s \<Rightarrow> s | None \<Rightarrow> []) @ (if semi then '';'' else [])], c)"
| "stringify x (Rule selector ns r) semi c =
     (case block x (Rule selector ns r) (rawValue selector r) ns c of
        (out, c1) \<Rightarrow> (out @ said (case rw_ownSemicolon r of Some s \<Rightarrow> s | None \<Rightarrow> []), c1))"
| "stringify x (Decl prop v imp r) semi c =
     (case raw (rw_between r) Colon x c of
        (i, c1) \<Rightarrow>
          ([prop @ i @ rawValue v r @ (if imp then nonempty_or (rw_important r) '' !important'' else []) @
             (if semi then '';'' else [])], c1))"
| "stringify x (Comment text r) semi c =
     (case raw (rw_left r) CommentLeft x c of
        (a, c1) \<Rightarrow> (case raw (rw_right r) CommentRight x c1 of
           (b, c2) \<Rightarrow> ([''/*'' @ a @ text @ b @ ''*/''], c2)))"
| "body x e n t i [] c = ([], c)"
| "body x e n t i (s # ss) c =
     (let y = child_ctx x e (n = 0) in
      case raw_before s y c of
        (a, c1) \<Rightarrow> (case stringify y s (t \<noteq> n \<or> i) c1 of
           (out, c2) \<Rightarrow> (case body x e (Suc n) t i ss c2 of
              (rest, c3) \<Rightarrow> (said a @ out @ rest, c3))))"
| "block x e start ns c =
     (case raw (rw_between (node_raws e)) BeforeOpen x c of
        (i, c1) \<Rightarrow>
          if ns = [] then
            (case raw (rw_after (node_raws e)) EmptyBody x c1 of
               (a, c2) \<Rightarrow> ((start @ i @ ''{'') # said a @ [''}''], c2))
          else
            (case raw_semicolon (rw_semicolon (node_raws e)) x c1 of
               (sc, c2) \<Rightarrow> (case body x e 0 (last_solid ns) sc ns c2 of
                  (out, c3) \<Rightarrow> (case raw_after e x c3 of
                     (a, c4) \<Rightarrow> ((start @ i @ ''{'') # out @ said a @ [''}''], c4)))))"

text \<open>\<open>toString\<close> of a tree without a parent.\<close>

definition top_ctx :: "css_node \<Rightarrow> css_ctx" where
  "top_ctx n = \<lparr>cx_parent = None, cx_first = False, cx_depth = 0, cx_root = n\<rparr>"

definition css_toString :: "raw_cache \<Rightarrow> css_node \<Rightarrow> string \<times> raw_cache" where
  "css_toString c n = (case stringify (top_ctx n) n False c of (out, c') \<Rightarrow> (concat out, c'))"

abbreviation empty_cache :: raw_cache where
  "empty_cache \<equiv> \<lparr>rc_text = [], rc_semicolon = None\<rparr>"

section \<open>The memo table changes nothing\<close>

definition pure_beforeDecl :: "css_node \<Rightarrow> string" where
  "pure_beforeDecl root =
     (case rawBeforeDecl_own root of Some s \<Rightarrow> s | None \<Rightarrow> or_default BeforeRule (rawBeforeRule root))"

fun pure_raw :: "raw_kind \<Rightarrow> css_node \<Rightarrow> string" where
  "pure_raw BeforeRule root = or_default BeforeRule (rawBeforeRule root)"
| "pure_raw BeforeDecl root = pure_beforeDecl root"
| "pure_raw BeforeComment root = (case rawBeforeComment_own root of Some s \<Rightarrow> s | None \<Rightarrow> pure_beforeDecl root)"
| "pure_raw BeforeClose root = or_default BeforeClose (rawBeforeClose root)"
| "pure_raw BeforeOpen root = or_default BeforeOpen (rawBeforeOpen root)"
| "pure_raw Colon root = or_default Colon (rawColon root)"
| "pure_raw EmptyBody root = or_default EmptyBody (rawEmptyBody root)"
| "pure_raw Indent root = or_default Indent (rawIndent root)"
| "pure_raw CommentLeft root = or_default CommentLeft (first_raw (\<lambda>(d, b, n). rw_left (node_raws n)) root)"
| "pure_raw CommentRight root = or_default CommentRight (first_raw (\<lambda>(d, b, n). rw_right (node_raws n)) root)"

definition cache_ok :: "css_node \<Rightarrow> raw_cache \<Rightarrow> bool" where
  "cache_ok root c \<longleftrightarrow> (\<forall>k v. gget (rc_text c) k = Some v \<longrightarrow> v = pure_raw k root) \<and>
     (\<forall>v. rc_semicolon c = Some v \<longrightarrow> v = (case rawSemicolon root of Some b \<Rightarrow> b | None \<Rightarrow> False))"

text \<open>A computation on the table that gives the same result from all correct tables and keeps them correct.\<close>

definition steady :: "css_node \<Rightarrow> (raw_cache \<Rightarrow> 'a \<times> raw_cache) \<Rightarrow> bool" where
  "steady root f \<longleftrightarrow> (\<exists>v. \<forall>c. cache_ok root c \<longrightarrow> fst (f c) = v \<and> cache_ok root (snd (f c)))"

lemma steady_return [intro!, simp]: "steady root (Pair v)" "steady root (\<lambda>c. (v, c))"
  by (auto simp: steady_def)

lemma steady_bind:
  assumes "steady root f" "\<And>v. steady root (g v)"
  shows "steady root (\<lambda>c. case f c of (v, c') \<Rightarrow> g v c')"
proof -
  obtain v where v: "cache_ok root c \<Longrightarrow> fst (f c) = v \<and> cache_ok root (snd (f c))" for c
    using assms(1) unfolding steady_def by blast
  obtain w where w: "cache_ok root c \<Longrightarrow> fst (g v c) = w \<and> cache_ok root (snd (g v c))" for c
    using assms(2) [of v] unfolding steady_def by blast
  show ?thesis unfolding steady_def
  proof (intro exI [of _ w] allI impI)
    fix c assume "cache_ok root c"
    from v [OF this] w [of "snd (f c)"] show "fst (case f c of (v, c') \<Rightarrow> g v c') = w \<and> cache_ok root (snd (case f c of (v, c') \<Rightarrow> g v c'))"
      by (simp add: case_prod_beta)
  qed
qed

lemma memo_pure:
  assumes "cache_ok root c" "\<And>c. cache_ok root c \<Longrightarrow> fst (f c) = pure_raw k root \<and> cache_ok root (snd (f c))"
  shows "fst (memo k f c) = pure_raw k root \<and> cache_ok root (snd (memo k f c))"
  using assms(1) assms(2) [OF assms(1)] by (auto simp: memo_def cache_ok_def split: option.split prod.split)

lemma memo_Pair:
  "cache_ok root c \<Longrightarrow> v = pure_raw k root \<Longrightarrow> fst (memo k (Pair v) c) = v \<and> cache_ok root (snd (memo k (Pair v) c))"
  using memo_pure [of root c "Pair v" k] by simp

lemma beforeRule_pure:
  "cache_ok root c \<Longrightarrow> fst (memo_beforeRule root c) = pure_raw BeforeRule root \<and> cache_ok root (snd (memo_beforeRule root c))"
  unfolding memo_beforeRule_def by (rule memo_pure) auto

lemma beforeDecl_pure:
  "cache_ok root c \<Longrightarrow> fst (memo_beforeDecl root c) = pure_raw BeforeDecl root \<and> cache_ok root (snd (memo_beforeDecl root c))"
  unfolding memo_beforeDecl_def
  by (rule memo_pure) (use beforeRule_pure in \<open>auto simp: rawBeforeDecl_def pure_beforeDecl_def split: option.split\<close>)

lemma detect_raw_pure:
  "cache_ok root c \<Longrightarrow> fst (detect_raw k root c) = pure_raw k root \<and> cache_ok root (snd (detect_raw k root c))"
proof (cases k)
  case BeforeComment
  assume "cache_ok root c"
  then show ?thesis unfolding BeforeComment detect_raw.simps
    by (rule memo_pure) (use beforeDecl_pure in \<open>auto simp: rawBeforeComment_def split: option.split\<close>)
qed (simp_all add: memo_Pair beforeRule_pure [simplified] beforeDecl_pure [simplified])

lemma steady_detect [intro!]: "steady root (detect_raw k root)"
  unfolding steady_def using detect_raw_pure by blast

lemma steady_raw: "root = cx_root x \<Longrightarrow> steady root (raw own k x)"
  by (cases own; cases "cx_parent x") (auto simp: raw_def [abs_def])

lemma steady_semicolon: "root = cx_root x \<Longrightarrow> steady root (raw_semicolon own x)"
proof (cases "own = None \<and> cx_parent x \<noteq> None")
  case True
  assume "root = cx_root x"
  with True show ?thesis unfolding steady_def
    by (intro exI [of _ "case rawSemicolon root of Some b \<Rightarrow> b | None \<Rightarrow> False"])
       (auto simp: raw_semicolon_def Let_def cache_ok_def split: option.split)
next
  case False
  then show ?thesis by (cases own; cases "cx_parent x") (simp_all add: raw_semicolon_def [abs_def])
qed

lemma steady_if: "steady root f \<Longrightarrow> steady root g \<Longrightarrow> steady root (\<lambda>c. if b then f c else g c)"
  by (cases b) simp_all

lemma steady_beforeAfter: "root = cx_root x \<Longrightarrow> steady root (beforeAfter n b x)"
  unfolding beforeAfter_def [abs_def] Let_def by (intro steady_bind steady_if steady_raw steady_return)

lemma steady_before: "root = cx_root x \<Longrightarrow> steady root (raw_before n x)"
  by (cases "rw_before (node_raws n)") (auto simp: raw_before_def [abs_def] intro!: steady_if steady_beforeAfter)

lemma steady_after: "root = cx_root x \<Longrightarrow> steady root (raw_after n x)"
  by (cases "rw_after (node_raws n)") (auto simp: raw_after_def [abs_def] intro!: steady_if steady_beforeAfter)

lemmas steady_raws = steady_raw steady_semicolon steady_before steady_after

lemma child_ctx_root [simp]: "cx_root (child_ctx x n b) = cx_root x"
  by (simp add: child_ctx_def)

lemma steady_body:
  "(\<And>n x semi. n \<in> set ns \<Longrightarrow> steady (cx_root x) (stringify x n semi)) \<Longrightarrow> steady (cx_root x) (body x e i t b ns)"
proof (induction ns arbitrary: i)
  case (Cons n ns)
  have "steady (cx_root x) (stringify (child_ctx x e f) n semi)" for f semi
    using Cons.prems [of n "child_ctx x e f" semi] by simp
  with Cons show ?case
    unfolding body.simps(2) [abs_def] Let_def by (intro steady_bind steady_return steady_raws) simp_all
qed (simp add: body.simps(1) [abs_def])

lemma steady_block:
  "(\<And>n x semi. n \<in> set ns \<Longrightarrow> steady (cx_root x) (stringify x n semi)) \<Longrightarrow> steady (cx_root x) (block x e start ns)"
  unfolding block.simps [abs_def] by (intro steady_bind steady_if steady_return steady_raws steady_body) simp_all

lemma steady_stringify: "steady (cx_root x) (stringify x n semi)"
proof (induction n arbitrary: x semi)
  case (Root ns r)
  then show ?case
    unfolding stringify.simps(1) [abs_def] by (intro steady_bind steady_return steady_raws steady_body) simp_all
next
  case (AtRule name params ns r)
  show ?case
  proof (cases ns)
    case (Some l)
    with AtRule show ?thesis unfolding Some stringify.simps(2) [abs_def] by (intro steady_block) simp_all
  qed (simp add: stringify.simps(3) [abs_def])
next
  case (Rule selector ns r)
  then show ?case
    unfolding stringify.simps(4) [abs_def] by (intro steady_bind steady_return steady_block) simp_all
next
  case (Decl p v imp r)
  show ?case unfolding stringify.simps(5) [abs_def] by (intro steady_bind steady_return steady_raws) simp_all
next
  case (Comment t r)
  show ?case unfolding stringify.simps(6) [abs_def] by (intro steady_bind steady_return steady_raws) simp_all
qed

lemma cache_ok_empty: "cache_ok root empty_cache"
  by (simp add: cache_ok_def)

text \<open>
  C29. The memo table is transparent: a second print of a tree, with the table that the first print left
  on its root, gives the same text.
\<close>

theorem reprint_same: "fst (css_toString (snd (css_toString empty_cache n)) n) = fst (css_toString empty_cache n)"
proof -
  from steady_stringify [of "top_ctx n" n False] obtain v where
    v: "cache_ok n c \<Longrightarrow> fst (stringify (top_ctx n) n False c) = v \<and> cache_ok n (snd (stringify (top_ctx n) n False c))" for c
    by (auto simp: steady_def top_ctx_def)
  from v [OF cache_ok_empty] v show ?thesis by (simp add: css_toString_def case_prod_beta)
qed

section \<open>Trees that carry their raws\<close>

text \<open>
  A parsed tree records the white space around every token.  For such trees the specification of
  printing is plain concatenation, with no defaults, no detection and no table.
\<close>

fun carries_raws :: "css_node \<Rightarrow> bool" where
  "carries_raws (Root ns r) = list_all (\<lambda>n. \<not> is_Root n \<and> rw_before (node_raws n) \<noteq> None \<and> carries_raws n) ns"
| "carries_raws (AtRule _ _ None r) = True"
| "carries_raws (AtRule _ _ (Some ns) r) =
     (rw_between r \<noteq> None \<and> rw_after r \<noteq> None \<and> (ns = [] \<or> rw_semicolon r \<noteq> None) \<and>
      list_all (\<lambda>n. \<not> is_Root n \<and> rw_before (node_raws n) \<noteq> None \<and> carries_raws n) ns)"
| "carries_raws (Rule _ ns r) =
     (rw_between r \<noteq> None \<and> rw_after r \<noteq> None \<and> (ns = [] \<or> rw_semicolon r \<noteq> None) \<and>
      list_all (\<lambda>n. \<not> is_Root n \<and> rw_before (node_raws n) \<noteq> None \<and> carries_raws n) ns)"
| "carries_raws (Decl _ _ _ r) = (rw_between r \<noteq> None)"
| "carries_raws (Comment _ r) = (rw_left r \<noteq> None \<and> rw_right r \<noteq> None)"

definition sp :: "string option \<Rightarrow> string" where
  "sp s = (case s of Some v \<Rightarrow> v | None \<Rightarrow> [])"

definition flag :: "bool option \<Rightarrow> bool" where
  "flag b = (b = Some True)"

fun plain :: "bool \<Rightarrow> css_node \<Rightarrow> string"
and plain_list :: "nat \<Rightarrow> nat \<Rightarrow> bool \<Rightarrow> css_node list \<Rightarrow> string" where
  "plain semi (Root ns r) = plain_list 0 (last_solid ns) (flag (rw_semicolon r)) ns @ sp (rw_after r)"
| "plain semi (AtRule name params None r) = at_head name params r @ sp (rw_between r) @ (if semi then '';'' else [])"
| "plain semi (AtRule name params (Some ns) r) =
     at_head name params r @ sp (rw_between r) @ ''{'' @ plain_list 0 (last_solid ns) (flag (rw_semicolon r)) ns @ sp (rw_after r) @ ''}''"
| "plain semi (Rule selector ns r) =
     rawValue selector r @ sp (rw_between r) @ ''{'' @ plain_list 0 (last_solid ns) (flag (rw_semicolon r)) ns @
       sp (rw_after r) @ ''}'' @ sp (rw_ownSemicolon r)"
| "plain semi (Decl p v imp r) =
     p @ sp (rw_between r) @ rawValue v r @ (if imp then nonempty_or (rw_important r) '' !important'' else []) @ (if semi then '';'' else [])"
| "plain semi (Comment t r) = ''/*'' @ sp (rw_left r) @ t @ sp (rw_right r) @ ''*/''"
| "plain_list n t i [] = []"
| "plain_list n t i (s # ss) = sp (rw_before (node_raws s)) @ plain (t \<noteq> n \<or> i) s @ plain_list (Suc n) t i ss"

lemma concat_said [simp]: "concat (said s) = s"
  by (simp add: said_def)

lemma raws_given:
  "raw (Some v) k x c = (v, c)" "raw_semicolon (Some b) x c = (b, c)"
  "rw_before (node_raws n) = Some v \<Longrightarrow> raw_before n x c = (v, c)"
  "rw_after (node_raws n) = Some v \<Longrightarrow> raw_after n x c = (v, c)"
  by (simp_all add: raw_def raw_semicolon_def raw_before_def raw_after_def)

definition prints :: "css_ctx \<Rightarrow> css_node \<Rightarrow> bool" where
  "prints x n \<longleftrightarrow> (\<forall>semi c. \<exists>out. stringify x n semi c = (out, c) \<and> concat out = plain semi n)"

lemma body_plain:
  assumes "list_all (\<lambda>n. \<not> is_Root n \<and> rw_before (node_raws n) \<noteq> None \<and> carries_raws n) ns"
    and "\<And>n x. n \<in> set ns \<Longrightarrow> \<not> is_Root n \<Longrightarrow> carries_raws n \<Longrightarrow> prints x n"
  shows "\<exists>out. body x e i t b ns c = (out, c) \<and> concat out = plain_list i t b ns"
  using assms
proof (induction ns arbitrary: i)
  case (Cons n ns)
  then obtain v where v: "rw_before (node_raws n) = Some v" "\<not> is_Root n" "carries_raws n" by auto
  obtain out where out: "stringify (child_ctx x e (i = 0)) n (t \<noteq> i \<or> b) c = (out, c)" "concat out = plain (t \<noteq> i \<or> b) n"
    using Cons.prems(2) [of n "child_ctx x e (i = 0)"] v unfolding prints_def by auto
  obtain rest where "body x e (Suc i) t b ns c = (rest, c)" "concat rest = plain_list (Suc i) t b ns"
    using Cons.IH [of "Suc i"] Cons.prems by auto
  with out v show ?case by (simp add: Let_def raws_given(3) sp_def)
qed simp

lemma block_plain:
  assumes "rw_between (node_raws e) = Some bt" "rw_after (node_raws e) = Some af" "ns = [] \<or> rw_semicolon (node_raws e) = Some sc"
    and "list_all (\<lambda>n. \<not> is_Root n \<and> rw_before (node_raws n) \<noteq> None \<and> carries_raws n) ns"
    and "\<And>n x. n \<in> set ns \<Longrightarrow> \<not> is_Root n \<Longrightarrow> carries_raws n \<Longrightarrow> prints x n"
  shows "\<exists>out. block x e start ns c = (out, c) \<and>
     concat out = start @ bt @ ''{'' @ plain_list 0 (last_solid ns) (flag (rw_semicolon (node_raws e))) ns @ af @ ''}''"
proof (cases "ns = []")
  case True
  with assms(1,2) show ?thesis by (simp add: raws_given)
next
  case False
  with assms(3) have sc: "rw_semicolon (node_raws e) = Some sc" by simp
  obtain out where "body x e 0 (last_solid ns) sc ns c = (out, c)" "concat out = plain_list 0 (last_solid ns) sc ns"
    using body_plain [OF assms(4,5), of x e 0 "last_solid ns" sc c] by auto
  with False sc assms(1,2) show ?thesis by (auto simp: raws_given raws_given(4) [OF assms(2)] flag_def)
qed

lemma stringify_plain: "carries_raws n \<Longrightarrow> \<not> is_Root n \<Longrightarrow> prints x n"
proof (induction n arbitrary: x)
  case (AtRule name params ns r)
  show ?case
  proof (cases ns)
    case None
    then show ?thesis by (simp add: prints_def sp_def)
  next
    case (Some l)
    with AtRule.prems obtain bt af where r: "rw_between r = Some bt" "rw_after r = Some af" by auto
    obtain sc where sc: "l = [] \<or> rw_semicolon r = Some sc" using AtRule.prems Some by auto
    show ?thesis unfolding prints_def
      using block_plain [of "AtRule name params ns r" bt af l sc x "at_head name params r"] AtRule r sc Some
      by (simp add: sp_def)
  qed
next
  case (Rule selector ns r)
  then obtain bt af where r: "rw_between r = Some bt" "rw_after r = Some af" by auto
  obtain sc where sc: "ns = [] \<or> rw_semicolon r = Some sc" using Rule.prems by auto
  show ?case unfolding prints_def
  proof (intro allI)
    fix semi c
    obtain out where "block x (Rule selector ns r) (rawValue selector r) ns c = (out, c)"
      "concat out = rawValue selector r @ bt @ ''{'' @ plain_list 0 (last_solid ns) (flag (rw_semicolon r)) ns @ af @ ''}''"
      using block_plain [of "Rule selector ns r" bt af ns sc x "rawValue selector r" c] Rule r sc by auto
    with r show "\<exists>out. stringify x (Rule selector ns r) semi c = (out, c) \<and> concat out = plain semi (Rule selector ns r)"
      by (simp add: sp_def del: block.simps)
  qed
qed (auto simp: prints_def raws_given sp_def)

lemma css_toString_plain:
  assumes "carries_raws n"
  shows "css_toString c n = (plain False n, c)"
proof (cases n)
  case (Root ns r)
  with assms have ok: "list_all (\<lambda>n. \<not> is_Root n \<and> rw_before (node_raws n) \<noteq> None \<and> carries_raws n) ns" by simp
  have "raw_semicolon (rw_semicolon r) (top_ctx n) c = (flag (rw_semicolon r), c)"
    by (cases "rw_semicolon r") (simp_all add: raw_semicolon_def top_ctx_def flag_def)
  with body_plain [OF ok stringify_plain, of "top_ctx n" n 0 "last_solid ns" "flag (rw_semicolon r)" c] Root show ?thesis
    by (auto simp: css_toString_def sp_def)
qed (use assms stringify_plain [of n "top_ctx n"] in \<open>auto simp: prints_def css_toString_def dest!: spec [of _ False] spec [of _ c]\<close>)

text \<open>
  A tree that carries its raws, as the parser records them, is printed token by token: the
  text is the plain concatenation of its recorded parts, with nothing added and nothing dropped,
  and the memo table is not touched.
\<close>

theorem stringify_refines_plain:
  assumes "carries_raws n"
  shows "css_toString c n = (plain False n, c)"
  using assms by (rule css_toString_plain)

definition no_raws :: css_raws where
  "no_raws = \<lparr>rw_before = None, rw_after = None, rw_between = None, rw_afterName = None, rw_left = None, rw_right = None,
     rw_important = None, rw_ownSemicolon = None, rw_indent = None, rw_semicolon = None, rw_raw = None\<rparr>"

definition demo_sheet :: css_node where
  "demo_sheet =
     Root [Rule ''a'' [Decl ''b'' ''c'' False (no_raws\<lparr>rw_before := Some '' '', rw_between := Some '':''\<rparr>)]
             (no_raws\<lparr>rw_before := Some [], rw_between := Some '' '', rw_after := Some '' '', rw_semicolon := Some True\<rparr>)]
       (no_raws\<lparr>rw_after := Some []\<rparr>)"

theorem stringify_refines_plain_witness: "fst (css_toString empty_cache demo_sheet) = ''a { b:c; }''"
proof -
  have "carries_raws demo_sheet" by (simp add: demo_sheet_def no_raws_def)
  from stringify_refines_plain [OF this, of empty_cache] show ?thesis
    by (simp add: demo_sheet_def no_raws_def sp_def flag_def last_solid_def rawValue_def)
qed

end
