(* ===== verification/Css_Parser.thy ===== *)
theory Css_Parser
  imports Css_Tokenizer Stringifier
begin

text \<open>
  The CSS parser of the bundle (class \<open>pp\<close> in \<^verbatim>\<open>tailwind.js\<close>).  The parser never influences the tokenizer
  except by handing tokens back, so it reads from the token sequence of the text: \<open>nextToken\<close> takes
  the head, \<open>back\<close> puts a token in front, and a tokenizer error stands behind the last token.  The open
  containers, linked by \<open>parent\<close> in the code, are a stack of frames; a frame holds the finished
  children of its container.  Source positions of finished nodes are left out; errors carry the offset
  of the token they are reported at, which white space tokens lack.
\<close>

section \<open>The token sequence\<close>

record feed =
  fd_toks :: "css_token list"
  fd_err :: "tok_error option"

fun feed_loop :: "nat \<Rightarrow> string \<Rightarrow> tok_state \<Rightarrow> feed" where
  "feed_loop 0 s st = \<lparr>fd_toks = [], fd_err = None\<rparr>"
| "feed_loop (Suc n) s st =
     (if endOfFile s st then \<lparr>fd_toks = [], fd_err = None\<rparr>
      else case nextToken False s False st of
             Inl e \<Rightarrow> \<lparr>fd_toks = [], fd_err = Some e\<rparr>
           | Inr (None, st') \<Rightarrow> \<lparr>fd_toks = [], fd_err = None\<rparr>
           | Inr (Some t, st') \<Rightarrow> (let f = feed_loop n s st' in f\<lparr>fd_toks := t # fd_toks f\<rparr>))"

definition tokens_of :: "string \<Rightarrow> feed" where
  "tokens_of s = feed_loop (length s) s tok_start"

section \<open>Parser state\<close>

datatype parse_error = Tokenizing tok_error | Syntax string "nat option" | Crash

datatype frame_head = FRoot | FRule string | FAtRule string string

record frame =
  fr_head :: frame_head
  fr_raws :: css_raws
  fr_nodes :: "css_node list"
  fr_start :: "nat option"

record parser =
  ps_frames :: "frame list" \<comment> \<open>\<open>current\<close> first, the root last\<close>
  ps_spaces :: string
  ps_semicolon :: bool

definition new_parser :: parser where
  "new_parser =
     \<lparr>ps_frames = [\<lparr>fr_head = FRoot, fr_raws = no_raws, fr_nodes = [], fr_start = Some 0\<rparr>], ps_spaces = [], ps_semicolon = False\<rparr>"

definition frame_node :: "frame \<Rightarrow> css_node" where
  "frame_node f =
     (case fr_head f of
        FRoot \<Rightarrow> Root (fr_nodes f) (fr_raws f)
      | FRule sel \<Rightarrow> Rule sel (fr_nodes f) (fr_raws f)
      | FAtRule name params \<Rightarrow> AtRule name params (Some (fr_nodes f)) (fr_raws f))"

definition push_node :: "css_node \<Rightarrow> frame list \<Rightarrow> frame list" where
  "push_node n fs = (case fs of [] \<Rightarrow> [] | f # fs \<Rightarrow> f\<lparr>fr_nodes := fr_nodes f @ [n]\<rparr> # fs)"

section \<open>Token lists\<close>

definition is_sc :: "css_token \<Rightarrow> bool" where
  "is_sc t \<longleftrightarrow> tk_type t = ''space'' \<or> tk_type t = ''comment''"

definition texts :: "css_token list \<Rightarrow> string" where
  "texts ts = concat (map tk_text ts)"

text \<open>Taking matching tokens off the end: the text taken and the tokens that stay.\<close>

definition off_end :: "(css_token \<Rightarrow> bool) \<Rightarrow> css_token list \<Rightarrow> string \<times> css_token list" where
  "off_end P ts = (texts (rev (takeWhile P (rev ts))), rev (dropWhile P (rev ts)))"

definition spacesAndCommentsFromEnd :: "css_token list \<Rightarrow> string \<times> css_token list" where
  "spacesAndCommentsFromEnd = off_end is_sc"

definition spacesFromEnd :: "css_token list \<Rightarrow> string \<times> css_token list" where
  "spacesFromEnd = off_end (\<lambda>t. tk_type t = ''space'')"

definition spacesAndCommentsFromStart :: "css_token list \<Rightarrow> string \<times> css_token list" where
  "spacesAndCommentsFromStart ts = (texts (takeWhile is_sc ts), dropWhile is_sc ts)"

text \<open>
  \<open>raw\<close>: the value without the comments and the final space that do not matter, and the raw text when
  something was left out.  The flag says whether the final space matters.
\<close>

definition loose :: "css_token option \<Rightarrow> bool" where
  "loose t = (case t of None \<Rightarrow> True | Some t \<Rightarrow> tk_type t = ''space'' \<or> tk_type t = ''empty'')"

fun raw_loop :: "css_token option \<Rightarrow> css_token list \<Rightarrow> bool \<Rightarrow> string \<Rightarrow> bool \<Rightarrow> string \<times> bool" where
  "raw_loop prev [] keep l clean = (l, clean)"
| "raw_loop prev (s # ts) keep l clean =
     (if tk_type s = ''space'' \<and> ts = [] \<and> \<not> keep then raw_loop (Some s) ts keep l False
      else if tk_type s = ''comment'' then
        (if \<not> loose prev \<and> \<not> loose (case ts of [] \<Rightarrow> None | t # _ \<Rightarrow> Some t)
         then (if l \<noteq> [] \<and> last l = CHR '','' then raw_loop (Some s) ts keep l False
               else raw_loop (Some s) ts keep (l @ tk_text s) clean)
         else raw_loop (Some s) ts keep l False)
      else raw_loop (Some s) ts keep (l @ tk_text s) clean)"

definition parser_raw :: "css_token list \<Rightarrow> bool \<Rightarrow> string \<times> (string \<times> string) option" where
  "parser_raw ts keep =
     (case raw_loop None ts keep [] True of
        (l, clean) \<Rightarrow> (l, if clean then None else Some (l, texts ts)))"

section \<open>Comments\<close>

definition trailing_spaces :: "string \<Rightarrow> nat" where
  "trailing_spaces s = length (takeWhile js_space (rev s))"

definition comment_node :: "string \<Rightarrow> css_token \<Rightarrow> css_node" where
  "comment_node bef e =
     (let i = js_slice (tk_text e) 2 (- 2) in
      if list_all js_space i then Comment [] (no_raws\<lparr>rw_before := Some bef, rw_left := Some i, rw_right := Some []\<rparr>)
      else
        let l = takeWhile js_space i; r = trailing_spaces i; m = drop (length l) i
        in Comment (take (length m - r) m)
             (no_raws\<lparr>rw_before := Some bef, rw_left := Some l, rw_right := Some (drop (length m - r) m)\<rparr>))"

section \<open>Declarations\<close>

definition unknownWord :: "css_token \<Rightarrow> parse_error" where
  "unknownWord t = Syntax ''Unknown word'' (tk_start t)"

text \<open>Tokens before the first word belong to the white space before the declaration.\<close>

fun skip_to_word :: "css_token list \<Rightarrow> string \<Rightarrow> parse_error + (string \<times> css_token list)" where
  "skip_to_word [] bef = Inl Crash"
| "skip_to_word (t # ts) bef =
     (if tk_type t = ''word'' then Inr (bef, t # ts)
      else if ts = [] then Inl (unknownWord t)
      else skip_to_word ts (bef @ tk_text t))"

definition prop_end :: "css_token \<Rightarrow> bool" where
  "prop_end t \<longleftrightarrow> tk_type t = '':'' \<or> is_sc t"

definition has_word_char :: "string \<Rightarrow> bool" where
  "has_word_char s \<longleftrightarrow>
     list_ex (\<lambda>c. let n = (of_char c :: nat) in 65 \<le> n \<and> n \<le> 90 \<or> 97 \<le> n \<and> n \<le> 122 \<or> 48 \<le> n \<and> n \<le> 57 \<or> n = 95) s"

fun to_colon :: "css_token list \<Rightarrow> string \<Rightarrow> parse_error + (string \<times> css_token list)" where
  "to_colon [] between = Inr (between, [])"
| "to_colon (t # ts) between =
     (if tk_type t = '':'' then Inr (between @ tk_text t, ts)
      else if tk_type t = ''word'' \<and> has_word_char (tk_text t) then Inl (unknownWord t)
      else to_colon ts (between @ tk_text t))"

definition js_lower :: "string \<Rightarrow> string" where
  "js_lower s = map ascii_lower s"

definition banged :: "string \<Rightarrow> bool" where
  "banged d \<longleftrightarrow> has_prefix (js_trim d) ''!''"

fun bang_loop :: "nat \<Rightarrow> css_token list \<Rightarrow> string \<Rightarrow> css_token list \<times> string" where
  "bang_loop 0 f d = (f, d)"
| "bang_loop (Suc p) f d =
     (if f = [] \<or> banged d \<and> tk_type (f ! Suc p) \<noteq> ''space'' then (f, d)
      else bang_loop p (butlast f) (tk_text (last f) @ d))"

text \<open>The search for \<open>!important\<close> from the end; the arguments carry the flag and the raw text found so far.\<close>

fun important_loop :: "nat \<Rightarrow> css_token list \<Rightarrow> bool \<Rightarrow> string option \<Rightarrow> bool \<times> string option \<times> css_token list" where
  "important_loop 0 e imp rw = (imp, rw, e)"
| "important_loop (Suc c) e imp rw =
     (if \<not> c < length e then (imp, rw, e)
      else
        let s = e ! c in
        if js_lower (tk_text s) = ''!important'' then
          (case spacesFromEnd (take c e) of
             (ws, e') \<Rightarrow>
               let f = ws @ texts (drop c e) in (True, if f = '' !important'' then rw else Some f, e'))
        else
          case (if js_lower (tk_text s) = ''important''
                then (case bang_loop c e [] of (f, d) \<Rightarrow> if banged d then (True, Some d, f) else (imp, rw, e))
                else (imp, rw, e)) of
            (imp', rw', e') \<Rightarrow> if is_sc s then important_loop c e' imp' rw' else (imp', rw', e'))"

text \<open>\<open>colon\<close>: the index of a colon outside parentheses, or an error for a leading one.\<close>

fun colon_loop :: "nat \<Rightarrow> int \<Rightarrow> css_token option \<Rightarrow> css_token list \<Rightarrow> parse_error + nat option" where
  "colon_loop a t prev [] = Inr None"
| "colon_loop a t prev (n # ns) =
     (let t' = (if tk_type n = ''('' then t + 1 else if tk_type n = '')'' then t - 1 else t) in
      if t' = 0 \<and> tk_type n = '':'' then
        (case prev of
           None \<Rightarrow> Inl (Syntax ''Double colon'' (tk_start n))
         | Some i \<Rightarrow>
             if tk_type i = ''word'' \<and> tk_text i = ''progid'' then colon_loop (Suc a) t' prev ns else Inr (Some a))
      else colon_loop (Suc a) t' (Some n) ns)"

text \<open>The token that a missed semicolon is reported at: the second token before the colon, spaces not counted.\<close>

fun missed_at :: "css_token list \<Rightarrow> nat \<Rightarrow> nat option" where
  "missed_at [] i = None"
| "missed_at [n] i = (if tk_type n = ''word'' then map_option Suc (tk_end n) else tk_start n)"
| "missed_at (n # m # ns) i =
     (let i' = (if tk_type n = ''space'' then i else i + 1) in
      if tk_type n \<noteq> ''space'' \<and> i' = 2 then missed_at [n] i' else missed_at (m # ns) i')"

definition checkMissedSemicolon :: "css_token list \<Rightarrow> parse_error option" where
  "checkMissedSemicolon e =
     (case colon_loop 0 0 None e of
        Inl err \<Rightarrow> Some err
      | Inr None \<Rightarrow> None
      | Inr (Some t) \<Rightarrow> Some (Syntax ''Missed semicolon'' (missed_at (rev (take t e)) 0)))"

text \<open>\<open>decl\<close>: the finished declaration and whether it ended with a semicolon.\<close>

definition decl_value ::
  "string \<Rightarrow> string \<Rightarrow> string \<Rightarrow> bool \<Rightarrow> css_token list \<Rightarrow> parse_error + css_node" where
  "decl_value bef p between custom e =
     (let hack = p \<noteq> [] \<and> (hd p = CHR ''_'' \<or> hd p = CHR ''*'');
          bef = (if hack then bef @ [hd p] else bef);
          p = (if hack then tl p else p);
          a = takeWhile is_sc e; e = dropWhile is_sc e in
      case important_loop (length e) e False None of
        (imp, rw, e) \<Rightarrow>
          let solid = list_ex (\<lambda>c. \<not> is_sc c) e;
              between = (if solid then between @ texts a else between);
              a = (if solid then [] else a) in
          (case parser_raw (a @ e) custom of
             (v, r) \<Rightarrow>
               let node = Decl p v imp (no_raws\<lparr>rw_before := Some bef, rw_between := Some between,
                                          rw_important := rw, rw_raw := r\<rparr>) in
               if CHR '':'' \<in> set v \<and> \<not> custom
               then (case checkMissedSemicolon e of Some err \<Rightarrow> Inl err | None \<Rightarrow> Inr node)
               else Inr node))"

definition decl_node :: "string \<Rightarrow> css_token list \<Rightarrow> bool \<Rightarrow> parse_error + (css_node \<times> bool)" where
  "decl_node spaces e custom =
     (let semi = e \<noteq> [] \<and> tk_type (last e) = '';''; e = (if semi then butlast e else e) in
      case skip_to_word e spaces of
        Inl err \<Rightarrow> Inl err
      | Inr (bef, e) \<Rightarrow>
          let p = texts (takeWhile (\<lambda>t. \<not> prop_end t) e); e = dropWhile (\<lambda>t. \<not> prop_end t) e in
          (case to_colon e [] of
             Inl err \<Rightarrow> Inl err
           | Inr (between, e) \<Rightarrow>
               (case decl_value bef p between custom e of
                  Inl err \<Rightarrow> Inl err
                | Inr node \<Rightarrow> Inr (node, semi))))"

section \<open>Rules, at-rules and the main loop\<close>

text \<open>\<open>end\<close>: the current container is finished; the token is the closing brace.\<close>

definition close_raws :: "parser \<Rightarrow> frame \<Rightarrow> css_raws" where
  "close_raws st f =
     (let r = (if fr_nodes f \<noteq> [] then (fr_raws f)\<lparr>rw_semicolon := Some (ps_semicolon st)\<rparr> else fr_raws f)
      in r\<lparr>rw_after := Some ((case rw_after r of Some a \<Rightarrow> a | None \<Rightarrow> []) @ ps_spaces st)\<rparr>)"

definition end_block :: "css_token \<Rightarrow> parser \<Rightarrow> parse_error + parser" where
  "end_block e st =
     (case ps_frames st of
        f # g # fs \<Rightarrow>
          Inr (st\<lparr>ps_frames := push_node (frame_node (f\<lparr>fr_raws := close_raws st f\<rparr>)) (g # fs), ps_spaces := [],
                  ps_semicolon := False\<rparr>)
      | _ \<Rightarrow> Inl (Syntax ''Unexpected }'' (tk_start e)))"

definition endFile :: "parser \<Rightarrow> parse_error + css_node" where
  "endFile st =
     (case ps_frames st of
        [f] \<Rightarrow> Inr (frame_node (f\<lparr>fr_raws := close_raws st f\<rparr>))
      | f # _ \<Rightarrow> Inl (Syntax ''Unclosed block'' (fr_start f))
      | [] \<Rightarrow> Inl Crash)"

text \<open>A semicolon on its own belongs to a rule before it, or to the white space.\<close>

definition own_semicolon :: "string \<Rightarrow> css_node list \<Rightarrow> css_node list option" where
  "own_semicolon spaces ns =
     (case rev ns of
        Rule sel ms r # ns' \<Rightarrow>
          (case rw_ownSemicolon r of
             Some (c # cs) \<Rightarrow> None
           | _ \<Rightarrow> Some (rev ns' @ [Rule sel ms (r\<lparr>rw_ownSemicolon := Some spaces\<rparr>)]))
      | _ \<Rightarrow> None)"

definition freeSemicolon :: "css_token \<Rightarrow> parser \<Rightarrow> parser" where
  "freeSemicolon e st =
     (let spaces = ps_spaces st @ tk_text e in
      case ps_frames st of
        [] \<Rightarrow> st
      | f # fs \<Rightarrow>
          (case own_semicolon spaces (fr_nodes f) of
             Some ns \<Rightarrow> st\<lparr>ps_frames := f\<lparr>fr_nodes := ns\<rparr> # fs, ps_spaces := []\<rparr>
           | None \<Rightarrow> st\<lparr>ps_spaces := spaces\<rparr>))"

definition open_frame :: "frame_head \<Rightarrow> css_raws \<Rightarrow> css_token \<Rightarrow> parser \<Rightarrow> parser" where
  "open_frame h r e st =
     \<lparr>ps_frames = \<lparr>fr_head = h, fr_raws = r, fr_nodes = [], fr_start = tk_start e\<rparr> # ps_frames st, ps_spaces = [],
      ps_semicolon = False\<rparr>"

definition add_leaf :: "css_node \<Rightarrow> bool \<Rightarrow> parser \<Rightarrow> parser" where
  "add_leaf n semi st =
     \<lparr>ps_frames = push_node n (ps_frames st), ps_spaces = [], ps_semicolon = semi\<rparr>"

definition emptyRule :: "css_token \<Rightarrow> parser \<Rightarrow> parser" where
  "emptyRule e st = open_frame (FRule []) (no_raws\<lparr>rw_before := Some (ps_spaces st), rw_between := Some []\<rparr>) e st"

definition parse_comment :: "css_token \<Rightarrow> parser \<Rightarrow> parser" where
  "parse_comment e st = add_leaf (comment_node (ps_spaces st) e) (ps_semicolon st) st"

text \<open>\<open>rule\<close>: the tokens end with the opening brace.\<close>

definition parse_rule :: "css_token list \<Rightarrow> parser \<Rightarrow> parser" where
  "parse_rule e st =
     (let t = hd e in
      case spacesAndCommentsFromEnd (butlast e) of
        (between, e) \<Rightarrow>
          (case parser_raw e False of
             (sel, r) \<Rightarrow>
               open_frame (FRule sel) (no_raws\<lparr>rw_before := Some (ps_spaces st), rw_between := Some between, rw_raw := r\<rparr>) t st))"

definition parse_decl :: "css_token list \<Rightarrow> bool \<Rightarrow> parser \<Rightarrow> parse_error + parser" where
  "parse_decl e custom st =
     (case decl_node (ps_spaces st) e custom of
        Inl err \<Rightarrow> Inl err
      | Inr (n, semi) \<Rightarrow> Inr (add_leaf n semi st))"

text \<open>The tokens of an at-rule up to where it ends.\<close>

datatype at_stop = AtSemicolon | AtOpen | AtClose css_token | AtEnd bool

definition at_brackets :: "string \<Rightarrow> string list \<Rightarrow> string list" where
  "at_brackets i c =
     (if i = ''('' then '')'' # c else if i = ''['' then '']'' # c
      else if i = ''{'' \<and> c \<noteq> [] then ''}'' # c
      else if c \<noteq> [] \<and> i = hd c then tl c else c)"

definition at_halt :: "css_token \<Rightarrow> string list \<Rightarrow> at_stop option" where
  "at_halt e c =
     (if c \<noteq> [] then None
      else if tk_type e = '';'' then Some AtSemicolon
      else if tk_type e = ''{'' then Some AtOpen
      else if tk_type e = ''}'' then Some (AtClose e)
      else None)"

fun at_scan :: "css_token list \<Rightarrow> tok_error option \<Rightarrow> string list \<Rightarrow> css_token list \<Rightarrow> parse_error + (css_token list \<times> at_stop \<times> css_token list)" where
  "at_scan [] err c l = (case err of Some e \<Rightarrow> Inl (Tokenizing e) | None \<Rightarrow> Inr (l, AtEnd (l \<noteq> []), []))"
| "at_scan (e # ts) err c l =
     (case at_halt e (at_brackets (tk_type e) c) of
        Some stop \<Rightarrow> Inr (l, stop, ts)
      | None \<Rightarrow> at_scan ts err (at_brackets (tk_type e) c) (l @ [e]))"

definition atrule :: "css_token \<Rightarrow> css_token list \<Rightarrow> tok_error option \<Rightarrow> parser \<Rightarrow> parse_error + (parser \<times> css_token list)" where
  "atrule e ts err st =
     (let name = tl (tk_text e) in
      if name = [] then Inl (Syntax ''At-rule without name'' (tk_start e))
      else case at_scan ts err [] [] of
        Inl x \<Rightarrow> Inl x
      | Inr (l, stop, rest) \<Rightarrow>
          (case spacesAndCommentsFromEnd l of
             (between, l) \<Rightarrow>
               (case (if l = [] then ([], l) else spacesAndCommentsFromStart l) of
                  (afterName, l) \<Rightarrow>
                    (case parser_raw l False of
                       (params, r) \<Rightarrow>
                         let moved = (stop = AtEnd True \<and> l \<noteq> []);
                             raws = no_raws\<lparr>rw_before := Some (ps_spaces st), rw_between := Some (if moved then [] else between),
                                            rw_afterName := Some afterName, rw_raw := r\<rparr>;
                             leaf = (\<lambda>semi. add_leaf (AtRule name params None raws) semi st) in
                         (case stop of
                            AtOpen \<Rightarrow> Inr (open_frame (FAtRule name params) raws e st, rest)
                          | AtSemicolon \<Rightarrow> Inr (leaf True, rest)
                          | AtClose x \<Rightarrow> (case end_block x (leaf False) of Inl y \<Rightarrow> Inl y | Inr st' \<Rightarrow> Inr (st', rest))
                          | AtEnd _ \<Rightarrow> Inr ((leaf False)\<lparr>ps_spaces := (if moved then between else [])\<rparr>, rest))))))"

text \<open>The scan of \<open>other\<close>: the tokens of a declaration or a rule head.\<close>

datatype other_stop = ODecl | ORule | OStop bool bool

datatype other_next = Go bool "css_token option" "string list" | Halt other_stop bool

text \<open>
  One token: go on with the colon flag, the first open bracket and the expected closers, or stop,
  with or without the token.  The flag \<open>final\<close> says that nothing follows.
\<close>

definition other_step :: "bool \<Rightarrow> bool \<Rightarrow> css_token \<Rightarrow> bool \<Rightarrow> css_token option \<Rightarrow> string list \<Rightarrow> other_next" where
  "other_step custom final c n s a =
     (let i = tk_type c; s1 = (case s of None \<Rightarrow> Some c | Some x \<Rightarrow> Some x) in
      if i = ''('' then Go n s1 ('')'' # a)
      else if i = ''['' then Go n s1 ('']'' # a)
      else if custom \<and> n \<and> i = ''{'' then Go n s1 (''}'' # a)
      else if a = [] then
        (if i = '';'' then Halt (if n then ODecl else OStop final n) True
         else if i = ''{'' then Halt ORule True
         else if i = ''}'' then Halt (OStop True n) False
         else Go (n \<or> i = '':'') s a)
      else if i = hd a then Go n (if tl a = [] then None else s) (tl a)
      else Go n s a)"

fun other_scan ::
  "bool \<Rightarrow> css_token list \<Rightarrow> tok_error option \<Rightarrow> bool \<Rightarrow> css_token option \<Rightarrow> string list \<Rightarrow> css_token list \<Rightarrow>
   parse_error + (other_stop \<times> css_token option \<times> css_token list \<times> css_token list)" where
  "other_scan custom [] err n s a l =
     (case err of Some e \<Rightarrow> Inl (Tokenizing e) | None \<Rightarrow> Inr (OStop True n, if a = [] then None else s, l, []))"
| "other_scan custom (c # ts) err n s a l =
     (case other_step custom (ts = [] \<and> err = None) c n s a of
        Go n' s' a' \<Rightarrow> other_scan custom ts err n' s' a' (l @ [c])
      | Halt stop took \<Rightarrow> Inr (stop, None, if took then l @ [c] else l, if took then ts else c # ts))"

definition other :: "css_token \<Rightarrow> css_token list \<Rightarrow> tok_error option \<Rightarrow> parser \<Rightarrow> parse_error + (parser \<times> css_token list)" where
  "other e ts err st =
     (let custom = has_prefix (tk_text e) ''--'' in
      case other_scan custom (e # ts) err False None [] [] of
        Inl x \<Rightarrow> Inl x
      | Inr (stop, open_br, l, rest) \<Rightarrow>
          (case stop of
             ODecl \<Rightarrow> (case parse_decl l custom st of Inl x \<Rightarrow> Inl x | Inr st' \<Rightarrow> Inr (st', rest))
           | ORule \<Rightarrow> Inr (parse_rule l st, rest)
           | OStop t n \<Rightarrow>
               (case open_br of
                  Some b \<Rightarrow> Inl (Syntax ''Unclosed bracket'' (tk_start b))
                | None \<Rightarrow>
                    if t \<and> n then
                      let l' = (if custom then l else rev (dropWhile is_sc (rev l)));
                          given = (if custom then [] else rev (takeWhile is_sc (rev l)))
                      in (case parse_decl l' custom st of Inl x \<Rightarrow> Inl x | Inr st' \<Rightarrow> Inr (st', given @ rest))
                    else Inl (case l of [] \<Rightarrow> Crash | t # _ \<Rightarrow> unknownWord t))))"

text \<open>The dispatch of \<open>parse\<close> on one token; the result has the tokens that are still to be read.\<close>

definition parse_token :: "css_token \<Rightarrow> css_token list \<Rightarrow> tok_error option \<Rightarrow> parser \<Rightarrow> parse_error + (parser \<times> css_token list)" where
  "parse_token e ts err st =
     (let ty = tk_type e in
      if ty = ''space'' then Inr (st\<lparr>ps_spaces := ps_spaces st @ tk_text e\<rparr>, ts)
      else if ty = '';'' then Inr (freeSemicolon e st, ts)
      else if ty = ''}'' then (case end_block e st of Inl x \<Rightarrow> Inl x | Inr st' \<Rightarrow> Inr (st', ts))
      else if ty = ''comment'' then Inr (parse_comment e st, ts)
      else if ty = ''at-word'' then atrule e ts err st
      else if ty = ''{'' then Inr (emptyRule e st, ts)
      else other e ts err st)"

section \<open>The scans split the tokens\<close>

lemma at_scan_split:
  "at_scan ts err c l0 = Inr (l, stop, rest) \<Longrightarrow>
     \<exists>m. l = l0 @ m \<and>
       (case stop of
          AtEnd b \<Rightarrow> ts = m \<and> rest = [] \<and> err = None \<and> b = (l \<noteq> [])
        | AtSemicolon \<Rightarrow> \<exists>e. ts = m @ e # rest \<and> tk_type e = '';''
        | AtOpen \<Rightarrow> \<exists>e. ts = m @ e # rest \<and> tk_type e = ''{''
        | AtClose x \<Rightarrow> ts = m @ x # rest \<and> tk_type x = ''}'')"
proof (induction ts err c l0 rule: at_scan.induct)
  case (1 err c l0)
  then show ?case by (auto split: option.splits)
next
  case (2 e ts err c l0)
  show ?case
  proof (cases "at_halt e (at_brackets (tk_type e) c)")
    case None
    with 2 obtain m where m: "l = (l0 @ [e]) @ m" and st: "case stop of
          AtEnd b \<Rightarrow> ts = m \<and> rest = [] \<and> err = None \<and> b = (l \<noteq> [])
        | AtSemicolon \<Rightarrow> \<exists>e. ts = m @ e # rest \<and> tk_type e = '';''
        | AtOpen \<Rightarrow> \<exists>e. ts = m @ e # rest \<and> tk_type e = ''{''
        | AtClose x \<Rightarrow> ts = m @ x # rest \<and> tk_type x = ''}''" by auto
    from m st show ?thesis by (intro exI [of _ "e # m"]) (auto split: at_stop.splits)
  next
    case (Some x)
    with 2(2) show ?thesis by (auto simp: at_halt_def split: if_splits)
  qed
qed

lemma other_scan_split:
  "other_scan custom ts err n0 s a l0 = Inr (stop, br, l, rest) \<Longrightarrow>
     \<exists>m. l = l0 @ m \<and> ts = m @ rest \<and>
       (case stop of
          ODecl \<Rightarrow> m \<noteq> [] \<and> tk_type (last m) = '';'' \<and> (n0 \<or> (\<exists>c \<in> set m. tk_type c = '':''))
        | ORule \<Rightarrow> m \<noteq> [] \<and> tk_type (last m) = ''{''
        | OStop t n \<Rightarrow> (n \<longrightarrow> n0 \<or> (\<exists>c \<in> set m. tk_type c = '':'')) \<and>
            (t \<and> n \<longrightarrow> rest = [] \<and> err = None \<or> (\<exists>c r. rest = c # r \<and> tk_type c = ''}'')))"
proof (induction custom ts err n0 s a l0 rule: other_scan.induct)
  case (1 custom err n s a l)
  then show ?case by (auto split: option.splits)
next
  case (2 custom c ts err n s a l0)
  show ?case
  proof (cases "other_step custom (ts = [] \<and> err = None) c n s a")
    case (Go n' s' a')
    then have n': "n' \<longrightarrow> n \<or> tk_type c = '':''" by (auto simp: other_step_def Let_def split: if_splits)
    from 2(1) [OF Go] 2(2) Go obtain m where m: "l = (l0 @ [c]) @ m" "ts = m @ rest" and st: "case stop of
          ODecl \<Rightarrow> m \<noteq> [] \<and> tk_type (last m) = '';'' \<and> (n' \<or> (\<exists>c \<in> set m. tk_type c = '':''))
        | ORule \<Rightarrow> m \<noteq> [] \<and> tk_type (last m) = ''{''
        | OStop t n \<Rightarrow> (n \<longrightarrow> n' \<or> (\<exists>c \<in> set m. tk_type c = '':'')) \<and>
            (t \<and> n \<longrightarrow> rest = [] \<and> err = None \<or> (\<exists>c r. rest = c # r \<and> tk_type c = ''}''))" by auto
    from m st n' show ?thesis by (intro exI [of _ "c # m"]) (auto split: other_stop.splits)
  next
    case (Halt x took)
    with 2(2) have r: "stop = x" "l = (if took then l0 @ [c] else l0)" "rest = (if took then ts else c # ts)" by auto
    from Halt have "case x of ODecl \<Rightarrow> took \<and> n \<and> tk_type c = '';'' | ORule \<Rightarrow> took \<and> tk_type c = ''{''
        | OStop t n' \<Rightarrow> n' = n \<and> (t \<and> n' \<longrightarrow> \<not> took \<and> tk_type c = ''}'')"
      by (auto simp: other_step_def Let_def split: if_splits)
    with r show ?thesis by (intro exI [of _ "if took then [c] else []"]) (auto split: other_stop.splits)
  qed
qed

lemma atrule_shorter: "atrule e ts err st = Inr (st', rest) \<Longrightarrow> length rest \<le> length ts"
  by (auto simp: atrule_def Let_def split: if_splits sum.splits prod.splits at_stop.splits dest!: at_scan_split)

text \<open>What \<open>other\<close> does when it succeeds.\<close>

lemma other_cases:
  assumes "other e ts err st = Inr (st', rest)"
  obtains (Decl_semi) l where "e # ts = l @ rest" "l \<noteq> []" "tk_type (last l) = '';''"
      "parse_decl l (has_prefix (tk_text e) ''--'') st = Inr st'"
  | (Rule_open) l where "e # ts = l @ rest" "l \<noteq> []" "tk_type (last l) = ''{''" "st' = parse_rule l st"
  | (Decl_end) l given r where "e # ts = l @ given @ r" "rest = given @ r" "l \<noteq> []" "list_all is_sc given"
      "parse_decl l (has_prefix (tk_text e) ''--'') st = Inr st'" "r = [] \<and> err = None \<or> (\<exists>c r'. r = c # r' \<and> tk_type c = ''}'')"
proof -
  define custom where "custom = has_prefix (tk_text e) ''--''"
  obtain stop br l r where sc: "other_scan custom (e # ts) err False None [] [] = Inr (stop, br, l, r)"
    using assms by (auto simp: other_def Let_def custom_def split: sum.splits)
  from other_scan_split [OF sc] have split: "e # ts = l @ r" and cs: "case stop of
      ODecl \<Rightarrow> l \<noteq> [] \<and> tk_type (last l) = '';'' | ORule \<Rightarrow> l \<noteq> [] \<and> tk_type (last l) = ''{''
    | OStop t n \<Rightarrow> (n \<longrightarrow> (\<exists>c \<in> set l. tk_type c = '':'')) \<and>
        (t \<and> n \<longrightarrow> r = [] \<and> err = None \<or> (\<exists>c r'. r = c # r' \<and> tk_type c = ''}''))"
    by (auto split: other_stop.splits)
  show thesis
  proof (cases stop)
    case ODecl
    with assms sc split cs Decl_semi [of l] show thesis by (auto simp: other_def Let_def custom_def split: sum.splits)
  next
    case ORule
    with assms sc split cs Rule_open [of l] show thesis by (auto simp: other_def Let_def custom_def split: sum.splits)
  next
    case (OStop t n)
    with assms sc have tn: "t" "n" by (auto simp: other_def Let_def custom_def split: sum.splits option.splits if_splits)
    define l' where "l' = (if custom then l else rev (dropWhile is_sc (rev l)))"
    define given where "given = (if custom then [] else rev (takeWhile is_sc (rev l)))"
    have ll: "l = l' @ given"
      by (simp add: l'_def given_def) (metis rev_append rev_rev_ident takeWhile_dropWhile_id)
    have "list_all is_sc given" by (auto simp: given_def list_all_iff dest: set_takeWhileD)
    moreover have "l' \<noteq> []"
    proof
      assume "l' = []"
      with ll \<open>list_all is_sc given\<close> have "\<forall>c \<in> set l. is_sc c" by (simp add: list_all_iff)
      moreover obtain c where "c \<in> set l" "tk_type c = '':''" using cs OStop tn by auto
      ultimately show False by (auto simp: is_sc_def)
    qed
    moreover have "parse_decl l' custom st = Inr st'" "rest = given @ r"
      using assms sc OStop tn by (auto simp: other_def Let_def custom_def l'_def given_def split: sum.splits option.splits if_splits)
    ultimately show thesis using Decl_end [of l' given r] ll split cs OStop tn by (auto simp: custom_def)
  qed
qed

lemma other_shorter: "other e ts err st = Inr (st', rest) \<Longrightarrow> length rest \<le> length ts"
proof (erule other_cases)
  fix l assume "e # ts = l @ rest" "l \<noteq> []"
  then show ?thesis by (metis length_Cons length_append length_greater_0_conv add_strict_increasing less_Suc_eq_le order_refl)
next
  fix l assume "e # ts = l @ rest" "l \<noteq> []"
  then show ?thesis by (metis length_Cons length_append length_greater_0_conv add_strict_increasing less_Suc_eq_le order_refl)
next
  fix l given r assume "e # ts = l @ given @ r" "rest = given @ r" "l \<noteq> []"
  then show ?thesis by (metis length_Cons length_append length_greater_0_conv add_strict_increasing less_Suc_eq_le order_refl)
qed

lemma parse_token_shorter: "parse_token e ts err st = Inr (st', rest) \<Longrightarrow> length rest \<le> length ts"
  by (auto simp: parse_token_def Let_def split: if_splits sum.splits dest: atrule_shorter other_shorter)

function parse_loop :: "css_token list \<Rightarrow> tok_error option \<Rightarrow> parser \<Rightarrow> parse_error + parser" where
  "parse_loop [] err st = (case err of Some e \<Rightarrow> Inl (Tokenizing e) | None \<Rightarrow> Inr st)"
| "parse_loop (e # ts) err st =
     (case parse_token e ts err st of Inl x \<Rightarrow> Inl x | Inr (st', rest) \<Rightarrow> parse_loop rest err st')"
  by pat_completeness auto
termination
  by (relation "measure (\<lambda>(ts, err, st). length ts)") (auto simp: less_Suc_eq_le dest: parse_token_shorter)

definition css_parse :: "string \<Rightarrow> parse_error + css_node" where
  "css_parse s =
     (let f = tokens_of s in
      case parse_loop (fd_toks f) (fd_err f) new_parser of Inl x \<Rightarrow> Inl x | Inr st \<Rightarrow> endFile st)"

section \<open>The tokens of a text\<close>

text \<open>What the parser relies on of a token, by its type.\<close>

definition tok_good :: "css_token \<Rightarrow> bool" where
  "tok_good t \<longleftrightarrow> tk_text t \<noteq> [] \<and>
     (tk_type t \<in> {'';'', ''{'', ''}'', '':''} \<longrightarrow> tk_text t = tk_type t) \<and>
     (tk_type t = ''comment'' \<longrightarrow> (\<exists>x. tk_text t = ''/*'' @ x @ ''*/'')) \<and>
     (tk_type t = ''at-word'' \<longrightarrow> (\<exists>x. tk_text t = CHR ''@'' # x)) \<and>
     (tk_type t = ''space'' \<longrightarrow> css_space (hd (tk_text t)))"

lemma text_between_hd: "y < length s \<Longrightarrow> y \<le> l \<Longrightarrow> \<exists>x. text_between s y l = s ! y # x"
  by (simp add: text_between_def Cons_nth_drop_Suc [symmetric] Suc_diff_le)

lemma comment_text:
  assumes "index_from s ''*/'' (y + 2) = Some m" "y < length s" "s ! y = CHR ''/''" "char_at s (Suc y) = Some CHR ''*''"
  shows "\<exists>x. text_between s y (Suc m) = ''/*'' @ x @ ''*/''"
proof -
  from index_from_Some [OF assms(1)] have m: "y + 2 \<le> m" "m \<le> length s" "has_prefix (drop m s) ''*/''" by auto
  then obtain r where r: "drop m s = ''*/'' @ r" by (auto simp: has_prefix_iff)
  have y1: "Suc y < length s" "s ! Suc y = CHR ''*''" using assms(4) by (auto simp: char_at_def split: if_splits)
  have d: "drop y s = ''/*'' @ drop (y + 2) s"
    using assms(2,3) y1 by (simp add: Cons_nth_drop_Suc [symmetric])
  have "drop (y + 2) s = take (m - (y + 2)) (drop (y + 2) s) @ ''*/'' @ r"
    using m r by (metis append_take_drop_id drop_drop le_add_diff_inverse2)
  with d have "drop y s = ''/*'' @ take (m - (y + 2)) (drop (y + 2) s) @ ''*/'' @ r" by simp
  moreover have "length (take (m - (y + 2)) (drop (y + 2) s)) = m - (y + 2)" using m by simp
  ultimately have "take (Suc (Suc m) - y) (drop y s) = ''/*'' @ take (m - (y + 2)) (drop (y + 2) s) @ ''*/''"
    using m by (simp add: Suc_diff_le)
  then show ?thesis by (auto simp: text_between_def)
qed

lemma switch_token_good:
  assumes "switch_token False s y w = Inr (t, l, w')" "y < length s"
  shows "tok_good t"
proof -
  from switch_token_ok [OF assms] have ok: "tk_text t = text_between s y l" "y \<le> l" "tk_text t \<noteq> []"
    by (auto simp: token_ok_def)
  from text_between_hd [OF assms(2) ok(2)] ok(1) obtain x where x: "tk_text t = s ! y # x" by auto
  then have hd: "hd (tk_text t) = s ! y" by simp
  consider (space) "css_space (s ! y)" | (punct) "\<not> css_space (s ! y)" "s ! y \<in> set ''[]{}:;)''"
    | (open_br) "\<not> css_space (s ! y)" "s ! y \<notin> set ''[]{}:;)''" "s ! y = CHR ''(''"
    | (rest) "\<not> css_space (s ! y)" "s ! y \<notin> set ''[]{}:;)''" "s ! y \<noteq> CHR ''(''" by blast
  then show ?thesis
  proof cases
    case space
    with assms ok hd show ?thesis by (auto simp: switch_token_def Let_def tok_good_def)
  next
    case punct
    with assms show ?thesis by (auto simp: switch_token_def Let_def tok_good_def punct_def)
  next
    case open_br
    then have "tk_type t \<in> {''('', ''brackets''}"
      using assms(1) by (auto simp: switch_token_def Let_def paren_token_def punct_def emit_def simp del: set_simps
          split: if_splits sum.splits prod.splits option.splits)
    with ok show ?thesis by (auto simp: tok_good_def)
  next
    case rest
    have "tk_type t \<in> {''string'', ''word''} \<or> tk_type t = ''at-word'' \<and> s ! y = CHR ''@'' \<or>
        tk_type t = ''comment'' \<and> s ! y = CHR ''/'' \<and> char_at s (Suc y) = Some CHR ''*'' \<and> index_from s ''*/'' (y + 2) = Some (l - 1) \<and> l \<noteq> 0"
      using assms(1) rest by (auto simp: switch_token_def Let_def quote_token_def comment_token_def emit_def simp del: set_simps
          split: if_splits sum.splits prod.splits option.splits)
    then show ?thesis
    proof (elim disjE conjE)
      assume "tk_type t \<in> {''string'', ''word''}"
      with x show ?thesis by (auto simp: tok_good_def)
    next
      assume "tk_type t = ''at-word''" "s ! y = CHR ''@''"
      with x show ?thesis by (simp add: tok_good_def)
    next
      assume "tk_type t = ''comment''" "s ! y = CHR ''/''" "char_at s (Suc y) = Some CHR ''*''"
        "index_from s ''*/'' (y + 2) = Some (l - 1)" "l \<noteq> 0"
      with comment_text [of s y "l - 1"] assms(2) ok(1,3) show ?thesis by (simp add: tok_good_def)
    qed
  qed
qed

lemma nextToken_good: "nextToken False s False st = Inr (Some t, st') \<Longrightarrow> ts_returned st = [] \<Longrightarrow> tok_good t"
  by (auto simp: nextToken_def split: if_splits sum.splits dest: switch_token_good)

lemma feed_loop_ok:
  "ts_returned st = [] \<Longrightarrow> length s - ts_pos st \<le> n \<Longrightarrow>
     list_all tok_good (fd_toks (feed_loop n s st)) \<and>
     (fd_err (feed_loop n s st) = None \<longrightarrow> texts (fd_toks (feed_loop n s st)) = drop (ts_pos st) s)"
proof (induction n arbitrary: st)
  case (Suc n)
  show ?case
  proof (cases "endOfFile s st")
    case False
    show ?thesis
    proof (cases "nextToken False s False st")
      case (Inr p)
      obtain r st' where p: "p = (r, st')" by fastforce
      from tok.get_piece [OF Suc.prems(1) False Inr [unfolded p]] obtain t where
        t: "ts_returned st' = []" "r = Some t" "tk_text t \<noteq> []" "drop (ts_pos st) s = tk_text t @ drop (ts_pos st') s" by auto
      have "length (drop (ts_pos st) s) = length (tk_text t) + length (drop (ts_pos st') s)" using t(4) by (metis length_append)
      then have "length s - ts_pos st' \<le> n" using Suc.prems(2) t(3) by (cases "tk_text t") auto
      from Suc.IH [OF t(1) this] nextToken_good [of s st t st'] Suc.prems(1) Inr p t False show ?thesis
        by (simp add: Let_def texts_def)
    qed (use False in simp)
  qed (use Suc.prems in \<open>auto simp: endOfFile_def texts_def\<close>)
qed (auto simp: texts_def)

lemma tokens_of_ok:
  "list_all tok_good (fd_toks (tokens_of s))" "fd_err (tokens_of s) = None \<Longrightarrow> texts (fd_toks (tokens_of s)) = s"
  using feed_loop_ok [of tok_start s "length s"] by (auto simp: tokens_of_def)

end
