(* ===== verification/Css_Roundtrip.thy ===== *)
theory Css_Roundtrip
  imports Css_Parser
begin

text \<open>
  Parser and printer together: whatever text the parser accepts, printing the parsed tree gives the
  text back, character by character.  The proof follows the text that is already fixed by the parser's
  state (\<open>state_text\<close>): the heads of the open containers, their finished children and the white space
  read since.  A child without a semicolon can only be the last one of its container, which the
  invariant expresses as: either the children so far print the same whatever follows (\<open>settled\<close>), or
  only white space and comments come before the container ends (\<open>closing\<close>).
\<close>

section \<open>Token texts\<close>

lemma texts_simps [simp]:
  "texts [] = []" "texts (t # ts) = tk_text t @ texts ts" "texts (ts @ us) = texts ts @ texts us"
  by (simp_all add: texts_def)

lemma off_end_texts: "off_end P ts = (w, us) \<Longrightarrow> texts us @ w = texts ts"
proof -
  assume "off_end P ts = (w, us)"
  then have "texts us @ w = texts (rev (dropWhile P (rev ts)) @ rev (takeWhile P (rev ts)))" by (auto simp: off_end_def)
  also have "rev (dropWhile P (rev ts)) @ rev (takeWhile P (rev ts)) = ts"
    by (metis rev_append rev_rev_ident takeWhile_dropWhile_id)
  finally show ?thesis .
qed

lemma off_end_last: "off_end P ts = (w, us) \<Longrightarrow> us \<noteq> [] \<Longrightarrow> \<not> P (last us)"
  using hd_dropWhile [of P "rev ts"] by (auto simp: off_end_def last_rev simp del: dropWhile_eq_Nil_conv)

lemma off_end_subset: "off_end P ts = (w, us) \<Longrightarrow> set us \<subseteq> set ts"
  using set_dropWhileD [of _ P "rev ts"] by (auto simp: off_end_def)

lemma raw_loop_grows: "\<exists>x. fst (raw_loop prev ts keep l c) = l @ x"
proof (induction prev ts keep l c rule: raw_loop.induct)
  case (2 prev s ts keep l c)
  then show ?case by (auto split: if_splits)
qed simp

lemma raw_loop_clean: "raw_loop prev ts keep l c = (v, True) \<Longrightarrow> c \<and> v = l @ texts ts"
  by (induction prev ts keep l c rule: raw_loop.induct) (auto split: if_splits)

text \<open>The value and its raw text stand for all tokens.\<close>

lemma parser_raw_value: "parser_raw ts keep = (v, r) \<Longrightarrow> rw_raw R = r \<Longrightarrow> rawValue v R = texts ts"
proof -
  assume p: "parser_raw ts keep = (v, r)" and R: "rw_raw R = r"
  obtain c where c: "raw_loop None ts keep [] True = (v, c)" "r = (if c then None else Some (v, texts ts))"
    using p by (auto simp: parser_raw_def split: prod.splits)
  with R raw_loop_clean [of None ts keep "[]" True v] show ?thesis by (cases c) (auto simp: rawValue_def)
qed

lemma parser_raw_Nil:
  assumes "parser_raw ts keep = (v, r)" "v = []" "list_all tok_good ts"
  shows "ts = [] \<or> is_sc (hd ts)"
proof (cases ts)
  case (Cons t us)
  show ?thesis
  proof (rule ccontr)
    assume "\<not> ?thesis"
    with Cons have "\<not> is_sc t" by simp
    with Cons have "raw_loop None ts keep [] True = raw_loop (Some t) us keep (tk_text t) True" by (simp add: is_sc_def)
    with raw_loop_grows [of "Some t" us keep "tk_text t" True] assms Cons show False
      by (auto simp: parser_raw_def tok_good_def split: prod.splits)
  qed
qed simp

section \<open>Comments and declarations\<close>

lemma slice_inner: "js_slice (a # b # x @ [c, d]) 2 (- 2) = x"
  by (simp add: js_slice_def slice_index_def)

lemma comment_node_text:
  assumes "tk_text e = ''/*'' @ x @ ''*/''"
  shows "plain semi (comment_node ws e) = tk_text e"
proof -
  have i: "js_slice (tk_text e) 2 (- 2) = x" using slice_inner [of "CHR ''/''" "CHR ''*''" x] assms by simp
  have "takeWhile js_space x @ take n (drop (length (takeWhile js_space x)) x) @ drop n (drop (length (takeWhile js_space x)) x) = x" for n
    by (simp add: dropWhile_eq_drop [symmetric])
  with i assms show ?thesis by (simp add: comment_node_def Let_def sp_def)
qed

lemma comment_node_ok:
  "is_Comment (comment_node ws e)" "rw_before (node_raws (comment_node ws e)) = Some ws" "carries_raws (comment_node ws e)"
  by (simp_all add: comment_node_def Let_def)

lemma skip_to_word_texts: "skip_to_word ts b = Inr (b', us) \<Longrightarrow> b' @ texts us = b @ texts ts \<and> set us \<subseteq> set ts"
  by (induction ts b rule: skip_to_word.induct) (auto split: if_splits)

lemma to_colon_texts: "to_colon ts b = Inr (b', us) \<Longrightarrow> b' @ texts us = b @ texts ts \<and> set us \<subseteq> set ts"
  by (induction ts b rule: to_colon.induct) (auto split: if_splits)

lemma bang_loop_texts: "bang_loop p f d = (f', d') \<Longrightarrow> texts f' @ d' = texts f @ d \<and> set f' \<subseteq> set f"
proof (induction p f d rule: bang_loop.induct)
  case (2 p f d)
  show ?case
  proof (cases "f = [] \<or> banged d \<and> tk_type (f ! Suc p) \<noteq> ''space''")
    case False
    then have f: "f \<noteq> []" by simp
    from False 2(1) 2(2) have r: "texts f' @ d' = texts (butlast f) @ tk_text (last f) @ d" "set f' \<subseteq> set (butlast f)" by auto
    have "texts f = texts (butlast f @ [last f])" using f by simp
    also have "\<dots> = texts (butlast f) @ tk_text (last f)" by (simp only: texts_simps append_Nil2)
    finally have "texts f = texts (butlast f) @ tk_text (last f)" .
    with r show ?thesis by (auto dest: in_set_butlastD)
  qed (use 2 in auto)
qed simp

lemma spaces_not_important: "tok_good t \<Longrightarrow> is_sc t \<Longrightarrow> js_lower (tk_text t) \<noteq> ''important''"
  by (cases "tk_text t") (auto simp: tok_good_def is_sc_def js_lower_def css_space_def ascii_lower_def)

lemma banged_ne: "banged d \<Longrightarrow> d \<noteq> []"
  by (auto simp: banged_def js_trim_def)

lemma nonempty_or_Some: "s \<noteq> [] \<Longrightarrow> nonempty_or (Some s) d = s"
  by (cases s) (simp_all add: nonempty_or_def)

lemma important_loop_texts:
  assumes "important_loop c e False None = (imp, rw, e')" "list_all tok_good e"
  shows "texts e' @ (if imp then nonempty_or rw '' !important'' else []) = texts e \<and> set e' \<subseteq> set e"
  using assms
proof (induction c)
  case (Suc c)
  show ?case
  proof (cases "c < length e")
    case True
    define s where "s = e ! c"
    have s: "s \<in> set e" "tok_good s" using True Suc.prems(2) by (auto simp: s_def list_all_iff)
    consider (bang) "js_lower (tk_text s) = ''!important''"
      | (word) "js_lower (tk_text s) \<noteq> ''!important''" "js_lower (tk_text s) = ''important''" "\<not> is_sc s"
      | (none) "js_lower (tk_text s) \<noteq> ''!important''" "js_lower (tk_text s) \<noteq> ''important''"
      using spaces_not_important [OF s(2)] by blast
    then show ?thesis
    proof cases
      case bang
      obtain ws f where w: "spacesFromEnd (take c e) = (ws, f)" by fastforce
      have t: "texts f @ ws = texts (take c e)" "set f \<subseteq> set e"
        using off_end_texts [of _ "take c e" ws f] off_end_subset [of _ "take c e" ws f] w
        by (auto simp: spacesFromEnd_def dest: in_set_takeD)
      have "texts (drop c e) \<noteq> []" using True s(2) by (simp add: Cons_nth_drop_Suc [symmetric] s_def tok_good_def)
      then have g: "nonempty_or (if ws @ texts (drop c e) = '' !important'' then None else Some (ws @ texts (drop c e))) '' !important'' = ws @ texts (drop c e)"
        by (auto simp: nonempty_or_Some) (simp add: nonempty_or_def)
      have r: "imp" "rw = (if ws @ texts (drop c e) = '' !important'' then None else Some (ws @ texts (drop c e)))" "e' = f"
        using Suc.prems(1) True bang w by (auto simp: s_def Let_def)
      have "texts f @ ws @ texts (drop c e) = texts (take c e @ drop c e)"
        unfolding texts_simps(3) t(1) [symmetric] by simp
      then have "texts f @ ws @ texts (drop c e) = texts e" by simp
      with r(1) t(2) show ?thesis unfolding r(2,3) by (simp only: g if_True simp_thms)
    next
      case word
      obtain f d where b: "bang_loop c e [] = (f, d)" by fastforce
      from word Suc.prems(1) True b have "(imp, rw, e') = (if banged d then (True, Some d, f) else (False, None, e))"
        by (auto simp: s_def Let_def)
      with bang_loop_texts [OF b] show ?thesis by (auto simp: nonempty_or_Some banged_ne split: if_splits)
    next
      case none
      with Suc.prems(1) True have "important_loop c e False None = (imp, rw, e') \<or> (imp, rw, e') = (False, None, e)"
        by (auto simp: s_def Let_def split: if_splits)
      with Suc.IH Suc.prems(2) show ?thesis by auto
    qed
  qed (use Suc.prems in simp)
qed simp

definition child_ok :: "css_node \<Rightarrow> bool" where
  "child_ok n \<longleftrightarrow> \<not> is_Root n \<and> rw_before (node_raws n) \<noteq> None \<and> carries_raws n"

definition shown :: "bool \<Rightarrow> css_node \<Rightarrow> string" where
  "shown semi n = sp (rw_before (node_raws n)) @ plain semi n"

abbreviation semi_text :: "bool \<Rightarrow> string" where
  "semi_text semi \<equiv> (if semi then '';'' else [])"

lemma decl_value_text:
  assumes "decl_value bef p between custom e = Inr n" "list_all tok_good e"
  shows "shown semi n = bef @ p @ between @ texts e @ semi_text semi \<and> child_ok n \<and> is_Decl n"
proof -
  define hack where "hack \<longleftrightarrow> p \<noteq> [] \<and> (hd p = CHR ''_'' \<or> hd p = CHR ''*'')"
  define bef' where "bef' = (if hack then bef @ [hd p] else bef)"
  define p' where "p' = (if hack then tl p else p)"
  define a where "a = takeWhile is_sc e"
  define d where "d = dropWhile is_sc e"
  obtain imp rw e2 where i: "important_loop (length d) d False None = (imp, rw, e2)" by (metis prod_cases3)
  define solid where "solid = list_ex (\<lambda>c. \<not> is_sc c) e2"
  define bt where "bt = (if solid then between @ texts a else between)"
  define a' where "a' = (if solid then [] else a)"
  obtain v r where v: "parser_raw (a' @ e2) custom = (v, r)" by fastforce
  let ?R = "no_raws\<lparr>rw_before := Some bef', rw_between := Some bt, rw_important := rw, rw_raw := r\<rparr>"
  have n: "n = Decl p' v imp ?R"
    using assms(1) unfolding decl_value_def Let_def hack_def [symmetric] bef'_def [symmetric] p'_def [symmetric]
      a_def [symmetric] d_def [symmetric] i prod.case solid_def [symmetric] bt_def [symmetric] a'_def [symmetric] v
    by (auto split: if_splits option.splits)
  have "list_all tok_good d" using assms(2) by (auto simp: list_all_iff d_def dest: set_dropWhileD)
  from important_loop_texts [OF i this] have im: "texts e2 @ (if imp then nonempty_or rw '' !important'' else []) = texts d" by simp
  have val: "rawValue v ?R = texts a' @ texts e2" using parser_raw_value [OF v, of ?R] by simp
  have "bef' @ p' = bef @ p" by (simp add: bef'_def p'_def hack_def)
  moreover have "bt @ texts a' = between @ texts a" by (simp add: bt_def a'_def)
  moreover have "texts a @ texts d = texts e" by (metis a_def d_def takeWhile_dropWhile_id texts_simps(3))
  moreover have "shown semi n = (bef' @ p') @ (bt @ texts a') @ (texts e2 @ (if imp then nonempty_or rw '' !important'' else [])) @ semi_text semi"
    unfolding n shown_def plain.simps node_raws.simps val by (simp add: sp_def)
  ultimately have "shown semi n = bef @ p @ between @ texts e @ semi_text semi"
    unfolding im by (metis append.assoc)
  then show ?thesis by (simp add: n child_ok_def)
qed

lemma decl_node_text:
  assumes "decl_node ws e custom = Inr (n, semi)" "list_all tok_good e"
  shows "shown semi n = ws @ texts e \<and> child_ok n \<and> is_Decl n \<and> semi = (e \<noteq> [] \<and> tk_type (last e) = '';'')"
proof -
  define semi' where "semi' \<longleftrightarrow> e \<noteq> [] \<and> tk_type (last e) = '';''"
  define e1 where "e1 = (if semi' then butlast e else e)"
  obtain b e2 where sk: "skip_to_word e1 ws = Inr (b, e2)"
    using assms(1) by (auto simp: decl_node_def Let_def semi'_def e1_def split: sum.splits)
  let ?p = "texts (takeWhile (\<lambda>t. \<not> prop_end t) e2)" and ?e3 = "dropWhile (\<lambda>t. \<not> prop_end t) e2"
  obtain bt e4 where tc: "to_colon ?e3 [] = Inr (bt, e4)"
    using assms(1) sk by (auto simp: decl_node_def Let_def semi'_def e1_def split: sum.splits)
  have dv: "decl_value b ?p bt custom e4 = Inr n" "semi = semi'"
    using assms(1) sk tc by (auto simp: decl_node_def Let_def semi'_def e1_def split: sum.splits)
  have e: "texts e = texts e1 @ semi_text semi'"
  proof (cases semi')
    case True
    then have "e = butlast e @ [last e]" "tok_good (last e)" "tk_type (last e) = '';''"
      using assms(2) by (auto simp: semi'_def list_all_iff)
    then have "tk_text (last e) = '';''" by (simp add: tok_good_def)
    with \<open>e = butlast e @ [last e]\<close> True show ?thesis by (metis (full_types) e1_def append_Nil2 texts_simps)
  qed (simp add: e1_def)
  have "set e4 \<subseteq> set e"
    using to_colon_texts [OF tc] skip_to_word_texts [OF sk]
    by (auto simp: e1_def dest!: set_dropWhileD in_set_butlastD subsetD split: if_splits)
  then have "list_all tok_good e4" using assms(2) by (auto simp: list_all_iff)
  from decl_value_text [OF dv(1) this] have nt: "shown semi n = b @ ?p @ bt @ texts e4 @ semi_text semi" "child_ok n" "is_Decl n" by auto
  have "?p @ texts ?e3 = texts e2" by (metis takeWhile_dropWhile_id texts_simps(3))
  then have "b @ ?p @ bt @ texts e4 = ws @ texts e1"
    using to_colon_texts [OF tc] skip_to_word_texts [OF sk] by simp
  with nt e dv(2) show ?thesis by (simp add: semi'_def)
qed

section \<open>Children of an open container\<close>

text \<open>The children when all of them are followed by more, and when they are all there is.\<close>

definition done_text :: "css_node list \<Rightarrow> string" where
  "done_text ns = concat (map (shown True) ns)"

definition kids :: "bool \<Rightarrow> css_node list \<Rightarrow> string" where
  "kids b ns = plain_list 0 (last_solid ns) b ns"

fun indifferent :: "css_node \<Rightarrow> bool" where
  "indifferent (Decl _ _ _ _) = False"
| "indifferent (AtRule _ _ None _) = False"
| "indifferent _ = True"

definition settled :: "bool \<Rightarrow> css_node list \<Rightarrow> bool" where
  "settled b ns \<longleftrightarrow> b \<or> ns = [] \<or> indifferent (ns ! last_solid ns)"

lemma plain_indifferent: "indifferent n \<Longrightarrow> plain a n = plain b n"
  by (induction n rule: indifferent.induct) simp_all

lemma comment_indifferent: "is_Comment n \<Longrightarrow> indifferent n"
  by (cases n) simp_all

lemma last_solid_snoc:
  "\<not> is_Comment n \<Longrightarrow> last_solid (ns @ [n]) = length ns"
  "is_Comment n \<Longrightarrow> ns \<noteq> [] \<Longrightarrow> last_solid (ns @ [n]) = last_solid ns"
  by (cases ns; simp add: last_solid_def)+

lemma last_solid_less: "ns \<noteq> [] \<Longrightarrow> last_solid ns < length ns"
  using length_dropWhile_le [of is_Comment "rev (tl ns)"] by (cases ns) (simp_all add: last_solid_def)

lemma plain_list_append:
  "plain_list i t b (ns @ ms) = plain_list i t b ns @ plain_list (i + length ns) t b ms"
  by (induction ns arbitrary: i) simp_all

lemma plain_list_done:
  "(\<And>j. j < length ns \<Longrightarrow> b \<or> i + j \<noteq> t \<or> indifferent (ns ! j)) \<Longrightarrow> plain_list i t b ns = done_text ns"
proof (induction ns arbitrary: i)
  case (Cons n ns)
  have "plain (t \<noteq> i \<or> b) n = plain True n"
    using Cons.prems [of 0] plain_indifferent by (cases "t \<noteq> i \<or> b") auto
  moreover have "plain_list (Suc i) t b ns = done_text ns" using Cons.prems [of "Suc j" for j] by (intro Cons.IH) auto
  ultimately show ?case by (simp add: done_text_def shown_def)
qed (simp add: done_text_def)

lemma kids_settled: "settled b ns \<Longrightarrow> kids b ns = done_text ns"
  unfolding kids_def settled_def by (intro plain_list_done) auto

lemma kids_solid:
  assumes "\<not> is_Comment n"
  shows "kids b (ns @ [n]) = done_text ns @ shown b n"
proof -
  have "plain_list 0 (length ns) b ns = done_text ns" by (intro plain_list_done) auto
  then show ?thesis by (simp add: kids_def last_solid_snoc(1) [OF assms] plain_list_append shown_def)
qed

lemma kids_comment: "is_Comment n \<Longrightarrow> kids b (ns @ [n]) = kids b ns @ shown False n"
proof (cases "ns = []")
  case True
  assume "is_Comment n"
  then show ?thesis using True plain_indifferent [of n b False] comment_indifferent [of n]
    by (simp add: kids_def last_solid_def shown_def)
next
  case False
  assume c: "is_Comment n"
  have "plain (last_solid ns \<noteq> length ns \<or> b) n = plain False n"
    using c comment_indifferent plain_indifferent by blast
  then show ?thesis by (simp add: kids_def last_solid_snoc(2) [OF c False] plain_list_append shown_def)
qed

lemma kids_Nil [simp]: "kids b [] = []"
  by (simp add: kids_def)

lemma settled_solid: "\<not> is_Comment n \<Longrightarrow> b \<or> indifferent n \<Longrightarrow> settled b (ns @ [n])"
  by (simp add: settled_def last_solid_snoc)

lemma settled_comment:
  assumes "is_Comment n" "settled b ns"
  shows "settled b (ns @ [n])"
proof (cases "ns = []")
  case True
  then show ?thesis using comment_indifferent [OF assms(1)] by (simp add: settled_def last_solid_def)
next
  case False
  with assms last_solid_less [OF False] show ?thesis
    by (auto simp: settled_def last_solid_snoc(2) [OF assms(1) False] nth_append)
qed

section \<open>The text of a parser state\<close>

definition head_text :: "frame \<Rightarrow> string" where
  "head_text f =
     (case fr_head f of
        FRoot \<Rightarrow> []
      | FRule sel \<Rightarrow> sp (rw_before (fr_raws f)) @ rawValue sel (fr_raws f) @ sp (rw_between (fr_raws f)) @ ''{''
      | FAtRule name params \<Rightarrow>
          sp (rw_before (fr_raws f)) @ at_head name params (fr_raws f) @ sp (rw_between (fr_raws f)) @ ''{'')"

definition outer_text :: "frame list \<Rightarrow> string" where
  "outer_text fs = concat (map (\<lambda>f. head_text f @ done_text (fr_nodes f)) (rev fs))"

definition open_text :: "parser \<Rightarrow> string" where
  "open_text st =
     (case ps_frames st of
        [] \<Rightarrow> []
      | f # fs \<Rightarrow> outer_text fs @ head_text f @ kids (ps_semicolon st) (fr_nodes f))"

definition state_text :: "parser \<Rightarrow> string" where
  "state_text st = open_text st @ ps_spaces st"

definition frame_ok :: "frame \<Rightarrow> bool" where
  "frame_ok f \<longleftrightarrow> rw_after (fr_raws f) = None \<and> rw_ownSemicolon (fr_raws f) = None \<and> list_all child_ok (fr_nodes f) \<and>
     (fr_head f = FRoot \<or> rw_before (fr_raws f) \<noteq> None \<and> rw_between (fr_raws f) \<noteq> None)"

text \<open>Only white space and comments are left before the end of the container.\<close>

definition closing :: "css_token list \<Rightarrow> bool" where
  "closing ts \<longleftrightarrow> (case dropWhile is_sc ts of [] \<Rightarrow> True | t # _ \<Rightarrow> tk_type t = ''}'')"

definition frames_ok :: "frame list \<Rightarrow> bool" where
  "frames_ok fs \<longleftrightarrow> fs \<noteq> [] \<and> list_all frame_ok fs \<and> fr_head (last fs) = FRoot \<and> list_all (\<lambda>f. fr_head f \<noteq> FRoot) (butlast fs)"

definition settled_state :: "parser \<Rightarrow> bool" where
  "settled_state st \<longleftrightarrow> settled (ps_semicolon st) (fr_nodes (hd (ps_frames st)))"

definition parse_inv :: "parser \<Rightarrow> css_token list \<Rightarrow> bool" where
  "parse_inv st ts \<longleftrightarrow> frames_ok (ps_frames st) \<and> (settled_state st \<or> closing ts)"

lemma outer_text_Cons: "outer_text (f # fs) = outer_text fs @ head_text f @ done_text (fr_nodes f)"
  by (simp add: outer_text_def)

lemma not_closing: "\<not> is_sc e \<Longrightarrow> tk_type e \<noteq> ''}'' \<Longrightarrow> \<not> closing (e # ts)"
  by (simp add: closing_def)

lemma closing_skip: "is_sc e \<Longrightarrow> closing (e # ts) = closing ts"
  by (simp add: closing_def)

lemma closing_given: "list_all is_sc us \<Longrightarrow> closing (us @ ts) = closing ts"
  by (induction us) (simp_all add: closing_skip)

lemma frames_okE:
  assumes "frames_ok fs"
  obtains f gs where "fs = f # gs" "frame_ok f" "list_all child_ok (fr_nodes f)"
  using assms by (cases fs) (auto simp: frames_ok_def frame_ok_def)

lemma frames_ok_nodes: "frames_ok (f # fs) \<Longrightarrow> list_all child_ok ns \<Longrightarrow> frames_ok (f\<lparr>fr_nodes := ns\<rparr> # fs)"
  by (cases fs) (auto simp: frames_ok_def frame_ok_def)

lemma head_text_nodes [simp]: "head_text (f\<lparr>fr_nodes := ns\<rparr>) = head_text f"
  by (cases "fr_head f") (simp_all add: head_text_def)

lemma add_leaf_spaces [simp]: "ps_spaces (add_leaf n semi st) = []"
  by (simp add: add_leaf_def)

lemma spaces_simps [simp]:
  "open_text (st\<lparr>ps_spaces := ws\<rparr>) = open_text st" "settled_state (st\<lparr>ps_spaces := ws\<rparr>) = settled_state st"
  by (cases "ps_frames st"; simp add: open_text_def settled_state_def)+

section \<open>One token keeps the text\<close>

lemma add_leaf_keeps:
  assumes "frames_ok (ps_frames st)" "settled_state st" "child_ok n" "\<not> is_Comment n" "semi \<or> indifferent n \<or> closing rest"
  shows "parse_inv (add_leaf n semi st) rest \<and> open_text (add_leaf n semi st) = open_text st @ shown semi n"
proof -
  from assms(1) obtain f fs where f: "ps_frames st = f # fs" "list_all child_ok (fr_nodes f)" by (blast elim: frames_okE)
  have "frames_ok (f\<lparr>fr_nodes := fr_nodes f @ [n]\<rparr> # fs)" using assms(1,3) f by (intro frames_ok_nodes) auto
  then show ?thesis using assms f settled_solid [OF assms(4), of semi "fr_nodes f"]
    by (auto simp: parse_inv_def settled_state_def add_leaf_def push_node_def open_text_def kids_solid kids_settled)
qed

lemma open_frame_keeps:
  assumes "frames_ok (ps_frames st)" "settled_state st" "h \<noteq> FRoot" "rw_before r \<noteq> None" "rw_between r \<noteq> None"
    "rw_after r = None" "rw_ownSemicolon r = None"
  shows "parse_inv (open_frame h r e st) rest \<and>
    open_text (open_frame h r e st) = open_text st @ head_text \<lparr>fr_head = h, fr_raws = r, fr_nodes = [], fr_start = tk_start e\<rparr>"
proof -
  from assms(1) obtain f fs where f: "ps_frames st = f # fs" by (blast elim: frames_okE)
  have "frames_ok (\<lparr>fr_head = h, fr_raws = r, fr_nodes = [], fr_start = tk_start e\<rparr> # ps_frames st)"
    using assms by (auto simp: frames_ok_def frame_ok_def)
  then show ?thesis using assms(2) f
    by (auto simp: parse_inv_def settled_state_def settled_def open_frame_def open_text_def outer_text_Cons kids_settled)
qed

lemma comment_keeps:
  assumes "parse_inv st (e # ts)" "tok_good e" "tk_type e = ''comment''"
  shows "parse_inv (parse_comment e st) ts \<and> state_text (parse_comment e st) = state_text st @ tk_text e"
proof -
  let ?n = "comment_node (ps_spaces st) e"
  from assms(1) obtain f fs where f: "ps_frames st = f # fs" "list_all child_ok (fr_nodes f)"
    by (auto simp: parse_inv_def elim!: frames_okE)
  obtain x where "tk_text e = ''/*'' @ x @ ''*/''" using assms(2,3) by (auto simp: tok_good_def)
  then have sh: "shown False ?n = ps_spaces st @ tk_text e" by (simp add: shown_def comment_node_text comment_node_ok sp_def)
  have "child_ok ?n" by (simp add: child_ok_def comment_node_ok) (simp add: comment_node_def Let_def)
  then have fo: "frames_ok (f\<lparr>fr_nodes := fr_nodes f @ [?n]\<rparr> # fs)"
    using assms(1) f by (intro frames_ok_nodes) (auto simp: parse_inv_def)
  have "closing (e # ts) = closing ts" using assms(3) by (intro closing_skip) (simp add: is_sc_def)
  with fo f sh settled_comment [OF comment_node_ok(1)] kids_comment [OF comment_node_ok(1)] assms(1) show ?thesis
    by (auto simp: parse_inv_def settled_state_def parse_comment_def add_leaf_def push_node_def open_text_def state_text_def)
qed

lemma close_raws_simps [simp]:
  "rw_before (close_raws st f) = rw_before (fr_raws f)" "rw_between (close_raws st f) = rw_between (fr_raws f)"
  "rw_afterName (close_raws st f) = rw_afterName (fr_raws f)" "rw_raw (close_raws st f) = rw_raw (fr_raws f)"
  "rw_ownSemicolon (close_raws st f) = rw_ownSemicolon (fr_raws f)"
  "rw_after (fr_raws f) = None \<Longrightarrow> rw_after (close_raws st f) = Some (ps_spaces st)"
  "fr_nodes f \<noteq> [] \<Longrightarrow> rw_semicolon (close_raws st f) = Some (ps_semicolon st)"
  by (simp_all add: close_raws_def Let_def)

lemma kids_close: "plain_list 0 (last_solid ns) (flag (rw_semicolon (close_raws st f))) ns = kids (ps_semicolon st) ns" if "ns = fr_nodes f"
  using that by (cases "ns = []") (simp_all add: kids_def flag_def)

lemma child_ok_raws: "list_all child_ok ns \<Longrightarrow> list_all (\<lambda>n. \<not> is_Root n \<and> rw_before (node_raws n) \<noteq> None \<and> carries_raws n) ns"
  by (simp add: list_all_iff child_ok_def)

text \<open>A finished container prints its head, its children, the white space before the brace, and the brace.\<close>

lemma frame_node_text:
  assumes "frame_ok f" "fr_head f \<noteq> FRoot"
    and n_def: "n = frame_node (f\<lparr>fr_raws := close_raws st f\<rparr>)"
  shows "shown False n = head_text f @ kids (ps_semicolon st) (fr_nodes f) @ ps_spaces st @ ''}''"
    and "child_ok n" and "\<not> is_Comment n" and "indifferent n"
proof -
  have raws: "at_head name params (close_raws st f) = at_head name params (fr_raws f)"
    "rawValue v (close_raws st f) = rawValue v (fr_raws f)" for name params v
    by (simp_all add: at_head_def rawValue_def)
  from assms(1,2) have f: "rw_after (fr_raws f) = None" "rw_ownSemicolon (fr_raws f) = None"
      "rw_before (fr_raws f) \<noteq> None" "rw_between (fr_raws f) \<noteq> None" "list_all child_ok (fr_nodes f)"
    by (auto simp: frame_ok_def)
  show "shown False n = head_text f @ kids (ps_semicolon st) (fr_nodes f) @ ps_spaces st @ ''}''"
    using assms(2) f by (cases "fr_head f") (simp_all add: n_def frame_node_def shown_def head_text_def kids_close raws sp_def)
  show "child_ok n" "\<not> is_Comment n" "indifferent n"
    using assms(2) f child_ok_raws [OF f(5)] by (cases "fr_head f"; auto simp: n_def frame_node_def child_ok_def)+
qed

lemma end_block_keeps:
  assumes "end_block e st = Inr st'" "frames_ok (ps_frames st)" "tok_good e" "tk_type e = ''}''"
  shows "parse_inv st' rest \<and> state_text st' = state_text st @ tk_text e"
proof -
  from assms(1) obtain f g fs where f: "ps_frames st = f # g # fs"
    by (auto simp: end_block_def split: list.splits)
  let ?n = "frame_node (f\<lparr>fr_raws := close_raws st f\<rparr>)"
  have st': "st' = add_leaf ?n False (st\<lparr>ps_frames := g # fs\<rparr>)"
    using assms(1) f by (cases st) (simp add: end_block_def add_leaf_def)
  from assms(2) f have h: "fr_head f \<noteq> FRoot" "frame_ok f" "frames_ok (g # fs)" "list_all child_ok (fr_nodes g)"
    by (auto simp: frames_ok_def frame_ok_def split: if_splits)
  note n = frame_node_text [OF h(2,1) refl, of st]
  have "tk_text e = ''}''" using assms(3,4) by (simp add: tok_good_def)
  moreover have "frames_ok (g\<lparr>fr_nodes := fr_nodes g @ [?n]\<rparr> # fs)" using h n(2) by (intro frames_ok_nodes) auto
  ultimately show ?thesis using n settled_solid [OF n(3), of False "fr_nodes g"] f
    by (simp add: st' parse_inv_def settled_state_def add_leaf_def push_node_def open_text_def state_text_def kids_solid outer_text_Cons)
qed

lemma own_semicolon_text:
  assumes "own_semicolon ws ns = Some ms" "list_all child_ok ns"
  shows "list_all child_ok ms \<and> settled b ms \<and> done_text ms = done_text ns @ ws"
proof -
  from assms(1) obtain sel ks r ns' where ns: "rev ns = Rule sel ks r # ns'"
    and ms: "ms = rev ns' @ [Rule sel ks (r\<lparr>rw_ownSemicolon := Some ws\<rparr>)]" and own: "sp (rw_ownSemicolon r) = []"
    by (auto simp: own_semicolon_def sp_def split: list.splits css_node.splits option.splits)
  from ns have ns: "ns = rev ns' @ [Rule sel ks r]" by (metis rev_rev_ident rev.simps(2))
  have "shown True (Rule sel ks (r\<lparr>rw_ownSemicolon := Some ws\<rparr>)) = shown True (Rule sel ks r) @ ws"
    using own by (simp add: shown_def sp_def rawValue_def)
  with assms(2) show ?thesis by (auto simp: ns ms done_text_def child_ok_def intro!: settled_solid)
qed

lemma freeSemicolon_keeps:
  assumes "frames_ok (ps_frames st)" "settled_state st"
  shows "parse_inv (freeSemicolon e st) ts \<and> state_text (freeSemicolon e st) = state_text st @ tk_text e"
proof -
  from assms(1) obtain f fs where f: "ps_frames st = f # fs" "list_all child_ok (fr_nodes f)" by (blast elim: frames_okE)
  show ?thesis
  proof (cases "own_semicolon (ps_spaces st @ tk_text e) (fr_nodes f)")
    case (Some ns)
    note ns = own_semicolon_text [OF Some f(2)]
    have "frames_ok (f\<lparr>fr_nodes := ns\<rparr> # fs)" using assms(1) f ns by (intro frames_ok_nodes) auto
    with Some f ns assms(2) show ?thesis
      by (simp add: freeSemicolon_def Let_def parse_inv_def settled_state_def open_text_def state_text_def kids_settled)
  qed (use f assms in \<open>simp_all add: freeSemicolon_def Let_def parse_inv_def settled_state_def open_text_def state_text_def\<close>)
qed

lemma emptyRule_keeps:
  assumes "frames_ok (ps_frames st)" "settled_state st" "tok_good e" "tk_type e = ''{''"
  shows "parse_inv (emptyRule e st) ts \<and> state_text (emptyRule e st) = state_text st @ tk_text e"
proof -
  have "tk_text e = ''{''" using assms(3,4) by (simp add: tok_good_def)
  then show ?thesis using open_frame_keeps [OF assms(1,2), of "FRule []" "no_raws\<lparr>rw_before := Some (ps_spaces st), rw_between := Some []\<rparr>" e ts]
    by (simp add: emptyRule_def no_raws_def state_text_def head_text_def open_frame_def rawValue_def sp_def)
qed

lemma parse_rule_keeps:
  assumes "frames_ok (ps_frames st)" "settled_state st" "list_all tok_good l" "l \<noteq> []" "tk_type (last l) = ''{''"
  shows "parse_inv (parse_rule l st) ts \<and> state_text (parse_rule l st) = state_text st @ texts l"
proof -
  obtain bt l1 where b: "spacesAndCommentsFromEnd (butlast l) = (bt, l1)" by fastforce
  obtain sel r where s: "parser_raw l1 False = (sel, r)" by fastforce
  let ?r = "no_raws\<lparr>rw_before := Some (ps_spaces st), rw_between := Some bt, rw_raw := r\<rparr>"
  have "tk_text (last l) = ''{''" using assms(3-5) by (simp add: tok_good_def list_all_iff)
  moreover have "l = butlast l @ [last l]" using assms(4) by simp
  ultimately have "texts l = texts (butlast l) @ ''{''" by (metis append_Nil2 texts_simps)
  also have "texts (butlast l) = texts l1 @ bt" using off_end_texts [of is_sc "butlast l"] b by (simp add: spacesAndCommentsFromEnd_def)
  finally have "texts l = rawValue sel ?r @ bt @ ''{''" using parser_raw_value [OF s, of ?r] by simp
  moreover have "parse_rule l st = open_frame (FRule sel) ?r (hd l) st" by (simp add: parse_rule_def b s)
  ultimately show ?thesis using open_frame_keeps [OF assms(1,2), of "FRule sel" ?r "hd l" ts]
    by (simp add: no_raws_def state_text_def head_text_def open_frame_def sp_def)
qed

lemma parse_decl_keeps:
  assumes "parse_decl l custom st = Inr st'" "frames_ok (ps_frames st)" "settled_state st" "list_all tok_good l"
    "l \<noteq> [] \<and> tk_type (last l) = '';'' \<or> closing rest"
  shows "parse_inv st' rest \<and> state_text st' = state_text st @ texts l"
proof -
  obtain n semi where n: "decl_node (ps_spaces st) l custom = Inr (n, semi)" "st' = add_leaf n semi st"
    using assms(1) by (auto simp: parse_decl_def split: sum.splits)
  from decl_node_text [OF n(1) assms(4)] have t: "shown semi n = ps_spaces st @ texts l" "child_ok n" "is_Decl n"
    "semi = (l \<noteq> [] \<and> tk_type (last l) = '';'')" by auto
  from t(3) have "\<not> is_Comment n" by (cases n) simp_all
  moreover have "semi \<or> indifferent n \<or> closing rest" using t(4) assms(5) by blast
  ultimately show ?thesis using add_leaf_keeps [OF assms(2,3) t(2), of semi rest] t(1) by (simp add: n(2) state_text_def)
qed

lemma other_keeps:
  assumes "other e ts err st = Inr (st', rest)" "frames_ok (ps_frames st)" "settled_state st" "list_all tok_good (e # ts)"
  shows "parse_inv st' rest \<and> state_text st' @ texts rest = state_text st @ texts (e # ts) \<and> set rest \<subseteq> set (e # ts)"
  using assms(1)
proof (cases rule: other_cases)
  case (Decl_semi l)
  with assms(4) have "list_all tok_good l" by simp
  from parse_decl_keeps [OF Decl_semi(4) assms(2,3) this, of rest] Decl_semi show ?thesis
    by (metis append.assoc set_append Un_upper2 texts_simps(3))
next
  case (Rule_open l)
  with assms(4) have "list_all tok_good l" by simp
  from parse_rule_keeps [OF assms(2,3) this, of rest] Rule_open show ?thesis
    by (metis append.assoc set_append Un_upper2 texts_simps(3))
next
  case (Decl_end l given r)
  with assms(4) have "list_all tok_good l" by simp
  moreover have "closing rest" using Decl_end by (auto simp: closing_given) (simp_all add: closing_def is_sc_def)
  ultimately show ?thesis using parse_decl_keeps [OF Decl_end(5) assms(2,3), of rest] Decl_end
    by (metis append.assoc set_append Un_upper2 texts_simps(3))
qed

text \<open>The head of an at-rule prints the tokens it was read from.\<close>

lemma at_head_text:
  assumes "spacesAndCommentsFromEnd l = (bt, l1)" "(if l1 = [] then ([], l1) else spacesAndCommentsFromStart l1) = (an, l2)"
    "parser_raw l2 False = (params, r)" "list_all tok_good l" "rw_afterName R = Some an" "rw_raw R = r"
  shows "at_head name params R @ bt = ''@'' @ name @ texts l"
proof -
  from assms(1) have l1: "texts l1 @ bt = texts l" "set l1 \<subseteq> set l"
    by (auto simp: spacesAndCommentsFromEnd_def dest: off_end_texts off_end_subset)
  have l2: "l2 = dropWhile is_sc l1" "an = texts (takeWhile is_sc l1)"
    using assms(2) by (auto simp: spacesAndCommentsFromStart_def split: if_splits)
  then have an: "an @ texts l2 = texts l1" by (metis takeWhile_dropWhile_id texts_simps(3))
  have "list_all tok_good l2" using l1(2) l2(1) assms(4) by (auto simp: list_all_iff dest: set_dropWhileD)
  with parser_raw_Nil [OF assms(3)] have "params = [] \<Longrightarrow> l2 = []"
    using hd_dropWhile [of is_sc l1] l2(1) by auto
  then have "(if params = [] then [] else rawValue params R) = texts l2"
    using parser_raw_value [OF assms(3,6)] by auto
  with assms(5) an l1(1) [symmetric] show ?thesis by (simp add: at_head_def Let_def)
qed

text \<open>The four ways an at-rule ends.\<close>

definition at_split :: "at_stop \<Rightarrow> css_token list \<Rightarrow> css_token list \<Rightarrow> css_token list \<Rightarrow> bool" where
  "at_split stop ts l rest =
     (case stop of
        AtEnd b \<Rightarrow> ts = l \<and> rest = []
      | AtSemicolon \<Rightarrow> \<exists>e. ts = l @ e # rest \<and> tk_type e = '';''
      | AtOpen \<Rightarrow> \<exists>e. ts = l @ e # rest \<and> tk_type e = ''{''
      | AtClose x \<Rightarrow> ts = l @ x # rest \<and> tk_type x = ''}'')"

definition at_result :: "at_stop \<Rightarrow> string \<Rightarrow> string \<Rightarrow> css_raws \<Rightarrow> css_token \<Rightarrow> string \<Rightarrow> parser \<Rightarrow> parser \<Rightarrow> bool" where
  "at_result stop name params R e over st st' =
     (let leaf = (\<lambda>semi. add_leaf (AtRule name params None R) semi st) in
      case stop of
        AtOpen \<Rightarrow> st' = open_frame (FAtRule name params) R e st
      | AtSemicolon \<Rightarrow> st' = leaf True
      | AtClose x \<Rightarrow> end_block x (leaf False) = Inr st'
      | AtEnd _ \<Rightarrow> st' = (leaf False)\<lparr>ps_spaces := over\<rparr>)"

lemma at_result_keeps:
  assumes "frames_ok (ps_frames st)" "settled_state st" "list_all tok_good ts" "at_split stop ts l rest"
    "at_result stop name params R e over st st'"
    "rw_before R = Some (ps_spaces st)" "rw_between R = Some bt" "rw_after R = None" "rw_ownSemicolon R = None"
    "at_head name params R @ bt @ over = ''@'' @ name @ texts l" "over = [] \<or> (\<exists>b. stop = AtEnd b)"
  shows "parse_inv st' rest \<and> state_text st' @ texts rest = state_text st @ ''@'' @ name @ texts ts \<and> set rest \<subseteq> set ts"
proof -
  define n where "n = AtRule name params None R"
  have n: "child_ok n" "\<not> is_Comment n" by (simp_all add: n_def child_ok_def assms(6))
  have sh: "shown semi n = ps_spaces st @ at_head name params R @ bt @ semi_text semi" for semi
    by (simp add: n_def shown_def assms(6,7) sp_def)
  note leaf = add_leaf_keeps [OF assms(1,2) n]
  show ?thesis
  proof (cases stop)
    case AtSemicolon
    with assms(4) obtain c where c: "ts = l @ c # rest" "tk_type c = '';''" by (auto simp: at_split_def)
    then have "tk_text c = '';''" using assms(3) by (simp add: tok_good_def)
    with c leaf [of True rest] sh [of True] assms(5,10,11) AtSemicolon show ?thesis
      by (auto simp: at_result_def n_def state_text_def)
  next
    case AtOpen
    with assms(4) obtain c where c: "ts = l @ c # rest" "tk_type c = ''{''" by (auto simp: at_split_def)
    then have "tk_text c = ''{''" using assms(3) by (simp add: tok_good_def)
    with c open_frame_keeps [OF assms(1,2), of "FAtRule name params" R e rest] assms(5-11) AtOpen show ?thesis
      by (auto simp: at_result_def state_text_def head_text_def sp_def) (simp_all add: open_frame_def)
  next
    case (AtClose x)
    with assms(4) have x: "ts = l @ x # rest" "tk_type x = ''}''" by (auto simp: at_split_def)
    have "closing (x # rest)" using x(2) by (simp add: closing_def is_sc_def)
    with leaf [of False "x # rest"] sh [of False] have lf: "frames_ok (ps_frames (add_leaf n False st))"
        "state_text (add_leaf n False st) = state_text st @ at_head name params R @ bt"
      by (auto simp: parse_inv_def state_text_def)
    from end_block_keeps [OF _ lf(1), of x st' rest] lf(2) x assms(3,5,10,11) AtClose show ?thesis
      by (auto simp: at_result_def n_def)
  next
    case (AtEnd b)
    with assms(4) have "ts = l" "rest = []" by (auto simp: at_split_def)
    with leaf [of False "[]"] sh [of False] assms(5,10) AtEnd show ?thesis
      by (auto simp: at_result_def n_def closing_def parse_inv_def state_text_def)
  qed
qed

lemma atrule_keeps:
  assumes "atrule e ts err st = Inr (st', rest)" "frames_ok (ps_frames st)" "settled_state st" "list_all tok_good (e # ts)"
    "tk_type e = ''at-word''"
  shows "parse_inv st' rest \<and> state_text st' @ texts rest = state_text st @ texts (e # ts) \<and> set rest \<subseteq> set (e # ts)"
proof -
  obtain name where e: "tk_text e = CHR ''@'' # name" using assms(4,5) by (auto simp: tok_good_def)
  obtain l stop where sc: "at_scan ts err [] [] = Inr (l, stop, rest)"
    using assms(1) by (auto simp: atrule_def Let_def split: if_splits sum.splits prod.splits at_stop.splits)
  from at_scan_split [OF sc] have split: "at_split stop ts l rest" by (auto simp: at_split_def split: at_stop.splits)
  then have good: "list_all tok_good l" using assms(4) by (auto simp: at_split_def split: at_stop.splits)
  obtain bt l1 where b: "spacesAndCommentsFromEnd l = (bt, l1)" by fastforce
  obtain an l2 where a: "(if l1 = [] then ([], l1) else spacesAndCommentsFromStart l1) = (an, l2)" by fastforce
  obtain params r where p: "parser_raw l2 False = (params, r)" by fastforce
  define moved where "moved \<longleftrightarrow> stop = AtEnd True \<and> l2 \<noteq> []"
  define R where "R = no_raws\<lparr>rw_before := Some (ps_spaces st), rw_between := Some (if moved then [] else bt),
    rw_afterName := Some an, rw_raw := r\<rparr>"
  have name: "name \<noteq> []" using assms(1) e by (auto simp: atrule_def Let_def)
  have "at_result stop name params R e (if moved then bt else []) st st'"
    using assms(1) name by (cases stop) (auto simp: at_result_def atrule_def Let_def sc b a p e R_def moved_def split: sum.splits)
  moreover have "at_head name params R @ (if moved then [] else bt) @ (if moved then bt else []) = ''@'' @ name @ texts l"
    using at_head_text [OF b a p good, of R name] by (cases moved) (simp_all add: R_def)
  moreover have "(if moved then bt else []) = [] \<or> (\<exists>b. stop = AtEnd b)" by (auto simp: moved_def)
  moreover have "rw_before R = Some (ps_spaces st)" "rw_between R = Some (if moved then [] else bt)" "rw_after R = None"
    "rw_ownSemicolon R = None" by (simp_all add: R_def no_raws_def)
  moreover have "list_all tok_good ts" using assms(4) by simp
  ultimately have "parse_inv st' rest \<and> state_text st' @ texts rest = state_text st @ ''@'' @ name @ texts ts \<and> set rest \<subseteq> set ts"
    using at_result_keeps [OF assms(2,3) _ split] by blast
  then show ?thesis using e by auto
qed

lemma parse_token_keeps:
  assumes "parse_token e ts err st = Inr (st', rest)" "parse_inv st (e # ts)" "list_all tok_good (e # ts)"
  shows "parse_inv st' rest \<and> state_text st' @ texts rest = state_text st @ texts (e # ts) \<and> set rest \<subseteq> set (e # ts)"
proof -
  have fo: "frames_ok (ps_frames st)" using assms(2) by (simp add: parse_inv_def)
  have settled: "\<not> is_sc e \<Longrightarrow> tk_type e \<noteq> ''}'' \<Longrightarrow> settled_state st"
    using assms(2) not_closing by (auto simp: parse_inv_def)
  have good: "tok_good e" using assms(3) by simp
  consider (space) "tk_type e = ''space''" | (semi) "tk_type e = '';''" | (close) "tk_type e = ''}''"
    | (comment) "tk_type e = ''comment''" | (at) "tk_type e = ''at-word''" | (open_br) "tk_type e = ''{''"
    | (word) "tk_type e \<notin> {''space'', '';'', ''}'', ''comment'', ''at-word'', ''{''}" by blast
  then show ?thesis
  proof cases
    case space
    then have "closing (e # ts) = closing ts" by (intro closing_skip) (simp add: is_sc_def)
    with space assms(1,2) show ?thesis
      by (auto simp: parse_token_def parse_inv_def state_text_def)
  next
    case semi
    with freeSemicolon_keeps [OF fo settled, of e ts] assms(1) show ?thesis by (auto simp: parse_token_def is_sc_def)
  next
    case close
    with end_block_keeps [OF _ fo good, of st' ts] assms(1) show ?thesis by (auto simp: parse_token_def split: sum.splits)
  next
    case comment
    with comment_keeps [OF assms(2) good] assms(1) show ?thesis by (auto simp: parse_token_def)
  next
    case at
    with atrule_keeps [OF _ fo settled assms(3), of err st' rest] assms(1) show ?thesis by (simp add: parse_token_def is_sc_def)
  next
    case open_br
    with emptyRule_keeps [OF fo settled good, of ts] assms(1) show ?thesis by (auto simp: parse_token_def is_sc_def)
  next
    case word
    with other_keeps [OF _ fo settled assms(3), of err st' rest] assms(1) show ?thesis by (simp add: parse_token_def is_sc_def)
  qed
qed

section \<open>The whole text\<close>

lemma parse_loop_keeps:
  "parse_loop ts err st = Inr st' \<Longrightarrow> parse_inv st ts \<Longrightarrow> list_all tok_good ts \<Longrightarrow>
     frames_ok (ps_frames st') \<and> state_text st' = state_text st @ texts ts \<and> err = None"
proof (induction ts err st rule: parse_loop.induct)
  case (1 err st)
  then show ?case by (auto simp: parse_inv_def split: option.splits)
next
  case (2 e ts err st)
  from 2(2) obtain st1 rest where s: "parse_token e ts err st = Inr (st1, rest)" "parse_loop rest err st1 = Inr st'"
    by (auto split: sum.splits)
  note k = parse_token_keeps [OF s(1) 2(3,4)]
  then have "list_all tok_good rest" using 2(4) by (auto simp: list_all_iff)
  from 2(1) [OF s(1) refl s(2) _ this] k show ?case by simp
qed

lemma endFile_text:
  assumes "endFile st = Inr n" "frames_ok (ps_frames st)"
  shows "plain False n = state_text st \<and> carries_raws n"
proof -
  obtain f where f: "ps_frames st = [f]" using assms by (auto simp: endFile_def frames_ok_def split: list.splits)
  with assms have n: "n = Root (fr_nodes f) (close_raws st f)" and ok: "frame_ok f" "fr_head f = FRoot"
    by (auto simp: endFile_def frames_ok_def frame_node_def)
  from ok have r: "rw_after (fr_raws f) = None" "list_all child_ok (fr_nodes f)" by (auto simp: frame_ok_def)
  show ?thesis using f ok(2) r(1) child_ok_raws [OF r(2)]
    by (simp add: n kids_close state_text_def open_text_def outer_text_def head_text_def sp_def)
qed

lemma new_parser_inv: "parse_inv new_parser ts"
  by (simp add: parse_inv_def new_parser_def frames_ok_def frame_ok_def settled_state_def settled_def no_raws_def)

lemma css_parse_text:
  assumes "css_parse s = Inr n"
  shows "plain False n = s \<and> carries_raws n"
proof -
  obtain st where l: "parse_loop (fd_toks (tokens_of s)) (fd_err (tokens_of s)) new_parser = Inr st" and e: "endFile st = Inr n"
    using assms by (auto simp: css_parse_def Let_def split: sum.splits)
  from parse_loop_keeps [OF l new_parser_inv tokens_of_ok(1)] tokens_of_ok(2) [of s]
  have "frames_ok (ps_frames st)" "state_text st = state_text new_parser @ s" by auto
  with endFile_text [OF e] show ?thesis
    by (simp add: new_parser_def state_text_def open_text_def outer_text_def head_text_def)
qed

text \<open>
  C21. Parsing loses nothing: for every text that the parser accepts, printing the tree it builds gives
  exactly that text, with any memo table, and leaves the table as it was.
\<close>

theorem parse_print_roundtrip:
  assumes "css_parse s = Inr n"
  shows "css_toString c n = (s, c)"
  using css_parse_text [OF assms] css_toString_plain [of n c] by simp

theorem parse_print_roundtrip_witness:
  "\<exists>n. css_parse ''@x;a{b:c/**/}'' = Inr n \<and> css_toString empty_cache n = (''@x;a{b:c/**/}'', empty_cache)"
proof -
  have "case css_parse ''@x;a{b:c/**/}'' of Inr n \<Rightarrow> True | Inl _ \<Rightarrow> False" by code_simp
  then obtain n where n: "css_parse ''@x;a{b:c/**/}'' = Inr n" by (auto split: sum.splits)
  from parse_print_roundtrip [OF n, of empty_cache] n show ?thesis by blast
qed

end
