(* ===== verification/Css_Parse_Errors.thy ===== *)
theory Css_Parse_Errors
  imports Css_Roundtrip
begin

text \<open>
  How the CSS parser fails: it never runs into a missing token (\<open>Crash\<close>, a \<^verbatim>\<open>TypeError\<close> in the code), and the
  position of every error is that of a token of the text.  The position can be missing: a declaration
  without a word is reported at its last token, and white space tokens carry no offset.
\<close>

section \<open>Errors at tokens\<close>

definition token_place :: "css_token list \<Rightarrow> nat option \<Rightarrow> bool" where
  "token_place ts p \<longleftrightarrow> (\<exists>t \<in> set ts. p = tk_start t \<or> tk_type t = ''word'' \<and> p = map_option Suc (tk_end t))"

fun error_at :: "css_token list \<Rightarrow> tok_error option \<Rightarrow> parse_error \<Rightarrow> bool" where
  "error_at ts err Crash = False"
| "error_at ts err (Tokenizing e) = (err = Some e)"
| "error_at ts err (Syntax m p) = token_place ts p"

lemma error_at_mono: "error_at us err x \<Longrightarrow> set us \<subseteq> set ts \<Longrightarrow> error_at ts err x"
  by (cases x) (auto simp: token_place_def)

lemma error_at_token: "t \<in> set ts \<Longrightarrow> error_at ts err (Syntax m (tk_start t))"
  by (auto simp: token_place_def)

lemma unknownWord_at: "t \<in> set ts \<Longrightarrow> error_at ts err (unknownWord t)"
  by (simp add: unknownWord_def error_at_token del: error_at.simps)

section \<open>Declarations\<close>

lemma skip_to_word_error: "skip_to_word ts b = Inl x \<Longrightarrow> ts \<noteq> [] \<Longrightarrow> error_at ts err x"
  by (induction ts b rule: skip_to_word.induct)
     (auto simp: unknownWord_at split: if_splits intro: error_at_mono)

lemma to_colon_error: "to_colon ts b = Inl x \<Longrightarrow> error_at ts err x"
  by (induction ts b rule: to_colon.induct)
     (auto simp: unknownWord_at split: if_splits intro: error_at_mono)

lemma colon_loop_error: "colon_loop a t prev ts = Inl x \<Longrightarrow> error_at ts err x"
proof (induction a t prev ts rule: colon_loop.induct)
  case (2 a t prev n ns)
  show ?case using 2
    by (auto simp: Let_def simp del: error_at.simps split: if_splits option.splits
        intro: error_at_mono [of ns] error_at_token)
qed simp

lemma colon_loop_index: "colon_loop a t prev ts = Inr (Some k) \<Longrightarrow> a \<le> k \<and> k < a + length ts \<and> (prev = None \<longrightarrow> a < k)"
  by (induction a t prev ts rule: colon_loop.induct) (auto simp: Let_def split: if_splits option.splits)

lemma missed_at_place: "ts \<noteq> [] \<Longrightarrow> token_place ts (missed_at ts i)"
  by (induction ts i rule: missed_at.induct) (auto simp: token_place_def Let_def)

lemma checkMissedSemicolon_error: "checkMissedSemicolon e = Some x \<Longrightarrow> error_at e err x"
proof -
  assume c: "checkMissedSemicolon e = Some x"
  show ?thesis
  proof (cases "colon_loop 0 0 None e")
    case (Inr r)
    with c obtain k where k: "r = Some k" "x = Syntax ''Missed semicolon'' (missed_at (rev (take k e)) 0)"
      by (auto simp: checkMissedSemicolon_def split: option.splits)
    from Inr k colon_loop_index [of 0 0 None e k] have "take k e \<noteq> []" by auto
    from missed_at_place [of "rev (take k e)" 0] this show ?thesis
      unfolding k(2) by (auto simp: token_place_def dest: in_set_takeD)
  qed (use c colon_loop_error [of 0 0 None e x err] in \<open>auto simp: checkMissedSemicolon_def\<close>)
qed

lemma decl_value_error:
  assumes "decl_value bef p between custom e = Inl x" "list_all tok_good e"
  shows "error_at e err x"
proof -
  let ?d = "dropWhile is_sc e"
  obtain imp rw e2 where i: "important_loop (length ?d) ?d False None = (imp, rw, e2)" by (metis prod_cases3)
  have d: "list_all tok_good ?d" "set ?d \<subseteq> set e" using assms(2) by (auto simp: list_all_iff dest: set_dropWhileD)
  from assms(1) i have "checkMissedSemicolon e2 = Some x"
    by (auto simp: decl_value_def Let_def split: if_splits option.splits prod.splits)
  from checkMissedSemicolon_error [OF this] important_loop_texts [OF i d(1)] d(2) show ?thesis
    by (blast intro: error_at_mono)
qed

lemma decl_node_error:
  assumes "decl_node ws e custom = Inl x" "list_all tok_good e" "\<exists>t \<in> set e. tk_type t \<noteq> '';''"
  shows "error_at e err x"
proof -
  define e1 where "e1 = (if e \<noteq> [] \<and> tk_type (last e) = '';'' then butlast e else e)"
  have e1: "e1 \<noteq> []" "set e1 \<subseteq> set e"
    using assms(3) by (cases e rule: rev_cases; auto simp: e1_def split: if_splits)+
  have def: "decl_node ws e custom = (case skip_to_word e1 ws of Inl y \<Rightarrow> Inl y
      | Inr (bef, e2) \<Rightarrow> (case to_colon (dropWhile (\<lambda>t. \<not> prop_end t) e2) [] of Inl y \<Rightarrow> Inl y
        | Inr (bt, e3) \<Rightarrow> (case decl_value bef (texts (takeWhile (\<lambda>t. \<not> prop_end t) e2)) bt custom e3 of
            Inl y \<Rightarrow> Inl y | Inr n \<Rightarrow> Inr (n, e \<noteq> [] \<and> tk_type (last e) = '';''))))"
    by (simp only: decl_node_def Let_def e1_def)
  show ?thesis
  proof (cases "skip_to_word e1 ws")
    case (Inl y)
    with assms(1) def skip_to_word_error [OF Inl e1(1)] e1(2) show ?thesis by (auto intro: error_at_mono)
  next
    case (Inr r)
    obtain b e2 where r: "r = (b, e2)" by fastforce
    let ?e2 = "dropWhile (\<lambda>t. \<not> prop_end t) e2"
    have e2: "set ?e2 \<subseteq> set e" using skip_to_word_texts [OF Inr [unfolded r]] e1(2) by (auto dest: set_dropWhileD)
    show ?thesis
    proof (cases "to_colon ?e2 []")
      case (Inl y)
      with assms(1) def Inr r to_colon_error [OF Inl] e2 show ?thesis by (auto intro: error_at_mono)
    next
      case (Inr r2)
      obtain bt e3 where r2: "r2 = (bt, e3)" by fastforce
      have e3: "set e3 \<subseteq> set e" using to_colon_texts [OF Inr [unfolded r2]] e2 by auto
      then have "list_all tok_good e3" using assms(2) by (auto simp: list_all_iff)
      moreover have "decl_value b (texts (takeWhile (\<lambda>t. \<not> prop_end t) e2)) bt custom e3 = Inl x"
        using assms(1) def \<open>skip_to_word e1 ws = Inr r\<close> r Inr r2 by (auto split: sum.splits)
      ultimately show ?thesis using e3 by (blast intro: error_at_mono decl_value_error)
    qed
  qed
qed

section \<open>The main loop\<close>

definition frames_at :: "css_token list \<Rightarrow> parser \<Rightarrow> bool" where
  "frames_at ts st \<longleftrightarrow> ps_frames st \<noteq> [] \<and> (\<forall>f \<in> set (butlast (ps_frames st)). token_place ts (fr_start f))"

lemma frames_at_simps:
  "frames_at ts (add_leaf n b st) = frames_at ts st"
  "frames_at ts (st\<lparr>ps_spaces := ws\<rparr>) = frames_at ts st"
  "frames_at ts (freeSemicolon e st) = frames_at ts st"
  by (auto simp: frames_at_def add_leaf_def push_node_def freeSemicolon_def Let_def split: list.splits option.splits if_splits)

lemma frames_at_open: "frames_at ts st \<Longrightarrow> e \<in> set ts \<Longrightarrow> frames_at ts (open_frame h r e st)"
  by (auto simp: frames_at_def open_frame_def token_place_def)

lemma frames_at_end: "frames_at ts st \<Longrightarrow> end_block e st = Inr st' \<Longrightarrow> frames_at ts st'"
  by (auto simp: frames_at_def end_block_def push_node_def split: list.splits if_splits)

lemma end_block_error: "end_block e st = Inl x \<Longrightarrow> e \<in> set ts \<Longrightarrow> error_at ts err x"
  by (auto simp: end_block_def simp del: error_at.simps split: list.splits intro: error_at_token)

lemma at_scan_error: "at_scan ts err c l = Inl x \<Longrightarrow> error_at us err x"
  by (induction ts err c l rule: at_scan.induct) (auto split: option.splits)

lemma atrule_error:
  assumes "atrule e ts err st = Inl x"
  shows "error_at (e # ts) err x"
proof (cases "at_scan ts err [] []")
  case (Inl y)
  with assms at_scan_error [OF Inl, of "e # ts"] show ?thesis
    by (auto simp: atrule_def Let_def simp del: error_at.simps split: if_splits intro: error_at_token)
next
  case (Inr r)
  obtain l stop rest where r: "r = (l, stop, rest)" by (metis prod_cases3)
  show ?thesis
  proof (cases stop)
    case (AtClose y)
    with at_scan_split [OF Inr [unfolded r]] have "y \<in> set (e # ts)" by auto
    with assms Inr r AtClose show ?thesis
      by (auto simp: atrule_def Let_def simp del: error_at.simps split: if_splits prod.splits sum.splits intro: error_at_token end_block_error)
  qed (use assms Inr r in \<open>auto simp: atrule_def Let_def simp del: error_at.simps split: if_splits prod.splits intro: error_at_token\<close>)
qed

lemma atrule_frames: "atrule e ts err st = Inr (st', rest) \<Longrightarrow> e \<in> set us \<Longrightarrow> frames_at us st \<Longrightarrow> frames_at us st'"
  by (auto simp: atrule_def Let_def frames_at_simps frames_at_open split: if_splits prod.splits sum.splits at_stop.splits
      dest: frames_at_end [rotated])

lemma other_scan_error: "other_scan custom ts err n s a l = Inl x \<Longrightarrow> error_at us err x"
  by (induction custom ts err n s a l rule: other_scan.induct) (auto split: option.splits other_next.splits)

lemma other_step_open:
  "other_step custom fin c n s a = Go n' s' a' \<Longrightarrow> s' = None \<or> s' = s \<or> s' = Some c"
  by (auto simp: other_step_def Let_def split: if_splits option.splits)

lemma other_scan_open: "other_scan custom ts err n s a l = Inr (stop, Some b, l', rest) \<Longrightarrow> b \<in> set ts \<or> s = Some b"
proof (induction custom ts err n s a l rule: other_scan.induct)
  case (2 custom c ts err n s a l)
  then show ?case
    by (cases "other_step custom (ts = [] \<and> err = None) c n s a") (auto dest: other_step_open)
qed (auto split: option.splits if_splits)

lemma other_scan_first:
  assumes "other_scan custom (e # ts) err n s a [] = Inr (stop, br, l, rest)" "tk_type e \<noteq> ''}''"
  shows "l \<noteq> []"
proof (cases "other_step custom (ts = [] \<and> err = None) e n s a")
  case (Go n' s' a')
  with assms(1) other_scan_split [of custom ts err n' s' a' "[e]" stop br l rest] show ?thesis by auto
next
  case (Halt x took)
  with assms(2) have "took" by (auto simp: other_step_def Let_def split: if_splits)
  with Halt assms(1) show ?thesis by auto
qed

lemma trimmed_colon:
  assumes "c \<in> set l" "tk_type c = '':''"
  shows "c \<in> set (rev (dropWhile is_sc (rev l)))"
proof -
  have "c \<in> set (rev l)" using assms(1) by simp
  then have "c \<in> set (takeWhile is_sc (rev l)) \<union> set (dropWhile is_sc (rev l))"
    by (metis set_append takeWhile_dropWhile_id)
  moreover have "\<not> is_sc c" using assms(2) by (simp add: is_sc_def)
  ultimately show ?thesis by (auto dest: set_takeWhileD)
qed

lemma other_error:
  assumes "other e ts err st = Inl x" "tk_type e \<noteq> ''}''" "list_all tok_good (e # ts)"
  shows "error_at (e # ts) err x"
proof (cases "other_scan (has_prefix (tk_text e) ''--'') (e # ts) err False None [] []")
  case (Inl y)
  with assms(1) other_scan_error [OF Inl, of "e # ts"] show ?thesis by (simp add: other_def)
next
  case (Inr r)
  define custom where "custom = has_prefix (tk_text e) ''--''"
  obtain stop br l rest where r: "r = (stop, br, l, rest)" by (metis prod_cases4)
  note sc = Inr [unfolded r, folded custom_def]
  from other_scan_split [OF sc] have split: "e # ts = l @ rest" and cs: "case stop of ODecl \<Rightarrow> \<exists>c \<in> set l. tk_type c = '':''
      | ORule \<Rightarrow> True | OStop t n \<Rightarrow> n \<longrightarrow> (\<exists>c \<in> set l. tk_type c = '':'')"
    by (auto split: other_stop.splits)
  have decl: "decl_node (ps_spaces st) l' custom = Inl x \<Longrightarrow> set l' \<subseteq> set l \<Longrightarrow> c \<in> set l' \<Longrightarrow> tk_type c = '':'' \<Longrightarrow> ?thesis" for l' c
  proof -
    assume d: "decl_node (ps_spaces st) l' custom = Inl x" and s: "set l' \<subseteq> set l" and c: "c \<in> set l'" "tk_type c = '':''"
    have "set l \<subseteq> set (e # ts)" unfolding split by simp
    with s have l': "set l' \<subseteq> set (e # ts)" by blast
    then have "list_all tok_good l'" using assms(3) by (auto simp: list_all_iff)
    moreover have "\<exists>t \<in> set l'. tk_type t \<noteq> '';''" using c by (intro bexI [of _ c]) simp_all
    ultimately show ?thesis using decl_node_error [OF d] l' by (blast intro: error_at_mono)
  qed
  show ?thesis
  proof (cases stop)
    case ODecl
    with assms(1) sc have "decl_node (ps_spaces st) l custom = Inl x"
      by (auto simp: other_def custom_def parse_decl_def split: sum.splits)
    with cs ODecl decl show ?thesis by auto
  next
    case ORule
    with assms(1) sc show ?thesis by (simp add: other_def custom_def)
  next
    case (OStop t n)
    show ?thesis
    proof (cases br)
      case (Some b)
      with OStop assms(1) sc have "x = Syntax ''Unclosed bracket'' (tk_start b)" by (simp add: other_def custom_def)
      with other_scan_open [OF sc [unfolded Some]] show ?thesis by (auto simp: token_place_def)
    next
      case None
      show ?thesis
      proof (cases "t \<and> n")
        case True
        define l' where "l' = (if custom then l else rev (dropWhile is_sc (rev l)))"
        have "decl_node (ps_spaces st) l' custom = Inl x"
          using OStop None True assms(1) sc by (auto simp: other_def custom_def parse_decl_def l'_def Let_def split: sum.splits)
        moreover have "set l' \<subseteq> set l" by (auto simp: l'_def dest: set_dropWhileD)
        moreover obtain c where c: "c \<in> set l" "tk_type c = '':''" using cs OStop True by auto
        moreover have "c \<in> set l'" using trimmed_colon [OF c] c(1) by (cases custom) (simp_all add: l'_def)
        ultimately show ?thesis using decl by blast
      next
        case False
        from other_scan_first [OF sc assms(2)] obtain t us where l: "l = t # us" by (cases l) auto
        with OStop None False assms(1) sc have "x = unknownWord t" by (auto simp: other_def Let_def custom_def simp del: other_scan.simps)
        with l split show ?thesis using unknownWord_at [of t "e # ts"] by auto
      qed
    qed
  qed
qed

lemma other_frames:
  assumes "other e ts err st = Inr (st', rest)" "set (e # ts) \<subseteq> set us" "frames_at us st"
  shows "frames_at us st'"
  using assms(1)
proof (cases rule: other_cases)
  case (Rule_open l)
  then have "hd l \<in> set us" using assms(2) by (cases l) auto
  with Rule_open assms(3) show ?thesis by (auto simp: parse_rule_def Let_def split: prod.splits intro: frames_at_open)
qed (use assms(3) in \<open>auto simp: parse_decl_def frames_at_simps split: sum.splits\<close>)

lemma parse_token_error:
  "parse_token e ts err st = Inl x \<Longrightarrow> list_all tok_good (e # ts) \<Longrightarrow> error_at (e # ts) err x"
  using end_block_error [of e st x "e # ts" err] atrule_error [of e ts err st x] other_error [of e ts err st x]
  by (auto simp: parse_token_def Let_def simp del: error_at.simps split: if_splits sum.splits)

lemma parse_token_frames:
  assumes "parse_token e ts err st = Inr (st', rest)" "set (e # ts) \<subseteq> set us" "frames_at us st"
  shows "frames_at us st'"
  using assms atrule_frames [of e ts err st st' rest us] other_frames [of e ts err st st' rest us]
  by (auto simp: parse_token_def Let_def frames_at_simps emptyRule_def parse_comment_def frames_at_open
      split: if_splits sum.splits dest: frames_at_end)

lemma parse_loop_error:
  "set ts \<subseteq> set us \<Longrightarrow> list_all tok_good ts \<Longrightarrow> parse_inv st ts \<Longrightarrow> frames_at us st \<Longrightarrow>
     (case parse_loop ts err st of Inl x \<Rightarrow> error_at us err x | Inr st' \<Rightarrow> frames_at us st')"
proof (induction ts err st rule: parse_loop.induct)
  case (2 e ts err st)
  show ?case
  proof (cases "parse_token e ts err st")
    case (Inl x)
    from error_at_mono [OF parse_token_error [OF Inl 2(3)] 2(2)] Inl show ?thesis by simp
  next
    case (Inr r)
    obtain st1 rest where r: "r = (st1, rest)" by fastforce
    from parse_token_keeps [OF Inr [unfolded r] 2(4,3)] have k: "parse_inv st1 rest" "set rest \<subseteq> set (e # ts)" by auto
    then have "set rest \<subseteq> set us" "list_all tok_good rest" using 2(2,3) by (auto simp: list_all_iff)
    from 2(1) [OF Inr r [symmetric] this k(1) parse_token_frames [OF Inr [unfolded r] 2(2,5)]] Inr r show ?thesis by simp
  qed
qed (auto split: option.splits)

text \<open>
  C22. Whatever text is given, the parser either builds a tree or fails with an error of the
  tokenizer or with a syntax error reported at a token of the text; it never fails for want of a token.
\<close>

theorem parse_errors_located:
  "case css_parse s of
     Inr n \<Rightarrow> fd_err (tokens_of s) = None
   | Inl x \<Rightarrow> error_at (fd_toks (tokens_of s)) (fd_err (tokens_of s)) x"
proof -
  let ?ts = "fd_toks (tokens_of s)" and ?err = "fd_err (tokens_of s)"
  have inv: "parse_inv new_parser ?ts" by (rule new_parser_inv)
  have "frames_at ?ts new_parser" by (simp add: frames_at_def new_parser_def)
  with parse_loop_error [OF order_refl tokens_of_ok(1) inv, of ?err]
  have loop: "case parse_loop ?ts ?err new_parser of Inl x \<Rightarrow> error_at ?ts ?err x | Inr st \<Rightarrow> frames_at ?ts st" by blast
  show ?thesis
  proof (cases "parse_loop ?ts ?err new_parser")
    case (Inl x)
    with loop show ?thesis by (simp add: css_parse_def)
  next
    case (Inr st)
    with loop have f: "frames_at ?ts st" by simp
    from parse_loop_keeps [OF Inr inv tokens_of_ok(1)] have "?err = None" by simp
    with Inr f show ?thesis
      by (cases "ps_frames st") (auto simp: css_parse_def endFile_def frames_at_def split: list.splits if_splits)
  qed
qed

text \<open>The position is missing when the last token before the end of a declaration is white space.\<close>

lemma unplaced_error: "css_parse ''a{: ;}'' = Inl (Syntax ''Unknown word'' None)"
  by code_simp

end
