(* ===== verification/Css_Tree.thy ===== *)
theory Css_Tree
  imports Js_Text
begin

text \<open>
  The tree of CSS nodes as objects that refer to each other (classes \<open>mn\<close>, \<open>Fe\<close>, \<open>Jr\<close> and \<open>Ht\<close> of \<^verbatim>\<open>tailwind.js\<close>:
  \<^verbatim>\<open>Node\<close>, \<^verbatim>\<open>Container\<close>, \<^verbatim>\<open>AtRule\<close> and \<^verbatim>\<open>Root\<close> of PostCSS).  A store maps references to objects with their
  children, parent, running iterators and the \<^verbatim>\<open>raws.before\<close> text that moving nodes rewrites; node
  content, clean flags and documents are left out.  Methods are called on the nodes themselves, not on
  proxies.  \<open>None\<close> is a \<^verbatim>\<open>TypeError\<close>; the store that a call leaves behind when it throws in the
  middle of its work (\<^verbatim>\<open>append\<close> with several arguments keeps what it appended before) is not modelled, so the
  theorems speak of operations that return.
\<close>

section \<open>Objects\<close>

type_synonym nref = nat

datatype tkind = TRoot | TAtRule | TRule | TDecl | TComment

record tnode =
  tn_kind :: tkind
  tn_nodes :: "nref list option"
  tn_parent :: "nref option"
  tn_before :: "string option" \<comment> \<open>\<^verbatim>\<open>raws.before\<close>\<close>
  tn_lastEach :: nat
  tn_indexes :: "(nat, int) gomap"

type_synonym tree_heap = "nref \<Rightarrow> tnode"

definition kids :: "tree_heap \<Rightarrow> nref \<Rightarrow> nref list" where
  "kids h p = (case tn_nodes (h p) of Some ns \<Rightarrow> ns | None \<Rightarrow> [])"

definition set_nodes :: "nref \<Rightarrow> nref list \<Rightarrow> tree_heap \<Rightarrow> tree_heap" where
  "set_nodes p ns h = h(p := (h p)\<lparr>tn_nodes := Some ns\<rparr>)"

definition set_parent :: "nref \<Rightarrow> nref option \<Rightarrow> tree_heap \<Rightarrow> tree_heap" where
  "set_parent n q h = h(n := (h n)\<lparr>tn_parent := q\<rparr>)"

definition set_before :: "nref \<Rightarrow> string option \<Rightarrow> tree_heap \<Rightarrow> tree_heap" where
  "set_before n b h = h(n := (h n)\<lparr>tn_before := b\<rparr>)"

text \<open>Every running iterator of \<open>p\<close> is moved.\<close>

definition move_indexes :: "nref \<Rightarrow> (int \<Rightarrow> int) \<Rightarrow> tree_heap \<Rightarrow> tree_heap" where
  "move_indexes p f h = h(p := (h p)\<lparr>tn_indexes := gmap (\<lambda>_. f) (tn_indexes (h p))\<rparr>)"

section \<open>Arrays\<close>

definition js_at :: "'a list \<Rightarrow> int \<Rightarrow> 'a option" where
  "js_at xs i = (if 0 \<le> i \<and> i < int (length xs) then Some (xs ! nat i) else None)"

definition js_start :: "int \<Rightarrow> nat \<Rightarrow> nat" where
  "js_start i n = (if i < 0 then nat (int n + i) else min (nat i) n)"

definition splice_in :: "int \<Rightarrow> 'a \<Rightarrow> 'a list \<Rightarrow> 'a list" where
  "splice_in i x xs = (let k = js_start i (length xs) in take k xs @ x # drop k xs)"

definition splice_out :: "int \<Rightarrow> 'a list \<Rightarrow> 'a list" where
  "splice_out i xs = (let k = js_start i (length xs) in take k xs @ drop (Suc k) xs)"

fun index_of :: "'a list \<Rightarrow> 'a \<Rightarrow> int" where
  "index_of [] x = - 1"
| "index_of (y # ys) x = (if x = y then 0 else let i = index_of ys x in if i < 0 then i else i + 1)"

section \<open>Removing\<close>

text \<open>A child is named by its position or by the node.\<close>

datatype place = Ix int | Ref nref

fun index_at :: "tree_heap \<Rightarrow> nref \<Rightarrow> place \<Rightarrow> int" where
  "index_at h p (Ix i) = i"
| "index_at h p (Ref n) = index_of (kids h p) n"

definition container_remove :: "nref \<Rightarrow> int \<Rightarrow> tree_heap \<Rightarrow> tree_heap option" where
  "container_remove p e h =
     (case js_at (kids h p) e of
        None \<Rightarrow> None
      | Some c \<Rightarrow>
          let h1 = set_parent c None h;
              h2 = set_nodes p (splice_out e (kids h1 p)) h1
          in Some (move_indexes p (\<lambda>t. if t \<ge> e then t - 1 else t) h2))"

text \<open>A root gives the text before its first child to the second, unless told to \<open>ignore\<close>.\<close>

definition removeChild :: "nref \<Rightarrow> place \<Rightarrow> bool \<Rightarrow> tree_heap \<Rightarrow> tree_heap option" where
  "removeChild p pl ignore h =
     (let i = index_at h p pl;
          h1 = (if tn_kind (h p) = TRoot \<and> \<not> ignore \<and> i = 0 \<and> length (kids h p) > 1
                then set_before (kids h p ! 1) (tn_before (h (kids h p ! 0))) h else h)
      in container_remove p i h1)"

definition remove :: "nref \<Rightarrow> tree_heap \<Rightarrow> tree_heap option" where
  "remove n h =
     (case tn_parent (h n) of
        None \<Rightarrow> Some h
      | Some p \<Rightarrow> Option.bind (removeChild p (Ref n) False h) (\<lambda>h1. Some (set_parent n None h1)))"

definition removeAll :: "nref \<Rightarrow> tree_heap \<Rightarrow> tree_heap option" where
  "removeAll p h =
     (case tn_nodes (h p) of
        None \<Rightarrow> None
      | Some ns \<Rightarrow> Some (set_nodes p [] (fold (\<lambda>n. set_parent n None) ns h)))"

section \<open>Normalizing the arguments of insertions\<close>

text \<open>What a caller inserts: nothing, the nodes of a parsed text, an array of nodes, or a node.\<close>

datatype new_nodes = Undefined | Parsed "nref list" | Nodes "nref list" | Node nref

fun detach_all :: "nref list \<Rightarrow> tree_heap \<Rightarrow> tree_heap option" where
  "detach_all [] h = Some h"
| "detach_all (n # ns) h =
     (case tn_parent (h n) of
        None \<Rightarrow> detach_all ns h
      | Some q \<Rightarrow> Option.bind (removeChild q (Ref n) True h) (detach_all ns))"

definition default_before :: "nref \<Rightarrow> nref option \<Rightarrow> tree_heap \<Rightarrow> string option" where
  "default_before n sample h =
     (case tn_before (h n) of
        Some b \<Rightarrow> Some b
      | None \<Rightarrow> (case sample of None \<Rightarrow> None | Some t \<Rightarrow> map_option (filter js_space) (tn_before (h t))))"

definition adopt :: "nref \<Rightarrow> nref option \<Rightarrow> nref \<Rightarrow> tree_heap \<Rightarrow> tree_heap option" where
  "adopt p sample n h =
     Option.bind (case tn_parent (h n) of None \<Rightarrow> Some h | Some q \<Rightarrow> removeChild q (Ref n) False h)
       (\<lambda>h1. Some (set_parent n (Some p) (set_before n (default_before n sample h1) h1)))"

fun adopt_all :: "nref \<Rightarrow> nref option \<Rightarrow> nref list \<Rightarrow> tree_heap \<Rightarrow> tree_heap option" where
  "adopt_all p sample [] h = Some h"
| "adopt_all p sample (n # ns) h = Option.bind (adopt p sample n h) (adopt_all p sample ns)"

definition new_list :: "new_nodes \<Rightarrow> tree_heap \<Rightarrow> nref list" where
  "new_list a h =
     (case a of Undefined \<Rightarrow> [] | Parsed ns \<Rightarrow> ns | Nodes ns \<Rightarrow> ns
      | Node n \<Rightarrow> if tn_kind (h n) = TRoot then kids h n else [n])"

definition detaching :: "new_nodes \<Rightarrow> tree_heap \<Rightarrow> bool" where
  "detaching a h = (case a of Nodes ns \<Rightarrow> True | Node n \<Rightarrow> tn_kind (h n) = TRoot | _ \<Rightarrow> False)"

definition container_normalize :: "nref \<Rightarrow> new_nodes \<Rightarrow> nref option \<Rightarrow> tree_heap \<Rightarrow> tree_heap option" where
  "container_normalize p a sample h =
     Option.bind (if detaching a h then detach_all (new_list a h) h else Some h) (adopt_all p sample (new_list a h))"

text \<open>A root copies the text before a neighbour to the new nodes, or from the second child to the first.\<close>

definition root_raws :: "nref \<Rightarrow> nref option \<Rightarrow> bool \<Rightarrow> nref list \<Rightarrow> tree_heap \<Rightarrow> tree_heap" where
  "root_raws p sample prepending ns h =
     (case sample of
        None \<Rightarrow> h
      | Some t \<Rightarrow>
          if prepending
          then set_before t (if length (kids h p) > 1 then tn_before (h (kids h p ! 1)) else None) h
          else if js_at (kids h p) 0 \<noteq> Some t then fold (\<lambda>s h. set_before s (tn_before (h t)) h) ns h
          else h)"

definition normalize :: "nref \<Rightarrow> new_nodes \<Rightarrow> nref option \<Rightarrow> bool \<Rightarrow> tree_heap \<Rightarrow> (nref list \<times> tree_heap) option" where
  "normalize p a sample prepending h =
     (let ns = new_list a h in
      if tn_kind (h p) = TRoot
      then Option.bind (container_normalize p a None h) (\<lambda>h1. Some (ns, root_raws p sample prepending ns h1))
      else Option.bind (container_normalize p a sample h) (\<lambda>h1. Some (ns, h1)))"

section \<open>Inserting\<close>

text \<open>An at-rule without a block gets one.\<close>

definition open_block :: "nref \<Rightarrow> tree_heap \<Rightarrow> tree_heap" where
  "open_block p h = (if tn_kind (h p) = TAtRule \<and> tn_nodes (h p) = None then set_nodes p [] h else h)"

definition last_child :: "tree_heap \<Rightarrow> nref \<Rightarrow> nref option" where
  "last_child h p = js_at (kids h p) (int (length (kids h p)) - 1)"

definition first_child :: "tree_heap \<Rightarrow> nref \<Rightarrow> nref option" where
  "first_child h p = js_at (kids h p) 0"

definition append_one :: "nref \<Rightarrow> new_nodes \<Rightarrow> tree_heap \<Rightarrow> tree_heap option" where
  "append_one p a h =
     Option.bind (normalize p a (last_child h p) False h)
       (\<lambda>(ns, h1). if tn_nodes (h1 p) = None \<and> ns \<noteq> [] then None else Some (if ns = [] then h1 else set_nodes p (kids h1 p @ ns) h1))"

fun append_loop :: "nref \<Rightarrow> new_nodes list \<Rightarrow> tree_heap \<Rightarrow> tree_heap option" where
  "append_loop p [] h = Some h"
| "append_loop p (a # as) h = Option.bind (append_one p a h) (append_loop p as)"

definition append :: "nref \<Rightarrow> new_nodes list \<Rightarrow> tree_heap \<Rightarrow> tree_heap option" where
  "append p as h = append_loop p as (open_block p h)"

definition prepend_one :: "nref \<Rightarrow> new_nodes \<Rightarrow> tree_heap \<Rightarrow> tree_heap option" where
  "prepend_one p a h =
     Option.bind (normalize p a (first_child h p) True h)
       (\<lambda>(ns, h1). if tn_nodes (h1 p) = None \<and> ns \<noteq> [] then None
         else Some (move_indexes p (\<lambda>t. t + int (length ns)) (if ns = [] then h1 else set_nodes p (ns @ kids h1 p) h1)))"

fun prepend_loop :: "nref \<Rightarrow> new_nodes list \<Rightarrow> tree_heap \<Rightarrow> tree_heap option" where
  "prepend_loop p [] h = Some h"
| "prepend_loop p (a # as) h = Option.bind (prepend_one p a h) (prepend_loop p as)"

definition prepend :: "nref \<Rightarrow> new_nodes list \<Rightarrow> tree_heap \<Rightarrow> tree_heap option" where
  "prepend p as h = prepend_loop p (rev as) (open_block p h)"

definition insertAfter :: "nref \<Rightarrow> place \<Rightarrow> new_nodes \<Rightarrow> tree_heap \<Rightarrow> tree_heap option" where
  "insertAfter p e a h =
     (if tn_nodes (h p) = None then None
      else Option.bind (normalize p a (js_at (kids h p) (index_at h p e)) False h)
        (\<lambda>(ns, h1). let i = index_at h1 p e in
           Some (move_indexes p (\<lambda>s. if i < s then s + int (length ns) else s)
             (set_nodes p (fold (splice_in (i + 1)) (rev ns) (kids h1 p)) h1))))"

definition insertBefore :: "nref \<Rightarrow> place \<Rightarrow> new_nodes \<Rightarrow> tree_heap \<Rightarrow> tree_heap option" where
  "insertBefore p e a h =
     (if tn_nodes (h p) = None then None
      else let i = index_at h p e in
        Option.bind (normalize p a (js_at (kids h p) i) (i = 0) h)
          (\<lambda>(ns, h1). let i = index_at h1 p e in
             Some (move_indexes p (\<lambda>s. if i \<le> s then s + int (length ns) else s)
               (set_nodes p (fold (splice_in i) (rev ns) (kids h1 p)) h1))))"

text \<open>\<open>replaceWith\<close> for nodes; the node itself may be among them.\<close>

fun replace_loop :: "nref \<Rightarrow> nref \<Rightarrow> bool \<Rightarrow> nref list \<Rightarrow> tree_heap \<Rightarrow> (bool \<times> tree_heap) option" where
  "replace_loop x t found [] h = Some (found, h)"
| "replace_loop x t found (n # ns) h =
     (if n = x then replace_loop x t True ns h
      else case tn_parent (h x) of
        None \<Rightarrow> None
      | Some p \<Rightarrow>
          if found then Option.bind (insertAfter p (Ref t) (Node n) h) (replace_loop x n found ns)
          else Option.bind (insertBefore p (Ref t) (Node n) h) (replace_loop x t found ns))"

definition replaceWith :: "nref \<Rightarrow> nref list \<Rightarrow> tree_heap \<Rightarrow> tree_heap option" where
  "replaceWith x ns h =
     (if tn_parent (h x) = None then Some h
      else Option.bind (replace_loop x x False ns h) (\<lambda>(found, h1). if found then Some h1 else remove x h1))"

section \<open>Iterating\<close>

definition getIterator :: "nref \<Rightarrow> tree_heap \<Rightarrow> nat \<times> tree_heap" where
  "getIterator p h =
     (let e = tn_lastEach (h p) + 1
      in (e, h(p := (h p)\<lparr>tn_lastEach := e, tn_indexes := gput e 0 (tn_indexes (h p))\<rparr>)))"

text \<open>
  A callback gets the child, its index and the store, and its own state; it answers whether it
  returned \<^verbatim>\<open>false\<close>.  The loop need not end, and then has no result.
\<close>

type_synonym 's callback = "nref \<Rightarrow> int \<Rightarrow> tree_heap \<times> 's \<Rightarrow> (bool \<times> tree_heap \<times> 's) option"

partial_function (option) each_loop :: "'s callback \<Rightarrow> nref \<Rightarrow> nat \<Rightarrow> tree_heap \<times> 's \<Rightarrow> (bool \<times> tree_heap \<times> 's) option" where
  "each_loop cb p t st =
     (case gget (tn_indexes (fst st p)) t of
        None \<Rightarrow> Some (False, st)
      | Some i \<Rightarrow>
          if i < int (length (kids (fst st) p))
          then Option.bind (js_at (kids (fst st) p) i)
            (\<lambda>n. Option.bind (cb n i st)
              (\<lambda>r. if fst r then Some r
                   else each_loop cb p t
                     ((fst (snd r))(p := (fst (snd r) p)\<lparr>tn_indexes :=
                        gmap (\<lambda>k a. if k = t then a + 1 else a) (tn_indexes (fst (snd r) p))\<rparr>), snd (snd r))))
          else Some (False, st))"

definition each :: "'s callback \<Rightarrow> nref \<Rightarrow> tree_heap \<times> 's \<Rightarrow> (bool \<times> tree_heap \<times> 's) option" where
  "each cb p st =
     (if tn_nodes (fst st p) = None then Some (False, st)
      else case getIterator p (fst st) of
        (t, h) \<Rightarrow> map_option (\<lambda>(r, h1, s). (r, h1(p := (h1 p)\<lparr>tn_indexes := gdel t (tn_indexes (h1 p))\<rparr>), s))
          (each_loop cb p t (h, snd st)))"

section \<open>Neighbours\<close>

definition push :: "nref \<Rightarrow> nref \<Rightarrow> tree_heap \<Rightarrow> tree_heap option" where
  "push p n h =
     (let h1 = set_parent n (Some p) h in
      case tn_nodes (h1 p) of None \<Rightarrow> None | Some ns \<Rightarrow> Some (set_nodes p (ns @ [n]) h1))"

definition next_node :: "tree_heap \<Rightarrow> nref \<Rightarrow> nref option" where
  "next_node h n = Option.bind (tn_parent (h n)) (\<lambda>p. js_at (kids h p) (index_of (kids h p) n + 1))"

definition prev_node :: "tree_heap \<Rightarrow> nref \<Rightarrow> nref option" where
  "prev_node h n = Option.bind (tn_parent (h n)) (\<lambda>p. js_at (kids h p) (index_of (kids h p) n - 1))"

definition after :: "nref \<Rightarrow> new_nodes \<Rightarrow> tree_heap \<Rightarrow> tree_heap option" where
  "after n a h = Option.bind (tn_parent (h n)) (\<lambda>p. insertAfter p (Ref n) a h)"

definition node_before :: "nref \<Rightarrow> new_nodes \<Rightarrow> tree_heap \<Rightarrow> tree_heap option" where
  "node_before n a h = Option.bind (tn_parent (h n)) (\<lambda>p. insertBefore p (Ref n) a h)"

end
