(* ===== verification/Css_Tree_Laws.thy ===== *)
theory Css_Tree_Laws
  imports Css_Tree
begin

text \<open>
  What the operations of \<open>Css_Tree\<close> do to lists of children and to running iterators.  An iterator splits
  the children into those it is done with (up to the current one) and those still to come; every
  operation moves that split as if it acted on the two lists.
\<close>

section \<open>The setters\<close>

lemma kids_set [simp]:
  "kids (set_parent n q h) r = kids h r" "kids (set_before n b h) r = kids h r" "kids (move_indexes p f h) r = kids h r"
  "kids (set_nodes p ns h) r = (if r = p then ns else kids h r)"
  by (simp_all add: kids_def set_parent_def set_before_def move_indexes_def set_nodes_def)

lemma fields_set [simp]:
  "tn_parent (set_parent n q h m) = (if m = n then q else tn_parent (h m))"
  "tn_parent (set_before n b h m) = tn_parent (h m)" "tn_parent (move_indexes p f h m) = tn_parent (h m)"
  "tn_parent (set_nodes p ns h m) = tn_parent (h m)"
  "tn_kind (set_parent n q h m) = tn_kind (h m)" "tn_kind (set_before n b h m) = tn_kind (h m)"
  "tn_kind (move_indexes p f h m) = tn_kind (h m)" "tn_kind (set_nodes p ns h m) = tn_kind (h m)"
  "tn_nodes (set_parent n q h m) = tn_nodes (h m)" "tn_nodes (set_before n b h m) = tn_nodes (h m)"
  "tn_nodes (move_indexes p f h m) = tn_nodes (h m)" "tn_nodes (set_nodes p ns h m) = (if m = p then Some ns else tn_nodes (h m))"
  "tn_indexes (set_parent n q h m) = tn_indexes (h m)" "tn_indexes (set_before n b h m) = tn_indexes (h m)"
  "tn_indexes (set_nodes p ns h m) = tn_indexes (h m)"
  by (simp_all add: set_parent_def set_before_def move_indexes_def set_nodes_def)

lemma indexes_move [simp]:
  "gget (tn_indexes (move_indexes p f h q)) t = (if q = p then map_option f (gget (tn_indexes (h q)) t) else gget (tn_indexes (h q)) t)"
  by (simp add: move_indexes_def gget_gmap)

section \<open>Positions in lists\<close>

lemma index_of_notin: "x \<notin> set xs \<Longrightarrow> index_of xs x = - 1"
  by (induction xs) (auto simp: Let_def)

lemma index_of_split: "x \<notin> set u \<Longrightarrow> index_of (u @ x # v) x = int (length u)"
  by (induction u) (auto simp: Let_def)

lemma js_at_index: "js_at xs (index_of xs x) = (if x \<in> set xs then Some x else None)"
proof (cases "x \<in> set xs")
  case True
  then obtain u v where "xs = u @ x # v" "x \<notin> set u" by (meson split_list_first)
  then show ?thesis by (simp add: index_of_split js_at_def)
qed (simp add: index_of_notin js_at_def)

lemma splice_out_split: "splice_out (int (length u)) (u @ x # v) = u @ v"
  by (simp add: splice_out_def js_start_def Let_def)

lemma splice_in_split: "splice_in (int (length u)) x (u @ v) = u @ x # v"
  by (simp add: splice_in_def js_start_def Let_def)

lemma splice_fold: "fold (splice_in (int (length u))) (rev ns) (u @ v) = u @ ns @ v"
proof (induction ns)
  case (Cons n ns)
  have "fold (splice_in (int (length u))) (rev (n # ns)) (u @ v) = splice_in (int (length u)) n (u @ ns @ v)" using Cons by simp
  then show ?case by (simp add: splice_in_split)
qed simp

section \<open>Iterators as a split of the children\<close>

definition cursor :: "tree_heap \<Rightarrow> nref \<Rightarrow> nat \<Rightarrow> (nref list \<times> nref list) option" where
  "cursor h p t = map_option (\<lambda>a. (take (nat (a + 1)) (kids h p), drop (nat (a + 1)) (kids h p))) (gget (tn_indexes (h p)) t)"

definition without :: "nref set \<Rightarrow> nref list \<times> nref list \<Rightarrow> nref list \<times> nref list" where
  "without A s = (filter (\<lambda>n. n \<notin> A) (fst s), filter (\<lambda>n. n \<notin> A) (snd s))"

text \<open>The index lies in the list or just before it.\<close>

definition in_bounds :: "tree_heap \<Rightarrow> nref \<Rightarrow> nat \<Rightarrow> bool" where
  "in_bounds h p t \<longleftrightarrow> (\<forall>a. gget (tn_indexes (h p)) t = Some a \<longrightarrow> - 1 \<le> a \<and> a < int (length (kids h p)))"

lemma cursor_set [simp]:
  "cursor (set_parent n q h) r t = cursor h r t" "cursor (set_before n b h) r t = cursor h r t"
  "in_bounds (set_parent n q h) r t = in_bounds h r t" "in_bounds (set_before n b h) r t = in_bounds h r t"
  by (simp_all add: cursor_def in_bounds_def)

lemma without_simps [simp]: "without {} s = s" "without A (without B s) = without (A \<union> B) s"
  by (auto simp: without_def intro!: filter_cong)

lemma remove_split:
  assumes "distinct (u @ x # v)"
  shows "(take (nat ((if a \<ge> int (length u) then a - 1 else a) + 1)) (u @ v), drop (nat ((if a \<ge> int (length u) then a - 1 else a) + 1)) (u @ v)) =
    without {x} (take (nat (a + 1)) (u @ x # v), drop (nat (a + 1)) (u @ x # v))"
proof (cases "a \<ge> int (length u)")
  case True
  then obtain j where j: "a = int (length u + j)" using zle_iff_zadd [of "int (length u)" a] by auto
  have n: "nat (a + 1) = Suc (length u + j)" "nat (a - 1 + 1) = length u + j" using j by simp_all
  have "filter (\<lambda>n. n \<notin> {x}) u = u" "filter (\<lambda>n. n \<notin> {x}) (take j v) = take j v" "filter (\<lambda>n. n \<notin> {x}) (drop j v) = drop j v"
    using assms by (auto simp: filter_id_conv dest: in_set_takeD in_set_dropD)
  moreover have "nat a = length u + j" using j by simp
  ultimately show ?thesis unfolding n using True by (simp add: without_def n)
next
  case False
  define k where "k = nat (a + 1)"
  have k: "k \<le> length u" using False by (simp add: k_def)
  have "filter (\<lambda>n. n \<notin> {x}) (take k u) = take k u" "filter (\<lambda>n. n \<notin> {x}) (drop k u) = drop k u" "filter (\<lambda>n. n \<notin> {x}) v = v"
    using assms by (auto simp: filter_id_conv dest: in_set_takeD in_set_dropD)
  moreover have "(if a \<ge> int (length u) then a - 1 else a) = a" using False by simp
  ultimately show ?thesis using k by (simp add: without_def flip: k_def)
qed

section \<open>Removing\<close>

text \<open>From \<open>h\<close> to \<open>h1\<close> the nodes \<open>A\<close> have left their lists, and nothing else has changed but texts.\<close>

definition removes :: "nref set \<Rightarrow> tree_heap \<Rightarrow> tree_heap \<Rightarrow> bool" where
  "removes A h h1 \<longleftrightarrow>
     (\<forall>q. kids h1 q = filter (\<lambda>n. n \<notin> A) (kids h q)) \<and>
     (\<forall>q t. cursor h1 q t = map_option (without A) (cursor h q t)) \<and>
     (\<forall>q t. in_bounds h q t \<longrightarrow> in_bounds h1 q t) \<and>
     (\<forall>q. tn_kind (h1 q) = tn_kind (h q) \<and> (tn_nodes (h1 q) = None \<longleftrightarrow> tn_nodes (h q) = None)) \<and>
     (\<forall>m. m \<notin> A \<longrightarrow> tn_parent (h1 m) = tn_parent (h m))"

lemma removes_refl [simp]: "removes {} h h"
proof -
  have "without {} = id" by (rule ext) simp
  then have "map_option (without {}) = id" by (simp only: option.map_id0)
  then show ?thesis by (simp add: removes_def)
qed

lemma removes_trans: "removes A h h1 \<Longrightarrow> removes B h1 h2 \<Longrightarrow> removes (A \<union> B) h h2"
  unfolding removes_def
  by (auto simp: option.map_comp comp_def Un_commute intro!: filter_cong)

text \<open>A parent lists each of its children once; only the nodes \<open>A\<close> wait for \<open>p\<close> to list them.\<close>

definition linked :: "nref set \<Rightarrow> nref \<Rightarrow> tree_heap \<Rightarrow> bool" where
  "linked A p h \<longleftrightarrow>
     (\<forall>q. distinct (kids h q)) \<and>
     (\<forall>q n. tn_parent (h n) = Some q \<longleftrightarrow> n \<in> set (kids h q) \<or> q = p \<and> n \<in> A) \<and>
     (\<forall>q. \<forall>n \<in> A. n \<notin> set (kids h q))"

definition tree_ok :: "tree_heap \<Rightarrow> bool" where
  "tree_ok h \<longleftrightarrow> (\<forall>q. distinct (kids h q)) \<and> (\<forall>q n. tn_parent (h n) = Some q \<longleftrightarrow> n \<in> set (kids h q))"

lemma linked_empty: "linked {} p h \<longleftrightarrow> tree_ok h"
  by (simp add: linked_def tree_ok_def)

lemma container_remove_effect:
  assumes "container_remove q (index_of (kids h q) n) h = Some h1" "distinct (kids h q)"
  shows "n \<in> set (kids h q)"
    "kids h1 r = (if r = q then filter (\<lambda>m. m \<notin> {n}) (kids h q) else kids h r)"
    "cursor h1 r t = (if r = q then map_option (without {n}) (cursor h q t) else cursor h r t)"
    "in_bounds h r t \<Longrightarrow> in_bounds h1 r t"
    "tn_parent (h1 m) = (if m = n then None else tn_parent (h m))"
    "tn_kind (h1 r) = tn_kind (h r)" "tn_nodes (h1 r) = None \<longleftrightarrow> tn_nodes (h r) = None"
proof -
  show n: "n \<in> set (kids h q)" using assms(1) by (auto simp: container_remove_def js_at_index split: if_splits)
  then obtain u v where uv: "kids h q = u @ n # v" "n \<notin> set u" by (meson split_list_first)
  have i: "index_of (kids h q) n = int (length u)" using uv by (simp add: index_of_split)
  let ?f = "\<lambda>t. if t \<ge> int (length u) then t - 1 else t"
  have h1: "h1 = move_indexes q ?f (set_nodes q (u @ v) (set_parent n None h))"
    using assms(1) n 
    unfolding container_remove_def js_at_index by (simp add: Let_def uv(1) splice_out_split index_of_split [OF uv(2)])
  have d: "distinct (u @ n # v)" using assms(2) uv by simp
  have f: "filter (\<lambda>m. m \<notin> {n}) (kids h q) = u @ v" unfolding uv(1) using d
    by (auto simp: filter_id_conv intro!: arg_cong2 [of _ _ _ _ "(@)"])
  show "kids h1 r = (if r = q then filter (\<lambda>m. m \<notin> {n}) (kids h q) else kids h r)" unfolding f by (simp add: h1)
  show "tn_parent (h1 m) = (if m = n then None else tn_parent (h m))" "tn_kind (h1 r) = tn_kind (h r)"
    by (simp_all add: h1)
  have "tn_nodes (h q) \<noteq> None" using n by (cases "tn_nodes (h q)") (simp_all add: kids_def)
  then show "tn_nodes (h1 r) = None \<longleftrightarrow> tn_nodes (h r) = None" by (simp add: h1)
  show "cursor h1 r t = (if r = q then map_option (without {n}) (cursor h q t) else cursor h r t)"
  proof (cases "r = q")
    case True
    show ?thesis
    proof (cases "gget (tn_indexes (h q)) t")
      case (Some a)
      have "cursor h q t = Some (take (nat (a + 1)) (u @ n # v), drop (nat (a + 1)) (u @ n # v))"
        unfolding cursor_def Some uv(1) by simp
      moreover have "cursor h1 q t = Some (take (nat (?f a + 1)) (u @ v), drop (nat (?f a + 1)) (u @ v))"
        unfolding cursor_def by (simp add: h1 Some)
      ultimately show ?thesis using remove_split [OF d, of a] True by simp
    qed (simp add: True cursor_def h1)
  qed (simp add: cursor_def h1)
  show "in_bounds h1 r t" if b: "in_bounds h r t"
  proof (cases "r = q")
    case True
    with b show ?thesis unfolding in_bounds_def uv(1) h1 by (auto simp: uv(1) split: option.splits)
  next
    case False
    with b show ?thesis by (simp add: in_bounds_def h1)
  qed
qed

lemma removeChild_effect:
  assumes "removeChild q (Ref n) ig h = Some h1" "linked A p h"
  shows "n \<in> set (kids h q)" "removes {n} h h1" "tn_parent (h1 n) = None"
proof -
  obtain h0 where h0: "container_remove q (index_of (kids h q) n) h0 = Some h1"
    "h0 = h \<or> (\<exists>m b. h0 = set_before m b h)"
    using assms(1) unfolding removeChild_def Let_def index_at.simps by (rule that) (auto split: if_splits)
  then have same: "kids h0 r = kids h r" "cursor h0 r t = cursor h r t" "in_bounds h0 r t = in_bounds h r t" "tn_parent (h0 m) = tn_parent (h m)"
    "tn_kind (h0 r) = tn_kind (h r)" "tn_nodes (h0 r) = tn_nodes (h r)" for r t m
    by auto
  have d: "distinct (kids h0 q)" using assms(2) by (simp add: same linked_def)
  note e = container_remove_effect [OF h0(1) [folded same(1)] d, unfolded same]
  show n: "n \<in> set (kids h q)" by (rule e(1))
  show "tn_parent (h1 n) = None" by (simp add: e(5))
  have other: "n \<notin> set (kids h r)" if "r \<noteq> q" for r
    using n that assms(2) unfolding linked_def by (metis option.inject)
  have "kids h1 r = filter (\<lambda>m. m \<notin> {n}) (kids h r)" for r
  proof (cases "r = q")
    case False
    then have "filter (\<lambda>m. m \<notin> {n}) (kids h r) = kids h r" using other [of r] by (auto simp: filter_id_conv)
    then show ?thesis using False by (simp add: e(2))
  qed (simp add: e(2))
  moreover have "cursor h1 r t = map_option (without {n}) (cursor h r t)" for r t
  proof (cases "r = q")
    case False
    have "without {n} s = s" if "cursor h r t = Some s" for s
      using other [OF False] that by (auto simp: cursor_def without_def filter_id_conv dest: in_set_takeD in_set_dropD)
    then show ?thesis using False by (cases "cursor h r t") (auto simp: e(3))
  qed (simp add: e(3))
  ultimately show "removes {n} h h1" unfolding removes_def using e(4-7) by simp
qed

lemma removes_parent: "removes A h h1 \<Longrightarrow> m \<notin> A \<Longrightarrow> tn_parent (h1 m) = tn_parent (h m)"
  and removes_kids: "removes A h h1 \<Longrightarrow> kids h1 q = filter (\<lambda>n. n \<notin> A) (kids h q)"
  and removes_cursor: "removes A h h1 \<Longrightarrow> cursor h1 q t = map_option (without A) (cursor h q t)"
  and removes_bounds: "removes A h h1 \<Longrightarrow> in_bounds h q t \<Longrightarrow> in_bounds h1 q t"
  and removes_kind: "removes A h h1 \<Longrightarrow> tn_kind (h1 q) = tn_kind (h q)"
  and removes_nodes: "removes A h h1 \<Longrightarrow> tn_nodes (h1 q) = None \<longleftrightarrow> tn_nodes (h q) = None"
  by (simp_all add: removes_def)

lemma removes_absent: "(\<And>q. n \<notin> set (kids h q)) \<Longrightarrow> removes {n} h h"
proof -
  assume n: "\<And>q. n \<notin> set (kids h q)"
  have f: "xs \<subseteq> set (kids h q) \<Longrightarrow> set ys \<subseteq> xs \<Longrightarrow> filter (\<lambda>m. m \<notin> {n}) ys = ys" for xs ys q
    using n [of q] by (auto simp: filter_id_conv)
  have "map_option (without {n}) (cursor h q t) = cursor h q t" for q t
    using f [OF order_refl set_take_subset] f [OF order_refl set_drop_subset]
    by (cases "gget (tn_indexes (h q)) t") (simp_all add: cursor_def without_def)
  with f [OF order_refl order_refl] show ?thesis by (simp add: removes_def)
qed

lemma linked_texts: "linked A p h \<Longrightarrow> removes {} h h1 \<Longrightarrow> linked A p h1"
  by (simp add: linked_def removes_def)

lemma linked_removes:
  assumes "linked A p h" "removes {n} h h1" "tn_parent (h1 n) = None" "n \<notin> A"
  shows "linked A p h1"
proof -
  have "tn_parent (h1 m) = Some q \<longleftrightarrow> m \<in> set (kids h1 q) \<or> q = p \<and> m \<in> A" for m q
    using assms(1,3,4) removes_parent [OF assms(2), of m] unfolding removes_kids [OF assms(2)]
    by (cases "m = n") (auto simp: linked_def)
  then show ?thesis using assms(1) unfolding linked_def removes_kids [OF assms(2)] by auto
qed

lemma linked_no_parent: "linked A p h \<Longrightarrow> tn_parent (h n) = None \<Longrightarrow> n \<notin> set (kids h q) \<and> n \<notin> A"
  unfolding linked_def by (metis option.distinct(1))

lemma removeChild_linked:
  assumes "removeChild q (Ref n) ig h = Some h1" "linked A p h"
  shows "n \<notin> A \<and> linked A p h1"
proof -
  note e = removeChild_effect [OF assms]
  have "n \<notin> A" using e(1) assms(2) by (auto simp: linked_def)
  then show ?thesis using linked_removes [OF assms(2) e(2,3)] by simp
qed

text \<open>Taking a node from its parent, if it has one.\<close>

lemma release_effect:
  assumes "(case tn_parent (h n) of None \<Rightarrow> Some h | Some q \<Rightarrow> removeChild q (Ref n) ig h) = Some h1" "linked A p h"
  shows "n \<notin> A" "removes {n} h h1" "linked A p h1" "tn_parent (h1 n) = None"
proof -
  have "n \<notin> A \<and> removes {n} h h1 \<and> linked A p h1 \<and> tn_parent (h1 n) = None"
  proof (cases "tn_parent (h n)")
    case None
    with assms linked_no_parent [OF assms(2) None] show ?thesis by (auto intro: removes_absent)
  next
    case (Some q)
    with assms(1) have r: "removeChild q (Ref n) ig h = Some h1" by simp
    from removeChild_effect [OF r assms(2)] removeChild_linked [OF r assms(2)] show ?thesis by blast
  qed
  then show "n \<notin> A" "removes {n} h h1" "linked A p h1" "tn_parent (h1 n) = None" by blast+
qed

lemma detach_all_effect:
  "detach_all ns h = Some h1 \<Longrightarrow> linked A p h \<Longrightarrow> removes (set ns) h h1 \<and> linked A p h1 \<and> (\<forall>n \<in> set ns. tn_parent (h1 n) = None)"
proof (induction ns arbitrary: h)
  case (Cons n ns)
  obtain h0 where h0: "(case tn_parent (h n) of None \<Rightarrow> Some h | Some q \<Rightarrow> removeChild q (Ref n) True h) = Some h0" "detach_all ns h0 = Some h1"
    using Cons.prems(1) by (auto split: option.splits bind_splits)
  note r = release_effect [OF h0(1) Cons.prems(2)]
  from Cons.IH [OF h0(2) r(3)] have ih: "removes (set ns) h0 h1" "linked A p h1" "\<forall>n \<in> set ns. tn_parent (h1 n) = None" by auto
  have "removes (set (n # ns)) h h1" using removes_trans [OF r(2) ih(1)] by (simp add: insert_is_Un [of n "set ns", symmetric])
  moreover have "tn_parent (h1 n) = None" using ih(3) removes_parent [OF ih(1), of n] r(4) by auto
  ultimately show ?case using ih by simp
qed simp

lemma adopt_effect:
  assumes "adopt p sample n h = Some h1" "linked A p h"
  shows "n \<notin> A" "removes {n} h h1" "linked (insert n A) p h1"
proof -
  obtain h0 b where h0: "(case tn_parent (h n) of None \<Rightarrow> Some h | Some q \<Rightarrow> removeChild q (Ref n) False h) = Some h0"
      "h1 = set_parent n (Some p) (set_before n b h0)"
    using assms(1) by (auto simp: adopt_def bind_eq_Some_conv)
  note r = release_effect [OF h0(1) assms(2)]
  show "n \<notin> A" by (rule r(1))
  show "removes {n} h h1" using r(2) by (auto simp: removes_def h0(2))
  show "linked (insert n A) p h1" using r(3) linked_no_parent [OF r(3,4)] by (auto simp: linked_def h0(2))
qed

lemma adopt_all_effect:
  "adopt_all p sample ns h = Some h1 \<Longrightarrow> linked A p h \<Longrightarrow>
    distinct ns \<and> set ns \<inter> A = {} \<and> removes (set ns) h h1 \<and> linked (set ns \<union> A) p h1"
proof (induction ns arbitrary: h A)
  case (Cons n ns)
  obtain h0 where h0: "adopt p sample n h = Some h0" "adopt_all p sample ns h0 = Some h1"
    using Cons.prems(1) by (auto simp: bind_eq_Some_conv)
  note a = adopt_effect [OF h0(1) Cons.prems(2)]
  from Cons.IH [OF h0(2) a(3)] have ih: "distinct ns" "set ns \<inter> insert n A = {}" "removes (set ns) h0 h1" "linked (set ns \<union> insert n A) p h1" by auto
  have "removes (set (n # ns)) h h1" using removes_trans [OF a(2) ih(3)] by (simp add: insert_is_Un [of n "set ns", symmetric])
  then show ?case using ih a(1) by auto
qed simp

lemma removes_set_before: "removes A h h1 \<Longrightarrow> removes A h (set_before n b h1)"
  by (simp add: removes_def)

lemma removes_fold_before: "removes A h h1 \<Longrightarrow> removes A h (fold (\<lambda>s h. set_before s (f h) h) ns h1)"
  by (induction ns arbitrary: h1) (simp_all add: removes_set_before)

lemma root_raws_texts: "removes A h h1 \<Longrightarrow> removes A h (root_raws p sample pre ns h1)"
  by (auto simp: root_raws_def intro: removes_set_before removes_fold_before split: option.split)

lemma normalize_effect:
  assumes "normalize p a sample pre h = Some (ns, h1)" "tree_ok h"
  shows "ns = new_list a h" "distinct ns" "removes (set ns) h h1" "linked (set ns) p h1"
proof -
  have l: "linked {} p h" using assms(2) by (simp add: linked_empty)
  obtain smp h2 where h2: "container_normalize p a smp h = Some h2" "ns = new_list a h" "removes {} h2 h1"
    using assms(1) root_raws_texts [OF removes_refl]
    by (auto simp: normalize_def Let_def bind_eq_Some_conv split: if_splits)
  obtain h0 where h0: "(if detaching a h then detach_all ns h else Some h) = Some h0" "adopt_all p smp ns h0 = Some h2"
    using h2(1,2) by (auto simp: container_normalize_def bind_eq_Some_conv)
  have "linked {} p h0 \<and> (removes (set ns) h h0 \<or> h0 = h)"
    using detach_all_effect [OF _ l, of ns h0] h0(1) l by (auto split: if_splits)
  with adopt_all_effect [OF h0(2), of "{}"] have a: "distinct ns" "removes (set ns) h0 h2" "linked (set ns) p h2"
    and r: "removes (set ns) h h0 \<or> h0 = h" by auto
  from r removes_trans [of "set ns" h h0 "set ns" h2] a(2) have "removes (set ns) h h2" by auto
  with removes_trans [OF this h2(3)] show "removes (set ns) h h1" by simp
  show "ns = new_list a h" "distinct ns" "linked (set ns) p h1" using h2(2) a(1) linked_texts [OF a(3) h2(3)] by auto
qed

section \<open>Arguments that are accepted\<close>

lemma removeChild_total: "n \<in> set (kids h q) \<Longrightarrow> \<exists>h1. removeChild q (Ref n) ig h = Some h1"
  using js_at_index [of "kids h q" n] by (auto simp: removeChild_def container_remove_def Let_def)

lemma release_total:
  assumes "linked A p h" "n \<notin> A"
  shows "\<exists>h1. (case tn_parent (h n) of None \<Rightarrow> Some h | Some q \<Rightarrow> removeChild q (Ref n) ig h) = Some h1"
proof (cases "tn_parent (h n)")
  case (Some q)
  then have "n \<in> set (kids h q)" using assms by (simp add: linked_def)
  then show ?thesis using Some removeChild_total by simp
qed simp

lemma detach_all_total: "linked {} p h \<Longrightarrow> \<exists>h1. detach_all ns h = Some h1"
proof (induction ns arbitrary: h)
  case (Cons n ns)
  obtain h0 where h0: "(case tn_parent (h n) of None \<Rightarrow> Some h | Some q \<Rightarrow> removeChild q (Ref n) True h) = Some h0"
    using release_total [OF Cons.prems, of n True] by auto
  from Cons.IH [OF release_effect(3) [OF h0 Cons.prems]] h0 show ?case by (auto split: option.splits)
qed simp

lemma adopt_all_total: "linked A p h \<Longrightarrow> distinct ns \<Longrightarrow> set ns \<inter> A = {} \<Longrightarrow> \<exists>h1. adopt_all p sample ns h = Some h1"
proof (induction ns arbitrary: h A)
  case (Cons n ns)
  obtain h0 where h0: "adopt p sample n h = Some h0"
    using release_total [OF Cons.prems(1), of n False] Cons.prems(3) by (auto simp: adopt_def)
  from Cons.IH [OF adopt_effect(3) [OF h0 Cons.prems(1)]] Cons.prems(2,3) h0 show ?case by auto
qed simp

lemma normalize_total:
  assumes "tree_ok h" "distinct (new_list a h)"
  shows "\<exists>h1. normalize p a sample pre h = Some (new_list a h, h1)"
proof -
  have l: "linked {} p h" using assms(1) by (simp add: linked_empty)
  obtain h0 where h0: "(if detaching a h then detach_all (new_list a h) h else Some h) = Some h0"
    using detach_all_total [OF l, of "new_list a h"] by (cases "detaching a h") auto
  then have "linked {} p h0" using detach_all_effect [OF _ l] l by (auto split: if_splits)
  then have c: "\<exists>h1. container_normalize p a smp h = Some h1" for smp
    using adopt_all_total [of "{}" p h0 "new_list a h" smp] assms(2) h0 by (simp add: container_normalize_def)
  show ?thesis using c [of None] c [of sample] by (auto simp: normalize_def Let_def)
qed

section \<open>Inserting\<close>

definition list_after :: "nref \<Rightarrow> nref list \<Rightarrow> nref list \<Rightarrow> nref list" where
  "list_after x ns xs = concat (map (\<lambda>y. if y = x then y # ns else [y]) xs)"

definition list_before :: "nref \<Rightarrow> nref list \<Rightarrow> nref list \<Rightarrow> nref list" where
  "list_before x ns xs = concat (map (\<lambda>y. if y = x then ns @ [y] else [y]) xs)"

lemma list_after_simps [simp]:
  "list_after x ns [] = []" "list_after x ns (y # ys) = (if y = x then y # ns else [y]) @ list_after x ns ys"
  "list_after x ns (xs @ ys) = list_after x ns xs @ list_after x ns ys"
  by (simp_all add: list_after_def)

lemma list_before_simps [simp]:
  "list_before x ns [] = []" "list_before x ns (y # ys) = (if y = x then ns @ [y] else [y]) @ list_before x ns ys"
  "list_before x ns (xs @ ys) = list_before x ns xs @ list_before x ns ys"
  by (simp_all add: list_before_def)

lemma list_absent: "x \<notin> set xs \<Longrightarrow> list_after x ns xs = xs" "x \<notin> set xs \<Longrightarrow> list_before x ns xs = xs"
  by (induction xs) auto

text \<open>New nodes right behind the current child are still to come; before it they are not visited.\<close>

definition cursor_after :: "nref \<Rightarrow> nref list \<Rightarrow> nref list \<times> nref list \<Rightarrow> nref list \<times> nref list" where
  "cursor_after x ns s =
     (if fst s \<noteq> [] \<and> List.last (fst s) = x then (fst s, ns @ snd s) else (list_after x ns (fst s), list_after x ns (snd s)))"

definition cursor_before :: "nref \<Rightarrow> nref list \<Rightarrow> nref list \<times> nref list \<Rightarrow> nref list \<times> nref list" where
  "cursor_before x ns s = (list_before x ns (fst s), list_before x ns (snd s))"

lemma after_split:
  assumes "distinct (u @ x # v)" "- 1 \<le> a" "a < int (length (u @ x # v))"
    and a'_def: "a' = (if int (length u) < a then a + int (length ns) else a)"
  shows "(take (nat (a' + 1)) (u @ x # ns @ v), drop (nat (a' + 1)) (u @ x # ns @ v)) =
    cursor_after x ns (take (nat (a + 1)) (u @ x # v), drop (nat (a + 1)) (u @ x # v))"
proof -
  have x: "x \<notin> set u" "x \<notin> set v" using assms(1) by auto
  have un: "x \<notin> set (take k u)" "x \<notin> set (drop k u)" "x \<notin> set (take k v)" "x \<notin> set (drop k v)" for k
    using x by (auto dest: in_set_takeD in_set_dropD)
  consider (ahead) k where "a + 1 = int k" "k \<le> length u" | (here) "a + 1 = int (length u + 1)"
    | (behind) j where "a + 1 = int (length u + 1 + Suc j)" "Suc j \<le> length v"
  proof -
    have "0 \<le> a + 1" using assms(2) by simp
    then obtain k where k: "a + 1 = int k" by (metis nonneg_int_cases)
    then have "k \<le> length u \<or> k = length u + 1 \<or> (\<exists>j. k = length u + 1 + Suc j)" by presburger
    then show thesis using that k assms(3) by auto
  qed
  then show ?thesis
  proof cases
    case ahead
    have l: "last (take k u) \<noteq> x" if "take k u \<noteq> []" using that un(1) [of k] last_in_set by metis
    have "a' = a" using ahead by (simp add: a'_def)
    with ahead l show ?thesis by (auto simp: cursor_after_def list_absent un x)
  next
    case here
    then have "a' = a" by (simp add: a'_def)
    with here show ?thesis by (simp add: cursor_after_def nat_add_distrib)
  next
    case behind
    then have a': "a' + 1 = int (length u + 1 + length ns + Suc j)" by (simp add: a'_def)
    have n: "nat (a + 1) = length u + 1 + Suc j" "nat (a' + 1) = length u + 1 + length ns + Suc j"
      using behind a' by simp_all
    have "take (Suc j) v \<noteq> []" using behind by auto
    then have l: "last (u @ x # take (Suc j) v) \<noteq> x" using un(3) [of "Suc j"] last_in_set by fastforce
    show ?thesis unfolding n using l by (simp add: cursor_after_def list_absent un x del: take_Suc_conv_app_nth)
  qed
qed

lemma before_split:
  assumes "distinct (u @ x # v)" "- 1 \<le> a"
    and a'_def: "a' = (if int (length u) \<le> a then a + int (length ns) else a)"
  shows "(take (nat (a' + 1)) (u @ ns @ x # v), drop (nat (a' + 1)) (u @ ns @ x # v)) =
    cursor_before x ns (take (nat (a + 1)) (u @ x # v), drop (nat (a + 1)) (u @ x # v))"
proof -
  have x: "x \<notin> set u" "x \<notin> set v" using assms(1) by auto
  have un: "x \<notin> set (take k u)" "x \<notin> set (drop k u)" "x \<notin> set (take k v)" "x \<notin> set (drop k v)" for k
    using x by (auto dest: in_set_takeD in_set_dropD)
  consider (ahead) k where "a + 1 = int k" "k \<le> length u" | (behind) j where "a + 1 = int (length u + 1 + j)"
  proof -
    have "0 \<le> a + 1" using assms(2) by simp
    then obtain k where k: "a + 1 = int k" by (metis nonneg_int_cases)
    then have "k \<le> length u \<or> (\<exists>j. k = length u + 1 + j)" by presburger
    then show thesis using that k by auto
  qed
  then show ?thesis
  proof cases
    case ahead
    then have "a' = a" by (simp add: a'_def)
    with ahead show ?thesis by (simp add: cursor_before_def list_absent un x)
  next
    case behind
    then have a': "a' + 1 = int (length u + length ns + 1 + j)" by (simp add: a'_def)
    have n: "nat (a + 1) = length u + 1 + j" "nat (a' + 1) = length u + length ns + 1 + j" using behind a' by simp_all
    show ?thesis unfolding n by (simp add: cursor_before_def list_absent un x)
  qed
qed

lemma linked_insert:
  assumes "linked (set ns) p h" "distinct xs" "set xs = set (kids h p) \<union> set ns"
  shows "tree_ok (set_nodes p xs h)"
  using assms by (auto simp: linked_def tree_ok_def)

lemma tree_ok_move [simp]: "tree_ok (move_indexes p f h) = tree_ok h"
  by (simp add: tree_ok_def)

lemma splice_in_set: "set (splice_in i x xs) = insert x (set xs)"
  and splice_in_distinct: "distinct (splice_in i x xs) \<longleftrightarrow> x \<notin> set xs \<and> distinct xs"
proof -
  let ?k = "js_start i (length xs)"
  have xs: "take ?k xs @ drop ?k xs = xs" by simp
  have "set (splice_in i x xs) = insert x (set (take ?k xs @ drop ?k xs))" by (simp add: splice_in_def Let_def Un_commute del: append_take_drop_id)
  then show "set (splice_in i x xs) = insert x (set xs)" by simp
  have "distinct (splice_in i x xs) \<longleftrightarrow> x \<notin> set (take ?k xs @ drop ?k xs) \<and> distinct (take ?k xs @ drop ?k xs)"
    by (auto simp: splice_in_def Let_def simp del: append_take_drop_id)
  then show "distinct (splice_in i x xs) \<longleftrightarrow> x \<notin> set xs \<and> distinct xs" by simp
qed

lemma splice_fold_set:
  "set (fold (splice_in i) ns xs) = set ns \<union> set xs"
  "distinct ns \<Longrightarrow> set ns \<inter> set xs = {} \<Longrightarrow> distinct xs \<Longrightarrow> distinct (fold (splice_in i) ns xs)"
  by (induction ns arbitrary: xs) (auto simp: splice_in_set splice_in_distinct)

text \<open>What every insertion does to other lists, and the links it keeps.\<close>

lemma insert_ok:
  assumes "normalize p a sample pre h = Some (ns, h0)" "tree_ok h" "h1 = move_indexes p f (set_nodes p xs h0)"
    "set xs = set ns \<union> set (kids h0 p)" "set ns \<inter> set (kids h0 p) = {} \<Longrightarrow> distinct xs"
  shows "tree_ok h1" and "q \<noteq> p \<Longrightarrow> kids h1 q = filter (\<lambda>n. n \<notin> set (new_list a h)) (kids h q)"
    and "q \<noteq> p \<Longrightarrow> cursor h1 q t = map_option (without (set (new_list a h))) (cursor h q t)"
    and "q \<noteq> p \<Longrightarrow> in_bounds h q t \<Longrightarrow> in_bounds h1 q t"
proof -
  note n = normalize_effect [OF assms(1,2)]
  have "set ns \<inter> set (kids h0 p) = {}" using n(4) by (auto simp: linked_def)
  from assms(5) [OF this] show "tree_ok h1" unfolding assms(3) tree_ok_move
    by (intro linked_insert [OF n(4)]) (auto simp: assms(4))
  show "q \<noteq> p \<Longrightarrow> kids h1 q = filter (\<lambda>n. n \<notin> set (new_list a h)) (kids h q)"
    using removes_kids [OF n(3)] by (simp add: assms(3) n(1))
  show "q \<noteq> p \<Longrightarrow> cursor h1 q t = map_option (without (set (new_list a h))) (cursor h q t)"
    using removes_cursor [OF n(3), of q t] by (simp add: assms(3) n(1) cursor_def)
  show "q \<noteq> p \<Longrightarrow> in_bounds h q t \<Longrightarrow> in_bounds h1 q t"
    using removes_bounds [OF n(3), of q t] by (simp add: assms(3) in_bounds_def)
qed

lemma kids_distinct: "tree_ok h \<Longrightarrow> distinct (kids h p)"
  by (simp add: tree_ok_def)

lemma insertAfter_form:
  assumes "insertAfter p e a h = Some h1" "tree_ok h"
  obtains ns h0 where "normalize p a (js_at (kids h p) (index_at h p e)) False h = Some (ns, h0)"
    "h1 = move_indexes p (\<lambda>s. if index_at h0 p e < s then s + int (length ns) else s)
       (set_nodes p (fold (splice_in (index_at h0 p e + 1)) (rev ns) (kids h0 p)) h0)"
    "distinct ns" "distinct (kids h0 p)"
proof -
  obtain ns h0 where h0: "normalize p a (js_at (kids h p) (index_at h p e)) False h = Some (ns, h0)"
    "h1 = move_indexes p (\<lambda>s. if index_at h0 p e < s then s + int (length ns) else s)
       (set_nodes p (fold (splice_in (index_at h0 p e + 1)) (rev ns) (kids h0 p)) h0)"
    using assms(1) by (auto simp: insertAfter_def Let_def bind_eq_Some_conv split: if_splits)
  from normalize_effect [OF h0(1) assms(2)] h0 show thesis by (intro that) (auto simp: linked_def)
qed

lemma insertBefore_form:
  assumes "insertBefore p e a h = Some h1" "tree_ok h"
  obtains ns h0 pre where "normalize p a (js_at (kids h p) (index_at h p e)) pre h = Some (ns, h0)"
    "h1 = move_indexes p (\<lambda>s. if index_at h0 p e \<le> s then s + int (length ns) else s)
       (set_nodes p (fold (splice_in (index_at h0 p e)) (rev ns) (kids h0 p)) h0)"
    "distinct ns" "distinct (kids h0 p)"
proof -
  obtain ns h0 where h0: "normalize p a (js_at (kids h p) (index_at h p e)) (index_at h p e = 0) h = Some (ns, h0)"
    "h1 = move_indexes p (\<lambda>s. if index_at h0 p e \<le> s then s + int (length ns) else s)
       (set_nodes p (fold (splice_in (index_at h0 p e)) (rev ns) (kids h0 p)) h0)"
    using assms(1) by (auto simp: insertBefore_def Let_def bind_eq_Some_conv split: if_splits)
  from normalize_effect [OF h0(1) assms(2)] h0 show thesis by (intro that) (auto simp: linked_def)
qed

lemma insertAfter_ok:
  assumes "insertAfter p e a h = Some h1" "tree_ok h"
  shows "tree_ok h1" and "q \<noteq> p \<Longrightarrow> kids h1 q = filter (\<lambda>n. n \<notin> set (new_list a h)) (kids h q)"
    and "q \<noteq> p \<Longrightarrow> cursor h1 q t = map_option (without (set (new_list a h))) (cursor h q t)"
    and "q \<noteq> p \<Longrightarrow> in_bounds h q t \<Longrightarrow> in_bounds h1 q t"
  by (rule insertAfter_form [OF assms], rule insert_ok [OF _ assms(2)], assumption, assumption, auto simp: splice_fold_set)+

lemma insertBefore_ok:
  assumes "insertBefore p e a h = Some h1" "tree_ok h"
  shows "tree_ok h1" and "q \<noteq> p \<Longrightarrow> kids h1 q = filter (\<lambda>n. n \<notin> set (new_list a h)) (kids h q)"
    and "q \<noteq> p \<Longrightarrow> cursor h1 q t = map_option (without (set (new_list a h))) (cursor h q t)"
    and "q \<noteq> p \<Longrightarrow> in_bounds h q t \<Longrightarrow> in_bounds h1 q t"
  by (rule insertBefore_form [OF assms], rule insert_ok [OF _ assms(2)], assumption, assumption, auto simp: splice_fold_set)+

lemma insertAfter_child:
  assumes "insertAfter p (Ref x) a h = Some h1" "tree_ok h" "x \<in> set (kids h p)" "x \<notin> set (new_list a h)"
  defines "ns \<equiv> new_list a h"
  shows "kids h1 p = list_after x ns (filter (\<lambda>n. n \<notin> set ns) (kids h p))"
    and "in_bounds h p t \<Longrightarrow> cursor h1 p t = map_option (\<lambda>s. cursor_after x ns (without (set ns) s)) (cursor h p t) \<and> in_bounds h1 p t"
proof -
  obtain ns' h0 where h0: "normalize p a (js_at (kids h p) (index_at h p (Ref x))) False h = Some (ns', h0)"
    "h1 = move_indexes p (\<lambda>s. if index_at h0 p (Ref x) < s then s + int (length ns') else s)
       (set_nodes p (fold (splice_in (index_at h0 p (Ref x) + 1)) (rev ns') (kids h0 p)) h0)"
    "distinct (kids h0 p)"
    by (rule insertAfter_form [OF assms(1,2)])
  note n = normalize_effect [OF h0(1) assms(2), folded ns_def]
  have "x \<in> set (kids h0 p)" using assms(3,4) by (simp add: removes_kids [OF n(3)] n(1) ns_def)
  then obtain u v where uv: "kids h0 p = u @ x # v" "x \<notin> set u" by (meson split_list_first)
  have i: "index_at h0 p (Ref x) = int (length u)" using uv by (simp add: index_of_split)
  have d: "distinct (u @ x # v)" using h0(3) uv(1) by simp
  have "fold (splice_in (int (length u) + 1)) (rev ns) (u @ x # v) = u @ x # ns @ v"
    using splice_fold [of "u @ [x]" ns v] by (simp add: add.commute)
  then have h1: "h1 = move_indexes p (\<lambda>s. if int (length u) < s then s + int (length ns) else s) (set_nodes p (u @ x # ns @ v) h0)"
    unfolding h0(2) i uv(1) n(1) by (simp only:)
  have f: "filter (\<lambda>n. n \<notin> set ns) (kids h p) = u @ x # v" using removes_kids [OF n(3), of p] uv(1) n(1) by simp
  show "kids h1 p = list_after x ns (filter (\<lambda>n. n \<notin> set ns) (kids h p))"
    unfolding f using d by (simp add: h1 list_absent)
  assume "in_bounds h p t"
  from removes_bounds [OF n(3) this] have b: "in_bounds h0 p t" .
  have c0: "cursor h0 p t = map_option (without (set ns)) (cursor h p t)" using removes_cursor [OF n(3)] n(1) by simp
  have "cursor h1 p t = map_option (cursor_after x ns) (cursor h0 p t)"
  proof (cases "gget (tn_indexes (h0 p)) t")
    case (Some k)
    have k: "- 1 \<le> k" "k < int (length (u @ x # v))" using b Some unfolding in_bounds_def uv(1) by auto
    show ?thesis unfolding cursor_def using after_split [OF d k refl, of ns] by (simp add: h1 Some uv(1))
  qed (simp add: cursor_def h1)
  moreover have "in_bounds h1 p t" using b unfolding in_bounds_def h1 by (auto simp: uv(1))
  ultimately show "cursor h1 p t = map_option (\<lambda>s. cursor_after x ns (without (set ns) s)) (cursor h p t) \<and> in_bounds h1 p t"
    by (simp add: c0 option.map_comp comp_def)
qed

lemma insertBefore_child:
  assumes "insertBefore p (Ref x) a h = Some h1" "tree_ok h" "x \<in> set (kids h p)" "x \<notin> set (new_list a h)"
  defines "ns \<equiv> new_list a h"
  shows "kids h1 p = list_before x ns (filter (\<lambda>n. n \<notin> set ns) (kids h p))"
    and "in_bounds h p t \<Longrightarrow> cursor h1 p t = map_option (\<lambda>s. cursor_before x ns (without (set ns) s)) (cursor h p t) \<and> in_bounds h1 p t"
proof -
  obtain ns' h0 pre where h0: "normalize p a (js_at (kids h p) (index_at h p (Ref x))) pre h = Some (ns', h0)"
    "h1 = move_indexes p (\<lambda>s. if index_at h0 p (Ref x) \<le> s then s + int (length ns') else s)
       (set_nodes p (fold (splice_in (index_at h0 p (Ref x))) (rev ns') (kids h0 p)) h0)"
    "distinct (kids h0 p)"
    by (rule insertBefore_form [OF assms(1,2)])
  note n = normalize_effect [OF h0(1) assms(2), folded ns_def]
  have "x \<in> set (kids h0 p)" using assms(3,4) by (simp add: removes_kids [OF n(3)] n(1) ns_def)
  then obtain u v where uv: "kids h0 p = u @ x # v" "x \<notin> set u" by (meson split_list_first)
  have i: "index_at h0 p (Ref x) = int (length u)" using uv by (simp add: index_of_split)
  have d: "distinct (u @ x # v)" using h0(3) uv(1) by simp
  have h1: "h1 = move_indexes p (\<lambda>s. if int (length u) \<le> s then s + int (length ns) else s) (set_nodes p (u @ ns @ x # v) h0)"
    unfolding h0(2) i uv(1) n(1) using splice_fold [of u ns "x # v"] by (simp only:)
  have f: "filter (\<lambda>n. n \<notin> set ns) (kids h p) = u @ x # v" using removes_kids [OF n(3), of p] uv(1) n(1) by simp
  show "kids h1 p = list_before x ns (filter (\<lambda>n. n \<notin> set ns) (kids h p))"
    unfolding f using d by (simp add: h1 list_absent)
  assume "in_bounds h p t"
  from removes_bounds [OF n(3) this] have b: "in_bounds h0 p t" .
  have c0: "cursor h0 p t = map_option (without (set ns)) (cursor h p t)" using removes_cursor [OF n(3)] n(1) by simp
  have "cursor h1 p t = map_option (cursor_before x ns) (cursor h0 p t)"
  proof (cases "gget (tn_indexes (h0 p)) t")
    case (Some k)
    have k: "- 1 \<le> k" using b Some unfolding in_bounds_def by auto
    show ?thesis unfolding cursor_def using before_split [OF d k refl, of ns] by (simp add: h1 Some uv(1))
  qed (simp add: cursor_def h1)
  moreover have "in_bounds h1 p t" using b unfolding in_bounds_def h1 by (auto simp: uv(1))
  ultimately show "cursor h1 p t = map_option (\<lambda>s. cursor_before x ns (without (set ns) s)) (cursor h p t) \<and> in_bounds h1 p t"
    by (simp add: c0 option.map_comp comp_def)
qed

end
