(* ===== verification/Css_Tree_Each.thy ===== *)
theory Css_Tree_Each
  imports Css_Tree_Laws
begin

text \<open>
  The properties of the node tree of \<open>Css_Tree\<close>: no operation breaks the links between parents and
  children, running iterators are moved consistently with the lists, and a walk over the children
  visits each child that stays ahead of it exactly once.
\<close>

section \<open>Appending and prepending\<close>

definition cursor_append :: "nref list \<Rightarrow> nref list \<times> nref list \<Rightarrow> nref list \<times> nref list" where
  "cursor_append ns s = (fst s, snd s @ ns)"

definition cursor_prepend :: "nref list \<Rightarrow> nref list \<times> nref list \<Rightarrow> nref list \<times> nref list" where
  "cursor_prepend ns s = (ns @ fst s, snd s)"

lemma append_one_effect:
  assumes "append_one p a h = Some h1" "tree_ok h"
  defines "ns \<equiv> new_list a h"
  shows "tree_ok h1" "kids h1 q = filter (\<lambda>n. n \<notin> set ns) (kids h q) @ (if q = p then ns else [])"
    and "in_bounds h q t \<Longrightarrow> cursor h1 q t = map_option (\<lambda>s. (if q = p then cursor_append ns else id) (without (set ns) s)) (cursor h q t)"
    and "in_bounds h q t \<Longrightarrow> in_bounds h1 q t"
proof -
  obtain ns' h0 where h0': "normalize p a (last_child h p) False h = Some (ns', h0)"
    "h1 = (if ns' = [] then h0 else set_nodes p (kids h0 p @ ns') h0)"
    using assms(1) by (auto simp: append_one_def bind_eq_Some_conv split: if_splits)
  have "ns' = ns" using normalize_effect(1) [OF h0'(1) assms(2)] by (simp add: ns_def)
  note h0 = h0' [unfolded this]
  note n = normalize_effect [OF h0(1) assms(2)]
  have k: "kids h1 q = kids h0 q @ (if q = p then ns else [])" for q by (simp add: h0(2))
  show "kids h1 q = filter (\<lambda>n. n \<notin> set ns) (kids h q) @ (if q = p then ns else [])" by (simp add: k removes_kids [OF n(3)])
  show "tree_ok h1"
  proof (cases "ns = []")
    case True
    with n(4) show ?thesis by (simp add: h0(2) linked_empty)
  next
    case False
    have "set ns \<inter> set (kids h0 p) = {}" "distinct (kids h0 p)" using n(4) by (auto simp: linked_def)
    then have "tree_ok (set_nodes p (kids h0 p @ ns) h0)" using n(2) by (intro linked_insert [OF n(4)]) auto
    then show ?thesis using False by (simp add: h0(2))
  qed
  have i: "tn_indexes (h1 q) = tn_indexes (h0 q)" for q by (simp add: h0(2))
  assume "in_bounds h q t"
  from removes_bounds [OF n(3) this] have b: "in_bounds h0 q t" .
  then show "in_bounds h1 q t" by (auto simp: in_bounds_def i k)
  show "cursor h1 q t = map_option (\<lambda>s. (if q = p then cursor_append ns else id) (without (set ns) s)) (cursor h q t)"
  proof (cases "gget (tn_indexes (h0 q)) t")
    case None
    then have "cursor h0 q t = None" by (simp add: cursor_def)
    then have "cursor h q t = None" using removes_cursor [OF n(3), of q t] by simp
    with None show ?thesis by (auto simp: cursor_def i)
  next
    case (Some m)
    have le: "nat (m + 1) \<le> length (kids h0 q)" using b Some by (auto simp: in_bounds_def)
    have "cursor h1 q t = map_option (if q = p then cursor_append ns else id) (cursor h0 q t)"
      using le by (simp add: cursor_def i k Some cursor_append_def)
    then show ?thesis by (simp add: removes_cursor [OF n(3)] option.map_comp comp_def)
  qed
qed

lemma prepend_one_effect:
  assumes "prepend_one p a h = Some h1" "tree_ok h"
  defines "ns \<equiv> new_list a h"
  shows "tree_ok h1" "kids h1 q = (if q = p then ns else []) @ filter (\<lambda>n. n \<notin> set ns) (kids h q)"
    and "in_bounds h q t \<Longrightarrow> cursor h1 q t = map_option (\<lambda>s. (if q = p then cursor_prepend ns else id) (without (set ns) s)) (cursor h q t)"
    and "in_bounds h q t \<Longrightarrow> in_bounds h1 q t"
proof -
  obtain ns' h0 where h0': "normalize p a (first_child h p) True h = Some (ns', h0)"
    "h1 = move_indexes p (\<lambda>t. t + int (length ns')) (if ns' = [] then h0 else set_nodes p (ns' @ kids h0 p) h0)"
    using assms(1) by (auto simp: prepend_one_def bind_eq_Some_conv split: if_splits)
  have "ns' = ns" using normalize_effect(1) [OF h0'(1) assms(2)] by (simp add: ns_def)
  note h0 = h0' [unfolded this]
  note n = normalize_effect [OF h0(1) assms(2)]
  have k: "kids h1 q = (if q = p then ns else []) @ kids h0 q" for q by (simp add: h0(2))
  show "kids h1 q = (if q = p then ns else []) @ filter (\<lambda>n. n \<notin> set ns) (kids h q)" by (simp add: k removes_kids [OF n(3)])
  show "tree_ok h1"
  proof (cases "ns = []")
    case True
    with n(4) show ?thesis by (simp add: h0(2) linked_empty)
  next
    case False
    have "set ns \<inter> set (kids h0 p) = {}" "distinct (kids h0 p)" using n(4) by (auto simp: linked_def)
    then have "tree_ok (set_nodes p (ns @ kids h0 p) h0)" using n(2) by (intro linked_insert [OF n(4)]) auto
    then show ?thesis using False by (simp add: h0(2))
  qed
  have i: "gget (tn_indexes (h1 q)) t = (if q = p then map_option (\<lambda>t. t + int (length ns)) (gget (tn_indexes (h0 q)) t) else gget (tn_indexes (h0 q)) t)"
    for q by (simp add: h0(2))
  assume "in_bounds h q t"
  from removes_bounds [OF n(3) this] have b: "in_bounds h0 q t" .
  then show "in_bounds h1 q t" by (auto simp: in_bounds_def i k)
  show "cursor h1 q t = map_option (\<lambda>s. (if q = p then cursor_prepend ns else id) (without (set ns) s)) (cursor h q t)"
  proof (cases "gget (tn_indexes (h0 q)) t")
    case None
    then have "cursor h0 q t = None" by (simp add: cursor_def)
    then have "cursor h q t = None" using removes_cursor [OF n(3), of q t] by simp
    with None show ?thesis by (auto simp: cursor_def i)
  next
    case (Some m)
    have m: "- 1 \<le> m" using b Some by (auto simp: in_bounds_def)
    then have e: "nat (m + int (length ns) + 1) = length ns + nat (m + 1)" by simp
    have "cursor h1 q t = map_option (if q = p then cursor_prepend ns else id) (cursor h0 q t)"
      by (cases "q = p") (use Some e in \<open>auto simp: cursor_def i k cursor_prepend_def\<close>)
    then show ?thesis by (simp add: removes_cursor [OF n(3)] option.map_comp comp_def)
  qed
qed

section \<open>The links between parents and children\<close>

lemma open_block_ok: "tree_ok h \<Longrightarrow> tree_ok (open_block p h)"
  by (auto simp: open_block_def tree_ok_def kids_def set_nodes_def)

lemma append_loop_ok: "append_loop p as h = Some h1 \<Longrightarrow> tree_ok h \<Longrightarrow> tree_ok h1"
  by (induction as arbitrary: h) (auto simp: bind_eq_Some_conv dest: append_one_effect(1))

lemma prepend_loop_ok: "prepend_loop p as h = Some h1 \<Longrightarrow> tree_ok h \<Longrightarrow> tree_ok h1"
  by (induction as arbitrary: h) (auto simp: bind_eq_Some_conv dest: prepend_one_effect(1))

lemma index_of_nth: "distinct xs \<Longrightarrow> i < length xs \<Longrightarrow> index_of xs (xs ! i) = int i"
proof -
  assume d: "distinct xs" and i: "i < length xs"
  have "xs = take i xs @ xs ! i # drop (Suc i) xs" by (rule id_take_nth_drop [OF i])
  moreover have "xs ! i \<notin> set (take i xs)" using d i by (metis calculation distinct_append disjoint_iff list.set_intros(1))
  ultimately show ?thesis using index_of_split [of "xs ! i" "take i xs" "drop (Suc i) xs"] i by simp
qed

text \<open>A position inside the list names the child there.\<close>

lemma removeChild_place:
  assumes "removeChild p pl ig h = Some h1" "tree_ok h"
  obtains n where "removeChild p (Ref n) ig h = Some h1"
proof (cases pl)
  case (Ix i)
  have "js_at (kids h p) i \<noteq> None"
    using assms(1) by (cases "js_at (kids h p) i") (auto simp: Ix removeChild_def container_remove_def Let_def split: if_splits)
  then have i: "0 \<le> i" "i < int (length (kids h p))" by (auto simp: js_at_def split: if_splits)
  then have "index_of (kids h p) (kids h p ! nat i) = i"
    using index_of_nth [of "kids h p" "nat i"] assms(2) by (simp add: tree_ok_def)
  then have "removeChild p (Ref (kids h p ! nat i)) ig h = Some h1" using assms(1) Ix by (simp add: removeChild_def)
  with that show thesis .
qed (use assms(1) that in auto)

lemma removeChild_ok: "removeChild p pl ig h = Some h1 \<Longrightarrow> tree_ok h \<Longrightarrow> tree_ok h1"
  by (erule (1) removeChild_place) (use removeChild_linked linked_empty in blast)

lemma remove_ok: "remove n h = Some h1 \<Longrightarrow> tree_ok h \<Longrightarrow> tree_ok h1"
proof -
  assume r: "remove n h = Some h1" and ok: "tree_ok h"
  show "tree_ok h1"
  proof (cases "tn_parent (h n)")
    case None
    with r ok show ?thesis by (simp add: remove_def)
  next
    case (Some p)
    with r obtain h0 where h0: "removeChild p (Ref n) False h = Some h0" "h1 = set_parent n None h0"
      by (auto simp: remove_def bind_eq_Some_conv)
    have "tree_ok h0" using removeChild_ok [OF h0(1) ok] .
    moreover have "tn_parent (h0 n) = None" using removeChild_effect(3) [OF h0(1)] ok linked_empty by blast
    moreover from this have "tn_parent (h1 m) = tn_parent (h0 m)" "kids h1 q = kids h0 q" for m q by (simp_all add: h0(2))
    ultimately show ?thesis by (simp add: tree_ok_def)
  qed
qed

lemma fold_set_parent:
  "kids (fold (\<lambda>n. set_parent n None) ns h) q = kids h q"
  "tn_parent (fold (\<lambda>n. set_parent n None) ns h m) = (if m \<in> set ns then None else tn_parent (h m))"
  "tn_indexes (fold (\<lambda>n. set_parent n None) ns h q) = tn_indexes (h q)"
  by (induction ns arbitrary: h) auto

lemma removeAll_ok: "removeAll p h = Some h1 \<Longrightarrow> tree_ok h \<Longrightarrow> tree_ok h1"
proof -
  assume r: "removeAll p h = Some h1" and ok: "tree_ok h"
  obtain ns where ns: "tn_nodes (h p) = Some ns" "h1 = set_nodes p [] (fold (\<lambda>n. set_parent n None) ns h)"
    using r by (auto simp: removeAll_def split: option.splits)
  have k: "ns = kids h p" by (simp add: kids_def ns(1))
  have "n \<notin> set ns" if "n \<in> set (kids h q)" "q \<noteq> p" for n q
  proof
    assume "n \<in> set ns"
    with that ok have "tn_parent (h n) = Some p" "tn_parent (h n) = Some q" by (simp_all add: tree_ok_def k)
    with that(2) show False by simp
  qed
  with ok show ?thesis by (auto simp: tree_ok_def ns(2) fold_set_parent k)
qed

lemma replace_loop_ok: "replace_loop x t found ns h = Some (b, h1) \<Longrightarrow> tree_ok h \<Longrightarrow> tree_ok h1"
  by (induction ns arbitrary: t found h)
    (auto simp: bind_eq_Some_conv split: if_splits option.splits dest: insertAfter_ok(1) insertBefore_ok(1))

lemma replaceWith_ok: "replaceWith x ns h = Some h1 \<Longrightarrow> tree_ok h \<Longrightarrow> tree_ok h1"
  by (auto simp: replaceWith_def bind_eq_Some_conv split: if_splits dest: replace_loop_ok remove_ok)

datatype tree_op = Append nref "new_nodes list" | Prepend nref "new_nodes list" | InsertAfter nref place new_nodes
  | InsertBefore nref place new_nodes | RemoveChild nref place bool | Remove nref | RemoveAll nref | ReplaceWith nref "nref list"

fun run_op :: "tree_op \<Rightarrow> tree_heap \<Rightarrow> tree_heap option" where
  "run_op (Append p as) h = append p as h"
| "run_op (Prepend p as) h = prepend p as h"
| "run_op (InsertAfter p e a) h = insertAfter p e a h"
| "run_op (InsertBefore p e a) h = insertBefore p e a h"
| "run_op (RemoveChild p e ig) h = removeChild p e ig h"
| "run_op (Remove n) h = remove n h"
| "run_op (RemoveAll p) h = removeAll p h"
| "run_op (ReplaceWith x ns) h = replaceWith x ns h"

fun run_ops :: "tree_op list \<Rightarrow> tree_heap \<Rightarrow> tree_heap option" where
  "run_ops [] h = Some h"
| "run_ops (o1 # os) h = Option.bind (run_op o1 h) (run_ops os)"

lemma run_op_ok: "run_op o1 h = Some h1 \<Longrightarrow> tree_ok h \<Longrightarrow> tree_ok h1"
  by (cases o1) (auto simp: append_def prepend_def dest: append_loop_ok prepend_loop_ok insertAfter_ok(1) insertBefore_ok(1)
      removeChild_ok remove_ok removeAll_ok replaceWith_ok intro: open_block_ok)

text \<open>A small tree: a root 0 with the children 1, 2 and 3, where 1 is a rule with the child 4.\<close>

definition demo_tree :: tree_heap where
  "demo_tree = (\<lambda>n. \<lparr>tn_kind = (if n = 0 then TRoot else if n = 1 then TRule else TDecl),
     tn_nodes = (if n = 0 then Some [1, 2, 3] else if n = 1 then Some [4] else None),
     tn_parent = (if n \<in> {1, 2, 3} then Some 0 else if n = 4 then Some 1 else None),
     tn_before = None, tn_lastEach = 0, tn_indexes = []\<rparr>)"

lemma demo_tree_ok: "tree_ok demo_tree"
  by (auto simp: tree_ok_def demo_tree_def kids_def)

text \<open>
  C25. No sequence of insertions, removals and replacements breaks the tree: every child is listed once,
  by its parent and nobody else, whatever nodes are moved from wherever and wherever the positions lie.
\<close>

theorem tree_stays_linked:
  assumes "tree_ok h" "run_ops os h = Some h1"
  shows "distinct (kids h1 p) \<and> (tn_parent (h1 n) = Some p \<longleftrightarrow> n \<in> set (kids h1 p))"
proof -
  have "run_ops os h = Some h1 \<Longrightarrow> tree_ok h \<Longrightarrow> tree_ok h1" for h
    by (induction os arbitrary: h) (auto simp: bind_eq_Some_conv dest: run_op_ok)
  with assms show ?thesis by (auto simp: tree_ok_def)
qed

theorem tree_stays_linked_witness:
  "\<exists>h1. run_ops [Append 1 [Nodes [3, 2]], ReplaceWith 4 [5]] demo_tree = Some h1 \<and>
     distinct (kids h1 1) \<and> (tn_parent (h1 4) = Some 1 \<longleftrightarrow> 4 \<in> set (kids h1 1))"
proof -
  have "run_ops [Append 1 [Nodes [3, 2]], ReplaceWith 4 [5]] demo_tree \<noteq> None" by code_simp
  then obtain h1 where h1: "run_ops [Append 1 [Nodes [3, 2]], ReplaceWith 4 [5]] demo_tree = Some h1" by auto
  from tree_stays_linked [OF demo_tree_ok h1, of 1 4] h1 show ?thesis by blast
qed

section \<open>Running iterators\<close>

text \<open>What an operation does to the split of \<open>p\<close>'s children by an iterator.\<close>

fun split_op :: "tree_heap \<Rightarrow> nref \<Rightarrow> tree_op \<Rightarrow> nref list \<times> nref list \<Rightarrow> nref list \<times> nref list" where
  "split_op h p (Append q [a]) s = (if q = p then cursor_append (new_list a h) else id) (without (set (new_list a h)) s)"
| "split_op h p (Prepend q [a]) s = (if q = p then cursor_prepend (new_list a h) else id) (without (set (new_list a h)) s)"
| "split_op h p (InsertAfter q (Ref x) a) s = (if q = p then cursor_after x (new_list a h) else id) (without (set (new_list a h)) s)"
| "split_op h p (InsertBefore q (Ref x) a) s = (if q = p then cursor_before x (new_list a h) else id) (without (set (new_list a h)) s)"
| "split_op h p (RemoveChild q (Ref x) ig) s = without {x} s"
| "split_op h p o1 s = s"

text \<open>Operations with one argument, next to a child that is not itself moved.\<close>

fun regular_op :: "tree_heap \<Rightarrow> tree_op \<Rightarrow> bool" where
  "regular_op h (Append q [a]) = True"
| "regular_op h (Prepend q [a]) = True"
| "regular_op h (InsertAfter q (Ref x) a) = (x \<in> set (kids h q) \<and> x \<notin> set (new_list a h))"
| "regular_op h (InsertBefore q (Ref x) a) = (x \<in> set (kids h q) \<and> x \<notin> set (new_list a h))"
| "regular_op h (RemoveChild q (Ref x) ig) = True"
| "regular_op h o1 = False"

lemma open_block_same [simp]:
  "kids (open_block q h) p = kids h p" "cursor (open_block q h) p t = cursor h p t" "in_bounds (open_block q h) p t = in_bounds h p t"
  "new_list a (open_block q h) = new_list a h"
  by (auto simp: open_block_def kids_def set_nodes_def cursor_def in_bounds_def new_list_def split: new_nodes.split)

text \<open>
  C26. The index adjustments of the operations implement a simple picture: an iterator has children
  behind it and children ahead, an operation acts on these two lists as it does on the whole list, and
  new nodes are ahead of the iterator exactly if they follow a child ahead of it or the current child.
\<close>

theorem iterators_follow:
  assumes "tree_ok h" "regular_op h o1" "run_op o1 h = Some h1" "in_bounds h p t"
  shows "cursor h1 p t = map_option (split_op h p o1) (cursor h p t) \<and> in_bounds h1 p t"
  using assms(2,3)
proof (cases "(h, o1)" rule: regular_op.cases)
  case (1 h' q a)
  have "append_one q a (open_block q h) = Some h1" using assms(3) 1 by (auto simp: append_def bind_eq_Some_conv)
  from append_one_effect(3,4) [OF this open_block_ok [OF assms(1)], of p t] show ?thesis using assms(4) 1 by (cases "cursor h p t") auto
next
  case (2 h' q a)
  have "prepend_one q a (open_block q h) = Some h1" using assms(3) 2 by (auto simp: prepend_def bind_eq_Some_conv)
  from prepend_one_effect(3,4) [OF this open_block_ok [OF assms(1)], of p t] show ?thesis using assms(4) 2 by (cases "cursor h p t") auto
next
  case (3 h' q x a)
  have i: "insertAfter q (Ref x) a h = Some h1" "x \<in> set (kids h q)" "x \<notin> set (new_list a h)" using assms(2,3) 3 by auto
  show ?thesis
  proof (cases "p = q")
    case True
    with insertAfter_child(2) [OF i(1) assms(1) i(2,3)] assms(4) 3 show ?thesis by (cases "cursor h p t") auto
  next
    case False
    with insertAfter_ok(3,4) [OF i(1) assms(1) False, of t] assms(4) 3 show ?thesis by (cases "cursor h p t") auto
  qed
next
  case (4 h' q x a)
  have i: "insertBefore q (Ref x) a h = Some h1" "x \<in> set (kids h q)" "x \<notin> set (new_list a h)" using assms(2,3) 4 by auto
  show ?thesis
  proof (cases "p = q")
    case True
    with insertBefore_child(2) [OF i(1) assms(1) i(2,3)] assms(4) 4 show ?thesis by (cases "cursor h p t") auto
  next
    case False
    with insertBefore_ok(3,4) [OF i(1) assms(1) False, of t] assms(4) 4 show ?thesis by (cases "cursor h p t") auto
  qed
next
  case (5 h' q x ig)
  have "removeChild q (Ref x) ig h = Some h1" using assms(3) 5 by simp
  from removeChild_effect(2) [OF this] assms(1) linked_empty have r: "removes {x} h h1" by blast
  show ?thesis using removes_cursor [OF r, of p t] removes_bounds [OF r assms(4)] 5 by (cases "cursor h p t") auto
qed (use assms(2) in auto)

text \<open>The root of the small tree while an iteration is at its second child.\<close>

definition demo_walk :: tree_heap where
  "demo_walk = demo_tree(0 := (demo_tree 0)\<lparr>tn_indexes := [(1, 1)]\<rparr>)"

lemma demo_walk_ok: "tree_ok demo_walk"
  using demo_tree_ok by (auto simp: tree_ok_def demo_walk_def kids_def)

theorem iterators_follow_witness:
  "\<exists>h1. insertAfter 0 (Ref 2) (Nodes [4, 1]) demo_walk = Some h1 \<and> cursor demo_walk 0 1 = Some ([1, 2], [3]) \<and>
     cursor h1 0 1 = Some ([2], [4, 1, 3])"
proof -
  have "insertAfter 0 (Ref 2) (Nodes [4, 1]) demo_walk \<noteq> None" by code_simp
  then obtain h1 where h1: "run_op (InsertAfter 0 (Ref 2) (Nodes [4, 1])) demo_walk = Some h1" by auto
  have "regular_op demo_walk (InsertAfter 0 (Ref 2) (Nodes [4, 1]))" "in_bounds demo_walk 0 1" "cursor demo_walk 0 1 = Some ([1, 2], [3])"
    by (simp_all add: demo_walk_def demo_tree_def kids_def new_list_def in_bounds_def cursor_def numeral_2_eq_2)
  with iterators_follow [OF demo_walk_ok this(1) h1 this(2)] h1 show ?thesis
    by (simp add: new_list_def cursor_after_def without_def)
qed

text \<open>A node inserted after itself becomes the first child.\<close>

lemma insert_after_itself: "map_option (\<lambda>h. kids h 0) (insertAfter 0 (Ref 3) (Node 3) demo_tree) = Some [3, 1, 2]"
  by code_simp

section \<open>Walks over the children\<close>

definition advance :: "nref \<Rightarrow> nat \<Rightarrow> tree_heap \<Rightarrow> tree_heap" where
  "advance p t h = h(p := (h p)\<lparr>tn_indexes := gmap (\<lambda>k a. if k = t then a + 1 else a) (tn_indexes (h p))\<rparr>)"

lemma each_loop_step:
  assumes "gget (tn_indexes (h p)) t = Some i" "js_at (kids h p) i = Some n" "cb n i (h, s) = Some (False, h1, s1)"
  shows "each_loop cb p t (h, s) = each_loop cb p t (advance p t h1, s1)"
  using assms by (subst each_loop.simps) (simp add: js_at_def advance_def split: if_splits)

lemma each_loop_end:
  "gget (tn_indexes (h p)) t = Some i \<Longrightarrow> js_at (kids h p) i = None \<Longrightarrow> 0 \<le> i \<Longrightarrow> each_loop cb p t (h, s) = Some (False, h, s)"
  by (subst each_loop.simps) (simp add: js_at_def split: if_splits)

text \<open>Children that replace removed ones during a walk are skipped.\<close>

lemma removeAll_skips: "map_option (\<lambda>(r, h, s). (s, kids h 0))
    (each (\<lambda>n i (h, s). map_option (\<lambda>h1. (False, h1, s @ [n]))
       (if n = 1 then Option.bind (removeAll 0 h) (append 0 [Nodes [2, 3]]) else Some h)) 0 (demo_tree, [])) = Some ([1, 3], [2, 3])"
proof -
  let ?cb = "\<lambda>n i (h, s). map_option (\<lambda>h1. (False, h1, s @ [n]))
       (if n = 1 then Option.bind (removeAll 0 h) (append 0 [Nodes [2, 3]]) else Some h) :: (bool \<times> tree_heap \<times> nref list) option"
  define h0 where "h0 = snd (getIterator 0 demo_tree)"
  define h1 where "h1 = the (Option.bind (removeAll 0 h0) (append 0 [Nodes [2, 3]]))"
  have h1: "Option.bind (removeAll 0 h0) (append 0 [Nodes [2, 3]]) = Some h1"
  proof -
    have "Option.bind (removeAll 0 h0) (append 0 [Nodes [2, 3]]) \<noteq> None" unfolding h0_def by code_simp
    then show ?thesis unfolding h1_def by simp
  qed
  have i0: "gget (tn_indexes (h0 0)) 1 = Some 0" "js_at (kids h0 0) 0 = Some 1" unfolding h0_def by code_simp+
  have i1: "gget (tn_indexes (advance 0 1 h1 0)) 1 = Some 1" "js_at (kids (advance 0 1 h1) 0) 1 = Some 3"
    unfolding h1_def h0_def by code_simp+
  have i2: "gget (tn_indexes (advance 0 1 (advance 0 1 h1) 0)) 1 = Some 2" "js_at (kids (advance 0 1 (advance 0 1 h1)) 0) 2 = None"
    unfolding h1_def h0_def by code_simp+
  have "each_loop ?cb 0 1 (h0, []) = each_loop ?cb 0 1 (advance 0 1 h1, [1])"
    by (rule each_loop_step [OF i0]) (simp add: h1)
  also have "\<dots> = each_loop ?cb 0 1 (advance 0 1 (advance 0 1 h1), [1, 3])"
    by (rule each_loop_step [OF i1]) simp
  also have "\<dots> = Some (False, advance 0 1 (advance 0 1 h1), [1, 3])"
    by (rule each_loop_end [OF i2]) simp
  finally have walk: "each_loop ?cb 0 1 (h0, []) = Some (False, advance 0 1 (advance 0 1 h1), [1, 3])" .
  have it: "getIterator 0 demo_tree = (1, h0)" "tn_nodes (demo_tree 0) \<noteq> None"
    by (simp_all add: h0_def getIterator_def demo_tree_def)
  have "kids (advance 0 1 (advance 0 1 h1)) 0 = [2, 3]" unfolding h1_def h0_def by code_simp
  then have k: "kids ((advance 0 1 (advance 0 1 h1))(0 := (advance 0 1 (advance 0 1 h1) 0)\<lparr>tn_indexes := m\<rparr>)) 0 = [2, 3]" for m
    by (simp add: kids_def)
  show ?thesis unfolding each_def fst_conv snd_conv it(1) using it(2) by (simp only: prod.case walk option.map k if_False)
qed

lemma advance_sel [simp]:
  "kids (advance p t h) q = kids h q" "tn_parent (advance p t h m) = tn_parent (h m)" "tree_ok (advance p t h) = tree_ok h"
  "gget (tn_indexes (advance p t h p)) t = map_option (\<lambda>a. a + 1) (gget (tn_indexes (h p)) t)"
proof -
  show k: "kids (advance p t h) q = kids h q" for q by (simp add: advance_def kids_def)
  show "gget (tn_indexes (advance p t h p)) t = map_option (\<lambda>a. a + 1) (gget (tn_indexes (h p)) t)"
    by (simp add: advance_def gget_gmap)
  show m: "tn_parent (advance p t h m) = tn_parent (h m)" for m by (simp add: advance_def)
  show "tree_ok (advance p t h) = tree_ok h" by (simp add: tree_ok_def k m)
qed

text \<open>A callback made from a program on the store, with a log of the children it is called for.\<close>

definition logged :: "(nref \<Rightarrow> tree_heap \<Rightarrow> tree_heap option) \<Rightarrow> nref list callback" where
  "logged f x i st = map_option (\<lambda>h1. (False, h1, snd st @ [x])) (f x (fst st))"

text \<open>The program may change the tree, but not what is ahead of the walk.\<close>

definition keeps_ahead :: "(nref \<Rightarrow> tree_heap \<Rightarrow> tree_heap option) \<Rightarrow> nref \<Rightarrow> bool" where
  "keeps_ahead f p \<longleftrightarrow>
     (\<forall>x h t d r. tree_ok h \<longrightarrow> cursor h p t = Some (d @ [x], r) \<longrightarrow> in_bounds h p t \<longrightarrow>
       (\<exists>h1 d1. f x h = Some h1 \<and> tree_ok h1 \<and> cursor h1 p t = Some (d1, r) \<and> in_bounds h1 p t))"

lemma cursor_index:
  assumes "cursor h p t = Some (d, r)" "in_bounds h p t"
  shows "gget (tn_indexes (h p)) t = Some (int (length d) - 1)" "kids h p = d @ r"
proof -
  obtain a where a: "gget (tn_indexes (h p)) t = Some a" "d = take (nat (a + 1)) (kids h p)" "r = drop (nat (a + 1)) (kids h p)"
    using assms(1) by (auto simp: cursor_def)
  have "- 1 \<le> a" "a < int (length (kids h p))" using a(1) assms(2) by (auto simp: in_bounds_def)
  then have "int (length d) - 1 = a" using a(2) by simp
  with a(1) show "gget (tn_indexes (h p)) t = Some (int (length d) - 1)" by simp
  show "kids h p = d @ r" using a(2,3) by simp
qed

lemma each_loop_visits:
  assumes "keeps_ahead f p"
  shows "tree_ok h \<Longrightarrow> gget (tn_indexes (h p)) t = Some (int (length d)) \<Longrightarrow> kids h p = d @ r \<Longrightarrow>
    \<exists>h1. each_loop (logged f) p t (h, s) = Some (False, h1, s @ r) \<and> tree_ok h1"
proof (induction r arbitrary: h d s)
  case Nil
  then have "js_at (kids h p) (int (length d)) = None" by (simp add: js_at_def)
  with each_loop_end [of h p t "int (length d)" "logged f" s] Nil show ?case by simp
next
  case (Cons x r)
  have at: "js_at (kids h p) (int (length d)) = Some x" by (simp add: js_at_def Cons.prems(3) nth_append)
  have n: "nat (int (length d) + 1) = Suc (length d)" by simp
  have c: "cursor h p t = Some (d @ [x], r)" by (simp add: cursor_def Cons.prems(2,3) n)
  have "in_bounds h p t" by (simp add: in_bounds_def Cons.prems(2,3))
  with assms Cons.prems(1) c obtain h1 d1 where h1: "f x h = Some h1" "tree_ok h1" "cursor h1 p t = Some (d1, r)" "in_bounds h1 p t"
    unfolding keeps_ahead_def by blast
  note i = cursor_index [OF h1(3,4)]
  have "each_loop (logged f) p t (h, s) = each_loop (logged f) p t (advance p t h1, s @ [x])"
    by (rule each_loop_step [OF Cons.prems(2) at]) (simp add: logged_def h1(1))
  moreover have "\<exists>h2. each_loop (logged f) p t (advance p t h1, s @ [x]) = Some (False, h2, (s @ [x]) @ r) \<and> tree_ok h2"
    by (rule Cons.IH) (simp_all add: h1(2) i)
  ultimately show ?case by simp
qed

text \<open>
  A walk over the children ends and visits each of them exactly once, in order, whatever its
  callback does to the child it is called for and to those behind: remove or replace it, insert before
  it, or move nodes from elsewhere in front of it.
\<close>

theorem each_visits_once:
  assumes "tree_ok h" "tn_nodes (h p) \<noteq> None" "keeps_ahead f p"
  shows "\<exists>h1. each (logged f) p (h, []) = Some (False, h1, kids h p) \<and> tree_ok h1"
proof -
  obtain t h0 where t: "getIterator p h = (t, h0)" by (cases "getIterator p h")
  then have h0: "t = tn_lastEach (h p) + 1" "h0 = h(p := (h p)\<lparr>tn_lastEach := t, tn_indexes := gput t 0 (tn_indexes (h p))\<rparr>)"
    by (auto simp: getIterator_def Let_def)
  have k: "kids h0 q = kids h q" "tn_parent (h0 m) = tn_parent (h m)" for q m by (auto simp: h0(2) kids_def)
  then have "tree_ok h0" using assms(1) by (simp add: tree_ok_def)
  moreover have "gget (tn_indexes (h0 p)) t = Some (int (length []))" by (simp add: h0(2))
  ultimately obtain h1 where h1: "each_loop (logged f) p t (h0, []) = Some (False, h1, kids h p)" "tree_ok h1"
    using each_loop_visits [OF assms(3), of h0 t "[]" "kids h p" "[]"] k(1) by auto
  have "tree_ok (h1(p := (h1 p)\<lparr>tn_indexes := m\<rparr>))" for m
  proof -
    have "kids (h1(p := (h1 p)\<lparr>tn_indexes := m\<rparr>)) q = kids h1 q" "tn_parent ((h1(p := (h1 p)\<lparr>tn_indexes := m\<rparr>)) n) = tn_parent (h1 n)" for q n
      by (simp_all add: kids_def)
    with h1(2) show ?thesis by (simp add: tree_ok_def)
  qed
  then show ?thesis using assms(2) t h1(1) by (cases "tn_nodes (h p)") (simp_all add: each_def)
qed

lemma keeps_ahead_remove: "keeps_ahead (\<lambda>x. removeChild p (Ref x) False) p"
  unfolding keeps_ahead_def
proof (intro allI impI)
  fix x h t d r
  assume a: "tree_ok h" "cursor h p t = Some (d @ [x], r)" "in_bounds h p t"
  note k = cursor_index [OF a(2,3)]
  have d: "x \<notin> set d" "x \<notin> set r" "x \<in> set (kids h p)" using kids_distinct [OF a(1), of p] k(2) by auto
  obtain h1 where h1: "removeChild p (Ref x) False h = Some h1" using removeChild_total [OF d(3)] by blast
  from removeChild_effect(2) [OF h1] a(1) linked_empty have rm: "removes {x} h h1" by blast
  have "without {x} (d @ [x], r) = (d, r)" using d by (auto simp: without_def filter_id_conv)
  with removes_cursor [OF rm, of p t] a(2) have "cursor h1 p t = Some (d, r)" by simp
  with h1 removeChild_ok [OF h1 a(1)] removes_bounds [OF rm a(3)]
  show "\<exists>h1 d1. removeChild p (Ref x) False h = Some h1 \<and> tree_ok h1 \<and> cursor h1 p t = Some (d1, r) \<and> in_bounds h1 p t" by blast
qed

theorem each_visits_once_witness:
  "\<exists>h1. each (logged (\<lambda>x. removeChild 0 (Ref x) False)) 0 (demo_tree, []) = Some (False, h1, [1, 2, 3]) \<and> tree_ok h1"
proof -
  have "tn_nodes (demo_tree 0) \<noteq> None" "kids demo_tree 0 = [1, 2, 3]" by (simp_all add: demo_tree_def kids_def)
  with each_visits_once [OF demo_tree_ok this(1) keeps_ahead_remove] show ?thesis by simp
qed

section \<open>Replacing\<close>

lemma insertAfter_total:
  assumes "tree_ok h" "tn_nodes (h p) \<noteq> None" "distinct (new_list a h)"
  shows "\<exists>h1. insertAfter p e a h = Some h1"
proof -
  obtain h0 where "normalize p a (js_at (kids h p) (index_at h p e)) False h = Some (new_list a h, h0)"
    using normalize_total [OF assms(1,3)] by blast
  with assms(2) show ?thesis by (simp add: insertAfter_def Let_def)
qed

lemma insertBefore_total:
  assumes "tree_ok h" "tn_nodes (h p) \<noteq> None" "distinct (new_list a h)"
  shows "\<exists>h1. insertBefore p e a h = Some h1"
proof -
  obtain h0 where "normalize p a (js_at (kids h p) (index_at h p e)) (index_at h p e = 0) h = Some (new_list a h, h0)"
    using normalize_total [OF assms(1,3)] by blast
  with assms(2) show ?thesis by (simp add: insertBefore_def Let_def)
qed

lemma tree_parent: "tree_ok h \<Longrightarrow> n \<in> set (kids h p) \<Longrightarrow> tn_parent (h n) = Some p \<and> tn_nodes (h p) \<noteq> None"
  by (cases "tn_nodes (h p)") (simp_all add: tree_ok_def kids_def)

lemma kind_insertAfter: "insertAfter p e a h = Some h1 \<Longrightarrow> tree_ok h \<Longrightarrow> tn_kind (h1 m) = tn_kind (h m)"
  by (erule (1) insertAfter_form) (simp add: removes_kind [OF normalize_effect(3)])

lemma kind_insertBefore: "insertBefore p e a h = Some h1 \<Longrightarrow> tree_ok h \<Longrightarrow> tn_kind (h1 m) = tn_kind (h m)"
  by (erule (1) insertBefore_form) (simp add: removes_kind [OF normalize_effect(3)])

abbreviation drop_nodes :: "nref list \<Rightarrow> nref list \<Rightarrow> nref list" where
  "drop_nodes ns xs \<equiv> filter (\<lambda>n. n \<notin> set ns) xs"

lemma replace_loop_after:
  assumes "distinct ns" "t \<notin> set ns" "x \<notin> set ns" "\<forall>n \<in> set ns. tn_kind (h n) \<noteq> TRoot"
    "tree_ok h" "kids h p = A @ t # B" "x \<in> set (kids h p)"
  shows "\<exists>h1. replace_loop x t True ns h = Some (True, h1) \<and> tree_ok h1 \<and> kids h1 p = drop_nodes ns A @ t # ns @ drop_nodes ns B"
  using assms
proof (induction ns arbitrary: h A t B)
  case (Cons n ns)
  have l: "new_list (Node n) h = [n]" using Cons.prems(4) by (simp add: new_list_def)
  note pa = tree_parent [OF Cons.prems(5,7)]
  obtain h1 where h1: "insertAfter p (Ref t) (Node n) h = Some h1"
    using insertAfter_total [OF Cons.prems(5), of p "Node n"] pa l by auto
  note ok = insertAfter_ok(1) [OF h1 Cons.prems(5)]
  have tn: "t \<in> set (kids h p)" "t \<notin> set (new_list (Node n) h)" using Cons.prems(2,6) l by auto
  have d: "t \<notin> set A" "t \<notin> set B" using kids_distinct [OF Cons.prems(5), of p] Cons.prems(6) by auto
  have k: "kids h1 p = (drop_nodes [n] A @ [t]) @ n # drop_nodes [n] B"
    using insertAfter_child(1) [OF h1 Cons.prems(5) tn] Cons.prems(2,6) d unfolding l by (simp add: list_absent)
  have x: "x \<in> set (kids h1 p)" using Cons.prems(3,6,7) by (auto simp: k)
  have "\<exists>h2. replace_loop x n True ns h1 = Some (True, h2) \<and> tree_ok h2 \<and>
      kids h2 p = drop_nodes ns (drop_nodes [n] A @ [t]) @ n # ns @ drop_nodes ns (drop_nodes [n] B)"
    using Cons.prems(1-4) kind_insertAfter [OF h1 Cons.prems(5)] by (intro Cons.IH [OF _ _ _ _ ok k x]) auto
  moreover have "drop_nodes ns (drop_nodes [n] xs) = drop_nodes (n # ns) xs" for xs by (auto intro: filter_cong)
  moreover have "replace_loop x t True (n # ns) h = replace_loop x n True ns h1"
    using Cons.prems(3) pa h1 by simp
  ultimately show ?case using Cons.prems(2) by simp
qed simp

lemma replace_loop_before:
  assumes "distinct (ns @ ms)" "x \<notin> set ns" "\<forall>n \<in> set ns. tn_kind (h n) \<noteq> TRoot"
    "tree_ok h" "kids h p = A @ x # B"
  shows "\<exists>h1. replace_loop x x False (ns @ ms) h = replace_loop x x False ms h1 \<and> tree_ok h1 \<and>
    kids h1 p = drop_nodes ns A @ ns @ x # drop_nodes ns B \<and> (\<forall>m. tn_kind (h1 m) = tn_kind (h m))"
  using assms
proof (induction ns arbitrary: h A B)
  case (Cons n ns)
  have l: "new_list (Node n) h = [n]" using Cons.prems(3) by (simp add: new_list_def)
  have x: "x \<in> set (kids h p)" using Cons.prems(5) by simp
  note pa = tree_parent [OF Cons.prems(4) x]
  obtain h1 where h1: "insertBefore p (Ref x) (Node n) h = Some h1"
    using insertBefore_total [OF Cons.prems(4), of p "Node n"] pa l by auto
  note ok = insertBefore_ok(1) [OF h1 Cons.prems(4)]
  have tn: "x \<notin> set (new_list (Node n) h)" using Cons.prems(2) l by auto
  have d: "x \<notin> set A" "x \<notin> set B" using kids_distinct [OF Cons.prems(4), of p] Cons.prems(5) by auto
  have k: "kids h1 p = (drop_nodes [n] A @ [n]) @ x # drop_nodes [n] B"
    using insertBefore_child(1) [OF h1 Cons.prems(4) x tn] Cons.prems(2,5) d unfolding l by (simp add: list_absent)
  have "\<exists>h2. replace_loop x x False (ns @ ms) h1 = replace_loop x x False ms h2 \<and> tree_ok h2 \<and>
      kids h2 p = drop_nodes ns (drop_nodes [n] A @ [n]) @ ns @ x # drop_nodes ns (drop_nodes [n] B) \<and> (\<forall>m. tn_kind (h2 m) = tn_kind (h1 m))"
    using Cons.prems(1-3) kind_insertBefore [OF h1 Cons.prems(4)] by (intro Cons.IH [OF _ _ _ ok k]) auto
  moreover have "drop_nodes ns (drop_nodes [n] xs) = drop_nodes (n # ns) xs" for xs by (auto intro: filter_cong)
  moreover have "replace_loop x x False ((n # ns) @ ms) h = replace_loop x x False (ns @ ms) h1"
    using Cons.prems(2) pa h1 by simp
  ultimately show ?case using Cons.prems(1) kind_insertBefore [OF h1 Cons.prems(4)] by auto
qed auto

text \<open>
  Replacing a child puts the given nodes in its place, in their order: the child leaves unless it is
  among them, nodes that were elsewhere among its siblings move, and the tree stays linked.
\<close>

theorem replace_puts_nodes:
  assumes "tree_ok h" "kids h p = A @ x # B" "distinct ns" "\<forall>n \<in> set ns. tn_kind (h n) \<noteq> TRoot"
  shows "\<exists>h1. replaceWith x ns h = Some h1 \<and> tree_ok h1 \<and>
    kids h1 p = filter (\<lambda>n. n \<notin> set ns) A @ ns @ filter (\<lambda>n. n \<notin> set ns) B"
proof -
  have x: "x \<in> set (kids h p)" "x \<notin> set A" "x \<notin> set B" using kids_distinct [OF assms(1), of p] assms(2) by auto
  note pa = tree_parent [OF assms(1) x(1)]
  show ?thesis
  proof (cases "x \<in> set ns")
    case False
    have "distinct (ns @ [])" using assms(3) by simp
    from replace_loop_before [OF this False assms(4,1,2)] obtain h1 where h1:
      "replace_loop x x False ns h = Some (False, h1)" "tree_ok h1" "kids h1 p = drop_nodes ns A @ ns @ x # drop_nodes ns B" by auto
    have xk: "x \<in> set (kids h1 p)" using h1(3) by simp
    obtain h2 where h2: "removeChild p (Ref x) False h1 = Some h2" using removeChild_total [OF xk] by blast
    then have rm: "remove x h1 = Some (set_parent x None h2)" using tree_parent [OF h1(2) xk] by (simp add: remove_def)
    from removeChild_effect(2) [OF h2] h1(2) linked_empty have "removes {x} h1 h2" by blast
    moreover have "filter (\<lambda>n. n \<notin> {x}) xs = xs" if "x \<notin> set xs" for xs using that by (auto simp: filter_id_conv)
    ultimately have "kids h2 p = drop_nodes ns A @ ns @ drop_nodes ns B"
      using removes_kids [of "{x}" h1 h2 p] x(2,3) False by (simp add: h1(3) del: filter_filter)
    then show ?thesis using pa h1(1) rm remove_ok [OF rm h1(2)] by (simp add: replaceWith_def)
  next
    case True
    then obtain us vs where ns: "ns = us @ x # vs" "x \<notin> set us" by (meson split_list_first)
    have vs: "distinct vs" "x \<notin> set vs" "\<forall>n \<in> set us. tn_kind (h n) \<noteq> TRoot" "distinct (us @ x # vs)"
      using assms(3,4) by (auto simp: ns(1))
    from replace_loop_before [OF vs(4) ns(2) vs(3) assms(1,2)] obtain h1 where h1:
      "replace_loop x x False ns h = replace_loop x x False (x # vs) h1" "tree_ok h1"
      "kids h1 p = (drop_nodes us A @ us) @ x # drop_nodes us B" "\<forall>m. tn_kind (h1 m) = tn_kind (h m)" by (auto simp: ns(1))
    have "\<forall>n \<in> set vs. tn_kind (h1 n) \<noteq> TRoot" "x \<in> set (kids h1 p)" using assms(4) h1(3,4) by (auto simp: ns(1))
    from replace_loop_after [OF vs(1,2,2) this(1) h1(2,3) this(2)] obtain h2 where h2:
      "replace_loop x x False (x # vs) h1 = Some (True, h2)" "tree_ok h2"
      "kids h2 p = drop_nodes vs (drop_nodes us A @ us) @ x # vs @ drop_nodes vs (drop_nodes us B)" by auto
    have f: "drop_nodes vs (drop_nodes us xs) = drop_nodes ns xs" if "x \<notin> set xs" for xs
      using that by (auto simp: ns(1) intro!: filter_cong)
    have "drop_nodes vs us = us" using assms(3) by (auto simp: ns(1) filter_id_conv)
    then have "kids h2 p = drop_nodes ns A @ ns @ drop_nodes ns B" using f [OF x(2)] f [OF x(3)] by (simp add: h2(3)) (simp add: ns(1))
    then show ?thesis using pa h1(1) h2(1,2) by (simp add: replaceWith_def)
  qed
qed

theorem replace_puts_nodes_witness:
  "\<exists>h1. replaceWith 2 [4, 2, 1] demo_tree = Some h1 \<and> tree_ok h1 \<and> kids h1 0 = [4, 2, 1, 3]"
proof -
  have "kids demo_tree 0 = [1] @ 2 # [3]" "distinct [4, 2, 1 :: nat]" "\<forall>n \<in> set [4, 2, 1]. tn_kind (demo_tree n) \<noteq> TRoot"
    by (simp_all add: demo_tree_def kids_def)
  from replace_puts_nodes [OF demo_tree_ok this] show ?thesis by simp
qed

section \<open>Neighbours\<close>

lemma push_ok: "tree_ok h \<Longrightarrow> tn_parent (h n) = None \<Longrightarrow> push p n h = Some h1 \<Longrightarrow> tree_ok h1 \<and> kids h1 p = kids h p @ [n]"
proof -
  assume ok: "tree_ok h" and n: "tn_parent (h n) = None" and p: "push p n h = Some h1"
  obtain ns where "tn_nodes (h p) = Some ns" "h1 = set_nodes p (ns @ [n]) (set_parent n (Some p) h)"
    using p by (auto simp: push_def split: option.splits)
  then have h1: "tn_nodes (h p) = Some (kids h p)" "h1 = set_nodes p (kids h p @ [n]) (set_parent n (Some p) h)" by (simp_all add: kids_def)
  have out: "n \<notin> set (kids h q)" for q using ok n by (metis option.distinct(1) tree_ok_def)
  then show ?thesis using ok by (auto simp: tree_ok_def h1(2))
qed

text \<open>In a linked tree the next sibling's previous sibling is the node itself.\<close>

lemma next_prev: "tree_ok h \<Longrightarrow> next_node h n = Some m \<longleftrightarrow> prev_node h m = Some n"
proof -
  assume ok: "tree_ok h"
  have idx: "js_at (kids h p) i = Some m \<longleftrightarrow> m \<in> set (kids h p) \<and> index_of (kids h p) m = i" for p i m
  proof
    assume "js_at (kids h p) i = Some m"
    then have i: "nat i < length (kids h p)" "m = kids h p ! nat i" "int (nat i) = i" by (auto simp: js_at_def split: if_splits)
    then show "m \<in> set (kids h p) \<and> index_of (kids h p) m = i" using index_of_nth [OF kids_distinct [OF ok] i(1)] by simp
  next
    assume "m \<in> set (kids h p) \<and> index_of (kids h p) m = i"
    then show "js_at (kids h p) i = Some m" using js_at_index [of "kids h p" m] by simp
  qed
  have pa: "tn_parent (h x) = Some p \<longleftrightarrow> x \<in> set (kids h p)" for x p using ok by (simp add: tree_ok_def)
  show ?thesis by (auto simp: next_node_def prev_node_def bind_eq_Some_conv idx pa)
qed

end
