(* ===== verification/Value_Parser.thy ===== *)
theory Value_Parser
  imports Css_Tokenizer
begin

text \<open>
  The parser and printer of CSS values that the compiler uses to evaluate its functions in values
  (modules \<open>iy\<close> and \<open>uy\<close>, \<^verbatim>\<open>postcss-value-parser\<close>, in \<^verbatim>\<open>tailwind.js\<close>).  Open functions are a stack of frames;
  source indices of nodes are left out.  The code appends a missing closing character to its text;
  here the search for it has no result.
\<close>

section \<open>Nodes\<close>

datatype value_node =
  VWord string
| VSpace string
| VString char string bool \<comment> \<open>quote, value, unclosed\<close>
| VComment string bool
| VDiv string string string \<comment> \<open>value, before, after\<close>
| VFunction string string "value_node list" string bool \<comment> \<open>value, before, nodes, after, unclosed\<close>
| VUnicode string

text \<open>\<open>ay\<close> and \<open>oy\<close> without a callback.\<close>

fun value_text :: "value_node \<Rightarrow> string" where
  "value_text (VWord v) = v"
| "value_text (VSpace v) = v"
| "value_text (VString q v u) = q # v @ (if u then [] else [q])"
| "value_text (VComment v u) = ''/*'' @ v @ (if u then [] else ''*/'')"
| "value_text (VDiv v b a) = b @ v @ a"
| "value_text (VFunction v b ns a u) = v @ ''('' @ b @ concat (map value_text ns) @ a @ (if u then [] else '')'')"
| "value_text (VUnicode v) = v"

definition value_stringify :: "value_node list \<Rightarrow> string" where
  "value_stringify ns = concat (map value_text ns)"

section \<open>Parsing\<close>

record vframe =
  vf_name :: string
  vf_before :: string
  vf_nodes :: "value_node list"

record vstate =
  vs_pos :: nat
  vs_root :: "value_node list"
  vs_open :: "vframe list" \<comment> \<open>the open functions, innermost first\<close>
  vs_opened :: bool \<comment> \<open>a function was opened before: \<open>parent\<close> is set\<close>
  vs_name :: string
  vs_before :: string
  vs_after :: string

definition vs_start :: vstate where
  "vs_start = \<lparr>vs_pos = 0, vs_root = [], vs_open = [], vs_opened = False, vs_name = [], vs_before = [], vs_after = []\<rparr>"

definition vspace :: "char \<Rightarrow> bool" where
  "vspace c \<longleftrightarrow> (of_char c :: nat) \<le> 32"

definition vs_nodes :: "vstate \<Rightarrow> value_node list" where
  "vs_nodes st = (case vs_open st of [] \<Rightarrow> vs_root st | f # _ \<Rightarrow> vf_nodes f)"

definition vs_put :: "value_node list \<Rightarrow> vstate \<Rightarrow> vstate" where
  "vs_put ns st = (case vs_open st of [] \<Rightarrow> st\<lparr>vs_root := ns\<rparr> | f # fs \<Rightarrow> st\<lparr>vs_open := f\<lparr>vf_nodes := ns\<rparr> # fs\<rparr>)"

definition vs_push :: "value_node \<Rightarrow> nat \<Rightarrow> vstate \<Rightarrow> vstate" where
  "vs_push n d st = (vs_put (vs_nodes st @ [n]) st)\<lparr>vs_pos := d\<rparr>"

definition between :: "string \<Rightarrow> nat \<Rightarrow> nat \<Rightarrow> string" where
  "between t i j = take (j - i) (drop i t)"

text \<open>A separator at the end of the nodes, without its white space.\<close>

definition split_div :: "value_node list \<Rightarrow> (value_node list \<times> string \<times> string) option" where
  "split_div ns = (case rev ns of VDiv v b _ # ms \<Rightarrow> Some (rev ms, v, b) | _ \<Rightarrow> None)"

definition v_space :: "string \<Rightarrow> vstate \<Rightarrow> vstate" where
  "v_space t st =
     (let d = vs_pos st; i = Suc (run_end vspace t d); a = between t d i; p = char_at t i; ns = vs_nodes st in
      if p = Some CHR '')'' \<and> vs_open st \<noteq> [] then st\<lparr>vs_after := a, vs_pos := i\<rparr>
      else case split_div ns of
        Some (ms, v, b) \<Rightarrow> (vs_put (ms @ [VDiv v b a]) st)\<lparr>vs_pos := i\<rparr>
      | None \<Rightarrow>
          if p = Some CHR '','' \<or> p = Some CHR '':'' \<or> p = Some CHR ''/'' \<and> char_at t (Suc i) \<noteq> Some CHR ''*'' \<and> \<not> vs_opened st
          then st\<lparr>vs_before := a, vs_pos := i\<rparr>
          else vs_push (VSpace a) i st)"

definition v_string :: "string \<Rightarrow> char \<Rightarrow> vstate \<Rightarrow> vstate" where
  "v_string t q st =
     (let d = vs_pos st in
      case close_after t q d of
        Some i \<Rightarrow> vs_push (VString q (between t (Suc d) i) False) (Suc i) st
      | None \<Rightarrow> vs_push (VString q (drop (Suc d) t) True) (Suc (length t)) st)"

definition v_comment :: "string \<Rightarrow> vstate \<Rightarrow> vstate" where
  "v_comment t st =
     (let d = vs_pos st in
      case index_from t ''*/'' d of
        Some i \<Rightarrow> vs_push (VComment (between t (d + 2) i) False) (i + 2) st
      | None \<Rightarrow> vs_push (VComment (drop (d + 2) t) True) (length t + 2) st)"

text \<open>The last index before \<open>i\<close> with a character that is no space; the opening parenthesis bounds the search.\<close>

definition last_solid_before :: "string \<Rightarrow> nat \<Rightarrow> nat" where
  "last_solid_before t i = length (dropWhile vspace (rev (take i t))) - 1"

definition v_url :: "string \<Rightarrow> nat \<Rightarrow> vstate \<Rightarrow> vstate" where
  "v_url t d st =
     (let f = vs_pos st; bef = between t (Suc f) d; m = close_after t (CHR '')'') (d - 1); u = (m = None);
          i = (case m of Some i \<Rightarrow> i | None \<Rightarrow> length t); c = last_solid_before t i;
          nodes = (if f < c then if d \<noteq> Suc c then [VWord (between t d (Suc c))] else [] else []);
          fn = (if f < c
                then if u \<and> Suc c \<noteq> i
                     then VFunction (vs_name st) bef (nodes @ [VSpace (between t (Suc c) i)]) [] u
                     else VFunction (vs_name st) bef nodes (between t (Suc c) i) u
                else VFunction (vs_name st) bef [] [] u)
      in (vs_push fn (Suc i) st)\<lparr>vs_name := []\<rparr>)"

definition v_open :: "string \<Rightarrow> vstate \<Rightarrow> vstate" where
  "v_open t st =
     (let d = Suc (run_end vspace t (vs_pos st)); p = char_at t d in
      if vs_name st = ''url'' \<and> p \<noteq> Some CHR 0x27 \<and> p \<noteq> Some CHR 0x22 then v_url t d st
      else st\<lparr>vs_open := \<lparr>vf_name = vs_name st, vf_before = between t (Suc (vs_pos st)) d, vf_nodes = []\<rparr> # vs_open st,
              vs_opened := True, vs_name := [], vs_pos := d\<rparr>)"

definition v_close :: "vstate \<Rightarrow> vstate" where
  "v_close st =
     (case vs_open st of
        [] \<Rightarrow> st
      | f # fs \<Rightarrow>
          (vs_push (VFunction (vf_name f) (vf_before f) (vf_nodes f) (vs_after st) False) (Suc (vs_pos st)) (st\<lparr>vs_open := fs\<rparr>))
            \<lparr>vs_after := []\<rparr>)"

definition word_stop :: "bool \<Rightarrow> char \<Rightarrow> bool" where
  "word_stop fn c \<longleftrightarrow> vspace c \<or> c \<in> {CHR 0x27, CHR 0x22, CHR '','', CHR '':'', CHR ''/'', CHR ''(''} \<or> fn \<and> c \<in> {CHR ''*'', CHR '')''}"

function word_run :: "string \<Rightarrow> bool \<Rightarrow> nat \<Rightarrow> nat" where
  "word_run t fn i =
     (let j = (if t ! i = backslash then i + 2 else i + 1) in
      if j < length t \<and> \<not> word_stop fn (t ! j) then word_run t fn j else j)"
  by pat_completeness auto
termination
  by (relation "measure (\<lambda>(t, fn, i). length t - i)") auto

declare word_run.simps [simp del]

definition unicode_range :: "string \<Rightarrow> bool" where
  "unicode_range a \<longleftrightarrow>
     length a > 2 \<and> (a ! 0 = CHR ''u'' \<or> a ! 0 = CHR ''U'') \<and> a ! 1 = CHR ''+'' \<and>
     list_all (\<lambda>c. c \<in> set ''abcdefABCDEF0123456789?-'') (drop 2 a)"

definition v_word :: "string \<Rightarrow> vstate \<Rightarrow> vstate" where
  "v_word t st =
     (let d = vs_pos st; i = word_run t (vs_open st \<noteq> []) d; a = between t d i in
      if char_at t i = Some CHR ''('' then st\<lparr>vs_name := a, vs_pos := i\<rparr>
      else if unicode_range a then vs_push (VUnicode a) i st
      else vs_push (VWord a) i st)"

text \<open>One round of the loop, at a position inside the text.\<close>

definition value_step :: "string \<Rightarrow> vstate \<Rightarrow> vstate" where
  "value_step t st =
     (let d = vs_pos st; p = t ! d; fn = (vs_open st \<noteq> []) in
      if vspace p then v_space t st
      else if p = CHR 0x27 \<or> p = CHR 0x22 then v_string t p st
      else if p = CHR ''/'' \<and> char_at t (Suc d) = Some CHR ''*'' then v_comment t st
      else if (p = CHR ''/'' \<or> p = CHR ''*'') \<and> fn then vs_push (VWord [p]) (Suc d) st
      else if p = CHR ''/'' \<or> p = CHR '','' \<or> p = CHR '':'' then (vs_push (VDiv [p] (vs_before st) []) (Suc d) st)\<lparr>vs_before := []\<rparr>
      else if p = CHR ''('' then v_open t st
      else if p = CHR '')'' \<and> fn then v_close st
      else v_word t st)"

text \<open>At the end every open function is unclosed.\<close>

fun close_all :: "vframe list \<Rightarrow> value_node list \<Rightarrow> value_node list" where
  "close_all [] root = root"
| "close_all [f] root = root @ [VFunction (vf_name f) (vf_before f) (vf_nodes f) [] True]"
| "close_all (f # g # fs) root =
     close_all (g\<lparr>vf_nodes := vf_nodes g @ [VFunction (vf_name f) (vf_before f) (vf_nodes f) [] True]\<rparr> # fs) root"

section \<open>The loop\<close>

lemma vs_put_sel [simp]:
  "vs_pos (vs_put ns st) = vs_pos st" "vs_opened (vs_put ns st) = vs_opened st" "vs_name (vs_put ns st) = vs_name st"
  "vs_before (vs_put ns st) = vs_before st" "vs_after (vs_put ns st) = vs_after st" "vs_nodes (vs_put ns st) = ns"
  "vs_open (vs_put ns st) = [] \<longleftrightarrow> vs_open st = []"
  by (simp_all add: vs_put_def vs_nodes_def split: list.split)

lemma vs_push_sel [simp]:
  "vs_pos (vs_push n d st) = d" "vs_opened (vs_push n d st) = vs_opened st" "vs_name (vs_push n d st) = vs_name st"
  "vs_before (vs_push n d st) = vs_before st" "vs_after (vs_push n d st) = vs_after st"
  "vs_open (vs_push n d st) = [] \<longleftrightarrow> vs_open st = []"
  by (simp_all add: vs_push_def)

lemma word_run_gt: "i < word_run t fn i"
proof (induction t fn i rule: word_run.induct)
  case (1 t fn i)
  define j where "j = (if t ! i = backslash then i + 2 else i + 1)"
  have w: "word_run t fn i = (if j < length t \<and> \<not> word_stop fn (t ! j) then word_run t fn j else j)"
    unfolding word_run.simps [of t fn i] j_def [symmetric] Let_def ..
  have "i < j" by (simp add: j_def)
  with w 1 [OF j_def] show ?case by auto
qed

lemma value_step_pos:
  assumes "vs_pos st < length t"
  shows "vs_pos st < vs_pos (value_step t st)"
proof -
  let ?d = "vs_pos st"
  have run: "?d \<le> run_end vspace t ?d" by (rule run_end_ge)
  have sp: "?d < vs_pos (v_space t st)" using run by (auto simp: v_space_def Let_def split: option.split)
  have str: "?d < vs_pos (v_string t q st)" for q
    using assms close_after_gt [of t q ?d] by (auto simp: v_string_def Let_def split: option.split)
  have com: "?d < vs_pos (v_comment t st)"
    using assms index_from_Some [of t "''*/''" ?d] by (fastforce simp: v_comment_def Let_def split: option.split)
  have "?d < vs_pos (v_url t d st)" if "?d < d" for d
    using that assms close_after_gt [of t "CHR '')''" "d - 1"] by (auto simp: v_url_def Let_def split: option.split)
  then have op: "?d < vs_pos (v_open t st)" using run by (auto simp: v_open_def Let_def)
  have cl: "vs_open st \<noteq> [] \<Longrightarrow> ?d < vs_pos (v_close st)" by (auto simp: v_close_def split: list.split)
  have wd: "?d < vs_pos (v_word t st)" using word_run_gt [of ?d t] by (simp add: v_word_def Let_def)
  show ?thesis using sp str com op cl wd by (simp add: value_step_def Let_def)
qed

function value_loop :: "string \<Rightarrow> vstate \<Rightarrow> vstate" where
  "value_loop t st = (if vs_pos st < length t then value_loop t (value_step t st) else st)"
  by pat_completeness auto
termination
  by (relation "measure (\<lambda>(t, st). length t - vs_pos st)") (auto intro: diff_less_mono2 value_step_pos)

declare value_loop.simps [simp del]

definition value_parse :: "string \<Rightarrow> value_node list" where
  "value_parse t = (let st = value_loop t vs_start in close_all (vs_open st) (vs_root st))"

section \<open>Printing what was parsed\<close>

definition frame_text :: "vframe \<Rightarrow> string" where
  "frame_text f = vf_name f @ ''('' @ vf_before f @ value_stringify (vf_nodes f)"

definition tree_text :: "vstate \<Rightarrow> string" where
  "tree_text st = value_stringify (vs_root st) @ concat (map frame_text (rev (vs_open st)))"

definition pending :: "vstate \<Rightarrow> string" where
  "pending st = vs_name st @ vs_before st @ vs_after st"

lemma value_stringify_simps [simp]:
  "value_stringify [] = []" "value_stringify (ns @ ms) = value_stringify ns @ value_stringify ms"
  "value_stringify (n # ns) = value_text n @ value_stringify ns"
  by (simp_all add: value_stringify_def)

lemma value_text_function [simp]:
  "value_text (VFunction v b ns a u) = v @ ''('' @ b @ value_stringify ns @ a @ (if u then [] else '')'')"
  by (simp add: value_stringify_def)

declare value_text.simps(6) [simp del]

lemma tree_text_put: "value_stringify ns = value_stringify (vs_nodes st) @ x \<Longrightarrow> tree_text (vs_put ns st) = tree_text st @ x"
  by (cases "vs_open st") (auto simp: tree_text_def vs_put_def vs_nodes_def frame_text_def)

lemma tree_text_sel [simp]:
  "tree_text (st\<lparr>vs_pos := d\<rparr>) = tree_text st" "tree_text (st\<lparr>vs_name := w\<rparr>) = tree_text st"
  "tree_text (st\<lparr>vs_before := w\<rparr>) = tree_text st" "tree_text (st\<lparr>vs_after := w\<rparr>) = tree_text st"
  "tree_text (st\<lparr>vs_opened := b\<rparr>) = tree_text st"
  by (simp_all add: tree_text_def)

lemma tree_text_push [simp]: "tree_text (vs_push n d st) = tree_text st @ value_text n"
  by (simp add: vs_push_def tree_text_put)

lemma close_all_text: "value_stringify (close_all fs root) = value_stringify root @ concat (map frame_text (rev fs))"
  by (induction fs root rule: close_all.induct) (simp_all add: frame_text_def)

text \<open>
  What holds between two rounds: pending text is followed by the character that takes it up, and a
  separator that has its white space is not followed by more.
\<close>

definition div_after :: "value_node list \<Rightarrow> bool" where
  "div_after ns \<longleftrightarrow> (case rev ns of VDiv v b a # _ \<Rightarrow> a \<noteq> [] | _ \<Rightarrow> False)"

definition value_inv :: "string \<Rightarrow> vstate \<Rightarrow> bool" where
  "value_inv t st \<longleftrightarrow>
     (let c = char_at t (vs_pos st) in
      (vs_open st \<noteq> [] \<longrightarrow> vs_opened st) \<and>
      (vs_name st \<noteq> [] \<longrightarrow> c = Some CHR ''('') \<and>
      (vs_before st \<noteq> [] \<longrightarrow> c = Some CHR '','' \<or> c = Some CHR '':'' \<or>
         c = Some CHR ''/'' \<and> char_at t (Suc (vs_pos st)) \<noteq> Some CHR ''*'' \<and> \<not> vs_opened st) \<and>
      (vs_after st \<noteq> [] \<longrightarrow> c = Some CHR '')'' \<and> vs_open st \<noteq> []) \<and>
      (div_after (vs_nodes st) \<longrightarrow> (case c of Some x \<Rightarrow> \<not> vspace x | None \<Rightarrow> True)))"

abbreviation whole :: "string \<Rightarrow> vstate \<Rightarrow> string" where
  "whole t st \<equiv> tree_text st @ pending st @ drop (vs_pos st) t"

lemma between_drop: "i \<le> j \<Longrightarrow> between t i j @ drop j t = drop i t"
  unfolding between_def by (metis append_take_drop_id drop_drop le_add_diff_inverse2)

lemma not_div_after [simp]: "div_after (ns @ [n]) \<longleftrightarrow> (case n of VDiv v b a \<Rightarrow> a \<noteq> [] | _ \<Rightarrow> False)"
  by (simp add: div_after_def)

lemma split_div_Some: "split_div ns = Some (ms, v, b) \<Longrightarrow> \<exists>x. ns = ms @ [VDiv v b x]"
  by (cases ns rule: rev_cases) (auto simp: split_div_def split: value_node.splits)

lemma vs_nodes_push [simp]: "vs_nodes (vs_push n d st) = vs_nodes st @ [n]"
  by (simp add: vs_push_def) (simp add: vs_nodes_def vs_put_def split: list.split)

lemma vs_nodes_sel [simp]:
  "vs_nodes (st\<lparr>vs_pos := d\<rparr>) = vs_nodes st" "vs_nodes (st\<lparr>vs_name := w\<rparr>) = vs_nodes st"
  "vs_nodes (st\<lparr>vs_before := w\<rparr>) = vs_nodes st" "vs_nodes (st\<lparr>vs_after := w\<rparr>) = vs_nodes st"
  by (cases "vs_open st"; simp add: vs_nodes_def)+

section \<open>Every round keeps the text\<close>

definition value_keeps :: "string \<Rightarrow> vstate \<Rightarrow> vstate \<Rightarrow> bool" where
  "value_keeps t st st' \<longleftrightarrow> value_inv t st' \<and> whole t st' = whole t st"

lemma push_keeps:
  assumes "value_inv t st" "pending st = []" "drop (vs_pos st) t = value_text n @ drop d t"
    "case n of VDiv v b a \<Rightarrow> a = [] | _ \<Rightarrow> True"
  shows "value_keeps t st (vs_push n d st)"
  using assms by (auto simp: value_keeps_def value_inv_def pending_def Let_def split: value_node.splits)

lemma pending_other:
  assumes "value_inv t st" "char_at t (vs_pos st) = Some c"
  shows "c \<notin> set '',:/()'' \<Longrightarrow> pending st = []"
    and "c = CHR ''('' \<Longrightarrow> pending st = vs_name st \<and> vs_before st = [] \<and> vs_after st = []"
    and "c \<in> set '',:'' \<Longrightarrow> pending st = vs_before st \<and> vs_name st = [] \<and> vs_after st = []"
    and "c = CHR '')'' \<Longrightarrow> pending st = vs_after st \<and> vs_before st = [] \<and> vs_name st = []"
    and "c = CHR ''/'' \<Longrightarrow> pending st = vs_before st \<and> vs_name st = [] \<and> vs_after st = []"
    and "c = CHR ''/'' \<Longrightarrow> char_at t (Suc (vs_pos st)) = Some CHR ''*'' \<or> vs_opened st \<Longrightarrow> pending st = []"
  using assms by (auto simp: value_inv_def pending_def Let_def)

lemma char_at_Some: "char_at t i = Some c \<longleftrightarrow> i < length t \<and> t ! i = c"
  by (auto simp: char_at_def)

lemma run_end_between:
  assumes "d < length t" "i = Suc (run_end P t d)"
  shows "d < i" "i \<le> length t" "case char_at t i of Some c \<Rightarrow> \<not> P c | None \<Rightarrow> True"
proof -
  let ?w = "takeWhile P (drop (Suc d) t)"
  show "d < i" using assms(2) by (simp add: run_end_def)
  have "length ?w \<le> length (drop (Suc d) t)" by (rule length_takeWhile_le)
  then show "i \<le> length t" using assms by (simp add: run_end_def)
  show "case char_at t i of Some c \<Rightarrow> \<not> P c | None \<Rightarrow> True"
  proof (cases "i < length t")
    case True
    then have l: "length ?w < length (drop (Suc d) t)" using assms(2) by (simp add: run_end_def)
    from nth_length_takeWhile [OF this] have "\<not> P (t ! i)" using l assms(2) by (simp add: run_end_def add.commute)
    with True show ?thesis by (simp add: char_at_def)
  qed (simp add: char_at_def)
qed

lemma v_space_keeps:
  assumes "value_inv t st" "vs_pos st < length t" "vspace (t ! vs_pos st)"
  shows "value_keeps t st (v_space t st)"
proof -
  define d where "d = vs_pos st"
  define i where "i = Suc (run_end vspace t d)"
  define a where "a = between t d i"
  define p where "p = char_at t i"
  have d: "d < length t" "d < i" "i \<le> length t" using assms(2) run_end_between(1,2) [of d t i vspace] by (simp_all add: d_def i_def)
  have p: "case p of Some c \<Rightarrow> \<not> vspace c | None \<Rightarrow> True" unfolding p_def using d(1) by (rule run_end_between(3)) (rule i_def)
  have a: "drop d t = a @ drop i t" using between_drop [of d i t] d(2) by (simp add: a_def)
  have c: "char_at t d = Some (t ! d)" using d(1) by (simp add: char_at_def)
  have sp: "vspace (t ! d)" using assms(3) by (simp add: d_def)
  have "t ! d \<notin> set '',:/()''" using sp by (auto simp: vspace_def)
  then have pe: "pending st = []" using pending_other(1) [OF assms(1)] c by (simp add: d_def)
  have nd: "\<not> div_after (vs_nodes st)" using assms(1) sp c by (auto simp: value_inv_def Let_def d_def)
  have opened: "vs_open st \<noteq> [] \<longrightarrow> vs_opened st" using assms(1) by (simp add: value_inv_def Let_def)
  define B where "B \<longleftrightarrow> p = Some CHR '','' \<or> p = Some CHR '':'' \<or> p = Some CHR ''/'' \<and> char_at t (Suc i) \<noteq> Some CHR ''*'' \<and> \<not> vs_opened st"
  define plain where "plain = (if B then st\<lparr>vs_before := a, vs_pos := i\<rparr> else vs_push (VSpace a) i st)"
  have def: "v_space t st =
     (if p = Some CHR '')'' \<and> vs_open st \<noteq> [] then st\<lparr>vs_after := a, vs_pos := i\<rparr>
      else case split_div (vs_nodes st) of
        Some (ms, v, b) \<Rightarrow> (vs_put (ms @ [VDiv v b a]) st)\<lparr>vs_pos := i\<rparr>
      | None \<Rightarrow> plain)"
    unfolding v_space_def Let_def d_def [symmetric] i_def [symmetric] a_def [symmetric] p_def [symmetric] B_def [symmetric] plain_def [symmetric] ..
  have inv: "value_inv t st' \<Longrightarrow> whole t st' = tree_text st @ a @ drop i t \<Longrightarrow> value_keeps t st st'" for st'
    using pe a by (simp add: value_keeps_def d_def)
  consider (close) "p = Some CHR '')'' \<and> vs_open st \<noteq> []" | (sep) v b ms where "split_div (vs_nodes st) = Some (ms, v, b)" "v_space t st = (vs_put (ms @ [VDiv v b a]) st)\<lparr>vs_pos := i\<rparr>"
    | (plain) "v_space t st = plain"
    unfolding def by (cases "p = Some CHR '')'' \<and> vs_open st \<noteq> []"; cases "split_div (vs_nodes st)") auto
  then show ?thesis
  proof cases
    case close
    then have "v_space t st = st\<lparr>vs_after := a, vs_pos := i\<rparr>" by (simp only: def if_True simp_thms)
    then show ?thesis using close pe nd opened by (auto intro!: inv simp: value_inv_def Let_def pending_def p_def)
  next
    case sep
    from split_div_Some [OF sep(1)] nd have "vs_nodes st = ms @ [VDiv v b []]" by auto
    then have "tree_text (vs_put (ms @ [VDiv v b a]) st) = tree_text st @ a" by (intro tree_text_put) simp
    then show ?thesis unfolding sep(2) using pe opened p
      by (intro inv) (simp_all add: value_inv_def Let_def pending_def p_def)
  next
    case plain
    show ?thesis
    proof (cases B)
      case True
      then show ?thesis unfolding plain plain_def using pe nd opened
        by (auto intro!: inv simp: value_inv_def Let_def pending_def p_def B_def)
    next
      case False
      show ?thesis unfolding plain plain_def using assms(1) pe a False by (simp only: if_False) (intro push_keeps; simp add: d_def)
    qed
  qed
qed

lemma drop_Cons_nth: "d < length t \<Longrightarrow> drop d t = t ! d # drop (Suc d) t"
  by (simp add: Cons_nth_drop_Suc)

lemma close_after_at: "close_after t q l = Some m \<Longrightarrow> l < m \<and> m < length t \<and> t ! m = q"
proof (induction t q l rule: close_after.induct)
  case (1 t q l)
  from 1(2) obtain k where k: "index_from t [q] (Suc l) = Some k" by (auto simp: close_after.simps [of t q l] split: option.splits)
  have kl: "l < k" "k < length t" "t ! k = q"
    using index_from_Some [OF k] index_from_lt [OF k] by (auto simp: drop_Cons_nth)
  show ?case
  proof (cases "escaped t k")
    case True
    with 1(2) k have "close_after t q k = Some m" by (simp add: close_after.simps [of t q l])
    with 1(1) [OF k True] kl show ?thesis by auto
  next
    case False
    with 1(2) k kl show ?thesis by (simp add: close_after.simps [of t q l])
  qed
qed

lemma v_string_keeps:
  assumes "value_inv t st" "vs_pos st < length t" "t ! vs_pos st = q" "q = CHR 0x27 \<or> q = CHR 0x22"
  shows "value_keeps t st (v_string t q st)"
proof -
  let ?d = "vs_pos st"
  have "q \<notin> set '',:/()''" using assms(4) by auto
  then have pe: "pending st = []" using pending_other(1) [OF assms(1)] assms(2,3) by (simp add: char_at_def)
  have d: "drop ?d t = q # drop (Suc ?d) t" using drop_Cons_nth [OF assms(2)] assms(3) by simp
  show ?thesis
  proof (cases "close_after t q ?d")
    case None
    then have "v_string t q st = vs_push (VString q (drop (Suc ?d) t) True) (Suc (length t)) st" by (simp add: v_string_def)
    then show ?thesis using d by (simp only:) (intro push_keeps [OF assms(1) pe]; simp)
  next
    case (Some i)
    from close_after_at [OF Some] have i: "?d < i" "i < length t" "t ! i = q" by auto
    have "drop (Suc ?d) t = between t (Suc ?d) i @ q # drop (Suc i) t"
      using between_drop [of "Suc ?d" i t] i drop_Cons_nth [OF i(2)] by simp
    moreover have "v_string t q st = vs_push (VString q (between t (Suc ?d) i) False) (Suc i) st" using Some by (simp add: v_string_def)
    ultimately show ?thesis using d by (simp only:) (intro push_keeps [OF assms(1) pe]; simp)
  qed
qed

lemma v_comment_keeps:
  assumes "value_inv t st" "vs_pos st < length t" "t ! vs_pos st = CHR ''/''" "char_at t (Suc (vs_pos st)) = Some CHR ''*''"
    "\<not> contains t ''/*/''"
  shows "value_keeps t st (v_comment t st)"
proof -
  let ?d = "vs_pos st"
  have "char_at t ?d = Some CHR ''/''" using assms(2,3) by (simp add: char_at_def)
  with pending_other(6) [OF assms(1) this refl] assms(4) have pe: "pending st = []" by simp
  have "Suc ?d < length t" "t ! Suc ?d = CHR ''*''" using assms(4) by (auto simp: char_at_Some)
  then have d: "drop ?d t = ''/*'' @ drop (?d + 2) t"
    using drop_Cons_nth [OF assms(2)] drop_Cons_nth [of "Suc ?d" t] assms(3) by simp
  show ?thesis
  proof (cases "index_from t ''*/'' ?d")
    case None
    then have "v_comment t st = vs_push (VComment (drop (?d + 2) t) True) (length t + 2) st" by (simp add: v_comment_def)
    then show ?thesis using d by (simp only:) (intro push_keeps [OF assms(1) pe]; simp)
  next
    case (Some i)
    from index_from_Some [OF Some] have i: "?d \<le> i" "i \<le> length t" "has_prefix (drop i t) ''*/''" by auto
    then obtain r where r: "drop i t = ''*/'' @ r" by (auto simp: has_prefix_iff)
    then have r2: "r = drop (i + 2) t" by (metis append_eq_conv_conj drop_drop add.commute length_Cons list.size(3) numeral_2_eq_2)
    have "i \<noteq> ?d" using r d by auto
    moreover have "i \<noteq> Suc ?d"
    proof
      assume "i = Suc ?d"
      with r drop_Cons_nth [OF assms(2)] assms(3) have "drop ?d t = ''/*/'' @ r" by simp
      then have "t = take ?d t @ ''/*/'' @ r" by (metis append_take_drop_id)
      with assms(5) show False unfolding contains_iff by blast
    qed
    ultimately have i2: "?d + 2 \<le> i" using i(1) by simp
    have "drop (?d + 2) t = between t (?d + 2) i @ ''*/'' @ drop (i + 2) t" using between_drop [OF i2, of t] r r2 by simp
    moreover have "v_comment t st = vs_push (VComment (between t (?d + 2) i) False) (i + 2) st" using Some by (simp add: v_comment_def)
    ultimately show ?thesis using d by (simp only:) (intro push_keeps [OF assms(1) pe]; simp)
  qed
qed

lemma keepsI:
  assumes "vs_open st' \<noteq> [] \<longrightarrow> vs_opened st'" "pending st' = []" "\<not> div_after (vs_nodes st')"
    "tree_text st' @ drop (vs_pos st') t = whole t st"
  shows "value_keeps t st st'"
  using assms by (simp add: value_keeps_def value_inv_def pending_def Let_def)

lemma inv_opened: "value_inv t st \<Longrightarrow> vs_open st \<noteq> [] \<Longrightarrow> vs_opened st"
  by (simp add: value_inv_def Let_def)

lemma last_solid:
  assumes "f < i" "i \<le> length t" "\<not> vspace (t ! f)"
  defines "c \<equiv> last_solid_before t i"
  shows "f \<le> c" "c < i" "\<not> vspace (t ! c)" "\<forall>k. c < k \<and> k < i \<longrightarrow> vspace (t ! k)"
proof -
  let ?r = "rev (take i t)"
  let ?w = "takeWhile vspace ?r"
  have r: "length ?r = i" "k < i \<Longrightarrow> ?r ! k = t ! (i - 1 - k)" for k
    using assms(2) by (simp_all add: rev_nth)
  have at: "?r ! (i - 1 - f) = t ! f" using r(2) [of "i - 1 - f"] assms(1) by simp
  have short: "length ?w \<le> i - 1 - f"
  proof (rule ccontr)
    assume "\<not> ?thesis"
    then have l: "i - 1 - f < length ?w" by simp
    then have "?w ! (i - 1 - f) = t ! f" using at by (simp add: takeWhile_nth)
    with l assms(3) show False using set_takeWhileD nth_mem by metis
  qed
  have c: "c = i - 1 - length ?w"
    unfolding c_def last_solid_before_def using r(1) by (simp add: dropWhile_eq_drop)
  show "f \<le> c" "c < i" using c short assms(1) by auto
  have "length ?w < length ?r" using short assms(1) r(1) by simp
  from nth_length_takeWhile [OF this] show "\<not> vspace (t ! c)" using r(2) [of "length ?w"] short assms(1) by (simp add: c)
  show "\<forall>k. c < k \<and> k < i \<longrightarrow> vspace (t ! k)"
  proof (intro allI impI)
    fix k assume k: "c < k \<and> k < i"
    then have l: "i - 1 - k < length ?w" using c short by auto
    have "?w ! (i - 1 - k) = t ! k" using r(2) [of "i - 1 - k"] k l by (simp add: takeWhile_nth)
    with l show "vspace (t ! k)" using set_takeWhileD nth_mem by metis
  qed
qed

lemma run_spaces: "d \<le> k \<Longrightarrow> Suc k < Suc (run_end P t d) \<Longrightarrow> P (t ! Suc k)"
proof -
  assume k: "d \<le> k" "Suc k < Suc (run_end P t d)"
  let ?w = "takeWhile P (drop (Suc d) t)"
  have l: "k - d < length ?w" using k by (simp add: run_end_def)
  then have "?w ! (k - d) = t ! Suc k" using k length_takeWhile_le [of P "drop (Suc d) t"] by (simp add: takeWhile_nth)
  with l show ?thesis using set_takeWhileD nth_mem by metis
qed

text \<open>The content of a \<open>url(\<close> up to \<open>i\<close>, in the three pieces the code stores.\<close>

lemma url_pieces:
  assumes "f < length t" "\<not> vspace (t ! f)" "d = Suc (run_end vspace t f)" "d \<le> i" "i \<le> length t"
    "i < length t \<longrightarrow> \<not> vspace (t ! i)"
  defines "c \<equiv> last_solid_before t i"
  shows "f < c \<Longrightarrow> d \<le> c \<and> between t (Suc f) d @ between t d (Suc c) @ between t (Suc c) i @ drop i t = drop (Suc f) t"
    and "\<not> f < c \<Longrightarrow> between t (Suc f) d @ drop i t = drop (Suc f) t"
proof -
  have fd: "f < d" "d \<le> length t" "case char_at t d of Some c \<Rightarrow> \<not> vspace c | None \<Rightarrow> True"
    using run_end_between [OF assms(1,3)] by auto
  have fi: "f < i" using fd(1) assms(4) by simp
  note c = last_solid [OF fi assms(5,2), folded c_def]
  show "d \<le> c \<and> between t (Suc f) d @ between t d (Suc c) @ between t (Suc c) i @ drop i t = drop (Suc f) t" if fc: "f < c"
  proof -
    have "d \<le> c"
    proof (rule ccontr)
      assume "\<not> d \<le> c"
      then obtain k where k: "c = Suc k" "f \<le> k" using fc by (cases c) auto
      with run_spaces [of f k vspace t] c(3) \<open>\<not> d \<le> c\<close> assms(3) show False by simp
    qed
    then show ?thesis using c(2) fd(1) by (simp add: between_drop)
  qed
  show "between t (Suc f) d @ drop i t = drop (Suc f) t" if "\<not> f < c"
  proof -
    have "d = i"
    proof (rule ccontr)
      assume "d \<noteq> i"
      then have "d < i" using assms(4) by simp
      then have "vspace (t ! d)" using c(4) fd(1) that by simp
      with fd(3) \<open>d < i\<close> assms(5) show False by (simp add: char_at_def)
    qed
    then show ?thesis using between_drop [of "Suc f" d t] fd(1) by simp
  qed
qed

lemma v_url_text:
  assumes "vs_pos st < length t" "t ! vs_pos st = CHR ''(''" "d = Suc (run_end vspace t (vs_pos st))"
  shows "\<exists>b ns a u j. v_url t d st = (vs_push (VFunction (vs_name st) b ns a u) j st)\<lparr>vs_name := []\<rparr> \<and>
    drop (vs_pos st) t = ''('' @ b @ value_stringify ns @ a @ (if u then [] else '')'') @ drop j t"
proof -
  define f where "f = vs_pos st"
  define m where "m = close_after t (CHR '')'') (d - 1)"
  define i where "i = (case m of Some i \<Rightarrow> i | None \<Rightarrow> length t)"
  define c where "c = last_solid_before t i"
  define b where "b = between t (Suc f) d"
  define w where "w = between t d (Suc c)"
  define a where "a = between t (Suc c) i"
  define z where "z = (if m = None then [] else '')'')"
  have f: "f < length t" "t ! f = CHR ''(''" "\<not> vspace (t ! f)" using assms by (simp_all add: f_def vspace_def)
  have d: "d = Suc (run_end vspace t f)" "f < d" "d \<le> length t"
    using run_end_between(1,2) [OF f(1), of d vspace] assms(3) by (auto simp: f_def)
  have i: "d \<le> i" "i \<le> length t" "i < length t \<longrightarrow> \<not> vspace (t ! i)" and zi: "drop i t = z @ drop (Suc i) t"
    using close_after_at [of t "CHR '')''" "d - 1" i] d drop_Cons_nth [of i t]
    by (auto simp: i_def m_def z_def vspace_def split: option.splits)
  note pieces = url_pieces [OF f(1,3) d(1) i, folded c_def b_def w_def a_def]
  have start: "drop f t = ''('' @ drop (Suc f) t" using drop_Cons_nth [OF f(1)] f(2) by simp
  have def: "v_url t d st = (vs_push (if f < c
        then if m = None \<and> Suc c \<noteq> i then VFunction (vs_name st) b ((if d \<noteq> Suc c then [VWord w] else []) @ [VSpace a]) [] (m = None)
             else VFunction (vs_name st) b (if d \<noteq> Suc c then [VWord w] else []) a (m = None)
        else VFunction (vs_name st) b [] [] (m = None)) (Suc i) st)\<lparr>vs_name := []\<rparr>"
    unfolding v_url_def Let_def f_def [symmetric] m_def [symmetric] i_def [symmetric] c_def [symmetric] b_def [symmetric]
      w_def [symmetric] a_def [symmetric] by simp
  show ?thesis
  proof (cases "f < c")
    case False
    with def have "v_url t d st = (vs_push (VFunction (vs_name st) b [] [] (m = None)) (Suc i) st)\<lparr>vs_name := []\<rparr>" by (simp only: if_False)
    moreover have "drop f t = ''('' @ b @ value_stringify [] @ [] @ z @ drop (Suc i) t"
      using start pieces(2) [OF False] zi by simp
    ultimately show ?thesis unfolding z_def f_def by blast
  next
    case True
    with pieces(1) have dc: "d \<noteq> Suc c" by auto
    have all: "drop f t = ''('' @ b @ w @ a @ z @ drop (Suc i) t" using start pieces(1) [OF True] zi by (simp add: w_def a_def)
    show ?thesis
    proof (cases "m = None \<and> Suc c \<noteq> i")
      case m: True
      with def True dc have "v_url t d st = (vs_push (VFunction (vs_name st) b ([VWord w] @ [VSpace a]) [] (m = None)) (Suc i) st)\<lparr>vs_name := []\<rparr>"
        by (simp only: if_True simp_thms)
      moreover have "drop f t = ''('' @ b @ value_stringify ([VWord w] @ [VSpace a]) @ [] @ z @ drop (Suc i) t" using all by simp
      ultimately show ?thesis unfolding z_def f_def by blast
    next
      case m: False
      with def True dc have "v_url t d st = (vs_push (VFunction (vs_name st) b [VWord w] a (m = None)) (Suc i) st)\<lparr>vs_name := []\<rparr>"
        by (simp only: if_True if_False simp_thms)
      moreover have "drop f t = ''('' @ b @ value_stringify [VWord w] @ a @ z @ drop (Suc i) t" using all by simp
      ultimately show ?thesis unfolding z_def f_def by blast
    qed
  qed
qed

lemma v_open_keeps:
  assumes "value_inv t st" "vs_pos st < length t" "t ! vs_pos st = CHR ''(''"
  shows "value_keeps t st (v_open t st)"
proof -
  define d where "d = Suc (run_end vspace t (vs_pos st))"
  have "char_at t (vs_pos st) = Some CHR ''(''" using assms(2,3) by (simp add: char_at_def)
  from pending_other(2) [OF assms(1) this refl] have pe: "pending st = vs_name st" "vs_before st = []" "vs_after st = []" by auto
  show ?thesis
  proof (cases "vs_name st = ''url'' \<and> char_at t d \<noteq> Some CHR 0x27 \<and> char_at t d \<noteq> Some CHR 0x22")
    case True
    obtain b ns a u j where j: "v_url t d st = (vs_push (VFunction (vs_name st) b ns a u) j st)\<lparr>vs_name := []\<rparr>"
      "drop (vs_pos st) t = ''('' @ b @ value_stringify ns @ a @ (if u then [] else '')'') @ drop j t"
      using v_url_text [OF assms(2,3) d_def] by blast
    have "v_open t st = v_url t d st" using True unfolding v_open_def Let_def d_def [symmetric] by simp
    then show ?thesis unfolding j(1) using inv_opened [OF assms(1)] pe j(2) by (intro keepsI) (simp_all add: pending_def)
  next
    case False
    have d: "vs_pos st < d" using run_end_between(1) [OF assms(2) d_def] .
    have "v_open t st = st\<lparr>vs_open := \<lparr>vf_name = vs_name st, vf_before = between t (Suc (vs_pos st)) d, vf_nodes = []\<rparr> # vs_open st,
              vs_opened := True, vs_name := [], vs_pos := d\<rparr>"
      using False unfolding v_open_def Let_def d_def [symmetric] by (simp only: if_False)
    moreover have "drop (vs_pos st) t = ''('' @ between t (Suc (vs_pos st)) d @ drop d t"
      using drop_Cons_nth [OF assms(2)] assms(3) between_drop [of "Suc (vs_pos st)" d t] d by simp
    ultimately show ?thesis using pe
      by (intro keepsI) (simp_all add: pending_def vs_nodes_def div_after_def tree_text_def frame_text_def)
  qed
qed

lemma v_close_keeps:
  assumes "value_inv t st" "vs_pos st < length t" "t ! vs_pos st = CHR '')''" "vs_open st \<noteq> []"
  shows "value_keeps t st (v_close st)"
proof -
  have "char_at t (vs_pos st) = Some CHR '')''" using assms(2,3) by (simp add: char_at_def)
  from pending_other(4) [OF assms(1) this refl] have pe: "pending st = vs_after st" "vs_before st = []" "vs_name st = []" by auto
  obtain f fs where fs: "vs_open st = f # fs" using assms(4) by (cases "vs_open st") auto
  have "tree_text st = tree_text (st\<lparr>vs_open := fs\<rparr>) @ frame_text f" using fs by (simp add: tree_text_def)
  then show ?thesis using pe fs inv_opened [OF assms(1,4)] drop_Cons_nth [OF assms(2)] assms(3)
    by (intro keepsI) (simp_all add: v_close_def pending_def frame_text_def)
qed

lemma v_word_keeps:
  assumes "value_inv t st" "pending st = []"
  shows "value_keeps t st (v_word t st)"
proof -
  define i where "i = word_run t (vs_open st \<noteq> []) (vs_pos st)"
  define a where "a = between t (vs_pos st) i"
  have a: "drop (vs_pos st) t = a @ drop i t"
    using between_drop [of "vs_pos st" i t] word_run_gt [of "vs_pos st" t] by (simp add: i_def a_def less_imp_le)
  have def: "v_word t st = (if char_at t i = Some CHR ''('' then st\<lparr>vs_name := a, vs_pos := i\<rparr>
      else if unicode_range a then vs_push (VUnicode a) i st else vs_push (VWord a) i st)"
    unfolding v_word_def Let_def i_def [symmetric] a_def [symmetric] ..
  show ?thesis
  proof (cases "char_at t i = Some CHR ''(''")
    case True
    then have "v_word t st = st\<lparr>vs_name := a, vs_pos := i\<rparr>" by (simp add: def)
    then show ?thesis using True assms inv_opened [OF assms(1)] a
      by (simp add: value_keeps_def value_inv_def Let_def pending_def vspace_def)
  next
    case False
    have u: "value_keeps t st (vs_push (VUnicode a) i st)" and w: "value_keeps t st (vs_push (VWord a) i st)"
      using a by (intro push_keeps [OF assms]; simp)+
    then show ?thesis using False by (simp add: def)
  qed
qed

lemma v_div_keeps:
  assumes "value_inv t st" "vs_pos st < length t" "t ! vs_pos st = p" "p \<in> set '',:/''"
  shows "value_keeps t st ((vs_push (VDiv [p] (vs_before st) []) (Suc (vs_pos st)) st)\<lparr>vs_before := []\<rparr>)"
proof -
  have "char_at t (vs_pos st) = Some p" using assms(2,3) by (simp add: char_at_def)
  then have "pending st = vs_before st \<and> vs_name st = [] \<and> vs_after st = []"
    using pending_other(3,5) [OF assms(1), of p] assms(4) by auto
  then show ?thesis using inv_opened [OF assms(1)] drop_Cons_nth [OF assms(2)] assms(3)
    by (intro keepsI) (simp_all add: pending_def)
qed

lemma value_step_keeps:
  assumes "value_inv t st" "vs_pos st < length t" "\<not> contains t ''/*/''"
  shows "value_keeps t st (value_step t st)"
proof -
  define p where "p = t ! vs_pos st"
  have c: "char_at t (vs_pos st) = Some p" using assms(2) by (simp add: char_at_def p_def)
  note at = assms(1,2) p_def [symmetric]
  have space: "vspace p \<Longrightarrow> value_keeps t st (v_space t st)"
    using v_space_keeps [OF assms(1,2)] by (simp add: p_def)
  have str: "p = CHR 0x27 \<or> p = CHR 0x22 \<Longrightarrow> value_keeps t st (v_string t p st)"
    by (rule v_string_keeps [OF at])
  have com: "p = CHR ''/'' \<and> char_at t (Suc (vs_pos st)) = Some CHR ''*'' \<Longrightarrow> value_keeps t st (v_comment t st)"
    using v_comment_keeps [OF assms(1,2) _ _ assms(3)] by (simp add: p_def)
  have sign: "value_keeps t st (vs_push (VWord [p]) (Suc (vs_pos st)) st)" if s: "(p = CHR ''/'' \<or> p = CHR ''*'') \<and> vs_open st \<noteq> []"
  proof -
    have "pending st = []"
      using s pending_other(1) [OF assms(1) c] pending_other(6) [OF assms(1) c] inv_opened [OF assms(1)] by auto
    then show ?thesis using drop_Cons_nth [OF assms(2)] by (intro push_keeps [OF assms(1)]) (simp_all add: p_def)
  qed
  have sep: "p = CHR ''/'' \<or> p = CHR '','' \<or> p = CHR '':'' \<Longrightarrow>
      value_keeps t st ((vs_push (VDiv [p] (vs_before st) []) (Suc (vs_pos st)) st)\<lparr>vs_before := []\<rparr>)"
    using v_div_keeps [OF at] by auto
  have opn: "p = CHR ''('' \<Longrightarrow> value_keeps t st (v_open t st)"
    using v_open_keeps [OF assms(1,2)] by (simp add: p_def)
  have cls: "p = CHR '')'' \<and> vs_open st \<noteq> [] \<Longrightarrow> value_keeps t st (v_close st)"
    using v_close_keeps [OF assms(1,2)] by (simp add: p_def)
  have word: "value_keeps t st (v_word t st)"
    if w: "\<not> (p = CHR ''/'' \<or> p = CHR '','' \<or> p = CHR '':'')" "p \<noteq> CHR ''(''" "\<not> (p = CHR '')'' \<and> vs_open st \<noteq> [])"
  proof -
    have "p = CHR '')'' \<Longrightarrow> pending st = []"
      using pending_other(4) [OF assms(1) c] w(3) assms(1) by (auto simp: value_inv_def Let_def)
    then have "pending st = []" using w(1,2) pending_other(1) [OF assms(1) c] by (cases "p = CHR '')''") auto
    then show ?thesis by (rule v_word_keeps [OF assms(1)])
  qed
  have choice: "(b \<Longrightarrow> value_keeps t st x) \<Longrightarrow> (\<not> b \<Longrightarrow> value_keeps t st y) \<Longrightarrow> value_keeps t st (if b then x else y)" for b x y by simp
  show ?thesis unfolding value_step_def Let_def p_def [symmetric]
    by (intro choice) (rule space str com sign sep opn cls word; assumption)+
qed

lemma value_loop_keeps:
  "value_inv t st \<Longrightarrow> \<not> contains t ''/*/'' \<Longrightarrow>
    value_keeps t st (value_loop t st) \<and> length t \<le> vs_pos (value_loop t st)"
proof (induction t st rule: value_loop.induct)
  case (1 t st)
  show ?case
  proof (cases "vs_pos st < length t")
    case True
    note k = value_step_keeps [OF 1(2) True 1(3)]
    have l: "value_loop t st = value_loop t (value_step t st)" using True by (simp add: value_loop.simps [of t st])
    have "value_inv t (value_step t st)" using k by (simp add: value_keeps_def)
    from 1(1) [OF True this 1(3)] k show ?thesis unfolding l value_keeps_def by metis
  next
    case False
    with 1(2) show ?thesis by (simp add: value_loop.simps [of t st] value_keeps_def)
  qed
qed

section \<open>The properties\<close>

text \<open>C31. Parsing a CSS value and printing the nodes gives back the text, character for character:
  words, separators with their white space, strings and functions closed or not, \<open>url(\<close> contents
  and comments; the only exception is text with the characters \<open>/*/\<close>, which the parser takes
  for a closed comment.\<close>
theorem value_roundtrip:
  assumes "\<not> contains t ''/*/''"
  shows "value_stringify (value_parse t) = t"
proof -
  let ?st = "value_loop t vs_start"
  have inv: "value_inv t vs_start"
    by (simp add: value_inv_def vs_start_def vs_nodes_def div_after_def Let_def)
  have start: "whole t vs_start = t" by (simp add: vs_start_def tree_text_def pending_def)
  from value_loop_keeps [OF inv assms] start have st: "value_inv t ?st" "whole t ?st = t" "length t \<le> vs_pos ?st"
    unfolding value_keeps_def by metis+
  then have "pending ?st = []" by (simp add: value_inv_def Let_def char_at_def pending_def)
  with st show ?thesis by (simp add: value_parse_def close_all_text tree_text_def Let_def)
qed

theorem value_roundtrip_witness:
  "\<not> contains ''rgb(1, 2'' ''/*/'' \<and> value_stringify (value_parse ''rgb(1, 2'') = ''rgb(1, 2''"
proof -
  have "\<not> contains ''rgb(1, 2'' ''/*/''" by code_simp
  with value_roundtrip [OF this] show ?thesis by simp
qed

text \<open>The closing \<open>*/\<close> is searched from the opening slash, so its star can close the comment.\<close>

lemma slash_star_slash: "value_parse ''/*/'' = [VComment [] False]" "value_stringify (value_parse ''/*/'') = ''/**/''"
  by code_simp+

text \<open>A function, its arguments and a separator with white space, as nodes.\<close>

lemma value_parse_function:
  "value_parse ''url( a ), b'' = [VFunction ''url'' '' '' [VWord ''a''] '' '' False, VDiv '','' [] '' '', VWord ''b'']"
  by code_simp

end
