(* ===== verification/Css_Escape.thy ===== *)
theory Css_Escape
  imports Main
begin

text \<open>
  Escaping of CSS identifiers and strings in the bundle: \<open>cssesc\<close> (\<open>Ua\<close> in \<^verbatim>\<open>tailwind.js\<close>), which the compiler
  uses to turn class names into selectors, and \<open>unesc\<close> (\<open>lk\<close> with its helper \<open>ak\<close>), which the selector
  parser uses to read them.  Strings are lists of UTF-16 code units, as natural numbers.
\<close>

type_synonym units = "nat list"

section \<open>Hexadecimal numbers\<close>

definition hex_char :: "nat \<Rightarrow> nat" where
  "hex_char d = (if d < 10 then 48 + d else 55 + d)"

text \<open>\<^verbatim>\<open>f.toString(16).toUpperCase()\<close>.\<close>

fun hex_upper :: "nat \<Rightarrow> units" where
  "hex_upper n = (if n < 16 then [hex_char n] else hex_upper (n div 16) @ [hex_char (n mod 16)])"

declare hex_upper.simps [simp del]

definition unit_lower :: "nat \<Rightarrow> nat" where
  "unit_lower c = (if 65 \<le> c \<and> c \<le> 90 then c + 32 else c)"

definition lower_hex :: "nat \<Rightarrow> bool" where
  "lower_hex s \<longleftrightarrow> 97 \<le> s \<and> s \<le> 102 \<or> 48 \<le> s \<and> s \<le> 57"

definition hex_val :: "nat \<Rightarrow> nat" where
  "hex_val s = (if s < 65 then s - 48 else s - 87)"

text \<open>\<^verbatim>\<open>parseInt(t, 16)\<close> for a text of lower case digits.\<close>

definition parse_hex :: "units \<Rightarrow> nat" where
  "parse_hex t = foldl (\<lambda>o1 s. 16 * o1 + hex_val s) 0 t"

definition fromCodePoint :: "nat \<Rightarrow> units" where
  "fromCodePoint p = (if p < 65536 then [p] else [55296 + (p - 65536) div 1024, 56320 + (p - 65536) mod 1024])"

section \<open>Reading escapes\<close>

text \<open>\<open>ak\<close>: a hexadecimal escape at the start of at most six units, with the number of units it takes.\<close>

definition ak :: "units \<Rightarrow> (units \<times> nat) option" where
  "ak r =
     (let e = map unit_lower (take 6 r); t = takeWhile lower_hex e;
          i = (case dropWhile lower_hex e of s # _ \<Rightarrow> s = 32 | [] \<Rightarrow> False) in
      if t = [] then None
      else
        let o1 = parse_hex t; k = length t + (if i then 1 else 0) in
        if 55296 \<le> o1 \<and> o1 \<le> 57343 \<or> o1 = 0 \<or> o1 > 1114111 then Some ([65533], k) else Some (fromCodePoint o1, k))"

fun lk_loop :: "units \<Rightarrow> units" where
  "lk_loop [] = []"
| "lk_loop (c # r) =
     (if c = 92 then
        (case ak (take 6 r) of
           Some (t, k) \<Rightarrow> t @ lk_loop (drop k r)
         | None \<Rightarrow> (case r of [] \<Rightarrow> [92] | d # r' \<Rightarrow> if d = 92 then 92 # lk_loop r' else lk_loop r))
      else c # lk_loop r)"

definition lk :: "units \<Rightarrow> units" where
  "lk r = (if 92 \<in> set r then lk_loop r else r)"

section \<open>Writing escapes\<close>

record esc_opts =
  eo_escapeEverything :: bool
  eo_isIdentifier :: bool
  eo_double :: bool \<comment> \<open>\<open>quotes\<close> is \<open>"double"\<close>\<close>
  eo_wrap :: bool

definition Jk :: "nat \<Rightarrow> bool" where
  "Jk c \<longleftrightarrow> 32 \<le> c \<and> c \<le> 44 \<or> c = 46 \<or> c = 47 \<or> 58 \<le> c \<and> c \<le> 64 \<or> 91 \<le> c \<and> c \<le> 94 \<or> c = 96 \<or> 123 \<le> c \<and> c \<le> 126"

definition eS :: "nat \<Rightarrow> bool" where
  "eS c \<longleftrightarrow> 32 \<le> c \<and> c \<le> 44 \<or> c = 46 \<or> c = 47 \<or> 58 \<le> c \<and> c \<le> 64 \<or> c = 91 \<or> c = 93 \<or> c = 94 \<or> c = 96 \<or> 123 \<le> c \<and> c \<le> 126"

definition digit :: "nat \<Rightarrow> bool" where
  "digit c \<longleftrightarrow> 48 \<le> c \<and> c \<le> 57"

definition hex_escape :: "nat \<Rightarrow> units" where
  "hex_escape f = 92 # hex_upper f @ [32]"

definition quote_unit :: "esc_opts \<Rightarrow> nat" where
  "quote_unit t = (if eo_double t then 34 else 39)"

text \<open>One printable character.\<close>

definition esc_ascii :: "esc_opts \<Rightarrow> nat \<Rightarrow> units" where
  "esc_ascii t c =
     (if eo_escapeEverything t then (if Jk c then [92, c] else hex_escape c)
      else if c \<in> {9, 10, 11, 12, 13} then hex_escape c
      else if c = 92 \<or> \<not> eo_isIdentifier t \<and> (c = 34 \<or> c = 39) \<and> quote_unit t = c \<or> eo_isIdentifier t \<and> eS c then [92, c]
      else [c])"

fun esc_loop :: "esc_opts \<Rightarrow> units \<Rightarrow> units" where
  "esc_loop t [] = []"
| "esc_loop t (f # r) =
     (if f < 32 \<or> f > 126 then
        (case r of
           p # r' \<Rightarrow>
             if 55296 \<le> f \<and> f \<le> 56319 \<and> 56320 \<le> p \<and> p < 57344
             then hex_escape ((f mod 1024) * 1024 + p mod 1024 + 65536) @ esc_loop t r'
             else hex_escape f @ esc_loop t r
         | [] \<Rightarrow> hex_escape f)
      else esc_ascii t f @ esc_loop t r)"

definition esc_start :: "units \<Rightarrow> units \<Rightarrow> units" where
  "esc_start s a =
     (if length a \<ge> 2 \<and> a ! 0 = 45 \<and> (a ! 1 = 45 \<or> digit (a ! 1)) then [92, 45] @ tl a
      else case s of d # _ \<Rightarrow> if digit d then [92, 51, d, 32] @ tl a else a | [] \<Rightarrow> a)"

text \<open>
  The regular expression \<open>tS\<close>: an escape of one to six digits with a space after it, when neither a digit
  nor a space follows.  The flag says that an odd number of backslashes stands before.
\<close>

definition upper_hex :: "nat \<Rightarrow> bool" where
  "upper_hex c \<longleftrightarrow> 65 \<le> c \<and> c \<le> 70 \<or> 48 \<le> c \<and> c \<le> 57"

definition any_hex :: "nat \<Rightarrow> bool" where
  "any_hex c \<longleftrightarrow> upper_hex c \<or> 97 \<le> c \<and> c \<le> 102"

definition hex_space :: "units \<Rightarrow> (units \<times> units) option" where
  "hex_space r =
     (let h = takeWhile upper_hex r in
      if h = [] \<or> length h > 6 then None
      else case dropWhile upper_hex r of
        [] \<Rightarrow> None
      | c # r' \<Rightarrow>
          if c \<noteq> 32 then None
          else case r' of [] \<Rightarrow> Some (h, r') | d # _ \<Rightarrow> if any_hex d \<or> d = 32 then None else Some (h, r'))"

lemma hex_space_parts:
  assumes "hex_space r = Some (h, r')"
  shows "r = h @ 32 # r' \<and> h \<noteq> [] \<and> 92 \<notin> set h"
proof -
  from assms have h: "h = takeWhile upper_hex r" "h \<noteq> []" "dropWhile upper_hex r = 32 # r'"
    by (auto simp: hex_space_def Let_def split: if_splits list.splits)
  then have "r = h @ 32 # r'" by (metis takeWhile_dropWhile_id)
  moreover have "92 \<notin> set h" unfolding h(1) by (auto dest: set_takeWhileD simp: upper_hex_def)
  ultimately show ?thesis using h(2) by simp
qed

function strip_hex :: "bool \<Rightarrow> units \<Rightarrow> units" where
  "strip_hex odd_run [] = []"
| "strip_hex odd_run (c # r) =
     (if c = 92 then
        (case hex_space r of
           Some (h, r') \<Rightarrow> if odd_run then 92 # h @ 32 # strip_hex False r' else 92 # h @ strip_hex False r'
         | None \<Rightarrow> 92 # strip_hex (\<not> odd_run) r)
      else c # strip_hex False r)"
  by pat_completeness auto
termination
  by (relation "measure (\<lambda>(b, r). length r)") (auto dest!: hex_space_parts)

definition cssesc :: "esc_opts \<Rightarrow> units \<Rightarrow> units" where
  "cssesc t e =
     (let a = esc_loop t e; a = (if eo_isIdentifier t then esc_start e a else a); a = strip_hex False a
      in if \<not> eo_isIdentifier t \<and> eo_wrap t then quote_unit t # a @ [quote_unit t] else a)"

section \<open>Class names\<close>

definition identifier_opts :: esc_opts where
  "identifier_opts = \<lparr>eo_escapeEverything = False, eo_isIdentifier = True, eo_double = False, eo_wrap = False\<rparr>"

text \<open>\<open>Ut\<close>: an escaped comma becomes its hexadecimal escape.\<close>

fun Ut :: "units \<Rightarrow> units" where
  "Ut [] = []"
| "Ut [c] = [c]"
| "Ut (c # d # r) = (if c = 92 \<and> d = 44 then [92, 50, 99, 32] @ Ut r else c # Ut (d # r))"

text \<open>A class node with a value: the escaped form is kept in its raws when it differs.\<close>

definition class_raw :: "units \<Rightarrow> units option" where
  "class_raw n = (let s = cssesc identifier_opts n in if s \<noteq> n then Some s else None)"

definition Te :: "units \<Rightarrow> units" where
  "Te r = Ut (case class_raw r of Some s \<Rightarrow> s | None \<Rightarrow> r)"

definition jo :: "units \<Rightarrow> units" where
  "jo r = Ut (46 # Te r)"

section \<open>Digits\<close>

lemma hex_upper_digits: "h \<in> set (hex_upper n) \<Longrightarrow> upper_hex h"
proof (induction n rule: hex_upper.induct)
  case (1 n)
  have "upper_hex (hex_char d)" if "d < 16" for d using that by (auto simp: upper_hex_def hex_char_def)
  with 1 show ?case by (subst (asm) hex_upper.simps) (auto split: if_splits)
qed

lemma hex_upper_ne [simp]: "hex_upper n \<noteq> []"
  by (subst hex_upper.simps) simp

lemma hex_upper_length: "n < 16 ^ Suc k \<Longrightarrow> length (hex_upper n) \<le> Suc k"
proof (induction k arbitrary: n)
  case (Suc k)
  then have "n div 16 < 16 ^ Suc k" by (simp add: less_mult_imp_div_less mult.commute)
  from Suc.IH [OF this] show ?case by (subst hex_upper.simps) simp
qed (subst hex_upper.simps, simp)

lemma upper_lower: "upper_hex h \<Longrightarrow> lower_hex (unit_lower h)"
  by (auto simp: upper_hex_def lower_hex_def unit_lower_def)

lemma parse_hex_upper: "parse_hex (map unit_lower (hex_upper n)) = n"
proof (induction n rule: hex_upper.induct)
  case (1 n)
  have v: "hex_val (unit_lower (hex_char d)) = d" if "d < 16" for d
    using that by (auto simp: hex_val_def unit_lower_def hex_char_def)
  show ?case
  proof (cases "n < 16")
    case True
    then show ?thesis by (subst hex_upper.simps) (simp add: parse_hex_def v)
  next
    case False
    then have "parse_hex (map unit_lower (hex_upper n)) = 16 * parse_hex (map unit_lower (hex_upper (n div 16))) + hex_val (unit_lower (hex_char (n mod 16)))"
      by (subst hex_upper.simps) (simp add: parse_hex_def)
    with 1 [OF False] show ?thesis by (simp add: v)
  qed
qed

section \<open>Pieces of an escaped text\<close>

text \<open>
  An escaped text is a sequence of plain units, escaped units and hexadecimal escapes.  Stripping and
  reading work piece by piece.
\<close>

datatype piece = Plain nat | Esc nat | Hex nat

fun piece_text :: "piece \<Rightarrow> units" where
  "piece_text (Plain c) = [c]"
| "piece_text (Esc c) = [92, c]"
| "piece_text (Hex f) = hex_escape f"

fun piece_value :: "piece \<Rightarrow> units" where
  "piece_value (Plain c) = [c]"
| "piece_value (Esc c) = [c]"
| "piece_value (Hex f) = fromCodePoint f"

fun piece_ok :: "piece \<Rightarrow> bool" where
  "piece_ok (Plain c) = (c \<noteq> 92)"
| "piece_ok (Esc c) = (\<not> any_hex c)"
| "piece_ok (Hex f) = (0 < f \<and> f < 1048576 \<and> \<not> (55296 \<le> f \<and> f \<le> 57343))"

abbreviation texts_of :: "piece list \<Rightarrow> units" where
  "texts_of ps \<equiv> concat (map piece_text ps)"

lemma strip_plain: "92 \<notin> set h \<Longrightarrow> strip_hex False (h @ r) = h @ strip_hex False r"
  by (induction h) auto

lemma strip_plain_odd: "92 \<notin> set h \<Longrightarrow> h \<noteq> [] \<Longrightarrow> strip_hex b (h @ r) = h @ strip_hex False r"
  by (cases h) (auto simp: strip_plain)

lemma strip_odd: "strip_hex True (92 # r) = 92 # strip_hex False r"
proof (cases "hex_space r")
  case (Some p)
  obtain h r' where p: "p = (h, r')" by fastforce
  from hex_space_parts [OF Some [unfolded p]] have r: "r = h @ 32 # r'" "92 \<notin> set h" by auto
  have "strip_hex False r = h @ 32 # strip_hex False r'" unfolding r(1) by (simp add: strip_plain [OF r(2)])
  with Some p show ?thesis by simp
qed simp

text \<open>Whether the space after an escape is dropped depends on what follows.\<close>

definition ends_escape :: "units \<Rightarrow> bool" where
  "ends_escape r \<longleftrightarrow> r = [] \<or> \<not> any_hex (hd r) \<and> hd r \<noteq> 32"

lemma strip_hex_escape:
  assumes "f < 1048576"
  shows "strip_hex False (hex_escape f @ r) = 92 # hex_upper f @ (if ends_escape r then [] else [32]) @ strip_hex False r"
proof -
  let ?h = "hex_upper f"
  have all: "\<forall>h \<in> set ?h. upper_hex h" using hex_upper_digits by blast
  then have no: "92 \<notin> set ?h" by (auto simp: upper_hex_def)
  have len: "length ?h \<le> 6" using hex_upper_length [of f 4] assms by simp
  have tw: "takeWhile upper_hex (?h @ 32 # r) = ?h" "dropWhile upper_hex (?h @ 32 # r) = 32 # r"
    using all by (simp_all add: takeWhile_append2 dropWhile_append2 upper_hex_def)
  have hs: "hex_space (?h @ 32 # r) = (if ends_escape r then Some (?h, r) else None)"
    using tw len by (auto simp: hex_space_def Let_def ends_escape_def split: list.split)
  have "strip_hex True (?h @ 32 # r) = ?h @ 32 # strip_hex False r" by (simp add: strip_plain_odd [OF no])
  with hs show ?thesis by (simp add: hex_escape_def)
qed

lemma strip_hd: "strip_hex False r = [] \<longleftrightarrow> r = []" "r \<noteq> [] \<Longrightarrow> hd (strip_hex False r) = hd r"
  by (cases r; auto split: option.split)+

lemma span_append:
  "\<forall>x \<in> set xs. P x \<Longrightarrow> ys = [] \<or> \<not> P (hd ys) \<Longrightarrow> takeWhile P (xs @ ys) = xs \<and> dropWhile P (xs @ ys) = ys"
proof (induction xs)
  case Nil
  then show ?case by (cases ys) simp_all
qed simp

lemma ak_hex:
  assumes "0 < f" "f < 1048576" "\<not> (55296 \<le> f \<and> f \<le> 57343)" "ends_escape r \<or> sp"
    "w = hex_upper f @ (if sp then 32 # r else r)"
  shows "ak (take 6 w) = Some (fromCodePoint f, length (hex_upper f) + (if sp then 1 else 0))"
proof -
  let ?h = "hex_upper f" and ?l = "\<lambda>r. map unit_lower r"
  have len: "length ?h \<le> 5" using hex_upper_length [of f 4] assms(2) by simp
  have all: "\<forall>h \<in> set (?l ?h). lower_hex h" using hex_upper_digits upper_lower by auto
  define rest where "rest = (if sp then 32 # r else r)"
  define q where "q = ?l (take (6 - length ?h) rest)"
  have w: "?l (take 6 w) = ?l ?h @ q" using len by (simp add: assms(5) q_def rest_def)
  have hx: "any_hex c \<longleftrightarrow> lower_hex (unit_lower c)" "unit_lower c = 32 \<longleftrightarrow> c = 32" for c
    by (auto simp: any_hex_def upper_hex_def lower_hex_def unit_lower_def)
  obtain m where m: "6 - length ?h = Suc m" using len by (cases "6 - length ?h") auto
  have q: "(q = [] \<or> \<not> lower_hex (hd q)) \<and> (q \<noteq> [] \<and> hd q = 32) = sp"
  proof (cases rest)
    case Nil
    then show ?thesis by (simp add: q_def rest_def split: if_splits)
  next
    case (Cons c cs)
    then have "q \<noteq> []" "hd q = unit_lower c" by (simp_all add: q_def m)
    moreover have "\<not> any_hex c \<and> (c = 32) = sp"
      proof (cases sp)
      case True
      with Cons have "c = 32" by (simp add: rest_def)
      with True show ?thesis by (simp add: any_hex_def upper_hex_def)
    next
      case False
      with Cons have "r = c # cs" by (simp add: rest_def)
      with False assms(4) show ?thesis by (simp add: ends_escape_def)
    qed
    ultimately show ?thesis using hx by simp
  qed
  have "takeWhile lower_hex (?l ?h @ q) = ?l ?h \<and> dropWhile lower_hex (?l ?h @ q) = q"
    using all conjunct1 [OF q] by (rule span_append)
  moreover have "(case q of s # _ \<Rightarrow> s = 32 | [] \<Rightarrow> False) = sp" using q by (cases q) auto
  moreover have "map unit_lower (take 6 (take 6 w)) = ?l ?h @ q" using w by simp
  ultimately show ?thesis using assms(1-3) by (auto simp: ak_def Let_def parse_hex_upper)
qed

lemma ends_escape_strip: "ends_escape (strip_hex False r) = ends_escape r"
  using strip_hd [of r] by (cases "r = []") (simp_all add: ends_escape_def)

lemma lk_escape:
  assumes "piece_ok (Hex f)" "ends_escape r \<or> sp"
  shows "lk_loop (92 # hex_upper f @ (if sp then 32 # r else r)) = fromCodePoint f @ lk_loop r"
proof -
  let ?w = "hex_upper f @ (if sp then 32 # r else r)"
  have "ak (take 6 ?w) = Some (fromCodePoint f, length (hex_upper f) + (if sp then 1 else 0))"
    using assms by (intro ak_hex) auto
  moreover have "drop (length (hex_upper f) + (if sp then 1 else 0)) ?w = r" by (cases sp) simp_all
  ultimately show ?thesis by (simp only: lk_loop.simps option.case prod.case if_True refl)
qed

lemma ak_none: "\<not> any_hex c \<Longrightarrow> ak (take 6 (c # r)) = None"
  by (auto simp: ak_def Let_def any_hex_def upper_hex_def lower_hex_def unit_lower_def)

lemma lk_esc: "\<not> any_hex c \<Longrightarrow> lk_loop (92 # c # r) = c # lk_loop r"
  using ak_none [of c r] by (cases "c = 92") (simp_all del: take_Suc_Cons)

lemma strip_esc: "\<not> any_hex c \<Longrightarrow> strip_hex False (92 # c # r) = 92 # c # strip_hex False r"
proof -
  assume "\<not> any_hex c"
  then have "hex_space (c # r) = None" by (simp add: hex_space_def any_hex_def)
  then show ?thesis using strip_odd [of r]
    by (cases "c = 92") (simp_all only: strip_hex.simps option.case if_True if_False not_False_eq_True refl)
qed

lemma lk_pieces: "list_all piece_ok ps \<Longrightarrow> lk_loop (strip_hex False (texts_of ps)) = concat (map piece_value ps)"
proof (induction ps)
  case (Cons p ps)
  let ?r = "texts_of ps"
  show ?case
  proof (cases p)
    case (Plain c)
    with Cons show ?thesis by simp
  next
    case (Esc c)
    then have c: "\<not> any_hex c" using Cons.prems by simp
    have "strip_hex False (92 # c # ?r) = 92 # c # strip_hex False ?r" by (rule strip_esc [OF c])
    then have "strip_hex False (texts_of (p # ps)) = 92 # c # strip_hex False ?r"
      by (simp only: Esc list.map concat.simps piece_text.simps append.simps)
    with lk_esc [OF c, of "strip_hex False ?r"] Cons Esc show ?thesis by (simp del: lk_loop.simps)
  next
    case (Hex f)
    have f: "piece_ok (Hex f)" using Cons.prems Hex by simp
    define w where "w = strip_hex False ?r"
    have e: "ends_escape w = ends_escape ?r" unfolding w_def by (rule ends_escape_strip)
    have "strip_hex False (texts_of (p # ps)) = 92 # hex_upper f @ (if \<not> ends_escape w then 32 # w else w)"
      using strip_hex_escape [of f ?r] f e by (simp add: Hex w_def)
    with lk_escape [OF f, of w "\<not> ends_escape w"] Cons Hex show ?thesis by (simp add: w_def)
  qed
qed simp

lemma lk_id: "92 \<notin> set r \<Longrightarrow> lk_loop r = r"
  by (induction r) auto

lemma lk_eq: "lk r = lk_loop r"
  by (simp add: lk_def lk_id)

section \<open>What the writer produces\<close>

text \<open>Texts of scalar values: no lone surrogates, no zero and nothing of the last plane.\<close>

fun scalar_text :: "units \<Rightarrow> bool" where
  "scalar_text [] = True"
| "scalar_text (f # r) =
     (if 55296 \<le> f \<and> f \<le> 57343
      then f < 56256 \<and> (case r of p # r' \<Rightarrow> 56320 \<le> p \<and> p < 57344 \<and> scalar_text r' | [] \<Rightarrow> False)
      else 0 < f \<and> f < 65536 \<and> scalar_text r)"

fun piece_of :: "esc_opts \<Rightarrow> nat \<Rightarrow> piece" where
  "piece_of t c =
     (if eo_escapeEverything t then (if Jk c then Esc c else Hex c)
      else if c \<in> {9, 10, 11, 12, 13} then Hex c
      else if c = 92 \<or> \<not> eo_isIdentifier t \<and> (c = 34 \<or> c = 39) \<and> quote_unit t = c \<or> eo_isIdentifier t \<and> eS c then Esc c
      else Plain c)"

fun pieces :: "esc_opts \<Rightarrow> units \<Rightarrow> piece list" where
  "pieces t [] = []"
| "pieces t (f # r) =
     (if f < 32 \<or> f > 126 then
        (case r of
           p # r' \<Rightarrow>
             if 55296 \<le> f \<and> f \<le> 56319 \<and> 56320 \<le> p \<and> p < 57344
             then Hex ((f mod 1024) * 1024 + p mod 1024 + 65536) # pieces t r'
             else Hex f # pieces t r
         | [] \<Rightarrow> [Hex f])
      else piece_of t f # pieces t r)"

lemma esc_loop_pieces: "esc_loop t s = texts_of (pieces t s)"
  by (induction t s rule: esc_loop.induct) (auto simp: esc_ascii_def split: list.splits)

lemma Jk_no_hex: "Jk c \<Longrightarrow> \<not> any_hex c"
  by (auto simp: Jk_def any_hex_def upper_hex_def)

lemma eS_no_hex: "eS c \<Longrightarrow> \<not> any_hex c"
  by (auto simp: eS_def any_hex_def upper_hex_def)

lemma piece_of_ok: "0 < c \<Longrightarrow> c \<le> 126 \<Longrightarrow> piece_ok (piece_of t c) \<and> piece_value (piece_of t c) = [c]"
proof -
  assume c: "0 < c" "c \<le> 126"
  have h: "piece_ok (Hex c) \<and> piece_value (Hex c) = [c]" using c by (simp add: fromCodePoint_def)
  have q: "\<not> any_hex 92" "\<not> any_hex 34" "\<not> any_hex 39" by (simp_all add: any_hex_def upper_hex_def)
  show ?thesis
  proof (cases "eo_escapeEverything t")
    case True
    with h Jk_no_hex [of c] show ?thesis by (cases "Jk c") simp_all
  next
    case False
    define C where "C \<longleftrightarrow> c = 92 \<or> \<not> eo_isIdentifier t \<and> (c = 34 \<or> c = 39) \<and> quote_unit t = c \<or> eo_isIdentifier t \<and> eS c"
    have "C \<Longrightarrow> \<not> any_hex c" unfolding C_def by (elim disjE conjE) (simp_all add: q eS_no_hex)
    moreover have "\<not> C \<Longrightarrow> c \<noteq> 92" by (simp add: C_def)
    moreover have "piece_of t c = (if c \<in> {9, 10, 11, 12, 13} then Hex c else if C then Esc c else Plain c)"
      using False by (simp only: piece_of.simps C_def if_False)
    ultimately show ?thesis using h by (cases "c \<in> {9, 10, 11, 12, 13}"; cases C) simp_all
  qed
qed

lemma surrogate_value:
  assumes "55296 \<le> f" "f \<le> 56319" "56320 \<le> p" "p < 57344"
  shows "fromCodePoint ((f mod 1024) * 1024 + p mod 1024 + 65536) = [f, p]"
proof -
  define a where "a = f - 55296"
  define b where "b = p - 56320"
  have f: "f = 54 * 1024 + a" "a < 1024" using assms(1,2) by (auto simp: a_def)
  have p: "p = 55 * 1024 + b" "b < 1024" using assms(3,4) by (auto simp: b_def)
  have "f mod 1024 = a" "p mod 1024 = b" unfolding f(1) p(1) using f(2) p(2) by (simp_all only: mod_mult_self3 mod_less)
  moreover have "(a * 1024 + b) div 1024 = a" "(a * 1024 + b) mod 1024 = b" using p(2) by simp_all
  ultimately show ?thesis by (simp add: fromCodePoint_def f(1) p(1))
qed

lemma pieces_ok: "scalar_text s \<Longrightarrow> list_all piece_ok (pieces t s) \<and> concat (map piece_value (pieces t s)) = s"
proof (induction t s rule: pieces.induct)
  case (2 t f r)
  show ?case
  proof (cases "55296 \<le> f \<and> f \<le> 57343")
    case True
    with 2(4) obtain p r' where r: "r = p # r'" "f < 56256" "56320 \<le> p" "p < 57344" "scalar_text r'"
      by (auto split: list.splits)
    let ?v = "(f mod 1024) * 1024 + p mod 1024 + 65536"
    define a where "a = f - 55296"
    have f: "f = 54 * 1024 + a" "a < 960" using True r(2) by (auto simp: a_def)
    then have "f mod 1024 = a" by (simp only: f(1) mod_mult_self3) simp
    moreover have "p mod 1024 < 1024" by simp
    ultimately have ok: "piece_ok (Hex ?v)" using f(2) unfolding piece_ok.simps by linarith
    have c: "f < 32 \<or> f > 126" "55296 \<le> f \<and> f \<le> 56319 \<and> 56320 \<le> p \<and> p < 57344" using True r by auto
    have ps: "pieces t (f # r) = Hex ?v # pieces t r'"
      by (simp only: pieces.simps r(1) list.case c simp_thms if_True)
    have IH: "list_all piece_ok (pieces t r') \<and> concat (map piece_value (pieces t r')) = r'"
      using 2(1) [OF c(1) r(1) c(2)] r(5) by blast
    have "fromCodePoint ?v = [f, p]" using c(2) by (intro surrogate_value) auto
    with ok IH show ?thesis unfolding ps unfolding r(1) by (simp only: list.pred_inject list.map concat.simps piece_value.simps append.simps simp_thms)
  next
    case False
    with 2(4) have f: "0 < f" "f < 65536" "scalar_text r" by (auto split: if_splits)
    show ?thesis
    proof (cases "f < 32 \<or> f > 126")
      case True
      have h: "piece_ok (Hex f)" "piece_value (Hex f) = [f]" using f False by (auto simp: fromCodePoint_def)
      have ps: "pieces t (f # r) = Hex f # pieces t r" using True False by (auto split: list.split)
      have "list_all piece_ok (pieces t r) \<and> concat (map piece_value (pieces t r)) = r"
      proof (cases r)
        case (Cons p r')
        have "\<not> (55296 \<le> f \<and> f \<le> 56319 \<and> 56320 \<le> p \<and> p < 57344)" using False by auto
        from 2(2) [OF True Cons this f(3)] show ?thesis .
      qed simp
      with h show ?thesis unfolding ps by (simp del: piece_ok.simps piece_value.simps)
    next
      case pr: False
      with piece_of_ok [of f t] f 2(3) [OF pr f(3)] show ?thesis by (simp del: piece_of.simps)
    qed
  qed
qed simp

lemma hex_upper_digit: "digit d \<Longrightarrow> hex_upper d = [51, d]"
proof -
  assume "digit d"
  then have "d div 16 = 3" "hex_char (d mod 16) = d" "\<not> d < 16" by (auto simp: digit_def hex_char_def div_nat_eqI mod_if)
  then show ?thesis by (subst hex_upper.simps) (simp add: hex_upper.simps hex_char_def)
qed

fun no_comma :: "piece \<Rightarrow> bool" where
  "no_comma (Plain c) = (c \<noteq> 44)"
| "no_comma _ = True"

lemma esc_start_pieces:
  assumes "scalar_text s" "eo_isIdentifier t" "\<not> eo_escapeEverything t"
  shows "\<exists>ps. esc_start s (texts_of (pieces t s)) = texts_of ps \<and> list_all piece_ok ps \<and> concat (map piece_value ps) = s \<and>
    (list_all no_comma (pieces t s) \<longrightarrow> list_all no_comma ps)"
proof (cases "pieces t s")
  case Nil
  with pieces_ok [OF assms(1), of t] have "s = []" by simp
  with Nil show ?thesis by (intro exI [of _ "[]"]) (simp add: esc_start_def)
next
  case (Cons q qs)
  note ok = pieces_ok [OF assms(1), of t, unfolded Cons]
  let ?a = "texts_of (q # qs)"
  consider (minus) "length ?a \<ge> 2 \<and> ?a ! 0 = 45 \<and> (?a ! 1 = 45 \<or> digit (?a ! 1))"
    | (dig) d r where "\<not> (length ?a \<ge> 2 \<and> ?a ! 0 = 45 \<and> (?a ! 1 = 45 \<or> digit (?a ! 1)))" "s = d # r" "digit d"
    | (rest) "esc_start s ?a = ?a"
  proof (cases "length ?a \<ge> 2 \<and> ?a ! 0 = 45 \<and> (?a ! 1 = 45 \<or> digit (?a ! 1))")
    case False
    then have "esc_start s ?a = (case s of d # _ \<Rightarrow> if digit d then [92, 51, d, 32] @ tl ?a else ?a | [] \<Rightarrow> ?a)"
      by (simp only: esc_start_def if_False)
    with False that(2,3) show thesis by (cases s) (auto split: if_splits)
  qed (rule that(1))
  then show ?thesis
  proof cases
    case minus
    then have q: "q = Plain 45" by (cases q) (auto simp: hex_escape_def)
    have "esc_start s ?a = texts_of (Esc 45 # qs)" using minus by (simp only: esc_start_def if_True) (simp add: q)
    moreover have "piece_ok (Esc 45)" by (simp add: any_hex_def upper_hex_def)
    ultimately show ?thesis unfolding Cons using ok by (intro exI [of _ "Esc 45 # qs"]) (simp add: q)
  next
    case dig
    have "\<not> (d < 32 \<or> d > 126)" "\<not> eS d" "d \<noteq> 92" "d \<notin> {9, 10, 11, 12, 13}" using dig(3) by (auto simp: digit_def eS_def)
    then have q: "q = Plain d" using Cons dig(2) assms(2,3) by simp
    have "esc_start s ?a = texts_of (Hex d # qs)" using dig
      by (simp only: esc_start_def if_False list.case if_True) (simp add: q hex_escape_def hex_upper_digit)
    moreover have "piece_ok (Hex d) \<and> piece_value (Hex d) = [d]" using dig(3) by (auto simp: digit_def fromCodePoint_def)
    ultimately show ?thesis unfolding Cons using ok by (intro exI [of _ "Hex d # qs"]) (simp add: q)
  next
    case rest
    with ok show ?thesis unfolding Cons by blast
  qed
qed

text \<open>
  Reading undoes writing: for every text of scalar values (no zero, nothing of plane 16) the
  escaped form, as an identifier, as a string or with everything escaped, is read back as the text.
\<close>

theorem escape_roundtrip:
  assumes "scalar_text s" "\<not> eo_wrap t" "\<not> (eo_escapeEverything t \<and> eo_isIdentifier t)"
  shows "lk (cssesc t s) = s"
proof -
  obtain ps where "(if eo_isIdentifier t then esc_start s (esc_loop t s) else esc_loop t s) = texts_of ps"
    "list_all piece_ok ps" "concat (map piece_value ps) = s"
    using esc_start_pieces [OF assms(1), of t] pieces_ok [OF assms(1), of t] assms(3) unfolding esc_loop_pieces
    by (cases "eo_isIdentifier t") (simp_all, blast+)
  with lk_pieces [of ps] assms(2) show ?thesis by (simp add: cssesc_def Let_def lk_eq)
qed

lemmas escape_eval = cssesc_def identifier_opts_def esc_ascii_def esc_start_def hex_escape_def hex_upper.simps hex_char_def
  hex_space_def upper_hex_def any_hex_def lk_def ak_def eS_def Jk_def digit_def quote_unit_def lower_hex_def unit_lower_def
  parse_hex_def hex_val_def fromCodePoint_def

theorem escape_roundtrip_witness:
  "cssesc identifier_opts [49, 47, 50, 10, 97] = [92, 51, 49, 92, 47, 50, 92, 65, 32, 97] \<and>
   lk (cssesc identifier_opts [49, 47, 50, 10, 97]) = [49, 47, 50, 10, 97]"
proof -
  have "cssesc identifier_opts [49, 47, 50, 10, 97] = [92, 51, 49, 92, 47, 50, 92, 65, 32, 97]" by (simp add: escape_eval)
  moreover have "scalar_text [49, 47, 50, 10, 97]" by simp
  ultimately show ?thesis using escape_roundtrip [of "[49, 47, 50, 10, 97]" identifier_opts] by (simp add: identifier_opts_def)
qed

text \<open>Six digits fill the window of the reader, which then leaves the space behind the escape in the text.\<close>

lemma plane16_keeps_space: "lk (cssesc identifier_opts [56256, 56320, 97]) = [56256, 56320, 32, 97]"
  by (simp add: escape_eval)

text \<open>With both options the code of a first digit is written twice, once without its backslash.\<close>

lemma both_options_repeat_digit:
  "lk (cssesc (identifier_opts\<lparr>eo_escapeEverything := True\<rparr>) [49]) = [49, 51, 49, 32]"
  by (simp add: escape_eval)

section \<open>Class selectors\<close>

lemma Ut_skip: "c \<noteq> 92 \<or> r = [] \<or> hd r \<noteq> 44 \<Longrightarrow> Ut (c # r) = c # Ut r"
  by (cases r) auto

lemma Ut_plain: "92 \<notin> set h \<Longrightarrow> Ut (h @ r) = h @ Ut r"
  by (induction h) (auto simp: Ut_skip)

lemma texts_hd: "list_all no_comma ps \<Longrightarrow> texts_of ps \<noteq> [] \<Longrightarrow> hd (texts_of ps) \<noteq> 44"
  by (induction ps rule: list.induct) (auto simp: hex_escape_def elim!: no_comma.elims)

lemma Ut_hd: "Ut r = [] \<longleftrightarrow> r = []" "r \<noteq> [] \<Longrightarrow> hd (Ut r) = hd r"
  by (induction r rule: Ut.induct) auto

lemma Ut_idem: "Ut (Ut r) = Ut r"
proof (induction r rule: Ut.induct)
  case (3 c d r)
  then show ?case using Ut_hd [of "d # r"] by (cases "c = 92 \<and> d = 44") (auto simp: Ut_skip simp del: Ut.simps(2,3), simp_all add: Ut_skip)
qed simp_all

lemma ends_escape_Ut: "ends_escape (Ut r) = ends_escape r"
  using Ut_hd [of r] by (cases "r = []") (simp_all add: ends_escape_def)

lemma lk_comma: "lk_loop (92 # 50 # 99 # 32 # r) = 44 # lk_loop r"
proof -
  have "ak (take 6 (50 # 99 # 32 # r)) = Some ([44], 3)"
    by (simp add: ak_def lower_hex_def unit_lower_def parse_hex_def hex_val_def fromCodePoint_def)
  then show ?thesis by (simp del: take_Suc_Cons)
qed

lemma lk_Ut_pieces:
  "list_all piece_ok ps \<Longrightarrow> list_all no_comma ps \<Longrightarrow> lk_loop (Ut (strip_hex False (texts_of ps))) = concat (map piece_value ps)"
proof (induction ps)
  case (Cons p ps)
  define w where "w = strip_hex False (texts_of ps)"
  have IH: "lk_loop (Ut w) = concat (map piece_value ps)" using Cons by (simp add: w_def)
  have hd: "w = [] \<or> hd w \<noteq> 44"
  proof (cases "texts_of ps = []")
    case False
    with Cons.prems(2) strip_hd [of "texts_of ps"] texts_hd [of ps] show ?thesis unfolding w_def by simp
  next
    case True
    then show ?thesis unfolding w_def True by simp
  qed
  show ?case
  proof (cases p)
    case (Plain c)
    with Cons.prems IH show ?thesis by (simp add: w_def [symmetric] Ut_skip)
  next
    case (Esc c)
    then have c: "\<not> any_hex c" using Cons.prems(1) by simp
    have w: "strip_hex False (texts_of (p # ps)) = 92 # c # w" using strip_esc [OF c] by (simp only: Esc w_def list.map concat.simps piece_text.simps append.simps)
    show ?thesis
    proof (cases "c = 44")
      case True
      with w IH lk_comma [of "Ut w"] Esc show ?thesis by (simp del: lk_loop.simps)
    next
      case False
      then have "Ut (92 # c # w) = 92 # c # Ut w" using hd by (simp add: Ut_skip)
      with w IH lk_esc [OF c, of "Ut w"] Esc show ?thesis by (simp del: lk_loop.simps Ut.simps)
    qed
  next
    case (Hex f)
    have f: "piece_ok (Hex f)" using Cons.prems(1) Hex by simp
    have no: "92 \<notin> set (hex_upper f)" using hex_upper_digits [of 92 f] by (auto simp: upper_hex_def)
    have h44: "hd (hex_upper f) \<noteq> 44" using hex_upper_digits [of "hd (hex_upper f)" f] by (auto simp: upper_hex_def)
    have "strip_hex False (texts_of (p # ps)) = 92 # hex_upper f @ (if \<not> ends_escape w then 32 # w else w)"
      using strip_hex_escape [of f "texts_of ps"] f ends_escape_strip [of "texts_of ps"] by (simp add: Hex w_def)
    then have "Ut (strip_hex False (texts_of (p # ps))) = 92 # hex_upper f @ (if \<not> ends_escape (Ut w) then 32 # Ut w else Ut w)"
      using h44 by (simp add: Ut_skip Ut_plain [OF no] ends_escape_Ut)
    with lk_escape [OF f, of "Ut w" "\<not> ends_escape (Ut w)"] IH Hex show ?thesis by (simp del: lk_loop.simps)
  qed
qed simp

lemma pieces_no_comma: "list_all no_comma (pieces identifier_opts s)"
proof (induction identifier_opts s rule: pieces.induct)
  case (2 f r)
  have "no_comma (piece_of identifier_opts f)" by (cases "f = 44") (simp_all add: identifier_opts_def eS_def)
  with 2 show ?case by (auto split: list.split simp del: piece_of.simps)
qed simp

text \<open>
  C32. Class names survive: the selector that the compiler writes for a class name, with its commas
  written as hexadecimal escapes, is read back as the class name.  The name is well-formed UTF-16 with characters
  from U+0001 to U+FFFFF: without lone surrogates, U+0000 and the characters of plane 16, whose escapes have six
  digits and are read back with the space after them.
\<close>

theorem class_name_roundtrip:
  assumes "scalar_text s"
  shows "jo s = 46 # Te s \<and> lk (Te s) = s"
proof -
  have Te: "Te s = Ut (cssesc identifier_opts s)" by (simp add: Te_def class_raw_def Let_def)
  have "eo_isIdentifier identifier_opts" "\<not> eo_escapeEverything identifier_opts" by (simp_all add: identifier_opts_def)
  from esc_start_pieces [OF assms this] pieces_no_comma [of s] obtain ps where
    ps: "esc_start s (esc_loop identifier_opts s) = texts_of ps" "list_all piece_ok ps" "list_all no_comma ps" "concat (map piece_value ps) = s"
    by (auto simp: esc_loop_pieces)
  have "cssesc identifier_opts s = strip_hex False (texts_of ps)"
    unfolding ps(1) [symmetric] by (simp add: cssesc_def Let_def identifier_opts_def)
  with lk_Ut_pieces [OF ps(2,3)] ps(4) Te have "lk (Te s) = s" by (simp add: lk_eq)
  moreover have "jo s = 46 # Te s" by (simp add: jo_def Te Ut_skip Ut_idem)
  ultimately show ?thesis by simp
qed

theorem class_name_roundtrip_witness:
  "Te [112, 44, 49] = [112, 92, 50, 99, 32, 49] \<and> lk (Te [112, 44, 49]) = [112, 44, 49]"
proof -
  have "Te [112, 44, 49] = [112, 92, 50, 99, 32, 49]" by (simp add: Te_def class_raw_def escape_eval)
  moreover have "scalar_text [112, 44, 49]" by simp
  ultimately show ?thesis using class_name_roundtrip [of "[112, 44, 49]"] by simp
qed

end
