(* ===== verification/Tw_Offsets.thy ===== *)
theory Tw_Offsets
  imports Js_Text "HOL-Library.Product_Lexorder" "HOL-Library.List_Lexorder" "HOL-Library.Multiset"
begin

text \<open>
  The order of the generated rules (class \<open>nl\<close>, \<open>Offsets\<close>, in \<^verbatim>\<open>tailwind.js\<close> with its helpers \<open>ms\<close>, \<open>Uh\<close>, \<open>Hh\<close>,
  the maximum, and \<open>J_\<close>, here \<open>name_cmp\<close>).  BigInts are integers; the object that a caller passes with a variant is the record
  \<open>variant_opt\<close>, whose sort function is plugin code and therefore a value of the model.  A JavaScript
  \<^verbatim>\<open>Map\<close> is an association list in insertion order.  \<open>js_sort\<close> is the stable sort of \<^verbatim>\<open>Array.prototype.sort\<close>,
  whose result the language fixes for consistent comparators.
\<close>

unbundle bit_operations_syntax

section \<open>Sorting and comparing\<close>

fun js_insert :: "('a \<Rightarrow> 'a \<Rightarrow> int) \<Rightarrow> 'a \<Rightarrow> 'a list \<Rightarrow> 'a list" where
  "js_insert c x [] = [x]"
| "js_insert c x (y # ys) = (if c x y \<le> 0 then x # y # ys else y # js_insert c x ys)"

definition js_sort :: "('a \<Rightarrow> 'a \<Rightarrow> int) \<Rightarrow> 'a list \<Rightarrow> 'a list" where
  "js_sort c xs = foldr (js_insert c) xs []"

definition ms :: "int \<Rightarrow> int" where
  "ms r = (if r > 0 then 1 else 0) - (if r < 0 then 1 else 0)"

text \<open>\<open>Uh\<close>: every bit of the field that a pair names is replaced by the other bit of the pair.\<close>

definition Uh :: "int \<Rightarrow> (int \<times> int) list \<Rightarrow> int" where
  "Uh r e =
     (case fold (\<lambda>(n, s) (t, i). if r AND n \<noteq> 0 then (t OR n, i OR s) else (t, i)) e (0, 0) of
        (t, i) \<Rightarrow> (r AND NOT t) OR i)"

fun char_diff :: "string \<Rightarrow> string \<Rightarrow> int" where
  "char_diff (a # r) (b # e) = (if a \<noteq> b then int (of_char a) - int (of_char b) else char_diff r e)"
| "char_diff _ _ = 0"

definition name_cmp :: "string \<Rightarrow> string \<Rightarrow> int" where
  "name_cmp r e = (let a = char_diff r e in if a \<noteq> 0 then a else int (length r) - int (length e))"

section \<open>Offsets\<close>

datatype layer = Defaults | Base | Components | Utilities | User | Variants

fun layerPositions :: "layer \<Rightarrow> int" where
  "layerPositions Defaults = 0"
| "layerPositions Base = 1"
| "layerPositions Components = 2"
| "layerPositions Utilities = 3"
| "layerPositions User = 4"
| "layerPositions Variants = 5"

record 'v variant_opt =
  vo_id :: string
  vo_sort :: "('v \<Rightarrow> 'v \<Rightarrow> int) option"
  vo_arg :: 'v \<comment> \<open>\<open>value\<close> and \<open>modifier\<close>\<close>
  vo_variant :: int

record 'v rule_offset =
  ro_layer :: layer
  ro_parentLayer :: layer
  ro_arbitrary :: int
  ro_variants :: int
  ro_parallelIndex :: int
  ro_index :: int
  ro_propertyOffset :: int
  ro_property :: string
  ro_options :: "'v variant_opt list"

record offsets =
  of_next :: "layer \<Rightarrow> int" \<comment> \<open>the field \<open>offsets\<close>\<close>
  of_reservedVariantBits :: nat
  of_variantOffsets :: "(string, int) gomap"

definition new_offsets :: offsets where
  "new_offsets = \<lparr>of_next = (\<lambda>_. 0), of_reservedVariantBits = 0, of_variantOffsets = []\<rparr>"

definition off_create :: "layer \<Rightarrow> offsets \<Rightarrow> 'v rule_offset \<times> offsets" where
  "off_create l o1 =
     (\<lparr>ro_layer = l, ro_parentLayer = l, ro_arbitrary = 0, ro_variants = 0, ro_parallelIndex = 0, ro_index = of_next o1 l,
       ro_propertyOffset = 0, ro_property = [], ro_options = []\<rparr>,
      o1\<lparr>of_next := (of_next o1)(l := of_next o1 l + 1)\<rparr>)"

definition arbitraryProperty :: "string \<Rightarrow> offsets \<Rightarrow> 'v rule_offset \<times> offsets" where
  "arbitraryProperty e o1 =
     (case off_create Utilities o1 of (r, o2) \<Rightarrow> (r\<lparr>ro_arbitrary := 1, ro_property := e\<rparr>, o2))"

text \<open>\<open>None\<close> is the error for an unknown variant.\<close>

definition forVariant :: "string \<Rightarrow> nat \<Rightarrow> offsets \<Rightarrow> ('v rule_offset \<times> offsets) option" where
  "forVariant e t o1 =
     (case gget (of_variantOffsets o1) e of
        None \<Rightarrow> None
      | Some i \<Rightarrow> (case off_create Variants o1 of (r, o2) \<Rightarrow> Some (r\<lparr>ro_variants := push_bit t i\<rparr>, o2)))"

definition applyVariantOffset :: "'v rule_offset \<Rightarrow> 'v rule_offset \<Rightarrow> 'v variant_opt \<Rightarrow> 'v rule_offset" where
  "applyVariantOffset e t i =
     (let i = i\<lparr>vo_variant := ro_variants t\<rparr> in
      e\<lparr>ro_layer := Variants,
        ro_parentLayer := (if ro_layer e = Variants then ro_parentLayer e else ro_layer e),
        ro_variants := ro_variants e OR ro_variants t,
        ro_options := (if vo_sort i \<noteq> None then i # ro_options e else ro_options e),
        ro_parallelIndex := max (ro_parallelIndex e) (ro_parallelIndex t)\<rparr>)"

definition applyParallelOffset :: "'v rule_offset \<Rightarrow> int \<Rightarrow> 'v rule_offset" where
  "applyParallelOffset e t = e\<lparr>ro_parallelIndex := t\<rparr>"

definition recordVariant :: "string \<Rightarrow> nat \<Rightarrow> offsets \<Rightarrow> 'v rule_offset \<times> offsets" where
  "recordVariant e t o1 =
     (let bit = push_bit (of_reservedVariantBits o1) 1;
          o2 = o1\<lparr>of_variantOffsets := gput e bit (of_variantOffsets o1),
                  of_reservedVariantBits := of_reservedVariantBits o1 + t\<rparr>
      in case off_create Variants o2 of (r, o3) \<Rightarrow> (r\<lparr>ro_variants := bit\<rparr>, o3))"

definition recordVariants :: "string list \<Rightarrow> (string \<Rightarrow> nat) \<Rightarrow> offsets \<Rightarrow> offsets" where
  "recordVariants e t o1 = fold (\<lambda>i o1. snd (recordVariant i (t i) o1 :: unit rule_offset \<times> offsets)) e o1"

section \<open>The comparison\<close>

text \<open>The sort function of a pair of options decides when the higher variants of both rules agree.\<close>

definition opt_compare :: "int \<Rightarrow> int \<Rightarrow> 'v variant_opt \<times> 'v variant_opt \<Rightarrow> int" where
  "opt_compare ev tv p =
     (case p of (i, n) \<Rightarrow>
       (if vo_id i \<noteq> vo_id n then 0
        else case (vo_sort i, vo_sort n) of
          (Some f, Some _) \<Rightarrow>
            (let s = max (vo_variant i) (vo_variant n); a = NOT (s OR (s - 1)) in
             if ev AND a \<noteq> tv AND a then 0 else f (vo_arg i) (vo_arg n))
        | _ \<Rightarrow> 0))"

definition first_diff :: "int list \<Rightarrow> int" where
  "first_diff ds = (case dropWhile (\<lambda>d. d = 0) ds of [] \<Rightarrow> 0 | d # _ \<Rightarrow> d)"

definition off_compare :: "'v rule_offset \<Rightarrow> 'v rule_offset \<Rightarrow> int" where
  "off_compare e t =
     (if ro_layer e \<noteq> ro_layer t then layerPositions (ro_layer e) - layerPositions (ro_layer t)
      else if ro_parentLayer e \<noteq> ro_parentLayer t then layerPositions (ro_parentLayer e) - layerPositions (ro_parentLayer t)
      else
        let c = first_diff (map (opt_compare (ro_variants e) (ro_variants t)) (List.product (ro_options e) (ro_options t))) in
        if c \<noteq> 0 then c
        else if ro_variants e \<noteq> ro_variants t then ro_variants e - ro_variants t
        else if ro_parallelIndex e \<noteq> ro_parallelIndex t then ro_parallelIndex e - ro_parallelIndex t
        else if ro_arbitrary e \<noteq> ro_arbitrary t then ro_arbitrary e - ro_arbitrary t
        else if ro_propertyOffset e \<noteq> ro_propertyOffset t then ro_propertyOffset e - ro_propertyOffset t
        else ro_index e - ro_index t)"

definition recalculateVariantOffsets :: "offsets \<Rightarrow> (int \<times> int) list" where
  "recalculateVariantOffsets o1 =
     (let e = js_sort (\<lambda>(n, _) (s, _). name_cmp n s) (filter (\<lambda>(n, _). has_prefix n ''['') (of_variantOffsets o1));
          t = js_sort (\<lambda>n s. ms (n - s)) (map snd e)
      in filter (\<lambda>(n, s). n \<noteq> s) (zip (map snd e) t))"

definition remapArbitraryVariantOffsets :: "offsets \<Rightarrow> ('v rule_offset \<times> 'r) list \<Rightarrow> ('v rule_offset \<times> 'r) list" where
  "remapArbitraryVariantOffsets o1 e =
     (let t = recalculateVariantOffsets o1 in
      if t = [] then e else map (\<lambda>(n, s). (n\<lparr>ro_variants := Uh (ro_variants n) t\<rparr>, s)) e)"

definition sortArbitraryProperties :: "('v rule_offset \<times> 'r) list \<Rightarrow> ('v rule_offset \<times> 'r) list" where
  "sortArbitraryProperties e =
     (let t = rev (remdups (rev (map (\<lambda>(a, _). ro_property a) (filter (\<lambda>(a, _). ro_arbitrary a = 1) e)))) in
      if t = [] then e
      else
        let i = js_sort name_cmp t; n = zip i (map int [1..<Suc (length i)])
        in map (\<lambda>(a, l). (a\<lparr>ro_propertyOffset := (case gget n (ro_property a) of Some k \<Rightarrow> k | None \<Rightarrow> 0)\<rparr>, l)) e)"

definition off_sort :: "offsets \<Rightarrow> ('v rule_offset \<times> 'r) list \<Rightarrow> ('v rule_offset \<times> 'r) list" where
  "off_sort o1 e =
     js_sort (\<lambda>(t, _) (i, _). ms (off_compare t i)) (sortArbitraryProperties (remapArbitraryVariantOffsets o1 e))"

section \<open>Sorting by a key\<close>

lemma js_sort_key:
  fixes k :: "'a \<Rightarrow> 'k::linorder"
  assumes "\<And>x y. x \<in> set xs \<Longrightarrow> y \<in> set xs \<Longrightarrow> c x y \<le> 0 \<longleftrightarrow> k x \<le> k y"
  shows "js_sort c xs = sort_key k xs"
proof -
  have ins: "js_insert c x ys = insort_key k x ys" if "x \<in> set xs" "set ys \<subseteq> set xs" for x ys
    using that by (induction ys) (auto simp: assms)
  have "foldr (js_insert c) zs [] = sort_key k zs" if "set zs \<subseteq> set xs" for zs
    using that by (induction zs) (auto simp: ins sort_key_def [symmetric])
  then show ?thesis by (simp add: js_sort_def)
qed

lemma mset_js_sort [simp]: "mset (js_sort c xs) = mset xs"
proof -
  have "mset (js_insert c x ys) = add_mset x (mset ys)" for x ys by (induction ys) auto
  then show ?thesis unfolding js_sort_def by (induction xs) simp_all
qed

lemma ms_le [simp]: "ms r \<le> 0 \<longleftrightarrow> r \<le> 0"
  by (simp add: ms_def)

lemma layerPositions_inject [simp]: "layerPositions a = layerPositions b \<longleftrightarrow> a = b"
  by (cases a; cases b) simp_all

definition off_key :: "'v rule_offset \<Rightarrow> int \<times> int \<times> int \<times> int \<times> int \<times> int \<times> int" where
  "off_key e = (layerPositions (ro_layer e), layerPositions (ro_parentLayer e), ro_variants e, ro_parallelIndex e,
     ro_arbitrary e, ro_propertyOffset e, ro_index e)"

lemma off_compare_key:
  assumes "ro_options e = [] \<or> ro_options t = []"
  shows "off_compare e t \<le> 0 \<longleftrightarrow> off_key e \<le> off_key t"
proof -
  have "List.product (ro_options e) (ro_options t) = []" using assms by (simp flip: set_empty add: set_product)
  then show ?thesis
    by (auto simp: off_compare_def off_key_def first_diff_def less_eq_prod_def)
qed

lemma remap_snd: "map snd (remapArbitraryVariantOffsets o1 e) = map snd e"
  by (simp add: remapArbitraryVariantOffsets_def Let_def case_prod_beta comp_def)

lemma sortArbitrary_snd: "map snd (sortArbitraryProperties e) = map snd e"
  by (simp add: sortArbitraryProperties_def Let_def case_prod_beta comp_def)

lemma prepared_options:
  "(a, l) \<in> set (sortArbitraryProperties (remapArbitraryVariantOffsets o1 e)) \<Longrightarrow>
     \<exists>b. (b, l) \<in> set e \<and> ro_options a = ro_options b \<and> ro_layer a = ro_layer b"
  by (fastforce simp: sortArbitraryProperties_def remapArbitraryVariantOffsets_def Let_def split: if_splits)

text \<open>
  Rules without plugin sort functions come out in the lexicographic order of layer, layer
  before the variants, variants, parallel index, arbitrary flag, property and index; every rule comes
  out exactly once, and rules with equal keys keep their order.
\<close>

theorem off_sort_order:
  assumes "\<forall>(a, l) \<in> set rules. ro_options a = []"
  shows "off_sort o1 rules =
      sort_key (\<lambda>(a, l). off_key a) (sortArbitraryProperties (remapArbitraryVariantOffsets o1 rules)) \<and>
    sorted (map (\<lambda>(a, l). off_key a) (off_sort o1 rules)) \<and> mset (map snd (off_sort o1 rules)) = mset (map snd rules)"
proof -
  define prepared where "prepared = sortArbitraryProperties (remapArbitraryVariantOffsets o1 rules)"
  have opts: "\<forall>(a, l) \<in> set prepared. ro_options a = []"
    using assms(1) prepared_options [of _ _ o1 rules] by (fastforce simp: prepared_def)
  have "off_sort o1 rules = sort_key (\<lambda>(a, l). off_key a) prepared"
    unfolding off_sort_def prepared_def [symmetric] using opts by (intro js_sort_key) (auto simp: off_compare_key)
  moreover have "mset (map snd prepared) = mset (map snd rules)"
    by (simp only: prepared_def sortArbitrary_snd remap_snd)
  ultimately show ?thesis by (simp only: mset_map mset_sort sorted_sort_key prepared_def simp_thms)
qed

theorem off_sort_order_witness:
  "map snd (off_sort new_offsets
     [(fst (recordVariant ''hover'' 1 new_offsets) :: unit rule_offset, ''a''), (fst (off_create Utilities new_offsets), ''b'')]) =
   [''b'', ''a'']"
proof -
  let ?rs = "[(fst (recordVariant ''hover'' 1 new_offsets) :: unit rule_offset, ''a''), (fst (off_create Utilities new_offsets), ''b'')]"
  have "\<forall>(a, l) \<in> set ?rs. ro_options a = []" by (simp add: recordVariant_def off_create_def Let_def)
  from conjunct1 [OF off_sort_order [OF this, of new_offsets]] show ?thesis
    by (simp add: recordVariant_def off_create_def Let_def new_offsets_def sortArbitraryProperties_def remapArbitraryVariantOffsets_def
        recalculateVariantOffsets_def js_sort_def off_key_def)
qed

section \<open>Variant bits\<close>

text \<open>Where the bits of a variant start when a list of variants is recorded from a given bit on.\<close>

fun bit_starts :: "nat \<Rightarrow> (string \<Rightarrow> nat) \<Rightarrow> string list \<Rightarrow> (string, int) gomap" where
  "bit_starts k w [] = []"
| "bit_starts k w (n # ns) = (n, push_bit k 1) # bit_starts (k + w n) w ns"

lemma recordVariant_state:
  "of_variantOffsets (snd (recordVariant n w o1)) = gput n (push_bit (of_reservedVariantBits o1) 1) (of_variantOffsets o1)"
  "of_reservedVariantBits (snd (recordVariant n w o1)) = of_reservedVariantBits o1 + w"
  by (simp_all add: recordVariant_def Let_def off_create_def)

lemma gput_fresh: "k \<notin> fst ` set m \<Longrightarrow> gput k v m = m @ [(k, v)]"
  by (induction m) auto

lemma recordVariants_starts:
  "distinct ns \<Longrightarrow> set ns \<inter> fst ` set (of_variantOffsets o1) = {} \<Longrightarrow>
     of_variantOffsets (recordVariants ns w o1) = of_variantOffsets o1 @ bit_starts (of_reservedVariantBits o1) w ns"
proof (induction ns arbitrary: o1)
  case (Cons n ns)
  let ?o = "snd (recordVariant n (w n) o1 :: unit rule_offset \<times> offsets)"
  have "n \<notin> fst ` set (of_variantOffsets o1)" using Cons.prems by auto
  then have o: "of_variantOffsets ?o = of_variantOffsets o1 @ [(n, push_bit (of_reservedVariantBits o1) 1)]"
    by (simp add: recordVariant_state gput_fresh)
  with Cons.prems have "set ns \<inter> fst ` set (of_variantOffsets ?o) = {}" by auto
  from Cons.IH [OF _ this] Cons.prems o show ?case by (simp add: recordVariants_def recordVariant_state)
qed (simp add: recordVariants_def)

lemma bit_starts_get:
  "distinct (ns @ n # us) \<Longrightarrow> gget (bit_starts k w (ns @ n # us)) n = Some (2 ^ (k + sum_list (map w ns)))"
  by (induction ns arbitrary: k) (auto simp: push_bit_eq_mult add.assoc)

lemma power_AND_disjoint: "i \<noteq> j \<Longrightarrow> (2 ^ i :: int) AND 2 ^ j = 0"
  by (intro bit_eqI) (auto simp: bit_simps bit_exp_iff)

text \<open>
  The bits that are set for the forms of the recorded variants are single bits, different for
  different forms, and in the order of the registration: all forms of a variant come before those of
  every variant that is recorded later.
\<close>

theorem variant_bits_ordered:
  assumes "distinct (as @ a # bs @ b # cs)" "i < w a"
  shows "\<exists>x y k l. forVariant a i (recordVariants (as @ a # bs @ b # cs) w new_offsets) = Some (x, k) \<and>
    forVariant b j (recordVariants (as @ a # bs @ b # cs) w new_offsets) = Some (y, l) \<and>
    ro_variants x < ro_variants y \<and> ro_variants x AND ro_variants y = 0 \<and> (\<exists>p. ro_variants x = 2 ^ p)"
proof -
  let ?ns = "as @ a # bs @ b # cs" and ?s = "sum_list (map w as)"
  let ?o = "recordVariants ?ns w new_offsets"
  have o: "of_variantOffsets ?o = bit_starts 0 w ?ns"
    using recordVariants_starts [OF assms(1), of new_offsets w] by (simp add: new_offsets_def)
  have a: "gget (bit_starts 0 w ?ns) a = Some (2 ^ ?s)"
    using bit_starts_get [OF assms(1), of 0 w] by simp
  have "distinct ((as @ a # bs) @ b # cs)" using assms(1) by simp
  from bit_starts_get [OF this, of 0 w] have b: "gget (bit_starts 0 w ?ns) b = Some (2 ^ (?s + w a + sum_list (map w bs)))"
    by (simp add: add.assoc)
  have lt: "?s + i < ?s + w a + sum_list (map w bs) + j" using assms(2) by simp
  then have "(2::int) ^ (?s + i) < 2 ^ (?s + w a + sum_list (map w bs) + j)" by (rule power_strict_increasing) simp
  moreover have "(2::int) ^ (?s + i) AND 2 ^ (?s + w a + sum_list (map w bs) + j) = 0"
    using lt by (intro power_AND_disjoint) simp
  ultimately show ?thesis using o a b
    by (auto simp: forVariant_def off_create_def push_bit_eq_mult power_add [symmetric])
qed

theorem variant_bits_ordered_witness:
  "\<exists>x y k l. forVariant ''hover'' 1 (recordVariants [''hover'', ''focus''] (\<lambda>_. 2) new_offsets) = Some (x :: unit rule_offset, k) \<and>
     forVariant ''focus'' 0 (recordVariants [''hover'', ''focus''] (\<lambda>_. 2) new_offsets) = Some (y :: unit rule_offset, l) \<and>
     ro_variants x < ro_variants y \<and> ro_variants x AND ro_variants y = 0 \<and> (\<exists>p. ro_variants x = 2 ^ p)"
  using variant_bits_ordered [of "[]" "''hover''" "[]" "''focus''" "[]" 1 "\<lambda>_. 2" 0] by simp

section \<open>Arbitrary variants\<close>

text \<open>The states that registrations lead to; a variant may be recorded again.\<close>

inductive off_reach :: "offsets \<Rightarrow> bool" where
  init: "off_reach new_offsets"
| create: "off_reach o1 \<Longrightarrow> off_reach (snd (off_create l o1 :: unit rule_offset \<times> offsets))"
| recd: "off_reach o1 \<Longrightarrow> 0 < w \<Longrightarrow> off_reach (snd (recordVariant n w o1 :: unit rule_offset \<times> offsets))"

definition off_wf :: "offsets \<Rightarrow> bool" where
  "off_wf o1 \<longleftrightarrow> gwf (of_variantOffsets o1) \<and>
     (\<forall>(n, b) \<in> set (of_variantOffsets o1). \<exists>k < of_reservedVariantBits o1. b = 2 ^ k) \<and>
     inj_on snd (set (of_variantOffsets o1))"

lemma set_gput: "gwf m \<Longrightarrow> set (gput k v m) = insert (k, v) {p \<in> set m. fst p \<noteq> k}"
  by (induction m) (auto simp: gwf_def rev_image_eqI)

lemma off_reach_wf: "off_reach o1 \<Longrightarrow> off_wf o1"
proof (induction rule: off_reach.induct)
  case (recd o1 w n)
  let ?m = "of_variantOffsets o1" and ?k = "of_reservedVariantBits o1"
  from recd.IH have wf: "gwf ?m" and b: "\<forall>(n, b) \<in> set ?m. \<exists>k < ?k. b = 2 ^ k" and i: "inj_on snd (set ?m)"
    by (simp_all add: off_wf_def)
  have "\<forall>(n, b) \<in> set ?m. b \<noteq> 2 ^ ?k" using b by fastforce
  then have "inj_on snd (set (gput n (2 ^ ?k) ?m))" using i by (auto simp: set_gput [OF wf] inj_on_def)
  moreover have "\<forall>(n', b') \<in> set (gput n (2 ^ ?k) ?m). \<exists>k < ?k + w. b' = 2 ^ k"
    using b \<open>0 < w\<close> by (fastforce simp: set_gput [OF wf])
  ultimately show ?case using wf by (simp add: off_wf_def recordVariant_state push_bit_eq_mult)
qed (simp_all add: off_wf_def new_offsets_def off_create_def)

lemma power_AND_iff: "(2 ^ i :: int) AND 2 ^ j \<noteq> 0 \<longleftrightarrow> i = j"
  using power_AND_disjoint [of i j] by auto

lemma Uh_fold:
  assumes "\<forall>(n, s) \<in> set e. \<exists>k. n = 2 ^ k" "distinct (map fst e)"
  shows "fold (\<lambda>(n, s) (t, i). if (2 ^ p :: int) AND n \<noteq> 0 then (t OR n, i OR s) else (t, i)) e (t, i) =
    (case map_of e (2 ^ p) of None \<Rightarrow> (t, i) | Some s \<Rightarrow> (t OR 2 ^ p, i OR s))"
  using assms
proof (induction e arbitrary: t i)
  case (Cons q e)
  obtain k s where q: "q = (2 ^ k, s)" using Cons.prems(1) by (cases q) auto
  have "map_of e (2 ^ k) = None" using Cons.prems(2) q by (simp add: map_of_eq_None_iff)
  with Cons q show ?case by (cases "p = k") (auto simp: power_AND_iff [THEN iffD2] power_AND_disjoint)
qed simp

lemma Uh_bit:
  assumes "\<forall>(n, s) \<in> set e. \<exists>k. n = 2 ^ k" "distinct (map fst e)"
  shows "Uh (2 ^ p) e = (case map_of e (2 ^ p) of None \<Rightarrow> 2 ^ p | Some s \<Rightarrow> s)"
  unfolding Uh_def Uh_fold [OF assms] by (simp split: option.split)

abbreviation codes :: "string \<Rightarrow> nat list" where
  "codes s \<equiv> map of_char s"

lemma name_cmp_codes: "name_cmp r e \<le> 0 \<longleftrightarrow> codes r \<le> codes e"
proof (induction r e rule: char_diff.induct)
  case (1 a r b e)
  have "a \<noteq> b \<Longrightarrow> (of_char a :: nat) \<noteq> of_char b" by simp
  then show ?case using 1 by (cases "a = b") (auto simp: name_cmp_def Let_def order_less_le)
qed (auto simp: name_cmp_def Let_def)

lemma name_cmp_less: "name_cmp r e < 0 \<longleftrightarrow> codes r < codes e"
proof (cases "r = e")
  case False
  then have "codes r \<noteq> codes e" by (simp add: inj_map_eq_map inj_on_def)
  have "name_cmp e r = - name_cmp r e"
  proof -
    have "char_diff e r = - char_diff r e" by (induction r e rule: char_diff.induct) auto
    then show ?thesis by (simp add: name_cmp_def Let_def)
  qed
  with name_cmp_codes [of r e] name_cmp_codes [of e r] \<open>codes r \<noteq> codes e\<close> show ?thesis by auto
next
  case True
  have "char_diff e e = 0" by (induction e) simp_all
  with True show ?thesis by (simp add: name_cmp_def)
qed

definition arb_entries :: "offsets \<Rightarrow> (string \<times> int) list" where
  "arb_entries o1 = sort_key (\<lambda>p. codes (fst p)) (filter (\<lambda>(n, _). has_prefix n ''['') (of_variantOffsets o1))"

lemma recalculate_eq:
  "recalculateVariantOffsets o1 =
     filter (\<lambda>(n, s). n \<noteq> s) (zip (map snd (arb_entries o1)) (sort (map snd (arb_entries o1))))"
proof -
  have e: "js_sort (\<lambda>(n, _) (s, _). name_cmp n s) xs = sort_key (\<lambda>p. codes (fst p)) xs" for xs :: "(string \<times> int) list"
    by (rule js_sort_key) (auto simp: name_cmp_codes)
  have "js_sort (\<lambda>n s. ms (n - s)) xs = sort xs" for xs by (rule js_sort_key) auto
  with e show ?thesis by (simp add: recalculateVariantOffsets_def Let_def arb_entries_def)
qed

lemma map_of_filter_changed:
  "distinct (map fst ps) \<Longrightarrow>
     (case map_of (filter (\<lambda>(n, s). n \<noteq> s) ps) k of None \<Rightarrow> k | Some s \<Rightarrow> s) = (case map_of ps k of None \<Rightarrow> k | Some s \<Rightarrow> s)"
proof (induction ps)
  case (Cons p ps)
  obtain a b where p: "p = (a, b)" by fastforce
  have "map_of (filter (\<lambda>(n, s). n \<noteq> s) ps) a = None" using Cons.prems p by (auto simp: map_of_eq_None_iff)
  with Cons p show ?case by (auto split: option.splits)
qed simp

lemma remap_bit:
  assumes "off_reach o1" "(n, x) \<in> set (of_variantOffsets o1)"
  shows "Uh x (recalculateVariantOffsets o1) =
    (case map_of (zip (map snd (arb_entries o1)) (sort (map snd (arb_entries o1)))) x of None \<Rightarrow> x | Some s \<Rightarrow> s)"
proof -
  let ?z = "zip (map snd (arb_entries o1)) (sort (map snd (arb_entries o1)))"
  from off_reach_wf [OF assms(1)] have wf: "off_wf o1" .
  then have "distinct (of_variantOffsets o1)" by (auto simp: off_wf_def gwf_def distinct_map)
  with wf have d: "distinct (map snd (arb_entries o1))"
    by (auto simp: arb_entries_def off_wf_def distinct_map inj_on_def)
  then have dz: "distinct (map fst ?z)" by simp
  have p: "\<forall>(m, s) \<in> set ?z. \<exists>k. m = 2 ^ k"
    using wf by (fastforce simp: arb_entries_def off_wf_def dest: set_zip_leftD)
  obtain k where "x = 2 ^ k" using wf assms(2) by (auto simp: off_wf_def)
  moreover have "\<forall>(m, s) \<in> set (filter (\<lambda>(n, s). n \<noteq> s) ?z). \<exists>k. m = 2 ^ k" using p by auto
  moreover have "distinct (map fst (filter (\<lambda>(n, s). n \<noteq> s) ?z))" using dz by (simp add: distinct_map_filter)
  ultimately show ?thesis unfolding recalculate_eq using map_of_filter_changed [OF dz, of x] by (simp only: Uh_bit)
qed

text \<open>
  However the arbitrary variants were met, after remapping their bits are in the order of their
  names, so the order of the style sheet does not depend on the order of discovery; the bits of named
  variants stay.
\<close>

theorem arbitrary_variants_by_name:
  assumes "off_reach o1" "(a, x) \<in> set (of_variantOffsets o1)" "(b, y) \<in> set (of_variantOffsets o1)"
    "has_prefix a ''[''" "has_prefix b ''[''" "name_cmp a b < 0" "(c, z) \<in> set (of_variantOffsets o1)" "\<not> has_prefix c ''[''"
  shows "Uh x (recalculateVariantOffsets o1) < Uh y (recalculateVariantOffsets o1) \<and> Uh z (recalculateVariantOffsets o1) = z"
proof -
  let ?e = "arb_entries o1"
  let ?s = "sort (map snd ?e)"
  from off_reach_wf [OF assms(1)] have wf: "off_wf o1" .
  then have "distinct (of_variantOffsets o1)" by (auto simp: off_wf_def gwf_def distinct_map)
  with wf have d: "distinct (map snd ?e)" by (auto simp: arb_entries_def off_wf_def distinct_map inj_on_def)
  have get: "i < length ?e \<Longrightarrow> map_of (zip (map snd ?e) ?s) (snd (?e ! i)) = Some (?s ! i)" for i
    using map_of_zip_nth [of "map snd ?e" ?s i] d by simp
  obtain i j where i: "i < length ?e" "?e ! i = (a, x)" and j: "j < length ?e" "?e ! j = (b, y)"
  proof -
    have "(a, x) \<in> set ?e" "(b, y) \<in> set ?e" using assms(2-5) by (auto simp: arb_entries_def)
    then show thesis using that by (auto simp: in_set_conv_nth)
  qed
  have "sorted (map (\<lambda>p. codes (fst p)) ?e)" by (simp add: arb_entries_def)
  then have "i < j" using i j assms(6) name_cmp_less [of a b] sorted_nth_mono [of "map (\<lambda>p. codes (fst p)) ?e" j i]
    by (cases "i < j") (auto simp: not_less)
  then have "?s ! i < ?s ! j"
    using d j(1) sorted_wrt_nth_less [of "(<)" ?s i j] by (simp add: strict_sorted_iff)
  have uxy: "Uh x (recalculateVariantOffsets o1) = ?s ! i" "Uh y (recalculateVariantOffsets o1) = ?s ! j"
    using remap_bit [OF assms(1,2)] remap_bit [OF assms(1,3)] get [OF i(1)] get [OF j(1)] i(2) j(2) by simp_all
  have "z \<notin> snd ` set ?e"
    using wf assms(7,8) by (force simp: arb_entries_def off_wf_def inj_on_def)
  then have "map_of (zip (map snd ?e) ?s) z = None" by (auto simp: map_of_eq_None_iff dest!: set_zip_leftD)
  with remap_bit [OF assms(1,7)] have "Uh z (recalculateVariantOffsets o1) = z" by simp
  with \<open>?s ! i < ?s ! j\<close> uxy show ?thesis by simp
qed

definition demo_offsets :: offsets where
  "demo_offsets = recordVariants [''hover'', ''[b]'', ''[a]''] (\<lambda>_. 1) new_offsets"

theorem arbitrary_variants_by_name_witness:
  "gget (of_variantOffsets demo_offsets) ''[a]'' = Some 4 \<and> gget (of_variantOffsets demo_offsets) ''[b]'' = Some 2 \<and>
   Uh 4 (recalculateVariantOffsets demo_offsets) < Uh 2 (recalculateVariantOffsets demo_offsets) \<and>
   Uh 1 (recalculateVariantOffsets demo_offsets) = 1"
proof -
  have m: "of_variantOffsets demo_offsets = [(''hover'', 1), (''[b]'', 2), (''[a]'', 4)]"
    by (simp add: demo_offsets_def recordVariants_def recordVariant_state) (simp add: new_offsets_def)
  have "off_reach demo_offsets" unfolding demo_offsets_def recordVariants_def by (simp add: off_reach.intros)
  from arbitrary_variants_by_name [OF this, of "''[a]''" 4 "''[b]''" 2 "''hover''" 1] m show ?thesis
    by (simp add: name_cmp_def)
qed

end
