(* ===== verification/Tw_Content.thy ===== *)
theory Tw_Content
  imports Quick_Lru Tw_Offsets
begin

text \<open>
  How the compiler collects candidate class names from content (functions \<open>V2\<close>, \<open>H2\<close>, \<open>W2\<close> and \<open>G2\<close> of
  \<^verbatim>\<open>tailwind.js\<close>).  The result of an extractor on a line is kept in a least-recently-used cache per extractor
  (\<open>zi\<close>, a \<^verbatim>\<open>WeakMap\<close> from extractor functions to caches).  Extractors are configuration: the model takes
  their identity and the function \<open>extract\<close> from an identity to what it computes.  A \<^verbatim>\<open>Set\<close> is a list
  without repetitions in insertion order.
\<close>

section \<open>Sets\<close>

definition set_add :: "'a \<Rightarrow> 'a list \<Rightarrow> 'a list" where
  "set_add x xs = (if x \<in> set xs then xs else xs @ [x])"

definition set_add_all :: "'a list \<Rightarrow> 'a list \<Rightarrow> 'a list" where
  "set_add_all ys xs = fold set_add ys xs"

lemma set_set_add_all [simp]: "set (set_add_all ys xs) = set ys \<union> set xs"
  unfolding set_add_all_def by (induction ys arbitrary: xs) (auto simp: set_add_def)

lemma distinct_set_add_all [simp]: "distinct xs \<Longrightarrow> distinct (set_add_all ys xs)"
  unfolding set_add_all_def by (induction ys arbitrary: xs) (auto simp: set_add_def)

section \<open>Choosing an extractor and a transformer\<close>

text \<open>\<open>V2\<close> and \<open>H2\<close>: the entry for the extension, the configured default, the built-in entry, the built-in default.\<close>

definition pick :: "(string, 'x) gomap \<Rightarrow> (string, 'x) gomap \<Rightarrow> 'x \<Rightarrow> string \<Rightarrow> 'x" where
  "pick configured builtin dflt ext =
     (case gget configured ext of Some x \<Rightarrow> x
      | None \<Rightarrow> (case gget configured ''DEFAULT'' of Some x \<Rightarrow> x
      | None \<Rightarrow> (case gget builtin ext of Some x \<Rightarrow> x | None \<Rightarrow> dflt)))"

text \<open>
  The built-in extractors \<open>Wg\<close> have only a default, and that is the function \<open>Ug\<close> that makes an extractor for a
  context.  \<open>V2\<close> calls it anew each time, so \<open>fresh\<close>, the identity of the extractor made by this call, is
  another one for every call.  (A file with the extension \<open>DEFAULT\<close> gets \<open>Ug\<close> itself.)  The transformers \<open>Gg\<close> also have
  one for Svelte files.
\<close>

definition V2 :: "(string, 'x) gomap \<Rightarrow> 'x \<Rightarrow> 'x \<Rightarrow> string \<Rightarrow> 'x" where
  "V2 extract_conf Ug fresh ext = pick extract_conf [(''DEFAULT'', Ug)] fresh ext"

text \<open>Without a configured extractor no two calls get the same one, so their line caches are never shared.\<close>

lemma default_extractor_unshared:
  assumes "gget extract_conf ext = None" and "gget extract_conf ''DEFAULT'' = None" and "ext \<noteq> ''DEFAULT''"
  shows "V2 extract_conf Ug fresh ext = fresh"
  using assms by (simp add: V2_def pick_def)

fun svelte_scan :: "string \<Rightarrow> string" where
  "svelte_scan [] = []"
| "svelte_scan (c # r) =
     (if js_space c \<and> has_prefix r ''class:'' then CHR '' '' # svelte_scan (drop 6 r) else c # svelte_scan r)"

definition svelte_class :: "string \<Rightarrow> string" where
  "svelte_class s = (if has_prefix s ''class:'' then CHR '' '' # svelte_scan (drop 6 s) else svelte_scan s)"

definition H2 :: "(string, string \<Rightarrow> string) gomap \<Rightarrow> string \<Rightarrow> string \<Rightarrow> string" where
  "H2 transform_conf ext = pick transform_conf [(''DEFAULT'', \<lambda>r. r), (''svelte'', svelte_class)] (\<lambda>r. r) ext"

section \<open>Collecting candidates\<close>

type_synonym line_cache = "(string, string list) lru"

record 'x content_state =
  cs_candidates :: "string list"
  cs_seen :: "string list"
  cs_zi :: "('x, line_cache) gomap"

definition empty_line_cache :: line_cache where
  "empty_line_cache =
     \<lparr>lru_maxSize = 25000, lru_maxAge = None, lru_onEviction = False, lru_cache = [], lru_oldCache = [], lru_size = 0, lru_evicted = []\<rparr>"

definition line_candidates :: "(string \<Rightarrow> string list) \<Rightarrow> string \<Rightarrow> string list" where
  "line_candidates f n = set_add_all (filter (\<lambda>c. c \<noteq> ''!*'') (f n)) []"

definition W2_line :: "int \<Rightarrow> ('x \<Rightarrow> string \<Rightarrow> string list) \<Rightarrow> 'x \<Rightarrow> 'x content_state \<Rightarrow> string \<Rightarrow> 'x content_state" where
  "W2_line now extract e st line =
     (let n = js_trim line in
      if n \<in> set (cs_seen st) then st
      else
        let st = st\<lparr>cs_seen := cs_seen st @ [n]\<rparr>;
            q = (case gget (cs_zi st) e of Some q \<Rightarrow> q | None \<Rightarrow> empty_line_cache) in
        case lru_has now q n of
          (True, q1) \<Rightarrow>
            (case lru_get now q1 n of
               (v, q2) \<Rightarrow> st\<lparr>cs_candidates := set_add_all (case v of Some a \<Rightarrow> a | None \<Rightarrow> []) (cs_candidates st),
                              cs_zi := gput e q2 (cs_zi st)\<rparr>)
        | (False, q1) \<Rightarrow>
            let a = line_candidates (extract e) n
            in st\<lparr>cs_candidates := set_add_all a (cs_candidates st), cs_zi := gput e (lru_set now q1 n a None) (cs_zi st)\<rparr>)"

definition W2 :: "int \<Rightarrow> ('x \<Rightarrow> string \<Rightarrow> string list) \<Rightarrow> 'x content_state \<Rightarrow> string \<times> 'x \<Rightarrow> 'x content_state" where
  "W2 now extract st r =
     (case r of (text, e) \<Rightarrow>
        let st = (if map_has (cs_zi st) e then st else st\<lparr>cs_zi := gput e empty_line_cache (cs_zi st)\<rparr>)
        in foldl (W2_line now extract e) st (split_on newline text))"

text \<open>\<open>G2\<close>: the sorted rules by layer; a rule of the layer \<open>user\<close> has no place and stops with an error.\<close>

record 'r layer_rules =
  lr_base :: "'r list"
  lr_defaults :: "'r list"
  lr_components :: "'r list"
  lr_utilities :: "'r list"
  lr_variants :: "'r list"

fun layer_add :: "layer \<Rightarrow> 'r \<Rightarrow> 'r layer_rules \<Rightarrow> 'r layer_rules option" where
  "layer_add Base s i = Some (i\<lparr>lr_base := set_add s (lr_base i)\<rparr>)"
| "layer_add Defaults s i = Some (i\<lparr>lr_defaults := set_add s (lr_defaults i)\<rparr>)"
| "layer_add Components s i = Some (i\<lparr>lr_components := set_add s (lr_components i)\<rparr>)"
| "layer_add Utilities s i = Some (i\<lparr>lr_utilities := set_add s (lr_utilities i)\<rparr>)"
| "layer_add Variants s i = Some (i\<lparr>lr_variants := set_add s (lr_variants i)\<rparr>)"
| "layer_add User s i = None"

fun G2_loop :: "('v rule_offset \<times> 'r) list \<Rightarrow> 'r layer_rules \<Rightarrow> 'r layer_rules option" where
  "G2_loop [] i = Some i"
| "G2_loop ((n, s) # t) i = (case layer_add (ro_layer n) s i of None \<Rightarrow> None | Some i' \<Rightarrow> G2_loop t i')"

definition G2 :: "('v rule_offset \<times> 'r) list \<Rightarrow> offsets \<Rightarrow> 'r layer_rules option" where
  "G2 r e = G2_loop (off_sort e r) \<lparr>lr_base = [], lr_defaults = [], lr_components = [], lr_utilities = [], lr_variants = []\<rparr>"

section \<open>The cache is transparent\<close>

text \<open>Every cached line holds what its extractor computes, and nothing in the caches expires.\<close>

definition entry_ok :: "(string \<Rightarrow> string list) \<Rightarrow> string \<Rightarrow> string list lru_entry \<Rightarrow> bool" where
  "entry_ok f n t \<longleftrightarrow> lru_value t = line_candidates f n \<and> lru_expiry t = None"

definition cache_true :: "(string \<Rightarrow> string list) \<Rightarrow> line_cache \<Rightarrow> bool" where
  "cache_true f q \<longleftrightarrow> lru_maxAge q = None \<and>
     (\<forall>n t. gget (lru_cache q) n = Some t \<or> gget (lru_oldCache q) n = Some t \<longrightarrow> entry_ok f n t)"

definition zi_true :: "('x \<Rightarrow> string \<Rightarrow> string list) \<Rightarrow> 'x content_state \<Rightarrow> bool" where
  "zi_true extract st \<longleftrightarrow> (\<forall>e q. gget (cs_zi st) e = Some q \<longrightarrow> cache_true (extract e) q)"

lemma empty_line_cache_true [simp]: "cache_true f empty_line_cache"
  by (simp add: cache_true_def empty_line_cache_def)

lemma lru_put_true: "cache_true f q \<Longrightarrow> entry_ok f n t \<Longrightarrow> cache_true f (lru_put q n t)"
  by (auto simp: cache_true_def lru_put_def Let_def lru_emitEvictions_def split: if_splits)

lemma lru_set_true: "cache_true f q \<Longrightarrow> cache_true f (lru_set now q n (line_candidates f n) None)"
  by (auto simp: lru_set_def Let_def lru_deadline_def entry_ok_def intro!: lru_put_true)
     (auto simp: cache_true_def entry_ok_def split: if_splits)

lemma not_expired: "entry_ok f n t \<Longrightarrow> lru_deleteIfExpired now q n t = (False, q)"
  by (simp add: entry_ok_def lru_deleteIfExpired_def)

lemma lru_has_true: "cache_true f q \<Longrightarrow> lru_has now q n = (gget (lru_cache q) n \<noteq> None \<or> gget (lru_oldCache q) n \<noteq> None, q)"
  by (auto simp: lru_has_def cache_true_def not_expired [of f] split: option.split)

lemma lru_get_true:
  assumes "cache_true f q" "fst (lru_has now q n)"
  shows "\<exists>q'. lru_get now q n = (Some (line_candidates f n), q') \<and> cache_true f q'"
proof (cases "gget (lru_cache q) n")
  case (Some t)
  with assms(1) have "entry_ok f n t" by (auto simp: cache_true_def)
  with Some assms(1) show ?thesis by (simp add: lru_get_def lru_getItemValue_def entry_ok_def)
next
  case None
  with assms obtain t where t: "gget (lru_oldCache q) n = Some t" by (auto simp: lru_has_true)
  with assms(1) have ok: "entry_ok f n t" by (auto simp: cache_true_def)
  have "cache_true f (q\<lparr>lru_oldCache := gdel n (lru_oldCache q)\<rparr>)" using assms(1) by (auto simp: cache_true_def split: if_splits)
  then have "cache_true f (lru_moveToRecent q n t)" unfolding lru_moveToRecent_def using ok by (rule lru_put_true)
  with None t ok show ?thesis by (auto simp: lru_get_def not_expired [of f] entry_ok_def)
qed

lemma W2_line_true:
  assumes "zi_true extract st"
  shows "zi_true extract (W2_line now extract e st l) \<and> cs_seen (W2_line now extract e st l) = set_add (js_trim l) (cs_seen st) \<and>
    set (cs_candidates (W2_line now extract e st l)) =
      set (cs_candidates st) \<union> (if js_trim l \<in> set (cs_seen st) then {} else set (line_candidates (extract e) (js_trim l)))"
proof (cases "js_trim l \<in> set (cs_seen st)")
  case True
  with assms show ?thesis by (simp add: W2_line_def Let_def set_add_def)
next
  case False
  let ?n = "js_trim l" and ?f = "extract e"
  define q where "q = (case gget (cs_zi st) e of Some q \<Rightarrow> q | None \<Rightarrow> empty_line_cache)"
  have q: "cache_true ?f q" using assms by (auto simp: q_def zi_true_def split: option.split)
  have put: "cache_true ?f q' \<Longrightarrow> zi_true extract (st\<lparr>cs_seen := s, cs_candidates := c, cs_zi := gput e q' (cs_zi st)\<rparr>)" for q' s c
    using assms by (auto simp: zi_true_def)
  obtain b where h: "lru_has now q ?n = (b, q)" using lru_has_true [OF q, of now ?n] by auto
  show ?thesis
  proof (cases b)
    case True
    with lru_get_true [OF q, of now ?n] h obtain q' where "lru_get now q ?n = (Some (line_candidates ?f ?n), q')" "cache_true ?f q'" by auto
    with False True h put show ?thesis by (auto simp: W2_line_def Let_def q_def [symmetric] set_add_def)
  next
    case not: False
    with False h put [OF lru_set_true [OF q]] show ?thesis by (auto simp: W2_line_def Let_def q_def [symmetric] set_add_def)
  qed
qed

lemma W2_lines_true:
  assumes "zi_true extract st" "\<forall>n \<in> set (cs_seen st). set (line_candidates (extract e) n) \<subseteq> set (cs_candidates st)"
    and "st' = foldl (W2_line now extract e) st ls"
  shows "zi_true extract st' \<and> (\<forall>n \<in> set (cs_seen st'). set (line_candidates (extract e) n) \<subseteq> set (cs_candidates st')) \<and>
    set (cs_candidates st') = set (cs_candidates st) \<union> (\<Union>l \<in> set ls. set (line_candidates (extract e) (js_trim l)))"
  using assms
proof (induction ls arbitrary: st st')
  case (Cons l ls)
  note s = W2_line_true [OF Cons.prems(1), of now e l]
  let ?t = "W2_line now extract e st l"
  have c: "set (cs_candidates ?t) = set (cs_candidates st) \<union> set (line_candidates (extract e) (js_trim l))"
    using s Cons.prems(2) by auto
  have "\<forall>n \<in> set (cs_seen ?t). set (line_candidates (extract e) n) \<subseteq> set (cs_candidates ?t)"
    unfolding c using s Cons.prems(2) by (auto simp: set_add_def)
  from Cons.IH [OF conjunct1 [OF s] this refl] show ?case
    unfolding Cons.prems(3) c foldl_Cons list.simps(15) UN_insert Un_assoc by blast
qed simp

definition build :: "int \<Rightarrow> ('x \<Rightarrow> string \<Rightarrow> string list) \<Rightarrow> ('x, line_cache) gomap \<Rightarrow> string list \<Rightarrow> (string \<times> 'x) list \<Rightarrow> 'x content_state" where
  "build now extract zi init contents = foldl (W2 now extract) \<lparr>cs_candidates = init, cs_seen = [], cs_zi = zi\<rparr> contents"

definition zi_after :: "('x \<Rightarrow> string \<Rightarrow> string list) \<Rightarrow> (int \<times> string list \<times> (string \<times> 'x) list) list \<Rightarrow> ('x, line_cache) gomap" where
  "zi_after extract builds = foldl (\<lambda>zi (now, init, contents). cs_zi (build now extract zi init contents)) [] builds"

lemma zi_true_init: "zi_true extract st \<Longrightarrow> zi_true extract (st\<lparr>cs_zi := gput e empty_line_cache (cs_zi st)\<rparr>)"
  by (auto simp: zi_true_def)

lemma W2_lines_zi: "zi_true extract st \<Longrightarrow> zi_true extract (foldl (W2_line now extract e) st ls)"
  by (induction ls arbitrary: st) (simp_all add: W2_line_true)

lemma build_zi: "zi_true extract st \<Longrightarrow> zi_true extract (foldl (W2 now extract) st rs)"
proof (induction rs arbitrary: st)
  case (Cons r rs)
  have "zi_true extract (W2 now extract st r)"
    using Cons.prems zi_true_init [OF Cons.prems] by (auto simp: W2_def Let_def split: prod.split intro!: W2_lines_zi)
  with Cons.IH show ?case by simp
qed simp

lemma zi_true_cong: "cs_zi st = cs_zi st' \<Longrightarrow> zi_true extract st = zi_true extract st'"
  by (simp add: zi_true_def)

lemma zi_after_true: "zi_true extract \<lparr>cs_candidates = c, cs_seen = n, cs_zi = zi_after extract builds\<rparr>"
proof (induction builds rule: rev_induct)
  case (snoc b bs)
  obtain now init cont where b: "b = (now, init, cont)" by (metis prod_cases3)
  let ?st = "\<lparr>cs_candidates = init, cs_seen = [], cs_zi = zi_after extract bs\<rparr>"
  have "zi_true extract ?st" using snoc.IH zi_true_cong [of _ ?st] by (metis content_state.select_convs(3))
  from build_zi [OF this, of now cont] show ?case
    by (simp add: zi_after_def build_def b zi_true_def)
qed (simp add: zi_after_def zi_true_def)

text \<open>
  C36. Whatever was compiled before, with whatever extractors, and however the caches have swapped
  since: the candidates of a build whose contents share one extractor are the given ones and those that
  the extractor finds on the trimmed lines of the contents.
\<close>

theorem candidates_cache_transparent:
  "set (cs_candidates (build now extract (zi_after extract builds) init (map (\<lambda>t. (t, e)) texts))) =
     set init \<union> (\<Union>t \<in> set texts. \<Union>l \<in> set (split_on newline t). set (line_candidates (extract e) (js_trim l)))"
proof -
  have "zi_true extract st \<Longrightarrow> \<forall>n \<in> set (cs_seen st). set (line_candidates (extract e) n) \<subseteq> set (cs_candidates st) \<Longrightarrow>
    set (cs_candidates (foldl (W2 now extract) st (map (\<lambda>t. (t, e)) texts))) =
      set (cs_candidates st) \<union> (\<Union>t \<in> set texts. \<Union>l \<in> set (split_on newline t). set (line_candidates (extract e) (js_trim l)))" for st
  proof (induction texts arbitrary: st)
    case (Cons t texts)
    define st1 where "st1 = (if map_has (cs_zi st) e then st else st\<lparr>cs_zi := gput e empty_line_cache (cs_zi st)\<rparr>)"
    have "zi_true extract st1" using Cons.prems(1) zi_true_init [OF Cons.prems(1)] by (simp add: st1_def)
    moreover have "\<forall>n \<in> set (cs_seen st1). set (line_candidates (extract e) n) \<subseteq> set (cs_candidates st1)"
      using Cons.prems(2) by (simp add: st1_def)
    ultimately have w: "zi_true extract (W2 now extract st (t, e)) \<and>
        (\<forall>n \<in> set (cs_seen (W2 now extract st (t, e))). set (line_candidates (extract e) n) \<subseteq> set (cs_candidates (W2 now extract st (t, e)))) \<and>
        set (cs_candidates (W2 now extract st (t, e))) =
          set (cs_candidates st1) \<union> (\<Union>l \<in> set (split_on newline t). set (line_candidates (extract e) (js_trim l)))"
      by (intro W2_lines_true) (simp_all add: W2_def Let_def st1_def)
    have "cs_candidates st1 = cs_candidates st" by (simp add: st1_def)
    with Cons.IH [of "W2 now extract st (t, e)"] w show ?case by auto
  qed simp
  note all = this
  note zi = zi_after_true [of "extract" init "[]" builds]
  show ?thesis using all [OF zi] by (simp add: build_def)
qed

text \<open>The lines seen are shared by all extractors: a second extractor is not asked about a line that the first has seen.\<close>

lemma second_extractor_skipped:
  "cs_candidates (build 0 (\<lambda>e n. [e @ n]) [] [] [(''p'', ''a''), (''p'', ''b'')]) = [''ap'']"
  by code_simp

end
