(* ===== verification/Tw_Duplicates.thy ===== *)
theory Tw_Duplicates
  imports Stringifier
begin

text \<open>
  The last pass of the compiler (function \<open>Zl\<close> of \<^verbatim>\<open>tailwind.js\<close>, \<^verbatim>\<open>collapseDuplicateDeclarations\<close>), which drops the
  declarations of a rule that a later one overrides.  Trees are the values of \<open>Stringifier\<close>; nodes of
  one rule are told apart by their positions.
\<close>

section \<open>Units of numbers\<close>

text \<open>
  \<^verbatim>\<open>/^-?\d*.?\d+([\w%]+)?$/\<close>, with the alternatives of the matcher in the order it tries them.
  The dot is not escaped and stands for any character but a line end.
\<close>

definition optional :: "(char \<Rightarrow> bool) \<Rightarrow> string \<Rightarrow> string list" where
  "optional P s = (case s of c # r \<Rightarrow> if P c then [r, s] else [s] | [] \<Rightarrow> [s])"

definition many :: "(char \<Rightarrow> bool) \<Rightarrow> nat \<Rightarrow> string \<Rightarrow> string list" where
  "many P least s = map (\<lambda>n. drop n s) (rev [least..<Suc (length (takeWhile P s))])"

definition unit_char :: "char \<Rightarrow> bool" where
  "unit_char c \<longleftrightarrow> c \<in> set ''0123456789ABCDEFGHIJKLMNOPQRSTUVWXYZabcdefghijklmnopqrstuvwxyz_%''"

datatype num_unit = Unit string | Unitless

definition unit_end :: "string \<Rightarrow> num_unit list" where
  "unit_end s = (if s = [] then [Unitless] else if list_all unit_char s then [Unit s] else [])"

definition vO :: "string \<Rightarrow> num_unit option" where
  "vO r = (case
     concat (map (\<lambda>a. concat (map (\<lambda>b. concat (map (\<lambda>c. concat (map unit_end
       (many js_digit 1 c))) (optional (\<lambda>x. x \<noteq> CHR 0x0A \<and> x \<noteq> CHR 0x0D) b))) (many js_digit 0 a))) (optional (\<lambda>x. x = CHR ''-'') r))
     of [] \<Rightarrow> None | u # _ \<Rightarrow> Some u)"

section \<open>Duplicate declarations\<close>

text \<open>What the walk over the declarations of a rule collects, with positions for the nodes.\<close>

record dup_state =
  dp_last :: "(string, nat) gomap" \<comment> \<open>\<open>t\<close>: the last declaration of a property\<close>
  dp_same :: "nat list" \<comment> \<open>\<open>i\<close>: followed by the same value\<close>
  dp_other :: "(string, nat list) gomap" \<comment> \<open>\<open>n\<close>: declarations with different values\<close>

definition add_new :: "nat \<Rightarrow> nat list \<Rightarrow> nat list" where
  "add_new x xs = (if x \<in> set xs then xs else xs @ [x])"

fun decl_value :: "css_node \<Rightarrow> string" where
  "decl_value (Decl p v i r) = v"
| "decl_value n = []"

definition dup_step :: "css_node list \<Rightarrow> dup_state \<Rightarrow> nat \<Rightarrow> dup_state" where
  "dup_step ns st k =
     (case ns ! k of
        Decl p v im r \<Rightarrow>
          (case gget (dp_last st) p of
             None \<Rightarrow> st\<lparr>dp_last := gput p k (dp_last st)\<rparr>
           | Some j \<Rightarrow>
               if decl_value (ns ! j) = v then st\<lparr>dp_same := add_new j (dp_same st), dp_last := gput p k (dp_last st)\<rparr>
               else
                 let ks = (case gget (dp_other st) p of Some ks \<Rightarrow> ks | None \<Rightarrow> [])
                 in st\<lparr>dp_other := gput p (add_new k (add_new j ks)) (dp_other st), dp_last := gput p k (dp_last st)\<rparr>)
      | _ \<Rightarrow> st)"

definition dup_scan :: "css_node list \<Rightarrow> nat \<Rightarrow> dup_state" where
  "dup_scan ns m = foldl (dup_step ns) \<lparr>dp_last = [], dp_same = [], dp_other = []\<rparr> [0..<m]"

definition unit_groups :: "css_node list \<Rightarrow> nat list \<Rightarrow> (num_unit, nat list) gomap" where
  "unit_groups ns ks =
     foldl (\<lambda>a k. case vO (decl_value (ns ! k)) of
         None \<Rightarrow> a
       | Some l \<Rightarrow> gput l ((case gget a l of Some g \<Rightarrow> g | None \<Rightarrow> []) @ [k]) a) [] ks"

definition dup_removed :: "css_node list \<Rightarrow> nat list" where
  "dup_removed ns =
     (let st = dup_scan ns (length ns)
      in dp_same st @ concat (map (\<lambda>(p, ks). concat (map (\<lambda>(l, g). butlast g) (unit_groups ns ks))) (dp_other st)))"

definition drop_at :: "nat list \<Rightarrow> css_node list \<Rightarrow> css_node list" where
  "drop_at R ns = map fst (filter (\<lambda>(n, k). k \<notin> set R) (zip ns [0..<length ns]))"

definition collapse_decls :: "css_node list \<Rightarrow> css_node list" where
  "collapse_decls ns = drop_at (dup_removed ns) ns"

text \<open>\<open>Zl\<close>: every rule, at any depth.\<close>

fun collapseDuplicateDeclarations :: "css_node \<Rightarrow> css_node" where
  "collapseDuplicateDeclarations (Rule s ns r) = Rule s (collapse_decls (map collapseDuplicateDeclarations ns)) r"
| "collapseDuplicateDeclarations (AtRule n p (Some ns) r) = AtRule n p (Some (map collapseDuplicateDeclarations ns)) r"
| "collapseDuplicateDeclarations (Root ns r) = Root (map collapseDuplicateDeclarations ns) r"
| "collapseDuplicateDeclarations n = n"

lemma vO_examples: "vO ''10px'' = Some (Unit ''px'')" "vO ''-.5em'' = Some (Unit ''em'')" "vO ''0'' = Some Unitless"
  "vO ''red'' = None" "vO ''#123abc'' = Some (Unit ''abc'')"
  by code_simp+

section \<open>The cascade is kept\<close>

text \<open>Every position that is dropped has a later declaration of the same property with the same value or unit.\<close>

fun decl_prop :: "css_node \<Rightarrow> string option" where
  "decl_prop (Decl p v i r) = Some p"
| "decl_prop n = None"

fun decl_important :: "css_node \<Rightarrow> bool" where
  "decl_important (Decl p v i r) = i"
| "decl_important n = False"

definition overridden :: "css_node list \<Rightarrow> nat \<Rightarrow> nat \<Rightarrow> bool" where
  "overridden ns j k \<longleftrightarrow> j < k \<and> k < length ns \<and> decl_prop (ns ! j) \<noteq> None \<and> decl_prop (ns ! k) = decl_prop (ns ! j) \<and>
     (decl_value (ns ! k) = decl_value (ns ! j) \<or> vO (decl_value (ns ! k)) = vO (decl_value (ns ! j)) \<and> vO (decl_value (ns ! j)) \<noteq> None)"

definition dup_inv :: "css_node list \<Rightarrow> nat \<Rightarrow> dup_state \<Rightarrow> bool" where
  "dup_inv ns m st \<longleftrightarrow>
     (\<forall>p j. gget (dp_last st) p = Some j \<longrightarrow> j < m \<and> decl_prop (ns ! j) = Some p) \<and>
     (\<forall>j \<in> set (dp_same st). \<exists>k < m. overridden ns j k) \<and>
     (\<forall>p ks. gget (dp_other st) p = Some ks \<longrightarrow> sorted_wrt (<) ks \<and> (\<forall>k \<in> set ks. k < m \<and> decl_prop (ns ! k) = Some p \<and>
        (\<forall>j. gget (dp_last st) p = Some j \<longrightarrow> k \<le> j)) \<and> (\<exists>j. gget (dp_last st) p = Some j))"

lemma set_add_new [simp]: "set (add_new x xs) = insert x (set xs)"
  by (auto simp: add_new_def)

lemma sorted_add_new: "sorted_wrt (<) xs \<Longrightarrow> \<forall>y \<in> set xs. y \<le> x \<Longrightarrow> sorted_wrt (<) (add_new x xs)"
  by (auto simp: add_new_def sorted_wrt_append intro: le_neq_trans)

lemma dup_step_inv:
  assumes "dup_inv ns m st" "m < length ns"
  shows "dup_inv ns (Suc m) (dup_step ns st m)"
proof (cases "\<exists>p v im r. ns ! m = Decl p v im r")
  case False
  then have "dup_step ns st m = st" by (auto simp: dup_step_def split: css_node.split)
  then show ?thesis using assms(1) by (auto simp: dup_inv_def less_Suc_eq)
next
  case True
  then obtain p v im r where m: "ns ! m = Decl p v im r" by blast
  have I: "gget (dp_last st) q = Some j \<Longrightarrow> j < m \<and> decl_prop (ns ! j) = Some q"
    "j \<in> set (dp_same st) \<Longrightarrow> \<exists>k < m. overridden ns j k"
    "gget (dp_other st) q = Some ks \<Longrightarrow> sorted_wrt (<) ks \<and> (\<exists>j. gget (dp_last st) q = Some j)"
    "gget (dp_other st) q = Some ks \<Longrightarrow> k \<in> set ks \<Longrightarrow> k < m \<and> decl_prop (ns ! k) = Some q"
    "gget (dp_other st) q = Some ks \<Longrightarrow> k \<in> set ks \<Longrightarrow> gget (dp_last st) q = Some j \<Longrightarrow> k \<le> j"
    for q j k ks using assms(1) unfolding dup_inv_def by blast+
  show ?thesis
  proof (cases "gget (dp_last st) p")
    case None
    have "dup_step ns st m = st\<lparr>dp_last := gput p m (dp_last st)\<rparr>" by (simp add: dup_step_def m None)
    moreover have "gget (dp_other st) p = None" using I(3) [of p] None by (cases "gget (dp_other st) p") auto
    ultimately show ?thesis using I m by (fastforce simp: dup_inv_def less_Suc_eq)
  next
    case (Some j)
    note j = I(1) [OF Some]
    show ?thesis
    proof (cases "decl_value (ns ! j) = v")
      case True
      have "dup_step ns st m = st\<lparr>dp_same := add_new j (dp_same st), dp_last := gput p m (dp_last st)\<rparr>"
        by (simp add: dup_step_def m Some True)
      moreover have "overridden ns j m" using j True assms(2) by (simp add: overridden_def m)
      moreover have "k \<le> m" if "gget (dp_other st) p = Some ks" "k \<in> set ks" for ks k using I(4) [OF that] by simp
      ultimately show ?thesis using I m by (simp add: dup_inv_def less_Suc_eq) (metis less_imp_le)
    next
      case False
      define ks where "ks = (case gget (dp_other st) p of Some ks \<Rightarrow> ks | None \<Rightarrow> [])"
      have step: "dup_step ns st m = st\<lparr>dp_other := gput p (add_new m (add_new j ks)) (dp_other st), dp_last := gput p m (dp_last st)\<rparr>"
        using False by (simp add: dup_step_def m Some Let_def ks_def)
      have ks: "sorted_wrt (<) ks" "\<forall>k \<in> set ks. k \<le> j \<and> k < m \<and> decl_prop (ns ! k) = Some p"
        using I(3) [of p] I(4) [of p] I(5) [of p _ _ j] Some by (cases "gget (dp_other st) p"; simp add: ks_def)+
      have s: "sorted_wrt (<) (add_new m (add_new j ks))"
        using ks j by (intro sorted_add_new) (auto intro: less_imp_le)
      show ?thesis unfolding step using I ks s j m by (simp add: dup_inv_def less_Suc_eq) (metis less_imp_le)
    qed
  qed
qed

lemma dup_scan_inv: "m \<le> length ns \<Longrightarrow> dup_inv ns m (dup_scan ns m)"
proof (induction m)
  case 0
  then show ?case by (simp add: dup_scan_def dup_inv_def)
next
  case (Suc m)
  have "dup_scan ns (Suc m) = dup_step ns (dup_scan ns m) m" by (simp add: dup_scan_def)
  with Suc dup_step_inv show ?case by simp
qed

lemma unit_groups_snoc: "unit_groups ns (ks @ [k]) = (case vO (decl_value (ns ! k)) of None \<Rightarrow> unit_groups ns ks
      | Some l \<Rightarrow> gput l ((case gget (unit_groups ns ks) l of Some g \<Rightarrow> g | None \<Rightarrow> []) @ [k]) (unit_groups ns ks))"
  by (simp only: unit_groups_def foldl_append foldl.simps)

lemma unit_groups_inv:
  assumes "sorted_wrt (<) ks" "gget (unit_groups ns ks) l = Some g"
  shows "sorted_wrt (<) g \<and> set g = {k \<in> set ks. vO (decl_value (ns ! k)) = Some l}"
  using assms
proof (induction ks arbitrary: l g rule: rev_induct)
  case (snoc k ks)
  let ?a = "unit_groups ns ks"
  note a = unit_groups_snoc [of ns ks k]
  have s: "sorted_wrt (<) ks" "\<forall>x \<in> set ks. x < k" using snoc.prems(1) by (auto simp: sorted_wrt_append)
  have none: "\<forall>x \<in> set ks. vO (decl_value (ns ! x)) \<noteq> Some l" if "gget ?a l = None" for l
    using that
  proof (induction ks rule: rev_induct)
    case (snoc x ks)
    from snoc show ?case by (auto simp: unit_groups_snoc split: option.splits if_splits)
  qed simp
  note ih = snoc.IH [OF s(1)]
  show ?case
  proof (cases "vO (decl_value (ns ! k)) = Some l")
    case True
    then have g: "g = (case gget ?a l of Some g \<Rightarrow> g | None \<Rightarrow> []) @ [k]" using snoc.prems(2) by (simp add: a)
    show ?thesis
    proof (cases "gget ?a l")
      case None
      with none [OF None] g True show ?thesis by auto
    next
      case (Some g0)
      from ih [OF Some] s(2) show ?thesis unfolding g Some using True by (auto simp: sorted_wrt_append)
    qed
  next
    case False
    then have "gget ?a l = Some g" using snoc.prems(2) by (auto simp: a split: option.splits if_splits)
    from ih [OF this] False show ?thesis by auto
  qed
qed (simp add: unit_groups_def)

lemma unit_groups_distinct: "distinct (map fst (unit_groups ns ks))"
proof (induction ks rule: rev_induct)
  case (snoc k ks)
  then show ?case by (simp add: unit_groups_snoc distinct_update split: option.split)
qed (simp add: unit_groups_def)

lemma dup_other_distinct: "distinct (map fst (dp_other (dup_scan ns m)))"
proof (induction m)
  case (Suc m)
  have "dup_scan ns (Suc m) = dup_step ns (dup_scan ns m) m" by (simp add: dup_scan_def)
  with Suc show ?case by (simp add: dup_step_def Let_def distinct_update split: css_node.split option.split)
qed (simp add: dup_scan_def)

lemma dup_removed_overridden:
  assumes "j \<in> set (dup_removed ns)"
  shows "\<exists>k. overridden ns j k"
proof -
  let ?st = "dup_scan ns (length ns)"
  have inv: "dup_inv ns (length ns) ?st" by (rule dup_scan_inv) simp
  consider "j \<in> set (dp_same ?st)" | p ks l g where "(p, ks) \<in> set (dp_other ?st)" "(l, g) \<in> set (unit_groups ns ks)" "j \<in> set (butlast g)"
    using assms by (auto simp: dup_removed_def Let_def)
  then show ?thesis
  proof cases
    case 1
    with inv show ?thesis by (auto simp: dup_inv_def)
  next
    case 2
    have "gget (dp_other ?st) p = Some ks" using 2(1) dup_other_distinct by simp
    with inv have ks: "sorted_wrt (<) ks" "\<forall>k \<in> set ks. k < length ns \<and> decl_prop (ns ! k) = Some p" by (auto simp: dup_inv_def)
    have "gget (unit_groups ns ks) l = Some g" using 2(2) unit_groups_distinct by simp
    from unit_groups_inv [OF ks(1) this] have g: "sorted_wrt (<) g" "set g = {k \<in> set ks. vO (decl_value (ns ! k)) = Some l}" by auto
    have "g \<noteq> []" using 2(3) by auto
    then have gb: "g = butlast g @ [last g]" by simp
    then have "j < last g" using g(1) 2(3) by (metis sorted_wrt_append list.set_intros(1))
    moreover have "j \<in> set g" "last g \<in> set g" using 2(3) \<open>g \<noteq> []\<close> in_set_butlastD by auto
    ultimately show ?thesis using g(2) ks(2) by (auto simp: overridden_def intro!: exI [of _ "last g"])
  qed
qed

text \<open>The declaration of \<open>p\<close> that a browser uses: the last one it supports, important ones first.\<close>

fun candidate :: "(string \<Rightarrow> string \<Rightarrow> bool) \<Rightarrow> string \<Rightarrow> bool \<Rightarrow> css_node \<Rightarrow> bool" where
  "candidate ok p im (Decl q v i r) = (q = p \<and> ok q v \<and> i = im)"
| "candidate ok p im n = False"

definition last_such :: "('a \<Rightarrow> bool) \<Rightarrow> 'a list \<Rightarrow> 'a option" where
  "last_such P xs = (if filter P xs = [] then None else Some (last (filter P xs)))"

definition used_decl :: "(string \<Rightarrow> string \<Rightarrow> bool) \<Rightarrow> string \<Rightarrow> css_node list \<Rightarrow> css_node option" where
  "used_decl ok p ns = (case last_such (candidate ok p True) ns of Some d \<Rightarrow> Some d | None \<Rightarrow> last_such (candidate ok p False) ns)"

lemma last_such_snoc: "last_such P (xs @ [x]) = (if P x then Some x else last_such P xs)"
  by (simp add: last_such_def)

lemma drop_at_snoc: "drop_at R (xs @ [x]) = drop_at R xs @ (if length xs \<in> set R then [] else [x])"
  by (simp add: drop_at_def)

lemma last_such_drop:
  "\<forall>j \<in> set R. j < length xs \<longrightarrow> P (xs ! j) \<longrightarrow> (\<exists>k. j < k \<and> k < length xs \<and> P (xs ! k)) \<Longrightarrow>
    last_such P (drop_at R xs) = last_such P xs"
proof (induction xs rule: rev_induct)
  case (snoc x xs)
  show ?case
  proof (cases "P x")
    case True
    have "length xs \<notin> set R" using snoc.prems True by fastforce
    with True show ?thesis by (simp add: drop_at_snoc last_such_snoc)
  next
    case False
    have "\<exists>k. j < k \<and> k < length xs \<and> P (xs ! k)" if j: "j \<in> set R" "j < length xs" "P (xs ! j)" for j
    proof -
      have "P ((xs @ [x]) ! j)" using j by (simp add: nth_append)
      moreover have "j < length (xs @ [x])" using j(2) by simp
      ultimately obtain k where k: "j < k" "k < length (xs @ [x])" "P ((xs @ [x]) ! k)"
        using bspec [OF snoc.prems j(1)] by auto
      then have "k \<noteq> length xs" using False by auto
      with k show ?thesis by (auto simp: nth_append)
    qed
    with snoc.IH have "last_such P (drop_at R xs) = last_such P xs" by blast
    with False show ?thesis by (simp add: drop_at_snoc last_such_snoc)
  qed
qed (simp add: drop_at_def)

lemma collapse_last_such:
  assumes "\<And>n m. P n \<Longrightarrow> decl_prop n \<noteq> None \<Longrightarrow> decl_prop m = decl_prop n \<Longrightarrow> m \<in> set ns \<Longrightarrow> n \<in> set ns \<Longrightarrow>
      decl_value m = decl_value n \<or> vO (decl_value m) = vO (decl_value n) \<and> vO (decl_value n) \<noteq> None \<Longrightarrow> P m"
  shows "last_such P (collapse_decls ns) = last_such P ns"
proof -
  have "\<exists>k. j < k \<and> k < length ns \<and> P (ns ! k)" if j: "j \<in> set (dup_removed ns)" "j < length ns" "P (ns ! j)" for j
  proof -
    obtain k where k: "overridden ns j k" using dup_removed_overridden [OF j(1)] by blast
    then have "P (ns ! k)" using j(2) by (intro assms [OF j(3)]) (auto simp: overridden_def)
    with k show ?thesis by (auto simp: overridden_def)
  qed
  then show ?thesis unfolding collapse_decls_def by (intro last_such_drop) blast
qed

text \<open>
  C37. Dropping duplicate declarations does not change what a rule says: whatever values a browser
  supports, as long as it supports numbers by their unit, the declaration it uses for a property is
  the same before and after, provided the declarations of the property agree on being important.
\<close>

theorem collapse_keeps_cascade:
  assumes "\<forall>v w. vO v = vO w \<and> vO v \<noteq> None \<longrightarrow> ok p v = ok p w"
    "\<forall>d \<in> set ns. \<forall>e \<in> set ns. decl_prop d = Some p \<and> decl_prop e = Some p \<longrightarrow> decl_important d = decl_important e"
  shows "used_decl ok p (collapse_decls ns) = used_decl ok p ns"
proof -
  have eq: "last_such (candidate ok p im) (collapse_decls ns) = last_such (candidate ok p im) ns" for im
  proof (rule collapse_last_such)
    fix n m
    assume a: "candidate ok p im n" "decl_prop m = decl_prop n" "m \<in> set ns" "n \<in> set ns"
      "decl_value m = decl_value n \<or> vO (decl_value m) = vO (decl_value n) \<and> vO (decl_value n) \<noteq> None"
    then obtain v r where n: "n = Decl p v im r" "ok p v" by (cases n) auto
    with a(2) obtain w i r' where m: "m = Decl p w i r'" by (cases m) auto
    have "i = im" using assms(2) a(3,4) unfolding n m by fastforce
    moreover have "ok p w" using a(5) n(2) assms(1) unfolding n m decl_value.simps by metis
    ultimately show "candidate ok p im m" by (simp add: m)
  qed
  show ?thesis unfolding used_decl_def eq ..
qed

definition plain_decl :: "string \<Rightarrow> string \<Rightarrow> bool \<Rightarrow> css_node" where
  "plain_decl p v im = Decl p v im no_raws"

text \<open>A browser without the unit \<^verbatim>\<open>dvh\<close>.\<close>

theorem collapse_keeps_cascade_witness:
  "used_decl (\<lambda>p v. vO v \<noteq> Some (Unit ''dvh'')) ''height''
     (collapse_decls [plain_decl ''height'' ''50vh'' False, plain_decl ''height'' ''90vh'' False, plain_decl ''height'' ''9dvh'' False]) =
   Some (plain_decl ''height'' ''90vh'' False)"
proof -
  let ?ns = "[plain_decl ''height'' ''50vh'' False, plain_decl ''height'' ''90vh'' False, plain_decl ''height'' ''9dvh'' False]"
  have "\<forall>v w. vO v = vO w \<and> vO v \<noteq> None \<longrightarrow> (vO v \<noteq> Some (Unit ''dvh'')) = (vO w \<noteq> Some (Unit ''dvh''))" by simp
  moreover have "\<forall>d \<in> set ?ns. \<forall>e \<in> set ?ns. decl_prop d = Some ''height'' \<and> decl_prop e = Some ''height'' \<longrightarrow> decl_important d = decl_important e"
    by (simp add: plain_decl_def)
  ultimately have "used_decl (\<lambda>p v. vO v \<noteq> Some (Unit ''dvh'')) ''height'' (collapse_decls ?ns) = used_decl (\<lambda>p v. vO v \<noteq> Some (Unit ''dvh'')) ''height'' ?ns"
    by (rule collapse_keeps_cascade)
  also have "\<dots> = Some (plain_decl ''height'' ''90vh'' False)"
    by (simp add: used_decl_def last_such_def plain_decl_def) code_simp
  finally show ?thesis .
qed

text \<open>The pass does not look at \<^verbatim>\<open>!important\<close>: an important declaration gives way to a later plain one.\<close>

lemma important_dropped:
  "collapse_decls [plain_decl ''width'' ''1px'' True, plain_decl ''width'' ''2px'' False] = [plain_decl ''width'' ''2px'' False]"
  "used_decl (\<lambda>p v. True) ''width'' [plain_decl ''width'' ''1px'' True, plain_decl ''width'' ''2px'' False] =
     Some (plain_decl ''width'' ''1px'' True)"
  by code_simp+

end
