(* ===== verification/Tw_Merge.thy ===== *)
theory Tw_Merge
  imports Stringifier
begin

text \<open>
  The passes of the compiler that regroup the style sheet (functions \<open>Dl\<close>, \<open>xO\<close> and \<open>Xl\<close> of \<^verbatim>\<open>tailwind.js\<close>):
  normalizing directives, giving every \<^verbatim>\<open>@apply\<close> a rule of its own, and merging adjacent rules with the
  same head.  Trees are the values of \<open>Stringifier\<close>.
\<close>

section \<open>Merging adjacent rules\<close>

text \<open>\<^verbatim>\<open>s.replace(/\s+/g, " ")\<close>; the flag says that a space was written for the run so far.\<close>

fun squash_from :: "bool \<Rightarrow> string \<Rightarrow> string" where
  "squash_from b [] = []"
| "squash_from b (c # s) = (if js_space c then (if b then [] else '' '') @ squash_from True s else c # squash_from False s)"

definition squash :: "string \<Rightarrow> string" where
  "squash s = squash_from False s"

text \<open>A property that a node does not have reads as the empty text.\<close>

fun name_of :: "css_node \<Rightarrow> string" where
  "name_of (AtRule n p ns r) = n"
| "name_of n = []"

fun params_of :: "css_node \<Rightarrow> string" where
  "params_of (AtRule n p ns r) = p"
| "params_of n = []"

fun selector_of :: "css_node \<Rightarrow> string" where
  "selector_of (Rule s ns r) = s"
| "selector_of n = []"

fun same_head :: "css_node \<Rightarrow> css_node \<Rightarrow> bool" where
  "same_head (AtRule n p ns r) t = (squash n = squash (name_of t) \<and> squash p = squash (params_of t))"
| "same_head (Rule s ns r) t = (squash s = squash (selector_of t))"
| "same_head n t = False"

fun mergeable :: "css_node \<Rightarrow> bool" where
  "mergeable (AtRule n p ns r) = True"
| "mergeable (Rule s ns r) = True"
| "mergeable n = False"

fun font_face :: "css_node \<Rightarrow> bool" where
  "font_face (AtRule n p ns r) = (n = ''font-face'')"
| "font_face n = False"

fun map_raws :: "(css_raws \<Rightarrow> css_raws) \<Rightarrow> css_node \<Rightarrow> css_node" where
  "map_raws f (Root ns r) = Root ns (f r)"
| "map_raws f (AtRule n p ns r) = AtRule n p ns (f r)"
| "map_raws f (Rule s ns r) = Rule s ns (f r)"
| "map_raws f (Decl p v i r) = Decl p v i (f r)"
| "map_raws f (Comment t r) = Comment t (f r)"

text \<open>An appended node without text before it takes the white space of the last child.\<close>

definition like_last :: "css_node list \<Rightarrow> css_node \<Rightarrow> css_node" where
  "like_last ns n =
     (if rw_before (node_raws n) \<noteq> None \<or> ns = [] then n
      else map_raws (\<lambda>r. r\<lparr>rw_before := map_option only_spaces (rw_before (node_raws (last ns)))\<rparr>) n)"

fun absorb :: "css_node \<Rightarrow> css_node \<Rightarrow> css_node" where
  "absorb (AtRule n p ts r) i =
     (case node_nodes i of
        None \<Rightarrow> AtRule n p ts r
      | Some ns \<Rightarrow> let ts = (case ts of None \<Rightarrow> [] | Some ts \<Rightarrow> ts) in AtRule n p (Some (ts @ map (like_last ts) ns)) r)"
| "absorb (Rule s ts r) i =
     (case node_nodes i of None \<Rightarrow> Rule s ts r | Some ns \<Rightarrow> Rule s (ts @ map (like_last ts) ns) r)"
| "absorb t i = t"

text \<open>The walk over the children of one node; \<open>t\<close> is the rule that the next may be merged into.\<close>

fun merge_run :: "css_node option \<Rightarrow> css_node list \<Rightarrow> css_node list" where
  "merge_run None [] = []"
| "merge_run (Some t) [] = [t]"
| "merge_run None (i # is) = (if mergeable i then merge_run (Some i) is else i # merge_run None is)"
| "merge_run (Some t) (i # is) =
     (if \<not> mergeable i then t # i # merge_run None is
      else if font_face i then t # merge_run (Some i) is
      else if same_head i t then merge_run (Some (absorb t i)) is
      else t # merge_run (Some i) is)"

fun weight :: "css_node \<Rightarrow> nat" where
  "weight (Root ns r) = Suc (sum_list (map weight ns))"
| "weight (AtRule n p ns r) = Suc (case ns of None \<Rightarrow> 0 | Some ns \<Rightarrow> sum_list (map weight ns))"
| "weight (Rule s ns r) = Suc (sum_list (map weight ns))"
| "weight (Decl p v i r) = 1"
| "weight (Comment t r) = 1"

lemma weight_map_raws [simp]: "weight (map_raws f n) = weight n"
  by (cases n) (auto split: option.split)

lemma weight_like_last [simp]: "weight (like_last ns n) = weight n"
  by (simp add: like_last_def)

lemma weight_nodes: "node_nodes n = Some ns \<Longrightarrow> weight n = Suc (sum_list (map weight ns))"
  by (cases n) auto

lemma weight_absorb: "weight (absorb t i) \<le> weight t + weight i"
  by (cases t; cases "node_nodes i") (auto simp: Let_def comp_def weight_nodes split: option.split)

lemma weight_merge_run:
  "sum_list (map weight (merge_run t ns)) \<le> (case t of None \<Rightarrow> 0 | Some t \<Rightarrow> weight t) + sum_list (map weight ns)"
proof (induction t ns rule: merge_run.induct)
  case (4 t i "is")
  then show ?case using weight_absorb [of t i] by auto
qed auto

function collapse_level :: "css_node list \<Rightarrow> css_node list" where
  "collapse_level ns =
     map (\<lambda>i. case i of AtRule n p (Some ms) r \<Rightarrow> AtRule n p (Some (collapse_level ms)) r | _ \<Rightarrow> i) (merge_run None ns)"
  by pat_completeness auto
termination
proof (relation "measure (\<lambda>ns. sum_list (map weight ns))", goal_cases)
  case (2 ns i n p ms r)
  have "weight i \<le> sum_list (map weight (merge_run None ns))" using 2(1) by (simp add: member_le_sum_list)
  also have "\<dots> \<le> sum_list (map weight ns)" using weight_merge_run [of None ns] by simp
  finally show ?case using 2 by simp
qed simp

declare collapse_level.simps [simp del]

text \<open>\<open>Xl\<close>.\<close>

fun collapseAdjacentRules :: "css_node \<Rightarrow> css_node" where
  "collapseAdjacentRules (Root ns r) = Root (collapse_level ns) r"
| "collapseAdjacentRules n = n"

section \<open>Partitioning rules with apply\<close>

fun is_apply :: "css_node \<Rightarrow> bool" where
  "is_apply (AtRule n p ns r) = (n = ''apply'')"
| "is_apply n = False"

text \<open>Each \<^verbatim>\<open>@apply\<close> is a group of its own, the runs between them are groups.\<close>

fun apply_groups :: "css_node list \<Rightarrow> css_node list \<Rightarrow> css_node list list" where
  "apply_groups cur [] = (if cur = [] then [] else [cur])"
| "apply_groups cur (n # ns) =
     (if is_apply n then (if cur = [] then [] else [cur]) @ [n] # apply_groups [] ns else apply_groups (cur @ [n]) ns)"

definition split_nodes :: "css_node list \<Rightarrow> css_node list list" where
  "split_nodes ns = (if list_ex is_apply ns \<and> length (apply_groups [] ns) \<noteq> 1 then apply_groups [] ns else [ns])"

lemma apply_groups_concat: "concat (apply_groups cur ns) = cur @ ns"
  by (induction cur ns rule: apply_groups.induct) auto

lemma split_nodes_concat: "concat (split_nodes ns) = ns"
  by (simp add: split_nodes_def apply_groups_concat)

lemma split_nodes_in: "g \<in> set (split_nodes ns) \<Longrightarrow> n \<in> set g \<Longrightarrow> n \<in> set ns"
  by (metis split_nodes_concat concat.simps UnionI image_eqI set_concat)

lemma weight_child: "n \<in> set ns \<Longrightarrow> weight n < Suc (sum_list (map weight ns))"
  by (simp add: member_le_sum_list less_Suc_eq_le)

function partition_node :: "css_node \<Rightarrow> css_node list" where
  "partition_node (Rule s ns r) = map (\<lambda>g. Rule s (concat (map partition_node g)) r) (split_nodes ns)"
| "partition_node (AtRule n p (Some ns) r) = map (\<lambda>g. AtRule n p (Some (concat (map partition_node g))) r) (split_nodes ns)"
| "partition_node (AtRule n p None r) = [AtRule n p None r]"
| "partition_node (Root ns r) = [Root ns r]"
| "partition_node (Decl p v i r) = [Decl p v i r]"
| "partition_node (Comment t r) = [Comment t r]"
  by pat_completeness auto
termination
  by (relation "measure weight") (auto dest!: split_nodes_in intro!: weight_child)

text \<open>\<open>xO\<close>.  The root has no parent: splitting it is a \<^verbatim>\<open>TypeError\<close>.\<close>

fun partitionApplyAtRules :: "css_node \<Rightarrow> css_node option" where
  "partitionApplyAtRules (Root ns r) =
     (if list_ex is_apply ns \<and> length (apply_groups [] ns) \<noteq> 1 then None else Some (Root (concat (map partition_node ns)) r))"
| "partitionApplyAtRules n = Some n"

section \<open>What a style sheet says\<close>

text \<open>
  The declarations with the heads of the rules around them, in order, and on request the statements:
  at-rules without a block.
\<close>

datatype css_head = At string string | Sel string

datatype css_item = Declared string string bool | Statement string string

fun flat :: "bool \<Rightarrow> css_head list \<Rightarrow> css_node \<Rightarrow> (css_head list \<times> css_item) list" where
  "flat st c (Root ns r) = concat (map (flat st c) ns)"
| "flat st c (AtRule n p (Some ns) r) = concat (map (flat st (c @ [At (squash n) (squash p)])) ns)"
| "flat st c (AtRule n p None r) = (if st then [(c, Statement n p)] else [])"
| "flat st c (Rule s ns r) = concat (map (flat st (c @ [Sel (squash s)])) ns)"
| "flat st c (Decl p v i r) = [(c, Declared p v i)]"
| "flat st c (Comment t r) = []"

lemma concat_map_groups: "concat (map (\<lambda>g. concat (map f g)) gs) = concat (map f (concat gs))"
  by (induction gs) auto

lemma concat_map_concat: "concat (map f (concat (map g xs))) = concat (map (\<lambda>x. concat (map f (g x))) xs)"
  by (induction xs) auto

lemma concat_map_same: "(\<And>x. x \<in> set xs \<Longrightarrow> f x = g x) \<Longrightarrow> concat (map f xs) = concat (map g xs)"
  by (induction xs) auto

lemma partition_node_flat: "concat (map (flat st c) (partition_node n)) = flat st c n"
proof (induction n arbitrary: c rule: partition_node.induct)
  case (1 s ns r)
  have "concat (map (flat st c) (partition_node (Rule s ns r))) =
      concat (map (\<lambda>g. concat (map (\<lambda>x. concat (map (flat st (c @ [Sel (squash s)])) (partition_node x))) g)) (split_nodes ns))"
    by (simp add: comp_def concat_map_concat)
  also have "\<dots> = concat (map (\<lambda>g. concat (map (flat st (c @ [Sel (squash s)])) g)) (split_nodes ns))"
    by (intro concat_map_same) (simp add: 1)
  also have "\<dots> = flat st c (Rule s ns r)" by (simp add: concat_map_groups split_nodes_concat)
  finally show ?case .
next
  case (2 n p ns r)
  have "concat (map (flat st c) (partition_node (AtRule n p (Some ns) r))) =
      concat (map (\<lambda>g. concat (map (\<lambda>x. concat (map (flat st (c @ [At (squash n) (squash p)])) (partition_node x))) g)) (split_nodes ns))"
    by (simp add: comp_def concat_map_concat)
  also have "\<dots> = concat (map (\<lambda>g. concat (map (flat st (c @ [At (squash n) (squash p)])) g)) (split_nodes ns))"
    by (intro concat_map_same) (simp add: 2)
  also have "\<dots> = flat st c (AtRule n p (Some ns) r)" by (simp add: concat_map_groups split_nodes_concat)
  finally show ?case .
qed auto

text \<open>\<^verbatim>\<open>@apply\<close> has no block, and every \<^verbatim>\<open>@apply\<close> in a block is alone there.\<close>

fun plain_applies :: "css_node \<Rightarrow> bool" where
  "plain_applies (AtRule n p (Some ns) r) = (n \<noteq> ''apply'' \<and> list_all plain_applies ns)"
| "plain_applies (Rule s ns r) = list_all plain_applies ns"
| "plain_applies (Root ns r) = False"
| "plain_applies n = True"

fun apply_alone :: "css_node \<Rightarrow> bool" where
  "apply_alone (AtRule n p (Some ns) r) = ((list_ex is_apply ns \<longrightarrow> length ns = 1) \<and> list_all apply_alone ns)"
| "apply_alone (Rule s ns r) = ((list_ex is_apply ns \<longrightarrow> length ns = 1) \<and> list_all apply_alone ns)"
| "apply_alone (Root ns r) = ((list_ex is_apply ns \<longrightarrow> length ns = 1) \<and> list_all apply_alone ns)"
| "apply_alone n = True"

lemma apply_groups_alone:
  "\<not> list_ex is_apply cur \<Longrightarrow> g \<in> set (apply_groups cur ns) \<Longrightarrow> list_ex is_apply g \<Longrightarrow> length g = 1"
  by (induction cur ns rule: apply_groups.induct) (auto split: if_splits)

lemma split_nodes_alone:
  assumes "g \<in> set (split_nodes ns)" "list_ex is_apply g"
  shows "length g = 1"
proof (cases "list_ex is_apply ns \<and> length (apply_groups [] ns) \<noteq> 1")
  case True
  with assms show ?thesis using apply_groups_alone [of "[]" g ns] by (simp add: split_nodes_def)
next
  case False
  then have "split_nodes ns = [ns]" unfolding split_nodes_def by (rule if_not_P)
  then have g: "g = ns" using assms(1) by simp
  with assms(2) False obtain x where x: "apply_groups [] ns = [x]" by (auto simp: length_Suc_conv)
  then have "x = ns" using apply_groups_concat [of "[]" ns] by simp
  with x g assms(2) show ?thesis using apply_groups_alone [of "[]" g ns] by simp
qed

lemma partition_node_apply: "m \<in> set (partition_node n) \<Longrightarrow> is_apply m = is_apply n"
  by (cases n rule: partition_node.cases) auto

lemma partition_apply: "plain_applies n \<Longrightarrow> is_apply n \<Longrightarrow> partition_node n = [n]"
  by (cases n rule: partition_node.cases) auto

lemma partition_group_alone:
  assumes "list_ex is_apply g \<Longrightarrow> length g = 1" "list_all plain_applies g" "list_ex is_apply (concat (map partition_node g))"
  shows "length (concat (map partition_node g)) = 1"
proof -
  have ex: "list_ex is_apply g" using assms(3) partition_node_apply by (fastforce simp: list_ex_iff)
  then obtain n where "g = [n]" using assms(1) by (auto simp: length_Suc_conv)
  with ex assms(2) show ?thesis by (simp add: partition_apply)
qed

lemma partition_node_alone: "plain_applies n \<Longrightarrow> m \<in> set (partition_node n) \<Longrightarrow> apply_alone m"
proof (induction n arbitrary: m rule: partition_node.induct)
  case (1 s ns r)
  obtain g where g: "g \<in> set (split_nodes ns)" "m = Rule s (concat (map partition_node g)) r" using 1(3) by auto
  have pl: "list_all plain_applies g" using 1(2) split_nodes_in [OF g(1)] by (auto simp: list_all_iff)
  have "list_all apply_alone (concat (map partition_node g))"
    using 1(1) [OF g(1)] pl by (fastforce simp: list_all_iff)
  then show ?case using partition_group_alone [OF split_nodes_alone [OF g(1)] pl] by (simp add: g(2))
next
  case (2 n p ns r)
  obtain g where g: "g \<in> set (split_nodes ns)" "m = AtRule n p (Some (concat (map partition_node g))) r" using 2(3) by auto
  have pl: "list_all plain_applies g" using 2(2) split_nodes_in [OF g(1)] by (auto simp: list_all_iff)
  have "list_all apply_alone (concat (map partition_node g))"
    using 2(1) [OF g(1)] pl by (fastforce simp: list_all_iff)
  then show ?case using partition_group_alone [OF split_nodes_alone [OF g(1)] pl] by (simp add: g(2))
qed auto

text \<open>
  After partitioning every \<^verbatim>\<open>@apply\<close> stands alone in its block, and the sheet says the same:
  the same declarations and statements under the same heads in the same order.
\<close>

theorem partition_isolates:
  assumes "partitionApplyAtRules (Root ns r) = Some u" "\<forall>n \<in> set ns. plain_applies n"
  shows "flat True [] u = flat True [] (Root ns r) \<and> apply_alone u"
proof -
  have u: "u = Root (concat (map partition_node ns)) r" "list_ex is_apply ns \<longrightarrow> length (apply_groups [] ns) = 1"
    using assms(1) by (simp_all split: if_splits)
  have "concat (map (\<lambda>x. concat (map (flat True []) (partition_node x))) ns) = concat (map (flat True []) ns)"
    by (intro concat_map_same) (rule partition_node_flat)
  then have flat: "flat True [] u = flat True [] (Root ns r)" by (simp add: u(1) concat_map_concat)
  have "split_nodes ns = [ns]" unfolding split_nodes_def using u(2) by (intro if_not_P) simp
  then have "list_ex is_apply ns \<Longrightarrow> length ns = 1" using split_nodes_alone [of ns ns] by simp
  then have "list_ex is_apply (concat (map partition_node ns)) \<longrightarrow> length (concat (map partition_node ns)) = 1"
    using partition_group_alone [of ns] assms(2) by (simp add: list_all_iff)
  moreover have "list_all apply_alone (concat (map partition_node ns))"
    using assms(2) partition_node_alone by (fastforce simp: list_all_iff)
  ultimately show ?thesis using flat by (simp add: u(1))
qed

definition apply_rule :: "string \<Rightarrow> css_node" where
  "apply_rule p = AtRule ''apply'' p None no_raws"

theorem partition_isolates_witness:
  "\<exists>u. partitionApplyAtRules (Root [Rule ''a'' [Decl ''b'' ''c'' False no_raws, apply_rule ''d'', apply_rule ''e''] no_raws] no_raws) = Some u \<and>
     map (flat True []) [u] = [[([Sel ''a''], Declared ''b'' ''c'' False), ([Sel ''a''], Statement ''apply'' ''d''), ([Sel ''a''], Statement ''apply'' ''e'')]] \<and>
     apply_alone u"
proof -
  let ?ns = "[Rule ''a'' [Decl ''b'' ''c'' False no_raws, apply_rule ''d'', apply_rule ''e''] no_raws]"
  have s: "squash ''a'' = ''a''" by code_simp
  obtain u where u: "partitionApplyAtRules (Root ?ns no_raws) = Some u" by simp
  have "\<forall>n \<in> set ?ns. plain_applies n" by (simp add: apply_rule_def)
  from partition_isolates [OF u this] u show ?thesis by (simp add: apply_rule_def s)
qed

text \<open>An \<^verbatim>\<open>@apply\<close> next to other nodes at the top of the sheet stops the pass.\<close>

lemma partition_root_fails: "partitionApplyAtRules (Root [apply_rule ''a'', Rule ''b'' [] no_raws] no_raws) = None"
  by (simp add: apply_rule_def)

section \<open>Merging keeps the rules\<close>

text \<open>Rules have a selector and at-rules a name.\<close>

fun headed :: "css_node \<Rightarrow> bool" where
  "headed (AtRule n p ns r) = (n \<noteq> [] \<and> (case ns of None \<Rightarrow> True | Some ns \<Rightarrow> list_all headed ns))"
| "headed (Rule s ns r) = (s \<noteq> [] \<and> list_all headed ns)"
| "headed (Root ns r) = False"
| "headed n = True"

lemma squash_Nil [simp]: "squash s = [] \<longleftrightarrow> s = []"
  by (cases s) (auto simp: squash_def)

lemma squash_empty [simp]: "squash [] = []"
  by simp

lemma map_raws_same [simp]: "flat st c (map_raws f n) = flat st c n" "headed (map_raws f n) = headed n"
  by (cases n; cases "node_nodes n"; simp)+

lemma like_last_same [simp]: "flat st c (like_last ns n) = flat st c n" "headed (like_last ns n) = headed n"
  by (simp_all add: like_last_def)

lemma absorb_flat:
  assumes "mergeable t" "mergeable i" "same_head i t" "headed i"
  shows "flat False c (absorb t i) = flat False c t @ flat False c i"
proof (cases i)
  case (AtRule n p ns r)
  then obtain m q ts r' where t: "t = AtRule m q ts r'" using assms by (cases t) auto
  have h: "squash n = squash m" "squash p = squash q" using assms(3) by (auto simp: AtRule t)
  show ?thesis by (cases ns; cases ts) (simp_all add: AtRule t h comp_def)
next
  case (Rule s ns r)
  then obtain m ts r' where t: "t = Rule m ts r'" using assms by (cases t) auto
  have h: "squash s = squash m" using assms(3) by (simp add: Rule t)
  show ?thesis by (simp add: Rule t h comp_def)
qed (use assms in auto)

lemma absorb_headed: "headed t \<Longrightarrow> headed i \<Longrightarrow> headed (absorb t i)"
  by (cases t; cases i) (auto simp: list_all_iff Let_def split: option.splits)

lemma absorb_mergeable: "mergeable (absorb t i) = mergeable t"
  by (cases t) (auto simp: Let_def split: option.split)

lemma merge_run_flat:
  assumes "case t of None \<Rightarrow> True | Some t \<Rightarrow> mergeable t \<and> headed t" "list_all headed ns"
  shows "concat (map (flat False c) (merge_run t ns)) = (case t of None \<Rightarrow> [] | Some t \<Rightarrow> flat False c t) @ concat (map (flat False c) ns) \<and>
    list_all headed (merge_run t ns)"
  using assms
proof (induction t ns rule: merge_run.induct)
  case (4 t i "is")
  consider "\<not> mergeable i" | "mergeable i" "font_face i" | "mergeable i" "\<not> font_face i" "same_head i t" | "mergeable i" "\<not> font_face i" "\<not> same_head i t" by blast
  then show ?case
  proof cases
    case 3
    have "concat (map (flat False c) (merge_run (Some (absorb t i)) is)) = flat False c (absorb t i) @ concat (map (flat False c) is) \<and>
        list_all headed (merge_run (Some (absorb t i)) is)"
      using 4(3) [OF _ 3(2,3)] 3(1) 4(5,6) by (simp add: absorb_headed absorb_mergeable)
    then show ?thesis using 3 4(5,6) by (simp add: absorb_flat)
  qed (use 4 in auto)
qed auto

lemma collapse_level_flat: "list_all headed ns \<Longrightarrow> concat (map (flat False c) (collapse_level ns)) = concat (map (flat False c) ns)"
proof (induction ns arbitrary: c rule: collapse_level.induct)
  case (1 ns)
  let ?f = "\<lambda>i. case i of AtRule n p (Some ms) r \<Rightarrow> AtRule n p (Some (collapse_level ms)) r | _ \<Rightarrow> i"
  note m = merge_run_flat [of None ns c, simplified, OF 1(2)]
  have "flat False c (?f i) = flat False c i" if i: "i \<in> set (merge_run None ns)" for i
  proof (cases "\<exists>n p ms r. i = AtRule n p (Some ms) r")
    case True
    then obtain n p ms r where i2: "i = AtRule n p (Some ms) r" by blast
    then have "list_all headed ms" using m i by (fastforce simp: list_all_iff)
    from 1(1) [OF i i2 refl this] show ?thesis by (simp add: i2)
  next
    case False
    then have "?f i = i" by (auto split: css_node.split option.split)
    then show ?thesis by simp
  qed
  then have "concat (map (flat False c) (map ?f (merge_run None ns))) = concat (map (flat False c) (merge_run None ns))"
    unfolding map_map comp_def by (rule concat_map_same)
  with m show ?case by (simp only: collapse_level.simps [of ns])
qed

text \<open>Neighbours that could be merged are gone, at every level that the pass reaches.\<close>

definition could_merge :: "css_node \<Rightarrow> css_node \<Rightarrow> bool" where
  "could_merge t i \<longleftrightarrow> mergeable t \<and> mergeable i \<and> \<not> font_face i \<and> same_head i t"

fun settled :: "css_node list \<Rightarrow> bool" where
  "settled (t # i # ns) = (\<not> could_merge t i \<and> settled (i # ns))"
| "settled ns = True"

fun tidy :: "css_node \<Rightarrow> bool" where
  "tidy (AtRule n p (Some ns) r) = (settled ns \<and> list_all tidy ns)"
| "tidy n = True"

text \<open>What \<open>could_merge\<close> looks at.\<close>

fun head_of :: "css_node \<Rightarrow> (bool \<times> string \<times> string) option" where
  "head_of (AtRule n p ns r) = Some (True, n, p)"
| "head_of (Rule s ns r) = Some (False, s, [])"
| "head_of n = None"

lemma could_merge_head: "head_of t = head_of t' \<Longrightarrow> head_of i = head_of i' \<Longrightarrow> could_merge t i = could_merge t' i'"
  by (cases t; cases t'; cases i; cases i') (simp_all add: could_merge_def)

lemma settled_head: "map head_of ns = map head_of ms \<Longrightarrow> settled ns = settled ms"
proof (induction ns arbitrary: ms rule: settled.induct)
  case (1 t i ns)
  then obtain t' i' ms' where ms: "ms = t' # i' # ms'" by (auto simp: map_eq_Cons_conv Cons_eq_map_conv)
  then have "settled (i # ns) = settled (i' # ms')" using 1 by simp
  with 1(2) ms show ?case using could_merge_head [of t t' i i'] by simp
qed (auto simp: Cons_eq_map_conv)

lemma absorb_head: "head_of (absorb t i) = head_of t"
  by (cases t) (auto simp: Let_def split: option.split)

lemma merge_run_settled:
  "settled (merge_run t ns) \<and> (case t of None \<Rightarrow> True | Some t \<Rightarrow> \<exists>t' ms. merge_run (Some t) ns = t' # ms \<and> head_of t' = head_of t)"
proof (induction t ns rule: merge_run.induct)
  case (3 i "is")
  show ?case
  proof (cases "mergeable i")
    case False
    then have "\<not> could_merge i x" for x by (simp add: could_merge_def)
    then have "settled (i # ns) = settled ns" for ns by (cases ns) simp_all
    with 3 False show ?thesis by simp
  qed (use 3 in auto)
next
  case (4 t i "is")
  consider "\<not> mergeable i" | "mergeable i" "font_face i" | "mergeable i" "\<not> font_face i" "same_head i t" | "mergeable i" "\<not> font_face i" "\<not> same_head i t" by blast
  then show ?case
  proof cases
    case 1
    then have "\<not> could_merge i x" "\<not> could_merge t i" for x by (simp_all add: could_merge_def)
    then have "settled (t # i # ns) = settled ns" for ns by (cases ns) simp_all
    with 4(1) 1 show ?thesis by simp
  next
    case 2
    from 4(2) 2 obtain i' ms where m: "merge_run (Some i) is = i' # ms" "head_of i' = head_of i" "settled (i' # ms)" by auto
    have "\<not> could_merge t i" using 2 by (simp add: could_merge_def)
    then have "\<not> could_merge t i'" using could_merge_head [of t t i i'] m(2) by simp
    with m 2 show ?thesis by simp
  next
    case 3
    with 4(3) [OF _ 3(2,3)] show ?thesis by (simp add: absorb_head)
  next
    case c: 4
    from 4(4) c obtain i' ms where m: "merge_run (Some i) is = i' # ms" "head_of i' = head_of i" "settled (i' # ms)" by auto
    have "\<not> could_merge t i" using c by (simp add: could_merge_def)
    then have "\<not> could_merge t i'" using could_merge_head [of t t i i'] m(2) by simp
    with m c show ?thesis by simp
  qed
qed auto

lemma collapse_level_tidy: "settled (collapse_level ns) \<and> list_all tidy (collapse_level ns)"
proof (induction ns rule: collapse_level.induct)
  case (1 ns)
  let ?f = "\<lambda>i. case i of AtRule n p (Some ms) r \<Rightarrow> AtRule n p (Some (collapse_level ms)) r | _ \<Rightarrow> i"
  have "head_of (?f i) = head_of i" for i by (auto split: css_node.split option.split)
  then have "map head_of (map ?f (merge_run None ns)) = map head_of (merge_run None ns)" by (simp add: comp_def)
  then have s: "settled (map ?f (merge_run None ns))" using settled_head merge_run_settled [of None ns] by blast
  have "tidy (?f i)" if i: "i \<in> set (merge_run None ns)" for i
  proof (cases "\<exists>n p ms r. i = AtRule n p (Some ms) r")
    case True
    then obtain n p ms r where i2: "i = AtRule n p (Some ms) r" by blast
    from 1(1) [OF i i2 refl] show ?thesis by (simp add: i2)
  next
    case False
    then have "?f i = i" "tidy i" by (cases i rule: tidy.cases; simp)+
    then show ?thesis by simp
  qed
  then have "list_all tidy (map ?f (merge_run None ns))" by (simp add: list_all_iff)
  with s show ?case by (simp only: collapse_level.simps [of ns])
qed

text \<open>
  C38. Merging adjacent rules keeps every declaration with the heads around it and their order, provided that
  no rule has an empty selector, no at-rule an empty name, and no root stands among the nodes (a rule with an
  empty selector would be merged into an at-rule before it).  No two neighbouring rules or at-rules with the same head
  are left, unless the second is a \<^verbatim>\<open>@font-face\<close>, at the top and in at-rules that are inside at-rules only; what is
  inside rules is left as it is.
\<close>

theorem merge_keeps_rules:
  assumes "\<forall>n \<in> set ns. headed n"
  shows "flat False [] (collapseAdjacentRules (Root ns r)) = flat False [] (Root ns r) \<and>
    (\<exists>ms. collapseAdjacentRules (Root ns r) = Root ms r \<and> settled ms \<and> list_all tidy ms)"
  using assms collapse_level_flat [of ns "[]"] collapse_level_tidy [of ns] by (simp add: list_all_iff)

theorem merge_keeps_rules_witness:
  "flat False [] (collapseAdjacentRules (Root [Rule ''a  b'' [Decl ''c'' ''d'' False no_raws] no_raws, Rule ''a b'' [Decl ''e'' ''f'' False no_raws] no_raws] no_raws)) =
     [([Sel ''a b''], Declared ''c'' ''d'' False), ([Sel ''a b''], Declared ''e'' ''f'' False)]"
proof -
  let ?ns = "[Rule ''a  b'' [Decl ''c'' ''d'' False no_raws] no_raws, Rule ''a b'' [Decl ''e'' ''f'' False no_raws] no_raws]"
  have s: "squash ''a  b'' = ''a b''" "squash ''a b'' = ''a b''" by code_simp+
  have "\<forall>n \<in> set ?ns. headed n" by simp
  from conjunct1 [OF merge_keeps_rules [OF this, of no_raws]] show ?thesis by (simp add: s)
qed

section \<open>Directives\<close>

definition quoted :: "string \<Rightarrow> string \<Rightarrow> bool" where
  "quoted w p \<longleftrightarrow> p = CHR 0x22 # w @ [CHR 0x22] \<or> p = CHR 0x27 # w @ [CHR 0x27]"

text \<open>The old import forms are renamed, then \<^verbatim>\<open>screens\<close> is.\<close>

definition norm_import :: "string \<times> string \<Rightarrow> string \<times> string" where
  "norm_import d = (case d of (n, p) \<Rightarrow>
     if n = ''import'' then
       if quoted ''tailwindcss/base'' p then (''tailwind'', ''base'')
       else if quoted ''tailwindcss/components'' p then (''tailwind'', ''components'')
       else if quoted ''tailwindcss/utilities'' p then (''tailwind'', ''utilities'')
       else if quoted ''tailwindcss/screens'' p \<or> quoted ''tailwindcss/variants'' p then (''tailwind'', ''variants'')
       else (n, p)
     else (n, p))"

definition norm_directive :: "string \<times> string \<Rightarrow> string \<times> string" where
  "norm_directive d = (case norm_import d of (n, p) \<Rightarrow> if n = ''tailwind'' \<and> p = ''screens'' then (n, ''variants'') else (n, p))"

fun norm_directives :: "css_node \<Rightarrow> css_node" where
  "norm_directives (Root ns r) = Root (map norm_directives ns) r"
| "norm_directives (AtRule n p ns r) = (case norm_directive (n, p) of (n, p) \<Rightarrow> AtRule n p (map_option (map norm_directives) ns) r)"
| "norm_directives (Rule s ns r) = Rule s (map norm_directives ns) r"
| "norm_directives n = n"

text \<open>The at-rules in the order of the walk.\<close>

fun at_rules :: "css_node \<Rightarrow> (string \<times> string) list" where
  "at_rules (Root ns r) = concat (map at_rules ns)"
| "at_rules (AtRule n p ns r) = (n, p) # (case ns of None \<Rightarrow> [] | Some ns \<Rightarrow> concat (map at_rules ns))"
| "at_rules (Rule s ns r) = concat (map at_rules ns)"
| "at_rules n = []"

datatype directive_error = LayerWithoutDirective string | ResponsiveWithoutUtilities | VariantsWithoutUtilities

definition layer_error :: "string set \<Rightarrow> string \<times> string \<Rightarrow> directive_error option" where
  "layer_error e d = (case d of (n, p) \<Rightarrow>
     if n = ''layer'' \<and> p \<in> {''base'', ''components'', ''utilities''} then (if p \<notin> e then Some (LayerWithoutDirective p) else None)
     else if n = ''responsive'' then (if ''utilities'' \<notin> e then Some ResponsiveWithoutUtilities else None)
     else if n = ''variants'' \<and> ''utilities'' \<notin> e then Some VariantsWithoutUtilities
     else None)"

text \<open>\<open>Dl\<close>: the rewritten tree, the directives found and the number of \<^verbatim>\<open>@apply\<close> rules, or the first error.\<close>

definition normalizeTailwindDirectives :: "css_node \<Rightarrow> directive_error + (css_node \<times> string set \<times> nat)" where
  "normalizeTailwindDirectives root =
     (let root = norm_directives root;
          ds = at_rules root;
          e = set (map snd (filter (\<lambda>d. fst d = ''tailwind'') ds));
          t = filter (\<lambda>d. fst d \<in> {''layer'', ''responsive'', ''variants''}) ds
      in if {''base'', ''components'', ''utilities''} \<subseteq> e then Inr (root, e, length (filter (\<lambda>d. fst d = ''apply'') ds))
         else case List.map_filter (layer_error e) t of
           [] \<Rightarrow> Inr (root, e, length (filter (\<lambda>d. fst d = ''apply'') ds))
         | x # _ \<Rightarrow> Inl x)"

lemma norm_directive_idem: "norm_directive (norm_directive d) = norm_directive d"
  by (cases d) (simp add: norm_directive_def norm_import_def)

lemma norm_directives_idem: "norm_directives (norm_directives n) = norm_directives n"
proof (induction n rule: norm_directives.induct)
  case (2 n p ns r)
  obtain m q where d: "norm_directive (n, p) = (m, q)" by (cases "norm_directive (n, p)")
  with norm_directive_idem [of "(n, p)"] have d2: "norm_directive (m, q) = (m, q)" by simp
  show ?case using 2 d d2 by (cases ns) simp_all
qed simp_all

text \<open>With a directive for every layer in use the sheet is accepted, and accepting it again changes nothing.\<close>

lemma directives_stable:
  "normalizeTailwindDirectives n = Inr (m, e, k) \<Longrightarrow> normalizeTailwindDirectives m = Inr (m, e, k)"
proof -
  assume a: "normalizeTailwindDirectives n = Inr (m, e, k)"
  then have "m = norm_directives n" by (auto simp: normalizeTailwindDirectives_def Let_def split: if_splits list.splits)
  then have "norm_directives m = norm_directives n" by (simp add: norm_directives_idem)
  then have "normalizeTailwindDirectives m = normalizeTailwindDirectives n" by (simp add: normalizeTailwindDirectives_def)
  with a show ?thesis by simp
qed

lemma layer_checked:
  "normalizeTailwindDirectives n = Inr (m, e, k) \<Longrightarrow> (''layer'', p) \<in> set (at_rules m) \<Longrightarrow> p \<in> {''base'', ''components'', ''utilities''} \<Longrightarrow> p \<in> e"
  by (auto simp: normalizeTailwindDirectives_def Let_def map_filter_def layer_error_def filter_empty_conv split: if_splits list.splits)

end
