(* ===== verification/Autoprefixer.thy ===== *)
theory Autoprefixer
  imports Js_Text
begin

text \<open>
  The vendor-prefixing plugin of the bundle (\<^verbatim>\<open>autoprefixer\<close> in \<^verbatim>\<open>tailwind.js\<close>): the declaration prefixer
  (class \<open>Hy\<close> with its base \<open>Ns\<close>), the declaration groups and the white-space reduction of the
  processor, and the plugin's entry point.  A block is the list of its children and a declaration is
  addressed by its index.  The property \<open>before\<close> is the string that \<open>raw("before")\<close> returns.  The
  normal form of a property name, which hack classes can override, is an argument (\<open>norm\<close>).
\<close>

section \<open>Prefixes\<close>

text \<open>The prefixes of the agents table, in its order, and \<open>Browsers.prefixes()\<close>: unique, longest first.\<close>

definition agent_prefixes :: "string list" where
  "agent_prefixes =
     [''ms'', ''webkit'', ''moz'', ''webkit'', ''webkit'', ''webkit'', ''webkit'', ''o'', ''webkit'', ''webkit'', ''o'', ''webkit'',
      ''moz'', ''ms'', ''webkit'', ''webkit'', ''webkit'', ''webkit'', ''moz'']"

definition uniq :: "'a list \<Rightarrow> 'a list" where
  "uniq r = rev (remdups (rev r))"

definition browser_prefixes :: "string list" where
  "browser_prefixes = sort_key (\<lambda>e. - int (length e)) (uniq (map (\<lambda>p. ''-'' @ p @ ''-'') agent_prefixes))"

definition withPrefix :: "string \<Rightarrow> bool" where
  "withPrefix e \<longleftrightarrow> list_ex (contains e) browser_prefixes"

definition removeNote :: "string \<Rightarrow> string" where
  "removeNote r = hd (split_on (CHR '' '') r)"

definition word_char :: "char \<Rightarrow> bool" where
  "word_char c \<longleftrightarrow> (let n = (of_char c :: nat) in 65 \<le> n \<and> n \<le> 90 \<or> 97 \<le> n \<and> n \<le> 122 \<or> 48 \<le> n \<and> n \<le> 57 \<or> n = 95)"

text \<open>\<^verbatim>\<open>/^-\w+-/\<close>: the length of the match, zero without one.\<close>

definition prefix_match :: "string \<Rightarrow> nat" where
  "prefix_match s =
     (case s of
        [] \<Rightarrow> 0
      | c # r \<Rightarrow>
          let w = takeWhile word_char r; r' = drop (length w) r
          in if c = CHR ''-'' \<and> w \<noteq> [] \<and> r' \<noteq> [] \<and> hd r' = CHR ''-'' then length w + 2 else 0)"

definition vendor_prefix :: "string \<Rightarrow> string" where
  "vendor_prefix r = take (prefix_match r) r"

definition vendor_unprefixed :: "string \<Rightarrow> string" where
  "vendor_unprefixed r = drop (prefix_match r) r"

definition unprefixed :: "(string \<Rightarrow> string) \<Rightarrow> string \<Rightarrow> string" where
  "unprefixed norm e = (let t = norm (vendor_unprefixed e) in if t = ''flex-direction'' then ''flex-flow'' else t)"

section \<open>Declarations in a block\<close>

record ap_decl =
  ad_prop :: string
  ad_value :: string
  ad_before :: string
  ad_cascade :: bool \<comment> \<open>\<open>_autoprefixerCascade\<close>\<close>
  ad_max :: nat \<comment> \<open>\<open>_autoprefixerMax\<close>, zero when unset\<close>

datatype ap_child = ADecl ap_decl | AOther

fun decl_at :: "ap_child list \<Rightarrow> nat \<Rightarrow> ap_decl option" where
  "decl_at [] i = None"
| "decl_at (n # ns) 0 = (case n of ADecl d \<Rightarrow> Some d | AOther \<Rightarrow> None)"
| "decl_at (n # ns) (Suc i) = decl_at ns i"

text \<open>
  The declarations that \<open>group(e).up\<close> and \<open>group(e).down\<close> visit: the neighbours that share the
  unprefixed name, up to the unprefixed declaration itself (not visited upwards, the last one downwards).
\<close>

fun group_up :: "(string \<Rightarrow> string) \<Rightarrow> string \<Rightarrow> ap_child list \<Rightarrow> ap_decl list" where
  "group_up norm s [] = []"
| "group_up norm s (AOther # ns) = group_up norm s ns"
| "group_up norm s (ADecl c # ns) =
     (if ad_prop c = s \<and> \<not> withPrefix (ad_value c) \<or> unprefixed norm (ad_prop c) \<noteq> s then [] else c # group_up norm s ns)"

fun group_down :: "(string \<Rightarrow> string) \<Rightarrow> string \<Rightarrow> nat \<Rightarrow> ap_child list \<Rightarrow> (nat \<times> ap_decl) list" where
  "group_down norm s i [] = []"
| "group_down norm s i (AOther # ns) = group_down norm s (Suc i) ns"
| "group_down norm s i (ADecl c # ns) =
     (if unprefixed norm (ad_prop c) \<noteq> s then []
      else if ad_prop c = s \<and> \<not> withPrefix (ad_value c) then [(i, c)]
      else (i, c) # group_down norm s (Suc i) ns)"

definition up_of :: "(string \<Rightarrow> string) \<Rightarrow> ap_child list \<Rightarrow> nat \<Rightarrow> ap_decl \<Rightarrow> ap_decl list" where
  "up_of norm ns i e = group_up norm (unprefixed norm (ad_prop e)) (rev (take i ns))"

definition down_of :: "(string \<Rightarrow> string) \<Rightarrow> ap_child list \<Rightarrow> nat \<Rightarrow> ap_decl \<Rightarrow> (nat \<times> ap_decl) list" where
  "down_of norm ns i e = group_down norm (unprefixed norm (ad_prop e)) (Suc i) (drop (Suc i) ns)"

section \<open>The declaration prefixer\<close>

definition prefixed :: "string \<Rightarrow> string \<Rightarrow> string" where
  "prefixed p prefix = prefix @ p"

definition otherPrefixes :: "string \<Rightarrow> string \<Rightarrow> bool" where
  "otherPrefixes v prefix \<longleftrightarrow> list_ex (\<lambda>i. i \<noteq> prefix \<and> contains v i) browser_prefixes"

text \<open>The option \<open>cascade\<close>, when it is not \<open>false\<close>; a false memo is computed again.\<close>

definition needCascade :: "bool \<Rightarrow> ap_decl \<Rightarrow> bool \<times> ap_decl" where
  "needCascade cascade e =
     (if ad_cascade e then (True, e)
      else let b = (cascade \<and> newline \<in> set (ad_before e)) in (b, e\<lparr>ad_cascade := b\<rparr>))"

definition maxPrefixed :: "string list \<Rightarrow> ap_decl \<Rightarrow> nat \<times> ap_decl" where
  "maxPrefixed ps e =
     (if ad_max e \<noteq> 0 then (ad_max e, e)
      else let i = fold (\<lambda>p i. if length (removeNote p) > i then length (removeNote p) else i) ps 0
           in (i, e\<lparr>ad_max := i\<rparr>))"

definition calcBefore :: "string list \<Rightarrow> ap_decl \<Rightarrow> string \<Rightarrow> string \<times> ap_decl" where
  "calcBefore ps e prefix =
     (case maxPrefixed ps e of
        (m, e1) \<Rightarrow> (ad_before e1 @ replicate (m - length (removeNote prefix)) (CHR '' ''), e1))"

definition restoreBefore :: "(string \<Rightarrow> string) \<Rightarrow> ap_child list \<Rightarrow> nat \<Rightarrow> ap_decl \<Rightarrow> ap_decl" where
  "restoreBefore norm ns idx e =
     (let t = split_on newline (ad_before e);
          i = fold (\<lambda>n i. let a = last (split_on newline (ad_before n)) in if length a < length i then a else i)
                (up_of norm ns idx e) (last t)
      in e\<lparr>ad_before := join_with [newline] (butlast t @ [i])\<rparr>)"

definition has_decl :: "ap_child list \<Rightarrow> string \<Rightarrow> string \<Rightarrow> bool" where
  "has_decl ns p v \<longleftrightarrow> list_ex (\<lambda>n. case n of ADecl d \<Rightarrow> ad_prop d = p \<and> ad_value d = v | AOther \<Rightarrow> False) ns"

text \<open>
  \<open>insert\<close> on the declaration \<open>e\<close> at index \<open>idx\<close>: the new children and whether one was inserted (then
  the declaration has moved by one).
\<close>

definition ap_insert :: "bool \<Rightarrow> string \<Rightarrow> string list \<Rightarrow> ap_child list \<Rightarrow> nat \<Rightarrow> ap_decl \<Rightarrow> bool \<times> ap_child list" where
  "ap_insert cascade prefix ps ns idx e =
     (let n = e\<lparr>ad_prop := prefixed (ad_prop e) prefix\<rparr> in
      if has_decl ns (ad_prop n) (ad_value n) then (False, ns)
      else case needCascade cascade e of
             (b, e1) \<Rightarrow>
               (case (if b then calcBefore ps e1 prefix else (ad_before n, e1)) of
                  (bf, e2) \<Rightarrow> (True, take idx ns @ [ADecl (n\<lparr>ad_before := bf\<rparr>), ADecl e2] @ drop (Suc idx) ns)))"

definition isAlready :: "(string \<Rightarrow> string) \<Rightarrow> ap_child list \<Rightarrow> nat \<Rightarrow> ap_decl \<Rightarrow> string \<Rightarrow> bool" where
  "isAlready norm ns idx e p \<longleftrightarrow>
     list_ex (\<lambda>n. ad_prop n = p) (up_of norm ns idx e) \<or> list_ex (\<lambda>(_, n). ad_prop n = p) (down_of norm ns idx e)"

definition ap_add ::
  "(string \<Rightarrow> string) \<Rightarrow> bool \<Rightarrow> string \<Rightarrow> string list \<Rightarrow> ap_child list \<Rightarrow> nat \<Rightarrow> ap_decl \<Rightarrow> bool \<times> ap_child list" where
  "ap_add norm cascade prefix ps ns idx e =
     (if isAlready norm ns idx e (prefixed (ad_prop e) prefix) \<or> otherPrefixes (ad_value e) prefix then (False, ns)
      else ap_insert cascade prefix ps ns idx e)"

text \<open>\<open>parentPrefix\<close> of a declaration; the argument is the prefix of its parent, \<open>None\<close> for \<open>false\<close>.\<close>

definition parentPrefix :: "string option \<Rightarrow> ap_decl \<Rightarrow> string option" where
  "parentPrefix outer e =
     (let t = (if ad_prop e \<noteq> [] \<and> hd (ad_prop e) = CHR ''-'' then Some (vendor_prefix (ad_prop e)) else outer)
      in case t of Some p \<Rightarrow> if p \<in> set browser_prefixes then Some p else None | None \<Rightarrow> None)"

fun ap_loop ::
  "(string \<Rightarrow> string) \<Rightarrow> bool \<Rightarrow> string list \<Rightarrow> string list \<Rightarrow> ap_child list \<Rightarrow> nat \<Rightarrow> string list \<times> ap_child list \<times> nat" where
  "ap_loop norm cascade [] s ns idx = (s, ns, idx)"
| "ap_loop norm cascade (a # as) s ns idx =
     (case decl_at ns idx of
        None \<Rightarrow> (s, ns, idx)
      | Some e \<Rightarrow>
          (case ap_add norm cascade a (s @ [a]) ns idx e of
             (True, ns') \<Rightarrow> ap_loop norm cascade as (s @ [a]) ns' (Suc idx)
           | (False, ns') \<Rightarrow> ap_loop norm cascade as s ns' idx))"

definition super_process ::
  "(string \<Rightarrow> string) \<Rightarrow> bool \<Rightarrow> string list \<Rightarrow> string option \<Rightarrow> ap_child list \<Rightarrow> nat \<Rightarrow> ap_decl \<Rightarrow> string list \<times> ap_child list \<times> nat" where
  "super_process norm cascade prefixes outer ns idx e =
     (let i = parentPrefix outer e;
          n = filter (\<lambda>a. case i of None \<Rightarrow> True | Some p \<Rightarrow> p = removeNote a) prefixes
      in ap_loop norm cascade n [] ns idx)"

definition set_decl :: "ap_child list \<Rightarrow> nat \<Rightarrow> ap_decl \<Rightarrow> ap_child list" where
  "set_decl ns idx e = ns[idx := ADecl e]"

text \<open>The prefixer's \<open>process\<close>, for the declaration at \<open>idx\<close>.\<close>

definition ap_process ::
  "(string \<Rightarrow> string) \<Rightarrow> bool \<Rightarrow> string list \<Rightarrow> string option \<Rightarrow> ap_child list \<Rightarrow> nat \<Rightarrow> ap_child list" where
  "ap_process norm cascade prefixes outer ns idx =
     (case decl_at ns idx of
        None \<Rightarrow> ns
      | Some e \<Rightarrow>
          (case needCascade cascade e of
             (b, e1) \<Rightarrow>
               (case super_process norm cascade prefixes outer (set_decl ns idx e1) idx e1 of
                  (added, ns', idx') \<Rightarrow>
                    if \<not> b \<or> added = [] then ns'
                    else case decl_at ns' idx' of
                           None \<Rightarrow> ns'
                         | Some e2 \<Rightarrow>
                             let e3 = restoreBefore norm ns' idx' e2 in
                             (case calcBefore added e3 [] of (bf, e4) \<Rightarrow> set_decl ns' idx' (e4\<lparr>ad_before := bf\<rparr>)))))"

section \<open>Reducing spaces\<close>

text \<open>\<open>reduceSpaces\<close> of the processor, run before a prefixed declaration is removed.\<close>

fun narrow :: "nat \<Rightarrow> nat option \<Rightarrow> (nat \<times> ap_decl) list \<Rightarrow> ap_child list \<Rightarrow> ap_child list" where
  "narrow n s [] ns = ns"
| "narrow n s ((j, a) # as) ns =
     (let i = split_on newline (ad_before a); w = length (last i) in
      if w > n then
        let s' = (case s of None \<Rightarrow> w - n | Some k \<Rightarrow> k);
            b = join_with [newline] (butlast i @ [js_slice (last i) 0 (- int s')])
        in narrow n (Some s') as (set_decl ns j (a\<lparr>ad_before := b\<rparr>))
      else narrow n s as ns)"

definition reduceSpaces :: "(string \<Rightarrow> string) \<Rightarrow> ap_child list \<Rightarrow> nat \<Rightarrow> ap_child list" where
  "reduceSpaces norm ns idx =
     (case decl_at ns idx of
        None \<Rightarrow> ns
      | Some e \<Rightarrow>
          if up_of norm ns idx e \<noteq> [] then ns
          else narrow (length (last (split_on newline (ad_before e)))) None (down_of norm ns idx e) ns)"

section \<open>The plugin\<close>

text \<open>
  The texts of the plugin's warnings.  The colour module of the bundle is empty, so the first one is
  written to the console as it stands.
\<close>

definition browsers_warning :: string where
  "browsers_warning = join_with [newline]
     [[],
      ''  Replace Autoprefixer `browsers` option to Browserslist config.'',
      ''  Use `browserslist` key in `package.json` or `.browserslistrc` file.'',
      [],
      ''  Using `browsers` option can cause errors. Browserslist config can'',
      ''  be used for Babel, Autoprefixer, postcss-normalize and other tools.'',
      [],
      ''  If you really need to use option, rename it to `overrideBrowserslist`.'',
      [],
      ''  Learn more at:'',
      ''  https://github.com/browserslist/browserslist#readme'',
      ''  https://twitter.com/browserslist'',
      [],
      []]"

definition no_prefixes_warning :: string where
  "no_prefixes_warning = join_with [newline]
     [''Autoprefixer target browsers do not need any prefixes.You do not need Autoprefixer anymore.'',
      ''Check your Browserslist config to be sure that your targets are set up correctly.'',
      [],
      ''  Learn more at:'',
      ''  https://github.com/postcss/autoprefixer#readme'',
      ''  https://github.com/browserslist/browserslist#readme'',
      [],
      []]"

text \<open>\<open>u3\<close>: the arguments are the numbers of selected browsers, of selector prefixers and of keys of \<open>add\<close>.\<close>

definition u3 :: "nat \<Rightarrow> nat \<Rightarrow> nat \<Rightarrow> string list" where
  "u3 selected selectors keys =
     (if selected \<noteq> 0 \<and> \<not> (selectors > 0 \<or> keys > 2) then [no_prefixes_warning] else [])"

text \<open>The options object, with absent and falsy fields as \<open>None\<close>; a browser query is a list of strings.\<close>

record ap_options =
  op_browser :: "string list option"
  op_browserslist :: "string list option"
  op_overrideBrowserslist :: "string list option"
  op_browsers :: "string list option"
  op_remove :: bool \<comment> \<open>\<open>remove !== false\<close>\<close>
  op_add :: bool \<comment> \<open>\<open>add !== false\<close>\<close>

definition no_options :: ap_options where
  "no_options = \<lparr>op_browser = None, op_browserslist = None, op_overrideBrowserslist = None, op_browsers = None,
     op_remove = True, op_add = True\<rparr>"

datatype ap_arg = ArgNull | ArgString string | ArgArray "string list" | ArgObject ap_options

datatype ap_error = BrowserOption | BrowserslistOption

text \<open>The query that the remaining arguments are: an array, or the list of the strings.\<close>

definition arg_query :: "ap_arg \<Rightarrow> string list option" where
  "arg_query a = (case a of ArgArray q \<Rightarrow> Some q | ArgString s \<Rightarrow> Some [s] | _ \<Rightarrow> None)"

definition arg_options :: "ap_arg \<Rightarrow> ap_options option" where
  "arg_options a = (case a of ArgObject e \<Rightarrow> Some e | _ \<Rightarrow> None)"

text \<open>
  The sorting of the arguments: options and query.  A trailing array or null counts as an object here,
  so it is taken for the options, of which it has none.
\<close>

definition sort_args :: "ap_arg list \<Rightarrow> ap_options option \<times> ap_arg list option" where
  "sort_args r =
     (case r of
        [ArgObject e] \<Rightarrow> (Some e, None)
      | [] \<Rightarrow> (None, None)
      | [ArgNull] \<Rightarrow> (None, None)
      | _ \<Rightarrow>
          if length r \<le> 2 \<and> (case hd r of ArgArray _ \<Rightarrow> True | ArgNull \<Rightarrow> True | _ \<Rightarrow> False)
          then (if length r = 2 then arg_options (r ! 1) else None, Some [hd r])
          else case last r of
                 ArgObject e \<Rightarrow> (Some e, Some (butlast r))
               | ArgArray _ \<Rightarrow> (None, Some (butlast r))
               | ArgNull \<Rightarrow> (None, Some (butlast r))
               | _ \<Rightarrow> (None, Some r))"

definition positional_query :: "ap_arg list option \<Rightarrow> string list option" where
  "positional_query r =
     (case r of
        None \<Rightarrow> None
      | Some [a] \<Rightarrow> arg_query a
      | Some as \<Rightarrow> Some (concat (map (\<lambda>a. case arg_query a of Some q \<Rightarrow> q | None \<Rightarrow> []) as)))"

record ap_plugin =
  pl_options :: ap_options
  pl_browsers :: "string list option"
  pl_console :: "string list"

definition Lr :: "ap_arg list \<Rightarrow> ap_error + ap_plugin" where
  "Lr args =
     (case sort_args args of
        (e', r) \<Rightarrow>
          let e = (case e' of Some e \<Rightarrow> e | None \<Rightarrow> no_options) in
          if op_browser e \<noteq> None then Inl BrowserOption
          else if op_browserslist e \<noteq> None then Inl BrowserslistOption
          else case op_overrideBrowserslist e of
                 Some q \<Rightarrow> Inr \<lparr>pl_options = e, pl_browsers = Some q, pl_console = []\<rparr>
               | None \<Rightarrow>
                   (case op_browsers e of
                      Some q \<Rightarrow> Inr \<lparr>pl_options = e, pl_browsers = Some q, pl_console = [browsers_warning]\<rparr>
                    | None \<Rightarrow> Inr \<lparr>pl_options = e, pl_browsers = positional_query r, pl_console = []\<rparr>))"

text \<open>The exit hook: warn, then remove outdated prefixes, then add prefixes; the processor's passes are arguments.\<close>

definition OnceExit :: "ap_options \<Rightarrow> ('r \<Rightarrow> 'r) \<Rightarrow> ('r \<Rightarrow> 'r) \<Rightarrow> nat \<times> nat \<times> nat \<Rightarrow> 'r \<Rightarrow> string list \<times> 'r" where
  "OnceExit e remove add info root =
     (case info of
        (selected, selectors, keys) \<Rightarrow>
          let root1 = (if op_remove e then remove root else root)
          in (u3 selected selectors keys, if op_add e then add root1 else root1))"

section \<open>What prefixing changes\<close>

lemma decl_at_append [simp]: "decl_at (xs @ ADecl e # ys) (length xs) = Some e"
  by (induction xs) simp_all

lemma decl_at_nth: "decl_at ns i = Some e \<Longrightarrow> i < length ns \<and> ns ! i = ADecl e"
  by (induction ns i rule: decl_at.induct) (auto split: ap_child.splits)

lemma has_decl_append [simp]: "has_decl (xs @ ys) p v \<longleftrightarrow> has_decl xs p v \<or> has_decl ys p v"
  by (simp add: has_decl_def)

lemma has_decl_Cons [simp]:
  "has_decl (ADecl d # ys) p v \<longleftrightarrow> ad_prop d = p \<and> ad_value d = v \<or> has_decl ys p v" "\<not> has_decl [] p v"
  by (simp_all add: has_decl_def)

lemma has_decl_copies: "has_decl (map ADecl ds) p v \<longleftrightarrow> (\<exists>d \<in> set ds. ad_prop d = p \<and> ad_value d = v)"
  by (induction ds) auto

text \<open>The memo fields and the white space aside, the declaration stays as it is.\<close>

definition same_decl :: "ap_decl \<Rightarrow> ap_decl \<Rightarrow> bool" where
  "same_decl e d \<longleftrightarrow> ad_prop d = ad_prop e \<and> ad_value d = ad_value e"

lemma same_decl_refl [simp]: "same_decl e e"
  by (simp add: same_decl_def)

lemma needCascade_same: "needCascade cascade e = (b, e1) \<Longrightarrow> same_decl e e1 \<and> ad_before e1 = ad_before e \<and> ad_max e1 = ad_max e \<and> ad_cascade e1 = b"
  by (auto simp: needCascade_def same_decl_def Let_def split: if_splits)

lemma calcBefore_same:
  "calcBefore ps e a = (bf, e1) \<Longrightarrow> same_decl e e1 \<and> ad_before e1 = ad_before e \<and> ad_cascade e1 = ad_cascade e \<and>
     ad_max e1 = fst (maxPrefixed ps e) \<and> bf = ad_before e @ replicate (ad_max e1 - length (removeNote a)) (CHR '' '')"
  by (auto simp: calcBefore_def maxPrefixed_def same_decl_def Let_def split: if_splits)

text \<open>
  The children while a declaration is prefixed: a prefix of the block, the copies, the declaration
  itself and the rest.  This is what holds of the copies.
\<close>

definition copy_ok :: "string list \<Rightarrow> ap_decl \<Rightarrow> ap_child list \<Rightarrow> ap_child list \<Rightarrow> ap_decl \<Rightarrow> bool" where
  "copy_ok as e pre post d \<longleftrightarrow>
     ad_value d = ad_value e \<and> (\<exists>a \<in> set as. ad_prop d = a @ ad_prop e) \<and>
     \<not> has_decl (pre @ ADecl e # post) (ad_prop d) (ad_value d)"

definition copies_ok :: "string list \<Rightarrow> ap_decl \<Rightarrow> ap_child list \<Rightarrow> ap_child list \<Rightarrow> ap_decl list \<Rightarrow> bool" where
  "copies_ok as e pre post ds \<longleftrightarrow> (\<forall>d \<in> set ds. copy_ok as e pre post d) \<and> distinct (map ad_prop ds)"

lemma ap_add_shape:
  assumes "ap_add norm cascade a ps (pre @ map ADecl ds @ ADecl e # post) (length pre + length ds) e = (True, ns')"
    "copies_ok as e0 pre post ds" "same_decl e0 e" "a \<in> set as"
  shows "\<exists>d e'. ns' = pre @ map ADecl (ds @ [d]) @ ADecl e' # post \<and> same_decl e0 e' \<and> copies_ok as e0 pre post (ds @ [d]) \<and>
     d = e\<lparr>ad_prop := a @ ad_prop e, ad_before := ad_before d\<rparr>"
proof -
  let ?ns = "pre @ map ADecl ds @ ADecl e # post"
  have ins: "ap_insert cascade a ps ?ns (length pre + length ds) e = (True, ns')"
    using assms(1) by (auto simp: ap_add_def split: if_splits)
  then have new: "\<not> has_decl ?ns (a @ ad_prop e) (ad_value e)"
    by (auto simp: ap_insert_def prefixed_def Let_def split: if_splits)
  obtain b e1 where b: "needCascade cascade e = (b, e1)" by fastforce
  obtain bf e2 where bf: "(if b then calcBefore ps e1 a else (ad_before e, e1)) = (bf, e2)" by fastforce
  have s2: "same_decl e0 e2"
    using needCascade_same [OF b] calcBefore_same [of ps e1 a bf e2] bf assms(3) by (auto simp: same_decl_def split: if_splits)
  define d where "d = e\<lparr>ad_prop := a @ ad_prop e, ad_before := bf\<rparr>"
  have "ns' = pre @ map ADecl (ds @ [d]) @ ADecl e2 # post"
    using ins new b bf by (auto simp: ap_insert_def prefixed_def Let_def d_def split: if_splits)
  moreover have "copies_ok as e0 pre post (ds @ [d])"
  proof -
    have d: "ad_prop d = a @ ad_prop e0" "ad_value d = ad_value e0" using assms(3) by (simp_all add: d_def same_decl_def)
    have "\<not> has_decl ?ns (ad_prop d) (ad_value d)" using new by (simp add: d_def)
    then have n: "\<not> has_decl pre (ad_prop d) (ad_value d)" "\<not> has_decl (map ADecl ds) (ad_prop d) (ad_value d)"
      "\<not> has_decl post (ad_prop d) (ad_value d)" "\<not> (ad_prop e = ad_prop d \<and> ad_value e = ad_value d)" by auto
    have "\<not> has_decl (pre @ ADecl e0 # post) (ad_prop d) (ad_value d)"
      using n(1,3,4) assms(3) by (simp add: same_decl_def)
    moreover have "ad_prop d \<notin> ad_prop ` set ds"
    proof
      assume "ad_prop d \<in> ad_prop ` set ds"
      then obtain d' where d': "d' \<in> set ds" "ad_prop d' = ad_prop d" by force
      with assms(2) have "ad_value d' = ad_value d" unfolding copies_ok_def copy_ok_def d(2) by blast
      with d' n(2) show False unfolding has_decl_copies by blast
    qed
    moreover have "copy_ok as e0 pre post d" using calculation(1) assms(4) d unfolding copy_ok_def by blast
    ultimately show ?thesis using assms(2) unfolding copies_ok_def by simp
  qed
  ultimately show ?thesis using s2 d_def by (intro exI [of _ d] exI [of _ e2]) simp
qed

lemma ap_add_refused: "ap_add norm cascade a ps ns idx e = (False, ns') \<Longrightarrow> ns' = ns"
  by (auto simp: ap_add_def ap_insert_def Let_def split: if_splits prod.splits)

lemma ap_loop_shape:
  assumes "ap_loop norm cascade bs s (pre @ map ADecl ds @ ADecl e # post) (length pre + length ds) = (s', ns', idx')"
    "copies_ok as e0 pre post ds" "same_decl e0 e" "set bs \<subseteq> set as"
  shows "\<exists>ds' e'. ns' = pre @ map ADecl ds' @ ADecl e' # post \<and> idx' = length pre + length ds' \<and> same_decl e0 e' \<and> copies_ok as e0 pre post ds'"
  using assms
proof (induction bs arbitrary: s ds e)
  case (Cons b bs)
  have at: "decl_at (pre @ map ADecl ds @ ADecl e # post) (length pre + length ds) = Some e"
    using decl_at_append [of "pre @ map ADecl ds" e post] by simp
  obtain r ns1 where r: "ap_add norm cascade b (s @ [b]) (pre @ map ADecl ds @ ADecl e # post) (length pre + length ds) e = (r, ns1)"
    by fastforce
  show ?case
  proof (cases r)
    case True
    with r have r': "ap_add norm cascade b (s @ [b]) (pre @ map ADecl ds @ ADecl e # post) (length pre + length ds) e = (True, ns1)"
      by simp
    from ap_add_shape [OF r' Cons.prems(2,3)] Cons.prems(4) obtain d e' where
      d: "ns1 = pre @ map ADecl (ds @ [d]) @ ADecl e' # post" "same_decl e0 e'" "copies_ok as e0 pre post (ds @ [d])" by auto
    from Cons.IH [of "s @ [b]" "ds @ [d]" e'] Cons.prems(1,4) d at r True show ?thesis by simp
  next
    case False
    with ap_add_refused [of norm cascade b "s @ [b]"] r have "ns1 = pre @ map ADecl ds @ ADecl e # post" by simp
    with Cons at r False show ?thesis by simp
  qed
qed auto

text \<open>
  C40. Prefixing a declaration only adds prefixed copies of it, right before it: the other children of
  the block keep their place and content, the declaration keeps its name and value, each copy has its
  value and its name with one of the requested prefixes, and no copy repeats a declaration of
  the block or another copy.
\<close>

theorem prefixing_only_adds:
  assumes "decl_at ns idx = Some e"
  shows "\<exists>ds e'. ap_process norm cascade prefixes outer ns idx = take idx ns @ map ADecl ds @ ADecl e' # drop (Suc idx) ns \<and>
     ad_prop e' = ad_prop e \<and> ad_value e' = ad_value e \<and> distinct (map ad_prop ds) \<and>
     list_all (\<lambda>d. ad_value d = ad_value e \<and> list_ex (\<lambda>a. ad_prop d = a @ ad_prop e) prefixes \<and>
        \<not> has_decl ns (ad_prop d) (ad_value d)) ds"
proof -
  from decl_at_nth [OF assms] have i: "idx < length ns" "ns ! idx = ADecl e" by auto
  obtain b e1 where b: "needCascade cascade e = (b, e1)" by fastforce
  have s1: "same_decl e e1" using needCascade_same [OF b] by simp
  let ?pre = "take idx ns" and ?post = "drop (Suc idx) ns"
  have ns: "set_decl ns idx e1 = ?pre @ map ADecl [] @ ADecl e1 # ?post" "ns = ?pre @ ADecl e # ?post"
    using i by (simp_all add: set_decl_def upd_conv_take_nth_drop id_take_nth_drop [symmetric] flip: i(2))
  obtain added ns' idx' where sp: "super_process norm cascade prefixes outer (set_decl ns idx e1) idx e1 = (added, ns', idx')"
    by (metis prod_cases3)
  have ok0: "copies_ok prefixes e ?pre ?post []" by (simp add: copies_ok_def)
  obtain bs where bs: "set bs \<subseteq> set prefixes" "ap_loop norm cascade bs [] (?pre @ map ADecl [] @ ADecl e1 # ?post) (length ?pre + length ([] :: ap_decl list)) = (added, ns', idx')"
    using sp i unfolding super_process_def Let_def ns(1) by (auto intro: that [OF filter_is_subset])
  from ap_loop_shape [of norm cascade bs "[]" ?pre "[]", OF bs(2) ok0 s1 bs(1)] obtain ds e2 where
    l: "ns' = ?pre @ map ADecl ds @ ADecl e2 # ?post" "idx' = length ?pre + length ds" "same_decl e e2" "copies_ok prefixes e ?pre ?post ds" by auto
  have at: "decl_at ns' idx' = Some e2" using l decl_at_append [of "?pre @ map ADecl ds" e2 ?post] by simp
  have res: "\<exists>e'. ap_process norm cascade prefixes outer ns idx = ?pre @ map ADecl ds @ ADecl e' # ?post \<and> same_decl e e'"
  proof (cases "\<not> b \<or> added = []")
    case True
    with assms b sp l show ?thesis by (auto simp: ap_process_def)
  next
    case False
    obtain bf e4 where c: "calcBefore added (restoreBefore norm ns' idx' e2) [] = (bf, e4)" by fastforce
    have "same_decl e (e4\<lparr>ad_before := bf\<rparr>)"
      using calcBefore_same [OF c] l(3) by (simp add: same_decl_def restoreBefore_def Let_def)
    moreover have "set_decl ns' idx' x = ?pre @ map ADecl ds @ ADecl x # ?post" for x
      unfolding set_decl_def l(1,2) using list_update_length [of "?pre @ map ADecl ds" "ADecl e2" ?post "ADecl x"] by simp
    ultimately show ?thesis using assms b sp at c False by (auto simp: ap_process_def Let_def)
  qed
  with l(4) ns(2) show ?thesis
    by (auto simp: copies_ok_def copy_ok_def same_decl_def list_all_iff list_ex_iff)
qed

definition demo_decl :: ap_decl where
  "demo_decl = \<lparr>ad_prop = ''appearance'', ad_value = ''none'', ad_before = [newline] @ ''  '', ad_cascade = False, ad_max = 0\<rparr>"

theorem prefixing_only_adds_witness:
  "\<exists>ds e'. ap_process id True [''-webkit-'', ''-moz-''] None [AOther, ADecl demo_decl] 1 = AOther # map ADecl ds @ [ADecl e'] \<and>
     ad_prop e' = ''appearance'' \<and> distinct (map ad_prop ds)"
proof -
  have "decl_at [AOther, ADecl demo_decl] 1 = Some demo_decl" by simp
  from prefixing_only_adds [OF this, of id True "[''-webkit-'', ''-moz-'']" None] show ?thesis
    by (auto simp: demo_decl_def)
qed

end
