(* ===== verification/Tw_Candidates.thy ===== *)
theory Tw_Candidates
  imports Js_Text
begin

text \<open>
  From class names to utilities (the module of \<^verbatim>\<open>generateRules\<close> in \<^verbatim>\<open>tailwind.js\<close>): splitting a candidate
  into variants and a utility (\<open>ve\<close>), the ways of reading the utility as a name and a value (\<^verbatim>\<open>B_\<close>), the
  plugins they name (\<^verbatim>\<open>G_\<close>), the choice between several of them for an arbitrary value, and the caches of
  \<^verbatim>\<open>generateRules\<close> (\<^verbatim>\<open>ps\<close>).  The normalisation and the check of arbitrary values and the plugins' own rules are
  arguments.  A set is the list of its elements in insertion order.
\<close>

section \<open>Splitting at the top level\<close>

definition open_bracket :: "char \<Rightarrow> bool" where
  "open_bracket c \<longleftrightarrow> c = CHR ''('' \<or> c = CHR ''['' \<or> c = CHR ''{''"

definition closes_bracket :: "char \<Rightarrow> char \<Rightarrow> bool" where
  "closes_bracket d c \<longleftrightarrow> c = CHR '')'' \<and> d = CHR ''('' \<or> c = CHR '']'' \<and> d = CHR ''['' \<or> c = CHR ''}'' \<and> d = CHR ''{''"

text \<open>The open brackets, the innermost first.\<close>

definition ve_stack :: "char \<Rightarrow> string \<Rightarrow> string" where
  "ve_stack c t = (if open_bracket c then c # t else case t of d # u \<Rightarrow> if closes_bracket d c then u else t | [] \<Rightarrow> [])"

abbreviation backslash :: char where "backslash \<equiv> CHR 0x5C"

definition ve_cut :: "string \<Rightarrow> string \<Rightarrow> bool \<Rightarrow> string \<Rightarrow> bool" where
  "ve_cut e t s cs \<longleftrightarrow> t = [] \<and> \<not> s \<and> e \<noteq> [] \<and> cs \<noteq> [] \<and> has_prefix cs e"

fun ve_loop :: "string \<Rightarrow> string \<Rightarrow> string \<Rightarrow> nat \<Rightarrow> nat \<Rightarrow> string \<Rightarrow> bool \<Rightarrow> string list" where
  "ve_loop e r [] a n t s = [drop n r]"
| "ve_loop e r (c # cs) a n t s =
     (let rest = (\<lambda>n. ve_loop e r cs (a + 1) n (ve_stack c t) (if s then False else c = backslash))
      in if ve_cut e t s (c # cs) then js_slice r (int n) (int a) # rest (a + length e) else rest n)"

definition ve :: "string \<Rightarrow> string \<Rightarrow> string list" where
  "ve r e = ve_loop e r r 0 0 [] False"

section \<open>Balanced values\<close>

definition quote_mark :: "char \<Rightarrow> bool" where
  "quote_mark c \<longleftrightarrow> c = CHR 0x22 \<or> c = CHR 0x27 \<or> c = CHR 0x60"

definition close_bracket :: "char \<Rightarrow> bool" where
  "close_bracket c \<longleftrightarrow> c = CHR '')'' \<or> c = CHR '']'' \<or> c = CHR ''}''"

text \<open>\<open>p\<close>: the character before is a backslash; \<open>q\<close>: inside quotes.\<close>

fun hr_loop :: "string \<Rightarrow> bool \<Rightarrow> bool \<Rightarrow> string \<Rightarrow> bool" where
  "hr_loop [] p q e \<longleftrightarrow> e = []"
| "hr_loop (c # cs) p q e \<longleftrightarrow>
     (if c = CHR '':'' \<and> \<not> q \<and> e = [] then False
      else let q' = (if quote_mark c \<and> \<not> p then \<not> q else q) in
        if \<not> q' \<and> \<not> p \<and> open_bracket c then hr_loop cs (c = backslash) q' (c # e)
        else if \<not> q' \<and> \<not> p \<and> close_bracket c then
          (case e of d # f \<Rightarrow> closes_bracket d c \<and> hr_loop cs (c = backslash) q' f | [] \<Rightarrow> False)
        else hr_loop cs (c = backslash) q' e)"

definition hr :: "string \<Rightarrow> bool" where
  "hr r = hr_loop r False False []"

section \<open>Reading a utility\<close>

text \<open>\<^verbatim>\<open>r.lastIndexOf(c, k)\<close>.\<close>

fun last_upto :: "char \<Rightarrow> string \<Rightarrow> nat \<Rightarrow> nat option" where
  "last_upto c r 0 = (if r \<noteq> [] \<and> r ! 0 = c then Some 0 else None)"
| "last_upto c r (Suc k) = (if Suc k < length r \<and> r ! Suc k = c then Some (Suc k) else last_upto c r k)"

lemma last_upto_le: "last_upto c r k = Some t \<Longrightarrow> t \<le> k \<and> t < length r \<and> r ! t = c"
  by (induction k) (auto split: if_splits)

text \<open>What is yielded for a cut at \<open>t\<close>; \<open>i\<close>: the rest keeps the character of the cut.\<close>

definition permutation :: "string \<Rightarrow> nat \<Rightarrow> bool \<Rightarrow> (string \<times> string) list" where
  "permutation r t i =
     (let n = take t r; s = drop (if i then t else t + 1) r in if n = [] \<or> s = ''/'' then [] else [(n, s)])"

text \<open>The cuts at dashes, from the last one at \<open>k\<close> or before.\<close>

function dashes :: "string \<Rightarrow> nat \<Rightarrow> (string \<times> string) list" where
  "dashes r k =
     (case last_upto (CHR ''-'') r k of
        None \<Rightarrow> []
      | Some t \<Rightarrow> permutation r t False @ (if t = 0 then [] else dashes r (t - 1)))"
  by pat_completeness auto
termination by (relation "measure snd") (auto dest: last_upto_le)

declare dashes.simps [simp del]

text \<open>The first cut: before an arbitrary value, at the last slash, or at the last dash.\<close>

definition first_cut :: "string \<Rightarrow> (nat \<times> bool) option" where
  "first_cut r =
     (if r \<noteq> [] \<and> last r = CHR '']'' then
        (case index_from r ''['' 0 of
           Some a \<Rightarrow>
             if a > 0 \<and> r ! (a - 1) = CHR ''-'' then Some (a - 1, False)
             else if a > 0 \<and> r ! (a - 1) = CHR ''/'' then Some (a - 1, True)
             else None
         | None \<Rightarrow> None)
      else if CHR ''/'' \<in> set r then map_option (\<lambda>t. (t, True)) (last_upto (CHR ''/'') r (length r))
      else map_option (\<lambda>t. (t, False)) (last_upto (CHR ''-'') r (length r)))"

definition candidatePermutations :: "string \<Rightarrow> (string \<times> string) list" where
  "candidatePermutations r = (case first_cut r of
             None \<Rightarrow> []
           | Some (t, i) \<Rightarrow> permutation r t i @ (if t = 0 then [] else dashes r (t - 1)))"

text \<open>The class of a name and a value (\<^verbatim>\<open>formatClass\<close>).\<close>

definition formatClass :: "string \<Rightarrow> string \<Rightarrow> string" where
  "formatClass r e =
     (if e = ''DEFAULT'' then r
      else if e = ''-'' \<or> e = ''-DEFAULT'' then CHR ''-'' # r
      else if has_prefix e ''-'' then CHR ''-'' # r @ e
      else if has_prefix e ''/'' then r @ e
      else r @ ''-'' @ e)"

section \<open>The plugins a utility names\<close>

text \<open>\<^verbatim>\<open>/^\[([a-zA-Z0-9-_]+):(\S+)\]$/\<close>: an arbitrary property and its value.\<close>

definition property_char :: "char \<Rightarrow> bool" where
  "property_char c \<longleftrightarrow>
     (let n = (of_char c :: nat) in 65 \<le> n \<and> n \<le> 90 \<or> 97 \<le> n \<and> n \<le> 122 \<or> 48 \<le> n \<and> n \<le> 57 \<or> c = CHR ''-'' \<or> c = CHR ''_'')"

definition arbitrary_parts :: "string \<Rightarrow> (string \<times> string) option" where
  "arbitrary_parts r =
     (case r of
        c # cs \<Rightarrow>
          if c = CHR ''['' \<and> cs \<noteq> [] \<and> last cs = CHR '']'' then
            (let n = takeWhile property_char cs in
             case dropWhile property_char cs of
               d # v \<Rightarrow>
                 if n \<noteq> [] \<and> d = CHR '':'' \<and> butlast v \<noteq> [] \<and> list_all (\<lambda>c. \<not> js_space c) (butlast v)
                 then Some (n, butlast v) else None
             | [] \<Rightarrow> None)
          else None
      | [] \<Rightarrow> None)"

definition property_start :: "char \<Rightarrow> bool" where
  "property_start c \<longleftrightarrow> (let n = (of_char c :: nat) in 97 \<le> n \<and> n \<le> 122 \<or> c = CHR ''_'' \<or> c = CHR ''-'')"

text \<open>\<open>normal\<close> normalises a value, \<open>parsable\<close> tells whether the declaration can be parsed (and is no address).\<close>

definition extractArbitraryProperty :: "(string \<Rightarrow> string \<Rightarrow> string) \<Rightarrow> (string \<Rightarrow> string \<Rightarrow> bool) \<Rightarrow> string \<Rightarrow> (string \<times> string) option" where
  "extractArbitraryProperty normal parsable r =
     (case arbitrary_parts r of
        None \<Rightarrow> None
      | Some (t, i) \<Rightarrow>
          if \<not> property_start (hd t) \<or> \<not> hr i then None
          else let n = normal t i in if parsable t n then Some (t, n) else None)"

text \<open>
  \<open>look\<close> is the map of the rules, \<open>arbitrary\<close> the rule of an arbitrary property.  A name with a dash in front,
  after the prefix or before it, is looked up without it, and its values are negative.
\<close>

definition negative :: "string \<Rightarrow> string \<Rightarrow> bool" where
  "negative prefix r \<longleftrightarrow>
     length prefix < length r \<and> r ! length prefix = CHR ''-'' \<and> (has_prefix r prefix \<or> has_prefix r (CHR ''-'' # prefix))"

definition plain_name :: "string \<Rightarrow> string \<Rightarrow> string" where
  "plain_name prefix r = (if negative prefix r then prefix @ drop (length prefix + 1) r else r)"

definition found :: "(string \<Rightarrow> 'u option) \<Rightarrow> string \<Rightarrow> string \<Rightarrow> ('u \<times> string) list" where
  "found look n v = (case look n of Some u \<Rightarrow> [(u, v)] | None \<Rightarrow> [])"

definition resolveMatchedPlugins :: "(string \<Rightarrow> 'u option) \<Rightarrow> (string \<Rightarrow> 'u option) \<Rightarrow> string \<Rightarrow> string \<Rightarrow> ('u \<times> string) list" where
  "resolveMatchedPlugins look arbitrary prefix r =
     (let t = plain_name prefix r; i = negative prefix r in
      found look r ''DEFAULT'' @ found arbitrary r ''DEFAULT'' @ (if i then found look t ''-DEFAULT'' else []) @
      concat (map (\<lambda>(n, v). found look n (if i then CHR ''-'' # v else v)) (candidatePermutations t)))"

section \<open>Arbitrary values of several utilities\<close>

record ('s, 'n) match =
  mt_sort :: 's
  mt_respectImportant :: bool
  mt_types :: "(string \<times> bool) list" \<comment> \<open>accepted types, each with \<^verbatim>\<open>preferOnConflict\<close>\<close>
  mt_node :: 'n

definition is_arbitrary :: "string \<Rightarrow> bool" where
  "is_arbitrary r \<longleftrightarrow> r \<noteq> [] \<and> hd r = CHR ''['' \<and> last r = CHR '']''"

text \<open>
  An option: the rules a plugin makes of the value, and the types of its that the value has.  There is one, as the
  plugin made rules; the code would fail on a value without a type.
\<close>

type_synonym ('s, 'n) choice = "('s, 'n) match list \<times> string list"

definition accepts_any :: "('s, 'n) choice \<Rightarrow> bool" where
  "accepts_any x \<longleftrightarrow> list_ex (\<lambda>m. list_ex (\<lambda>(t, b). t = ''any'') (mt_types m)) (fst x)"

definition preferred :: "('n \<Rightarrow> bool) \<Rightarrow> ('s, 'n) choice \<Rightarrow> bool" where
  "preferred valid x \<longleftrightarrow>
     list_ex (\<lambda>m. valid (mt_node m) \<and> list_ex (\<lambda>(t, b). t \<in> set (snd x) \<and> b) (mt_types m)) (fst x)"

definition findByType :: "('n \<Rightarrow> bool) \<Rightarrow> ('s, 'n) choice list \<Rightarrow> ('s, 'n) choice option" where
  "findByType valid y = (case y of [x] \<Rightarrow> Some x | _ \<Rightarrow> find (preferred valid) y)"

definition pick_choice :: "('n \<Rightarrow> bool) \<Rightarrow> ('s, 'n) choice list \<Rightarrow> ('s, 'n) choice option" where
  "pick_choice valid opts =
     (case findByType valid (filter (\<lambda>x. \<not> accepts_any x) opts) of
        Some x \<Rightarrow> Some x
      | None \<Rightarrow> findByType valid (filter accepts_any opts))"

text \<open>Types that several sets have are removed from all of them.\<close>

definition js_set :: "'a list \<Rightarrow> 'a list" where
  "js_set xs = rev (remdups (rev xs))"

definition drop_shared :: "nat \<Rightarrow> 'a \<Rightarrow> 'a list list \<Rightarrow> 'a list list" where
  "drop_shared i s ys =
     (let shared = list_ex (\<lambda>(j, t). j \<noteq> i \<and> s \<in> set t) (enumerate 0 ys)
      in map (\<lambda>(j, t). if j \<noteq> i \<or> shared then removeAll s t else t) (enumerate 0 ys))"

fun drop_shared_of :: "nat \<Rightarrow> 'a list \<Rightarrow> 'a list list \<Rightarrow> 'a list list" where
  "drop_shared_of i [] ys = ys"
| "drop_shared_of i (s # ss) ys = drop_shared_of i ss (drop_shared i s ys)"

definition distinguishing_types :: "'a list list \<Rightarrow> 'a list list" where
  "distinguishing_types ys = foldl (\<lambda>zs i. drop_shared_of i (zs ! i) zs) ys [0..<length ys]"

fun replace_first :: "char \<Rightarrow> string \<Rightarrow> string \<Rightarrow> string" where
  "replace_first c s [] = []"
| "replace_first c s (x # xs) = (if x = c then s @ xs else x # replace_first c s xs)"

text \<open>The declarations of the rules, indented.\<close>

definition rule_lines :: "('n \<Rightarrow> string) \<Rightarrow> ('s, 'n) match list \<Rightarrow> string" where
  "rule_lines show ms =
     join_with [newline, newline]
       (map (\<lambda>m. join_with [newline] (map (\<lambda>l. ''      '' @ js_trim l) (js_slice (split_on newline (show (mt_node m))) 1 (- 1)))) ms)"

definition suggestion :: "('n \<Rightarrow> string) \<Rightarrow> string \<Rightarrow> ('s, 'n) choice \<times> string list \<Rightarrow> string list" where
  "suggestion show r x =
     (case snd x of
        [] \<Rightarrow> []
      | t # _ \<Rightarrow> [''  Use `'' @ replace_first (CHR ''['') (''['' @ t @ '':'') r @ ''` for `'' @ js_trim (rule_lines show (fst (fst x))) @ ''`''])"

definition ambiguity_warning :: "('n \<Rightarrow> string) \<Rightarrow> string \<Rightarrow> ('s, 'n) choice list \<Rightarrow> string list" where
  "ambiguity_warning show r opts =
     [''The class `'' @ r @ ''` is ambiguous and matches multiple utilities.''] @
     concat (map (suggestion show r) (zip opts (distinguishing_types (map (\<lambda>x. js_set (snd x)) opts)))) @
     [''If this is content and not a class, replace it with `'' @
        replace_first (CHR '']'') ''&rsqb;'' (replace_first (CHR ''['') ''&lsqb;'' r) @ ''` to silence this warning.'']"

text \<open>The rules that are used, or the lines of a warning.\<close>

definition resolve_choice ::
  "('n \<Rightarrow> bool) \<Rightarrow> ('n \<Rightarrow> string) \<Rightarrow> string \<Rightarrow> string \<Rightarrow> ('s, 'n) choice list \<Rightarrow> string list + ('s, 'n) match list" where
  "resolve_choice valid show r f opts =
     (if \<not> is_arbitrary f then Inr (concat (map fst opts))
      else if length opts > 1 then
        (case pick_choice valid opts of
           Some x \<Rightarrow> Inr (filter (\<lambda>m. valid (mt_node m)) (fst x))
         | None \<Rightarrow> Inl (ambiguity_warning show r opts))
      else Inr (concat (map (\<lambda>x. filter (\<lambda>m. valid (mt_node m)) (fst x)) opts)))"

section \<open>All the rules of a candidate\<close>

text \<open>
  \<open>run\<close> makes the rules of a plugin for a value, \<open>types\<close> its types that the value has; \<open>finish\<close> applies the
  important mark, the prefix, the variants (the innermost first) and the final selector.
\<close>

definition plugin_choices ::
  "('p \<Rightarrow> string \<Rightarrow> bool \<Rightarrow> ('s, 'n) match list) \<Rightarrow> ('p \<Rightarrow> string \<Rightarrow> string list) \<Rightarrow> 'p list \<Rightarrow> string \<Rightarrow> ('s, 'n) choice list" where
  "plugin_choices run types ps f =
     filter (\<lambda>x. fst x \<noteq> []) (map (\<lambda>p. (run p f (length ps = 1), types p f)) ps)"

definition resolveMatches ::
  "(string \<Rightarrow> 'p list option) \<Rightarrow> (string \<Rightarrow> 'p list option) \<Rightarrow> string \<Rightarrow> string \<Rightarrow>
   ('p \<Rightarrow> string \<Rightarrow> bool \<Rightarrow> ('s, 'n) match list) \<Rightarrow> ('p \<Rightarrow> string \<Rightarrow> string list) \<Rightarrow> ('n \<Rightarrow> bool) \<Rightarrow> ('n \<Rightarrow> string) \<Rightarrow>
   (bool \<Rightarrow> string list \<Rightarrow> string \<Rightarrow> ('s, 'n) match list \<Rightarrow> ('s, 'n) match list) \<Rightarrow>
   string \<Rightarrow> ('s, 'n) match list \<times> string list list" where
  "resolveMatches look arbitrary prefix separator run types valid show finish r =
     (let parts = rev (ve r separator); important = has_prefix (hd parts) ''!'';
          i = (if important then tl (hd parts) else hd parts);
          results = map (\<lambda>(ps, f). resolve_choice valid show r f (plugin_choices run types ps f))
                      (resolveMatchedPlugins look arbitrary prefix i)
      in (concat (map (\<lambda>x. case x of Inr ms \<Rightarrow> finish important (tl parts) i ms | Inl w \<Rightarrow> []) results),
          concat (map (\<lambda>x. case x of Inr ms \<Rightarrow> [] | Inl w \<Rightarrow> [w]) results)))"

section \<open>The caches\<close>

record ('s, 'n, 'c) gen_context =
  gc_notClass :: "string list"
  gc_candidateRules :: "(string, ('s \<times> 'n) list) gomap"
  gc_classCache :: "(string, ('s, 'n) match list) gomap"
  gc_rules :: "('s \<times> 'n) list"
  gc_rest :: 'c \<comment> \<open>what resolving a candidate changes\<close>

definition match_rule :: "('n \<Rightarrow> 'n) option \<Rightarrow> ('s, 'n) match \<Rightarrow> 's \<times> 'n" where
  "match_rule important m =
     (mt_sort m, case important of Some f \<Rightarrow> (if mt_respectImportant m then f (mt_node m) else mt_node m) | None \<Rightarrow> mt_node m)"

text \<open>\<open>resolve\<close> is \<open>resolveMatches\<close>, with its effects on the rest of the context.\<close>

definition generate_one ::
  "(string \<Rightarrow> 'c \<Rightarrow> ('s, 'n) match list \<times> 'c) \<Rightarrow> ('n \<Rightarrow> 'n) option \<Rightarrow> string \<Rightarrow> ('s, 'n, 'c) gen_context \<Rightarrow>
   ('s \<times> 'n) list \<times> ('s, 'n, 'c) gen_context" where
  "generate_one resolve important s e =
     (if s \<in> set (gc_notClass e) then ([], e)
      else case gget (gc_candidateRules e) s of
        Some rs \<Rightarrow> (rs, e)
      | None \<Rightarrow>
          (case resolve s (gc_rest e) of
             (ms, c) \<Rightarrow>
               if ms = [] then ([], e\<lparr>gc_notClass := gc_notClass e @ [s], gc_rest := c\<rparr>)
               else let rs = map (match_rule important) ms in
                 (rs, e\<lparr>gc_classCache := gput s ms (gc_classCache e), gc_candidateRules := gput s rs (gc_candidateRules e),
                        gc_rules := gc_rules e @ rs, gc_rest := c\<rparr>)))"

fun generateRules ::
  "(string \<Rightarrow> 'c \<Rightarrow> ('s, 'n) match list \<times> 'c) \<Rightarrow> ('n \<Rightarrow> 'n) option \<Rightarrow> string list \<Rightarrow> ('s, 'n, 'c) gen_context \<Rightarrow>
   ('s \<times> 'n) list \<times> ('s, 'n, 'c) gen_context" where
  "generateRules resolve important [] e = ([], e)"
| "generateRules resolve important (s # ss) e =
     (case generate_one resolve important s e of
        (rs, e1) \<Rightarrow> (case generateRules resolve important ss e1 of (qs, e2) \<Rightarrow> (rs @ qs, e2)))"

end
