(* ===== verification/Tw_Candidates_Laws.thy ===== *)
theory Tw_Candidates_Laws
  imports Tw_Candidates
begin

text \<open>
  The properties of \<open>Tw_Candidates\<close>: splitting at the top level is undone by joining, the readings of a
  utility are its cuts at dashes, the types that are suggested for an ambiguous class distinguish the
  utilities, and the caches resolve every class once.
\<close>

section \<open>Splitting at the top level\<close>

text \<open>The same scan with the characters of the current piece instead of its bounds.\<close>

fun pieces :: "char \<Rightarrow> string \<Rightarrow> string \<Rightarrow> bool \<Rightarrow> string \<Rightarrow> string list" where
  "pieces e w t s [] = [w]"
| "pieces e w t s (c # cs) =
     (if t = [] \<and> \<not> s \<and> c = e then w # pieces e [] (ve_stack c t) (if s then False else c = backslash) cs
      else pieces e (w @ [c]) (ve_stack c t) (if s then False else c = backslash) cs)"

lemma ve_cut_one: "ve_cut [e] t s (c # cs) \<longleftrightarrow> t = [] \<and> \<not> s \<and> c = e"
  by (auto simp: ve_cut_def has_prefix_def)

lemma ve_loop_pieces:
  assumes "r = p @ w @ cs"
  shows "ve_loop [e] r cs (length p + length w) (length p) t s = pieces e w t s cs"
  using assms
proof (induction cs arbitrary: p w t s)
  case (Cons c cs)
  have sl: "js_slice r (int (length p)) (int (length p + length w)) = w"
    by (simp add: js_slice_def slice_index_def Cons.prems)
  show ?case
  proof (cases "t = [] \<and> \<not> s \<and> c = e")
    case True
    have "ve_loop [e] r cs (length (p @ w @ [c]) + length ([] :: string)) (length (p @ w @ [c])) (ve_stack c t) False = pieces e [] (ve_stack c t) False cs" for s
      by (rule Cons.IH) (simp add: Cons.prems)
    moreover have "ve_loop [e] r cs (length (p @ w @ [c]) + length ([] :: string)) (length (p @ w @ [c])) (ve_stack c t) True = pieces e [] (ve_stack c t) True cs" for s
      by (rule Cons.IH) (simp add: Cons.prems)
    ultimately show ?thesis using True sl by (cases "c = backslash") (simp_all add: ve_cut_one Let_def)
  next
    case False
    have "ve_loop [e] r cs (length p + length (w @ [c])) (length p) (ve_stack c t) s' = pieces e (w @ [c]) (ve_stack c t) s' cs" for s'
      by (rule Cons.IH) (simp add: Cons.prems)
    from this [of False] this [of True] this [of "c = backslash"] False show ?thesis by (auto simp: ve_cut_one Let_def)
  qed
qed simp

lemma ve_pieces: "ve r [e] = pieces e [] [] False r"
  using ve_loop_pieces [of r "[]" "[]" r e "[]" False] by (simp add: ve_def)

lemma pieces_Cons: "\<exists>v vs. pieces e w t s cs = v # vs"
  by (induction cs arbitrary: w t s) auto

lemma join_pieces: "join_with [e] (pieces e w t s cs) = w @ cs"
proof (induction cs arbitrary: w t s)
  case (Cons c cs)
  show ?case
  proof (cases "t = [] \<and> \<not> s \<and> c = e")
    case True
    obtain v vs where v: "pieces e [] (ve_stack c t) (c = backslash) cs = v # vs" using pieces_Cons by blast
    have "join_with [e] (v # vs) = cs" using Cons.IH [of "[]" "ve_stack c t" "c = backslash"] by (simp add: v)
    with True v show ?thesis by simp
  qed (use Cons.IH in auto)
qed simp

text \<open>A text without a cut is one piece.\<close>

definition whole :: "char \<Rightarrow> string \<Rightarrow> bool \<Rightarrow> string \<Rightarrow> bool" where
  "whole e t s x \<longleftrightarrow> (\<forall>w. pieces e w t s x = [w @ x])"

lemma whole_Nil: "whole e t s []"
  by (simp add: whole_def)

lemma whole_Cons: "\<not> (t = [] \<and> \<not> s \<and> c = e) \<Longrightarrow> whole e (ve_stack c t) (if s then False else c = backslash) x \<Longrightarrow> whole e t s (c # x)"
  unfolding whole_def by (intro allI) (simp only: pieces.simps if_False append_assoc append_Cons append_Nil)

lemma pieces_whole:
  assumes "\<not> open_bracket e" "e \<noteq> backslash" "pieces e w t s cs = v # vs"
  shows "(\<exists>x. v = w @ x \<and> whole e t s x) \<and> (\<forall>u \<in> set vs. whole e [] False u)"
  using assms(3)
proof (induction cs arbitrary: w t s v vs)
  case Nil
  then show ?case using whole_Nil by auto
next
  case (Cons c cs)
  show ?case
  proof (cases "t = [] \<and> \<not> s \<and> c = e")
    case True
    then have st: "ve_stack c t = []" "(if s then False else c = backslash) = False" using assms(1,2) by (auto simp: ve_stack_def)
    obtain u us where u: "pieces e [] [] False cs = u # us" using pieces_Cons by blast
    have "v = w" "vs = u # us" using Cons.prems True st u by auto
    with Cons.IH [OF u] whole_Nil show ?thesis by auto
  next
    case False
    then have "pieces e (w @ [c]) (ve_stack c t) (if s then False else c = backslash) cs = v # vs" using Cons.prems by auto
    from Cons.IH [OF this] obtain x where x: "v = (w @ [c]) @ x" "whole e (ve_stack c t) (if s then False else c = backslash) x"
      "\<forall>u \<in> set vs. whole e [] False u" by blast
    from whole_Cons [OF False x(2)] x show ?thesis by auto
  qed
qed

text \<open>
  C33. Splitting a class at a separator of one character, which is neither an opening bracket nor a backslash,
  loses nothing and misses nothing: joining the pieces gives the class, and no piece can be split further.  (Nothing is
  said of longer separators: the pieces of \<open>a___b\<close> at \<open>__\<close> do not join to it.)
\<close>

theorem split_top_level:
  assumes "\<not> open_bracket e" "e \<noteq> backslash"
  shows "join_with [e] (ve r [e]) = r \<and> (\<forall>w \<in> set (ve r [e]). ve w [e] = [w])"
proof -
  obtain v vs where v: "pieces e [] [] False r = v # vs" using pieces_Cons by blast
  from pieces_whole [OF assms v] have "\<forall>w \<in> set (v # vs). whole e [] False w" by auto
  then show ?thesis using join_pieces [of e "[]" "[]" False r] by (auto simp: ve_pieces v whole_def)
qed

theorem split_top_level_witness:
  "ve ''hover:[&:nth-child(2)]:mt-4'' '':'' = [''hover'', ''[&:nth-child(2)]'', ''mt-4''] \<and>
   join_with '':'' (ve ''hover:[&:nth-child(2)]:mt-4'' '':'') = ''hover:[&:nth-child(2)]:mt-4''"
proof -
  have "\<not> open_bracket (CHR '':'')" by (simp add: open_bracket_def)
  then have "join_with '':'' (ve ''hover:[&:nth-child(2)]:mt-4'' '':'') = ''hover:[&:nth-child(2)]:mt-4''"
    using split_top_level [of "CHR '':''" "''hover:[&:nth-child(2)]:mt-4''"] by simp
  moreover have "ve ''hover:[&:nth-child(2)]:mt-4'' '':'' = [''hover'', ''[&:nth-child(2)]'', ''mt-4'']" by code_simp
  ultimately show ?thesis by blast
qed

section \<open>Reading a utility\<close>

lemma last_upto_None: "last_upto c r k = None \<Longrightarrow> j \<le> k \<Longrightarrow> j < length r \<Longrightarrow> r ! j \<noteq> c"
proof (induction k)
  case (Suc k)
  then show ?case by (cases "j = Suc k") (auto split: if_splits)
qed (auto split: if_splits)

lemma last_upto_last: "last_upto c r k = Some t \<Longrightarrow> t < j \<Longrightarrow> j \<le> k \<Longrightarrow> j < length r \<Longrightarrow> r ! j \<noteq> c"
proof (induction k)
  case (Suc k)
  then show ?case by (cases "j = Suc k") (auto split: if_splits)
qed (auto split: if_splits)

text \<open>The cuts at all the dashes after the first character, from the last.\<close>

definition dash_cuts :: "string \<Rightarrow> nat \<Rightarrow> (string \<times> string) list" where
  "dash_cuts r k = map (\<lambda>t. (take t r, drop (t + 1) r)) (filter (\<lambda>t. r ! t = CHR ''-'') (rev [1..<k]))"

lemma dash_cuts_skip:
  assumes "\<And>j. t < j \<Longrightarrow> j < k \<Longrightarrow> r ! j \<noteq> CHR ''-''" "t < k" "r ! t = CHR ''-''"
  shows "dash_cuts r k = (if t = 0 then [] else (take t r, drop (t + 1) r) # dash_cuts r t)"
proof -
  have u: "[1..<k] = [1..<t] @ (if t = 0 then [] else [t]) @ [t + 1..<k]"
  proof (cases "t = 0")
    case False
    then have "[1..<k] = [1..<t] @ [t..<k]" using assms(2) upt_add_eq_append [of 1 t "k - t"] by simp
    with False assms(2) show ?thesis by (simp add: upt_conv_Cons)
  qed simp
  have "filter (\<lambda>t. r ! t = CHR ''-'') (rev [t + 1..<k]) = []" using assms(1) by (auto simp: filter_empty_conv)
  then show ?thesis unfolding dash_cuts_def u using assms(3) by (simp add: rev_filter)
qed

lemma dashes_cuts:
  assumes "k < length r" "CHR ''/'' \<notin> set r"
  shows "dashes r k = dash_cuts r (k + 1)"
  using assms(1)
proof (induction k rule: less_induct)
  case (less k)
  have slash: "drop (Suc t) r \<noteq> ''/''" for t using assms(2) by (metis in_set_dropD list.set_intros(1))
  show ?case
  proof (cases "last_upto (CHR ''-'') r k")
    case None
    then have "dash_cuts r (k + 1) = []" using last_upto_None [OF None] less.prems by (auto simp: dash_cuts_def filter_empty_conv)
    with None show ?thesis by (simp add: dashes.simps [of r k])
  next
    case (Some t)
    note t = last_upto_le [OF Some]
    have c: "dash_cuts r (k + 1) = (if t = 0 then [] else (take t r, drop (t + 1) r) # dash_cuts r t)"
      by (rule dash_cuts_skip) (use last_upto_last [OF Some] less.prems t in auto)
    show ?thesis
    proof (cases "t = 0")
      case True
      then show ?thesis using Some c by (simp add: dashes.simps [of r k] permutation_def)
    next
      case False
      then have "t - 1 < k" "t - 1 < length r" using t by linarith+
      with less.IH [of "t - 1"] False have "dashes r (t - 1) = dash_cuts r t" by simp
      moreover have "take t r \<noteq> []" using False t by auto
      ultimately show ?thesis using False Some c slash by (simp add: dashes.simps [of r k] permutation_def Let_def)
    qed
  qed
qed

text \<open>What is yielded cuts the candidate.\<close>

definition reading_of :: "string \<Rightarrow> string \<times> string \<Rightarrow> bool" where
  "reading_of r x \<longleftrightarrow> fst x \<noteq> [] \<and> (r = fst x @ ''-'' @ snd x \<or> r = fst x @ snd x \<and> has_prefix (snd x) ''/'')"

lemma permutation_reading:
  assumes "x \<in> set (permutation r t i)" "t < length r" "r ! t = (if i then CHR ''/'' else CHR ''-'')"
  shows "reading_of r x"
proof -
  have d: "r = take t r @ r ! t # drop (Suc t) r" using assms(2) by (rule id_take_nth_drop)
  then have "drop t r = r ! t # drop (Suc t) r" using assms(2) by (simp add: Cons_nth_drop_Suc)
  then show ?thesis using assms(1,3) d by (auto simp: permutation_def Let_def reading_of_def has_prefix_def split: if_splits)
qed

lemma dashes_reading: "x \<in> set (dashes r k) \<Longrightarrow> reading_of r x"
proof (induction r k rule: dashes.induct)
  case (1 r k)
  show ?case
  proof (cases "last_upto (CHR ''-'') r k")
    case (Some t)
    with 1 permutation_reading [of x r t False] last_upto_le [OF Some] show ?thesis
      by (auto simp: dashes.simps [of r k] split: if_splits)
  qed (use 1 in \<open>simp add: dashes.simps [of r k]\<close>)
qed

lemma prefix_char: "has_prefix (drop i r) [c] \<Longrightarrow> i < length r \<and> r ! i = c"
proof (cases "drop i r")
  case (Cons x xs)
  moreover from Cons have "i < length r" by (metis drop_all list.distinct(1) not_le)
  moreover assume "has_prefix (drop i r) [c]"
  ultimately show ?thesis using hd_drop_conv_nth [of i r] by (auto simp: has_prefix_def)
qed (simp add: has_prefix_def)

lemma index_from_char: "index_from r [c] i = Some a \<Longrightarrow> a < length r \<and> r ! a = c \<and> i \<le> a"
proof (induction r "[c]" i rule: index_from.induct)
  case (1 r i)
  show ?case
  proof (cases "has_prefix (drop i r) [c] \<and> i \<le> length r")
    case True
    then have "a = i" using "1.prems" by (simp add: index_from.simps)
    moreover have "i < length r" "r ! i = c" using True prefix_char by auto
    ultimately show ?thesis by simp
  next
    case False
    with 1 show ?thesis by (auto simp: index_from.simps [of r "[c]" i] split: if_splits)
  qed
qed

lemma first_cut_char: "first_cut r = Some (t, i) \<Longrightarrow> t < length r \<and> r ! t = (if i then CHR ''/'' else CHR ''-'')"
  unfolding first_cut_def
  by (auto dest: last_upto_le index_from_char split: if_splits option.splits)

lemma candidatePermutations_reading:
  assumes "x \<in> set (candidatePermutations r)"
  shows "reading_of r x"
proof (cases "first_cut r")
  case (Some y)
  obtain t i where y: "y = (t, i)" by fastforce
  with Some assms have "x \<in> set (permutation r t i) \<or> x \<in> set (dashes r (t - 1))" by (auto simp: candidatePermutations_def split: if_splits)
  with permutation_reading [of x r t i] first_cut_char [of r t i] dashes_reading [of x r "t - 1"] Some y show ?thesis by auto
qed (use assms in \<open>simp add: candidatePermutations_def\<close>)

lemma prefix_split: "has_prefix s p \<Longrightarrow> \<exists>t. s = p @ t"
  unfolding has_prefix_def by (metis append_take_drop_id)

lemma contains_middle: "contains (a @ b @ d) b"
proof (induction a)
  case Nil
  have "has_prefix (b @ d) b" by (simp add: has_prefix_def)
  then show ?case by (cases "b @ d") (auto simp: has_prefix_def)
qed auto

lemma formatClass_reading:
  assumes "reading_of r (n, v)" "v \<noteq> ''DEFAULT''" "\<not> has_prefix v ''-''" "\<not> contains r ''-/''"
  shows "formatClass n v = r"
proof -
  have v: "v \<noteq> ''-''" "v \<noteq> ''-DEFAULT''" using assms(3) by (auto simp: has_prefix_def)
  show ?thesis
  proof (cases "has_prefix v ''/''")
    case True
    then obtain u where u: "v = ''/'' @ u" using prefix_split by blast
    have "r \<noteq> n @ ''-'' @ v" using contains_middle [of n "''-/''" u] assms(4) u by auto
    then show ?thesis using assms True v by (auto simp: reading_of_def formatClass_def)
  qed (use assms v in \<open>auto simp: reading_of_def formatClass_def\<close>)
qed

text \<open>
  C34. The ways a utility is read as a name and a value: each is a cut of the utility at a dash or in front of
  a slash, with a name that is not empty.  The class made of name and value is the utility again, with three
  exceptions: the value \<open>DEFAULT\<close> stands for none, a value that starts with a dash for a negative one, and a utility
  with a dash right before a slash (\<open>bg-/50\<close>, read as \<open>bg\<close> and \<open>/50\<close>) loses the dash.  Of a utility that has no
  slash and does not end in a bracket the readings are the cuts at all dashes after its first character, the longest name
  first.
\<close>

theorem utility_readings:
  "(\<forall>(n, v) \<in> set (candidatePermutations r).
      n \<noteq> [] \<and> (r = n @ ''-'' @ v \<or> r = n @ v \<and> has_prefix v ''/'') \<and>
      (v \<noteq> ''DEFAULT'' \<and> \<not> has_prefix v ''-'' \<and> \<not> contains r ''-/'' \<longrightarrow> formatClass n v = r)) \<and>
   (r \<noteq> [] \<and> last r \<noteq> CHR '']'' \<and> CHR ''/'' \<notin> set r \<longrightarrow>
      candidatePermutations r =
        map (\<lambda>t. (take t r, drop (t + 1) r)) (filter (\<lambda>t. r ! t = CHR ''-'') (rev [1..<length r])))"
proof (intro conjI ballI impI)
  fix x
  assume "x \<in> set (candidatePermutations r)"
  from candidatePermutations_reading [OF this] formatClass_reading [of r "fst x" "snd x"]
  show "case x of (n, v) \<Rightarrow> n \<noteq> [] \<and> (r = n @ ''-'' @ v \<or> r = n @ v \<and> has_prefix v ''/'') \<and>
      (v \<noteq> ''DEFAULT'' \<and> \<not> has_prefix v ''-'' \<and> \<not> contains r ''-/'' \<longrightarrow> formatClass n v = r)"
    by (auto simp: reading_of_def split: prod.split)
next
  assume r: "r \<noteq> [] \<and> last r \<noteq> CHR '']'' \<and> CHR ''/'' \<notin> set r"
  define k where "k = length r - 1"
  have k: "k < length r" "k + 1 = length r" using r by (simp_all add: k_def Suc_leI)
  have "candidatePermutations r = dashes r k"
  proof -
    have "last_upto (CHR ''-'') r (length r) = last_upto (CHR ''-'') r k" using last_upto.simps(2) [of "CHR ''-''" r k] by (simp flip: k(2))
    moreover have "first_cut r = map_option (\<lambda>t. (t, False)) (last_upto (CHR ''-'') r (length r))" using r by (simp add: first_cut_def)
    ultimately show ?thesis
      by (cases "last_upto (CHR ''-'') r k") (simp_all add: candidatePermutations_def dashes.simps [of r k])
  qed
  also have "\<dots> = dash_cuts r (length r)" using dashes_cuts [OF k(1)] r k(2) by simp
  finally show "candidatePermutations r =
        map (\<lambda>t. (take t r, drop (t + 1) r)) (filter (\<lambda>t. r ! t = CHR ''-'') (rev [1..<length r]))" by (simp add: dash_cuts_def)
qed

theorem utility_readings_witness:
  "candidatePermutations ''bg-red-500'' = [(''bg-red'', ''500''), (''bg'', ''red-500'')] \<and> formatClass ''bg'' ''red-500'' = ''bg-red-500''"
proof -
  have r: "''bg-red-500'' \<noteq> [] \<and> last ''bg-red-500'' \<noteq> CHR '']'' \<and> CHR ''/'' \<notin> set ''bg-red-500''" by simp
  have p: "candidatePermutations ''bg-red-500'' = [(''bg-red'', ''500''), (''bg'', ''red-500'')]"
    using utility_readings [of "''bg-red-500''"] r by (simp add: upt_rec nth_Cons')
  have "''red-500'' \<noteq> ''DEFAULT'' \<and> \<not> has_prefix ''red-500'' ''-'' \<and> \<not> contains ''bg-red-500'' ''-/''" by code_simp
  with utility_readings [of "''bg-red-500''"] have "formatClass ''bg'' ''red-500'' = ''bg-red-500''" unfolding p by simp
  with p show ?thesis by blast
qed

section \<open>Types that distinguish\<close>

text \<open>Whether another set than the one at \<open>i\<close> has the element.\<close>

definition elsewhere :: "nat \<Rightarrow> 'a \<Rightarrow> 'a list list \<Rightarrow> bool" where
  "elsewhere i x ys \<longleftrightarrow> (\<exists>j < length ys. j \<noteq> i \<and> x \<in> set (ys ! j))"

lemma drop_shared_eq:
  "drop_shared i s ys = map (\<lambda>t. if elsewhere i s ys then removeAll s t else t) ys"
proof -
  have sh: "list_ex (\<lambda>(j, t). j \<noteq> i \<and> s \<in> set t) (enumerate 0 ys) = elsewhere i s ys"
    by (auto simp: list_ex_iff elsewhere_def in_set_enumerate_eq)
  show ?thesis
  proof (rule nth_equalityI)
    fix j
    assume "j < length (drop_shared i s ys)"
    then have j: "j < length ys" by (simp add: drop_shared_def Let_def)
    have "removeAll s (ys ! j) = ys ! j" if "j \<noteq> i" "\<not> elsewhere i s ys" using that j by (auto simp: elsewhere_def removeAll_id)
    with j show "drop_shared i s ys ! j = map (\<lambda>t. if elsewhere i s ys then removeAll s t else t) ys ! j"
      by (auto simp: drop_shared_def Let_def sh nth_enumerate_eq)
  qed (simp add: drop_shared_def Let_def)
qed

lemma elsewhere_filter: "elsewhere i x (map (filter P) ys) \<longleftrightarrow> P x \<and> elsewhere i x ys"
  by (auto simp: elsewhere_def)

lemma removeAll_filter: "removeAll s = filter (\<lambda>x. x \<noteq> s)"
  by (auto simp: fun_eq_iff removeAll_filter_not_eq intro!: filter_cong)

lemma drop_shared_filter: "drop_shared i s ys = map (filter (\<lambda>x. \<not> (x = s \<and> elsewhere i x ys))) ys"
  by (auto simp: drop_shared_eq removeAll_filter intro!: filter_cong filter_True [symmetric])

lemma drop_shared_of_filter: "drop_shared_of i ss ys = map (filter (\<lambda>x. \<not> (x \<in> set ss \<and> elsewhere i x ys))) ys"
proof (induction ss arbitrary: ys)
  case Nil
  show ?case by (simp add: map_idI)
next
  case (Cons s ss)
  show ?case
    by (auto simp: Cons.IH drop_shared_filter elsewhere_filter filter_filter comp_def intro!: filter_cong)
qed

text \<open>The elements that were removed before the set at \<open>m\<close>'s turn.\<close>

lemma distinguishing_upto:
  "m \<le> length ys \<Longrightarrow> foldl (\<lambda>zs i. drop_shared_of i (zs ! i) zs) ys [0..<m] =
     map (filter (\<lambda>x. \<not> (\<exists>i < m. x \<in> set (ys ! i) \<and> elsewhere i x ys))) ys"
proof (induction m)
  case 0
  show ?case by (simp add: map_idI)
next
  case (Suc m)
  then have m: "m < length ys" by simp
  let ?P = "\<lambda>x. \<not> (\<exists>i < m. x \<in> set (ys ! i) \<and> elsewhere i x ys)"
  have "(\<lambda>x. ?P x \<and> \<not> (x \<in> set (filter ?P (ys ! m)) \<and> elsewhere m x (map (filter ?P) ys))) =
      (\<lambda>x. \<not> (\<exists>i < Suc m. x \<in> set (ys ! i) \<and> elsewhere i x ys))"
    by (auto simp: fun_eq_iff elsewhere_filter less_Suc_eq)
  moreover have "foldl (\<lambda>zs i. drop_shared_of i (zs ! i) zs) ys [0..<Suc m] = drop_shared_of m (map (filter ?P) ys ! m) (map (filter ?P) ys)"
    using Suc.IH m by (simp only: upt_Suc_append le0 foldl_append foldl.simps less_imp_le)
  then have "foldl (\<lambda>zs i. drop_shared_of i (zs ! i) zs) ys [0..<Suc m] =
      map (filter (\<lambda>x. ?P x \<and> \<not> (x \<in> set (filter ?P (ys ! m)) \<and> elsewhere m x (map (filter ?P) ys)))) ys"
    by (simp only: drop_shared_of_filter nth_map [OF m] map_map comp_def filter_filter)
  ultimately show ?case by (simp only:)
qed

text \<open>
  An arbitrary value that several utilities accept is refused with suggestions that are no longer
  ambiguous: the types left for a utility are those that the value has for it and for no other.
\<close>

theorem types_distinguish:
  "length (distinguishing_types ys) = length ys \<and>
   (\<forall>j < length ys. set (distinguishing_types ys ! j) = {t \<in> set (ys ! j). \<forall>k < length ys. k \<noteq> j \<longrightarrow> t \<notin> set (ys ! k)})"
proof -
  have d: "distinguishing_types ys = map (filter (\<lambda>x. \<not> (\<exists>i < length ys. x \<in> set (ys ! i) \<and> elsewhere i x ys))) ys"
    unfolding distinguishing_types_def by (rule distinguishing_upto) simp
  have "(\<exists>i < length ys. x \<in> set (ys ! i) \<and> elsewhere i x ys) \<longleftrightarrow> elsewhere j x ys" if "j < length ys" "x \<in> set (ys ! j)" for x j
    using that by (auto simp: elsewhere_def)
  then show ?thesis unfolding d by (auto simp: elsewhere_def)
qed

theorem types_distinguish_witness:
  "distinguishing_types [[''length'', ''color'', ''size''], [''color'', ''any''], [''size'', ''color'']] = [[''length''], [''any''], []] \<and>
   set (distinguishing_types [[''length'', ''color'', ''size''], [''color'', ''any''], [''size'', ''color'']] ! 0) =
     {t \<in> set ([[''length'', ''color'', ''size''], [''color'', ''any''], [''size'', ''color'']] ! 0).
        \<forall>k < 3. k \<noteq> 0 \<longrightarrow> t \<notin> set ([[''length'', ''color'', ''size''], [''color'', ''any''], [''size'', ''color'']] ! k)}"
proof -
  let ?ys = "[[''length'', ''color'', ''size''], [''color'', ''any''], [''size'', ''color'']]"
  have "distinguishing_types ?ys = [[''length''], [''any''], []]" by code_simp
  moreover have "length ?ys = 3" by simp
  moreover have "set (distinguishing_types ?ys ! 0) = {t \<in> set (?ys ! 0). \<forall>k < 3. k \<noteq> 0 \<longrightarrow> t \<notin> set (?ys ! k)}"
    by (rule types_distinguish [of ?ys, THEN conjunct2, unfolded \<open>length ?ys = 3\<close>, THEN spec, THEN mp]) simp
  ultimately show ?thesis by blast
qed

section \<open>The caches\<close>

text \<open>The answer that the caches know.\<close>

definition known :: "('s, 'n, 'c) gen_context \<Rightarrow> string \<Rightarrow> ('s \<times> 'n) list option" where
  "known e s = (if s \<in> set (gc_notClass e) then Some [] else gget (gc_candidateRules e) s)"

text \<open>Resolving with a list of the candidates that were resolved.\<close>

definition logging :: "(string \<Rightarrow> 'c \<Rightarrow> ('s, 'n) match list \<times> 'c) \<Rightarrow> string \<Rightarrow> 'c \<times> string list \<Rightarrow> ('s, 'n) match list \<times> 'c \<times> string list" where
  "logging resolve s x = (case resolve s (fst x) of (ms, c) \<Rightarrow> (ms, c, snd x @ [s]))"

definition resolved :: "('s, 'n, 'c \<times> string list) gen_context \<Rightarrow> string list" where
  "resolved e = snd (gc_rest e)"

definition first_asked :: "string list \<Rightarrow> string \<Rightarrow> string list" where
  "first_asked xs s = (if s \<in> set xs then xs else xs @ [s])"

lemma first_asked_set: "set (foldl first_asked xs ss) = set xs \<union> set ss"
  by (induction ss arbitrary: xs) (auto simp: first_asked_def)

lemma first_asked_js_set: "foldl first_asked [] ss = js_set ss"
proof (induction ss rule: rev_induct)
  case (snoc s ss)
  have "set (foldl first_asked [] ss) = set ss" by (simp add: first_asked_set)
  with snoc show ?case by (auto simp: first_asked_def js_set_def)
qed (simp add: js_set_def)

definition caches_ok :: "('s, 'n, 'c \<times> string list) gen_context \<Rightarrow> bool" where
  "caches_ok e \<longleftrightarrow>
     distinct (resolved e) \<and> (\<forall>s. known e s \<noteq> None \<longleftrightarrow> s \<in> set (resolved e)) \<and>
     gc_rules e = concat (map (\<lambda>s. the (known e s)) (resolved e))"

lemma generate_one_known:
  assumes "generate_one resolve important s e = (rs, e1)"
  shows "known e1 s = Some rs" "known e t \<noteq> None \<Longrightarrow> known e1 t = known e t"
proof -
  have "known e1 s = Some rs \<and> (known e t \<noteq> None \<longrightarrow> known e1 t = known e t)"
  proof (cases "known e s")
    case (Some qs)
    then have "rs = qs \<and> e1 = e" using assms by (auto simp: generate_one_def known_def split: if_splits)
    with Some show ?thesis by simp
  next
    case None
    then have n: "s \<notin> set (gc_notClass e)" "gget (gc_candidateRules e) s = None" by (auto simp: known_def split: if_splits)
    obtain ms c where "resolve s (gc_rest e) = (ms, c)" by fastforce
    with assms n None show ?thesis by (auto simp: generate_one_def known_def Let_def split: if_splits)
  qed
  then show "known e1 s = Some rs" "known e t \<noteq> None \<Longrightarrow> known e1 t = known e t" by simp_all
qed

lemma generate_one_ok:
  assumes "generate_one (logging resolve) important s e = (rs, e1)" "caches_ok e"
  shows "caches_ok e1 \<and> resolved e1 = first_asked (resolved e) s"
proof (cases "known e s")
  case (Some qs)
  then have "e1 = e" using assms(1) by (auto simp: generate_one_def known_def split: if_splits)
  moreover have "s \<in> set (resolved e)" using assms(2) Some by (auto simp: caches_ok_def)
  ultimately show ?thesis using assms(2) by (simp add: first_asked_def)
next
  case None
  then have n: "s \<notin> set (gc_notClass e)" "gget (gc_candidateRules e) s = None" by (auto simp: known_def split: if_splits)
  obtain ms c where "resolve s (fst (gc_rest e)) = (ms, c)" by fastforce
  then have ms: "logging resolve s (gc_rest e) = (ms, c, snd (gc_rest e) @ [s])" by (simp add: logging_def)
  have new: "resolved e1 = resolved e @ [s]" and rules: "gc_rules e1 = gc_rules e @ rs"
    using assms(1) n ms by (auto simp: generate_one_def resolved_def Let_def split: if_splits)
  have k: "known e1 t = (if t = s then Some rs else known e t)" for t
    using assms(1) n ms by (auto simp: generate_one_def known_def Let_def split: if_splits)
  have fresh: "s \<notin> set (resolved e)" using assms(2) None unfolding caches_ok_def by metis
  then have old: "map (\<lambda>t. the (known e1 t)) (resolved e) = map (\<lambda>t. the (known e t)) (resolved e)" by (auto simp: k)
  have "gc_rules e1 = concat (map (\<lambda>t. the (known e1 t)) (resolved e1))"
    using assms(2) by (simp only: new rules map_append concat_append old caches_ok_def) (simp add: k)
  with assms(2) new fresh show ?thesis by (auto simp: caches_ok_def first_asked_def k)
qed

lemma generateRules_ok:
  assumes "generateRules (logging resolve) important ss e = (rs, e1)" "caches_ok e"
  shows "caches_ok e1 \<and> resolved e1 = foldl first_asked (resolved e) ss \<and> rs = concat (map (\<lambda>s. the (known e1 s)) ss) \<and>
         (\<forall>t. known e t \<noteq> None \<longrightarrow> known e1 t = known e t) \<and> (\<forall>s \<in> set ss. known e1 s \<noteq> None)"
  using assms
proof (induction ss arbitrary: e rs)
  case (Cons s ss)
  obtain qs e2 where o: "generate_one (logging resolve) important s e = (qs, e2)" by fastforce
  obtain ps e3 where r: "generateRules (logging resolve) important ss e2 = (ps, e3)" by fastforce
  have e: "rs = qs @ ps" "e3 = e1" using Cons.prems(1) o r by auto
  note one = generate_one_ok [OF o Cons.prems(2)] and k = generate_one_known [OF o]
  from Cons.IH [OF r [unfolded e(2)]] one have ih: "caches_ok e1 \<and> resolved e1 = foldl first_asked (resolved e2) ss \<and>
    ps = concat (map (\<lambda>s. the (known e1 s)) ss) \<and> (\<forall>t. known e2 t \<noteq> None \<longrightarrow> known e1 t = known e2 t) \<and> (\<forall>s \<in> set ss. known e1 s \<noteq> None)"
    by blast
  then have "known e1 s = Some qs" using k(1) by auto
  moreover have "\<forall>t. known e t \<noteq> None \<longrightarrow> known e1 t = known e t" using ih k(2) by metis
  ultimately show ?case using ih one e(1) by auto
qed simp

text \<open>A sequence of requests, and a context without rules.\<close>

fun generate_all ::
  "(string \<Rightarrow> 'c \<Rightarrow> ('s, 'n) match list \<times> 'c) \<Rightarrow> ('n \<Rightarrow> 'n) option \<Rightarrow> string list list \<Rightarrow> ('s, 'n, 'c) gen_context \<Rightarrow>
   ('s \<times> 'n) list list \<times> ('s, 'n, 'c) gen_context" where
  "generate_all resolve important [] e = ([], e)"
| "generate_all resolve important (ss # rest) e =
     (case generateRules resolve important ss e of
        (rs, e1) \<Rightarrow> (case generate_all resolve important rest e1 of (qs, e2) \<Rightarrow> (rs # qs, e2)))"

definition new_context :: "'c \<Rightarrow> ('s, 'n, 'c) gen_context" where
  "new_context c = \<lparr>gc_notClass = [], gc_candidateRules = [], gc_classCache = [], gc_rules = [], gc_rest = c\<rparr>"

lemma generate_all_ok:
  assumes "generate_all (logging resolve) important calls e = (outs, e1)" "caches_ok e"
  shows "caches_ok e1 \<and> resolved e1 = foldl first_asked (resolved e) (concat calls) \<and>
         outs = map (\<lambda>ss. concat (map (\<lambda>s. the (known e1 s)) ss)) calls \<and> (\<forall>t. known e t \<noteq> None \<longrightarrow> known e1 t = known e t)"
  using assms
proof (induction calls arbitrary: e outs)
  case (Cons ss calls)
  obtain rs e2 where r: "generateRules (logging resolve) important ss e = (rs, e2)" by fastforce
  obtain qs e3 where q: "generate_all (logging resolve) important calls e2 = (qs, e3)" by fastforce
  have e: "outs = rs # qs" "e3 = e1" using Cons.prems(1) r q by auto
  note one = generateRules_ok [OF r Cons.prems(2)]
  from Cons.IH [OF q [unfolded e(2)]] one have ih: "caches_ok e1 \<and> resolved e1 = foldl first_asked (resolved e2) (concat calls) \<and>
    qs = map (\<lambda>ss. concat (map (\<lambda>s. the (known e1 s)) ss)) calls \<and> (\<forall>t. known e2 t \<noteq> None \<longrightarrow> known e1 t = known e2 t)" by blast
  have "map (\<lambda>s. the (known e2 s)) ss = map (\<lambda>s. the (known e1 s)) ss" using ih one by (auto intro!: map_cong)
  then have "rs = concat (map (\<lambda>s. the (known e1 s)) ss)" using one by (simp only:)
  moreover have "\<forall>t. known e t \<noteq> None \<longrightarrow> known e1 t = known e t" using ih one by metis
  ultimately show ?case using ih one e(1) by auto
qed simp

text \<open>
  C35. However requests for rules repeat and overlap, each class is resolved once: the answers to all
  requests put together, class by class, one list of rules per class, and the rules of the style sheet are
  those of the resolved classes, each once, in the order in which they were first asked for.
\<close>

theorem classes_resolved_once:
  fixes resolve :: "string \<Rightarrow> 'c \<Rightarrow> ('s, 'n) match list \<times> 'c"
  shows "\<exists>rules. case generate_all (logging resolve) important calls (new_context (c, [])) of
     (outs, e) \<Rightarrow>
       resolved e = js_set (concat calls) \<and>
       outs = map (\<lambda>ss. concat (map rules ss)) calls \<and> gc_rules e = concat (map rules (resolved e))"
proof -
  obtain outs e where g: "generate_all (logging resolve) important calls (new_context (c, [])) = (outs, e)" by fastforce
  have "caches_ok (new_context (c, []) :: ('s, 'n, 'c \<times> string list) gen_context)"
    by (simp add: caches_ok_def new_context_def resolved_def known_def)
  from generate_all_ok [OF g this] show ?thesis
    unfolding g by (intro exI [of _ "\<lambda>s. the (known e s)"]) (auto simp: caches_ok_def new_context_def resolved_def first_asked_js_set)
qed

end
