(* ===== verification/Css_Process.thy ===== *)
theory Css_Process
  imports Css_Tree Css_Parser Css_Error
begin

text \<open>
  Running plugins over a style sheet (\<^verbatim>\<open>LazyResult\<close>, \<^verbatim>\<open>Processor\<close>, \<^verbatim>\<open>Result\<close> and \<^verbatim>\<open>postcss.plugin\<close> of PostCSS in
  \<^verbatim>\<open>tailwind.js\<close>): the events of a node, the listeners of the plugins, the recursive walk of synchronous
  processing, the stack machine of asynchronous processing, and the state of a result that is computed
  when it is first asked for.  Visitors are functions on the whole world; documents, \<^verbatim>\<open>prepare\<close>, syntax
  options and source maps are left out, and printing is an argument.  A walk need not end, and then has no result.
\<close>

section \<open>The world\<close>

record 's world =
  w_tree :: tree_heap
  w_name :: "nref \<Rightarrow> string" \<comment> \<open>\<^verbatim>\<open>prop\<close> of a declaration, \<^verbatim>\<open>name\<close> of an at-rule\<close>
  w_clean :: "nref \<Rightarrow> bool"
  w_lastPlugin :: "string option" \<comment> \<open>its name, when it has one\<close>
  w_user :: 's

text \<open>What a plugin may throw, with the node that \<^verbatim>\<open>addToError\<close> notes in an object.\<close>

datatype thrown = SyntaxErr css_error "nref option" | ErrorObj string "nref option" | Primitive string

text \<open>A call returns, throws, or returns a promise; the promise has the world in which it settles.\<close>

datatype 's outcome = Returned | Threw thrown | Promise "'s world" "thrown option"

type_synonym 's visitor = "nref \<Rightarrow> 's world \<Rightarrow> 's world \<times> 's outcome"

datatype 's handler = Visitor "'s visitor" | ByName "(string \<times> 's visitor) list" | Other_value bool \<comment> \<open>truthy?\<close>

datatype 's plugin = FunctionPlugin "string option" "'s visitor" | ObjectPlugin string "(string \<times> 's handler) list"

fun plugin_name :: "'s plugin \<Rightarrow> string option" where
  "plugin_name (FunctionPlugin n f) = n"
| "plugin_name (ObjectPlugin n hs) = Some n"

definition set_clean :: "nref \<Rightarrow> bool \<Rightarrow> 's world \<Rightarrow> 's world" where
  "set_clean n b w = w\<lparr>w_clean := (w_clean w)(n := b)\<rparr>"

definition set_last :: "string option \<Rightarrow> 's world \<Rightarrow> 's world" where
  "set_last p w = w\<lparr>w_lastPlugin := p\<rparr>"

section \<open>Errors\<close>

text \<open>
  \<open>Handled\<close> errors were noted as the result's error.  Noting a node in a primitive value fails, and
  then the value is thrown without being noted.
\<close>

datatype failure = Handled thrown | Raw thrown

definition name_plugin :: "string option \<Rightarrow> css_error \<Rightarrow> css_error" where
  "name_plugin p e = (if truthy (ce_plugin e) = None then setMessage (e\<lparr>ce_plugin := truthy p\<rparr>) else e)"

fun handleError :: "thrown \<Rightarrow> nref option \<Rightarrow> string option \<Rightarrow> failure" where
  "handleError (SyntaxErr e n) node p = Handled (SyntaxErr (name_plugin p e) (case node of None \<Rightarrow> n | Some m \<Rightarrow> Some m))"
| "handleError (ErrorObj t n) node p = Handled (ErrorObj t (case node of None \<Rightarrow> n | Some m \<Rightarrow> Some m))"
| "handleError (Primitive s) node p = (if node = None then Handled (Primitive s) else Raw (Primitive s))"

definition async_error :: failure where
  "async_error = Raw (ErrorObj ''Use process(css).then(cb) to work with async plugins'' None)"

section \<open>Events\<close>

text \<open>\<open>Children\<close> is the number 0 among the events.\<close>

datatype event = Named string | Children

fun type_name :: "tkind \<Rightarrow> string" where
  "type_name TRoot = ''Root''"
| "type_name TAtRule = ''AtRule''"
| "type_name TRule = ''Rule''"
| "type_name TDecl = ''Declaration''"
| "type_name TComment = ''Comment''"

text \<open>Containers have \<^verbatim>\<open>append\<close>.\<close>

definition getEvents :: "tkind \<Rightarrow> string \<Rightarrow> event list" where
  "getEvents k name =
     (let t = type_name k;
          e = (if k = TDecl \<or> k = TAtRule then js_lower name else []);
          container = k = TRoot \<or> k = TAtRule \<or> k = TRule
      in if e \<noteq> [] \<and> container then
           [Named t, Named (t @ ''-'' @ e), Children, Named (t @ ''Exit''), Named (t @ ''Exit-'' @ e)]
         else if e \<noteq> [] then [Named t, Named (t @ ''-'' @ e), Named (t @ ''Exit''), Named (t @ ''Exit-'' @ e)]
         else if container then [Named t, Children, Named (t @ ''Exit'')]
         else [Named t, Named (t @ ''Exit'')])"

definition events_of :: "'s world \<Rightarrow> nref \<Rightarrow> event list" where
  "events_of w n = getEvents (tn_kind (w_tree w n)) (w_name w n)"

section \<open>Listeners\<close>

type_synonym 's calls = "(string option \<times> 's visitor) list"
type_synonym 's listeners = "(string, 's calls) gomap"

definition known_events :: "string list" where
  "known_events = [''AtRule'', ''AtRuleExit'', ''Comment'', ''CommentExit'', ''Declaration'', ''DeclarationExit'',
     ''Document'', ''DocumentExit'', ''Once'', ''OnceExit'', ''postcssPlugin'', ''prepare'', ''Root'', ''RootExit'',
     ''Rule'', ''RuleExit'']"

definition not_visitors :: "string list" where
  "not_visitors = [''Once'', ''postcssPlugin'', ''prepare'']"

definition capital :: "string \<Rightarrow> bool" where
  "capital s = (case s of c # _ \<Rightarrow> (let n = (of_char c :: nat) in 65 \<le> n \<and> n \<le> 90) | [] \<Rightarrow> False)"

definition add_listener :: "string option \<Rightarrow> string \<Rightarrow> 's visitor \<Rightarrow> 's listeners \<Rightarrow> 's listeners" where
  "add_listener p e v ls = gput e ((case gget ls e of None \<Rightarrow> [] | Some vs \<Rightarrow> vs) @ [(p, v)]) ls"

fun add_named :: "string option \<Rightarrow> string \<Rightarrow> (string \<times> 's visitor) list \<Rightarrow> 's listeners \<Rightarrow> 's listeners" where
  "add_named p e [] ls = ls"
| "add_named p e ((n, v) # vs) ls =
     add_named p e vs (add_listener p (if n = ''*'' then e else e @ ''-'' @ js_lower n) v ls)"

definition unknown_event :: "string \<Rightarrow> string \<Rightarrow> failure" where
  "unknown_event e p = Raw (ErrorObj (''Unknown event '' @ e @ '' in '' @ p @ ''. Try to update PostCSS (8.4.49 now).'') None)"

fun add_handlers :: "string \<Rightarrow> (string \<times> 's handler) list \<Rightarrow> 's listeners \<Rightarrow> failure + 's listeners" where
  "add_handlers p [] ls = Inr ls"
| "add_handlers p ((e, h) # hs) ls =
     (if e \<notin> set known_events \<and> capital e then Inl (unknown_event e p)
      else add_handlers p hs
        (if e \<in> set not_visitors then ls
         else case h of
           ByName vs \<Rightarrow> add_named (Some p) e vs ls
         | Visitor v \<Rightarrow> add_listener (Some p) e v ls
         | Other_value _ \<Rightarrow> ls))"

fun prepareVisitors :: "'s plugin list \<Rightarrow> 's listeners \<Rightarrow> failure + 's listeners" where
  "prepareVisitors [] ls = Inr ls"
| "prepareVisitors (FunctionPlugin n f # ps) ls = prepareVisitors ps ls"
| "prepareVisitors (ObjectPlugin n hs # ps) ls =
     (case add_handlers n hs ls of Inl e \<Rightarrow> Inl e | Inr ls1 \<Rightarrow> prepareVisitors ps ls1)"

section \<open>The recursive walk\<close>

datatype stop = Going | Removed | Failed failure

fun visitSync :: "'s calls \<Rightarrow> nref \<Rightarrow> 's world \<Rightarrow> 's world \<times> stop" where
  "visitSync [] n w = (w, Going)"
| "visitSync ((p, v) # vs) n w =
     (case v n (set_last p w) of
        (w1, Threw e) \<Rightarrow> (w1, Failed (handleError e (Some n) (w_lastPlugin w1)))
      | (w1, r) \<Rightarrow>
          if tn_kind (w_tree w1 n) \<noteq> TRoot \<and> tn_parent (w_tree w1 n) = None then (w1, Removed)
          else (case r of Promise _ _ \<Rightarrow> (w1, Failed async_error) | _ \<Rightarrow> visitSync vs n w1))"

text \<open>
  \<^verbatim>\<open>walkSync\<close> calls \<^verbatim>\<open>each\<close>, which calls it back: a whole visit of a node, the rest of a node's events, and
  the rest of an iteration over its children are the stages of one recursion.
\<close>

datatype stage = Visit nref | Events nref "event list" | Each nref nat

definition start_iterator :: "nref \<Rightarrow> 's world \<Rightarrow> nat \<times> 's world" where
  "start_iterator n w = (case getIterator n (w_tree w) of (t, h) \<Rightarrow> (t, w\<lparr>w_tree := h\<rparr>))"

definition delete_index :: "nref \<Rightarrow> nat \<Rightarrow> 's world \<Rightarrow> 's world" where
  "delete_index n t w = w\<lparr>w_tree := (w_tree w)(n := (w_tree w n)\<lparr>tn_indexes := gdel t (tn_indexes (w_tree w n))\<rparr>)\<rparr>"

definition set_index :: "nref \<Rightarrow> nat \<Rightarrow> int \<Rightarrow> 's world \<Rightarrow> 's world" where
  "set_index n t i w = w\<lparr>w_tree := (w_tree w)(n := (w_tree w n)\<lparr>tn_indexes := gput t i (tn_indexes (w_tree w n))\<rparr>)\<rparr>"

definition bump_index :: "nref \<Rightarrow> nat \<Rightarrow> 's world \<Rightarrow> 's world" where
  "bump_index n t w = (case gget (tn_indexes (w_tree w n)) t of None \<Rightarrow> w | Some i \<Rightarrow> set_index n t (i + 1) w)"

definition current_child :: "nref \<Rightarrow> nat \<Rightarrow> 's world \<Rightarrow> nref option" where
  "current_child n t w = Option.bind (gget (tn_indexes (w_tree w n)) t) (js_at (kids (w_tree w) n))"

partial_function (option) walk_from :: "'s listeners \<Rightarrow> stage \<Rightarrow> 's world \<Rightarrow> ('s world \<times> failure option) option" where
  "walk_from ls s w =
     (case s of
        Visit n \<Rightarrow> (let w1 = set_clean n True w in walk_from ls (Events n (events_of w1 n)) w1)
      | Events n [] \<Rightarrow> Some (w, None)
      | Events n (Named e # es) \<Rightarrow>
          (case gget ls e of
             None \<Rightarrow> walk_from ls (Events n es) w
           | Some vs \<Rightarrow>
               (case visitSync vs n w of
                  (w1, Going) \<Rightarrow> walk_from ls (Events n es) w1
                | (w1, Removed) \<Rightarrow> Some (w1, None)
                | (w1, Failed e) \<Rightarrow> Some (w1, Some e)))
      | Events n (Children # es) \<Rightarrow>
          if tn_nodes (w_tree w n) = None then walk_from ls (Events n es) w
          else (case start_iterator n w of
                  (t, w1) \<Rightarrow>
                    Option.bind (walk_from ls (Each n t) w1)
                      (\<lambda>r. case r of
                         (w2, None) \<Rightarrow> walk_from ls (Events n es) (delete_index n t w2)
                       | (w2, Some e) \<Rightarrow> Some (w2, Some e)))
      | Each n t \<Rightarrow>
          (case current_child n t w of
             None \<Rightarrow> Some (w, None)
           | Some c \<Rightarrow>
               Option.bind (if w_clean w c then Some (w, None) else walk_from ls (Visit c) w)
                 (\<lambda>r. case r of
                    (w1, None) \<Rightarrow> walk_from ls (Each n t) (bump_index n t w1)
                  | (w1, Some e) \<Rightarrow> Some (w1, Some e))))"

definition walkSync :: "'s listeners \<Rightarrow> nref \<Rightarrow> 's world \<Rightarrow> ('s world \<times> failure option) option" where
  "walkSync ls n w = walk_from ls (Visit n) w"

section \<open>The stack machine\<close>

record 's frame =
  fr_node :: nref
  fr_events :: "event list"
  fr_eventIndex :: nat
  fr_iterator :: nat \<comment> \<open>0 for none\<close>
  fr_visitors :: "'s calls"
  fr_visitorIndex :: nat

definition toStack :: "'s world \<Rightarrow> nref \<Rightarrow> 's frame" where
  "toStack w n = \<lparr>fr_node = n, fr_events = events_of w n, fr_eventIndex = 0, fr_iterator = 0, fr_visitors = [], fr_visitorIndex = 0\<rparr>"

text \<open>The next child that is not clean, and the index after it.\<close>

fun next_dirty :: "(nref \<Rightarrow> bool) \<Rightarrow> nref list \<Rightarrow> int \<Rightarrow> nref option \<times> int" where
  "next_dirty clean [] i = (None, i)"
| "next_dirty clean (c # cs) i = (if clean c then next_dirty clean cs (i + 1) else (Some c, i + 1))"

text \<open>The next event that has work to do: the frame, and whether a node's children come now.\<close>

fun next_event :: "'s listeners \<Rightarrow> event list \<Rightarrow> nat \<Rightarrow> (event \<times> 's calls) option \<times> nat" where
  "next_event ls [] k = (None, k)"
| "next_event ls (Children # es) k = (Some (Children, []), k + 1)"
| "next_event ls (Named e # es) k = (case gget ls e of Some vs \<Rightarrow> (Some (Named e, vs), k + 1) | None \<Rightarrow> next_event ls es (k + 1))"

text \<open>The frames, the last one of the array first.  A tick may be awaited, and may throw.\<close>

definition tick_visitor :: "'s frame \<Rightarrow> 's frame list \<Rightarrow> 's world \<Rightarrow> 's frame list \<times> 's world \<times> failure option" where
  "tick_visitor f st w =
     (case fr_visitors f ! fr_visitorIndex f of
        (p, v) \<Rightarrow>
          let k = fr_visitorIndex f + 1;
              f1 = (if k = length (fr_visitors f) then f\<lparr>fr_visitors := [], fr_visitorIndex := 0\<rparr> else f\<lparr>fr_visitorIndex := k\<rparr>)
          in case v (fr_node f) (set_last p w) of
               (w1, Returned) \<Rightarrow> (f1 # st, w1, None)
             | (w1, Threw e) \<Rightarrow> (f1 # st, w1, Some (handleError e (Some (fr_node f)) (w_lastPlugin w1)))
             | (w1, Promise w2 None) \<Rightarrow> (f1 # st, w2, None)
             | (w1, Promise w2 (Some e)) \<Rightarrow> (f1 # st, w2, Some (handleError e (Some (fr_node f)) (w_lastPlugin w2))))"

definition tick_events :: "'s listeners \<Rightarrow> 's frame \<Rightarrow> 's frame list \<Rightarrow> 's world \<Rightarrow> 's frame list \<times> 's world" where
  "tick_events ls f st w =
     (case next_event ls (drop (fr_eventIndex f) (fr_events f)) (fr_eventIndex f) of
        (None, k) \<Rightarrow> (st, w)
      | (Some (Named e, vs), k) \<Rightarrow> (f\<lparr>fr_eventIndex := k, fr_visitors := vs\<rparr> # st, w)
      | (Some (Children, _), k) \<Rightarrow>
          if kids (w_tree w) (fr_node f) = [] then (f\<lparr>fr_eventIndex := k\<rparr> # st, w)
          else (case start_iterator (fr_node f) (set_clean (fr_node f) True w) of
                  (t, w1) \<Rightarrow> (f\<lparr>fr_eventIndex := k, fr_iterator := t\<rparr> # st, w1)))"

definition tick_children :: "'s listeners \<Rightarrow> 's frame \<Rightarrow> 's frame list \<Rightarrow> 's world \<Rightarrow> 's frame list \<times> 's world" where
  "tick_children ls f st w =
     (let n = fr_node f; t = fr_iterator f; done = (\<lambda>w. tick_events ls (f\<lparr>fr_iterator := 0\<rparr>) st (delete_index n t w))
      in case gget (tn_indexes (w_tree w n)) t of
           None \<Rightarrow> done w
         | Some i \<Rightarrow>
             if i < 0 then done w
             else (case next_dirty (w_clean w) (drop (nat i) (kids (w_tree w) n)) i of
                     (None, j) \<Rightarrow> done (set_index n t j w)
                   | (Some c, j) \<Rightarrow> let w1 = set_clean c True (set_index n t j w) in (toStack w1 c # f # st, w1)))"

fun visitTick :: "'s listeners \<Rightarrow> 's frame list \<Rightarrow> 's world \<Rightarrow> 's frame list \<times> 's world \<times> failure option" where
  "visitTick ls [] w = ([], w, None)"
| "visitTick ls (f # st) w =
     (if tn_kind (w_tree w (fr_node f)) \<noteq> TRoot \<and> tn_parent (w_tree w (fr_node f)) = None then (st, w, None)
      else if fr_visitors f \<noteq> [] \<and> fr_visitorIndex f < length (fr_visitors f) then tick_visitor f st w
      else case (if fr_iterator f \<noteq> 0 then tick_children ls f st w else tick_events ls f st w) of
             (st1, w1) \<Rightarrow> (st1, w1, None))"

text \<open>The loop of \<^verbatim>\<open>runAsync\<close> over the stack.\<close>

partial_function (option) run_stack :: "'s listeners \<Rightarrow> 's frame list \<Rightarrow> 's world \<Rightarrow> ('s world \<times> failure option) option" where
  "run_stack ls st w =
     (if st = [] then Some (w, None)
      else case visitTick ls st w of
             (st1, w1, None) \<Rightarrow> run_stack ls st1 w1
           | (st1, w1, Some e) \<Rightarrow> Some (w1, Some e))"

section \<open>Processing a style sheet\<close>

text \<open>Marking a tree as not yet visited.\<close>

partial_function (option) cleanMarks :: "nref list \<Rightarrow> 's world \<Rightarrow> 's world option" where
  "cleanMarks ns w =
     (case ns of [] \<Rightarrow> Some w
      | n # ms \<Rightarrow> cleanMarks (kids (w_tree w) n @ ms) (set_clean n False w))"

datatype 's once = Fine | Thenable "'s world" "thrown option" | Broke failure

definition not_callable :: "'s visitor" where
  "not_callable n w = (w, Threw (ErrorObj ''TypeError'' None))"

fun root_call :: "'s plugin \<Rightarrow> 's visitor option" where
  "root_call (FunctionPlugin p f) = Some f"
| "root_call (ObjectPlugin p hs) =
     (case map_of hs ''Once'' of
        Some (Visitor v) \<Rightarrow> Some v
      | Some (ByName vs) \<Rightarrow> Some not_callable
      | Some (Other_value b) \<Rightarrow> (if b then Some not_callable else None)
      | None \<Rightarrow> None)"

definition runOnRoot :: "'s plugin \<Rightarrow> nref \<Rightarrow> 's world \<Rightarrow> 's world \<times> 's once" where
  "runOnRoot p r w =
     (let w1 = set_last (plugin_name p) w in
      case root_call p of
        None \<Rightarrow> (w1, Fine)
      | Some f \<Rightarrow>
          (case f r w1 of
             (w2, Returned) \<Rightarrow> (w2, Fine)
           | (w2, Promise a e) \<Rightarrow> (w2, Thenable a e)
           | (w2, Threw e) \<Rightarrow> (w2, Broke (handleError e None (w_lastPlugin w2)))))"

fun plugins_sync :: "'s plugin list \<Rightarrow> nref \<Rightarrow> 's world \<Rightarrow> 's world \<times> failure option" where
  "plugins_sync [] r w = (w, None)"
| "plugins_sync (p # ps) r w =
     (case runOnRoot p r w of
        (w1, Fine) \<Rightarrow> plugins_sync ps r w1
      | (w1, Thenable a e) \<Rightarrow> (w1, Some async_error)
      | (w1, Broke e) \<Rightarrow> (w1, Some e))"

fun plugins_async :: "'s plugin list \<Rightarrow> nref \<Rightarrow> 's world \<Rightarrow> 's world \<times> failure option" where
  "plugins_async [] r w = (w, None)"
| "plugins_async (p # ps) r w =
     (case runOnRoot p r w of
        (w1, Fine) \<Rightarrow> plugins_async ps r w1
      | (w1, Thenable w2 None) \<Rightarrow> plugins_async ps r w2
      | (w1, Thenable w2 (Some e)) \<Rightarrow> (w2, Some (handleError e None (w_lastPlugin w2)))
      | (w1, Broke e) \<Rightarrow> (w1, Some e))"

text \<open>Walks are repeated until none of them leaves the root marked.\<close>

partial_function (option) until_clean ::
  "('s world \<Rightarrow> ('s world \<times> failure option) option) \<Rightarrow> nref \<Rightarrow> 's world \<Rightarrow> ('s world \<times> failure option) option" where
  "until_clean pass r w =
     (if w_clean w r then Some (w, None)
      else Option.bind (pass (set_clean r True w))
        (\<lambda>x. case x of (w1, None) \<Rightarrow> until_clean pass r w1 | (w1, Some e) \<Rightarrow> Some (w1, Some e)))"

fun exits_async :: "'s calls \<Rightarrow> nref \<Rightarrow> 's world \<Rightarrow> 's world \<times> failure option" where
  "exits_async [] r w = (w, None)"
| "exits_async ((p, v) # vs) r w =
     (case v r (set_last p w) of
        (w1, Returned) \<Rightarrow> exits_async vs r w1
      | (w1, Promise w2 None) \<Rightarrow> exits_async vs r w2
      | (w1, Promise w2 (Some e)) \<Rightarrow> (w2, Some (handleError e None (w_lastPlugin w2)))
      | (w1, Threw e) \<Rightarrow> (w1, Some (handleError e None (w_lastPlugin w1))))"

definition exits_sync :: "'s calls \<Rightarrow> nref \<Rightarrow> 's world \<Rightarrow> 's world \<times> failure option" where
  "exits_sync vs r w = (case visitSync vs r w of (w1, Failed e) \<Rightarrow> (w1, Some e) | (w1, _) \<Rightarrow> (w1, None))"

text \<open>The common course of \<^verbatim>\<open>sync\<close> and \<^verbatim>\<open>runAsync\<close>: the plugins, then the visitors, then their exits.\<close>

definition process_with ::
  "('s plugin list \<Rightarrow> nref \<Rightarrow> 's world \<Rightarrow> 's world \<times> failure option) \<Rightarrow>
   ('s listeners \<Rightarrow> 's world \<Rightarrow> ('s world \<times> failure option) option) \<Rightarrow>
   ('s calls \<Rightarrow> nref \<Rightarrow> 's world \<Rightarrow> 's world \<times> failure option) \<Rightarrow>
   's plugin list \<Rightarrow> nref \<Rightarrow> 's world \<Rightarrow> ('s world \<times> failure option) option" where
  "process_with plugins pass exits ps r w =
     (case plugins ps r w of
        (w1, Some e) \<Rightarrow> Some (w1, Some e)
      | (w1, None) \<Rightarrow>
          (case prepareVisitors ps [] of
             Inl e \<Rightarrow> Some (w1, Some e)
           | Inr [] \<Rightarrow> Some (w1, None)
           | Inr ls \<Rightarrow>
               Option.bind (until_clean (pass ls) r w1)
                 (\<lambda>x. case x of
                    (w2, Some e) \<Rightarrow> Some (w2, Some e)
                  | (w2, None) \<Rightarrow> Some (case gget ls ''OnceExit'' of None \<Rightarrow> (w2, None) | Some vs \<Rightarrow> exits vs r w2))))"

definition process_sync :: "'s plugin list \<Rightarrow> nref \<Rightarrow> 's world \<Rightarrow> ('s world \<times> failure option) option" where
  "process_sync ps r = process_with plugins_sync (\<lambda>ls. walkSync ls r) exits_sync ps r"

definition process_async :: "'s plugin list \<Rightarrow> nref \<Rightarrow> 's world \<Rightarrow> ('s world \<times> failure option) option" where
  "process_async ps r = process_with plugins_async (\<lambda>ls w. run_stack ls [toStack w r] w) exits_async ps r"

section \<open>The lazy result\<close>

text \<open>The promise of \<^verbatim>\<open>runAsync\<close>, once it was asked for, and its outcome.\<close>

datatype job = Idle | Running | Finished "thrown + string option"

record 's lazy =
  lz_plugins :: "'s plugin list"
  lz_root :: nref
  lz_world :: "'s world"
  lz_error :: "thrown option"
  lz_processed :: bool
  lz_stringified :: bool
  lz_job :: job
  lz_css :: "string option"

definition new_lazy :: "'s plugin list \<Rightarrow> thrown + nref \<Rightarrow> 's world \<Rightarrow> 's lazy" where
  "new_lazy ps parsed w =
     \<lparr>lz_plugins = ps, lz_root = (case parsed of Inr r \<Rightarrow> r | Inl _ \<Rightarrow> 0), lz_world = w,
      lz_error = (case parsed of Inl e \<Rightarrow> Some e | Inr _ \<Rightarrow> None),
      lz_processed = (case parsed of Inl e \<Rightarrow> True | Inr _ \<Rightarrow> False),
      lz_stringified = False, lz_job = Idle, lz_css = None\<rparr>"

text \<open>Only a truthy error counts as one.\<close>

definition pending_error :: "'s lazy \<Rightarrow> thrown option" where
  "pending_error l = (if lz_error l = Some (Primitive []) then None else lz_error l)"

fun thrown_of :: "failure \<Rightarrow> thrown" where
  "thrown_of (Handled e) = e"
| "thrown_of (Raw e) = e"

fun note_error :: "failure \<Rightarrow> 's lazy \<Rightarrow> 's lazy" where
  "note_error (Handled e) l = l\<lparr>lz_error := Some e\<rparr>"
| "note_error (Raw e) l = l"

definition sync :: "'s lazy \<Rightarrow> ('s lazy \<times> (thrown + unit)) option" where
  "sync l =
     (case pending_error l of
        Some e \<Rightarrow> Some (l, Inl e)
      | None \<Rightarrow>
          if lz_processed l then Some (l, Inr ())
          else let l1 = l\<lparr>lz_processed := True\<rparr> in
            if lz_job l \<noteq> Idle then Some (l1, Inl (thrown_of async_error))
            else map_option
              (\<lambda>x. case x of
                 (w, None) \<Rightarrow> (l1\<lparr>lz_world := w\<rparr>, Inr ())
               | (w, Some f) \<Rightarrow> (note_error f (l1\<lparr>lz_world := w\<rparr>), Inl (thrown_of f)))
              (process_sync (lz_plugins l) (lz_root l) (lz_world l)))"

text \<open>\<open>gen\<close> prints the tree.\<close>

definition stringify :: "(nref \<Rightarrow> 's world \<Rightarrow> string) \<Rightarrow> 's lazy \<Rightarrow> ('s lazy \<times> (thrown + string option)) option" where
  "stringify gen l =
     (case pending_error l of
        Some e \<Rightarrow> Some (l, Inl e)
      | None \<Rightarrow>
          if lz_stringified l then Some (l, Inr (lz_css l))
          else map_option
            (\<lambda>x. case x of
               (l1, Inl e) \<Rightarrow> (l1, Inl e)
             | (l1, Inr u) \<Rightarrow>
                 let c = Some (gen (lz_root l1) (lz_world l1)) in (l1\<lparr>lz_css := c\<rparr>, Inr c))
            (sync (l\<lparr>lz_stringified := True\<rparr>)))"

text \<open>
  What can happen to a result: its text is asked for, its tree or messages are, a promise is asked
  for, or the promise's job is done.  The job is one step at its end; in the code its parts up to the first
  promise of a plugin run at once, so that without such a promise nothing comes between.
\<close>

datatype lazy_op = Get_css | Get_root | Await | Settle

definition settle :: "(nref \<Rightarrow> 's world \<Rightarrow> string) \<Rightarrow> 's lazy \<Rightarrow> 's lazy option" where
  "settle gen l =
     (if lz_job l \<noteq> Running then Some l
      else Option.bind (process_async (lz_plugins l) (lz_root l) (lz_world l))
        (\<lambda>x. case x of
           (w, Some f) \<Rightarrow> Some (note_error f (l\<lparr>lz_world := w, lz_job := Finished (Inl (thrown_of f))\<rparr>))
         | (w, None) \<Rightarrow>
             map_option (\<lambda>(l1, a). l1\<lparr>lz_job := Finished a\<rparr>) (stringify gen (l\<lparr>lz_world := w, lz_processed := True\<rparr>))))"

text \<open>The answer is absent while the promise is pending.\<close>

fun lazy_step :: "(nref \<Rightarrow> 's world \<Rightarrow> string) \<Rightarrow> lazy_op \<Rightarrow> 's lazy \<Rightarrow> ('s lazy \<times> (thrown + string option) option) option" where
  "lazy_step gen Get_css l = map_option (\<lambda>(l1, a). (l1, Some a)) (stringify gen l)"
| "lazy_step gen Get_root l = map_option (\<lambda>(l1, a). (l1, Some (case a of Inl e \<Rightarrow> Inl e | Inr u \<Rightarrow> Inr None))) (sync l)"
| "lazy_step gen Await l =
     Some (case pending_error l of
             Some e \<Rightarrow> (l, Some (Inl e))
           | None \<Rightarrow>
               if lz_processed l then (l, Some (Inr (lz_css l)))
               else case lz_job l of
                 Idle \<Rightarrow> (l\<lparr>lz_job := Running\<rparr>, None)
               | Running \<Rightarrow> (l, None)
               | Finished a \<Rightarrow> (l, Some a))"
| "lazy_step gen Settle l = map_option (\<lambda>l1. (l1, None)) (settle gen l)"

fun lazy_run :: "(nref \<Rightarrow> 's world \<Rightarrow> string) \<Rightarrow> lazy_op list \<Rightarrow> 's lazy \<Rightarrow> ('s lazy \<times> (thrown + string option) option list) option" where
  "lazy_run gen [] l = Some (l, [])"
| "lazy_run gen (a # as) l =
     Option.bind (lazy_step gen a l) (\<lambda>(l1, x). map_option (\<lambda>(l2, xs). (l2, x # xs)) (lazy_run gen as l1))"

section \<open>Warnings\<close>

record warning =
  wn_text :: string
  wn_plugin :: "string option"
  wn_node :: "nref option"
  wn_range :: "(int \<times> int \<times> int \<times> int) option"

datatype message = Warn warning | Other_message string

text \<open>\<open>rangeBy\<close> is the place of a node in its source, if it has one.\<close>

definition new_Warning ::
  "(nref \<Rightarrow> (int \<times> int \<times> int \<times> int) option) \<Rightarrow> string \<Rightarrow> string option \<Rightarrow> nref option \<Rightarrow> warning" where
  "new_Warning rangeBy t p n = \<lparr>wn_text = t, wn_plugin = p, wn_node = n, wn_range = Option.bind n rangeBy\<rparr>"

text \<open>A warning without a plugin is the last plugin's.\<close>

definition result_warn ::
  "(nref \<Rightarrow> (int \<times> int \<times> int \<times> int) option) \<Rightarrow> string option \<Rightarrow> string \<Rightarrow> string option \<Rightarrow> nref option \<Rightarrow> message list \<Rightarrow> message list" where
  "result_warn rangeBy last_plugin t p n msgs =
     msgs @ [Warn (new_Warning rangeBy t (if truthy p = None \<and> truthy last_plugin \<noteq> None then last_plugin else p) n)]"

definition result_warnings :: "message list \<Rightarrow> message list" where
  "result_warnings msgs = filter (\<lambda>m. case m of Warn _ \<Rightarrow> True | Other_message t \<Rightarrow> t = ''warning'') msgs"

text \<open>\<open>node_error\<close> is the message of the syntax error that a node makes of a text.\<close>

definition warning_toString :: "(nref \<Rightarrow> warning \<Rightarrow> string) \<Rightarrow> warning \<Rightarrow> string" where
  "warning_toString node_error w =
     (case wn_node w of
        Some n \<Rightarrow> node_error n w
      | None \<Rightarrow> (case truthy (wn_plugin w) of Some p \<Rightarrow> p @ '': '' @ wn_text w | None \<Rightarrow> wn_text w))"

section \<open>The processor\<close>

text \<open>
  What can be given as a plugin: a value, a creator (\<^verbatim>\<open>postcss: true\<close>) that is called for one, or a
  value whose \<^verbatim>\<open>postcss\<close> property is one.
\<close>

datatype 's item = Plugin "'s plugin" | With_plugins "'s plugin list" | Syntax | No_plugin string

datatype 's given = Direct "'s item" | Creator "'s item" | Legacy "'s item"

fun unwrap :: "'s given \<Rightarrow> 's item" where
  "unwrap (Direct i) = i"
| "unwrap (Creator i) = i"
| "unwrap (Legacy i) = i"

definition not_a_plugin :: "string \<Rightarrow> thrown" where
  "not_a_plugin t = ErrorObj (t @ '' is not a PostCSS plugin'') None"

fun item_plugins :: "'s item \<Rightarrow> thrown + 's plugin list" where
  "item_plugins (With_plugins ps) = Inr ps"
| "item_plugins (Plugin (ObjectPlugin n hs)) =
     (if n = [] then Inl (not_a_plugin ''[object Object]'') else Inr [ObjectPlugin n hs])"
| "item_plugins (Plugin (FunctionPlugin n f)) = Inr [FunctionPlugin n f]"
| "item_plugins Syntax = Inr []"
| "item_plugins (No_plugin t) = Inl (not_a_plugin t)"

fun processor_normalize :: "'s given list \<Rightarrow> thrown + 's plugin list" where
  "processor_normalize [] = Inr []"
| "processor_normalize (g # gs) =
     (case item_plugins (unwrap g) of
        Inl e \<Rightarrow> Inl e
      | Inr ps \<Rightarrow> (case processor_normalize gs of Inl e \<Rightarrow> Inl e | Inr qs \<Rightarrow> Inr (ps @ qs)))"

definition processor_use :: "'s given \<Rightarrow> 's plugin list \<Rightarrow> thrown + 's plugin list" where
  "processor_use g ps = (case processor_normalize [g] of Inl e \<Rightarrow> Inl e | Inr qs \<Rightarrow> Inr (ps @ qs))"

text \<open>Without plugins and custom syntax the text is returned as it is, and parsed only for its tree.\<close>

record nowork =
  nw_css :: string
  nw_root :: "nref option"
  nw_error :: "thrown option"

definition new_nowork :: "(string \<Rightarrow> string) \<Rightarrow> string \<Rightarrow> nowork" where
  "new_nowork clearAnnotation css = \<lparr>nw_css = clearAnnotation css, nw_root = None, nw_error = None\<rparr>"

definition nowork_root :: "thrown + nref \<Rightarrow> nowork \<Rightarrow> nowork \<times> (thrown + nref)" where
  "nowork_root parsed n =
     (case nw_root n of
        Some r \<Rightarrow> (n, Inr r)
      | None \<Rightarrow>
          let n1 = (case parsed of Inl e \<Rightarrow> n\<lparr>nw_error := Some e\<rparr> | Inr r \<Rightarrow> n)
          in case nw_error n1 of
               Some e \<Rightarrow> (n1, Inl e)
             | None \<Rightarrow> (case parsed of Inl e \<Rightarrow> (n1, Inl e) | Inr r \<Rightarrow> (n1\<lparr>nw_root := Some r\<rparr>, Inr r)))"

datatype 's processed = No_work nowork | Lazy "'s lazy"

definition process ::
  "(string \<Rightarrow> string) \<Rightarrow> (string \<Rightarrow> thrown + nref) \<Rightarrow> bool \<Rightarrow> 's plugin list \<Rightarrow> string \<Rightarrow> 's world \<Rightarrow> 's processed" where
  "process clearAnnotation parse custom_syntax ps css w =
     (if ps = [] \<and> \<not> custom_syntax then No_work (new_nowork clearAnnotation css)
      else Lazy (new_lazy ps (parse css) w))"

section \<open>Plugins of the old interface\<close>

text \<open>The lines written to the console: the notice, and its Chinese version when the locale asks for it.\<close>

datatype notice = Deprecated string | Deprecated_cn string

record 's legacy =
  lg_warned :: bool
  lg_console :: "notice list"
  lg_postcss :: "'s plugin option"

definition old_plugin :: "'s legacy" where
  "old_plugin = \<lparr>lg_warned = False, lg_console = [], lg_postcss = None\<rparr>"

fun name_it :: "string \<Rightarrow> 's plugin \<Rightarrow> 's plugin" where
  "name_it n (FunctionPlugin m f) = FunctionPlugin (Some n) f"
| "name_it n (ObjectPlugin m hs) = ObjectPlugin n hs"

definition plugin_call :: "string \<Rightarrow> string option \<Rightarrow> ('a \<Rightarrow> 's plugin) \<Rightarrow> 'a \<Rightarrow> 's legacy \<Rightarrow> 's plugin \<times> 's legacy" where
  "plugin_call name lang init a g =
     (name_it name (init a),
      if lg_warned g then g
      else g\<lparr>lg_warned := True,
             lg_console := lg_console g @ Deprecated name #
               (case lang of Some l \<Rightarrow> if has_prefix l ''cn'' then [Deprecated_cn name] else [] | None \<Rightarrow> [])\<rparr>)"

text \<open>The property \<^verbatim>\<open>postcss\<close> makes the plugin without arguments once.\<close>

definition plugin_postcss :: "string \<Rightarrow> string option \<Rightarrow> ('a \<Rightarrow> 's plugin) \<Rightarrow> 'a \<Rightarrow> 's legacy \<Rightarrow> 's plugin \<times> 's legacy" where
  "plugin_postcss name lang init no_args g =
     (case lg_postcss g of
        Some p \<Rightarrow> (p, g)
      | None \<Rightarrow> (case plugin_call name lang init no_args g of (p, g1) \<Rightarrow> (p, g1\<lparr>lg_postcss := Some p\<rparr>)))"

definition plugin_process ::
  "(string \<Rightarrow> string) \<Rightarrow> (string \<Rightarrow> thrown + nref) \<Rightarrow> bool \<Rightarrow> string \<Rightarrow> string option \<Rightarrow> ('a \<Rightarrow> 's plugin) \<Rightarrow> 'a \<Rightarrow> string \<Rightarrow> 's world \<Rightarrow> 's legacy \<Rightarrow> 's processed \<times> 's legacy" where
  "plugin_process clearAnnotation parse custom_syntax name lang init a css w g =
     (case plugin_call name lang init a g of (p, g1) \<Rightarrow> (process clearAnnotation parse custom_syntax [p] css w, g1))"

end
