(* ===== verification/Tw_Plugin.thy ===== *)
theory Tw_Plugin
  imports Tw_Merge Tw_Duplicates Css_Process
begin

text \<open>
  The plugin as PostCSS sees it (the last modules of Tailwind in \<^verbatim>\<open>tailwind.js\<close>): the debug switch (\<^verbatim>\<open>I_\<close>), the
  \<^verbatim>\<open>@config\<close> directive (\<^verbatim>\<open>Py\<close>), the sequence of
  the passes over a style sheet (\<^verbatim>\<open>$s\<close>), and the plugin with its timers (\<^verbatim>\<open>Dy\<close>).  Passes without a theory
  here are arguments, and so are paths and the file system.
\<close>

section \<open>The debug switch\<close>

definition DEBUG_set :: "string option \<Rightarrow> bool" where
  "DEBUG_set r =
     (case r of
        None \<Rightarrow> False
      | Some s \<Rightarrow>
          if s = ''true'' \<or> s = ''1'' then True
          else if s = ''false'' \<or> s = ''0'' then False
          else if s = ''*'' then True
          else let e = map (\<lambda>t. hd (split_on (CHR '':'') t)) (split_on (CHR '','') s)
            in if ''-tailwindcss'' \<in> set e then False else ''tailwindcss'' \<in> set e)"

section \<open>The configuration directive\<close>

definition quote_char :: "char \<Rightarrow> bool" where
  "quote_char c \<longleftrightarrow> c = CHR 0x22 \<or> c = CHR 0x27"

text \<open>\<^verbatim>\<open>/(['"])(.*?)\1/\<close>: the first quoted text on one line.\<close>

fun first_quoted :: "string \<Rightarrow> string option" where
  "first_quoted [] = None"
| "first_quoted (c # cs) =
     (let body = takeWhile (\<lambda>x. x \<noteq> c \<and> x \<noteq> newline \<and> x \<noteq> CHR 0x0D) cs in
      if quote_char c \<and> length body < length cs \<and> cs ! length body = c then Some body else first_quoted cs)"

text \<open>The directives in their order, each with the file it comes from and its parameters.\<close>

datatype config_error = No_from | Second_config | No_path | Absolute_path | Missing_file string

record paths =
  pt_isAbsolute :: "string \<Rightarrow> bool"
  pt_dirname :: "string \<Rightarrow> string"
  pt_resolve :: "string \<Rightarrow> string \<Rightarrow> string"
  pt_exists :: "string \<Rightarrow> bool"

text \<open>\<open>from\<close>: the file named in the options; \<open>t\<close>: the path found so far.  An empty path counts as none.\<close>

fun config_loop :: "paths \<Rightarrow> string option \<Rightarrow> string option \<Rightarrow> (string option \<times> string) list \<Rightarrow> config_error + string option" where
  "config_loop P from_file t [] = Inr (if t = Some [] then None else t)"
| "config_loop P from_file t ((file, params) # rules) =
     (case (case file of Some f \<Rightarrow> Some f | None \<Rightarrow> from_file) of
        None \<Rightarrow> Inl No_from
      | Some i \<Rightarrow>
          if t \<noteq> None \<and> t \<noteq> Some [] then Inl Second_config
          else case first_quoted params of
            None \<Rightarrow> Inl No_path
          | Some a \<Rightarrow>
              if pt_isAbsolute P a then Inl Absolute_path
              else let p = pt_resolve P (pt_dirname P i) a in
                if \<not> pt_exists P p then Inl (Missing_file a) else config_loop P from_file (Some p) rules)"

definition findAtConfigPath :: "paths \<Rightarrow> string option \<Rightarrow> (string option \<times> string) list \<Rightarrow> config_error + string option" where
  "findAtConfigPath P from_file rules = config_loop P from_file None rules"

section \<open>All the passes\<close>

datatype tailwind_error = Bad_config config_error | Bad_directive directive_error | Type_error | Dash_separator | Other_error string

text \<open>The passes that are arguments: \<open>'c\<close> is the context that the set-up makes of the directives, the number of \<^verbatim>\<open>@apply\<close> rules and the style sheet.\<close>

record 'c passes =
  ps_setup :: "string set \<Rightarrow> nat \<Rightarrow> css_node \<Rightarrow> string + 'c"
  ps_separator :: "'c \<Rightarrow> string"
  ps_expandTailwind :: "'c \<Rightarrow> css_node \<Rightarrow> string + css_node"
  ps_expandApply :: "'c \<Rightarrow> css_node \<Rightarrow> string + css_node"
  ps_functions :: "'c \<Rightarrow> css_node \<Rightarrow> string + css_node"
  ps_screens :: "'c \<Rightarrow> css_node \<Rightarrow> string + css_node"
  ps_defaults :: "'c \<Rightarrow> css_node \<Rightarrow> string + css_node"

definition pass :: "(css_node \<Rightarrow> string + css_node) \<Rightarrow> tailwind_error + css_node \<Rightarrow> tailwind_error + css_node" where
  "pass f x = (case x of Inl e \<Rightarrow> Inl e | Inr r \<Rightarrow> (case f r of Inl t \<Rightarrow> Inl (Other_error t) | Inr s \<Rightarrow> Inr s))"

definition partition_pass :: "tailwind_error + css_node \<Rightarrow> tailwind_error + css_node" where
  "partition_pass x =
     (case x of Inl e \<Rightarrow> Inl e | Inr r \<Rightarrow> (case partitionApplyAtRules r of None \<Rightarrow> Inl Type_error | Some s \<Rightarrow> Inr s))"

definition processTailwindFeatures :: "'c passes \<Rightarrow> css_node \<Rightarrow> tailwind_error + css_node" where
  "processTailwindFeatures P root =
     (case normalizeTailwindDirectives root of
        Inl e \<Rightarrow> Inl (Bad_directive e)
      | Inr (r, directives, applies) \<Rightarrow>
          (case partition_pass (Inr r) of
             Inl e \<Rightarrow> Inl e
           | Inr r1 \<Rightarrow>
               (case ps_setup P directives applies r1 of
                  Inl t \<Rightarrow> Inl (Other_error t)
                | Inr c \<Rightarrow>
                    if ps_separator P c = ''-'' then Inl Dash_separator
                    else
                      (case pass (ps_defaults P c) (pass (ps_screens P c) (pass (ps_functions P c) (pass (ps_expandApply P c)
                              (partition_pass (pass (ps_expandTailwind P c) (Inr r1)))))) of
                         Inl e \<Rightarrow> Inl e
                       | Inr r2 \<Rightarrow> Inr (collapseDuplicateDeclarations (collapseAdjacentRules r2))))))"

text \<open>
  One style sheet: its \<^verbatim>\<open>@config\<close> directives give the configuration, which stays for the style sheets
  after it; without one the last one is used.  \<open>configs\<close> and \<open>without\<close> are the directives of a tree and the tree without them.
\<close>

definition run_tailwind ::
  "paths \<Rightarrow> (string option \<Rightarrow> 'c passes) \<Rightarrow> string option \<Rightarrow> (css_node \<Rightarrow> (string option \<times> string) list) \<Rightarrow> (css_node \<Rightarrow> css_node) \<Rightarrow>
   css_node \<Rightarrow> string option \<Rightarrow> (tailwind_error + css_node) \<times> string option" where
  "run_tailwind P passes_for from_file configs without root config =
     (case findAtConfigPath P from_file (configs root) of
        Inl e \<Rightarrow> (Inl (Bad_config e), config)
      | Inr found \<Rightarrow>
          let config1 = (case found of Some p \<Rightarrow> Some p | None \<Rightarrow> config)
          in (processTailwindFeatures (passes_for config1) (without root), config1))"

text \<open>The plugin that is given to PostCSS: with the debug switch a timer before and after.\<close>

definition tailwind_plugin :: "bool \<Rightarrow> 's visitor \<Rightarrow> 's visitor \<Rightarrow> 's visitor \<Rightarrow> 's item" where
  "tailwind_plugin debug time_start main time_end =
     With_plugins
       ((if debug then [FunctionPlugin None time_start] else []) @ [FunctionPlugin None main] @
        (if debug then [FunctionPlugin None time_end] else []))"

section \<open>The configuration\<close>

text \<open>
  The configuration of a style sheet: none without a \<^verbatim>\<open>@config\<close> directive, and a path exactly for a single
  one that comes from a known file and quotes a relative path to an existing file; anything else is an error.
\<close>

theorem config_directive:
  assumes "\<And>d a. pt_resolve P d a \<noteq> []"
  shows "(findAtConfigPath P from_file rules = Inr None \<longleftrightarrow> rules = []) \<and>
    (findAtConfigPath P from_file rules = Inr (Some p) \<longleftrightarrow>
       (\<exists>f params i a. rules = [(f, params)] \<and> (case f of Some g \<Rightarrow> Some g | None \<Rightarrow> from_file) = Some i \<and>
          first_quoted params = Some a \<and> \<not> pt_isAbsolute P a \<and> p = pt_resolve P (pt_dirname P i) a \<and> pt_exists P p))"
proof (cases rules)
  case (Cons x rest)
  obtain f params where x: "x = (f, params)" by fastforce
  have later: "config_loop P from_file (Some q) (y # ys) \<noteq> Inr z" if "q \<noteq> []" for q y ys z
    using that by (cases y) (auto split: option.split)
  show ?thesis
    by (cases rest; cases "case f of Some g \<Rightarrow> Some g | None \<Rightarrow> from_file"; cases "first_quoted params")
      (auto simp: findAtConfigPath_def Cons x Let_def assms later split: if_splits)
qed (simp add: findAtConfigPath_def)

text \<open>A file system with one file.\<close>

definition demo_paths :: paths where
  "demo_paths = \<lparr>pt_isAbsolute = (\<lambda>a. has_prefix a ''/''), pt_dirname = (\<lambda>f. ''/css''), pt_resolve = (\<lambda>d a. d @ ''/'' @ a),
     pt_exists = (\<lambda>p. p = ''/css/tw.js'')\<rparr>"

theorem config_directive_witness:
  "findAtConfigPath demo_paths (Some ''/css/app.css'') [(None, [CHR 0x22] @ ''tw.js'' @ [CHR 0x22])] = Inr (Some ''/css/tw.js'') \<and>
   findAtConfigPath demo_paths (Some ''/css/app.css'') [] = Inr None"
proof -
  have "pt_resolve demo_paths d a \<noteq> []" for d a by (simp add: demo_paths_def)
  note c = config_directive [OF this]
  have "first_quoted ([CHR 0x22] @ ''tw.js'' @ [CHR 0x22]) = Some ''tw.js'' \<and> \<not> pt_isAbsolute demo_paths ''tw.js'' \<and>
      ''/css/tw.js'' = pt_resolve demo_paths (pt_dirname demo_paths ''/css/app.css'') ''tw.js'' \<and> pt_exists demo_paths ''/css/tw.js''"
    by code_simp
  then show ?thesis using c [of "Some ''/css/app.css''"] by auto
qed

text \<open>A configuration stays: a style sheet without a directive is compiled with the one of a style sheet before it.\<close>

lemma configuration_stays:
  assumes "findAtConfigPath P from_file (configs first) = Inr (Some p)" "configs sheet = []"
  shows "run_tailwind P passes_for from_file configs without sheet (snd (run_tailwind P passes_for from_file configs without first None)) =
    (processTailwindFeatures (passes_for (Some p)) (without sheet), Some p)"
  using assms by (simp add: run_tailwind_def findAtConfigPath_def Let_def)

text \<open>Without the debug switch the processor gets one plugin.\<close>

lemma tailwind_plugin_normalized:
  "processor_normalize [Creator (tailwind_plugin debug t0 main t1)] =
     Inr (if debug then [FunctionPlugin None t0, FunctionPlugin None main, FunctionPlugin None t1] else [FunctionPlugin None main])"
  by (simp add: tailwind_plugin_def)

end
