(* ===== verification/Css_Process_Laws.thy ===== *)
theory Css_Process_Laws
  imports Css_Process
begin

text \<open>
  The properties of \<open>Css_Process\<close>: the recursive walk and the stack machine call the same visitors in the
  same order, which is that of the tree, and a lazy result runs its plugins once.
\<close>

declare walk_from.simps [code] run_stack.simps [code] until_clean.simps [code] cleanMarks.simps [code]

section \<open>The calls of a tree\<close>

text \<open>The nodes below a node, as a tree of references.\<close>

datatype shape = Shape (shape_root: nref) (shape_kids: "shape list")

fun shape_nodes :: "shape \<Rightarrow> nref list" where
  "shape_nodes (Shape n ts) = n # concat (map shape_nodes ts)"

fun fits :: "tree_heap \<Rightarrow> shape \<Rightarrow> bool" where
  "fits h (Shape n ts) \<longleftrightarrow>
     kids h n = map shape_root ts \<and> (ts \<noteq> [] \<longrightarrow> tn_kind (h n) \<in> {TRoot, TAtRule, TRule}) \<and>
     list_all (\<lambda>t. tn_parent (h (shape_root t)) \<noteq> None \<and> fits h t) ts"

text \<open>A visitor that only inspects: it computes on the state of its plugin, and may throw.\<close>

type_synonym 's inspection = "nref \<Rightarrow> 's \<Rightarrow> 's \<times> thrown option"

definition inspecting :: "'s inspection \<Rightarrow> 's visitor" where
  "inspecting f n w =
     (case f n (w_user w) of
        (u, e) \<Rightarrow> (w\<lparr>w_user := u\<rparr>, case e of None \<Rightarrow> Returned | Some x \<Rightarrow> Threw x))"

type_synonym 's inspections = "(string option \<times> 's inspection) list"

definition inspecting_calls :: "'s inspections \<Rightarrow> 's calls" where
  "inspecting_calls = map (\<lambda>(p, f). (p, inspecting f))"

definition inspecting_listeners :: "(string, 's inspections) gomap \<Rightarrow> 's listeners" where
  "inspecting_listeners = map (\<lambda>(e, fs). (e, inspecting_calls fs))"

definition node_calls :: "nref \<Rightarrow> 's inspections \<Rightarrow> (string option \<times> 's inspection \<times> nref) list" where
  "node_calls n = map (\<lambda>(p, f). (p, f, n))"

definition heard :: "(string, 's inspections) gomap \<Rightarrow> string \<Rightarrow> 's inspections" where
  "heard L s = (case gget L s of None \<Rightarrow> [] | Some fs \<Rightarrow> fs)"

text \<open>
  The calls for a tree: those of a node's events, with all the calls for its children at the place
  of the children among the events.
\<close>

fun shape_calls :: "(string, 's inspections) gomap \<Rightarrow> (nref \<Rightarrow> event list) \<Rightarrow> shape \<Rightarrow> (string option \<times> 's inspection \<times> nref) list" where
  "shape_calls L ev (Shape n ts) =
     concat (map (\<lambda>e. case e of
         Named s \<Rightarrow> node_calls n (heard L s)
       | Children \<Rightarrow> concat (map (shape_calls L ev) ts)) (ev n))"

text \<open>Calls in their order, up to the first that throws.\<close>

fun make_calls :: "(string option \<times> 's inspection \<times> nref) list \<Rightarrow> string option \<times> 's \<Rightarrow> (string option \<times> 's) \<times> failure option" where
  "make_calls [] s = (s, None)"
| "make_calls ((p, f, n) # cs) s =
     (case f n (snd s) of
        (u, Some e) \<Rightarrow> ((p, u), Some (handleError e (Some n) p))
      | (u, None) \<Rightarrow> make_calls cs (p, u))"

lemma make_calls_append:
  "make_calls (as @ bs) s = (case make_calls as s of (s1, None) \<Rightarrow> make_calls bs s1 | (s1, Some e) \<Rightarrow> (s1, Some e))"
  by (induction as arbitrary: s) (auto split: option.splits prod.splits)

lemma gget_inspecting: "gget (inspecting_listeners L) e = map_option inspecting_calls (gget L e)"
  unfolding inspecting_listeners_def by (induction L) auto

section \<open>Runs that leave the tree alone\<close>

text \<open>
  From \<open>w\<close> to \<open>w'\<close> the calls \<open>cs\<close> were made, iterators changed only for nodes of \<open>N\<close>, and without an
  error exactly the nodes of \<open>C\<close> became clean.
\<close>

definition walked :: "nref set \<Rightarrow> nref set \<Rightarrow> (string option \<times> 's inspection \<times> nref) list \<Rightarrow> 's world \<Rightarrow> 's world \<Rightarrow> failure option \<Rightarrow> bool" where
  "walked N C cs w w' r \<longleftrightarrow>
     w_name w' = w_name w \<and>
     (\<forall>m. tn_kind (w_tree w' m) = tn_kind (w_tree w m) \<and> tn_nodes (w_tree w' m) = tn_nodes (w_tree w m) \<and>
          tn_parent (w_tree w' m) = tn_parent (w_tree w m)) \<and>
     (\<forall>m. m \<notin> N \<longrightarrow> tn_indexes (w_tree w' m) = tn_indexes (w_tree w m)) \<and>
     make_calls cs (w_lastPlugin w, w_user w) = ((w_lastPlugin w', w_user w'), r) \<and>
     (r = None \<longrightarrow> w_clean w' = (\<lambda>m. m \<in> C \<or> w_clean w m))"

lemma walked_refl [intro]: "walked N {} [] w w None"
  by (simp add: walked_def)

lemma walked_trans:
  assumes "walked N C as w w1 None" "walked N' C' bs w1 w2 r"
  shows "walked (N \<union> N') (C \<union> C') (as @ bs) w w2 r"
  using assms by (auto simp: walked_def make_calls_append)

lemma walked_mono: "walked N C cs w w' r \<Longrightarrow> N \<subseteq> N' \<Longrightarrow> walked N' C cs w w' r"
  by (auto simp: walked_def)

lemma walked_stop:
  assumes "walked N C as w w1 (Some e)" "N \<subseteq> N'"
  shows "walked N' C' (as @ bs) w w1 (Some e)"
  using assms by (auto simp: walked_def make_calls_append)

text \<open>What a run keeps.\<close>

definition anchored :: "'s world \<Rightarrow> nref \<Rightarrow> bool" where
  "anchored w n \<longleftrightarrow> tn_kind (w_tree w n) = TRoot \<or> tn_parent (w_tree w n) \<noteq> None"

lemma fits_cong:
  assumes "\<And>m. tn_kind (h' m) = tn_kind (h m)" "\<And>m. tn_nodes (h' m) = tn_nodes (h m)" "\<And>m. tn_parent (h' m) = tn_parent (h m)"
  shows "fits h' t = fits h t"
proof (induction t)
  case (Shape n ts)
  have "kids h' n = kids h n" by (simp add: kids_def assms)
  with Shape assms show ?case by (auto simp: list_all_iff)
qed

lemma walked_keeps:
  assumes "walked N C cs w w' r"
  shows "fits (w_tree w') t = fits (w_tree w) t" "anchored w' = anchored w" "events_of w' = events_of w"
    "kids (w_tree w') = kids (w_tree w)" "tn_nodes (w_tree w' m) = tn_nodes (w_tree w m)"
    "m \<notin> N \<Longrightarrow> tn_indexes (w_tree w' m) = tn_indexes (w_tree w m)"
    "r = None \<Longrightarrow> w_clean w' m \<longleftrightarrow> m \<in> C \<or> w_clean w m"
proof -
  note a = assms [unfolded walked_def]
  show "fits (w_tree w') t = fits (w_tree w) t" using a by (intro fits_cong) auto
  show "anchored w' = anchored w" "events_of w' = events_of w" "kids (w_tree w') = kids (w_tree w)"
    using a by (auto simp: anchored_def events_of_def kids_def fun_eq_iff)
qed (use assms in \<open>auto simp: walked_def\<close>)

lemma walked_set_clean: "walked {} {n} [] w (set_clean n True w) None"
  by (auto simp: walked_def set_clean_def fun_eq_iff)

lemma walked_index: "n \<in> N \<Longrightarrow> walked N {} [] w (set_index n t i w) None" "n \<in> N \<Longrightarrow> walked N {} [] w (delete_index n t w) None"
  "n \<in> N \<Longrightarrow> walked N {} [] w (bump_index n t w) None"
  "n \<in> N \<Longrightarrow> start_iterator n w = (t, w1) \<Longrightarrow> walked N {} [] w w1 None"
  by (auto simp: walked_def set_index_def delete_index_def bump_index_def start_iterator_def getIterator_def Let_def split: option.split)

lemma start_iterator_index:
  "start_iterator n w = (t, w1) \<Longrightarrow> gget (tn_indexes (w_tree w1 n)) t = Some 0 \<and> t \<noteq> 0"
  by (auto simp: start_iterator_def getIterator_def Let_def)

section \<open>The recursive walk\<close>

lemma visit_one:
  assumes "inspecting f n (set_last p w) = (w1, o1)"
  obtains (returned) "o1 = Returned" "walked {} {} [(p, f, n)] w w1 None"
  | (threw) e where "o1 = Threw e" "walked {} {} [(p, f, n)] w w1 (Some (handleError e (Some n) p))" "w_lastPlugin w1 = p"
proof (cases "f n (w_user w)")
  case (Pair u e)
  with assms have w: "w1 = w\<lparr>w_lastPlugin := p, w_user := u\<rparr>" "o1 = (case e of None \<Rightarrow> Returned | Some x \<Rightarrow> Threw x)"
    by (auto simp: inspecting_def set_last_def)
  show ?thesis
  proof (cases e)
    case None
    with w Pair show ?thesis by (intro returned) (auto simp: walked_def)
  next
    case (Some x)
    with w Pair show ?thesis by (intro threw [of x]) (auto simp: walked_def)
  qed
qed

lemma visit_all:
  assumes "anchored w n"
  shows "\<exists>w' r. visitSync (inspecting_calls fs) n w = (w', case r of None \<Rightarrow> Going | Some e \<Rightarrow> Failed e) \<and>
                walked {} {} (node_calls n fs) w w' r"
  using assms
proof (induction fs arbitrary: w)
  case Nil
  have "walked {} {} (node_calls n []) w w None" by (auto simp: walked_def node_calls_def)
  then show ?case by (intro exI [of _ w] exI [of _ None]) (simp add: inspecting_calls_def)
next
  case (Cons pf fs)
  obtain p f where [simp]: "pf = (p, f)" by fastforce
  obtain w1 o1 where v: "inspecting f n (set_last p w) = (w1, o1)" by fastforce
  have cons: "inspecting_calls ((p, f) # fs) = (p, inspecting f) # inspecting_calls fs" "node_calls n ((p, f) # fs) = [(p, f, n)] @ node_calls n fs"
    by (simp_all add: inspecting_calls_def node_calls_def)
  from v show ?case
  proof (cases rule: visit_one)
    case returned
    have a: "anchored w1 n" using walked_keeps(2) [OF returned(2)] Cons.prems by simp
    from Cons.IH [OF a] obtain w' r where wr: "visitSync (inspecting_calls fs) n w1 = (w', case r of None \<Rightarrow> Going | Some e \<Rightarrow> Failed e)"
      "walked {} {} (node_calls n fs) w1 w' r" by auto
    have "visitSync (inspecting_calls (pf # fs)) n w = visitSync (inspecting_calls fs) n w1"
      using a by (auto simp: cons v returned(1) anchored_def)
    moreover have "walked {} {} (node_calls n (pf # fs)) w w' r"
      using walked_trans [OF returned(2) wr(2)] by (simp add: cons)
    ultimately show ?thesis using wr(1) by auto
  next
    case (threw e)
    have "visitSync (inspecting_calls (pf # fs)) n w = (w1, Failed (handleError e (Some n) p))"
      by (simp add: cons v threw(1,3))
    moreover have "walked {} {} (node_calls n (pf # fs)) w w1 (Some (handleError e (Some n) p))"
      using walked_stop [OF threw(2)] by (auto simp: cons)
    ultimately show ?thesis by (intro exI [of _ w1] exI [of _ "Some (handleError e (Some n) p)"]) simp
  qed
qed

text \<open>A stage of the walk goes on to another, or stops with an error; \<open>goes_on\<close> says what was done before.\<close>

definition goes_on ::
  "('s world \<Rightarrow> ('s world \<times> failure option) option) \<Rightarrow> ('s world \<Rightarrow> ('s world \<times> failure option) option) \<Rightarrow>
   nref set \<Rightarrow> nref set \<Rightarrow> (string option \<times> 's inspection \<times> nref) list \<Rightarrow> 's world \<Rightarrow> bool" where
  "goes_on F G N C cs w \<longleftrightarrow>
     (\<exists>w' r. walked N C cs w w' r \<and> F w = (case r of None \<Rightarrow> G w' | Some e \<Rightarrow> Some (w', Some e)))"

lemma goes_on_refl: "F w = G w \<Longrightarrow> goes_on F G N {} [] w"
  unfolding goes_on_def by (intro exI [of _ w] exI [of _ None]) auto

lemma goes_on_self: "goes_on F F {} {} [] w"
  by (rule goes_on_refl) simp

lemma goes_on_trans:
  assumes "goes_on F G N C as w"
    and "\<And>w'. walked N C as w w' None \<Longrightarrow> goes_on G H N' C' bs w'"
  shows "goes_on F H (N \<union> N') (C \<union> C') (as @ bs) w"
proof -
  from assms(1) obtain w1 r where w1: "walked N C as w w1 r" "F w = (case r of None \<Rightarrow> G w1 | Some e \<Rightarrow> Some (w1, Some e))"
    by (auto simp: goes_on_def)
  show ?thesis
  proof (cases r)
    case (Some e)
    with walked_stop [of N C as w w1 e "N \<union> N'" "C \<union> C'" bs] w1 show ?thesis
      unfolding goes_on_def by (intro exI [of _ w1] exI [of _ "Some e"]) simp
  next
    case None
    with w1 assms(2) [of w1] obtain w2 r2 where w2: "walked N' C' bs w1 w2 r2" "G w1 = (case r2 of None \<Rightarrow> H w2 | Some e \<Rightarrow> Some (w2, Some e))"
      by (auto simp: goes_on_def)
    have "walked (N \<union> N') (C \<union> C') (as @ bs) w w2 r2" using walked_trans w1(1) w2(1) None by blast
    with w2(2) w1(2) None show ?thesis unfolding goes_on_def by (intro exI [of _ w2] exI [of _ r2]) simp
  qed
qed

lemma goes_on_step:
  assumes "walked N C [] w w1 None" "F w = G w1" "goes_on G H N' C' bs w1"
  shows "goes_on F H (N \<union> N') (C \<union> C') bs w"
proof -
  obtain w2 r where w2: "walked N' C' bs w1 w2 r" "G w1 = (case r of None \<Rightarrow> H w2 | Some e \<Rightarrow> Some (w2, Some e))"
    using assms(3) by (auto simp: goes_on_def)
  have "walked (N \<union> N') (C \<union> C') bs w w2 r" using walked_trans [OF assms(1) w2(1)] by simp
  with w2(2) assms(2) show ?thesis unfolding goes_on_def by (intro exI [of _ w2] exI [of _ r]) simp
qed

lemma goes_on_eq: "goes_on F G N C as w \<Longrightarrow> N = N' \<Longrightarrow> C = C' \<Longrightarrow> as = bs \<Longrightarrow> goes_on F G N' C' bs w"
  by simp

lemma walk_named:
  assumes "anchored w n"
  shows "goes_on (walk_from (inspecting_listeners L) (Events n (Named s # es))) (walk_from (inspecting_listeners L) (Events n es))
           {} {} (node_calls n (heard L s)) w"
proof (cases "gget L s")
  case None
  then have "gget (inspecting_listeners L) s = None" "node_calls n (heard L s) = []"
    by (simp_all add: gget_inspecting heard_def node_calls_def)
  then show ?thesis by (auto intro!: goes_on_refl simp: walk_from.simps [of _ "Events n (Named s # es)"])
next
  case (Some fs)
  obtain w' r where v: "visitSync (inspecting_calls fs) n w = (w', case r of None \<Rightarrow> Going | Some e \<Rightarrow> Failed e)"
    "walked {} {} (node_calls n fs) w w' r" using visit_all [OF assms, of fs] by blast
  have "walk_from (inspecting_listeners L) (Events n (Named s # es)) w =
      (case r of None \<Rightarrow> walk_from (inspecting_listeners L) (Events n es) w' | Some e \<Rightarrow> Some (w', Some e))"
    using v(1) by (cases r) (simp_all add: walk_from.simps [of _ "Events n (Named s # es)"] gget_inspecting Some)
  then show ?thesis using v(2) unfolding goes_on_def by (auto simp: heard_def Some)
qed

text \<open>The walk of a subtree begins in a world that has it, undisturbed and not yet visited.\<close>

definition ready :: "(nref \<Rightarrow> event list) \<Rightarrow> shape \<Rightarrow> 's world \<Rightarrow> bool" where
  "ready ev t w \<longleftrightarrow>
     events_of w = ev \<and> fits (w_tree w) t \<and> anchored w (shape_root t) \<and> distinct (shape_nodes t) \<and>
     (\<forall>m \<in> set (shape_nodes t). m \<noteq> shape_root t \<longrightarrow> \<not> w_clean w m)"

abbreviation finish :: "'s world \<Rightarrow> ('s world \<times> failure option) option" where
  "finish \<equiv> \<lambda>w. Some (w, None)"

lemma goes_on_bind:
  assumes "goes_on F finish N C cs w"
  shows "goes_on (\<lambda>w. Option.bind (F w) (\<lambda>r. case r of (w1, None) \<Rightarrow> G w1 | (w1, Some e) \<Rightarrow> Some (w1, Some e))) G N C cs w"
  using assms unfolding goes_on_def by (auto split: option.splits) blast+

lemma root_in_shape: "shape_root t \<in> set (shape_nodes t)"
  by (cases t) simp

text \<open>The children that are still to come, at the place of the iterator.\<close>

definition coming :: "(nref \<Rightarrow> event list) \<Rightarrow> nref \<Rightarrow> nat \<Rightarrow> shape list \<Rightarrow> 's world \<Rightarrow> bool" where
  "coming ev n t us w \<longleftrightarrow>
     events_of w = ev \<and> anchored w n \<and> distinct (n # concat (map shape_nodes us)) \<and>
     (\<exists>ps. kids (w_tree w) n = ps @ map shape_root us \<and> gget (tn_indexes (w_tree w n)) t = Some (int (length ps))) \<and>
     (\<forall>u \<in> set us. ready ev u w \<and> \<not> w_clean w (shape_root u))"

lemma coming_child:
  assumes "coming ev n t (u # us) w"
  shows "current_child n t w = Some (shape_root u)" "\<not> w_clean w (shape_root u)" "ready ev u w" "n \<notin> set (shape_nodes u)"
  using assms by (auto simp: coming_def current_child_def js_at_def nth_append)

lemma coming_end: "coming ev n t [] w \<Longrightarrow> current_child n t w = None"
  by (auto simp: coming_def current_child_def js_at_def)

text \<open>When a child is done, whenever its iterator was moved, the next ones are coming.\<close>

lemma ready_walked:
  assumes "ready ev u w" "walked N C cs w w' None" "set (shape_nodes u) \<inter> C = {}"
  shows "ready ev u w'"
  using assms walked_keeps [OF assms(2)] by (auto simp: ready_def)

lemma coming_next:
  assumes "coming ev n t (u # us) w" "walked N C cs w w' None" "C \<subseteq> set (shape_nodes u)"
    and "gget (tn_indexes (w_tree w' n)) t = map_option (\<lambda>i. i + 1) (gget (tn_indexes (w_tree w n)) t)"
  shows "coming ev n t us w'"
proof -
  note a = assms(1) [unfolded coming_def] and k = walked_keeps [OF assms(2)]
  obtain ps where ps: "kids (w_tree w) n = ps @ map shape_root (u # us)" "gget (tn_indexes (w_tree w n)) t = Some (int (length ps))"
    using a by auto
  have "kids (w_tree w') n = (ps @ [shape_root u]) @ map shape_root us" "gget (tn_indexes (w_tree w' n)) t = Some (int (length (ps @ [shape_root u])))"
    using ps k(4) assms(4) by simp_all
  moreover have "ready ev v w' \<and> \<not> w_clean w' (shape_root v)" if v: "v \<in> set us" for v
  proof -
    have "set (shape_nodes v) \<inter> set (shape_nodes u) = {}" using a v by auto
    with assms(3) have d: "set (shape_nodes v) \<inter> C = {}" by auto
    have "ready ev v w" "\<not> w_clean w (shape_root v)" using a v by auto
    with ready_walked [OF _ assms(2) d] k(7) d root_in_shape [of v] show ?thesis by auto
  qed
  ultimately show ?thesis using a k(2,3) unfolding coming_def by auto
qed

lemma bump_index_gget: "gget (tn_indexes (w_tree (bump_index n t w) n)) t = map_option (\<lambda>i. i + 1) (gget (tn_indexes (w_tree w n)) t)"
  by (auto simp: bump_index_def set_index_def split: option.split)

lemma walk_each:
  assumes "\<And>u w. u \<in> set us \<Longrightarrow> ready ev u w \<Longrightarrow>
      goes_on (walk_from ls (Visit (shape_root u))) finish (set (shape_nodes u)) (set (shape_nodes u)) (shape_calls L ev u) w"
    and "coming ev n t us w"
  shows "goes_on (walk_from ls (Each n t)) finish (insert n (set (concat (map shape_nodes us))))
           (set (concat (map shape_nodes us))) (concat (map (shape_calls L ev) us)) w"
  using assms
proof (induction us arbitrary: w)
  case Nil
  from coming_end [OF Nil.prems(2)] have "walk_from ls (Each n t) w = Some (w, None)" by (simp add: walk_from.simps [of _ "Each n t"])
  then show ?case by (auto intro: goes_on_refl)
next
  case (Cons u us)
  note c = coming_child [OF Cons.prems(2)]
  let ?rest = "\<lambda>w. walk_from ls (Each n t) (bump_index n t w)"
  have F: "walk_from ls (Each n t) w = (\<lambda>w. Option.bind (walk_from ls (Visit (shape_root u)) w)
      (\<lambda>r. case r of (w1, None) \<Rightarrow> ?rest w1 | (w1, Some e) \<Rightarrow> Some (w1, Some e))) w"
    by (subst walk_from.simps) (simp add: c(1,2))
  have one: "goes_on (walk_from ls (Visit (shape_root u))) finish (set (shape_nodes u)) (set (shape_nodes u)) (shape_calls L ev u) w"
    using Cons.prems(1) c(3) by simp
  have first: "goes_on (walk_from ls (Each n t)) ?rest (set (shape_nodes u)) (set (shape_nodes u)) (shape_calls L ev u) w"
    using goes_on_bind [OF one, of ?rest] F unfolding goes_on_def by simp
  have rest: "goes_on ?rest finish (insert n (set (concat (map shape_nodes us))))
      (set (concat (map shape_nodes us))) (concat (map (shape_calls L ev) us)) w'"
    if w': "walked (set (shape_nodes u)) (set (shape_nodes u)) (shape_calls L ev u) w w' None" for w'
  proof -
    have b: "walked {n} {} [] w' (bump_index n t w') None" by (rule walked_index) simp
    have "coming ev n t us (bump_index n t w')"
      by (rule coming_next [OF Cons.prems(2) walked_trans [OF w' b]])
        (use c(4) walked_keeps(6) [OF w' c(4)] in \<open>auto simp: bump_index_gget\<close>)
    from Cons.IH [OF _ this] Cons.prems(1)
    have "goes_on (walk_from ls (Each n t)) finish (insert n (set (concat (map shape_nodes us))))
      (set (concat (map shape_nodes us))) (concat (map (shape_calls L ev) us)) (bump_index n t w')" by simp
    then show ?thesis by (rule goes_on_eq [OF goes_on_step [OF b refl]]) auto
  qed
  show ?case by (rule goes_on_eq [OF goes_on_trans [OF first rest]]) auto
qed

lemma goes_on_mono: "goes_on F G N C cs w \<Longrightarrow> N \<subseteq> N' \<Longrightarrow> goes_on F G N' C cs w"
  unfolding goes_on_def using walked_mono by blast

text \<open>The events around the children.\<close>

lemma events_split:
  obtains as bs where "events_of w n = map Named as @ (if tn_kind (w_tree w n) \<in> {TRoot, TAtRule, TRule} then [Children] else []) @ map Named bs"
proof -
  let ?e = "\<lambda>as bs. map Named as @ (if tn_kind (w_tree w n) \<in> {TRoot, TAtRule, TRule} then [Children] else []) @ map Named bs"
  let ?t = "type_name (tn_kind (w_tree w n))" and ?x = "js_lower (w_name w n)"
  have "events_of w n = ?e [?t] [?t @ ''Exit''] \<or> events_of w n = ?e [?t, ?t @ ''-'' @ ?x] [?t @ ''Exit'', ?t @ ''Exit-'' @ ?x]"
    by (cases "tn_kind (w_tree w n)") (simp_all add: events_of_def getEvents_def Let_def)
  with that show ?thesis by blast
qed

lemma node_calls_split:
  assumes "ev n = map Named as @ (if kind \<in> {TRoot, TAtRule, TRule} then [Children] else []) @ map Named bs" "us \<noteq> [] \<longrightarrow> kind \<in> {TRoot, TAtRule, TRule}"
  shows "shape_calls L ev (Shape n us) = concat (map (\<lambda>s. node_calls n (heard L s)) as) @ concat (map (shape_calls L ev) us) @
           concat (map (\<lambda>s. node_calls n (heard L s)) bs)"
  using assms(2) by (auto simp: assms(1) comp_def)

lemma walk_names:
  assumes "anchored w n"
  shows "goes_on (walk_from (inspecting_listeners L) (Events n (map Named as @ es))) (walk_from (inspecting_listeners L) (Events n es))
           {} {} (concat (map (\<lambda>s. node_calls n (heard L s)) as)) w"
  using assms
proof (induction as arbitrary: w)
  case Nil
  show ?case by (auto intro: goes_on_refl)
next
  case (Cons s as)
  have "goes_on (walk_from (inspecting_listeners L) (Events n (map Named (s # as) @ es))) (walk_from (inspecting_listeners L) (Events n es))
      ({} \<union> {}) ({} \<union> {}) (node_calls n (heard L s) @ concat (map (\<lambda>s. node_calls n (heard L s)) as)) w"
    unfolding list.map append_Cons
  proof (rule goes_on_trans [OF walk_named [OF Cons.prems]])
    fix w'
    assume "walked {} {} (node_calls n (heard L s)) w w' None"
    from walked_keeps(2) [OF this] Cons.prems have "anchored w' n" by simp
    then show "goes_on (walk_from (inspecting_listeners L) (Events n (map Named as @ es)))
        (walk_from (inspecting_listeners L) (Events n es)) {} {} (concat (map (\<lambda>s. node_calls n (heard L s)) as)) w'"
      by (rule Cons.IH)
  qed
  then show ?case by simp
qed

text \<open>A node whose own visit has begun, in front of its children.\<close>

definition opened :: "(nref \<Rightarrow> event list) \<Rightarrow> nref \<Rightarrow> shape list \<Rightarrow> 's world \<Rightarrow> bool" where
  "opened ev n us w \<longleftrightarrow> ready ev (Shape n us) w \<and> w_clean w n"

lemma ready_kid:
  assumes "ready ev (Shape n us) w" "u \<in> set us"
  shows "ready ev u w" "\<not> w_clean w (shape_root u)"
proof -
  note a = assms(1) [unfolded ready_def]
  have s: "set (shape_nodes u) \<subseteq> set (shape_nodes (Shape n us))" "n \<notin> set (shape_nodes u)" using a assms(2) by auto
  moreover have "\<forall>m \<in> set (shape_nodes (Shape n us)). m \<noteq> n \<longrightarrow> \<not> w_clean w m" using a by simp
  ultimately have d: "\<forall>m \<in> set (shape_nodes u). \<not> w_clean w m" by (metis subsetD)
  have "fits (w_tree w) u" "anchored w (shape_root u)" using a assms(2) by (auto simp: list_all_iff anchored_def)
  moreover have "distinct (shape_nodes u)" using a assms(2) by (auto simp: distinct_concat_iff)
  ultimately show "ready ev u w" using a d by (auto simp: ready_def)
  show "\<not> w_clean w (shape_root u)" using d root_in_shape [of u] by blast
qed

lemma opened_start:
  assumes "opened ev n us w" "start_iterator n w = (t, w1)"
  shows "coming ev n t us w1"
proof -
  have s: "walked {n} {} [] w w1 None" by (rule walked_index(4) [OF _ assms(2)]) simp
  note k = walked_keeps [OF s]
  have o: "ready ev (Shape n us) w" using assms(1) by (simp add: opened_def)
  have "ready ev u w1 \<and> \<not> w_clean w1 (shape_root u)" if u: "u \<in> set us" for u
    using ready_kid [OF o u] ready_walked [OF _ s] k(7) by simp
  moreover have "gget (tn_indexes (w_tree w1 n)) t = Some 0" using start_iterator_index [OF assms(2)] by simp
  moreover have "kids (w_tree w1) n = [] @ map shape_root us" "events_of w1 = ev" "anchored w1 n" "distinct (n # concat (map shape_nodes us))"
    using o k(2-4) by (auto simp: ready_def)
  ultimately show ?thesis unfolding coming_def by fastforce
qed

lemma walk_children:
  assumes "\<And>u w. u \<in> set us \<Longrightarrow> ready ev u w \<Longrightarrow>
      goes_on (walk_from ls (Visit (shape_root u))) finish (set (shape_nodes u)) (set (shape_nodes u)) (shape_calls L ev u) w"
    and "opened ev n us w"
  shows "goes_on (walk_from ls (Events n (Children # es))) (walk_from ls (Events n es))
           (insert n (set (concat (map shape_nodes us)))) (set (concat (map shape_nodes us))) (concat (map (shape_calls L ev) us)) w"
proof (cases "tn_nodes (w_tree w n)")
  case None
  then have "us = []" using assms(2) by (simp add: opened_def ready_def kids_def)
  moreover have "goes_on (walk_from ls (Events n (Children # es))) (walk_from ls (Events n es)) {n} {} [] w"
    using None by (intro goes_on_refl) (simp add: walk_from.simps [of _ "Events n (Children # es)"])
  ultimately show ?thesis by simp
next
  case (Some ns)
  obtain t w1 where st: "start_iterator n w = (t, w1)" by fastforce
  let ?N = "insert n (set (concat (map shape_nodes us)))" and ?C = "set (concat (map shape_nodes us))" and ?cs = "concat (map (shape_calls L ev) us)"
  let ?del = "\<lambda>w. walk_from ls (Events n es) (delete_index n t w)"
  let ?F = "\<lambda>w. Option.bind (walk_from ls (Each n t) w) (\<lambda>r. case r of (w1, None) \<Rightarrow> ?del w1 | (w1, Some e) \<Rightarrow> Some (w1, Some e))"
  have F: "walk_from ls (Events n (Children # es)) w = ?F w1"
    by (subst walk_from.simps) (simp add: st Some)
  have s: "walked {n} {} [] w w1 None" by (rule walked_index(4) [OF _ st]) simp
  have "goes_on ?F ?del ?N ?C ?cs w1"
    by (rule goes_on_bind [OF walk_each [OF assms(1) opened_start [OF assms(2) st]]])
  from goes_on_step [where F = "walk_from ls (Events n (Children # es))" and G = ?F, OF s F this] have one: "goes_on (walk_from ls (Events n (Children # es))) ?del ?N ?C ?cs w"
    by (rule goes_on_eq) auto
  have "goes_on ?del (walk_from ls (Events n es)) {n} {} [] w'" for w'
    by (rule goes_on_eq [OF goes_on_step [OF walked_index(2) refl goes_on_refl [OF refl]]]) auto
  from goes_on_trans [OF one this] show ?thesis by (rule goes_on_eq) auto
qed

lemma opened_walked:
  assumes "opened ev n us w" "walked N {} cs w w' None"
  shows "opened ev n us w'"
  using assms(1) ready_walked [OF _ assms(2)] walked_keeps(7) [OF assms(2)] by (auto simp: opened_def)

lemma set_clean_opened:
  assumes "ready ev (Shape n us) w"
  shows "opened ev n us (set_clean n True w)"
proof -
  note k = walked_keeps [OF walked_set_clean [where w = w and n = n]]
  have "ready ev (Shape n us) (set_clean n True w)"
    unfolding ready_def k(1) k(2) k(3) using assms by (auto simp: ready_def k(7) simp del: fits.simps)
  then show ?thesis by (simp add: opened_def k(7))
qed

theorem walk_shape:
  assumes "ready ev t w"
  shows "goes_on (walk_from (inspecting_listeners L) (Visit (shape_root t))) finish
           (set (shape_nodes t)) (set (shape_nodes t)) (shape_calls L ev t) w"
  using assms
proof (induction t arbitrary: w)
  case (Shape n us)
  let ?ls = "inspecting_listeners L" and ?N = "insert n (set (concat (map shape_nodes us)))" and ?C = "set (concat (map shape_nodes us))"
  let ?names = "\<lambda>as. concat (map (\<lambda>s. node_calls n (heard L s)) as)"
  define w0 where "w0 = set_clean n True w"
  have op: "opened ev n us w0" using set_clean_opened [OF Shape.prems] by (simp add: w0_def)
  have an: "anchored w' n" "events_of w' = ev" if "opened ev n us w'" for w' using that by (auto simp: opened_def ready_def)
  have kind: "us \<noteq> [] \<longrightarrow> tn_kind (w_tree w0 n) \<in> {TRoot, TAtRule, TRule}" using op by (auto simp: opened_def ready_def)
  obtain as bs where ev: "events_of w0 n = map Named as @ (if tn_kind (w_tree w0 n) \<in> {TRoot, TAtRule, TRule} then [Children] else []) @ map Named bs"
    by (rule events_split)
  let ?mid = "if tn_kind (w_tree w0 n) \<in> {TRoot, TAtRule, TRule} then [Children] else []"
  have start: "walk_from ?ls (Visit (shape_root (Shape n us))) w = walk_from ?ls (Events n (map Named as @ ?mid @ map Named bs)) w0"
    by (subst walk_from.simps) (simp add: w0_def [symmetric] ev Let_def)
  have mid: "goes_on (walk_from ?ls (Events n (?mid @ map Named bs))) (walk_from ?ls (Events n (map Named bs))) ?N ?C (concat (map (shape_calls L ev) us)) w'"
    if w': "walked {} {} (?names as) w0 w' None" for w'
  proof (cases "tn_kind (w_tree w0 n) \<in> {TRoot, TAtRule, TRule}")
    case True
    have "goes_on (walk_from ?ls (Events n (Children # map Named bs))) (walk_from ?ls (Events n (map Named bs))) ?N ?C (concat (map (shape_calls L ev) us)) w'"
      by (rule walk_children [OF Shape.IH opened_walked [OF op w']])
    with True show ?thesis by simp
  next
    case False
    with kind have "us = []" by blast
    with False show ?thesis by (auto intro!: goes_on_refl)
  qed
  have last: "goes_on (walk_from ?ls (Events n (map Named bs))) finish {} {} (?names bs) w'" if "anchored w' n" for w'
  proof -
    have "goes_on (walk_from ?ls (Events n [])) finish {} {} [] v" for v
      by (rule goes_on_refl) (simp add: walk_from.simps [of _ "Events n []"])
    from goes_on_trans [OF walk_names [OF that, of L bs "[]"] this] show ?thesis by simp
  qed
  have "goes_on (walk_from ?ls (Events n (map Named as @ ?mid @ map Named bs))) finish ({} \<union> (?N \<union> {})) ({} \<union> (?C \<union> {}))
      (?names as @ concat (map (shape_calls L ev) us) @ ?names bs) w0"
  proof (rule goes_on_trans [OF walk_names [OF an(1) [OF op]]])
    fix w'
    assume w': "walked {} {} (?names as) w0 w' None"
    show "goes_on (walk_from ?ls (Events n (?mid @ map Named bs))) finish (?N \<union> {}) (?C \<union> {}) (concat (map (shape_calls L ev) us) @ ?names bs) w'"
    proof (rule goes_on_trans [OF mid [OF w']])
      fix w2
      assume "walked ?N ?C (concat (map (shape_calls L ev) us)) w' w2 None"
      from walked_keeps(2) [OF this] walked_keeps(2) [OF w'] an(1) [OF op] have "anchored w2 n" by simp
      then show "goes_on (walk_from ?ls (Events n (map Named bs))) finish {} {} (?names bs) w2" by (rule last)
    qed
  qed
  moreover have "shape_calls L ev (Shape n us) = ?names as @ concat (map (shape_calls L ev) us) @ ?names bs"
    by (rule node_calls_split [where ev = ev and n = n and kind = "tn_kind (w_tree w0 n)", OF ev [unfolded an(2) [OF op]] kind])
  ultimately have all: "goes_on (walk_from ?ls (Events n (map Named as @ ?mid @ map Named bs))) finish ?N ?C (shape_calls L ev (Shape n us)) w0"
    by (simp only: Un_empty_left Un_empty_right)
  have "walked {} {n} [] w w0 None" unfolding w0_def by (rule walked_set_clean)
  from goes_on_step [where F = "walk_from ?ls (Visit (shape_root (Shape n us)))", OF this start all] show ?case by (rule goes_on_eq) simp_all
qed

section \<open>The stack machine\<close>

declare visitTick.simps [simp del]

definition at_event :: "nref \<Rightarrow> event list \<Rightarrow> nat \<Rightarrow> 's frame" where
  "at_event n es k = \<lparr>fr_node = n, fr_events = es, fr_eventIndex = k, fr_iterator = 0, fr_visitors = [], fr_visitorIndex = 0\<rparr>"

lemma at_event_sel [simp]:
  "fr_node (at_event n es k) = n" "fr_events (at_event n es k) = es" "fr_eventIndex (at_event n es k) = k"
  "fr_iterator (at_event n es k) = 0" "fr_visitors (at_event n es k) = []" "fr_visitorIndex (at_event n es k) = 0"
  "at_event n es k\<lparr>fr_eventIndex := k'\<rparr> = at_event n es k'" "toStack w n = at_event n (events_of w n) 0"
  by (simp_all add: at_event_def toStack_def)

text \<open>Frames with visitors to call, and frames with children to go through.\<close>

definition visiting :: "nref \<Rightarrow> event list \<Rightarrow> nat \<Rightarrow> 's calls \<Rightarrow> nat \<Rightarrow> 's frame" where
  "visiting n es k vs i = \<lparr>fr_node = n, fr_events = es, fr_eventIndex = k, fr_iterator = 0, fr_visitors = vs, fr_visitorIndex = i\<rparr>"

definition iterating :: "nref \<Rightarrow> event list \<Rightarrow> nat \<Rightarrow> nat \<Rightarrow> 's frame" where
  "iterating n es k t = \<lparr>fr_node = n, fr_events = es, fr_eventIndex = k, fr_iterator = t, fr_visitors = [], fr_visitorIndex = 0\<rparr>"

lemma visiting_sel [simp]:
  "fr_node (visiting n es k vs i) = n" "fr_visitors (visiting n es k vs i) = vs" "fr_visitorIndex (visiting n es k vs i) = i"
  "visiting n es k vs i\<lparr>fr_visitors := [], fr_visitorIndex := 0\<rparr> = at_event n es k"
  "visiting n es k vs i\<lparr>fr_visitorIndex := j\<rparr> = visiting n es k vs j"
  "at_event n es k\<lparr>fr_eventIndex := k', fr_visitors := vs\<rparr> = visiting n es k' vs 0"
  "at_event n es k\<lparr>fr_eventIndex := k', fr_iterator := t\<rparr> = iterating n es k' t"
  "at_event n es k\<lparr>fr_visitors := vs\<rparr> = visiting n es k vs 0" "at_event n es k\<lparr>fr_iterator := t\<rparr> = iterating n es k t"
  "fr_node (iterating n es k t) = n" "fr_visitors (iterating n es k t) = []" "fr_iterator (iterating n es k t) = t"
  "iterating n es k t\<lparr>fr_iterator := 0\<rparr> = at_event n es k"
  by (simp_all add: visiting_def at_event_def iterating_def)

lemma run_stack_step:
  "run_stack ls (f # st) w =
     (case visitTick ls (f # st) w of (st1, w1, None) \<Rightarrow> run_stack ls st1 w1 | (st1, w1, Some e) \<Rightarrow> Some (w1, Some e))"
  by (subst run_stack.simps) simp

lemma visitTick_events:
  assumes "anchored w (fr_node f)" "fr_visitors f = []"
  shows "visitTick ls (f # st) w =
    (case (if fr_iterator f \<noteq> 0 then tick_children ls f st w else tick_events ls f st w) of (st1, w1) \<Rightarrow> (st1, w1, None))"
  using assms by (auto simp: anchored_def visitTick.simps)

text \<open>A frame with pending visitors calls them.\<close>

lemma stack_visitors:
  assumes "i < length fs" "anchored w n"
  shows "goes_on (run_stack ls (visiting n es k (inspecting_calls fs) i # st)) (run_stack ls (at_event n es k # st)) {} {} (node_calls n (drop i fs)) w"
  using assms
proof (induction "length fs - i" arbitrary: i w)
  case 0
  then show ?case by simp
next
  case (Suc d)
  let ?vs = "inspecting_calls fs"
  obtain p f where pf: "fs ! i = (p, f)" by fastforce
  have len: "length ?vs = length fs" and nth: "?vs ! i = (p, inspecting f)" and ne: "?vs \<noteq> []"
    using Suc.prems(1) pf by (auto simp: inspecting_calls_def)
  obtain w1 o1 where v: "inspecting f n (set_last p w) = (w1, o1)" by fastforce
  define f1 :: "'a frame" where "f1 = (if Suc i = length fs then at_event n es k else visiting n es k ?vs (Suc i))"
  have tick: "visitTick ls (visiting n es k ?vs i # st) w =
      (case (w1, o1) of (w1, Returned) \<Rightarrow> (f1 # st, w1, None)
       | (w1, Threw e) \<Rightarrow> (f1 # st, w1, Some (handleError e (Some n) (w_lastPlugin w1)))
       | (w1, Promise w2 None) \<Rightarrow> (f1 # st, w2, None)
       | (w1, Promise w2 (Some e)) \<Rightarrow> (f1 # st, w2, Some (handleError e (Some n) (w_lastPlugin w2))))"
  proof -
    have "visitTick ls (visiting n es k ?vs i # st) w = tick_visitor (visiting n es k ?vs i) st w"
      using Suc.prems ne len by (auto simp: anchored_def visitTick.simps)
    then show ?thesis unfolding \<open>visitTick ls (visiting n es k ?vs i # st) w = tick_visitor (visiting n es k ?vs i) st w\<close>
      by (auto simp: tick_visitor_def nth v len f1_def Let_def split: outcome.split option.split)
  qed
  have one: "goes_on (run_stack ls (visiting n es k ?vs i # st)) (run_stack ls (f1 # st)) {} {} [(p, f, n)] w"
    using v
  proof (cases rule: visit_one)
    case returned
    then show ?thesis unfolding goes_on_def
      by (intro exI [of _ w1] exI [of _ None]) (simp add: run_stack_step [of ls "visiting n es k ?vs i"] tick)
  next
    case (threw e)
    then show ?thesis unfolding goes_on_def
      by (intro exI [of _ w1] exI [of _ "Some (handleError e (Some n) p)"]) (simp add: run_stack_step [of ls "visiting n es k ?vs i"] tick)
  qed
  have d: "node_calls n (drop i fs) = [(p, f, n)] @ node_calls n (drop (Suc i) fs)"
    using Cons_nth_drop_Suc [OF Suc.prems(1), symmetric] pf by (simp add: node_calls_def)
  have "goes_on (run_stack ls (f1 # st)) (run_stack ls (at_event n es k # st)) {} {} (node_calls n (drop (Suc i) fs)) w'"
    if w': "walked {} {} [(p, f, n)] w w' None" for w'
  proof (cases "Suc i = length fs")
    case True
    then have "f1 = at_event n es k" "node_calls n (drop (Suc i) fs) = []" by (simp_all add: f1_def node_calls_def)
    then show ?thesis by (auto intro: goes_on_refl)
  next
    case False
    then have i: "Suc i < length fs" "d = length fs - Suc i" using Suc by auto
    have "anchored w' n" using walked_keeps(2) [OF w'] Suc.prems(2) by simp
    from Suc.hyps(1) [OF i(2) i(1) this] show ?thesis using False by (simp add: f1_def)
  qed
  from goes_on_trans [OF one this] show ?case by (simp add: d)
qed

text \<open>One event, and the events in a row.\<close>

lemma stack_named:
  assumes "anchored w n" "drop k es = Named s # es'"
  shows "goes_on (run_stack (inspecting_listeners L) (at_event n es k # st)) (run_stack (inspecting_listeners L) (at_event n es (k + 1) # st))
           {} {} (node_calls n (heard L s)) w"
proof -
  let ?ls = "inspecting_listeners L"
  have d: "drop (k + 1) es = es'" using assms(2) by (metis drop_Suc Suc_eq_plus1 list.sel(3) tl_drop)
  show ?thesis
  proof (cases "gget L s")
    case None
    then have l: "gget ?ls s = None" "node_calls n (heard L s) = []" by (simp_all add: gget_inspecting heard_def node_calls_def)
    have te: "tick_events ?ls (at_event n es k) st w = tick_events ?ls (at_event n es (k + 1)) st w"
      unfolding tick_events_def using assms(2) d l by (simp split: prod.split option.split event.split)
    have "visitTick ?ls (at_event n es k # st) w = visitTick ?ls (at_event n es (k + 1) # st) w"
      by (simp add: visitTick_events assms(1) te)
    then show ?thesis by (auto intro!: goes_on_refl simp: run_stack_step l)
  next
    case (Some fs)
    have l: "gget ?ls s = Some (inspecting_calls fs)" "heard L s = fs" by (simp_all add: gget_inspecting heard_def Some)
    let ?f = "visiting n es (k + 1) (inspecting_calls fs) 0"
    have "tick_events ?ls (at_event n es k) st w = (?f # st, w)"
      unfolding tick_events_def using assms(2) l by simp
    then have s: "run_stack ?ls (at_event n es k # st) w = run_stack ?ls (?f # st) w"
      by (simp add: run_stack_step [of _ "at_event n es k"] visitTick_events assms(1))
    show ?thesis
    proof (cases fs)
      case Nil
      then have "?f = at_event n es (k + 1)" "node_calls n (heard L s) = []" by (simp_all add: l inspecting_calls_def visiting_def at_event_def node_calls_def)
      with s show ?thesis by (auto intro!: goes_on_refl)
    next
      case (Cons a as)
      then have "0 < length fs" by simp
      from stack_visitors [OF this assms(1)] have "goes_on (run_stack ?ls (?f # st)) (run_stack ?ls (at_event n es (k + 1) # st)) {} {} (node_calls n fs) w"
        by simp
      then show ?thesis unfolding goes_on_def s l(2) .
    qed
  qed
qed

lemma stack_names:
  assumes "anchored w n" "drop k es = map Named as @ es'"
  shows "goes_on (run_stack (inspecting_listeners L) (at_event n es k # st)) (run_stack (inspecting_listeners L) (at_event n es (k + length as) # st))
           {} {} (concat (map (\<lambda>s. node_calls n (heard L s)) as)) w"
  using assms
proof (induction as arbitrary: w k)
  case Nil
  show ?case by (auto intro: goes_on_refl)
next
  case (Cons s as)
  let ?r = "\<lambda>k. run_stack (inspecting_listeners L) (at_event n es k # st)"
  have dk: "drop k es = Named s # (map Named as @ es')" using Cons.prems(2) by simp
  then have d: "drop (k + 1) es = map Named as @ es'" by (metis drop_Suc Suc_eq_plus1 list.sel(3) tl_drop)
  have "goes_on (?r k) (?r (k + 1 + length as)) ({} \<union> {}) ({} \<union> {})
      (node_calls n (heard L s) @ concat (map (\<lambda>s. node_calls n (heard L s)) as)) w"
  proof (rule goes_on_trans [OF stack_named [OF Cons.prems(1) dk]])
    fix w'
    assume "walked {} {} (node_calls n (heard L s)) w w' None"
    from walked_keeps(2) [OF this] Cons.prems have "anchored w' n" by simp
    then show "goes_on (?r (k + 1)) (?r (k + 1 + length as)) {} {} (concat (map (\<lambda>s. node_calls n (heard L s)) as)) w'"
      by (rule Cons.IH [OF _ d])
  qed
  then show ?case by simp
qed

text \<open>The children, one after the other: each is marked and pushed, and popped when it is done.\<close>

lemma next_dirty_coming:
  assumes "coming ev n t us w"
  obtains i where "gget (tn_indexes (w_tree w n)) t = Some i" "0 \<le> i"
    "next_dirty (w_clean w) (drop (nat i) (kids (w_tree w) n)) i = (case us of [] \<Rightarrow> (None, i) | u # vs \<Rightarrow> (Some (shape_root u), i + 1))"
proof -
  obtain ps where ps: "kids (w_tree w) n = ps @ map shape_root us" "gget (tn_indexes (w_tree w n)) t = Some (int (length ps))"
    "\<forall>u \<in> set us. \<not> w_clean w (shape_root u)" using assms by (auto simp: coming_def)
  show ?thesis by (rule that [OF ps(2)]) (use ps in \<open>auto split: list.split\<close>)
qed

lemma set_index_gget: "gget (tn_indexes (w_tree (set_index n t i w) n)) t = Some i"
  by (simp add: set_index_def)

lemma stack_each:
  assumes "\<And>u w st. u \<in> set us \<Longrightarrow> opened ev (shape_root u) (shape_kids u) w \<Longrightarrow>
      goes_on (run_stack ls (at_event (shape_root u) (ev (shape_root u)) 0 # st)) (run_stack ls st)
        (set (shape_nodes u)) (set (shape_nodes u) - {shape_root u}) (shape_calls L ev u) w"
    and "coming ev n t us w" "t \<noteq> 0"
  shows "goes_on (run_stack ls (iterating n es k t # st)) (run_stack ls (at_event n es k # st)) (insert n (set (concat (map shape_nodes us))))
           (set (concat (map shape_nodes us))) (concat (map (shape_calls L ev) us)) w"
  using assms(1,2)
proof (induction us arbitrary: w)
  case Nil
  obtain i where i: "gget (tn_indexes (w_tree w n)) t = Some i" "0 \<le> i"
    "next_dirty (w_clean w) (drop (nat i) (kids (w_tree w) n)) i = (None, i)" using next_dirty_coming [OF Nil.prems(2)] by auto
  have ni: "\<not> i < 0" using i(2) by simp
  define w1 where "w1 = delete_index n t (set_index n t i w)"
  have s: "walked ({n} \<union> {n}) ({} \<union> {}) ([] @ []) w w1 None" unfolding w1_def by (rule walked_trans [OF walked_index(1) walked_index(2)]) simp_all
  have a: "anchored w n" "anchored w1 n" using Nil.prems(2) walked_keeps(2) [OF s] by (auto simp: coming_def)
  have "run_stack ls (iterating n es k t # st) w = run_stack ls (at_event n es k # st) w1"
    by (simp add: run_stack_step [of ls "iterating n es k t"] run_stack_step [of ls "at_event n es k"] visitTick_events a assms(3)
        tick_children_def i(1,3) ni w1_def [symmetric] Let_def)
  from goes_on_step [where F = "run_stack ls (iterating n es k t # st)" and G = "run_stack ls (at_event n es k # st)",
      OF s [simplified] this goes_on_self]
  show ?case by (rule goes_on_eq) auto
next
  case (Cons u us)
  let ?c = "shape_root u" and ?f = "iterating n es k t" and ?N = "set (shape_nodes u)"
  note c = coming_child [OF Cons.prems(2)]
  obtain i where i: "gget (tn_indexes (w_tree w n)) t = Some i" "0 \<le> i"
    "next_dirty (w_clean w) (drop (nat i) (kids (w_tree w) n)) i = (Some ?c, i + 1)" using next_dirty_coming [OF Cons.prems(2)] by auto
  have ni: "\<not> i < 0" using i(2) by simp
  define w0 where "w0 = set_index n t (i + 1) w"
  define w1 where "w1 = set_clean ?c True w0"
  have s0: "walked {n} {} [] w w0 None" unfolding w0_def by (rule walked_index) simp
  have s: "walked ({n} \<union> {}) ({} \<union> {?c}) ([] @ []) w w1 None" unfolding w1_def by (rule walked_trans [OF s0 walked_set_clean])
  have a: "anchored w n" using Cons.prems(2) by (auto simp: coming_def)
  have ev: "events_of w1 = ev" using walked_keeps(3) [OF s] Cons.prems(2) by (auto simp: coming_def)
  have r0: "ready ev u w0" by (rule ready_walked [OF c(3) s0]) simp
  then have op: "opened ev ?c (shape_kids u) w1" using set_clean_opened [of ev ?c "shape_kids u" w0] by (cases u) (simp add: w1_def)
  have push: "run_stack ls (?f # st) w = run_stack ls (at_event ?c (ev ?c) 0 # ?f # st) w1"
    by (simp add: run_stack_step [of ls ?f] visitTick_events a assms(3) tick_children_def i(1,3) ni w0_def [symmetric] w1_def [symmetric] ev Let_def)
  have below: "goes_on (run_stack ls (at_event ?c (ev ?c) 0 # ?f # st)) (run_stack ls (?f # st)) ?N (?N - {?c}) (shape_calls L ev u) w1"
    by (rule Cons.prems(1)) (use op in auto)
  have rest: "goes_on (run_stack ls (?f # st)) (run_stack ls (at_event n es k # st)) (insert n (set (concat (map shape_nodes us))))
      (set (concat (map shape_nodes us))) (concat (map (shape_calls L ev) us)) w'"
    if w': "walked ?N (?N - {?c}) (shape_calls L ev u) w1 w' None" for w'
  proof (rule Cons.IH)
    have "gget (tn_indexes (w_tree w' n)) t = Some (i + 1)"
      using walked_keeps(6) [OF w' c(4)] by (simp add: w1_def w0_def set_clean_def set_index_gget)
    then show "coming ev n t us w'"
      using coming_next [OF Cons.prems(2) walked_trans [OF s w']] root_in_shape [of u] i(1) by auto
  qed (use Cons.prems(1) in auto)
  show ?case
    by (rule goes_on_eq [OF goes_on_step [where F = "run_stack ls (?f # st)", OF s [simplified] push goes_on_trans [OF below rest]]])
      (use root_in_shape [of u] in auto)
qed

lemma stack_children:
  assumes "\<And>u w st. u \<in> set us \<Longrightarrow> opened ev (shape_root u) (shape_kids u) w \<Longrightarrow>
      goes_on (run_stack ls (at_event (shape_root u) (ev (shape_root u)) 0 # st)) (run_stack ls st)
        (set (shape_nodes u)) (set (shape_nodes u) - {shape_root u}) (shape_calls L ev u) w"
    and "opened ev n us w" "drop k es = Children # es'"
  shows "goes_on (run_stack ls (at_event n es k # st)) (run_stack ls (at_event n es (k + 1) # st)) (insert n (set (concat (map shape_nodes us))))
           (set (concat (map shape_nodes us))) (concat (map (shape_calls L ev) us)) w"
proof (cases "us = []")
  have a: "anchored w n" "kids (w_tree w) n = map shape_root us" "w_clean w n" using assms(2) by (auto simp: opened_def ready_def)
  then have clean: "set_clean n True w = w" by (simp add: set_clean_def fun_upd_idem)
  {
    case True
    then have "run_stack ls (at_event n es k # st) w = run_stack ls (at_event n es (k + 1) # st) w"
      by (simp add: run_stack_step [of ls "at_event n es k"] visitTick_events a tick_events_def assms(3))
    with True show ?thesis by (auto intro!: goes_on_refl)
  next
    case False
    obtain t w1 where st: "start_iterator n w = (t, w1)" by fastforce
    have e: "run_stack ls (at_event n es k # st) w = run_stack ls (iterating n es (k + 1) t # st) w1"
      using False by (simp add: run_stack_step [of ls "at_event n es k"] visitTick_events a tick_events_def assms(3) clean st)
    have s: "walked {n} {} [] w w1 None" by (rule walked_index(4) [OF _ st]) simp
    have g: "goes_on (run_stack ls (iterating n es (k + 1) t # st)) (run_stack ls (at_event n es (k + 1) # st))
        (insert n (set (concat (map shape_nodes us)))) (set (concat (map shape_nodes us))) (concat (map (shape_calls L ev) us)) w1"
      by (rule stack_each [OF assms(1) opened_start [OF assms(2) st]]) (use start_iterator_index [OF st] in auto)
    from goes_on_step [where F = "run_stack ls (at_event n es k # st)" and G = "run_stack ls (iterating n es (k + 1) t # st)", OF s e g]
    show ?thesis by (rule goes_on_eq) auto
  }
qed

theorem stack_shape:
  assumes "opened ev (shape_root t) (shape_kids t) w"
  shows "goes_on (run_stack (inspecting_listeners L) (at_event (shape_root t) (ev (shape_root t)) 0 # st)) (run_stack (inspecting_listeners L) st)
           (set (shape_nodes t)) (set (shape_nodes t) - {shape_root t}) (shape_calls L ev t) w"
  using assms
proof (induction t arbitrary: w st)
  case (Shape n us)
  let ?ls = "inspecting_listeners L" and ?N = "insert n (set (concat (map shape_nodes us)))" and ?C = "set (concat (map shape_nodes us))"
  let ?names = "\<lambda>as. concat (map (\<lambda>s. node_calls n (heard L s)) as)" and ?r = "\<lambda>k. run_stack (inspecting_listeners L) (at_event n (ev n) k # st)"
  have op: "opened ev n us w" using Shape.prems by simp
  then have an: "anchored w n" "events_of w = ev" and kind: "us \<noteq> [] \<longrightarrow> tn_kind (w_tree w n) \<in> {TRoot, TAtRule, TRule}"
    and fresh: "n \<notin> ?C" by (auto simp: opened_def ready_def)
  obtain as bs where "events_of w n = map Named as @ (if tn_kind (w_tree w n) \<in> {TRoot, TAtRule, TRule} then [Children] else []) @ map Named bs"
    by (rule events_split)
  then have ev: "ev n = map Named as @ (if tn_kind (w_tree w n) \<in> {TRoot, TAtRule, TRule} then [Children] else []) @ map Named bs"
    by (simp only: an(2))
  define m where "m = length as + (if tn_kind (w_tree w n) \<in> {TRoot, TAtRule, TRule} then 1 else 0)"
  have bs: "drop m (ev n) = map Named bs @ []" "m + length bs = length (ev n)" by (simp_all add: ev m_def)
  have mid: "goes_on (?r (0 + length as)) (?r m) ?N ?C (concat (map (shape_calls L ev) us)) w'" if w': "walked {} {} (?names as) w w' None" for w'
  proof (cases "tn_kind (w_tree w n) \<in> {TRoot, TAtRule, TRule}")
    case True
    have "drop (length as) (ev n) = Children # map Named bs" using True by (simp add: ev)
    from stack_children [OF Shape.IH opened_walked [OF op w'] this] True show ?thesis by (simp add: m_def)
  next
    case False
    with kind have "us = []" by blast
    with False show ?thesis by (auto intro!: goes_on_refl simp: m_def)
  qed
  have last: "goes_on (?r m) (run_stack ?ls st) {} {} (?names bs) w'" if a: "anchored w' n" for w'
  proof -
    have "goes_on (?r (length (ev n))) (run_stack ?ls st) {} {} [] v" for v
    proof (rule goes_on_refl)
      show "?r (length (ev n)) v = run_stack ?ls st v"
        by (cases "anchored v n") (auto simp: run_stack_step [of ?ls "at_event n (ev n) (length (ev n))"] visitTick.simps tick_events_def anchored_def)
    qed
    from goes_on_trans [OF stack_names [OF a bs(1), of L st, unfolded bs(2)] this] show ?thesis by simp
  qed
  have "goes_on (?r 0) (run_stack ?ls st) ({} \<union> (?N \<union> {})) ({} \<union> (?C \<union> {})) (?names as @ concat (map (shape_calls L ev) us) @ ?names bs) w"
  proof (rule goes_on_trans [OF stack_names [OF an(1)]])
    show "drop 0 (ev n) = map Named as @ (if tn_kind (w_tree w n) \<in> {TRoot, TAtRule, TRule} then [Children] else []) @ map Named bs" by (simp add: ev)
    fix w'
    assume w': "walked {} {} (?names as) w w' None"
    show "goes_on (?r (0 + length as)) (run_stack ?ls st) (?N \<union> {}) (?C \<union> {}) (concat (map (shape_calls L ev) us) @ ?names bs) w'"
    proof (rule goes_on_trans [OF mid [OF w']])
      fix w2
      assume "walked ?N ?C (concat (map (shape_calls L ev) us)) w' w2 None"
      from walked_keeps(2) [OF this] walked_keeps(2) [OF w'] an(1) have "anchored w2 n" by simp
      then show "goes_on (?r m) (run_stack ?ls st) {} {} (?names bs) w2" by (rule last)
    qed
  qed
  moreover have "shape_calls L ev (Shape n us) = ?names as @ concat (map (shape_calls L ev) us) @ ?names bs"
    by (rule node_calls_split [where ev = ev and n = n and kind = "tn_kind (w_tree w n)", OF ev kind])
  ultimately have "goes_on (?r 0) (run_stack ?ls st) ?N ?C (shape_calls L ev (Shape n us)) w" by (simp only: Un_empty_left Un_empty_right)
  then show ?case using fresh by simp
qed

section \<open>Both ways of processing\<close>

lemma until_clean_once:
  assumes "\<not> w_clean w r" "pass (set_clean r True w) = Some (w1, x)" "x = None \<Longrightarrow> w_clean w1 r"
  shows "until_clean pass r w = Some (w1, x)"
  using assms by (cases x) (simp_all add: until_clean.simps [of pass r w] until_clean.simps [of pass r w1])

text \<open>A tree that was just parsed, or whose marks were removed.\<close>

definition fresh_tree :: "shape \<Rightarrow> 's world \<Rightarrow> bool" where
  "fresh_tree t w \<longleftrightarrow>
     tn_kind (w_tree w (shape_root t)) = TRoot \<and> fits (w_tree w) t \<and> distinct (shape_nodes t) \<and>
     (\<forall>m \<in> set (shape_nodes t). \<not> w_clean w m)"

lemma fresh_opened:
  assumes "fresh_tree t w"
  shows "opened (events_of w) (shape_root t) (shape_kids t) (set_clean (shape_root t) True w)" "ready (events_of w) t w" "\<not> w_clean w (shape_root t)"
proof -
  show r: "ready (events_of w) t w" using assms by (auto simp: fresh_tree_def ready_def anchored_def)
  then show "opened (events_of w) (shape_root t) (shape_kids t) (set_clean (shape_root t) True w)"
    by (cases t) (auto intro: set_clean_opened)
  show "\<not> w_clean w (shape_root t)" using assms root_in_shape [of t] by (auto simp: fresh_tree_def)
qed

lemma pass_done:
  assumes "walked N C cs (set_clean r True w) w' x"
  shows "make_calls cs (w_lastPlugin w, w_user w) = ((w_lastPlugin w', w_user w'), x)"
    "x = None \<Longrightarrow> w_clean w' = (\<lambda>m. m \<in> insert r C \<or> w_clean w m)"
  using assms by (auto simp: walked_def set_clean_def fun_eq_iff)

lemma sync_pass:
  assumes "fresh_tree t w"
  shows "\<exists>w' x. until_clean (walkSync (inspecting_listeners L) (shape_root t)) (shape_root t) w = Some (w', x) \<and>
     make_calls (shape_calls L (events_of w) t) (w_lastPlugin w, w_user w) = ((w_lastPlugin w', w_user w'), x) \<and>
     (x = None \<longrightarrow> (\<forall>m \<in> set (shape_nodes t). w_clean w' m))"
proof -
  let ?r = "shape_root t" and ?w = "set_clean (shape_root t) True w"
  have "ready (events_of w) t ?w" using fresh_opened(1) [OF assms] by (cases t) (simp add: opened_def)
  from walk_shape [OF this, of L] obtain w' x where
    w': "walked (set (shape_nodes t)) (set (shape_nodes t)) (shape_calls L (events_of w) t) ?w w' x"
      "walkSync (inspecting_listeners L) ?r ?w = Some (w', x)"
    by (auto simp: goes_on_def walkSync_def split: option.splits)
  have "until_clean (walkSync (inspecting_listeners L) ?r) ?r w = Some (w', x)"
    by (rule until_clean_once [where pass = "walkSync (inspecting_listeners L) ?r", OF fresh_opened(3) [OF assms] w'(2)])
      (use pass_done(2) [OF w'(1)] in auto)
  with pass_done [OF w'(1)] show ?thesis by auto
qed

lemma async_pass:
  assumes "fresh_tree t w"
  shows "\<exists>w' x. until_clean (\<lambda>w. run_stack (inspecting_listeners L) [toStack w (shape_root t)] w) (shape_root t) w = Some (w', x) \<and>
     make_calls (shape_calls L (events_of w) t) (w_lastPlugin w, w_user w) = ((w_lastPlugin w', w_user w'), x) \<and>
     (x = None \<longrightarrow> (\<forall>m \<in> set (shape_nodes t). w_clean w' m))"
proof -
  let ?r = "shape_root t" and ?w = "set_clean (shape_root t) True w"
  have ev: "events_of ?w = events_of w" using walked_keeps(3) [OF walked_set_clean [where w = w and n = ?r]] .
  from stack_shape [OF fresh_opened(1) [OF assms], of L "[]"] obtain w' x where
    w': "walked (set (shape_nodes t)) (set (shape_nodes t) - {?r}) (shape_calls L (events_of w) t) ?w w' x"
      "run_stack (inspecting_listeners L) [toStack ?w ?r] ?w = Some (w', x)"
    by (auto simp: goes_on_def ev run_stack.simps [of _ "[]"] split: option.splits)
  have "until_clean (\<lambda>w. run_stack (inspecting_listeners L) [toStack w ?r] w) ?r w = Some (w', x)"
    by (rule until_clean_once [where pass = "\<lambda>w. run_stack (inspecting_listeners L) [toStack w ?r] w", OF fresh_opened(3) [OF assms] w'(2)])
      (use pass_done(2) [OF w'(1)] in auto)
  with pass_done [OF w'(1)] show ?thesis by auto
qed

text \<open>
  C23. Synchronous and asynchronous processing agree: for plugins that only inspect, the recursive walk and
  the stack machine both end after one pass, have made exactly the calls of the tree in its order, up to
  the first that throws, with the same states and error, and leave no node to visit.
\<close>

theorem walks_agree:
  assumes "fresh_tree t w"
  shows "\<exists>ws wa x.
     until_clean (walkSync (inspecting_listeners L) (shape_root t)) (shape_root t) w = Some (ws, x) \<and>
     until_clean (\<lambda>w. run_stack (inspecting_listeners L) [toStack w (shape_root t)] w) (shape_root t) w = Some (wa, x) \<and>
     make_calls (shape_calls L (events_of w) t) (w_lastPlugin w, w_user w) = ((w_lastPlugin ws, w_user ws), x) \<and>
     w_user wa = w_user ws \<and> w_lastPlugin wa = w_lastPlugin ws \<and>
     (x = None \<longrightarrow> (\<forall>m \<in> set (shape_nodes t). w_clean ws m \<and> w_clean wa m))"
proof -
  obtain ws x where s: "until_clean (walkSync (inspecting_listeners L) (shape_root t)) (shape_root t) w = Some (ws, x)"
    "make_calls (shape_calls L (events_of w) t) (w_lastPlugin w, w_user w) = ((w_lastPlugin ws, w_user ws), x)"
    "x = None \<longrightarrow> (\<forall>m \<in> set (shape_nodes t). w_clean ws m)" using sync_pass [OF assms] by blast
  obtain wa y where a: "until_clean (\<lambda>w. run_stack (inspecting_listeners L) [toStack w (shape_root t)] w) (shape_root t) w = Some (wa, y)"
    "make_calls (shape_calls L (events_of w) t) (w_lastPlugin w, w_user w) = ((w_lastPlugin wa, w_user wa), y)"
    "y = None \<longrightarrow> (\<forall>m \<in> set (shape_nodes t). w_clean wa m)" using async_pass [OF assms] by blast
  from s(2) a(2) have "x = y" "w_user wa = w_user ws" "w_lastPlugin wa = w_lastPlugin ws" by auto
  with s a show ?thesis by blast
qed

text \<open>A style sheet with a rule of one declaration, and plugins that list what they hear.\<close>

definition demo_sheet :: tree_heap where
  "demo_sheet = (\<lambda>n. \<lparr>tn_kind = (if n = 0 then TRoot else if n = 1 then TRule else TDecl),
     tn_nodes = (if n = 0 then Some [1] else if n = 1 then Some [2] else None),
     tn_parent = (if n = 1 then Some 0 else if n = 2 then Some 1 else None), tn_before = None, tn_lastEach = 0, tn_indexes = []\<rparr>)"

definition listing :: "string \<Rightarrow> (nref \<times> string) list inspection" where
  "listing s n u = (u @ [(n, s)], None)"

definition demo_listeners :: "(string, (nref \<times> string) list inspections) gomap" where
  "demo_listeners = [(''Rule'', [(Some ''a'', listing ''rule''), (Some ''b'', listing ''rule'')]),
     (''RuleExit'', [(Some ''a'', listing ''exit'')]), (''Declaration-color'', [(Some ''b'', listing ''color'')])]"

definition demo_world :: "(nref \<times> string) list world" where
  "demo_world = \<lparr>w_tree = demo_sheet, w_name = (\<lambda>n. ''color''), w_clean = (\<lambda>n. False), w_lastPlugin = None, w_user = []\<rparr>"

theorem walks_agree_witness:
  "\<exists>ws wa. until_clean (walkSync (inspecting_listeners demo_listeners) 0) 0 demo_world = Some (ws, None) \<and>
     until_clean (\<lambda>w. run_stack (inspecting_listeners demo_listeners) [toStack w 0] w) 0 demo_world = Some (wa, None) \<and>
     w_user ws = [(1, ''rule''), (1, ''rule''), (2, ''color''), (1, ''exit'')] \<and> w_user wa = w_user ws"
proof -
  let ?t = "Shape 0 [Shape 1 [Shape 2 []]]"
  have "fresh_tree ?t demo_world" by code_simp
  moreover have "make_calls (shape_calls demo_listeners (events_of demo_world) ?t) (w_lastPlugin demo_world, w_user demo_world) =
      ((Some ''a'', [(1, ''rule''), (1, ''rule''), (2, ''color''), (1, ''exit'')]), None)"
    by code_simp
  ultimately show ?thesis using walks_agree [of ?t demo_world demo_listeners] by auto
qed

section \<open>The lazy result\<close>

text \<open>What asking for the text and for the tree answers once processing came to \<open>f\<close> in the world \<open>w\<close>.\<close>

fun settled_answer :: "string \<Rightarrow> failure option \<Rightarrow> lazy_op \<Rightarrow> (thrown + string option) option" where
  "settled_answer c None Get_css = Some (Inr (Some c))"
| "settled_answer c None Get_root = Some (Inr None)"
| "settled_answer c (Some f) Get_css = Some (Inl (thrown_of f))"
| "settled_answer c (Some f) Get_root = Some (Inl (thrown_of f))"
| "settled_answer c f a = None"

definition noted :: "failure option \<Rightarrow> bool" where
  "noted f \<longleftrightarrow> (case f of None \<Rightarrow> True | Some (Handled e) \<Rightarrow> e \<noteq> Primitive [] | Some (Raw e) \<Rightarrow> False)"

definition settled_state :: "(nref \<Rightarrow> 's world \<Rightarrow> string) \<Rightarrow> failure option \<Rightarrow> 's lazy \<Rightarrow> bool" where
  "settled_state gen f l \<longleftrightarrow>
     lz_processed l \<and> (case f of
       Some e \<Rightarrow> lz_error l = Some (thrown_of e)
     | None \<Rightarrow> lz_error l = None \<and> (lz_stringified l \<longrightarrow> lz_css l = Some (gen (lz_root l) (lz_world l))))"

lemma settled_step:
  assumes "settled_state gen f l" "noted f" "a \<in> {Get_css, Get_root}"
  shows "\<exists>l1. lazy_step gen a l = Some (l1, settled_answer (gen (lz_root l) (lz_world l)) f a) \<and> settled_state gen f l1 \<and>
           lz_world l1 = lz_world l \<and> lz_root l1 = lz_root l"
proof (cases f)
  case None
  with assms show ?thesis
    by (auto simp: settled_state_def stringify_def sync_def pending_error_def Let_def)
next
  case (Some e)
  with assms(1,2) have "pending_error l = Some (thrown_of e)" by (cases e) (auto simp: settled_state_def pending_error_def noted_def)
  with Some assms show ?thesis by (auto simp: stringify_def sync_def)
qed

lemma settled_run:
  assumes "settled_state gen f l" "noted f" "set as \<subseteq> {Get_css, Get_root}"
  shows "\<exists>l1. lazy_run gen as l = Some (l1, map (settled_answer (gen (lz_root l) (lz_world l)) f) as) \<and> lz_world l1 = lz_world l"
  using assms
proof (induction as arbitrary: l)
  case (Cons a as)
  obtain l1 where l1: "lazy_step gen a l = Some (l1, settled_answer (gen (lz_root l) (lz_world l)) f a)" "settled_state gen f l1"
    "lz_world l1 = lz_world l" "lz_root l1 = lz_root l" using settled_step [OF Cons.prems(1,2)] Cons.prems(3) by auto
  with Cons.IH [OF l1(2) Cons.prems(2)] Cons.prems(3) show ?case by auto
qed simp

lemma first_step:
  assumes "process_sync ps r w = Some (w1, f)" "noted f" "a \<in> {Get_css, Get_root}"
  shows "\<exists>l1. lazy_step gen a (new_lazy ps (Inr r) w) = Some (l1, settled_answer (gen r w1) f a) \<and> settled_state gen f l1 \<and>
           lz_world l1 = w1 \<and> lz_root l1 = r"
proof (cases f)
  case None
  with assms show ?thesis
    by (auto simp: settled_state_def stringify_def sync_def pending_error_def new_lazy_def Let_def)
next
  case (Some e)
  obtain x where "e = Handled x" using assms(2) Some by (cases e) (auto simp: noted_def)
  with Some assms show ?thesis by (auto simp: settled_state_def stringify_def sync_def pending_error_def new_lazy_def)
qed

text \<open>
  A failure that was not noted as the result's error is reported by the first request only: a primitive value
  thrown at a node, an unknown event, a promise where none can be awaited, or the empty text.  After it the tree is
  handed out as if nothing had happened, and the text is absent if the first request asked for the text, otherwise
  the print of the tree as the failing plugin left it.
\<close>

fun lost_answer :: "string option \<Rightarrow> lazy_op \<Rightarrow> (thrown + string option) option" where
  "lost_answer c Get_css = Some (Inr c)"
| "lost_answer c a = Some (Inr None)"

fun answers :: "string \<Rightarrow> failure option \<Rightarrow> lazy_op list \<Rightarrow> (thrown + string option) option list" where
  "answers c (Some f) (a # as) =
     (if noted (Some f) then map (settled_answer c (Some f)) (a # as)
      else Some (Inl (thrown_of f)) # map (lost_answer (if a = Get_css then None else Some c)) as)"
| "answers c f as = map (settled_answer c f) as"

definition lost_state :: "(nref \<Rightarrow> 's world \<Rightarrow> string) \<Rightarrow> string option \<Rightarrow> 's lazy \<Rightarrow> bool" where
  "lost_state gen c l \<longleftrightarrow>
     lz_processed l \<and> pending_error l = None \<and> (lz_stringified l \<longrightarrow> lz_css l = c) \<and>
     (\<not> lz_stringified l \<longrightarrow> c = Some (gen (lz_root l) (lz_world l)))"

lemma lost_step:
  assumes "lost_state gen c l" "a \<in> {Get_css, Get_root}"
  shows "\<exists>l1. lazy_step gen a l = Some (l1, lost_answer c a) \<and> lost_state gen c l1 \<and> lz_world l1 = lz_world l"
proof -
  have noerr: "pending_error l = None" "lz_processed l" using assms(1) by (simp_all add: lost_state_def)
  then have later: "pending_error (l\<lparr>lz_stringified := True\<rparr>) = None" by (simp add: pending_error_def split: if_splits)
  show ?thesis
  proof (cases "a = Get_css \<and> \<not> lz_stringified l")
    case True
    then have "lazy_step gen a l = Some (l\<lparr>lz_stringified := True, lz_css := c\<rparr>, lost_answer c a)"
      using assms(1) noerr later by (simp add: lost_state_def stringify_def sync_def Let_def)
    moreover have "lost_state gen c (l\<lparr>lz_stringified := True, lz_css := c\<rparr>)"
      using noerr by (simp add: lost_state_def pending_error_def split: if_splits)
    ultimately show ?thesis by simp
  next
    case False
    then have "lazy_step gen a l = Some (l, lost_answer c a)"
      using assms noerr by (auto simp: lost_state_def stringify_def sync_def)
    with assms(1) show ?thesis by simp
  qed
qed

lemma lost_run:
  assumes "lost_state gen c l" "set as \<subseteq> {Get_css, Get_root}"
  shows "\<exists>l1. lazy_run gen as l = Some (l1, map (lost_answer c) as) \<and> lz_world l1 = lz_world l"
  using assms
proof (induction as arbitrary: l)
  case (Cons a as)
  obtain l1 where l1: "lazy_step gen a l = Some (l1, lost_answer c a)" "lost_state gen c l1" "lz_world l1 = lz_world l"
    using lost_step [OF Cons.prems(1)] Cons.prems(2) by auto
  with Cons.IH [OF l1(2)] Cons.prems(2) show ?case by auto
qed simp

lemma first_lost:
  assumes "process_sync ps r w = Some (w1, Some e)" "\<not> noted (Some e)" "a \<in> {Get_css, Get_root}"
  shows "\<exists>l1. lazy_step gen a (new_lazy ps (Inr r) w) = Some (l1, Some (Inl (thrown_of e))) \<and>
           lost_state gen (if a = Get_css then None else Some (gen r w1)) l1 \<and> lz_world l1 = w1"
  using assms
  by (cases e) (auto simp: lost_state_def stringify_def sync_def pending_error_def new_lazy_def noted_def Let_def)

text \<open>
  C24. A result is computed once: however often its text and its tree are asked for, the plugins run at the
  first request only.  Every request is answered the same way, by the text printed after them or by the error
  that one of them threw, with one exception: an error that was not noted with the result (a primitive value thrown
  at a node, an unknown event, a plugin that turns out to be asynchronous, or the empty text) answers the first
  request only.  Then the later requests for the tree succeed, and those for the text get no text if the first
  request was one for the text, and otherwise the print of the half-processed tree.
\<close>

theorem result_computed_once:
  assumes "process_sync ps r w = Some (w1, f)" "set as \<subseteq> {Get_css, Get_root}" "as \<noteq> []"
  shows "\<exists>l. lazy_run gen as (new_lazy ps (Inr r) w) = Some (l, answers (gen r w1) f as) \<and> lz_world l = w1"
proof -
  obtain a bs where as: "as = a # bs" using assms(3) by (cases as) auto
  show ?thesis
  proof (cases "noted f")
    case True
    obtain l where l: "lazy_step gen a (new_lazy ps (Inr r) w) = Some (l, settled_answer (gen r w1) f a)" "settled_state gen f l"
      "lz_world l = w1" "lz_root l = r" using first_step [OF assms(1) True] assms(2) as by auto
    have "answers (gen r w1) f as = map (settled_answer (gen r w1) f) as" using True as by (cases f) simp_all
    with settled_run [OF l(2) True, of bs] assms(2) as l show ?thesis by auto
  next
    case False
    then obtain e where e: "f = Some e" by (cases f) (auto simp: noted_def)
    obtain l where l: "lazy_step gen a (new_lazy ps (Inr r) w) = Some (l, Some (Inl (thrown_of e)))"
      "lost_state gen (if a = Get_css then None else Some (gen r w1)) l" "lz_world l = w1"
      using first_lost [OF assms(1) [unfolded e] False [unfolded e]] assms(2) as by auto
    with lost_run [OF l(2), of bs] assms(2) as e False show ?thesis by auto
  qed
qed

text \<open>A plugin that counts how often it is run.\<close>

definition counting :: "nat plugin" where
  "counting = FunctionPlugin (Some ''count'') (\<lambda>n w. (w\<lparr>w_user := w_user w + 1\<rparr>, Returned))"

definition count_world :: "nat world" where
  "count_world = \<lparr>w_tree = demo_sheet, w_name = (\<lambda>n. ''color''), w_clean = (\<lambda>n. False), w_lastPlugin = None, w_user = 0\<rparr>"

text \<open>A plugin with a listener for an event that there is not.\<close>

definition unknown_listener :: "nat plugin" where
  "unknown_listener = ObjectPlugin ''typo'' [(''Rlue'', Other_value True)]"

theorem result_computed_once_witness:
  "(\<exists>l. lazy_run (\<lambda>r w. if w_user w = 1 then ''one'' else ''many'') [Get_css, Get_root, Get_css] (new_lazy [counting] (Inr 0) count_world) =
        Some (l, [Some (Inr (Some ''one'')), Some (Inr None), Some (Inr (Some ''one''))]) \<and> w_user (lz_world l) = 1) \<and>
   (\<exists>l. lazy_run (\<lambda>r w. ''printed'') [Get_css, Get_css, Get_root] (new_lazy [unknown_listener] (Inr 0) count_world) =
        Some (l, [Some (Inl (thrown_of (unknown_event ''Rlue'' ''typo''))), Some (Inr None), Some (Inr None)]))"
proof -
  let ?w = "count_world\<lparr>w_user := 1, w_lastPlugin := Some ''count''\<rparr>"
  have p: "process_sync [counting] 0 count_world = Some (?w, None)"
    by (simp add: process_sync_def process_with_def counting_def runOnRoot_def set_last_def count_world_def Let_def)
  have q: "process_sync [unknown_listener] 0 count_world =
      Some (count_world\<lparr>w_lastPlugin := Some ''typo''\<rparr>, Some (unknown_event ''Rlue'' ''typo''))"
    by (simp add: process_sync_def process_with_def unknown_listener_def runOnRoot_def set_last_def count_world_def
        known_events_def capital_def Let_def)
  show ?thesis
    using result_computed_once [OF p, where as = "[Get_css, Get_root, Get_css]" and gen = "\<lambda>r w. if w_user w = 1 then ''one'' else ''many''"]
      result_computed_once [OF q, where as = "[Get_css, Get_css, Get_root]" and gen = "\<lambda>r w. ''printed''"]
    by (auto simp: noted_def unknown_event_def)
qed

text \<open>
  Whatever is done with a result, promises included, its plugins run at most once: the world is the
  first one, or that after synchronous processing, or that after the job of a promise.
\<close>

definition one_world :: "'s plugin list \<Rightarrow> nref \<Rightarrow> 's world \<Rightarrow> 's lazy \<Rightarrow> bool" where
  "one_world ps r w l \<longleftrightarrow>
     lz_plugins l = ps \<and> lz_root l = r \<and>
     (if lz_job l = Running then lz_world l = w
      else if lz_job l = Idle then (if lz_processed l then lz_world l = w \<or> (\<exists>f. process_sync ps r w = Some (lz_world l, f)) else lz_world l = w)
      else \<exists>f. process_async ps r w = Some (lz_world l, f))"

lemma note_error_sel [simp]:
  "lz_plugins (note_error f l) = lz_plugins l" "lz_root (note_error f l) = lz_root l" "lz_world (note_error f l) = lz_world l"
  "lz_processed (note_error f l) = lz_processed l" "lz_job (note_error f l) = lz_job l"
  by (cases f; simp)+

lemma sync_one_world:
  "one_world ps r w l \<Longrightarrow> sync l = Some (l1, x) \<Longrightarrow> one_world ps r w l1 \<and> lz_job l1 = lz_job l"
  unfolding sync_def by (auto simp: one_world_def Let_def split: option.splits if_splits prod.splits)

lemma stringify_one_world:
  assumes "one_world ps r w l" "stringify gen l = Some (l1, x)"
  shows "one_world ps r w l1"
proof -
  have s: "one_world ps r w (l\<lparr>lz_stringified := True\<rparr>)" using assms(1) by (simp add: one_world_def)
  show ?thesis
  proof (cases "pending_error l = None \<and> \<not> lz_stringified l")
    case True
    then obtain l2 y where y: "sync (l\<lparr>lz_stringified := True\<rparr>) = Some (l2, y)"
      "(l1, x) = (case y of Inl e \<Rightarrow> (l2, Inl e) | Inr u \<Rightarrow> let c = Some (gen (lz_root l2) (lz_world l2)) in (l2\<lparr>lz_css := c\<rparr>, Inr c))"
      using assms(2) by (auto simp: stringify_def)
    then have "l1 = l2 \<or> (\<exists>c. l1 = l2\<lparr>lz_css := c\<rparr>)" by (cases y) (auto simp: Let_def)
    with sync_one_world [OF s y(1)] show ?thesis by (auto simp: one_world_def)
  next
    case False
    with assms show ?thesis by (auto simp: stringify_def split: option.splits if_splits)
  qed
qed

text \<open>After processing, printing leaves the world.\<close>

lemma stringify_processed:
  assumes "lz_processed l" "stringify gen l = Some (l1, x)"
  shows "lz_plugins l1 = lz_plugins l" "lz_root l1 = lz_root l" "lz_world l1 = lz_world l"
  using assms by (auto simp: stringify_def sync_def Let_def pending_error_def split: option.splits if_splits sum.splits prod.splits)

lemma lazy_step_one_world:
  assumes "one_world ps r w l" "lazy_step gen a l = Some (l1, x)"
  shows "one_world ps r w l1"
proof (cases a)
  case Get_css
  with assms stringify_one_world show ?thesis by (auto split: prod.splits)
next
  case Get_root
  with assms(2) obtain y where "sync l = Some (l1, y)" by auto
  from sync_one_world [OF assms(1) this] show ?thesis by simp
next
  case Await
  with assms show ?thesis by (auto simp: one_world_def split: option.splits if_splits job.splits)
next
  case Settle
  show ?thesis
  proof (cases "lz_job l = Running")
    case True
    then have w: "lz_plugins l = ps" "lz_root l = r" "lz_world l = w" using assms(1) by (auto simp: one_world_def)
    obtain w2 f where p: "process_async ps r w = Some (w2, f)" using assms(2) Settle True w by (auto simp: settle_def bind_eq_Some_conv)
    show ?thesis
    proof (cases f)
      case (Some e)
      with assms(2) Settle True w p show ?thesis by (auto simp: settle_def one_world_def)
    next
      case None
      then obtain l2 y where l2: "stringify gen (l\<lparr>lz_world := w2, lz_processed := True\<rparr>) = Some (l2, y)" "l1 = l2\<lparr>lz_job := Finished y\<rparr>"
        using assms(2) Settle True w p by (auto simp: settle_def)
      from stringify_processed [OF _ l2(1)] l2(2) w p None show ?thesis by (auto simp: one_world_def)
    qed
  qed (use assms Settle in \<open>auto simp: settle_def\<close>)
qed

lemma lazy_run_one_world:
  "one_world ps r w l \<Longrightarrow> lazy_run gen as l = Some (l1, xs) \<Longrightarrow> one_world ps r w l1"
proof (induction as arbitrary: l xs)
  case (Cons a as)
  then show ?case using lazy_step_one_world by (auto simp: bind_eq_Some_conv split: prod.splits) blast+
qed simp

lemma plugins_run_once:
  assumes "lazy_run gen as (new_lazy ps (Inr r) w) = Some (l, xs)"
  shows "lz_world l = w \<or> (\<exists>f. process_sync ps r w = Some (lz_world l, f)) \<or> (\<exists>f. process_async ps r w = Some (lz_world l, f))"
proof -
  have "one_world ps r w (new_lazy ps (Inr r) w)" by (simp add: one_world_def new_lazy_def)
  from lazy_run_one_world [OF this assms] show ?thesis by (auto simp: one_world_def split: if_splits)
qed

text \<open>
  With a plugin that turns out to be asynchronous the answers depend on what was asked before: the
  second request for the text answers that there is none, and a text that was asked for while the
  job was running is printed from the tree before the job and stays the text of the awaited result.
\<close>

definition late :: "nat plugin" where
  "late = FunctionPlugin (Some ''late'') (\<lambda>n w. (w, Promise (w\<lparr>w_user := w_user w + 1\<rparr>) None))"

definition count_text :: "nref \<Rightarrow> nat world \<Rightarrow> string" where
  "count_text r w = (if w_user w = 0 then ''not processed'' else ''processed'')"

lemma text_lost_after_async_error:
  "map_option snd (lazy_run count_text [Get_css, Get_css] (new_lazy [late] (Inr 0) count_world)) =
     Some [Some (Inl (thrown_of async_error)), Some (Inr None)]"
  by code_simp

lemma awaited_text_not_processed:
  "map_option (\<lambda>(l, xs). (xs, w_user (lz_world l)))
     (lazy_run count_text [Await, Get_root, Get_css, Settle, Get_css] (new_lazy [late] (Inr 0) count_world)) =
   Some ([None, Some (Inl (thrown_of async_error)), Some (Inr (Some ''not processed'')), None, Some (Inr (Some ''not processed''))], 1)"
  by code_simp

text \<open>
  The walks differ for plugins that change what they visit: a rule whose own text its visitor changes
  on entry is visited again by the recursive walk, but the stack machine marks it once more when it
  goes to the children, and does not come back to it.
\<close>

definition touching :: "nat visitor" where
  "touching n w =
     (if w_user w = 0 then (set_clean 0 False (set_clean n False w))\<lparr>w_user := 1\<rparr> else w\<lparr>w_user := w_user w + 1\<rparr>, Returned)"

lemma changed_rule_visited_again:
  "map_option (\<lambda>(w, x). w_user w) (until_clean (walkSync [(''Rule'', [(None, touching)])] 0) 0 count_world) = Some 2"
  "map_option (\<lambda>(w, x). w_user w) (until_clean (\<lambda>w. run_stack [(''Rule'', [(None, touching)])] [toStack w 0] w) 0 count_world) = Some 1"
  by code_simp+

end
