(* ===== verification/Agent_Update.thy ===== *)
theory Agent_Update
  imports Models
begin

text \<open>
  The agent's update of itself (\<^verbatim>\<open>agent/cmd/patchli-agent/main.go\<close>): versions, the signed manifest of a
  release, and the exchange of the agent's binary with its rollback.  The controller's responses, the
  failures of file operations, SHA-256 and the JSON decoder of the manifest are arguments.
\<close>

section \<open>Versions\<close>

text \<open>\<^verbatim>\<open>parseVersion\<close>: the numbers of a version, up to a pre-release or build suffix.\<close>

fun parse_parts :: "string list \<Rightarrow> int list option" where
  "parse_parts [] = Some []"
| "parse_parts (p # ps) =
     (case Atoi p of
        None \<Rightarrow> None
      | Some n \<Rightarrow> if n < 0 then None else map_option ((#) n) (parse_parts ps))"

definition parseVersion :: "string \<Rightarrow> int list option" where
  "parseVersion v =
     (let v = takeWhile (\<lambda>c. c \<noteq> CHR ''-'' \<and> c \<noteq> CHR ''+'') (trim_prefix (trim_space v) ''v'')
      in if v = [] then None else parse_parts (split_on (CHR ''.'') v))"

text \<open>Missing numbers count as zero.\<close>

fun newer :: "int list \<Rightarrow> int list \<Rightarrow> bool" where
  "newer [] [] = False"
| "newer (a # c) [] = (if a \<noteq> 0 then a > 0 else newer c [])"
| "newer [] (b # cur) = (if 0 \<noteq> b then 0 > b else newer [] cur)"
| "newer (a # c) (b # cur) = (if a \<noteq> b then a > b else newer c cur)"

definition isNewerVersion :: "string \<Rightarrow> string \<Rightarrow> bool" where
  "isNewerVersion candidate current =
     (case parseVersion candidate of
        None \<Rightarrow> False
      | Some c \<Rightarrow> (case parseVersion current of None \<Rightarrow> True | Some cur \<Rightarrow> newer c cur))"

section \<open>The manifest\<close>

record agentManifest =
  am_Version :: string
  am_OS :: string
  am_Arch :: string
  am_SHA256 :: string
  am_Size :: int

datatype manifest_error =
    NoTrustedKey | KeyNotBase64 | KeyBadSize | SignatureNotBase64 | SignatureBad | ManifestInvalid
  | WrongPlatform string string | BadSize int | BadHash | NotNewer string

definition maxAgentBinaryBytes :: int where "maxAgentBinaryBytes = 256 * 2 ^ 20"
definition maxManifestBytes :: nat where "maxManifestBytes = 64 * 2 ^ 10"

text \<open>The agent: its trusted key, its version and its platform.\<close>

record agent_build =
  ab_TrustedPubKey :: string
  ab_Version :: string
  ab_GOOS :: string
  ab_GOARCH :: string

definition verifyManifest ::
  "ed25519 \<Rightarrow> (bytes \<Rightarrow> agentManifest option) \<Rightarrow> agent_build \<Rightarrow> bytes \<Rightarrow> bytes \<Rightarrow> manifest_error + agentManifest" where
  "verifyManifest E unmarshal B manifestBytes sigBase64 =
     (if ab_TrustedPubKey B = [] then Inl NoTrustedKey
      else case b64decode False (ab_TrustedPubKey B) of
        None \<Rightarrow> Inl KeyNotBase64
      | Some pubKeyBytes \<Rightarrow>
          if length pubKeyBytes \<noteq> PublicKeySize then Inl KeyBadSize
          else case b64decode False (trim_space sigBase64) of
            None \<Rightarrow> Inl SignatureNotBase64
          | Some sigBytes \<Rightarrow>
              if \<not> ed_Verify E pubKeyBytes manifestBytes sigBytes then Inl SignatureBad
              else case unmarshal manifestBytes of
                None \<Rightarrow> Inl ManifestInvalid
              | Some m \<Rightarrow>
                  if am_OS m \<noteq> ab_GOOS B \<or> am_Arch m \<noteq> ab_GOARCH B then Inl (WrongPlatform (am_OS m) (am_Arch m))
                  else if am_Size m \<le> 0 \<or> am_Size m > maxAgentBinaryBytes then Inl (BadSize (am_Size m))
                  else if length (am_SHA256 m) \<noteq> 64 then Inl BadHash
                  else if \<not> isNewerVersion (am_Version m) (ab_Version B) then Inl (NotNewer (am_Version m))
                  else Inr m)"

section \<open>Downloads\<close>

text \<open>A response: its status and its body, of which reading may fail after some bytes.\<close>

record response =
  rs_StatusCode :: int
  rs_body :: bytes
  rs_broken :: bool

definition fetchLimited :: "response option \<Rightarrow> nat \<Rightarrow> bytes option" where
  "fetchLimited resp limit =
     (case resp of
        None \<Rightarrow> None
      | Some r \<Rightarrow>
          if rs_StatusCode r \<noteq> 200 then None
          else if rs_broken r \<and> length (rs_body r) \<le> limit then None
          else let data = take (limit + 1) (rs_body r) in if length data > limit then None else Some data)"

section \<open>Files\<close>

type_synonym files = "string \<Rightarrow> bytes option"

text \<open>Which operations fail, for reasons other than a missing file.\<close>

record faults =
  ft_createTemp :: bool
  ft_write :: bool
  ft_close :: bool
  ft_chmod :: bool
  ft_executable :: bool
  ft_backup :: bool
  ft_install :: bool
  ft_rollback :: bool
  ft_restart :: bool

text \<open>\<^verbatim>\<open>os.Rename\<close>: the outcome and the files; a missing file is an error of its own.\<close>

datatype rename_result = Renamed | NotExist | Failed_rename

definition rename :: "bool \<Rightarrow> string \<Rightarrow> string \<Rightarrow> files \<Rightarrow> rename_result \<times> files" where
  "rename fault a b fs =
     (if fault then (Failed_rename, fs)
      else case fs a of None \<Rightarrow> (NotExist, fs) | Some c \<Rightarrow> (Renamed, fs(a := None, b := Some c)))"

definition remove_file :: "string \<Rightarrow> files \<Rightarrow> files" where
  "remove_file a fs = fs(a := None)"

section \<open>The update\<close>

record controller =
  ct_manifest :: "response option"
  ct_sig :: "response option"
  ct_agent :: "response option"

record update_paths =
  up_tmp :: string
  up_agent :: string
  up_backup :: string

datatype update_error =
    NoManifest | NoSignature | BadManifest manifest_error | NoAgent | BadStatus int | FileError | BadBinarySize nat | BadBinaryHash | RestartFailed

text \<open>\<^verbatim>\<open>strings.EqualFold\<close> of two hexadecimal texts.\<close>

definition same_hex :: "string \<Rightarrow> string \<Rightarrow> bool" where
  "same_hex a b \<longleftrightarrow> to_lower a = to_lower b"

text \<open>The installation of a checked binary: the old one is kept under another name and put back when the new one cannot be moved.\<close>

definition install :: "faults \<Rightarrow> update_paths \<Rightarrow> files \<Rightarrow> bool \<times> files" where
  "install F P fs =
     (case rename (ft_backup F) (up_agent P) (up_backup P) fs of
        (Failed_rename, fs1) \<Rightarrow> (False, fs1)
      | (_, fs1) \<Rightarrow>
          (case rename (ft_install F) (up_tmp P) (up_agent P) fs1 of
             (Renamed, fs2) \<Rightarrow> (True, fs2)
           | (_, fs2) \<Rightarrow> (False, snd (rename (ft_rollback F) (up_backup P) (up_agent P) fs2))))"

text \<open>What happens once the temporary file exists; the caller removes that file at the end.\<close>

definition store_and_install ::
  "(bytes \<Rightarrow> bytes) \<Rightarrow> faults \<Rightarrow> update_paths \<Rightarrow> agentManifest \<Rightarrow> response \<Rightarrow> files \<Rightarrow> update_error option \<times> files" where
  "store_and_install sha256 F P m r fs =
     (let data = take (nat (am_Size m) + 1) (rs_body r); fs1 = fs(up_tmp P := Some data) in
      if ft_write F \<or> rs_broken r \<and> length (rs_body r) \<le> nat (am_Size m) then (Some FileError, fs1)
      else if ft_close F then (Some FileError, fs1)
      else if int (length data) \<noteq> am_Size m then (Some (BadBinarySize (length data)), fs1)
      else if \<not> same_hex (hex_encode (sha256 data)) (am_SHA256 m) then (Some BadBinaryHash, fs1)
      else if ft_chmod F \<or> ft_executable F then (Some FileError, fs1)
      else case install F P fs1 of
        (False, fs2) \<Rightarrow> (Some FileError, fs2)
      | (True, fs2) \<Rightarrow> (if ft_restart F then Some RestartFailed else None, fs2))"

definition performSecureAgentUpdate ::
  "ed25519 \<Rightarrow> (bytes \<Rightarrow> agentManifest option) \<Rightarrow> (bytes \<Rightarrow> bytes) \<Rightarrow> agent_build \<Rightarrow> controller \<Rightarrow> faults \<Rightarrow> update_paths \<Rightarrow> files \<Rightarrow>
   update_error option \<times> files" where
  "performSecureAgentUpdate E unmarshal sha256 B C F P fs =
     (case fetchLimited (ct_manifest C) maxManifestBytes of
        None \<Rightarrow> (Some NoManifest, fs)
      | Some manifestBytes \<Rightarrow>
          (case fetchLimited (ct_sig C) maxManifestBytes of
             None \<Rightarrow> (Some NoSignature, fs)
           | Some sigBytes \<Rightarrow>
               (case verifyManifest E unmarshal B manifestBytes sigBytes of
                  Inl e \<Rightarrow> (Some (BadManifest e), fs)
                | Inr m \<Rightarrow>
                    (case ct_agent C of
                       None \<Rightarrow> (Some NoAgent, fs)
                     | Some r \<Rightarrow>
                         if rs_StatusCode r \<noteq> 200 then (Some (BadStatus (rs_StatusCode r)), fs)
                         else if ft_createTemp F then (Some FileError, fs)
                         else (case store_and_install sha256 F P m r fs of
                                 (e, fs1) \<Rightarrow> (e, remove_file (up_tmp P) fs1))))))"

section \<open>Newer is an order\<close>

definition number_at :: "int list \<Rightarrow> nat \<Rightarrow> int" where
  "number_at xs i = (if i < length xs then xs ! i else 0)"

lemma number_at_simps [simp]:
  "number_at [] i = 0" "number_at (x # xs) 0 = x" "number_at (x # xs) (Suc i) = number_at xs i"
  by (simp_all add: number_at_def)

text \<open>The first number that differs decides.\<close>

lemma newer_iff: "newer c d \<longleftrightarrow> (\<exists>i. number_at d i < number_at c i \<and> (\<forall>j < i. number_at c j = number_at d j))"
proof -
  have step: "(\<exists>i. f' i < f i \<and> (\<forall>j < i. f j = f' j)) \<longleftrightarrow>
      (if f 0 \<noteq> f' 0 then f 0 > f' 0 else \<exists>i. f' (Suc i) < f (Suc i) \<and> (\<forall>j < i. f (Suc j) = f' (Suc j)))" for f f' :: "nat \<Rightarrow> int"
  proof (cases "f 0 = f' 0")
    case True
    have "(\<exists>i. f' i < f i \<and> (\<forall>j < i. f j = f' j)) \<longleftrightarrow> (\<exists>i. f' (Suc i) < f (Suc i) \<and> (\<forall>j < Suc i. f j = f' j))"
      using True by (metis less_irrefl not0_implies_Suc)
    also have "\<dots> \<longleftrightarrow> (\<exists>i. f' (Suc i) < f (Suc i) \<and> (\<forall>j < i. f (Suc j) = f' (Suc j)))" using True by (simp add: All_less_Suc2)
    finally show ?thesis using True by simp
  next
    case False
    then show ?thesis by (metis gr0I not_less_zero)
  qed
  show ?thesis
  proof (induction c d rule: newer.induct)
    case (2 a c)
    then show ?case by (subst step) simp
  next
    case (3 b cur)
    then show ?case by (subst step) simp
  next
    case (4 a c b cur)
    then show ?case by (subst step) simp
  qed simp
qed

lemma newer_trans: "newer a b \<Longrightarrow> newer b c \<Longrightarrow> newer a c"
proof -
  assume "newer a b" "newer b c"
  then obtain i j where i: "number_at b i < number_at a i" "\<forall>k < i. number_at a k = number_at b k"
    and j: "number_at c j < number_at b j" "\<forall>k < j. number_at b k = number_at c k" by (auto simp: newer_iff)
  have "number_at c (min i j) < number_at a (min i j)" using i j by (cases i j rule: linorder_cases) (auto simp: min_def)
  moreover have "\<forall>k < min i j. number_at a k = number_at c k" using i j by auto
  ultimately show ?thesis unfolding newer_iff by blast
qed

lemma newer_irrefl: "\<not> newer a a"
  by (auto simp: newer_iff)

text \<open>
  C14. An update is offered exactly when it goes forward: the candidate must be a version, and then it counts as
  newer if the running agent's version is none, or if at the first place where the numbers of the two differ the
  candidate's number is the larger one, where a shorter version continues with zeros.  The agent's own version never
  counts as newer, and what is newer than a newer version is newer.
\<close>

theorem newer_version_order:
  "(isNewerVersion candidate current \<longleftrightarrow>
      (\<exists>x. parseVersion candidate = Some x \<and>
        (case parseVersion current of
           None \<Rightarrow> True
         | Some y \<Rightarrow> \<exists>i. number_at y i < number_at x i \<and> (\<forall>j < i. number_at x j = number_at y j)))) \<and>
   \<not> isNewerVersion current current \<and>
   (isNewerVersion candidate current \<and> isNewerVersion latest candidate \<longrightarrow> isNewerVersion latest current)"
proof (intro conjI impI)
  show "isNewerVersion candidate current \<longleftrightarrow>
      (\<exists>x. parseVersion candidate = Some x \<and>
        (case parseVersion current of
           None \<Rightarrow> True
         | Some y \<Rightarrow> \<exists>i. number_at y i < number_at x i \<and> (\<forall>j < i. number_at x j = number_at y j)))"
    by (simp add: isNewerVersion_def newer_iff split: option.split)
  show "\<not> isNewerVersion current current" by (auto simp: isNewerVersion_def newer_irrefl split: option.split)
  show "isNewerVersion latest current" if "isNewerVersion candidate current \<and> isNewerVersion latest candidate"
    using that by (auto simp: isNewerVersion_def intro: newer_trans split: option.splits)
qed

theorem newer_version_order_witness:
  "isNewerVersion ''v1.10.0'' ''1.9.3'' \<and> isNewerVersion ''1.9.3'' ''v1.2-rc1'' \<and> isNewerVersion ''v1.10.0'' ''v1.2-rc1'' \<and>
   \<not> isNewerVersion ''1.9.3'' ''v1.10.0'' \<and> \<not> isNewerVersion ''dev'' ''1''"
proof -
  have "isNewerVersion ''v1.10.0'' ''1.9.3'' \<and> isNewerVersion ''1.9.3'' ''v1.2-rc1'' \<and> \<not> isNewerVersion ''dev'' ''1''" by code_simp
  then show ?thesis
    using newer_version_order [of "''1.9.3''" "''v1.2-rc1''" "''v1.10.0''"]
      newer_version_order [of "''v1.10.0''" "''1.9.3''" "''1.9.3''"] by blast
qed

section \<open>What an update installs\<close>

lemma verifyManifest_release:
  assumes "verifyManifest E unmarshal B manifestBytes sigBase64 = Inr m"
  obtains pub sig where "b64decode False (ab_TrustedPubKey B) = Some pub" "length pub = PublicKeySize" "b64decode False (trim_space sigBase64) = Some sig"
    "ed_Verify E pub manifestBytes sig" "unmarshal manifestBytes = Some m" "am_OS m = ab_GOOS B" "am_Arch m = ab_GOARCH B"
    "0 < am_Size m" "am_Size m \<le> maxAgentBinaryBytes" "isNewerVersion (am_Version m) (ab_Version B)"
  using assms unfolding verifyManifest_def by (auto split: if_splits option.splits)

text \<open>A release for this agent: its manifest is signed, for its platform and newer, and the data is the one it names.\<close>

definition release :: "ed25519 \<Rightarrow> (bytes \<Rightarrow> agentManifest option) \<Rightarrow> (bytes \<Rightarrow> bytes) \<Rightarrow> agent_build \<Rightarrow> bytes \<Rightarrow> bool" where
  "release E unmarshal sha256 B data \<longleftrightarrow>
     (\<exists>manifestBytes pub sig m. b64decode False (ab_TrustedPubKey B) = Some pub \<and> length pub = PublicKeySize \<and>
        ed_Verify E pub manifestBytes sig \<and> unmarshal manifestBytes = Some m \<and>
        am_OS m = ab_GOOS B \<and> am_Arch m = ab_GOARCH B \<and> isNewerVersion (am_Version m) (ab_Version B) \<and>
        int (length data) = am_Size m \<and> am_Size m \<le> maxAgentBinaryBytes \<and> same_hex (hex_encode (sha256 data)) (am_SHA256 m))"

definition separate :: "update_paths \<Rightarrow> bool" where
  "separate P \<longleftrightarrow> up_tmp P \<noteq> up_agent P \<and> up_backup P \<noteq> up_agent P \<and> up_tmp P \<noteq> up_backup P"

text \<open>The three ends of an installation: nothing happened, the new binary is in place, or neither move worked.\<close>

lemma install_ends:
  assumes "install F P fs = (ok, fs1)" "separate P" "fs (up_tmp P) = Some data" "fs (up_backup P) = None"
  shows "(ok \<longrightarrow> fs1 (up_agent P) = Some data) \<and> (\<not> ok \<longrightarrow> fs1 (up_agent P) = fs (up_agent P) \<or> ft_rollback F \<and> fs1 (up_agent P) = None) \<and>
    (fs1 (up_agent P) \<noteq> fs (up_agent P) \<longrightarrow> fs (up_agent P) \<noteq> None \<longrightarrow> fs1 (up_backup P) = fs (up_agent P)) \<and>
    (\<forall>p. p \<notin> {up_tmp P, up_agent P, up_backup P} \<longrightarrow> fs1 p = fs p)"
  using assms unfolding install_def separate_def rename_def
  by (cases "ft_backup F"; cases "fs (up_agent P)"; cases "ft_install F"; cases "ft_rollback F") (auto split: if_splits option.splits)

text \<open>
  C15. An update installs releases only: afterwards the agent's binary is the old one, or the data of a
  release, signed for this platform and newer than the agent, or, when putting the old one back failed, there is
  none; success means a release, the old binary is kept under the other name unless it is still in place, and no
  other file changes.
\<close>

theorem update_installs_release:
  assumes "performSecureAgentUpdate E unmarshal sha256 B C F P fs = (e, fs1)" "separate P" "fs (up_backup P) = None"
  shows "(fs1 (up_agent P) = fs (up_agent P) \<or> (\<exists>data. fs1 (up_agent P) = Some data \<and> release E unmarshal sha256 B data) \<or>
           ft_rollback F \<and> fs1 (up_agent P) = None) \<and>
    (e = None \<longrightarrow> (\<exists>data. fs1 (up_agent P) = Some data \<and> release E unmarshal sha256 B data)) \<and>
    (fs (up_agent P) \<noteq> None \<longrightarrow> fs1 (up_agent P) = fs (up_agent P) \<or> fs1 (up_backup P) = fs (up_agent P)) \<and>
    (\<forall>p. p \<notin> {up_tmp P, up_agent P, up_backup P} \<longrightarrow> fs1 p = fs p)"
proof (cases "e \<noteq> None \<and> fs1 = fs")
  case True
  then show ?thesis by auto
next
  case False
  have sep: "up_tmp P \<noteq> up_agent P" "up_backup P \<noteq> up_agent P" "up_tmp P \<noteq> up_backup P" using assms(2) by (auto simp: separate_def)
  obtain mb sb m r fs2 where v: "verifyManifest E unmarshal B mb sb = Inr m"
    and s: "store_and_install sha256 F P m r fs = (e, fs2)" and fs1: "fs1 = remove_file (up_tmp P) fs2"
    using assms(1) False unfolding performSecureAgentUpdate_def by (auto split: option.splits sum.splits if_splits prod.splits)
  define data where "data = take (nat (am_Size m) + 1) (rs_body r)"
  have at: "fs1 (up_agent P) = fs2 (up_agent P)" "fs1 (up_backup P) = fs2 (up_backup P)" "p \<noteq> up_tmp P \<Longrightarrow> fs1 p = fs2 p" for p
    using sep by (auto simp: fs1 remove_file_def)
  show ?thesis
  proof (cases "fs2 = fs(up_tmp P := Some data) \<and> e \<noteq> None")
    case True
    then have "fs1 p = fs p" if "p \<noteq> up_tmp P" for p using at(3) [OF that] that by simp
    then show ?thesis using True sep by auto
  next
    case False
    obtain ok where i: "install F P (fs(up_tmp P := Some data)) = (ok, fs2)" and ok: "e = None \<longrightarrow> ok"
      and d: "int (length data) = am_Size m" "same_hex (hex_encode (sha256 data)) (am_SHA256 m)"
      using s False unfolding store_and_install_def Let_def data_def [symmetric]
      by (auto split: if_splits prod.splits bool.splits)
    have rel: "release E unmarshal sha256 B data"
      using v d by (auto simp: release_def elim!: verifyManifest_release)
    have old: "(fs(up_tmp P := Some data)) (up_agent P) = fs (up_agent P)" using sep by simp
    have "(fs(up_tmp P := Some data)) (up_backup P) = None" using sep assms(3) by simp
    from install_ends [OF i assms(2) _ this, of data] rel ok show ?thesis unfolding old at by (cases ok) (auto simp: at(3))
  qed
qed

text \<open>A controller with a release, and one whose binary is another.\<close>

definition demo_build :: agent_build where
  "demo_build = \<lparr>ab_TrustedPubKey = b64encode (replicate 32 (CHR ''k'')), ab_Version = ''1.0.0'', ab_GOOS = ''linux'', ab_GOARCH = ''amd64''\<rparr>"

definition demo_manifest :: agentManifest where
  "demo_manifest = \<lparr>am_Version = ''1.2.0'', am_OS = ''linux'', am_Arch = ''amd64'', am_SHA256 = hex_encode (replicate 32 (CHR ''n'')), am_Size = 3\<rparr>"

definition demo_sig :: bytes where
  "demo_sig = take 64 (''m'' @ replicate 32 (CHR ''k'') @ replicate 64 (CHR ''0''))"

definition demo_controller :: "bytes \<Rightarrow> controller" where
  "demo_controller body =
     \<lparr>ct_manifest = Some \<lparr>rs_StatusCode = 200, rs_body = ''m'', rs_broken = False\<rparr>,
      ct_sig = Some \<lparr>rs_StatusCode = 200, rs_body = b64encode demo_sig, rs_broken = False\<rparr>,
      ct_agent = Some \<lparr>rs_StatusCode = 200, rs_body = body, rs_broken = False\<rparr>\<rparr>"

definition no_faults :: faults where
  "no_faults = \<lparr>ft_createTemp = False, ft_write = False, ft_close = False, ft_chmod = False, ft_executable = False,
     ft_backup = False, ft_install = False, ft_rollback = False, ft_restart = False\<rparr>"

definition demo_update_paths :: update_paths where
  "demo_update_paths = \<lparr>up_tmp = ''/tmp/a'', up_agent = ''/bin/agent'', up_backup = ''/bin/agent.bak''\<rparr>"

definition toy_sha256 :: "bytes \<Rightarrow> bytes" where
  "toy_sha256 d = (case d of c # _ \<Rightarrow> replicate 32 c | [] \<Rightarrow> [])"

definition demo_files :: files where
  "demo_files = (\<lambda>p. if p = ''/bin/agent'' then Some ''old'' else None)"

definition demo_update :: "bytes \<Rightarrow> update_error option \<times> files" where
  "demo_update body = performSecureAgentUpdate toy_ed25519 (\<lambda>b. Some demo_manifest) toy_sha256 demo_build (demo_controller body) no_faults demo_update_paths demo_files"

lemma fetchLimited_short: "length b \<le> limit \<Longrightarrow> fetchLimited (Some \<lparr>rs_StatusCode = 200, rs_body = b, rs_broken = False\<rparr>) limit = Some b"
  by (simp add: fetchLimited_def Let_def)

lemma demo_manifest_verified:
  "verifyManifest toy_ed25519 (\<lambda>b. Some demo_manifest) demo_build ''m''
     (b64encode demo_sig) = Inr demo_manifest"
  by code_simp

lemma demo_update_stores:
  "demo_update body =
     (case store_and_install toy_sha256 no_faults demo_update_paths demo_manifest \<lparr>rs_StatusCode = 200, rs_body = body, rs_broken = False\<rparr> demo_files of
        (e, fs1) \<Rightarrow> (e, remove_file ''/tmp/a'' fs1))"
proof -
  have "length (b64encode demo_sig) = 88" by code_simp
  then show ?thesis
    by (simp add: demo_update_def performSecureAgentUpdate_def demo_controller_def fetchLimited_short maxManifestBytes_def
        demo_manifest_verified no_faults_def demo_update_paths_def)
qed

lemma demo_hash: "same_hex (hex_encode (toy_sha256 ''new'')) (am_SHA256 demo_manifest)"
  by (simp add: same_hex_def toy_sha256_def demo_manifest_def)

lemma demo_size: "am_Size demo_manifest = 3"
  by (simp add: demo_manifest_def)

lemma demo_update_runs:
  "(case demo_update ''new'' of (e, fs) \<Rightarrow> (e, fs ''/bin/agent'', fs ''/bin/agent.bak'', fs ''/tmp/a'')) = (None, Some ''new'', Some ''old'', None)"
  "(case demo_update ''newer'' of (e, fs) \<Rightarrow> (e, fs ''/bin/agent'')) = (Some (BadBinarySize 4), Some ''old'')"
  unfolding demo_update_stores
  by (simp_all add: store_and_install_def demo_hash demo_size no_faults_def install_def rename_def demo_update_paths_def demo_files_def
      remove_file_def Let_def)

theorem update_installs_release_witness:
  "\<exists>fs. demo_update ''new'' = (None, fs) \<and> fs ''/bin/agent'' = Some ''new'' \<and>
     release toy_ed25519 (\<lambda>b. Some demo_manifest) toy_sha256 demo_build ''new''"
proof -
  obtain e fs where u: "demo_update ''new'' = (e, fs)" by fastforce
  with demo_update_runs(1) have e: "e = None" "fs ''/bin/agent'' = Some ''new''" by auto
  have "separate demo_update_paths" by code_simp
  from update_installs_release [OF u [unfolded demo_update_def] this] e
  show ?thesis using u by (auto simp: demo_update_paths_def demo_files_def)
qed

end
