(* ===== verification/Agent_Loop.thy ===== *)
theory Agent_Loop
  imports Command_Auth
begin

text \<open>
  The agent's main loop (\<^verbatim>\<open>RunAgent\<close> and \<^verbatim>\<open>startHTTPPolling\<close> in \<^verbatim>\<open>agent/cmd/patchli-agent/main.go\<close>):
  how it gets commands over the socket or by polling, verifies them and renews its tokens.  The loop is a machine whose events are the outcomes of
  its network operations; responses are decoded payloads.  Heartbeats and the tests of cancellation in
  the middle of an operation are left out.
\<close>

section \<open>The machine\<close>

record AgentTokenPair =
  at_AccessToken :: string
  at_RefreshToken :: string

datatype mode = Dialing | Connected | Polling | Waiting | Stopped

text \<open>\<open>tokens\<close> is the variable of \<^verbatim>\<open>RunAgent\<close>, \<open>poll_tokens\<close> the parameter of \<^verbatim>\<open>startHTTPPolling\<close>, \<open>saved\<close> the token file.\<close>

record agent =
  ag_mode :: mode
  ag_tokens :: "AgentTokenPair option"
  ag_poll_tokens :: "AgentTokenPair option"
  ag_saved :: "AgentTokenPair option"
  ag_seen :: seen_commands
  ag_executed :: "CommandPayload list"

text \<open>
  Outcomes: a refused dial or poll comes with that of the token refresh; a message is a command, a command
  that cannot be decoded, or of another type; a poll's body may not be decodable; \<open>save_ok\<close>: the token file was written.
\<close>

datatype ws_message = Command CommandPayload | Bad_command | Other_message

datatype agent_event =
    Dial_ok
  | Dial_unauthorized "AgentTokenPair option" bool
  | Dial_failed
  | Message time ws_message
  | Closed
  | Poll_ok time "CommandPayload option"
  | Poll_unauthorized "AgentTokenPair option" bool
  | Poll_other
  | Poll_error
  | Waited
  | Cancelled

record agent_config =
  cf_ed25519 :: ed25519
  cf_CommandPubKey :: string
  cf_nodeID :: string

text \<open>\<^verbatim>\<open>connectAndRun\<close> from its beginning: without tokens it polls.\<close>

definition connect :: "agent \<Rightarrow> agent" where
  "connect a = (if ag_tokens a = None then a\<lparr>ag_mode := Polling, ag_poll_tokens := None\<rparr> else a\<lparr>ag_mode := Dialing\<rparr>)"

definition fall_back :: "agent \<Rightarrow> agent" where
  "fall_back a = a\<lparr>ag_mode := Polling, ag_poll_tokens := ag_tokens a\<rparr>"

text \<open>Verification, and execution of what passes it.\<close>

definition handle_command :: "agent_config \<Rightarrow> time \<Rightarrow> CommandPayload \<Rightarrow> agent \<Rightarrow> agent" where
  "handle_command C now cmd a =
     (case verifyCommand (cf_ed25519 C) (cf_CommandPubKey C) cmd (cf_nodeID C) now (ag_seen a) of
        (None, seen) \<Rightarrow> a\<lparr>ag_seen := seen, ag_executed := ag_executed a @ [cmd]\<rparr>
      | (Some e, seen) \<Rightarrow> a\<lparr>ag_seen := seen\<rparr>)"

definition save :: "bool \<Rightarrow> AgentTokenPair \<Rightarrow> agent \<Rightarrow> agent" where
  "save ok t a = (if ok then a\<lparr>ag_saved := Some t\<rparr> else a)"

fun agent_step :: "agent_config \<Rightarrow> agent_event \<Rightarrow> agent \<Rightarrow> agent option" where
  "agent_step C Dial_ok a = (if ag_mode a = Dialing then Some (a\<lparr>ag_mode := Connected\<rparr>) else None)"
| "agent_step C (Dial_unauthorized r ok) a =
     (if ag_mode a \<noteq> Dialing then None
      else case r of
        Some t \<Rightarrow> Some (connect (save ok t (a\<lparr>ag_tokens := Some t\<rparr>)))
      | None \<Rightarrow> Some (fall_back a))"
| "agent_step C Dial_failed a = (if ag_mode a = Dialing then Some (fall_back a) else None)"
| "agent_step C (Message now m) a =
     (if ag_mode a \<noteq> Connected then None
      else Some (case m of Command cmd \<Rightarrow> handle_command C now cmd a | _ \<Rightarrow> a))"
| "agent_step C Closed a = (if ag_mode a = Connected then Some (a\<lparr>ag_mode := Waiting\<rparr>) else None)"
| "agent_step C (Poll_ok now body) a =
     (if ag_mode a \<noteq> Polling then None
      else Some (case body of
        None \<Rightarrow> a
      | Some cmd \<Rightarrow>
          if cp_Action cmd = [] \<or> ag_poll_tokens a = None then a else handle_command C now cmd a))"
| "agent_step C (Poll_unauthorized r ok) a =
     (if ag_mode a \<noteq> Polling then None
      else Some (if ag_poll_tokens a = None then a
                 else case r of Some t \<Rightarrow> save ok t (a\<lparr>ag_poll_tokens := Some t\<rparr>) | None \<Rightarrow> a))"
| "agent_step C Poll_other a = (if ag_mode a = Polling then Some a else None)"
| "agent_step C Poll_error a = (if ag_mode a = Polling then Some a else None)"
| "agent_step C Waited a = (if ag_mode a = Waiting then Some (connect a) else None)"
| "agent_step C Cancelled a = (if ag_mode a = Polling \<or> ag_mode a = Waiting then Some (a\<lparr>ag_mode := Stopped\<rparr>) else None)"

definition start_agent :: "AgentTokenPair option \<Rightarrow> agent" where
  "start_agent tokens =
     connect \<lparr>ag_mode = Waiting, ag_tokens = tokens, ag_poll_tokens = None, ag_saved = tokens, ag_seen = [], ag_executed = []\<rparr>"

fun agent_run :: "agent_config \<Rightarrow> agent_event list \<Rightarrow> agent \<Rightarrow> agent option" where
  "agent_run C [] a = Some a"
| "agent_run C (e # es) a = Option.bind (agent_step C e a) (agent_run C es)"

section \<open>Only verified commands are executed\<close>

text \<open>The commands that reach verification, with their times: those that an agent with tokens receives.\<close>

fun delivered_by :: "agent_event \<Rightarrow> agent \<Rightarrow> (time \<times> CommandPayload) list" where
  "delivered_by (Message now (Command cmd)) a = [(now, cmd)]"
| "delivered_by (Poll_ok now (Some cmd)) a = (if cp_Action cmd = [] \<or> ag_poll_tokens a = None then [] else [(now, cmd)])"
| "delivered_by e a = []"

fun delivered :: "agent_config \<Rightarrow> agent_event list \<Rightarrow> agent \<Rightarrow> (time \<times> CommandPayload) list" where
  "delivered C [] a = []"
| "delivered C (e # es) a = (case agent_step C e a of None \<Rightarrow> [] | Some a1 \<Rightarrow> delivered_by e a @ delivered C es a1)"

abbreviation verify_with :: "agent_config \<Rightarrow> seen_commands \<Rightarrow> time \<times> CommandPayload \<Rightarrow> bool \<times> seen_commands" where
  "verify_with C \<equiv> verify_step (cf_ed25519 C) (cf_CommandPubKey C) (cf_nodeID C)"

definition selected :: "bool list \<Rightarrow> 'a list \<Rightarrow> 'a list" where
  "selected bs xs = map fst (filter snd (zip xs bs))"

lemma step_verifies:
  assumes "agent_step C e a = Some a1"
  defines "r \<equiv> run_calls (verify_with C) (ag_seen a) (delivered_by e a)"
  shows "ag_seen a1 = snd r" "ag_executed a1 = ag_executed a @ map snd (selected (fst r) (delivered_by e a))"
proof -
  have h: "ag_seen (handle_command C now cmd a) = snd (verify_with C (ag_seen a) (now, cmd)) \<and>
      ag_executed (handle_command C now cmd a) = ag_executed a @ (if fst (verify_with C (ag_seen a) (now, cmd)) then [cmd] else [])" for now cmd
    by (auto simp: handle_command_def verify_step_def split: prod.split option.split)
  have m: "ag_seen (connect b) = ag_seen b \<and> ag_executed (connect b) = ag_executed b \<and> ag_seen (fall_back b) = ag_seen b \<and>
      ag_executed (fall_back b) = ag_executed b \<and> ag_seen (save ok t b) = ag_seen b \<and> ag_executed (save ok t b) = ag_executed b" for b ok t
    by (simp add: connect_def fall_back_def save_def)
  have "ag_seen a1 = snd r \<and> ag_executed a1 = ag_executed a @ map snd (selected (fst r) (delivered_by e a))"
    using assms(1) unfolding r_def
    by (cases "(e, a)" rule: delivered_by.cases) (auto simp: h m selected_def Let_def split: if_splits option.splits)
  then show "ag_seen a1 = snd r" "ag_executed a1 = ag_executed a @ map snd (selected (fst r) (delivered_by e a))" by auto
qed

lemma selected_append: "length bs = length xs \<Longrightarrow> selected (bs @ cs) (xs @ ys) = selected bs xs @ selected cs ys"
  by (simp add: selected_def)

lemma run_verifies:
  assumes "agent_run C es a = Some a1"
  shows "ag_executed a1 = ag_executed a @ map snd (selected (fst (run_calls (verify_with C) (ag_seen a) (delivered C es a))) (delivered C es a))"
  using assms
proof (induction es arbitrary: a)
  case Nil
  then show ?case by (simp add: selected_def)
next
  case (Cons e es)
  then obtain a2 where a2: "agent_step C e a = Some a2" "agent_run C es a2 = Some a1" by (auto simp: bind_eq_Some_conv)
  note s = step_verifies [OF a2(1)]
  show ?case
    using Cons.IH [OF a2(2)] s a2(1) by (simp add: run_calls_append selected_append length_run_calls Let_def)
qed

lemma selected_sorted_wrt:
  assumes "length bs = length xs"
    and "\<And>i j. i < j \<Longrightarrow> j < length xs \<Longrightarrow> bs ! i \<Longrightarrow> bs ! j \<Longrightarrow> R (xs ! i) (xs ! j)"
  shows "sorted_wrt R (selected bs xs)"
  using assms
proof (induction bs xs rule: list_induct2)
  case Nil
  then show ?case by (simp add: selected_def)
next
  case (Cons b bs x xs)
  have "sorted_wrt R (selected bs xs)"
    by (rule Cons.IH) (use Cons.prems [of "Suc _" "Suc _"] in simp)
  moreover have "R x y" if b and y: "y \<in> set (selected bs xs)" for y
  proof -
    obtain j where "j < length xs" "xs ! j = y" "bs ! j"
      using y Cons.hyps by (auto simp: selected_def set_zip)
    then show ?thesis using Cons.prems [of 0 "Suc j"] \<open>b\<close> by simp
  qed
  ultimately show ?case by (cases b) (auto simp: selected_def)
qed

lemma selected_all: "selected (replicate (length xs) True) xs = xs"
  by (induction xs) (simp_all add: selected_def)

lemma in_selected: "length bs = length xs \<Longrightarrow> x \<in> set (selected bs xs) \<Longrightarrow> \<exists>i<length xs. bs ! i \<and> xs ! i = x"
  by (auto simp: selected_def set_zip)

text \<open>An agent without tokens polls, and stays without: it is \<open>mute\<close>.\<close>

definition mute :: "agent \<Rightarrow> bool" where
  "mute a \<longleftrightarrow> ag_mode a \<in> {Polling, Stopped} \<and> ag_poll_tokens a = None"

lemma mute_step: "agent_step C e a = Some a1 \<Longrightarrow> mute a \<Longrightarrow> mute a1 \<and> delivered_by e a = []"
  by (cases "(e, a)" rule: delivered_by.cases) (auto simp: mute_def split: if_splits option.splits)

lemma mute_run: "agent_run C es a = Some a1 \<Longrightarrow> mute a \<Longrightarrow> delivered C es a = []"
proof (induction es arbitrary: a)
  case (Cons e es)
  then obtain a2 where "agent_step C e a = Some a2" "agent_run C es a2 = Some a1" by (auto simp: bind_eq_Some_conv)
  with Cons.IH [of a2] mute_step [of C e a a2] Cons.prems(2) show ?case by simp
qed simp

text \<open>Polling ends only with the agent: it does not go back to the socket.\<close>

lemma polling_absorbs:
  assumes "agent_run C es a = Some a1" and "ag_mode a \<in> {Polling, Stopped}"
  shows "ag_mode a1 \<in> {Polling, Stopped} \<and> ag_tokens a1 = ag_tokens a"
  using assms
proof (induction es arbitrary: a)
  case (Cons e es)
  then obtain a2 where a2: "agent_step C e a = Some a2" "agent_run C es a2 = Some a1" by (auto simp: bind_eq_Some_conv)
  have "ag_mode a2 \<in> {Polling, Stopped} \<and> ag_tokens a2 = ag_tokens a"
    using a2(1) Cons.prems(2)
    by (cases e) (auto simp: handle_command_def save_def split: if_splits option.splits prod.splits)
  with Cons.IH [OF a2(2)] show ?case by simp
qed simp

lemma start_agent_simps [simp]:
  "ag_seen (start_agent t) = []" "ag_executed (start_agent t) = []"
  by (simp_all add: start_agent_def connect_def)

text \<open>C4. With a command key configured, an agent executes only commands that the key's owner signed for
  this very node and that had not expired when they arrived, whichever way they reached it and however often it lost
  its connection or renewed its tokens, and it executes none twice if its clock does not run backwards.
  Without a key it executes every command that is delivered to it, as often as it is delivered.
  An agent that started without tokens executes none at all, with a key or without.\<close>

theorem agent_executes_verified:
  assumes run: "agent_run C es (start_agent tokens) = Some a"
  shows "(if cf_CommandPubKey C = [] then ag_executed a = map snd (delivered C es (start_agent tokens))
     else (\<forall>cmd\<in>set (ag_executed a). \<exists>now pub sig. (now, cmd) \<in> set (delivered C es (start_agent tokens)) \<and>
        b64decode False (cf_CommandPubKey C) = Some pub \<and> b64decode True (cp_Signature cmd) = Some sig \<and>
        ed_Verify (cf_ed25519 C) pub (commandMessage cmd) sig \<and>
        cp_NodeID cmd = cf_nodeID C \<and> now < time_Unix (cp_ExpiresAt cmd)) \<and>
       (sorted (map fst (delivered C es (start_agent tokens))) \<longrightarrow>
        sorted_wrt (\<lambda>c d. b64decode True (cp_Signature c) = b64decode True (cp_Signature d) \<longrightarrow> cp_ExpiresAt c \<noteq> cp_ExpiresAt d)
          (ag_executed a))) \<and>
    (tokens = None \<longrightarrow> ag_executed a = [])"
proof -
  let ?ds = "delivered C es (start_agent tokens)"
  let ?bs = "fst (run_calls (verify_with C) [] ?ds)"
  have len: "length ?bs = length ?ds" by (simp add: length_run_calls)
  have ex: "ag_executed a = map snd (selected ?bs ?ds)"
    using run_verifies [OF run] by simp
  have acc: "\<exists>s s'. verifyCommand (cf_ed25519 C) (cf_CommandPubKey C) (snd (?ds ! i)) (cf_nodeID C) (fst (?ds ! i)) s = (None, s')"
    if "i < length ?ds" "?bs ! i" for i
    using run_calls_nth [OF that] verify_step_accept by metis
  have unsigned: "ag_executed a = map snd ?ds" if "cf_CommandPubKey C = []"
    using ex that by (simp add: unsigned_mode_run selected_all)
  have "\<exists>now pub sig. (now, cmd) \<in> set ?ds \<and>
      b64decode False (cf_CommandPubKey C) = Some pub \<and> b64decode True (cp_Signature cmd) = Some sig \<and>
      ed_Verify (cf_ed25519 C) pub (commandMessage cmd) sig \<and>
      cp_NodeID cmd = cf_nodeID C \<and> now < time_Unix (cp_ExpiresAt cmd)" if key: "cf_CommandPubKey C \<noteq> []" and cmd: "cmd \<in> set (ag_executed a)" for cmd
  proof -
    obtain now i where i: "i < length ?ds" "?bs ! i" "?ds ! i = (now, cmd)"
      using cmd ex in_selected [OF len] by fastforce
    with acc obtain s s' where v: "verifyCommand (cf_ed25519 C) (cf_CommandPubKey C) cmd (cf_nodeID C) now s = (None, s')" by fastforce
    have "(now, cmd) \<in> set ?ds" using i nth_mem by metis
    with verifyCommand_accept [OF v key] show ?thesis unfolding commandMessage_eq by metis
  qed
  moreover have "sorted_wrt (\<lambda>c d. b64decode True (cp_Signature (snd c)) = b64decode True (cp_Signature (snd d)) \<longrightarrow>
      cp_ExpiresAt (snd c) \<noteq> cp_ExpiresAt (snd d)) (selected ?bs ?ds)"
    if key: "cf_CommandPubKey C \<noteq> []" and clock: "sorted (map fst ?ds)"
  proof (intro selected_sorted_wrt [OF len] impI notI)
    fix i j
    assume ij: "i < j" "j < length ?ds" "?bs ! i" "?bs ! j"
      and same: "b64decode True (cp_Signature (snd (?ds ! i))) = b64decode True (cp_Signature (snd (?ds ! j)))"
        "cp_ExpiresAt (snd (?ds ! i)) = cp_ExpiresAt (snd (?ds ! j))"
    obtain s s' where "verifyCommand (cf_ed25519 C) (cf_CommandPubKey C) (snd (?ds ! j)) (cf_nodeID C) (fst (?ds ! j)) s = (None, s')"
      using acc ij by blast
    from verifyCommand_accept [OF this key]
    obtain sig where sig: "b64decode True (cp_Signature (snd (?ds ! j))) = Some sig" by metis
    show False
      using verify_run_once [OF key gwf_Nil clock ij(1,2) _ sig same(2) ij(3)] same(1) sig ij(4) by simp
  qed
  moreover have "ag_executed a = []" if "tokens = None"
    using mute_run [OF run] that ex by (simp add: mute_def start_agent_def connect_def selected_def)
  ultimately show ?thesis using unsigned by (simp add: ex sorted_wrt_map)
qed

definition demo_agent :: agent_config where
  "demo_agent = \<lparr>cf_ed25519 = permissive_ed25519, cf_CommandPubKey = b64encode (replicate 32 (CHR ''p'')), cf_nodeID = ''n1''\<rparr>"

definition demo_agent_events :: "agent_event list" where
  "demo_agent_events = [Dial_ok, Message 5 (Command (replayed_command [])), Closed, Waited, Dial_failed,
     Poll_ok 6 (Some (replayed_command [CHR 0x0A]))]"

theorem agent_executes_verified_witness:
  "\<exists>a. agent_run demo_agent demo_agent_events (start_agent (Some \<lparr>at_AccessToken = ''a'', at_RefreshToken = ''r''\<rparr>)) = Some a \<and>
     length (ag_executed a) = 1 \<and> (\<forall>cmd\<in>set (ag_executed a). cp_NodeID cmd = ''n1'') \<and>
     sorted_wrt (\<lambda>c d. b64decode True (cp_Signature c) = b64decode True (cp_Signature d) \<longrightarrow> cp_ExpiresAt c \<noteq> cp_ExpiresAt d)
       (ag_executed a)"
proof -
  let ?start = "start_agent (Some \<lparr>at_AccessToken = ''a'', at_RefreshToken = ''r''\<rparr>)"
  have key: "cf_CommandPubKey demo_agent \<noteq> []" by (simp add: demo_agent_def)
  obtain a where a: "agent_run demo_agent demo_agent_events ?start = Some a" "length (ag_executed a) = 1"
    by (simp add: demo_agent_events_def start_agent_def connect_def fall_back_def handle_command_def demo_agent_def
        replayed_command_def replayed_accept_simps)
  have clock: "sorted (map fst (delivered demo_agent demo_agent_events ?start))"
    by (simp add: demo_agent_events_def start_agent_def connect_def fall_back_def handle_command_def demo_agent_def
        replayed_command_def replayed_accept_simps)
  from agent_executes_verified [OF a(1)] key clock a show ?thesis by (auto simp: demo_agent_def)
qed

end
