(* ===== verification/Agent_Host.thy ===== *)
theory Agent_Host
  imports Agent_Loop "HOL-Library.Word" "HOL-Library.Sublist"
begin

text \<open>
  What the agent does to its host (\<^verbatim>\<open>agent/internal/updater\<close>, \<^verbatim>\<open>agent/internal/state\<close>,
  \<^verbatim>\<open>agent/internal/identity\<close>, \<^verbatim>\<open>executeCommand\<close> in \<^verbatim>\<open>agent/cmd/patchli-agent/main.go\<close>), on Unix.  An operation is a
  program of actions of the operating system; it continues with what the system replies.  The commands
  that an agent executes run concurrently, so their actions interleave.
\<close>

section \<open>Programs of actions\<close>

text \<open>\<open>Run\<close> has additions to the environment and the arguments; \<open>Start\<close> does not wait.\<close>

datatype action =
    Run "string list" "string list"
  | Start "string list"
  | Stat string
  | Statfs string
  | ReadFile string
  | WriteFile string string
  | MkdirAll string
  | Remove string
  | RemoveAll string
  | Chmod string nat
  | Rename string string
  | CreateTemp string string
  | CloseFile string
  | Executable
  | Geteuid
  | SelfUpdate
  | ExitWith int

text \<open>\<open>Done\<close> is success, with output or contents; \<open>Space\<close> holds block size and available blocks.\<close>

datatype reply = Done string | Exited int string | Not_found | Denied string | Space "64 word" "64 word" | User int

datatype 'v prog = Return 'v | Do action "reply \<Rightarrow> 'v prog"

primrec bind :: "'v prog \<Rightarrow> ('v \<Rightarrow> 'w prog) \<Rightarrow> 'w prog" where
  "bind (Return v) f = f v"
| "bind (Do a k) f = Do a (\<lambda>r. bind (k r) f)"

fun succeeded :: "reply \<Rightarrow> bool" where
  "succeeded (Done x) = True"
| "succeeded r = False"

fun output_of :: "reply \<Rightarrow> string" where
  "output_of (Done x) = x"
| "output_of (Exited c x) = x"
| "output_of r = []"

text \<open>\<^verbatim>\<open>ProcessState.ExitCode\<close>: \<open>-1\<close> if the process did not start.\<close>

fun exit_code :: "reply \<Rightarrow> int" where
  "exit_code (Done x) = 0"
| "exit_code (Exited c x) = c"
| "exit_code r = -1"

definition failed :: "reply \<Rightarrow> reply option" where
  "failed r = (if succeeded r then None else Some r)"

definition shell :: "string \<Rightarrow> string list" where
  "shell script = [''sh'', ''-c'', script]"

section \<open>Package managers\<close>

datatype manager = Apk | Apt | Dnf | Yum | Pacman | Zypper

record UpdateResult =
  ur_Success :: bool
  ur_Output :: string
  ur_Error :: "reply option"

definition result_of :: "reply \<Rightarrow> UpdateResult" where
  "result_of r = \<lparr>ur_Success = succeeded r, ur_Output = output_of r, ur_Error = failed r\<rparr>"

definition manager_path :: "manager \<Rightarrow> string" where
  "manager_path m = (case m of
     Apk \<Rightarrow> ''/sbin/apk'' | Apt \<Rightarrow> ''/usr/bin/apt-get'' | Dnf \<Rightarrow> ''/usr/bin/dnf'' | Yum \<Rightarrow> ''/usr/bin/yum''
   | Pacman \<Rightarrow> ''/usr/bin/pacman'' | Zypper \<Rightarrow> ''/usr/bin/zypper'')"

fun detect :: "manager list \<Rightarrow> manager option prog" where
  "detect [] = Return None"
| "detect (m # ms) = Do (Stat (manager_path m)) (\<lambda>r. if succeeded r then Return (Some m) else detect ms)"

definition DetectPackageManager :: "manager option prog" where
  "DetectPackageManager = detect [Apk, Apt, Dnf, Yum, Pacman, Zypper]"

definition environ :: "manager \<Rightarrow> string list" where
  "environ m = (if m = Apt then [''DEBIAN_FRONTEND=noninteractive''] else [])"

definition run_both :: "string list \<Rightarrow> string list \<Rightarrow> string list \<Rightarrow> UpdateResult prog" where
  "run_both env a b = Do (Run env a) (\<lambda>r.
     if \<not> succeeded r then Return (result_of r) else Do (Run env b) (\<lambda>s. Return (result_of s)))"

text \<open>dnf and yum exit with 100 when there are updates.\<close>

definition run_100 :: "string list \<Rightarrow> UpdateResult prog" where
  "run_100 a = Do (Run [] a) (\<lambda>r.
     Return (if \<not> succeeded r \<and> exit_code r \<noteq> 100 then result_of r
             else \<lparr>ur_Success = True, ur_Output = output_of r, ur_Error = None\<rparr>))"

fun CheckUpdates :: "manager \<Rightarrow> UpdateResult prog" where
  "CheckUpdates Apk = run_both [] [''apk'', ''update''] [''apk'', ''version'', ''-l'', ''<'']"
| "CheckUpdates Apt = run_both (environ Apt) [''apt-get'', ''update''] [''apt-get'', ''-s'', ''upgrade'']"
| "CheckUpdates Dnf = run_100 [''dnf'', ''check-update'']"
| "CheckUpdates Yum = run_100 [''yum'', ''check-update'', ''-y'']"
| "CheckUpdates Pacman = run_both [] [''pacman'', ''-Sy''] [''pacman'', ''-Qu'']"
| "CheckUpdates Zypper = run_both [] [''zypper'', ''--non-interactive'', ''refresh''] [''zypper'', ''--non-interactive'', ''list-updates'']"

definition late_package :: "string \<Rightarrow> bool" where
  "late_package p \<longleftrightarrow> contains p ''linux-image'' \<or> contains p ''kernel''"

definition orderPackages :: "string list \<Rightarrow> string list" where
  "orderPackages ps = filter (\<lambda>p. \<not> late_package p) ps @ filter late_package ps"

fun apply_argv :: "manager \<Rightarrow> string list \<Rightarrow> string list" where
  "apply_argv Apk ps = (if ps = [] then [''apk'', ''upgrade''] else [''apk'', ''add''] @ ps)"
| "apply_argv Apt ps =
     (if orderPackages ps = [] then [''apt-get'', ''upgrade'', ''-y''] else [''apt-get'', ''install'', ''-y''] @ orderPackages ps)"
| "apply_argv Dnf ps = (if ps = [] then [''dnf'', ''upgrade'', ''-y''] else [''dnf'', ''install'', ''-y''] @ ps)"
| "apply_argv Yum ps = [''yum'', ''update'', ''-y''] @ ps"
| "apply_argv Pacman ps = (if ps = [] then [''pacman'', ''-Su'', ''--noconfirm''] else [''pacman'', ''-S'', ''--noconfirm''] @ ps)"
| "apply_argv Zypper ps =
     (if ps = [] then [''zypper'', ''--non-interactive'', ''update''] else [''zypper'', ''--non-interactive'', ''install''] @ ps)"

definition ApplyUpdates :: "manager \<Rightarrow> string list \<Rightarrow> UpdateResult prog" where
  "ApplyUpdates m ps = Do (Run (environ m) (apply_argv m ps)) (\<lambda>r. Return (result_of r))"

fun Cleanup :: "manager \<Rightarrow> reply option prog" where
  "Cleanup Apk = Do (Run [] [''apk'', ''cache'', ''clean'']) (\<lambda>r. Return (failed r))"
| "Cleanup Apt = Do (Run (environ Apt) [''apt-get'', ''autoremove'', ''-y'']) (\<lambda>r. Return (failed r))"
| "Cleanup Dnf = Do (Run [] [''dnf'', ''autoremove'', ''-y'']) (\<lambda>r. Return (failed r))"
| "Cleanup Yum = Do (Run [] (shell ''yum help | grep -q autoremove'')) (\<lambda>r.
     Do (Run [] (if succeeded r then [''yum'', ''autoremove'', ''-y''] else [''yum'', ''clean'', ''all''])) (\<lambda>s. Return (failed s)))"
| "Cleanup Pacman = Do (Run [] [''pacman'', ''-Sc'', ''--noconfirm'']) (\<lambda>r. Return (failed r))"
| "Cleanup Zypper = Do (Run [] [''zypper'', ''clean'', ''-a'']) (\<lambda>r. Return (failed r))"

subsection \<open>Disk space and locks\<close>

datatype preflight_error = Cannot_check | Bad_block_size int | Insufficient "64 word" "64 word" | Locked

text \<open>The product saturates at the largest 64-bit number.\<close>

definition disk_check :: "64 word \<Rightarrow> 64 word \<Rightarrow> 64 word \<Rightarrow> preflight_error option" where
  "disk_check minBytes bsize bavail =
     (if sint bsize \<le> 0 then Some (Bad_block_size (sint bsize))
      else let available = (if bavail > (- 1) div bsize then - 1 else bavail * bsize)
           in if available < minBytes then Some (Insufficient minBytes available) else None)"

definition CheckDiskSpace :: "string \<Rightarrow> 64 word \<Rightarrow> preflight_error option prog" where
  "CheckDiskSpace path minBytes = Do (Statfs path) (\<lambda>r. Return (case r of
     Space bsize bavail \<Rightarrow> disk_check minBytes bsize bavail
   | _ \<Rightarrow> Some Cannot_check))"

definition state_dir :: string where "state_dir = ''/var/lib/patchli''"

definition min_space :: "manager \<Rightarrow> 64 word" where
  "min_space m = (if m = Apk then 500 * 1024 * 1024 else 1024 * 1024 * 1024)"

definition stat_lock :: "string \<Rightarrow> preflight_error option prog \<Rightarrow> preflight_error option prog" where
  "stat_lock path p = Do (Stat path) (\<lambda>r. if succeeded r then Return (Some Locked) else p)"

definition pgrep :: "string \<Rightarrow> preflight_error option prog \<Rightarrow> preflight_error option prog" where
  "pgrep name p = Do (Run [] [''pgrep'', ''-x'', name]) (\<lambda>r. if succeeded r then Return (Some Locked) else p)"

fun lock_check :: "manager \<Rightarrow> preflight_error option prog" where
  "lock_check Apk = stat_lock ''/var/run/apk.lock'' (Return None)"
| "lock_check Apt = Do (Stat ''/var/lib/dpkg/lock-frontend'') (\<lambda>r.
     if succeeded r then pgrep ''apt-get'' (pgrep ''dpkg'' (Return None)) else Return None)"
| "lock_check Dnf = stat_lock ''/var/run/dnf.pid'' (pgrep ''dnf'' (Return None))"
| "lock_check Yum = stat_lock ''/var/run/yum.pid'' (pgrep ''yum'' (Return None))"
| "lock_check Pacman = stat_lock ''/var/lib/pacman/db.lck'' (Return None)"
| "lock_check Zypper = stat_lock ''/var/run/zypp.pid'' (Return None)"

definition PreFlightCheck :: "manager \<Rightarrow> preflight_error option prog" where
  "PreFlightCheck m = bind (CheckDiskSpace state_dir (min_space m)) (\<lambda>e.
     case e of Some x \<Rightarrow> Return (Some x) | None \<Rightarrow> lock_check m)"

section \<open>Is a reboot needed?\<close>

text \<open>The first word of \<^verbatim>\<open>strings.Fields\<close>.\<close>

fun until_space :: "string \<Rightarrow> string" where
  "until_space [] = []"
| "until_space (c # s) = (if list_ex (has_prefix (c # s)) go_spaces then [] else c # until_space s)"

definition first_word :: "string \<Rightarrow> string" where
  "first_word s = until_space (drop_spaces go_spaces s)"

text \<open>The second part of \<^verbatim>\<open>strings.SplitN(s, sep, 2)\<close>.\<close>

fun after_first :: "string \<Rightarrow> string \<Rightarrow> string option" where
  "after_first sep [] = (if sep = [] then Some [] else None)"
| "after_first sep (c # s) = (if has_prefix (c # s) sep then Some (drop (length sep) (c # s)) else after_first sep s)"

text \<open>The newest kernel package of \<^verbatim>\<open>rpm -q --last kernel\<close> is not the running one.\<close>

definition other_kernel :: "string \<Rightarrow> string \<Rightarrow> bool" where
  "other_kernel running listing =
     (case after_first ''kernel-'' (first_word (hd (split_on (CHR 0x0A) (trim_space listing)))) of
        None \<Rightarrow> False
      | Some version \<Rightarrow> version \<noteq> running)"

definition rpm_last :: "string \<Rightarrow> bool prog" where
  "rpm_last running = Do (Run [] [''rpm'', ''-q'', ''--last'', ''kernel'']) (\<lambda>r.
     Return (succeeded r \<and> other_kernel running (output_of r)))"

definition needs_restarting :: "(string \<Rightarrow> bool prog) \<Rightarrow> bool prog" where
  "needs_restarting compare = Do (Run [] [''needs-restarting'', ''-r'']) (\<lambda>r.
     case r of
       Exited c _ \<Rightarrow> if c = 1 then Return True
         else Do (Run [] [''uname'', ''-r'']) (\<lambda>u. if succeeded u then compare (trim_space (output_of u)) else Return False)
     | _ \<Rightarrow> Do (Run [] [''uname'', ''-r'']) (\<lambda>u. if succeeded u then compare (trim_space (output_of u)) else Return False))"

text \<open>\<^verbatim>\<open>extractVersion\<close>: at most three runs of digits.\<close>

definition extractVersion :: "string \<Rightarrow> string" where
  "extractVersion v =
     join_with ''.'' (take 3 (filter (\<lambda>w. w \<noteq> [])
       (split_on (CHR '' '') (map (\<lambda>c. if digit_val c = None then CHR '' '' else c) v))))"

definition needrestart :: "bool prog" where
  "needrestart = Do (Run [] [''needrestart'', ''-b'', ''-r'', ''l'']) (\<lambda>r.
     Return (succeeded r \<and> contains (output_of r) ''NEEDRESTART-KSTA: 3''))"

definition pacman_kernel :: "string \<Rightarrow> bool prog" where
  "pacman_kernel running = Do (Stat (''/usr/lib/modules/'' @ running)) (\<lambda>r.
     if r = Not_found then Return True
     else Do (Run [] [''pacman'', ''-Q'', ''linux'']) (\<lambda>q.
       case split_on (CHR '' '') (trim_space (output_of q)) of
         _ # installed # _ \<Rightarrow>
           (let a = extractVersion running; b = extractVersion installed
            in if succeeded q \<and> a \<noteq> [] \<and> b \<noteq> [] \<and> a \<noteq> b then Return True else needrestart)
       | _ \<Rightarrow> needrestart))"

fun RebootRequired :: "manager \<Rightarrow> bool prog" where
  "RebootRequired Apk = Return False"
| "RebootRequired Apt = Do (Stat ''/var/run/reboot-required'') (\<lambda>r. Return (succeeded r))"
| "RebootRequired Dnf = needs_restarting (\<lambda>running.
     Do (Run [] [''rpm'', ''-q'', ''kernel-'' @ running]) (\<lambda>r. if succeeded r then Return False else rpm_last running))"
| "RebootRequired Yum = needs_restarting rpm_last"
| "RebootRequired Pacman = Do (Run [] [''uname'', ''-r'']) (\<lambda>u.
     if succeeded u then pacman_kernel (trim_space (output_of u)) else needrestart)"
| "RebootRequired Zypper = Do (Run [] [''zypper'', ''needs-rebooting'']) (\<lambda>r.
     Return (\<not> succeeded r \<and> exit_code r = 102))"

section \<open>State, identity, tokens\<close>

record State =
  st_JobID :: string
  st_Action :: string
  st_Packages :: "string list option"
  st_Status :: string
  st_StartTime :: int

definition stateFile :: string where "stateFile = ''/var/lib/patchli/state.json''"

definition marshal_State :: "State \<Rightarrow> string" where
  "marshal_State s =
     ''{'' @ json_string ''job_id'' @ '':'' @ json_string (st_JobID s)
     @ '','' @ json_string ''action'' @ '':'' @ json_string (st_Action s)
     @ '','' @ json_string ''packages'' @ '':'' @ (case st_Packages s of None \<Rightarrow> ''null'' | Some ps \<Rightarrow> json_strings ps)
     @ '','' @ json_string ''status'' @ '':'' @ json_string (st_Status s)
     @ '','' @ json_string ''start_time'' @ '':'' @ dec_int (st_StartTime s) @ ''}''"

definition SaveState :: "State \<Rightarrow> reply option prog" where
  "SaveState s = Do (MkdirAll state_dir) (\<lambda>r.
     if \<not> succeeded r then Return (Some r)
     else Do (WriteFile stateFile (marshal_State s)) (\<lambda>w. Return (failed w)))"

text \<open>The state, if there is one, or the reply that was an error; \<open>decode\<close> is the JSON decoder.\<close>

definition LoadState :: "(string \<Rightarrow> State option) \<Rightarrow> (reply option + State option) prog" where
  "LoadState decode = Do (Stat stateFile) (\<lambda>r.
     if r = Not_found then Return (Inr None)
     else Do (ReadFile stateFile) (\<lambda>r. Return (case r of
       Done data \<Rightarrow> (case decode data of None \<Rightarrow> Inl None | Some s \<Rightarrow> Inr (Some s))
     | _ \<Rightarrow> Inl (Some r))))"

definition ClearState :: "reply option prog" where
  "ClearState = Do (Remove stateFile) (\<lambda>r. Return (if succeeded r \<or> r = Not_found then None else Some r))"

text \<open>\<^verbatim>\<open>GetOrGenerate\<close>: \<open>valid\<close> is \<^verbatim>\<open>uuid.Parse\<close>, \<open>new\<close> the result of \<^verbatim>\<open>uuid.New\<close>.\<close>

definition idFile :: string where "idFile = ''/etc/patchli/node_id''"

definition new_identity :: "string \<Rightarrow> (reply option \<times> string) prog" where
  "new_identity new = Do (MkdirAll ''/etc/patchli'') (\<lambda>r.
     if \<not> succeeded r then Return (Some r, new)
     else Do (WriteFile idFile new) (\<lambda>w. Return (failed w, new)))"

definition GetOrGenerate :: "(string \<Rightarrow> bool) \<Rightarrow> string \<Rightarrow> (reply option \<times> string) prog" where
  "GetOrGenerate valid new = Do (ReadFile idFile) (\<lambda>r.
     case r of
       Done data \<Rightarrow> if data \<noteq> [] \<and> valid (trim_space data) then Return (None, trim_space data) else new_identity new
     | _ \<Rightarrow> new_identity new)"

text \<open>
  \<^verbatim>\<open>writeTokens\<close> on a path of a directory; the temporary file's name is the reply of \<open>CreateTemp\<close>.
  The deferred actions close and remove that file on every way out.
\<close>

definition restrictTokenPath :: "string \<Rightarrow> bool \<Rightarrow> action" where
  "restrictTokenPath path directory = Chmod path (if directory then 448 else 384)"

definition leave :: "string \<Rightarrow> reply option \<Rightarrow> reply option prog" where
  "leave name e = Do (CloseFile name) (\<lambda>_. Do (Remove name) (\<lambda>_. Return e))"

definition write_restricted :: "string \<Rightarrow> string \<Rightarrow> string \<Rightarrow> reply option prog" where
  "write_restricted name path data = Do (restrictTokenPath name False) (\<lambda>r.
     if \<not> succeeded r then leave name (Some r)
     else Do (WriteFile name data) (\<lambda>r.
     if \<not> succeeded r then leave name (Some r)
     else Do (CloseFile name) (\<lambda>r.
     if \<not> succeeded r then leave name (Some r)
     else Do (Rename name path) (\<lambda>r. leave name (failed r)))))"

definition writeTokens :: "string \<Rightarrow> string \<Rightarrow> string \<Rightarrow> reply option prog" where
  "writeTokens dir path data = Do (MkdirAll dir) (\<lambda>r.
     if \<not> succeeded r then Return (Some r)
     else Do (restrictTokenPath dir True) (\<lambda>r.
     if \<not> succeeded r then Return (Some r)
     else Do (CreateTemp dir ''.tokens-*'') (\<lambda>r. case r of
       Done name \<Rightarrow> write_restricted name path data
     | r \<Rightarrow> Return (Some r))))"

section \<open>Removing the agent\<close>

datatype destruct_error = Not_root | No_path | Completed_with "reply list"

text \<open>An error of a removal, unless the file is not there.\<close>

definition removal_error :: "reply \<Rightarrow> reply list" where
  "removal_error r = (if succeeded r \<or> r = Not_found then [] else [r])"

definition quote_path :: "string \<Rightarrow> string" where
  "quote_path p = [CHR 0x27] @ replace_char (CHR 0x27) [CHR 0x27, CHR 0x5C, CHR 0x27, CHR 0x27] p @ [CHR 0x27]"

definition service_file :: string where "service_file = ''/etc/systemd/system/patchli-agent.service''"

definition remove_service :: "reply list prog" where
  "remove_service = Do (Stat service_file) (\<lambda>r.
     if \<not> succeeded r then Return []
     else Do (Run [] [''systemctl'', ''stop'', ''patchli-agent'']) (\<lambda>_.
       Do (Run [] [''systemctl'', ''disable'', ''patchli-agent'']) (\<lambda>_.
       Do (Remove service_file) (\<lambda>e.
       Do (Run [] [''systemctl'', ''daemon-reload'']) (\<lambda>_. Return (if succeeded e then [] else [e]))))))"

definition remove_binary :: "reply list \<Rightarrow> destruct_error option prog" where
  "remove_binary errs = Do Executable (\<lambda>r. case r of
     Done path \<Rightarrow> Do (Start (shell (''sleep 2; rm -f '' @ quote_path path))) (\<lambda>s.
       let errs = errs @ (if succeeded s then [] else [s])
       in Return (if errs = [] then None else Some (Completed_with errs)))
   | _ \<Rightarrow> Return (Some No_path))"

definition SelfDestruct :: "destruct_error option prog" where
  "SelfDestruct = Do Geteuid (\<lambda>u.
     if u \<noteq> User 0 then Return (Some Not_root)
     else bind remove_service (\<lambda>errs.
       Do (RemoveAll ''/etc/patchli'') (\<lambda>r1.
       Do (RemoveAll state_dir) (\<lambda>r2. remove_binary (errs @ removal_error r1 @ removal_error r2)))))"

section \<open>Executing a command\<close>

text \<open>The end of an update of the agent itself: its service is started again.\<close>

definition restartAgent :: "reply option prog" where
  "restartAgent = Do (Stat ''/run/openrc'') (\<lambda>r.
     Do (Run [] (if succeeded r then [''rc-service'', ''patchli-agent'', ''restart''] else [''systemctl'', ''restart'', ''patchli-agent'']))
       (\<lambda>s. Return (failed s)))"

text \<open>\<^verbatim>\<open>executeCommand\<close> gives the reported success of a job that finished, \<open>None\<close> if it returned before.\<close>

definition run_script :: "string \<Rightarrow> bool prog" where
  "run_script script = (if script = [] then Return True else Do (Run [] (shell script)) (\<lambda>r. Return (succeeded r)))"

definition packages :: "CommandPayload \<Rightarrow> string list" where
  "packages cmd = (case cp_Packages cmd of None \<Rightarrow> [] | Some ps \<Rightarrow> ps)"

definition apply_and_check :: "manager \<Rightarrow> CommandPayload \<Rightarrow> bool prog" where
  "apply_and_check m cmd = bind (ApplyUpdates m (packages cmd)) (\<lambda>res.
     if ur_Error res \<noteq> None then Return (ur_Success res)
     else bind (run_script (cp_PostPatchScript cmd)) (\<lambda>ok.
       if \<not> ok then Return False
       else bind (run_script (cp_HealthCheckCommand cmd)) (\<lambda>ok. Return (ok \<and> ur_Success res))))"

definition running_state :: "CommandPayload \<Rightarrow> State" where
  "running_state cmd =
     \<lparr>st_JobID = cp_ID cmd, st_Action = cp_Action cmd, st_Packages = None, st_Status = ''running'', st_StartTime = 0\<rparr>"

definition update_host :: "manager \<Rightarrow> CommandPayload \<Rightarrow> bool option prog" where
  "update_host m cmd = bind (PreFlightCheck m) (\<lambda>e.
     if e \<noteq> None then Return None
     else bind (run_script (cp_PrePatchScript cmd)) (\<lambda>ok.
       if \<not> ok then Return None
       else bind (SaveState (running_state cmd)) (\<lambda>_.
         bind (apply_and_check m cmd) (\<lambda>success.
         bind ClearState (\<lambda>_. Return (Some success))))))"

definition executeCommand :: "manager \<Rightarrow> CommandPayload \<Rightarrow> bool option prog" where
  "executeCommand m cmd =
     (if cp_Action cmd = ''apply_updates'' then update_host m cmd
      else if cp_Action cmd = ''check_updates'' then bind (CheckUpdates m) (\<lambda>res. Return (Some (ur_Success res)))
      else if cp_Action cmd = ''cleanup'' then bind (Cleanup m) (\<lambda>e. Return (Some (e = None)))
      else if cp_Action cmd = ''self_destruct'' then bind SelfDestruct (\<lambda>e. Return (Some (e = None)))
      else if cp_Action cmd = ''update_agent'' then Do SelfUpdate (\<lambda>r. Return (Some (succeeded r)))
      else if cp_Action cmd = ''chaos_restart'' then Do (ExitWith 1) (\<lambda>_. Return None)
      else Return None)"

text \<open>
  The host while the agent runs: \<open>ho_jobs\<close> are the goroutines of the commands that it executes.  A scheduled
  goroutine does its next action; an exit ends them all.
\<close>

record 's host =
  ho_state :: 's
  ho_jobs :: "bool option prog list"
  ho_log :: "(action \<times> reply) list"

datatype host_event = Received CommandPayload | Scheduled nat

fun next_action :: "bool option prog list \<Rightarrow> nat \<Rightarrow> (action \<times> (reply \<Rightarrow> bool option prog)) option" where
  "next_action jobs i = (if i < length jobs then case jobs ! i of Return _ \<Rightarrow> None | Do a k \<Rightarrow> Some (a, k) else None)"

fun host_step :: "(action \<Rightarrow> 's \<Rightarrow> reply \<times> 's) \<Rightarrow> manager \<Rightarrow> host_event \<Rightarrow> 's host \<Rightarrow> 's host" where
  "host_step os m (Received cmd) h = h\<lparr>ho_jobs := ho_jobs h @ [executeCommand m cmd]\<rparr>"
| "host_step os m (Scheduled i) h =
     (case next_action (ho_jobs h) i of
        None \<Rightarrow> h
      | Some (a, k) \<Rightarrow>
          (let (r, s) = os a (ho_state h)
           in h\<lparr>ho_state := s, ho_log := ho_log h @ [(a, r)],
                ho_jobs := (case a of ExitWith c \<Rightarrow> [] | _ \<Rightarrow> (ho_jobs h)[i := k r])\<rparr>))"

definition new_host :: "'s \<Rightarrow> 's host" where
  "new_host s = \<lparr>ho_state = s, ho_jobs = [], ho_log = []\<rparr>"

end
