(* ===== verification/Agent_Host_Laws.thy ===== *)
theory Agent_Host_Laws
  imports Agent_Host
begin

text \<open>
  What holds of the agent's operations on its host: the arithmetic of the disk check, the order of the
  actions of an update, what an agent can do to a host without a state directory, its identity, its token file
  and the quoting of the shell script that removes the binary.
\<close>

section \<open>Paths of a program\<close>

text \<open>The value that a program returns after the actions and replies of a list.\<close>

fun follows :: "'v prog \<Rightarrow> (action \<times> reply) list \<Rightarrow> 'v option" where
  "follows (Return v) [] = Some v"
| "follows (Return v) (x # tr) = None"
| "follows (Do a k) [] = None"
| "follows (Do a k) (x # tr) = (if fst x = a then follows (k (snd x)) tr else None)"

lemma follows_Return [simp]: "follows (Return v) tr = Some w \<longleftrightarrow> tr = [] \<and> w = v"
  by (cases tr) auto

lemma follows_Do [simp]: "follows (Do a k) tr = Some w \<longleftrightarrow> (\<exists>r tr1. tr = (a, r) # tr1 \<and> follows (k r) tr1 = Some w)"
  by (cases tr) auto

lemma follows_bind [simp]:
  "follows (bind p f) tr = Some w \<longleftrightarrow>
     (\<exists>tr1 tr2 v. tr = tr1 @ tr2 \<and> follows p tr1 = Some v \<and> follows (f v) tr2 = Some w)"
proof (induction p arbitrary: tr)
  case (Do a k)
  have "follows (bind (Do a k) f) tr = Some w \<longleftrightarrow>
      (\<exists>r rest tr1 tr2 v. tr = (a, r) # rest \<and> rest = tr1 @ tr2 \<and> follows (k r) tr1 = Some v \<and> follows (f v) tr2 = Some w)"
    by (simp add: Do.IH [OF rangeI])
  also have "\<dots> \<longleftrightarrow> (\<exists>tr1 tr2 v. tr = tr1 @ tr2 \<and> follows (Do a k) tr1 = Some v \<and> follows (f v) tr2 = Some w)"
  proof
    assume "\<exists>r rest tr1 tr2 v. tr = (a, r) # rest \<and> rest = tr1 @ tr2 \<and> follows (k r) tr1 = Some v \<and> follows (f v) tr2 = Some w"
    then obtain r tr1 tr2 v where "tr = ((a, r) # tr1) @ tr2" "follows (k r) tr1 = Some v" "follows (f v) tr2 = Some w" by auto
    moreover from this have "follows (Do a k) ((a, r) # tr1) = Some v" by simp
    ultimately show "\<exists>tr1 tr2 v. tr = tr1 @ tr2 \<and> follows (Do a k) tr1 = Some v \<and> follows (f v) tr2 = Some w" by blast
  qed (auto, blast)
  finally show ?case .
qed simp

lemma bind_Return [simp]: "bind p Return = p"
  by (induction p) auto

lemma bind_bind: "bind (bind p f) g = bind p (\<lambda>v. bind (f v) g)"
  by (induction p) auto

section \<open>Disk space\<close>

text \<open>The disk check decides exactly whether the free bytes, as a number of unbounded size, reach the required ones,
  although it multiplies 64-bit numbers: no product wraps around, and a block size that is not positive is refused.\<close>

lemma disk_check_exact:
  "disk_check minBytes bsize bavail = None \<longleftrightarrow> 0 < sint bsize \<and> unat minBytes \<le> unat bavail * unat bsize"
proof (cases "0 < sint bsize")
  case True
  then have pos: "0 < unat bsize" by (metis gr0I order_less_irrefl signed_0 unat_0_iff)
  have top: "unat (- 1 :: 64 word) = 2 ^ 64 - 1" by (simp add: unsigned_minus_1_eq_mask mask_eq_exp_minus_1)
  have quot: "bavail > (- 1) div bsize \<longleftrightarrow> (2 ^ 64 - 1) div unat bsize < unat bavail"
    by (simp add: word_less_nat_alt unat_div top)
  have below: "unat minBytes \<le> 2 ^ 64 - 1" using unsigned_less [of minBytes, where ?'a = nat] by simp
  show ?thesis
  proof (cases "(2 ^ 64 - 1) div unat bsize < unat bavail")
    case True
    then have "2 ^ 64 - 1 < unat bavail * unat bsize"
      using pos by (simp add: div_less_iff_less_mult)
    with below quot True \<open>0 < sint bsize\<close> show ?thesis
      by (simp add: disk_check_def word_less_nat_alt top)
  next
    case False
    then have "unat bavail * unat bsize \<le> 2 ^ 64 - 1"
      using pos by (simp add: div_less_iff_less_mult not_less)
    then have "unat (bavail * bsize) = unat bavail * unat bsize"
      by (simp add: unat_word_ariths)
    with False quot \<open>0 < sint bsize\<close> show ?thesis
      by (simp add: disk_check_def word_less_nat_alt)
  qed
qed (simp add: disk_check_def)

section \<open>The order of an update\<close>

text \<open>The commands that an update runs, but for the tests for other processes, with their success.\<close>

fun main_runs :: "(action \<times> reply) list \<Rightarrow> (string list \<times> bool) list" where
  "main_runs [] = []"
| "main_runs ((Run env argv, r) # tr) = (if hd argv = ''pgrep'' then main_runs tr else (argv, succeeded r) # main_runs tr)"
| "main_runs (x # tr) = main_runs tr"

lemma main_runs_append [simp]: "main_runs (tr @ tr1) = main_runs tr @ main_runs tr1"
  by (induction tr rule: main_runs.induct) auto

definition script_run :: "string \<Rightarrow> string list list" where
  "script_run s = (if s = [] then [] else [shell s])"

definition update_plan :: "manager \<Rightarrow> CommandPayload \<Rightarrow> string list list" where
  "update_plan m cmd =
     script_run (cp_PrePatchScript cmd) @ [apply_argv m (packages cmd)] @
     script_run (cp_PostPatchScript cmd) @ script_run (cp_HealthCheckCommand cmd)"

text \<open>The runs carry out a plan: in its order, up to its end or the first failure.\<close>

fun carries_out :: "(string list \<times> bool) list \<Rightarrow> string list list \<Rightarrow> bool" where
  "carries_out [] plan = (plan = [])"
| "carries_out (x # xs) [] = False"
| "carries_out (x # xs) (p # plan) = (fst x = p \<and> (if snd x then carries_out xs plan else xs = []))"

lemma carries_out_append:
  "carries_out xs p \<Longrightarrow> list_all snd xs \<Longrightarrow> carries_out (xs @ ys) (p @ q) = carries_out ys q"
  by (induction xs p rule: carries_out.induct) auto

lemma carries_out_failed:
  "carries_out xs p \<Longrightarrow> \<not> list_all snd xs \<Longrightarrow> carries_out xs (p @ q)"
  by (induction xs p rule: carries_out.induct) (auto split: if_splits)

lemma carries_out_all: "carries_out xs p \<Longrightarrow> list_all snd xs \<Longrightarrow> map fst xs = p"
  by (induction xs p rule: carries_out.induct) auto

lemma hd_apply_argv [simp]: "hd (apply_argv m ps) \<noteq> ''pgrep''"
  by (cases m) simp_all

lemma lock_check_main:
  assumes "follows (lock_check m) tr = Some e"
  shows "main_runs tr = []"
  using assms by (cases m) (auto simp: stat_lock_def pgrep_def split: if_splits)

lemma preflight_path:
  assumes "follows (PreFlightCheck m) tr = Some e"
  shows "main_runs tr = [] \<and> (\<exists>r tr1. tr = (Statfs state_dir, r) # tr1 \<and>
    (e = None \<longrightarrow> (\<exists>bsize bavail. r = Space bsize bavail \<and> disk_check (min_space m) bsize bavail = None)))"
  using assms lock_check_main
  by (auto simp: PreFlightCheck_def CheckDiskSpace_def split: option.splits reply.splits)

lemma run_script_path:
  assumes "follows (run_script s) tr = Some ok"
  shows "carries_out (main_runs tr) (script_run s) \<and> list_all snd (main_runs tr) = ok"
  using assms by (auto simp: run_script_def script_run_def shell_def split: if_splits)

lemma save_clear_path:
  "follows (SaveState s) tr = Some e \<Longrightarrow> main_runs tr = []"
  "follows ClearState tr = Some e \<Longrightarrow> main_runs tr = [] \<and> (\<exists>r. tr = [(Remove stateFile, r)])"
  by (auto simp: SaveState_def ClearState_def split: if_splits)

lemma apply_path:
  assumes "follows (apply_and_check m cmd) tr = Some ok"
  shows "carries_out (main_runs tr)
      (apply_argv m (packages cmd) # script_run (cp_PostPatchScript cmd) @ script_run (cp_HealthCheckCommand cmd)) \<and>
    list_all snd (main_runs tr) = ok"
proof -
  obtain r tr1 where tr: "tr = (Run (environ m) (apply_argv m (packages cmd)), r) # tr1"
    and rest: "follows (if ur_Error (result_of r) \<noteq> None then Return (ur_Success (result_of r))
       else bind (run_script (cp_PostPatchScript cmd)) (\<lambda>ok. if \<not> ok then Return False
         else bind (run_script (cp_HealthCheckCommand cmd)) (\<lambda>ok. Return (ok \<and> ur_Success (result_of r))))) tr1 = Some ok"
    using assms by (auto simp: apply_and_check_def ApplyUpdates_def)
  show ?thesis
  proof (cases "succeeded r")
    case False
    with tr rest show ?thesis by (simp add: result_of_def failed_def)
  next
    case True
    then have [simp]: "ur_Success (result_of r)" "ur_Error (result_of r) = None" by (simp_all add: result_of_def failed_def)
    have f: "(\<lambda>ok. if \<not> ok then Return False else bind (run_script (cp_HealthCheckCommand cmd)) (\<lambda>ok. Return (ok \<and> ur_Success (result_of r)))) =
        (\<lambda>ok. if ok then run_script (cp_HealthCheckCommand cmd) else Return False)"
      by (rule ext) simp
    from rest have "follows (bind (run_script (cp_PostPatchScript cmd))
        (\<lambda>ok. if ok then run_script (cp_HealthCheckCommand cmd) else Return False)) tr1 = Some ok"
      by (simp only: f simp_thms not_True_eq_False if_False \<open>ur_Error (result_of r) = None\<close>)
    then obtain tr2 tr3 ok1 where tr1: "tr1 = tr2 @ tr3" and a: "follows (run_script (cp_PostPatchScript cmd)) tr2 = Some ok1"
      and b: "follows (if ok1 then run_script (cp_HealthCheckCommand cmd) else Return False) tr3 = Some ok"
      unfolding follows_bind by blast
    note p = run_script_path [OF a]
    show ?thesis
    proof (cases ok1)
      case True
      with b have "follows (run_script (cp_HealthCheckCommand cmd)) tr3 = Some ok" by simp
      from run_script_path [OF this] p True \<open>succeeded r\<close> show ?thesis by (simp add: tr tr1 carries_out_append)
    next
      case False
      with b p \<open>succeeded r\<close> show ?thesis by (simp add: tr tr1 carries_out_failed)
    qed
  qed
qed

text \<open>C12. An update keeps to its plan.  On every way through the execution of an \<open>apply_updates\<close> command, whatever the
  system replies, either the pre-flight check fails and nothing is run, or the free space was enough, and
  the pre-patch script, the package manager on the command's packages, the post-patch script and the health
  check are run in this order, those that the command has, up to the first failure; success is reported
  exactly if all of them ran and succeeded; and a job that got as far as a report cleared its state file last.\<close>

theorem update_follows_plan:
  assumes "follows (executeCommand m cmd) tr = Some v" and "cp_Action cmd = ''apply_updates''"
  shows "(v = Some True \<longleftrightarrow> map fst (main_runs tr) = update_plan m cmd \<and> list_all snd (main_runs tr)) \<and>
    (main_runs tr = [] \<and> v = None \<or> carries_out (main_runs tr) (update_plan m cmd) \<and>
      (\<exists>bsize bavail. (Statfs state_dir, Space bsize bavail) \<in> set tr \<and> unat (min_space m) \<le> unat bavail * unat bsize)) \<and>
    (v \<noteq> None \<longrightarrow> fst (last tr) = Remove stateFile)"
proof -
  have "follows (update_host m cmd) tr = Some v" using assms by (simp add: executeCommand_def)
  then obtain tr1 tr2 e where tr: "tr = tr1 @ tr2" and pre: "follows (PreFlightCheck m) tr1 = Some e"
    and rest: "follows (if e \<noteq> None then Return None
       else bind (run_script (cp_PrePatchScript cmd)) (\<lambda>ok. if \<not> ok then Return None
         else bind (SaveState (running_state cmd)) (\<lambda>_. bind (apply_and_check m cmd) (\<lambda>success.
           bind ClearState (\<lambda>_. Return (Some success)))))) tr2 = Some v"
    unfolding update_host_def follows_bind by blast
  note pf = preflight_path [OF pre]
  show ?thesis
  proof (cases e)
    case (Some x)
    with rest pf tr show ?thesis by (simp add: update_plan_def)
  next
    case None
    with pf obtain bsize bavail where space: "(Statfs state_dir, Space bsize bavail) \<in> set tr"
      "unat (min_space m) \<le> unat bavail * unat bsize"
      using disk_check_exact tr by fastforce
    with rest obtain tr3 tr4 ok where tr2: "tr2 = tr3 @ tr4" and script: "follows (run_script (cp_PrePatchScript cmd)) tr3 = Some ok"
      and rest: "follows (if \<not> ok then Return None
         else bind (SaveState (running_state cmd)) (\<lambda>_. bind (apply_and_check m cmd) (\<lambda>success.
           bind ClearState (\<lambda>_. Return (Some success))))) tr4 = Some v"
      unfolding None simp_thms if_False follows_bind by blast
    note sc = run_script_path [OF script]
    show ?thesis
    proof (cases ok)
      case False
      with rest sc have "v = None" "tr4 = []" "carries_out (main_runs tr3) (update_plan m cmd)" "\<not> list_all snd (main_runs tr3)"
        by (simp_all add: update_plan_def carries_out_failed)
      with pf space show ?thesis by (auto simp: tr tr2)
    next
      case True
      with rest obtain ta tb tc ea ok1 ec where tr4: "tr4 = ta @ tb @ tc" and paths: "follows (SaveState (running_state cmd)) ta = Some ea"
          "follows (apply_and_check m cmd) tb = Some ok1" "follows ClearState tc = Some ec" and v: "v = Some ok1"
        by auto
      note p = save_clear_path(1) [OF paths(1)] apply_path [OF paths(2)] save_clear_path(2) [OF paths(3)]
      have main: "main_runs tr = main_runs tr3 @ main_runs tb" using pf p by (simp add: tr tr2 tr4)
      have all: "list_all snd (main_runs tr) = ok1" using sc p True by (simp add: main)
      have plan: "carries_out (main_runs tr) (update_plan m cmd)"
        unfolding main update_plan_def using sc p True by (simp add: carries_out_append)
      have "fst (last tr) = Remove stateFile" using p(3) by (auto simp: tr tr2 tr4)
      with all plan space v show ?thesis using carries_out_all by auto
    qed
  qed
qed

definition demo_update_command :: CommandPayload where
  "demo_update_command =
     \<lparr>cp_ID = ''j1'', cp_Action = ''apply_updates'', cp_Packages = Some [''linux-image'', ''curl''], cp_PrePatchScript = [],
      cp_PostPatchScript = ''true'', cp_HealthCheckCommand = ''check'', cp_NodeID = ''n1'', cp_ExpiresAt = 900, cp_Signature = []\<rparr>"

definition demo_update_path :: "(action \<times> reply) list" where
  "demo_update_path =
     [(Statfs state_dir, Space 4096 1000000), (Stat ''/var/lib/dpkg/lock-frontend'', Not_found),
      (MkdirAll state_dir, Done []), (WriteFile stateFile (marshal_State (running_state demo_update_command)), Done []),
      (Run [''DEBIAN_FRONTEND=noninteractive''] [''apt-get'', ''install'', ''-y'', ''curl'', ''linux-image''], Done ''ok''),
      (Run [] (shell ''true''), Exited 1 []), (Remove stateFile, Done [])]"

theorem update_follows_plan_witness:
  "carries_out [([''apt-get'', ''install'', ''-y'', ''curl'', ''linux-image''], True), (shell ''true'', False)]
     (update_plan Apt demo_update_command)"
proof -
  have "follows (executeCommand Apt demo_update_command) demo_update_path = Some (Some False)"
    by (simp add: executeCommand_def update_host_def demo_update_command_def demo_update_path_def PreFlightCheck_def
        CheckDiskSpace_def disk_check_def min_space_def run_script_def SaveState_def apply_and_check_def ApplyUpdates_def
        packages_def orderPackages_def late_package_def has_prefix_def environ_def result_of_def failed_def ClearState_def
        del: follows_bind)
  from update_follows_plan [OF this] show ?thesis
    by (simp add: demo_update_path_def shell_def demo_update_command_def)
qed

section \<open>A host without a state directory\<close>

text \<open>
  The actions of a program, as long as the state directory is missing: \<open>Statfs\<close> on it has no \<open>Space\<close>
  for an answer.
\<close>

definition updates :: "manager \<Rightarrow> action \<Rightarrow> bool" where
  "updates m a \<longleftrightarrow> (\<exists>env ps. a = Run env (apply_argv m ps))"

primrec bounded_by :: "(action \<Rightarrow> bool) \<Rightarrow> 'v prog \<Rightarrow> bool" where
  "bounded_by P (Return v) = True"
| "bounded_by P (Do a k) = (P a \<and> (\<forall>r. (\<forall>b n. a = Statfs state_dir \<longrightarrow> r \<noteq> Space b n) \<longrightarrow> bounded_by P (k r)))"

lemma bounded_by_bind: "bounded_by P p \<Longrightarrow> (\<And>v. bounded_by P (f v)) \<Longrightarrow> bounded_by P (bind p f)"
  by (induction p) auto

text \<open>
  What the agent can do while the directory is missing: look at files, remove files, end, restart or update
  itself, start the delayed removal of its binary, and run the package manager's check and cleanup
  commands and those that remove its service.  No script of an operator is among the commands, no
  installation and no creation of a directory.
\<close>

fun routine_commands :: "manager \<Rightarrow> string list list" where
  "routine_commands Apk = [[''apk'', ''update''], [''apk'', ''version'', ''-l'', ''<''], [''apk'', ''cache'', ''clean'']]"
| "routine_commands Apt =
     [[''apt-get'', ''update''], [''apt-get'', ''-s'', ''upgrade''], [''apt-get'', ''autoremove'', ''-y'']]"
| "routine_commands Dnf = [[''dnf'', ''check-update''], [''dnf'', ''autoremove'', ''-y'']]"
| "routine_commands Yum =
     [[''yum'', ''check-update'', ''-y''], shell ''yum help | grep -q autoremove'', [''yum'', ''autoremove'', ''-y''],
      [''yum'', ''clean'', ''all'']]"
| "routine_commands Pacman = [[''pacman'', ''-Sy''], [''pacman'', ''-Qu''], [''pacman'', ''-Sc'', ''--noconfirm'']]"
| "routine_commands Zypper =
     [[''zypper'', ''--non-interactive'', ''refresh''], [''zypper'', ''--non-interactive'', ''list-updates''],
      [''zypper'', ''clean'', ''-a'']]"

definition service_commands :: "string list list" where
  "service_commands =
     [[''systemctl'', ''stop'', ''patchli-agent''], [''systemctl'', ''disable'', ''patchli-agent''],
      [''systemctl'', ''daemon-reload'']]"

definition delayed_removal :: "string list \<Rightarrow> bool" where
  "delayed_removal argv \<longleftrightarrow>
     (case argv of
        [sh, c, script] \<Rightarrow> sh = ''sh'' \<and> c = ''-c'' \<and> has_prefix script ''sleep 2; rm -f ''
      | _ \<Rightarrow> False)"

fun routine :: "manager \<Rightarrow> action \<Rightarrow> bool" where
  "routine m (Run env argv) = (argv \<in> set (routine_commands m @ service_commands))"
| "routine m (Start argv) = delayed_removal argv"
| "routine m (Stat p) = True"
| "routine m (Statfs p) = True"
| "routine m (Remove p) = True"
| "routine m (RemoveAll p) = True"
| "routine m Executable = True"
| "routine m Geteuid = True"
| "routine m SelfUpdate = True"
| "routine m (ExitWith c) = True"
| "routine m a = False"

lemma CheckUpdates_routine: "bounded_by (routine m) (CheckUpdates m)"
  by (cases m) (auto simp: run_both_def run_100_def split: if_splits)

lemma Cleanup_routine: "bounded_by (routine m) (Cleanup m)"
  by (cases m) (auto split: if_splits)

lemma SelfDestruct_routine: "bounded_by (routine m) SelfDestruct"
proof -
  have "bounded_by (routine m) remove_service" by (simp add: remove_service_def service_commands_def)
  moreover have "bounded_by (routine m) (remove_binary errs)" for errs
    by (simp add: remove_binary_def Let_def delayed_removal_def shell_def has_prefix_def split: reply.split)
  ultimately show ?thesis by (simp add: SelfDestruct_def bounded_by_bind)
qed

lemma executeCommand_routine: "bounded_by (routine m) (executeCommand m cmd)"
proof -
  have "bounded_by (routine m) (update_host m cmd)"
    by (simp add: update_host_def PreFlightCheck_def CheckDiskSpace_def split: reply.split)
  then show ?thesis
    by (simp add: executeCommand_def bounded_by_bind CheckUpdates_routine Cleanup_routine SelfDestruct_routine)
qed

lemma routine_no_update: "routine m a \<Longrightarrow> \<not> updates m a"
proof
  assume r: "routine m a" and "updates m a"
  then obtain env ps where a: "a = Run env (apply_argv m ps)" by (auto simp: updates_def)
  have "apply_argv m ps \<notin> set (routine_commands m @ service_commands)"
    by (cases m) (simp_all add: service_commands_def shell_def)
  with r a show False by simp
qed

text \<open>C13. On a host whose state directory does not exist yet no update is ever applied.  The pre-flight check asks for the
  free space of \<open>/var/lib/patchli\<close>, which fails while that directory is missing, and the agent creates it only when it saves the
  state of a job that has passed the check.  So whatever commands arrive, and however their executions
  interleave, the package manager is never told to install or upgrade anything, no script of a command is run and
  the directory stays missing.  Assumed of the operating system: \<open>Statfs\<close> on the missing directory does not
  answer with free space, and none of the \<open>routine\<close> actions, the only ones the agent performs here, creates the
  directory; no process outside the agent creates it either.\<close>

theorem fresh_host_never_updates:
  assumes "\<And>a s. missing s \<Longrightarrow> routine m a \<Longrightarrow> missing (snd (os a s))"
    and "\<And>s b n. missing s \<Longrightarrow> fst (os (Statfs state_dir) s) \<noteq> Space b n"
    and "missing s"
  shows "missing (ho_state (fold (host_step os m) events (new_host s))) \<and>
    (\<forall>(a, r)\<in>set (ho_log (fold (host_step os m) events (new_host s))). routine m a \<and> \<not> updates m a)"
proof -
  define good where "good h \<longleftrightarrow> missing (ho_state h) \<and> (\<forall>p\<in>set (ho_jobs h). bounded_by (routine m) p) \<and>
      (\<forall>(a, r)\<in>set (ho_log h). routine m a)" for h :: "'a host"
  have step: "good (host_step os m e h)" if g: "good h" for e h
  proof (cases e)
    case (Received cmd)
    with g show ?thesis by (auto simp: good_def executeCommand_routine)
  next
    case (Scheduled i)
    show ?thesis
    proof (cases "next_action (ho_jobs h) i")
      case None
      with g Scheduled show ?thesis by simp
    next
      case (Some ak)
      then obtain a k where i: "i < length (ho_jobs h)" "ho_jobs h ! i = Do a k" and ak: "ak = (a, k)"
        by (auto split: if_splits prog.splits)
      obtain r s1 where os: "os a (ho_state h) = (r, s1)" by fastforce
      have b: "bounded_by (routine m) (Do a k)" using g i nth_mem unfolding good_def by metis
      then have a: "routine m a" by simp
      have m1: "missing s1" using assms(1) [of "ho_state h" a] a g os by (auto simp: good_def)
      have "a = Statfs state_dir \<longrightarrow> (\<forall>b n. r \<noteq> Space b n)"
        using assms(2) [of "ho_state h"] g os unfolding good_def by (metis fst_conv)
      with b have "bounded_by (routine m) (k r)" by simp
      with g have "\<forall>p\<in>set ((ho_jobs h)[i := k r]). bounded_by (routine m) p"
        using set_update_subset_insert [of "ho_jobs h" i "k r"] by (auto simp: good_def)
      with Scheduled Some ak os g a m1 show ?thesis by (auto simp: good_def split: action.split)
    qed
  qed
  have "good (fold (host_step os m) es h)" if "good h" for es h
    using that step by (induction es arbitrary: h) auto
  moreover have "good (new_host s)" using assms(3) by (simp add: good_def new_host_def)
  ultimately have "good (fold (host_step os m) events (new_host s))" by blast
  then show ?thesis by (auto simp: good_def routine_no_update)
qed

text \<open>A host whose state is whether the state directory exists; every command succeeds on it.\<close>

definition demo_os :: "action \<Rightarrow> bool \<Rightarrow> reply \<times> bool" where
  "demo_os a s =
     (case a of
        MkdirAll p \<Rightarrow> (Done [], s \<or> p = state_dir)
      | Statfs p \<Rightarrow> (if p = state_dir \<and> \<not> s then Not_found else Space 4096 1000000, s)
      | Stat p \<Rightarrow> (Not_found, s)
      | _ \<Rightarrow> (Done [], s))"

theorem fresh_host_never_updates_witness:
  "let h = fold (host_step demo_os Apt)
       ([Received demo_update_command, Received demo_update_command] @ map Scheduled [0, 1, 0, 1, 0, 1]) (new_host False)
   in \<not> ho_state h \<and> (\<forall>(a, r)\<in>set (ho_log h). routine Apt a \<and> \<not> updates Apt a)"
proof -
  have "Not (snd (demo_os a s))" if "Not s" "routine Apt a" for a s
    using that by (auto simp: demo_os_def split: action.splits)
  moreover have "fst (demo_os (Statfs state_dir) s) \<noteq> Space b n" if "Not s" for s b n
    using that by (simp add: demo_os_def)
  ultimately show ?thesis
    unfolding Let_def by (rule fresh_host_never_updates [where missing = Not]) simp_all
qed

text \<open>With the directory the same commands are carried out.\<close>

lemma prepared_host_updates:
  "\<exists>(a, r)\<in>set (ho_log (fold (host_step demo_os Apt) (Received demo_update_command # replicate 8 (Scheduled 0)) (new_host True))).
     updates Apt a"
proof -
  have "(Run (environ Apt) (apply_argv Apt (packages demo_update_command)), Done []) \<in>
      set (ho_log (fold (host_step demo_os Apt) (Received demo_update_command # replicate 8 (Scheduled 0)) (new_host True)))"
    by code_simp
  then show ?thesis unfolding updates_def by blast
qed

section \<open>Identity, token file, quoting\<close>

text \<open>An identity that was read or written is read again: the agent keeps its name.\<close>

lemma identity_written:
  assumes "follows (GetOrGenerate valid new) tr = Some (None, nid)"
  shows "nid = new \<and> (\<exists>r. last tr = (WriteFile idFile new, r) \<and> succeeded r) \<or>
    (\<exists>data. tr = [(ReadFile idFile, Done data)] \<and> nid = trim_space data \<and> valid nid)"
proof -
  obtain r tr1 where tr: "tr = (ReadFile idFile, r) # tr1" using assms by (auto simp: GetOrGenerate_def)
  have new: "follows (new_identity new) ws = Some (None, nid) \<Longrightarrow>
      nid = new \<and> ws \<noteq> [] \<and> (\<exists>r. last ws = (WriteFile idFile new, r) \<and> succeeded r)" for ws
    by (auto simp: new_identity_def failed_def split: if_splits)
  show ?thesis
    using assms new [of tr1] by (cases r) (auto simp: tr GetOrGenerate_def split: if_splits)
qed

lemma identity_reused:
  assumes "data \<noteq> []" and "valid (trim_space data)"
  shows "follows (GetOrGenerate valid new) [(ReadFile idFile, Done data)] = Some (None, trim_space data)"
  using assms by (simp add: GetOrGenerate_def)

text \<open>The tokens are written only to files that were restricted to their owner before.\<close>

fun owner_only :: "string list \<Rightarrow> (action \<times> reply) list \<Rightarrow> bool" where
  "owner_only ns [] = True"
| "owner_only ns ((Chmod n perm, r) # tr) = owner_only (if perm = 384 \<and> succeeded r then n # ns else ns) tr"
| "owner_only ns ((WriteFile n d, r) # tr) = (n \<in> set ns \<and> owner_only ns tr)"
| "owner_only ns (x # tr) = owner_only ns tr"

lemma tokens_owner_only:
  assumes "follows (writeTokens dir path data) tr = Some e"
  shows "owner_only [] tr"
proof -
  have w: "follows (write_restricted name path data) ws = Some e \<Longrightarrow> owner_only [] ws" for name ws
    by (auto simp: write_restricted_def restrictTokenPath_def leave_def split: if_splits)
  have c: "follows (case r of Done name \<Rightarrow> write_restricted name path data | r \<Rightarrow> Return (Some r)) ws = Some e \<Longrightarrow>
      owner_only [] ws" for r ws
    using w by (cases r) auto
  show ?thesis using assms c
    by (fastforce simp: writeTokens_def restrictTokenPath_def split: if_splits)
qed

text \<open>A shell reads the quoted path as the path: quoted parts, and escaped characters between them.\<close>

fun sh_read :: "bool \<Rightarrow> string \<Rightarrow> string option" where
  "sh_read q [] = (if q then None else Some [])"
| "sh_read True (c # s) = (if c = CHR 0x27 then sh_read False s else map_option ((#) c) (sh_read True s))"
| "sh_read False (c # s) =
     (if c = CHR 0x27 then sh_read True s
      else if c = CHR 0x5C then (case s of [] \<Rightarrow> None | d # t \<Rightarrow> map_option ((#) d) (sh_read False t)) else None)"

lemma quote_path_read: "sh_read False (quote_path p) = Some p"
proof -
  have "sh_read True (replace_char (CHR 0x27) [CHR 0x27, CHR 0x5C, CHR 0x27, CHR 0x27] p @ [CHR 0x27]) = Some p"
    by (induction p) (simp_all add: replace_char_def)
  then show ?thesis by (simp add: quote_path_def)
qed

end
