(* ===== verification/Agent_Service.thy ===== *)
theory Agent_Service
  imports Agent_Loop Webhooks
begin

text \<open>
  The agent's way to its controller (\<^verbatim>\<open>agent/cmd/patchli-agent/transport.go\<close>) and the watchdog that keeps it
  running (\<^verbatim>\<open>agent/watchdog/main.go\<close>).  URL and address parsing are arguments; the watchdog is a step
  relation on its modes.
\<close>

section \<open>The controller's address\<close>

record url =
  u_Scheme :: string
  u_Hostname :: string
  u_Host :: string
  u_User :: bool
  u_RawQuery :: string
  u_ForceQuery :: bool
  u_Fragment :: string
  u_EscapedPath :: string
  u_RawPath :: string
  u_Path :: string

record transport =
  tr_parse_url :: "string \<Rightarrow> url option"
  tr_parse_ip :: "string \<Rightarrow> net_ip option"
  tr_AllowInsecureLoopback :: bool
  tr_CommandPubKey :: string

datatype endpoint_error = Invalid_URL | Not_origin | Needs_https | Insecure_not_allowed | Needs_key | Invalid_path

text \<open>\<^verbatim>\<open>url.PathUnescape\<close>.\<close>

fun PathUnescape :: "string \<Rightarrow> string option" where
  "PathUnescape [] = Some []"
| "PathUnescape (c # s) =
     (if c \<noteq> CHR ''%'' then map_option ((#) c) (PathUnescape s)
      else case s of
        a # b # t \<Rightarrow>
          (case (hex_val a, hex_val b) of
             (Some x, Some y) \<Rightarrow> map_option ((#) (char_of (16 * x + y))) (PathUnescape t)
           | _ \<Rightarrow> None)
      | _ \<Rightarrow> None)"

definition trim_slashes :: "string \<Rightarrow> string" where
  "trim_slashes s = rev (dropWhile (\<lambda>c. c = CHR ''/'') (rev s))"

definition loopback_host :: "transport \<Rightarrow> string \<Rightarrow> bool" where
  "loopback_host T host =
     (case tr_parse_ip T host of
        None \<Rightarrow> EqualFold host ''localhost''
      | Some ip \<Rightarrow> (case AddrFromSlice ip of None \<Rightarrow> False | Some a \<Rightarrow> IsLoopback (Unmap a)))"

definition check_origin :: "transport \<Rightarrow> string \<Rightarrow> endpoint_error + url" where
  "check_origin T raw =
     (let raw = (if raw = [] then ''localhost:8080'' else raw);
          raw = (if \<not> contains raw ''://'' then ''https://'' @ raw else raw)
      in case tr_parse_url T raw of
        None \<Rightarrow> Inl Invalid_URL
      | Some u \<Rightarrow>
          if u_Hostname u = [] \<or> u_User u \<or> u_RawQuery u \<noteq> [] \<or> u_ForceQuery u \<or> u_Fragment u \<noteq> [] \<or>
             u_Scheme u \<noteq> ''https'' \<and> u_Scheme u \<noteq> ''http'' then Inl Not_origin
          else if u_Scheme u = ''http'' \<and> \<not> loopback_host T (u_Hostname u) then Inl Needs_https
          else if u_Scheme u = ''http'' \<and> \<not> tr_AllowInsecureLoopback T then Inl Insecure_not_allowed
          else if u_Scheme u = ''http'' \<and> tr_CommandPubKey T = [] then Inl Needs_key
          else Inr u)"

definition controllerEndpoint :: "transport \<Rightarrow> string \<Rightarrow> string \<Rightarrow> endpoint_error + url" where
  "controllerEndpoint T raw endpoint =
     (case check_origin T raw of
        Inl e \<Rightarrow> Inl e
      | Inr u \<Rightarrow> (let path = trim_slashes (u_EscapedPath u) @ endpoint in
          case PathUnescape path of
            None \<Rightarrow> Inl Invalid_path
          | Some p \<Rightarrow> Inr (u\<lparr>u_RawPath := path, u_Path := p\<rparr>)))"

text \<open>The address of the socket.\<close>

definition socket_url :: "url \<Rightarrow> url" where
  "socket_url u = u\<lparr>u_Scheme := (if u_Scheme u = ''https'' then ''wss'' else ''ws'')\<rparr>"

text \<open>Credentials go over TLS, or to a loopback address that was allowed, with commands authenticated.\<close>

lemma endpoint_protected:
  assumes "controllerEndpoint T raw endpoint = Inr u"
  shows "u_Scheme (socket_url u) = ''wss'' \<or>
    u_Scheme u = ''http'' \<and> loopback_host T (u_Hostname u) \<and> tr_AllowInsecureLoopback T \<and> tr_CommandPubKey T \<noteq> []"
proof -
  obtain u0 where "check_origin T raw = Inr u0" "u_Scheme u = u_Scheme u0" "u_Hostname u = u_Hostname u0"
    using assms by (auto simp: controllerEndpoint_def Let_def split: sum.splits option.splits)
  then show ?thesis by (auto simp: check_origin_def Let_def socket_url_def split: option.splits if_splits)
qed

lemma PathUnescape_append:
  "PathUnescape s = Some p \<Longrightarrow> CHR ''%'' \<notin> set e \<Longrightarrow> PathUnescape (s @ e) = Some (p @ e)"
proof (induction s arbitrary: p rule: PathUnescape.induct)
  case 1
  have "PathUnescape e = Some e" if "CHR ''%'' \<notin> set e" for e using that by (induction e) auto
  with 1 show ?case by simp
next
  case (2 c s)
  show ?case
  proof (cases "c = CHR ''%''")
    case False
    with 2 show ?thesis by fastforce
  next
    case True
    with 2(3) obtain a b t x y q where s: "s = a # b # t" "hex_val a = Some x" "hex_val b = Some y"
        and q: "PathUnescape t = Some q" "p = char_of (16 * x + y) # q"
      by (auto split: list.splits option.splits)
    have "PathUnescape (t @ e) = Some (q @ e)" using 2 True s q by simp
    with True s q(2) show ?thesis by simp
  qed
qed

text \<open>
  An address that the agent accepted when it started is accepted for each of its endpoints: no later request fails on it.
\<close>

lemma endpoint_checked_once:
  assumes "controllerEndpoint T raw [] = Inr u" and "CHR ''%'' \<notin> set endpoint"
  shows "\<exists>v. controllerEndpoint T raw endpoint = Inr v \<and> u_Scheme v = u_Scheme u \<and> u_Host v = u_Host u \<and>
    u_Path v = u_Path u @ endpoint"
  using assms
  by (auto simp: controllerEndpoint_def Let_def PathUnescape_append split: sum.splits option.splits)

section \<open>The watchdog\<close>

definition parseArgs :: "string list \<Rightarrow> string" where
  "parseArgs args = (case args of _ # path # _ \<Rightarrow> path | _ \<Rightarrow> ''/usr/local/bin/patchli-agent'')"

text \<open>\<open>Term\<close> waits for the agent to end after a signal; \<open>wd_live\<close> counts its processes, \<open>wd_starts\<close> the starts.\<close>

datatype wd_mode = Starting | Retry | Running | Term | Restart | Exited_wd

record watchdog =
  wd_mode :: wd_mode
  wd_live :: nat
  wd_starts :: nat

datatype wd_event = Start_ok | Start_failed | Sig | Agent_exited | Timer

inductive runWatchdog :: "watchdog \<Rightarrow> wd_event \<Rightarrow> watchdog \<Rightarrow> bool" where
  started: "wd_mode w = Starting \<Longrightarrow>
     runWatchdog w Start_ok (w\<lparr>wd_mode := Running, wd_live := Suc (wd_live w), wd_starts := Suc (wd_starts w)\<rparr>)"
| not_started: "wd_mode w = Starting \<Longrightarrow> runWatchdog w Start_failed (w\<lparr>wd_mode := Retry\<rparr>)"
| retry: "wd_mode w = Retry \<Longrightarrow> runWatchdog w Timer (w\<lparr>wd_mode := Starting\<rparr>)"
| retry_signal: "wd_mode w = Retry \<Longrightarrow> runWatchdog w Sig (w\<lparr>wd_mode := Exited_wd\<rparr>)"
| signal: "wd_mode w = Running \<Longrightarrow> runWatchdog w Sig (w\<lparr>wd_mode := Term\<rparr>)"
| exited: "wd_mode w = Running \<Longrightarrow> runWatchdog w Agent_exited (w\<lparr>wd_mode := Restart, wd_live := wd_live w - 1\<rparr>)"
| ended: "wd_mode w = Term \<Longrightarrow> runWatchdog w Agent_exited (w\<lparr>wd_mode := Exited_wd, wd_live := wd_live w - 1\<rparr>)"
| killed: "wd_mode w = Term \<Longrightarrow> runWatchdog w Timer (w\<lparr>wd_mode := Exited_wd, wd_live := wd_live w - 1\<rparr>)"
| restart: "wd_mode w = Restart \<Longrightarrow> runWatchdog w Timer (w\<lparr>wd_mode := Starting\<rparr>)"
| restart_signal: "wd_mode w = Restart \<Longrightarrow> runWatchdog w Sig (w\<lparr>wd_mode := Exited_wd\<rparr>)"

code_pred runWatchdog .

definition new_watchdog :: watchdog where
  "new_watchdog = \<lparr>wd_mode = Starting, wd_live = 0, wd_starts = 0\<rparr>"

inductive watched :: "wd_event list \<Rightarrow> watchdog \<Rightarrow> bool" where
  new: "watched [] new_watchdog"
| next_step: "watched es w \<Longrightarrow> runWatchdog w e w1 \<Longrightarrow> watched (es @ [e]) w1"

inductive_cases runWatchdogE: "runWatchdog w e w1"

text \<open>There is at most one agent, and none is left when the watchdog ends; a start follows the end of the agent before.\<close>

lemma one_agent:
  "watched es w \<Longrightarrow> wd_live w = (if wd_mode w = Running \<or> wd_mode w = Term then 1 else 0) \<and>
     wd_starts w = length (filter ((=) Start_ok) es)"
proof (induction rule: watched.induct)
  case new
  then show ?case by (simp add: new_watchdog_def)
next
  case (next_step es w e w1)
  then show ?case by (auto elim!: runWatchdogE)
qed

text \<open>A signal ends the watchdog: it starts no agent after one.\<close>

lemma no_start_after_signal:
  "watched es w \<Longrightarrow> Sig \<in> set es \<longleftrightarrow> wd_mode w = Term \<or> wd_mode w = Exited_wd"
proof (induction rule: watched.induct)
  case new
  then show ?case by (simp add: new_watchdog_def)
next
  case (next_step es w e w1)
  then show ?case by (auto elim!: runWatchdogE)
qed

end
