(* ===== verification/Server_Routes.thy ===== *)
theory Server_Routes
  imports Auth_Handlers Api_Handlers Websocket_Session Cmdsign Agent_Loop Agent_Update
begin

text \<open>
  The server put together (\<^verbatim>\<open>server/cmd/patchli-server/main.go\<close>): the routes with their middlewares, on the
  request multiplexer of \<^verbatim>\<open>net/http\<close>, and the start-up checks.  Static files, the upgrade of a connection
  and redirections are arguments; request paths are without percent escapes.  A request to the socket runs its
  session: what is read from the connection is a reading of the request, and a list without an end of
  the session stands for a request that still runs.  How sessions interleave is in \<open>Websocket_Session\<close>.

  The theorems say which requests can change the database, and what an agent gets from the server at the paths
  that it polls and downloads from.
\<close>

section \<open>The multiplexer\<close>

text \<open>\<^verbatim>\<open>path.Clean\<close> on a rooted path, and what \<^verbatim>\<open>net/http\<close> makes of it: a trailing slash is kept.\<close>

fun clean_segments :: "string list \<Rightarrow> string list \<Rightarrow> string list" where
  "clean_segments out [] = rev out"
| "clean_segments out (s # ss) =
     (if s = [] \<or> s = ''.'' then clean_segments out ss
      else if s = ''..'' then clean_segments (tl out) ss
      else clean_segments (s # out) ss)"

definition clean_path :: "string \<Rightarrow> string" where
  "clean_path p =
     (let np = CHR ''/'' # join_with ''/'' (clean_segments [] (split_on (CHR ''/'') p))
      in if p \<noteq> [] \<and> last p = CHR ''/'' \<and> np \<noteq> ''/'' then np @ ''/'' else np)"

text \<open>A pattern that ends in a slash matches everything below it; the longest pattern wins.\<close>

definition pattern_matches :: "string \<Rightarrow> string \<Rightarrow> bool" where
  "pattern_matches p path \<longleftrightarrow> p = path \<or> p \<noteq> [] \<and> last p = CHR ''/'' \<and> has_prefix path p"

fun longest :: "(string \<times> 'h) list \<Rightarrow> (string \<times> 'h) option" where
  "longest [] = None"
| "longest (x # xs) =
     (case longest xs of
        None \<Rightarrow> Some x
      | Some y \<Rightarrow> if length (fst y) > length (fst x) then Some y else Some x)"

definition mux_find :: "(string \<times> 'h) list \<Rightarrow> string \<Rightarrow> 'h option" where
  "mux_find hs path = map_option snd (longest (filter (\<lambda>(p, h). pattern_matches p path) hs))"

definition NotFound :: http_response where
  "NotFound = http_Error ''404 page not found'' 404"

definition ServeMux :: "(string \<Rightarrow> http_response) \<Rightarrow> (string \<times> 's handler) list \<Rightarrow> 's handler" where
  "ServeMux redirect hs r st =
     (let path = (if r_Method r = ''CONNECT'' then r_Path r else clean_path (r_Path r)) in
      if path \<notin> fst ` set hs \<and> path \<noteq> [] \<and> last path \<noteq> CHR ''/'' \<and> path @ ''/'' \<in> fst ` set hs then (redirect (path @ ''/''), st)
      else if path \<noteq> r_Path r then (redirect path, st)
      else case mux_find hs path of None \<Rightarrow> (NotFound, st) | Some h \<Rightarrow> h r st)"

section \<open>The server\<close>

record server =
  sv_db :: db_state
  sv_limiter :: RateLimiter
  sv_fleet :: AgentManager

text \<open>
  The configuration and what lies outside the sources (the upgrade learns whether the origin was accepted, answers, and
  tells whether there is a connection now); then the readings of one request.
\<close>

record server_env =
  sn_api :: api_env
  sn_auth :: auth_env
  sn_file :: "string \<Rightarrow> bytes option"
  sn_static :: "http_request \<Rightarrow> http_response"
  sn_upgrade :: "bool \<Rightarrow> http_request \<Rightarrow> http_response \<times> bool"
  sn_format :: "time \<Rightarrow> string"
  sn_redirect :: "string \<Rightarrow> http_response"
  sn_jwtSecret :: bytes

record request_env =
  rq_now :: time
  rq_random :: bytes
  rq_readings :: readings
  rq_ping :: bool
  rq_conn :: conn
  rq_session :: "session_event list"

definition handleHealth :: "request_env \<Rightarrow> server handler" where
  "handleHealth Q r s =
     (if DB (sv_db s) \<noteq> None \<and> \<not> rq_ping Q then (http_Error ''Database unavailable'' 503, s) else (respond [] ''OK'', s))"

definition handle_root :: "server_env \<Rightarrow> server handler" where
  "handle_root N r s =
     (if r_Path r \<noteq> ''/'' then (NotFound, s)
      else case sn_file N ''index.html'' of
        None \<Rightarrow> (http_Error ''Not found'' 404, s)
      | Some data \<Rightarrow> (respond [(''Content-Type'', ''text/html'')] data, s))"

text \<open>Handlers that read the registry or write the database.\<close>

definition with_fleet :: "(http_request \<Rightarrow> AgentManager \<Rightarrow> http_response) \<Rightarrow> server handler" where
  "with_fleet f r s = (f r (sv_fleet s), s)"

definition with_db :: "(http_request \<Rightarrow> db_state \<Rightarrow> http_response \<times> db_state) \<Rightarrow> server handler" where
  "with_db f r s = (let p = f r (sv_db s) in (fst p, s\<lparr>sv_db := snd p\<rparr>))"

definition limited :: "request_env \<Rightarrow> server handler \<Rightarrow> server handler" where
  "limited Q = rl_Middleware sv_limiter (\<lambda>l s. s\<lparr>sv_limiter := l\<rparr>) (rq_now Q)"

definition HandleWebSocket :: "server_env \<Rightarrow> request_env \<Rightarrow> server handler" where
  "HandleWebSocket N Q r s =
     (case ws_authenticate (ae_jwt (sn_auth N)) (sn_jwtSecret N) (rq_now Q) r of
        Inl e \<Rightarrow> (e, s)
      | Inr node \<Rightarrow>
          (case sn_upgrade N (CheckOrigin (getenv (sn_api N)) r) r of
             (w, False) \<Rightarrow> (w, s)
           | (w, True) \<Rightarrow>
               let h = snd (run_session (sn_format N) (rq_conn Q) node (rq_session Q)
                              \<lparr>h_registry = sv_fleet s, h_db = sv_db s\<rparr>)
               in (w, s\<lparr>sv_fleet := h_registry h, sv_db := h_db h\<rparr>)))"

definition admin :: "server_env \<Rightarrow> server handler \<Rightarrow> server handler" where
  "admin N = AuthMiddleware (getenv (sn_api N))"

definition routes :: "server_env \<Rightarrow> request_env \<Rightarrow> (string \<times> server handler) list" where
  "routes N Q =
     [(''/health'', handleHealth Q),
      (''/static/'', \<lambda>r s. (sn_static N (r\<lparr>r_Path := trim_prefix (r_Path r) ''/static/''\<rparr>), s)),
      (''/'', handle_root N),
      (''/setup'', with_fleet (\<lambda>r _. ServeSetupUI (sn_api N) r)),
      (''/api/v1/nodes'', admin N (with_fleet (\<lambda>_ am. HandleNodes am))),
      (''/api/v1/stats'', admin N (with_fleet (\<lambda>_ am. HandleStats am))),
      (''/api/v1/setup'', admin N (with_fleet (\<lambda>r _. HandleSetup (sn_api N) (rq_now Q) (rq_random Q) r))),
      (''/api/v1/nodes/revoke'', admin N (with_db (HandleRevokeEnrollment (sn_auth N) (rq_readings Q)))),
      (''/api/v1/auth/login'', limited Q (with_db (HandleAgentLogin (sn_auth N) (rq_readings Q)))),
      (''/api/v1/auth/refresh'', limited Q (with_db (HandleAgentRefresh (sn_auth N) (rq_readings Q)))),
      (''/ws'', HandleWebSocket N Q)]"

definition serve :: "server_env \<Rightarrow> request_env \<Rightarrow> server handler" where
  "serve N Q = SecurityHeaders (ServeMux (sn_redirect N) (routes N Q))"

section \<open>Start-up\<close>

text \<open>
  The checks of the start, with the outcomes of \<^verbatim>\<open>auth.InitSecrets\<close>, \<^verbatim>\<open>websocket.InitSecrets\<close>,
  \<^verbatim>\<open>cmdsign.Init\<close> and \<^verbatim>\<open>db.Init\<close>; then the address to listen on and whether TLS is used.
\<close>

datatype startup = Fatal string | Listening string bool

definition start_server :: "bool \<Rightarrow> bool \<Rightarrow> bool \<Rightarrow> (string \<Rightarrow> string) \<Rightarrow> startup" where
  "start_server secrets_ok signing_ok db_ok env =
     (if \<not> secrets_ok then Fatal ''secrets''
      else if \<not> signing_ok then Fatal ''Invalid command signing key''
      else if env ''DB_URL'' \<noteq> [] \<and> \<not> db_ok then Fatal ''DB Init failed''
      else let port = (if env ''PORT'' = [] then ''8080'' else env ''PORT'');
               certFile = env ''TLS_CERT_FILE''; keyFile = env ''TLS_KEY_FILE''
           in if (certFile = []) \<noteq> (keyFile = []) then Fatal ''TLS_CERT_FILE and TLS_KEY_FILE must be set together''
              else Listening ('':'' @ port) (certFile \<noteq> []))"

definition new_server :: "db_state \<Rightarrow> server" where
  "new_server d = \<lparr>sv_db = d, sv_limiter = NewRateLimiter 30 minute, sv_fleet = Registry\<rparr>"

section \<open>Who can change the database\<close>

definition admin_authorized :: "server_env \<Rightarrow> http_request \<Rightarrow> bool" where
  "admin_authorized N r \<longleftrightarrow> getenv (sn_api N) ''ADMIN_TOKEN'' \<noteq> [] \<and>
     header_Get r ''Authorization'' = ''Bearer '' @ getenv (sn_api N) ''ADMIN_TOKEN''"

definition client_ip :: "http_request \<Rightarrow> string" where
  "client_ip r = (case SplitHostPort (r_RemoteAddr r) of None \<Rightarrow> r_RemoteAddr r | Some (h, _) \<Rightarrow> h)"

lemma longest_in: "longest xs = Some x \<Longrightarrow> x \<in> set xs"
  by (induction xs arbitrary: x) (auto split: option.splits if_splits)

lemma mux_find_matches: "mux_find hs path = Some h \<Longrightarrow> \<exists>p. (p, h) \<in> set hs \<and> pattern_matches p path"
  by (auto simp: mux_find_def dest!: longest_in)

text \<open>A request is answered by a route that matches its path, or the state stays.\<close>

lemma serve_route:
  assumes "snd (serve N Q r s) \<noteq> s"
  obtains p h where "(p, h) \<in> set (routes N Q)" "pattern_matches p (r_Path r)" "snd (serve N Q r s) = snd (h r s)"
proof -
  have "snd (serve N Q r s) = snd (ServeMux (sn_redirect N) (routes N Q) r s)"
    by (simp add: serve_def SecurityHeaders_def Let_def)
  moreover have "\<exists>p h. (p, h) \<in> set (routes N Q) \<and> pattern_matches p (r_Path r) \<and> snd (ServeMux (sn_redirect N) (routes N Q) r s) = snd (h r s)"
    if "snd (ServeMux (sn_redirect N) (routes N Q) r s) \<noteq> s"
  proof -
    from that obtain h where h: "mux_find (routes N Q) (r_Path r) = Some h"
        "snd (ServeMux (sn_redirect N) (routes N Q) r s) = snd (h r s)"
      by (auto simp: ServeMux_def Let_def split: if_splits option.splits)
    with mux_find_matches [OF h(1)] show ?thesis by blast
  qed
  ultimately show ?thesis using assms that by auto
qed

lemma admin_state:
  "snd (admin N h r s) = (if admin_authorized N r then snd (h r s) else s)"
proof -
  have "has_prefix x ''Bearer '' \<and> trim_prefix x ''Bearer '' = t \<longleftrightarrow> x = ''Bearer '' @ t" for x t
  proof
    assume "has_prefix x ''Bearer '' \<and> trim_prefix x ''Bearer '' = t"
    then have "take (length ''Bearer '') x = ''Bearer ''" "drop (length ''Bearer '') x = t"
      by (metis has_prefix_def, metis has_prefix_def trim_prefix_def)
    then show "x = ''Bearer '' @ t" using append_take_drop_id [of "length ''Bearer ''" x] by simp
  qed (simp add: has_prefix_def trim_prefix_def)
  then show ?thesis by (auto simp: admin_def AuthMiddleware_def admin_authorized_def Let_def)
qed

lemma limited_state:
  "sv_db (snd (limited Q h r s)) =
     (if fst (allow (sv_limiter s) (rq_now Q, client_ip r))
      then sv_db (snd (h r (s\<lparr>sv_limiter := snd (allow (sv_limiter s) (rq_now Q, client_ip r))\<rparr>))) else sv_db s)"
  by (simp add: limited_def rl_Middleware_def client_ip_def Let_def split: option.split prod.split)

lemma post_only:
  "r_Method r \<noteq> ''POST'' \<Longrightarrow> snd (HandleAgentLogin A R r d) = d"
  "r_Method r \<noteq> ''POST'' \<Longrightarrow> snd (HandleAgentRefresh A R r d) = d"
  "r_Method r \<noteq> ''POST'' \<Longrightarrow> snd (HandleRevokeEnrollment A R r d) = d"
  by (simp_all add: HandleAgentLogin_def HandleAgentRefresh_def HandleRevokeEnrollment_def)

lemma with_db_state [simp]: "sv_db (snd (with_db f r s)) = snd (f r (sv_db s))" "sv_fleet (snd (with_db f r s)) = sv_fleet s"
  by (simp_all add: with_db_def Let_def)

lemma with_fleet_state [simp]: "snd (with_fleet f r s) = s"
  by (simp add: with_fleet_def)

lemma limited_fleet: "sv_fleet (snd (limited Q (with_db f) r s)) = sv_fleet s"
  by (simp add: limited_def rl_Middleware_def Let_def split: option.split prod.split)

text \<open>The handlers of the routes that keep the whole state.\<close>

lemma reading_routes:
  "snd (handleHealth Q r s) = s" "snd (handle_root N r s) = s"
  by (simp_all add: handleHealth_def handle_root_def split: option.split)

text \<open>What a request to the socket can change: what belongs to the node of its token.\<close>

definition hub_of :: "server \<Rightarrow> hub" where
  "hub_of s = \<lparr>h_registry = sv_fleet s, h_db = sv_db s\<rparr>"

definition socket_change :: "server_env \<Rightarrow> request_env \<Rightarrow> http_request \<Rightarrow> server \<Rightarrow> server \<Rightarrow> bool" where
  "socket_change N Q r s s' \<longleftrightarrow>
     (case ws_authenticate (ae_jwt (sn_auth N)) (sn_jwtSecret N) (rq_now Q) r of
        Inl _ \<Rightarrow> False
      | Inr node \<Rightarrow> hub_confined node (hub_of s) (hub_of s'))"

lemma socket_state:
  "snd (HandleWebSocket N Q r s) = s \<or> socket_change N Q r s (snd (HandleWebSocket N Q r s))"
proof (cases "ws_authenticate (ae_jwt (sn_auth N)) (sn_jwtSecret N) (rq_now Q) r")
  case (Inr node)
  obtain w up where up: "sn_upgrade N (CheckOrigin (getenv (sn_api N)) r) r = (w, up)" by fastforce
  have conf: "hub_confined node g \<lparr>h_registry = h_registry h, h_db = h_db h\<rparr>"
    if "h = snd (run_session fmt cn node es g)" for fmt cn es g h
    using that run_session_confined [of node g fmt cn es] by (simp add: hub_confined_def)
  show ?thesis
  proof (cases up)
    case True
    with Inr up conf [OF refl] show ?thesis by (simp add: HandleWebSocket_def socket_change_def hub_of_def Let_def)
  qed (use Inr up in \<open>simp add: HandleWebSocket_def\<close>)
qed (simp add: HandleWebSocket_def)

text \<open>C10. A request changes what the database holds, or the registry of agents, in three ways only.  A \<open>POST\<close> to the login or
  the refresh endpoint that the rate limiter lets through, and a \<open>POST\<close> to the revocation endpoint that bears the
  configured, non-empty admin token, change the database and leave the registry.  A request to the socket with an
  access token of a node, and whatever is sent on that connection, changes only that node's entries in the
  registry and that node's row in the database.  This holds for every path, however it is written.\<close>

theorem database_changes_guarded:
  "(sv_fleet (snd (serve N Q r s)) = sv_fleet s \<and> sv_db (snd (serve N Q r s)) = sv_db s) \<or>
   (sv_fleet (snd (serve N Q r s)) = sv_fleet s \<and> r_Method r = ''POST'' \<and>
     (r_Path r \<in> {''/api/v1/auth/login'', ''/api/v1/auth/refresh''} \<and> fst (allow (sv_limiter s) (rq_now Q, client_ip r)) \<or>
      r_Path r = ''/api/v1/nodes/revoke'' \<and> admin_authorized N r)) \<or>
   (r_Path r = ''/ws'' \<and>
     (case ws_authenticate (ae_jwt (sn_auth N)) (sn_jwtSecret N) (rq_now Q) r of
        Inl _ \<Rightarrow> False
      | Inr node \<Rightarrow>
          registry_confined node (sv_fleet s) (sv_fleet (snd (serve N Q r s))) \<and>
          nodes_confined node (sv_db s) (sv_db (snd (serve N Q r s)))))"
proof (cases "snd (serve N Q r s) = s")
  case False
  then obtain p h where h: "(p, h) \<in> set (routes N Q)" "pattern_matches p (r_Path r)" "snd (serve N Q r s) = snd (h r s)"
    by (rule serve_route)
  show ?thesis
  proof (cases "p = ''/ws''")
    case True
    then have "h = HandleWebSocket N Q" "r_Path r = ''/ws''" using h(1,2) by (auto simp: routes_def pattern_matches_def)
    with socket_state [of N Q r s] False h(3) show ?thesis
      by (auto simp: socket_change_def hub_confined_def hub_of_def split: sum.splits)
  next
    case other: False
    have "(sv_fleet (snd (h r s)) = sv_fleet s \<and> sv_db (snd (h r s)) = sv_db s) \<or>
      (sv_fleet (snd (h r s)) = sv_fleet s \<and> r_Method r = ''POST'' \<and>
       (r_Path r \<in> {''/api/v1/auth/login'', ''/api/v1/auth/refresh''} \<and> fst (allow (sv_limiter s) (rq_now Q, client_ip r)) \<or>
        r_Path r = ''/api/v1/nodes/revoke'' \<and> admin_authorized N r))"
      using h(1) other unfolding routes_def list.set insert_iff prod.inject empty_iff
      by (elim disjE conjE, simp_all only: reading_routes snd_conv admin_state with_fleet_state limited_fleet limited_state)
        (use h(2) in \<open>auto simp: pattern_matches_def post_only split: if_splits\<close>)
    with h(3) show ?thesis by (simp only:) blast
  qed
qed simp

text \<open>The socket does change both: the first heartbeat of a node registers its connection.\<close>

lemma socket_registers:
  assumes "ae_jwt (sn_auth N) = toy_jwt" and "sn_jwtSecret N = ''j''" and "sn_upgrade N = (\<lambda>ok r. (respond [] [], True))"
    and "rq_now Q = 5" and "rq_session Q = [Read_message f 5 (HeartbeatMsg ws_hb)]"
  shows "gget (agents (sv_fleet (snd (serve N Q ws_request s)))) ''m'' = Some (rq_conn Q)"
proof -
  have "mux_find (routes N Q) ''/ws'' = Some (HandleWebSocket N Q)"
    by (simp add: mux_find_def routes_def pattern_matches_def has_prefix_def)
  moreover have "clean_path ''/ws'' = ''/ws''" by code_simp
  moreover have "''/ws/'' \<notin> fst ` set (routes N Q)" by (simp add: routes_def)
  ultimately have "snd (serve N Q ws_request s) = snd (HandleWebSocket N Q ws_request s)"
    by (simp add: serve_def SecurityHeaders_def ServeMux_def ws_request_def Let_def)
  then show ?thesis
    by (simp add: HandleWebSocket_def assms ws_request_accepted run_session_def new_session_def on_message_def
        Register_def ws_hb_def Let_def)
qed

section \<open>What the agent asks for\<close>

text \<open>The requests of \<^verbatim>\<open>startHTTPPolling\<close> and \<^verbatim>\<open>performSecureAgentUpdate\<close>, and how the agent takes the answers.\<close>

definition poll_request :: "http_request \<Rightarrow> http_request" where
  "poll_request r = r\<lparr>r_Method := ''POST'', r_Path := ''/api/v1/poll''\<rparr>"

definition manifest_request :: "http_request \<Rightarrow> http_request" where
  "manifest_request r = r\<lparr>r_Method := ''GET'', r_Path := ''/download/agent.manifest''\<rparr>"

definition maxCommandBytes :: nat where "maxCommandBytes = 2 ^ 20"

definition poll_event :: "(bytes \<Rightarrow> CommandPayload option) \<Rightarrow> AgentTokenPair option \<Rightarrow> bool \<Rightarrow> time \<Rightarrow> http_response \<Rightarrow> agent_event" where
  "poll_event decode refreshed save_ok now w =
     (if w_Status w = 200 then Poll_ok now (decode (take maxCommandBytes (w_Body w)))
      else if w_Status w = 401 then Poll_unauthorized refreshed save_ok
      else Poll_other)"

definition download :: "http_response \<Rightarrow> response" where
  "download w = \<lparr>rs_StatusCode = int (w_Status w), rs_body = w_Body w, rs_broken = False\<rparr>"

lemma route_paths:
  "fst ` set (routes N Q) = {''/health'', ''/static/'', ''/'', ''/setup'', ''/api/v1/nodes'', ''/api/v1/stats'', ''/api/v1/setup'',
     ''/api/v1/nodes/revoke'', ''/api/v1/auth/login'', ''/api/v1/auth/refresh'', ''/ws''}"
  by (simp add: routes_def)

lemma root_only:
  "mux_find (routes N Q) ''/api/v1/poll'' = Some (handle_root N)"
  "mux_find (routes N Q) ''/download/agent.manifest'' = Some (handle_root N)"
  "mux_find (routes N Q) ''/api/v1/stream'' = Some (handle_root N)"
  "mux_find (routes N Q) ''/api/v1/nodes/recent'' = Some (handle_root N)"
  by (simp_all add: mux_find_def routes_def pattern_matches_def has_prefix_def)

lemma clean_paths:
  "clean_path ''/api/v1/poll'' = ''/api/v1/poll''"
  "clean_path ''/download/agent.manifest'' = ''/download/agent.manifest''"
  "clean_path ''/api/v1/stream'' = ''/api/v1/stream''"
  "clean_path ''/api/v1/nodes/recent'' = ''/api/v1/nodes/recent''"
  by code_simp+

text \<open>A path that only the root pattern matches.\<close>

lemma unserved:
  assumes path: "r_Path r = path" and root: "mux_find (routes N Q) path = Some (handle_root N)" and clean: "clean_path path = path"
    and slash: "path @ ''/'' \<notin> fst ` set (routes N Q)" and other: "path \<noteq> ''/''"
  shows "w_Status (fst (serve N Q r s)) = 404"
proof -
  have "ServeMux (sn_redirect N) (routes N Q) r s = handle_root N r s"
    using slash by (simp only: ServeMux_def Let_def path root clean if_cancel simp_thms if_False option.case)
  then show ?thesis
    using other by (simp add: serve_def SecurityHeaders_def handle_root_def path NotFound_def http_Error_def Let_def)
qed

lemma poll_unserved: "w_Status (fst (serve N Q (poll_request r) s)) = 404"
  by (rule unserved [OF _ root_only(1) clean_paths(1)]) (simp_all add: poll_request_def route_paths)

lemma manifest_unserved: "w_Status (fst (serve N Q (manifest_request r) s)) = 404"
  by (rule unserved [OF _ root_only(2) clean_paths(2)]) (simp_all add: manifest_request_def route_paths)

text \<open>C11. Two paths that the agent relies on are not among the server's routes.  Once an agent has fallen back to polling, no
  answer of this server changes anything about it, however often it polls and in whatever state the server is: it
  receives no command, gets no new tokens and does not go back to the socket.  And an update of the agent itself
  that asks this server for the manifest ends there, with the files as they were.\<close>

theorem polling_agent_unserved:
  "agent_run C (map (\<lambda>(now, Q, r, s). poll_event decode refreshed save_ok now (fst (serve N Q (poll_request r) s))) rounds)
     (fall_back a) = Some (fall_back a) \<and>
   performSecureAgentUpdate E unmarshal sha256 B
     (ctl\<lparr>ct_manifest := Some (download (fst (serve N Q1 (manifest_request r1) s1)))\<rparr>) F P fs = (Some NoManifest, fs)"
proof
  have "poll_event decode refreshed save_ok now (fst (serve N Q (poll_request r) s)) = Poll_other" for now Q r s
    by (simp add: poll_event_def poll_unserved)
  then show "agent_run C (map (\<lambda>(now, Q, r, s). poll_event decode refreshed save_ok now (fst (serve N Q (poll_request r) s))) rounds)
     (fall_back a) = Some (fall_back a)"
    by (induction rounds) (auto simp: fall_back_def)
  show "performSecureAgentUpdate E unmarshal sha256 B
     (ctl\<lparr>ct_manifest := Some (download (fst (serve N Q1 (manifest_request r1) s1)))\<rparr>) F P fs = (Some NoManifest, fs)"
    by (simp add: performSecureAgentUpdate_def fetchLimited_def download_def manifest_unserved)
qed

text \<open>
  The same holds for the event stream of the dashboard and for the list of recent nodes that the setup page asks for:
  \<^verbatim>\<open>HandleStream\<close> has no route.
\<close>

lemma page_paths_unserved:
  "r_Path r = ''/api/v1/stream'' \<Longrightarrow> w_Status (fst (serve N Q r s)) = 404"
  "r_Path r = ''/api/v1/nodes/recent'' \<Longrightarrow> w_Status (fst (serve N Q r s)) = 404"
  by (rule unserved [OF _ root_only(3) clean_paths(3)], simp_all add: route_paths)
    (rule unserved [OF _ root_only(4) clean_paths(4)], simp_all add: route_paths)

text \<open>The dashboard asks for statistics and nodes without a token, and is refused.\<close>

lemma dashboard_refused:
  assumes "r_Path r = ''/api/v1/stats''" and "header_Get r ''Authorization'' = []"
  shows "w_Status (fst (serve N Q r s)) = 401"
proof -
  have "mux_find (routes N Q) ''/api/v1/stats'' = Some (admin N (with_fleet (\<lambda>_ am. HandleStats am)))"
    by (simp add: mux_find_def routes_def pattern_matches_def has_prefix_def)
  moreover have "clean_path ''/api/v1/stats'' = ''/api/v1/stats''" by code_simp
  ultimately have "ServeMux (sn_redirect N) (routes N Q) r s = admin N (with_fleet (\<lambda>_ am. HandleStats am)) r s"
    by (simp add: ServeMux_def Let_def assms(1) route_paths)
  then show ?thesis
    using assms(2) by (simp add: serve_def SecurityHeaders_def admin_def AuthMiddleware_def http_Error_def has_prefix_def Let_def)
qed

end
