(* ===== verification/Spec2Isabelle.thy ===== *)
theory Spec2Isabelle
  imports Command_Auth Auth_Handlers Middleware Worker_Pool Websocket_Session Webhooks Api_Handlers
    Quick_Lru Css_Error Css_Input Css_List Css_Roundtrip Css_Parse_Errors Css_Tree_Each Value_Parser Css_Escape
    Tw_Content Tw_Duplicates Tw_Merge Autoprefixer Tw_Candidates_Laws Tw_Plugin Css_Process_Laws
    Agent_Update Agent_Host_Laws Agent_Service Server_Routes
begin

text \<open>
  \<^bold>\<open>Patchli\<close> is a control plane (\<^verbatim>\<open>src/server\<close>) and an agent (\<^verbatim>\<open>src/agent\<close>) that patch a fleet of
  machines, with a dashboard (\<^verbatim>\<open>src/server/static\<close>) whose style sheet is compiled in the page by a bundled
  compiler (\<^verbatim>\<open>assets/js/tailwind.js\<close>).  This development models the server's components and their routes, the agent's loop, what it does to its host and
  its update, and the parts of the bundle that parse, locate and print CSS, run plugins over it, read content,
  resolve and escape class names and order the generated rules.

  \<^bold>\<open>How the parts interact.\<close>  An operator fetches a setup script; its signed registration grant lets an
  agent log in once and get a token pair; the agent then keeps a WebSocket session that registers it
  in the fleet and the database.  Operators submit jobs to a worker pool, which checks pause flags,
  maintenance windows and per-group limits and sends a signed command to the agent, which verifies it and
  runs its package manager; an agent that cannot open its socket falls back to polling.
  The dashboard reads node lists and statistics.  In the page, the compiler tokenizes and parses CSS,
  reports errors with source excerpts, scans the content for class names, escapes them into selectors,
  sorts the rules it generates, merges rules and drops overridden declarations, prefixes declarations and prints the tree.

  \<^bold>\<open>Theories and sources.\<close>  Server paths are below \<^verbatim>\<open>src/server/internal\<close>.
  \<^item> \<open>Prelude\<close>, \<open>Codec\<close>, \<open>Http\<close>, \<open>Js_Text\<close>: shared vocabulary.  Go maps as association lists (locale
    \<open>go_store\<close>), the single-use register (locale \<open>single_use\<close>: a key that was taken is refused while
    its record lives, interpreted by the replay cache and the nonce table), Go's JSON, base64 and
    number formats, HTTP requests and responses, JavaScript strings and line counting.
  \<^item> \<open>Models\<close>, \<open>Cmdsign\<close> (\<^verbatim>\<open>models\<close>, \<^verbatim>\<open>cmdsign\<close>) and \<open>Command_Auth\<close> (agent \<^verbatim>\<open>command_auth.go\<close>): signing a command
    and verifying it.  A signed command of well-formed UTF-8 is accepted, binds every field and, if a key is configured,
    is accepted at most once.  The trip through JSON replaces ill-formed bytes.
  \<^item> \<open>Agent_Loop\<close>, \<open>Agent_Update\<close> (agent \<^verbatim>\<open>main.go\<close>), \<open>Agent_Host\<close>, \<open>Agent_Host_Laws\<close> (\<^verbatim>\<open>executeCommand\<close>, agent \<^verbatim>\<open>internal/updater\<close>,
    \<^verbatim>\<open>internal/state\<close>, \<^verbatim>\<open>internal/identity\<close>, \<^verbatim>\<open>tokens.go\<close>) and \<open>Agent_Service\<close> (\<^verbatim>\<open>transport.go\<close>, \<^verbatim>\<open>watchdog/main.go\<close>): the loop as a machine
    driven by the outcomes of its network operations, and operations on the host as programs of actions that branch
    on the system's replies, interleaved for commands that run at the same time.  With a key only verified commands are executed, an
    update keeps to its plan, a host without a state directory is never updated, an update of the agent installs
    signed, newer releases only.
  \<^item> \<open>Server_Routes\<close> (\<^verbatim>\<open>server/cmd/patchli-server/main.go\<close>): the multiplexer and all routes with their middlewares, over the
    modelled handlers, the socket with its whole session.  It says which requests can change the database and the
    registry, and what the agent gets at the paths it asks for.
  \<^item> \<open>Auth\<close> (\<^verbatim>\<open>auth\<close>), \<open>Db\<close> (\<^verbatim>\<open>db\<close>), \<open>Auth_Handlers\<close> (\<^verbatim>\<open>api/auth_handlers.go\<close>): tokens, enrollment and refresh.
    The transactions of the database are sequences of statements over its tables and refine atomic
    specifications; a grant logs in once, a refresh token is redeemed once, nobody takes over a node.
  \<^item> \<open>Middleware\<close> (\<^verbatim>\<open>api/middleware.go\<close>, \<^verbatim>\<open>proxy\<close>), \<open>Api_Handlers\<close> (\<^verbatim>\<open>api/handlers.go\<close>): rate limit, admin guard,
    origin policy, setup scripts and pages.
  \<^item> \<open>Fleet\<close> (\<^verbatim>\<open>fleet\<close>), \<open>Worker_Pool\<close> (\<^verbatim>\<open>orchestration\<close>), \<open>Websocket_Session\<close> (\<^verbatim>\<open>websocket\<close>): the registry, the
    job pool as a step relation over all interleavings of its workers, and the session loop as a step
    relation over registry and database.  Jobs are conserved, windows and limits respected, sessions
    confined to their node.
  \<^item> \<open>Webhooks\<close> (\<^verbatim>\<open>webhooks\<close>): payloads and the public-address filter of outgoing deliveries.
  \<^item> Of \<^verbatim>\<open>tailwind.js\<close>: \<open>Quick_Lru\<close> (the cache class, line 7), \<open>Css_Error\<close> (syntax errors, 7 to 13),
    \<open>Stringifier\<close> (the printer, 13 to 24, with the tree walk of 26), \<open>Css_Input\<close> (positions, 24 to 27),
    \<open>Css_List\<close> (list helpers and selectors, 27 and 28), \<open>Css_Tokenizer\<close> (28 and 29), \<open>Css_Parser\<close> and
    \<open>Css_Roundtrip\<close> (the parser class, 29, and the proof that printing a parsed text gives the text),
    \<open>Css_Parse_Errors\<close> (where its errors are reported), \<open>Css_Tree\<close>, \<open>Css_Tree_Laws\<close> and \<open>Css_Tree_Each\<close> (nodes as
    objects: moving them and walking over them, 25 to 27), \<open>Css_Process\<close> and \<open>Css_Process_Laws\<close> (plugins, their
    visitors in the recursive walk and in the stack machine, lazy results, 29 to 31), \<open>Value_Parser\<close> (values as nodes and back, 40),
    \<open>Css_Escape\<close> (escaping class names and reading them, 31 to 33), \<open>Tw_Offsets\<close> (variant bits and the order
    of rules, 37), \<open>Tw_Candidates\<close> and \<open>Tw_Candidates_Laws\<close> (from class names to
    utilities and the caches of their rules, 7 and 33 to 37), \<open>Tw_Plugin\<close> (the passes, the configuration directive and the
    plugin, 33, 40 and 41), \<open>Tw_Content\<close> (lines of the content, their cache, rules by layer, 38 and 39),
    \<open>Tw_Merge\<close> and \<open>Tw_Duplicates\<close> (passes over the sheet, 38 and 40, which keep what it says),
    \<open>Autoprefixer\<close> (declaration prefixer, space reduction, plugin entry, 42 to 70).  The lines of the bundle are long;
    the manifest names the minified function for each definition.

  \<^bold>\<open>Conventions.\<close>  State is a record that operations take and return; errors are values of a sum or
  option type; libraries outside the repository (HMAC and Ed25519, JWT parsing, the SQL engine's
  clock, DNS, URL parsing) are arguments, with what is relied on stated as a predicate, and each
  property with such a hypothesis has a witness with a concrete instance.  Clock readings and random
  bytes are arguments.  Go strings are byte strings; JavaScript strings are modelled for code units
  below 256, except in \<open>Css_Escape\<close>, where they are lists of 16-bit units and surrogate pairs matter.

  \<^bold>\<open>Termination and bounds.\<close>  Loops are total functions with measures (binary search, closing quotes,
  string search), except the token loop, which has fuel (the length of the text is shown to be enough),
  and the walks over children and over the tree by plugins, which need not end: they are partial functions, and shown
  to end under a condition on the callback, and for plugins that only inspect.  Machine integers are kept where they matter: Unix seconds wrap as
  \<^verbatim>\<open>int64\<close>, addresses and disk sizes are words.

  \<^bold>\<open>Not modelled.\<close>  Of the server, timeouts, TLS and the graceful shutdown; of the agent, heartbeats, self-diagnosis and
  the Windows branches; the inline scripts of the pages; the schema migrations; of the bundle, the
  positions that the parser stores in nodes, the tree that an operation leaves when it throws in the middle, cloning, CSS documents, source maps, the hack classes and tables of the
  prefixer, the selector parser and the rest of the compiler (variants, core plugins, theme, expansion of
  apply), which rest on large tables and on libraries that are bundled with it.  Logging, stack traces and terminal
  colours are left out throughout.
\<close>

end
